(* ===== verification/Prelude.thy ===== *)
theory Prelude
  imports Main "HOL-Library.Word"
begin

text \<open>
  Shared vocabulary of the development: machine-word types, bit fields and byte lanes as the
  SystemVerilog and C++ sources slice them, the byte-masked merge used by every memory-mapped
  slave, the error bind of the fallible C++ routines, and the lemma collections the component
  theories draw on.
\<close>

unbundle bit_operations_syntax

named_theorems lane_simps "reading one byte lane or one bit of an assembled word"
named_theorems err_simps "results of the error bind"

type_synonym u8 = "8 word"
type_synonym u16 = "16 word"
type_synonym u32 = "32 word"
type_synonym u64 = "64 word"
type_synonym bytes = "8 word list"

section \<open>Bit fields\<close>

text \<open>
  \<open>fld lo x\<close> is the SystemVerilog part select \<open>x[hi:lo]\<close>; the width of the result type gives
  \<open>hi\<close>.
\<close>

definition fld :: "nat \<Rightarrow> 'a::len word \<Rightarrow> 'b::len word" where
  "fld lo x = ucast (drop_bit lo x)"

lemma bit_fld [lane_simps]:
  "bit (fld lo (x :: 'a::len word) :: 'b::len word) n \<longleftrightarrow> n < LENGTH('b) \<and> bit x (lo + n)"
  by (simp add: fld_def bit_simps)

lemma unat_fld: "unat (fld lo x :: 'b::len word) = unat x div 2 ^ lo mod 2 ^ LENGTH('b)"
  by (simp only: fld_def unsigned_ucast_eq take_bit_eq_mod unat_drop_bit_eq) (simp only: drop_bit_eq_div)

definition bw :: "bool \<Rightarrow> 'a::len word" where
  "bw b = (if b then 1 else 0)"

lemma bw_simps [simp]: "bw True = 1" "bw False = 0"
  by (simp_all add: bw_def)

text \<open>Assigning one bit or one field of a register, \<open>x[n] <= b\<close> and \<open>x[hi:lo] <= f\<close>.\<close>

definition put_bit :: "nat \<Rightarrow> bool \<Rightarrow> 'a::len word \<Rightarrow> 'a word" where
  "put_bit n b x = (if b then set_bit n x else unset_bit n x)"

lemma bit_put_bit [lane_simps]:
  "bit (put_bit n b (x :: 'a::len word)) m \<longleftrightarrow> (if m = n then n < LENGTH('a) \<and> b else bit x m)"
  by (auto simp: put_bit_def bit_simps dest: bit_imp_le_length)

definition put_fld :: "nat \<Rightarrow> 'b::len word \<Rightarrow> 'a::len word \<Rightarrow> 'a word" where
  "put_fld lo f x = (x AND NOT (push_bit lo (mask LENGTH('b)))) OR push_bit lo (ucast f)"

lemma bit_put_fld [lane_simps]:
  "bit (put_fld lo (f :: 'b::len word) (x :: 'a::len word)) m \<longleftrightarrow> m < LENGTH('a) \<and>
     (if lo \<le> m \<and> m < lo + LENGTH('b) then bit f (m - lo) else bit x m)"
  by (auto simp: put_fld_def bit_simps dest: bit_imp_le_length)

section \<open>Byte lanes\<close>

definition byte_of :: "u32 \<Rightarrow> nat \<Rightarrow> u8" where
  "byte_of w k = fld (8 * k) w"

definition mk_word :: "u8 \<Rightarrow> u8 \<Rightarrow> u8 \<Rightarrow> u8 \<Rightarrow> u32" where
  "mk_word b0 b1 b2 b3 =
     ucast b0 OR push_bit 8 (ucast b1) OR push_bit 16 (ucast b2) OR push_bit 24 (ucast b3)"

lemma bit_byte_of [lane_simps]: "bit (byte_of w k) n \<longleftrightarrow> n < 8 \<and> bit w (8 * k + n)"
  by (simp add: byte_of_def lane_simps)

lemma bit_mk_word [lane_simps]:
  "bit (mk_word b0 b1 b2 b3) n \<longleftrightarrow>
     (if n < 8 then bit b0 n else if n < 16 then bit b1 (n - 8)
      else if n < 24 then bit b2 (n - 16) else n < 32 \<and> bit b3 (n - 24))"
  by (auto simp: mk_word_def bit_simps dest: bit_imp_le_length)

lemma byte_of_mk_word [simp]:
  "byte_of (mk_word b0 b1 b2 b3) 0 = b0" "byte_of (mk_word b0 b1 b2 b3) (Suc 0) = b1"
  "byte_of (mk_word b0 b1 b2 b3) 2 = b2" "byte_of (mk_word b0 b1 b2 b3) 3 = b3"
  by (auto intro!: bit_word_eqI simp: lane_simps)

lemma mk_word_byte_of [simp]: "mk_word (byte_of w 0) (byte_of w (Suc 0)) (byte_of w 2) (byte_of w 3) = w"
  by (rule bit_word_eqI) (auto simp: lane_simps)

lemma word_eq_lanesI:
  assumes "\<And>k. k < 4 \<Longrightarrow> byte_of v k = byte_of w k"
  shows "v = w"
proof -
  have "byte_of v 0 = byte_of w 0" "byte_of v (Suc 0) = byte_of w (Suc 0)"
    "byte_of v 2 = byte_of w 2" "byte_of v 3 = byte_of w 3"
    by (simp_all add: assms)
  then show ?thesis by (metis mk_word_byte_of)
qed

lemma less_4_cases: "(k::nat) < 4 \<longleftrightarrow> k = 0 \<or> k = 1 \<or> k = 2 \<or> k = 3"
  by auto

text \<open>The byte-masked merge (\<open>apply_wmask\<close> of \<open>clint.sv\<close> and \<open>plic.sv\<close>).\<close>

definition apply_wmask :: "u32 \<Rightarrow> u32 \<Rightarrow> 4 word \<Rightarrow> u32" where
  "apply_wmask old_val new_val m = mk_word
     (if bit m 0 then byte_of new_val 0 else byte_of old_val 0)
     (if bit m 1 then byte_of new_val 1 else byte_of old_val 1)
     (if bit m 2 then byte_of new_val 2 else byte_of old_val 2)
     (if bit m 3 then byte_of new_val 3 else byte_of old_val 3)"

lemma byte_of_apply_wmask [lane_simps]:
  "k < 4 \<Longrightarrow> byte_of (apply_wmask v w m) k = (if bit m k then byte_of w k else byte_of v k)"
  by (auto simp: apply_wmask_def less_4_cases)

lemma apply_wmask_none [simp]: "apply_wmask v w 0 = v"
  by (rule word_eq_lanesI) (simp add: lane_simps)

lemma apply_wmask_all [simp]: "apply_wmask v w 15 = w"
proof -
  have "bit (15 :: 4 word) k" if "k < 4" for k
    using that by (auto simp: less_4_cases bit_iff_odd)
  then show ?thesis by (intro word_eq_lanesI) (simp add: lane_simps)
qed

lemma apply_wmask_idem [simp]: "apply_wmask (apply_wmask v w m) w m = apply_wmask v w m"
  by (rule word_eq_lanesI) (simp add: lane_simps)

section \<open>Errors\<close>

definition bindE :: "'e + 'a \<Rightarrow> ('a \<Rightarrow> 'e + 'b) \<Rightarrow> 'e + 'b" where
  "bindE r f = (case r of Inl e \<Rightarrow> Inl e | Inr x \<Rightarrow> f x)"

lemma bindE_simps [simp, err_simps]: "bindE (Inl e) f = Inl e" "bindE (Inr x) f = f x"
  by (simp_all add: bindE_def)

lemma bindE_eq_Inr [err_simps]: "bindE r f = Inr y \<longleftrightarrow> (\<exists>x. r = Inr x \<and> f x = Inr y)"
  by (cases r) auto

lemma bindE_eq_Inl [err_simps]:
  "bindE r f = Inl e \<longleftrightarrow> r = Inl e \<or> (\<exists>x. r = Inr x \<and> f x = Inl e)"
  by (cases r) auto

section \<open>Bounds on 32-bit values\<close>

lemma unat_u32_less: "unat (w :: u32) < 4294967296"
  using unsigned_less[of w, where 'a = nat] by simp

lemma u32_stride: "n < 4294967296 \<Longrightarrow> n \<le> 2 ^ 32 - 4 + n mod (4 :: nat)"
  by simp presburger

lemma unat_add_small:
  fixes w :: u32
  assumes "unat w + b < 2 ^ 32"
  shows "unat (w + of_nat b) = unat w + b"
  using assms by (simp add: unat_word_ariths unat_of_nat)

lemma unat_of_nat_u32: "a < 4294967296 \<Longrightarrow> unat (of_nat a :: u32) = a"
  by (simp add: unat_of_nat)

lemma u64_step:
  assumes "(g :: u64) < t"
  shows "unat (g + 1) = Suc (unat g)"
proof -
  have "unat g < unat t" using assms by (simp add: word_less_nat_alt)
  moreover have "unat t < 2 ^ 64" using unsigned_less[of t, where 'a = nat] by simp
  ultimately show ?thesis by (simp add: unat_word_ariths)
qed

section \<open>Word-aligned addresses\<close>

lemma file_step_bound:
  assumes "j < (n + 3) div (4 :: nat)"
  shows "4 * j < n"
proof -
  have "4 * Suc j \<le> 4 * ((n + 3) div 4)" using assms by simp
  also have "\<dots> \<le> n + 3" by simp
  finally show ?thesis by simp
qed

lemma aligned_split:
  assumes "a mod 4 = (0 :: nat)"
  shows "(a + b) div 4 = a div 4 + b div 4" "(a + b) mod 4 = b mod 4"
  using assms by presburger+

lemma word_span: "b < (m :: nat) \<Longrightarrow> b div 4 < (m + 3) div 4"
  using div_le_mono[of "b + 4" "m + 3" 4] by simp

lemma map_of_rev_range:
  assumes "c + N \<le> 2 ^ 32"
  shows "map_of (rev (map (\<lambda>j. (of_nat (c + j), f j)) [0..<N])) (k :: u32) =
    (if c \<le> unat k \<and> unat k < c + N then Some (f (unat k - c)) else None)"
  using assms
proof (induction N)
  case 0
  then show ?case by simp
next
  case (Suc N)
  have "unat (of_nat (c + N) :: u32) = c + N" using Suc.prems by (intro unat_of_nat_u32) simp
  then have "k = of_nat (c + N) \<longleftrightarrow> unat k = c + N"
    by (metis word_unat_eq_iff)
  then show ?case using Suc by (auto simp del: of_nat_add)
qed

end
