(* ===== verification/Elf_Loader.thy ===== *)
theory Elf_Loader
  imports Prelude
begin

text \<open>
  \<open>sim/cpp/elf_loader.cpp\<close>: the ELF32 little-endian loader of the simulator. The mapped file is
  a list of bytes; a pointer into it is an offset, and a read outside the list (undefined
  behaviour of the C++ code, which trusts every offset of the file) is the error
  \<open>WildRead\<close>. The loops over a segment count in \<open>uint32_t\<close> and may not stop, so they are
  partial functions whose \<open>None\<close> is "does not return".
\<close>

section \<open>Results of the loader (elf_loader.h)\<close>

record elf_word =
  byte_addr :: u32
  data :: u32

record loaded_elf =
  words :: "elf_word list"
  symbols :: "string \<rightharpoonup> u32"
  entry :: u32

datatype elf_error =
    OpenFailed | FstatFailed | MmapFailed
  | FileTooSmall | NotElf | NotElf32 | NotLittleEndian | NotRiscv
  | WildRead

text \<open>What the operating system answers when the path is opened, sized and mapped.\<close>

datatype os_file = NoOpen | NoStat | NoMap | File bytes

section \<open>The mapping\<close>

fun mapped :: "os_file \<Rightarrow> elf_error + bytes" where
  "mapped NoOpen = Inl OpenFailed"
| "mapped NoStat = Inl FstatFailed"
| "mapped NoMap = Inl MmapFailed"
| "mapped (File p) = Inr p"

definition rd8 :: "bytes \<Rightarrow> nat \<Rightarrow> elf_error + u8" where
  "rd8 p a = (if a < length p then Inr (p ! a) else Inl WildRead)"

definition rd16 :: "bytes \<Rightarrow> nat \<Rightarrow> elf_error + u16" where
  "rd16 p a = (if a + 2 \<le> length p then Inr (ucast (p ! a) OR push_bit 8 (ucast (p ! (a + 1))))
               else Inl WildRead)"

definition rd32 :: "bytes \<Rightarrow> nat \<Rightarrow> elf_error + u32" where
  "rd32 p a = (if a + 4 \<le> length p
               then Inr (mk_word (p ! a) (p ! (a + 1)) (p ! (a + 2)) (p ! (a + 3)))
               else Inl WildRead)"

text \<open>Sizes and constants of the system's \<open>elf.h\<close>.\<close>

definition ehdr_size :: nat where "ehdr_size = 52"
definition phdr_size :: nat where "phdr_size = 32"
definition shdr_size :: nat where "shdr_size = 40"
definition sym_size :: nat where "sym_size = 16"
definition em_riscv :: u16 where "em_riscv = 243"
definition pt_load :: u32 where "pt_load = 1"
definition sht_symtab :: u32 where "sht_symtab = 2"

section \<open>Header checks\<close>

definition check_header :: "bytes \<Rightarrow> elf_error + unit" where
  "check_header p =
     (if length p < ehdr_size then Inl FileTooSmall
      else if take 4 p \<noteq> [0x7F, 0x45, 0x4C, 0x46] then Inl NotElf
      else if p ! 4 \<noteq> 1 then Inl NotElf32
      else if p ! 5 \<noteq> 1 then Inl NotLittleEndian
      else bindE (rd16 p 18) (\<lambda>m. if m \<noteq> em_riscv then Inl NotRiscv else Inr ()))"

section \<open>One PT_LOAD segment\<close>

text \<open>The inner loop \<open>for (b = 0; b < 4 && (off + b) < filesz; ++b) w |= data[off + b] << (8 * b)\<close>.\<close>

function gather :: "bytes \<Rightarrow> nat \<Rightarrow> u32 \<Rightarrow> u32 \<Rightarrow> nat \<Rightarrow> u32 \<Rightarrow> elf_error + u32" where
  "gather p dat off filesz b w =
     (if b < 4 \<and> off + of_nat b < filesz
      then (case rd8 p (dat + unat (off + of_nat b)) of
              Inl e \<Rightarrow> Inl e
            | Inr x \<Rightarrow> gather p dat off filesz (Suc b) (w OR push_bit (8 * b) (ucast x)))
      else Inr w)"
  by pat_completeness auto
termination
  by (relation "measure (\<lambda>(p, dat, off, filesz, b, w). 4 - b)") auto

declare gather.simps [simp del]

text \<open>The words of the file contents, \<open>for (off = 0; off < filesz; off += 4)\<close>.\<close>

partial_function (option) emit_file ::
    "bytes \<Rightarrow> nat \<Rightarrow> u32 \<Rightarrow> u32 \<Rightarrow> u32 \<Rightarrow> elf_word list \<Rightarrow> (elf_error + elf_word list) option" where
  "emit_file p dat vaddr filesz off ws =
     (if off < filesz
      then (case gather p dat off filesz 0 0 of
              Inl e \<Rightarrow> Some (Inl e)
            | Inr w \<Rightarrow> emit_file p dat vaddr filesz (off + 4)
                        (ws @ [\<lparr>byte_addr = vaddr + off, data = w\<rparr>]))
      else Some (Inr ws))"

text \<open>The zero words of the part beyond the file, \<open>for (off = filesz; off < memsz; off += 4)\<close>.\<close>

partial_function (option) emit_bss :: "u32 \<Rightarrow> u32 \<Rightarrow> u32 \<Rightarrow> elf_word list \<Rightarrow> elf_word list option" where
  "emit_bss vaddr memsz off ws =
     (if off < memsz
      then emit_bss vaddr memsz (off + 4) (ws @ [\<lparr>byte_addr = vaddr + off, data = 0\<rparr>])
      else Some ws)"

record phdr =
  p_type :: u32
  p_offset :: u32
  p_vaddr :: u32
  p_paddr :: u32
  p_filesz :: u32
  p_memsz :: u32

definition read_phdr :: "bytes \<Rightarrow> nat \<Rightarrow> elf_error + phdr" where
  "read_phdr p a =
     bindE (rd32 p a) (\<lambda>ty. bindE (rd32 p (a + 4)) (\<lambda>po. bindE (rd32 p (a + 8)) (\<lambda>va.
     bindE (rd32 p (a + 12)) (\<lambda>pa. bindE (rd32 p (a + 16)) (\<lambda>fs. bindE (rd32 p (a + 20)) (\<lambda>ms.
       Inr \<lparr>p_type = ty, p_offset = po, p_vaddr = va, p_paddr = pa,
            p_filesz = fs, p_memsz = ms\<rparr>))))))"

definition load_segment ::
    "bytes \<Rightarrow> phdr \<Rightarrow> elf_word list \<Rightarrow> (elf_error + elf_word list) option" where
  "load_segment p ph ws =
     (if p_type ph \<noteq> pt_load then Some (Inr ws)
      else
        let vaddr = (if p_paddr ph \<noteq> 0 then p_paddr ph else p_vaddr ph)
        in case emit_file p (unat (p_offset ph)) vaddr (p_filesz ph) 0 ws of
             None \<Rightarrow> None
           | Some (Inl e) \<Rightarrow> Some (Inl e)
           | Some (Inr ws') \<Rightarrow> map_option Inr (emit_bss vaddr (p_memsz ph) (p_filesz ph) ws'))"

text \<open>
  The program-header loop, over the remaining indices. The type of an entry is read first and
  decides whether the other fields are read at all.
\<close>

fun load_segments ::
    "bytes \<Rightarrow> nat \<Rightarrow> nat list \<Rightarrow> elf_word list \<Rightarrow> (elf_error + elf_word list) option" where
  "load_segments p phoff [] ws = Some (Inr ws)"
| "load_segments p phoff (i # is) ws =
     (case rd32 p (phoff + phdr_size * i) of
        Inl e \<Rightarrow> Some (Inl e)
      | Inr ty \<Rightarrow>
          if ty \<noteq> pt_load then load_segments p phoff is ws
          else (case read_phdr p (phoff + phdr_size * i) of
                  Inl e \<Rightarrow> Some (Inl e)
                | Inr ph \<Rightarrow>
                    (case load_segment p ph ws of
                       None \<Rightarrow> None
                     | Some (Inl e) \<Rightarrow> Some (Inl e)
                     | Some (Inr ws') \<Rightarrow> load_segments p phoff is ws')))"

section \<open>The symbol table\<close>

text \<open>\<open>std::string name = strs + st_name\<close>: the bytes up to the terminating NUL.\<close>

function cstr :: "bytes \<Rightarrow> nat \<Rightarrow> elf_error + string" where
  "cstr p a =
     (if a < length p
      then (if p ! a = 0 then Inr []
            else (case cstr p (Suc a) of
                    Inl e \<Rightarrow> Inl e
                  | Inr s \<Rightarrow> Inr (char_of (unat (p ! a)) # s)))
      else Inl WildRead)"
  by pat_completeness auto
termination
  by (relation "measure (\<lambda>(p, a). length p - a)") auto

declare cstr.simps [simp del]

text \<open>The first section header of type \<open>SHT_SYMTAB\<close>, if any.\<close>

fun find_symtab :: "bytes \<Rightarrow> nat \<Rightarrow> nat list \<Rightarrow> elf_error + nat option" where
  "find_symtab p shoff [] = Inr None"
| "find_symtab p shoff (i # is) =
     (case rd32 p (shoff + shdr_size * i + 4) of
        Inl e \<Rightarrow> Inl e
      | Inr ty \<Rightarrow> if ty = sht_symtab then Inr (Some i) else find_symtab p shoff is)"

fun read_symbols ::
    "bytes \<Rightarrow> nat \<Rightarrow> nat \<Rightarrow> nat list \<Rightarrow> (string \<rightharpoonup> u32) \<Rightarrow> elf_error + (string \<rightharpoonup> u32)" where
  "read_symbols p symoff stroff [] m = Inr m"
| "read_symbols p symoff stroff (i # is) m =
     (case rd32 p (symoff + sym_size * i) of
        Inl e \<Rightarrow> Inl e
      | Inr st_name \<Rightarrow>
          if st_name = 0 then read_symbols p symoff stroff is m
          else (case cstr p (stroff + unat st_name) of
                  Inl e \<Rightarrow> Inl e
                | Inr name \<Rightarrow>
                    (case rd32 p (symoff + sym_size * i + 4) of
                       Inl e \<Rightarrow> Inl e
                     | Inr st_value \<Rightarrow>
                         read_symbols p symoff stroff is (m(name \<mapsto> st_value)))))"

definition load_symbols :: "bytes \<Rightarrow> nat \<Rightarrow> nat \<Rightarrow> elf_error + (string \<rightharpoonup> u32)" where
  "load_symbols p shoff shnum =
     bindE (find_symtab p shoff [0..<shnum]) (\<lambda>st.
       case st of
         None \<Rightarrow> Inr Map.empty
       | Some i \<Rightarrow>
           bindE (rd32 p (shoff + shdr_size * i + 24)) (\<lambda>link.
             if unat link < shnum
             then bindE (rd32 p (shoff + shdr_size * i + 16)) (\<lambda>symoff.
                  bindE (rd32 p (shoff + shdr_size * unat link + 16)) (\<lambda>stroff.
                  bindE (rd32 p (shoff + shdr_size * i + 20)) (\<lambda>size.
                    read_symbols p (unat symoff) (unat stroff)
                      [0..<unat size div sym_size] Map.empty)))
             else Inr Map.empty))"

section \<open>load_elf32\<close>

definition load_elf32 :: "os_file \<Rightarrow> (elf_error + loaded_elf) option" where
  "load_elf32 f =
     (case mapped f of
        Inl e \<Rightarrow> Some (Inl e)
      | Inr p \<Rightarrow>
          (case bindE (check_header p) (\<lambda>_.
                bindE (rd32 p 24) (\<lambda>en. bindE (rd32 p 28) (\<lambda>phoff. bindE (rd32 p 32) (\<lambda>shoff.
                bindE (rd16 p 44) (\<lambda>phnum. bindE (rd16 p 48) (\<lambda>shnum.
                  Inr (en, unat phoff, unat shoff, unat phnum, unat shnum))))))) of
             Inl e \<Rightarrow> Some (Inl e)
           | Inr (en, phoff, shoff, phnum, shnum) \<Rightarrow>
               (case load_segments p phoff [0..<phnum] [] of
                  None \<Rightarrow> None
                | Some (Inl e) \<Rightarrow> Some (Inl e)
                | Some (Inr ws) \<Rightarrow>
                    (case load_symbols p shoff shnum of
                       Inl e \<Rightarrow> Some (Inl e)
                     | Inr sy \<Rightarrow> Some (Inr \<lparr>words = ws, symbols = sy, entry = en\<rparr>)))))"

section \<open>What the segment loops emit\<close>


definition byte_at :: "bytes \<Rightarrow> nat \<Rightarrow> nat \<Rightarrow> nat \<Rightarrow> u8" where
  "byte_at p dat n k = (if k < n then p ! (dat + k) else 0)"

definition word_at :: "bytes \<Rightarrow> nat \<Rightarrow> nat \<Rightarrow> nat \<Rightarrow> u32" where
  "word_at p dat n k = mk_word (byte_at p dat n k) (byte_at p dat n (k + 1))
     (byte_at p dat n (k + 2)) (byte_at p dat n (k + 3))"

lemma gather_step:
  assumes "unat off + b < 2 ^ 32" and "dat + unat filesz \<le> length p" and "b < 4"
  shows "gather p dat off filesz b w =
    (if unat off + b < unat filesz
     then gather p dat off filesz (Suc b) (w OR push_bit (8 * b) (ucast (byte_at p dat (unat filesz) (unat off + b))))
     else Inr w)"
proof -
  have "off + of_nat b < filesz \<longleftrightarrow> unat off + b < unat filesz"
    by (simp add: word_less_nat_alt unat_add_small[OF assms(1)])
  then show ?thesis
    using assms by (subst gather.simps) (simp add: unat_add_small rd8_def byte_at_def add.assoc)
qed


lemma gather_stop: "gather p dat off filesz 4 w = Inr w"
  by (subst gather.simps) simp

definition lanes_from :: "bytes \<Rightarrow> nat \<Rightarrow> nat \<Rightarrow> nat \<Rightarrow> nat list \<Rightarrow> u32" where
  "lanes_from p dat n k ls = foldr (\<lambda>b acc. push_bit (8 * b) (ucast (byte_at p dat n (k + b))) OR acc) ls 0"

lemma lanes_from_beyond: "\<forall>b \<in> set ls. n \<le> k + b \<Longrightarrow> lanes_from p dat n k ls = 0"
  by (induction ls) (auto simp: lanes_from_def byte_at_def)

lemma gather_lanes:
  assumes "b \<le> 4" and o: "unat off + 3 < 2 ^ 32" and l: "dat + unat filesz \<le> length p"
  shows "gather p dat off filesz b w =
    Inr (w OR lanes_from p dat (unat filesz) (unat off) [b..<4])"
  using assms(1)
proof (induction b arbitrary: w rule: inc_induct)
  case base
  then show ?case by (simp add: gather_stop lanes_from_def)
next
  case (step b)
  have st: "gather p dat off filesz b w =
    (if unat off + b < unat filesz
     then gather p dat off filesz (Suc b) (w OR push_bit (8 * b) (ucast (byte_at p dat (unat filesz) (unat off + b))))
     else Inr w)" using step o by (intro gather_step l) auto
  show ?case
  proof (cases "unat off + b < unat filesz")
    case True
    then show ?thesis using step.hyps
      by (simp add: st step.IH lanes_from_def upt_conv_Cons or.assoc)
  next
    case False
    then have "lanes_from p dat (unat filesz) (unat off) [b..<4] = 0"
      by (intro lanes_from_beyond) auto
    then show ?thesis using False by (simp add: st)
  qed
qed

lemma gather_eq:
  assumes "unat off + 3 < 2 ^ 32" and "dat + unat filesz \<le> length p"
  shows "gather p dat off filesz 0 0 = Inr (word_at p dat (unat filesz) (unat off))"
proof -
  have "[0..<4] = [0, 1, 2, 3 :: nat]" by (simp add: upt_rec)
  then show ?thesis
    using gather_lanes[of 0 off dat filesz p 0] assms
    by (simp add: lanes_from_def word_at_def mk_word_def or.assoc add.commute)
qed

definition file_words :: "bytes \<Rightarrow> nat \<Rightarrow> u32 \<Rightarrow> nat \<Rightarrow> nat \<Rightarrow> elf_word list" where
  "file_words p dat vaddr n k =
     map (\<lambda>j. \<lparr>byte_addr = vaddr + of_nat (4 * j), data = word_at p dat n (4 * j)\<rparr>)
       [k..<(n + 3) div 4]"

definition bss_words :: "u32 \<Rightarrow> nat \<Rightarrow> nat \<Rightarrow> elf_word list" where
  "bss_words vaddr off memsz =
     map (\<lambda>j. \<lparr>byte_addr = vaddr + of_nat (off + 4 * j), data = 0\<rparr>) [0..<(memsz - off + 3) div 4]"

lemma emit_file_eq:
  assumes "dat + unat filesz \<le> length p" and "unat filesz \<le> 2 ^ 32 - 4"
    and "unat off = 4 * k"
  shows "emit_file p dat vaddr filesz off ws = Some (Inr (ws @ file_words p dat vaddr (unat filesz) k))"
  using assms(3)
proof (induction "unat filesz - 4 * k" arbitrary: off k ws rule: less_induct)
  case less
  show ?case
  proof (cases "4 * k < unat filesz")
    case False
    then have "\<not> off < filesz" using less.prems by (simp add: word_less_nat_alt)
    moreover have "(unat filesz + 3) div 4 \<le> k" using False by linarith
    ultimately show ?thesis by (subst emit_file.simps) (simp add: file_words_def)
  next
    case True
    let ?w = "\<lparr>byte_addr = vaddr + off, data = word_at p dat (unat filesz) (4 * k)\<rparr>"
    have lt: "off < filesz" using True less.prems by (simp add: word_less_nat_alt)
    have o4: "unat (off + 4) = 4 * Suc k"
      using unat_add_small[of off 4] True less.prems assms(2) by simp
    have g: "gather p dat off filesz 0 0 = Inr (word_at p dat (unat filesz) (4 * k))"
      using gather_eq[of off dat filesz p] less.prems True assms(1,2) by simp
    have k: "k < (unat filesz + 3) div 4" using True by linarith
    have "of_nat (unat off) = off" by simp
    then have "off = of_nat (4 * k)" by (simp only: less.prems)
    then have "file_words p dat vaddr (unat filesz) k = ?w # file_words p dat vaddr (unat filesz) (Suc k)"
      using k by (simp add: file_words_def upt_conv_Cons)
    moreover have "emit_file p dat vaddr filesz off ws =
        emit_file p dat vaddr filesz (off + 4) (ws @ [?w])"
      by (subst emit_file.simps) (simp add: lt g)
    moreover have "unat filesz - 4 * Suc k < unat filesz - 4 * k" using True by simp
    ultimately show ?thesis using less.hyps[OF _ o4] by simp
  qed
qed

lemma emit_bss_eq:
  assumes "unat memsz \<le> 2 ^ 32 - 4 + unat off mod 4"
  shows "emit_bss vaddr memsz off ws = Some (ws @ bss_words vaddr (unat off) (unat memsz))"
  using assms
proof (induction "unat memsz - unat off" arbitrary: off ws rule: less_induct)
  case less
  show ?case
  proof (cases "off < memsz")
    case False
    then have "unat memsz \<le> unat off" by (simp add: word_less_nat_alt)
    then show ?thesis using False by (subst emit_bss.simps) (simp add: bss_words_def)
  next
    case True
    then have lt: "unat off < unat memsz" by (simp add: word_less_nat_alt)
    let ?w = "\<lparr>byte_addr = vaddr + off, data = 0\<rparr>"
    have o4: "unat (off + 4) = unat off + 4"
    proof -
      have "unat off < 4294967292" using lt less.prems by simp presburger
      then show ?thesis using unat_add_small[of off 4] by simp
    qed
    obtain d where "unat memsz = unat off + Suc d" using lt less_imp_Suc_add by auto
    then have n: "(unat memsz - unat off + 3) div 4 = Suc ((unat memsz - (unat off + 4) + 3) div 4)"
      by simp presburger
    have w: "bss_words vaddr (unat off) (unat memsz) = ?w # bss_words vaddr (unat (off + 4)) (unat memsz)"
      unfolding bss_words_def n o4
      by (simp add: upt_conv_Cons map_Suc_upt[symmetric] del: upt_Suc)
    have "emit_bss vaddr memsz off ws = emit_bss vaddr memsz (off + 4) (ws @ [?w])"
      by (subst emit_bss.simps) (simp add: True)
    moreover have "unat memsz - unat (off + 4) < unat memsz - unat off" using lt o4 by simp
    moreover have "unat memsz \<le> 2 ^ 32 - 4 + unat (off + 4) mod 4" using less.prems o4 by simp
    ultimately show ?thesis using less.hyps[of "off + 4"] w by simp
  qed
qed

lemma emit_bss_bound:
  assumes "emit_bss vaddr memsz off ws = Some r"
  shows "unat memsz \<le> 2 ^ 32 - 4 + unat off mod 4"
proof (rule emit_bss.raw_induct
    [where P = "\<lambda>vaddr memsz off ws r. unat memsz \<le> 2 ^ 32 - 4 + unat off mod 4", OF _ assms])
  fix f :: "u32 \<Rightarrow> u32 \<Rightarrow> u32 \<Rightarrow> elf_word list \<Rightarrow> elf_word list option" and v m o' ws r
  assume IH: "\<And>v m o' ws r. f v m o' ws = Some r \<Longrightarrow> unat m \<le> 2 ^ 32 - 4 + unat o' mod 4"
    and eq: "(if o' < m then f v m (o' + 4) (ws @ [\<lparr>byte_addr = v + o', data = 0\<rparr>]) else Some ws)
      = Some r"
  have "unat (o' + 4) mod 4 = unat o' mod 4"
    by (simp add: unat_word_ariths mod_mod_cancel)
  moreover have "unat o' \<le> 2 ^ 32 - 4 + unat o' mod 4"
    by (rule u32_stride[OF unat_u32_less])
  ultimately show "unat m \<le> 2 ^ 32 - 4 + unat o' mod 4"
    using IH[of v m "o' + 4"] eq by (auto simp: word_less_nat_alt split: if_splits)
qed

text \<open>
  C31. The zero-fill loop of a segment, which counts in \<open>uint32_t\<close> steps of four, returns exactly
  when \<open>memsz\<close> does not exceed the last value below \<open>2^32\<close> its counter reaches; for a larger
  \<open>memsz\<close> the counter wraps around and the loop never ends.
\<close>

theorem emit_bss_returns_iff:
  "(\<exists>r. emit_bss vaddr memsz off ws = Some r) \<longleftrightarrow> unat memsz \<le> 2 ^ 32 - 4 + unat off mod 4"
  using emit_bss_eq emit_bss_bound by blast

section \<open>Only wild reads beyond the header\<close>

lemma rd_errors: "rd8 p a = Inl e \<Longrightarrow> e = WildRead" "rd16 p a = Inl e \<Longrightarrow> e = WildRead"
  "rd32 p a = Inl e \<Longrightarrow> e = WildRead"
  by (auto simp: rd8_def rd16_def rd32_def split: if_splits)

lemma gather_errors: "gather p dat off filesz b w = Inl e \<Longrightarrow> e = WildRead"
proof (induction p dat off filesz b w rule: gather.induct)
  case (1 p dat off filesz b w)
  from "1.prems" show ?case
    by (subst (asm) gather.simps) (auto split: if_splits sum.splits dest: rd_errors intro: "1.IH")
qed

lemma emit_file_errors:
  assumes "emit_file p dat vaddr filesz off ws = Some r"
  shows "r = Inl e \<longrightarrow> e = WildRead"
proof (rule emit_file.raw_induct
    [where P = "\<lambda>p dat vaddr filesz off ws r. r = Inl e \<longrightarrow> e = WildRead", OF _ assms])
  fix f :: "bytes \<Rightarrow> nat \<Rightarrow> u32 \<Rightarrow> u32 \<Rightarrow> u32 \<Rightarrow> elf_word list \<Rightarrow> (elf_error + elf_word list) option"
    and p d v fs o' ws r
  assume IH: "\<And>p d v fs o' ws r. f p d v fs o' ws = Some r \<Longrightarrow> r = Inl e \<longrightarrow> e = WildRead"
    and eq: "(if o' < fs then case gather p d o' fs 0 0 of Inl e \<Rightarrow> Some (Inl e)
        | Inr w \<Rightarrow> f p d v fs (o' + 4) (ws @ [\<lparr>byte_addr = v + o', data = w\<rparr>])
      else Some (Inr ws)) = Some r"
  then show "r = Inl e \<longrightarrow> e = WildRead"
    by (auto split: if_splits sum.splits dest: gather_errors)
qed

lemma load_segment_errors: "load_segment p ph ws = Some (Inl e) \<Longrightarrow> e = WildRead"
  by (auto simp: load_segment_def Let_def split: if_splits option.splits sum.splits
      dest: emit_file_errors)

lemma read_phdr_errors: "read_phdr p a = Inl e \<Longrightarrow> e = WildRead"
  by (auto simp: read_phdr_def err_simps dest: rd_errors)

lemma load_segments_errors: "load_segments p phoff is ws = Some (Inl e) \<Longrightarrow> e = WildRead"
  by (induction p phoff "is" ws rule: load_segments.induct)
    (auto split: if_splits option.splits sum.splits
      dest: rd_errors read_phdr_errors load_segment_errors)

lemma cstr_errors: "cstr p a = Inl e \<Longrightarrow> e = WildRead"
proof (induction p a rule: cstr.induct)
  case (1 p a)
  from "1.prems" show ?case
    by (subst (asm) cstr.simps) (auto split: if_splits sum.splits dest: "1.IH")
qed

lemma find_symtab_errors: "find_symtab p shoff is = Inl e \<Longrightarrow> e = WildRead"
  by (induction p shoff "is" rule: find_symtab.induct)
    (auto split: if_splits sum.splits dest: rd_errors)

lemma read_symbols_errors: "read_symbols p so st is m = Inl e \<Longrightarrow> e = WildRead"
  by (induction p so st "is" m rule: read_symbols.induct)
    (auto split: if_splits sum.splits dest: rd_errors cstr_errors)

lemma load_symbols_errors: "load_symbols p shoff n = Inl e \<Longrightarrow> e = WildRead"
  by (auto simp: load_symbols_def err_simps split: option.splits if_splits
      dest: rd_errors find_symtab_errors read_symbols_errors)


section \<open>What a successful load holds\<close>

definition seg_ok :: "bytes \<Rightarrow> phdr \<Rightarrow> bool" where
  "seg_ok p ph \<longleftrightarrow> unat (p_offset ph) + unat (p_filesz ph) \<le> length p \<and>
     unat (p_filesz ph) \<le> 2 ^ 32 - 4 \<and>
     unat (p_memsz ph) \<le> 2 ^ 32 - 4 + unat (p_filesz ph) mod 4"

definition seg_base :: "phdr \<Rightarrow> u32" where
  "seg_base ph = (if p_paddr ph \<noteq> 0 then p_paddr ph else p_vaddr ph)"

definition seg_words :: "bytes \<Rightarrow> phdr \<Rightarrow> elf_word list" where
  "seg_words p ph =
     (if p_type ph \<noteq> pt_load then []
      else file_words p (unat (p_offset ph)) (seg_base ph) (unat (p_filesz ph)) 0
           @ bss_words (seg_base ph) (unat (p_filesz ph)) (unat (p_memsz ph)))"

lemma load_segment_eq: "seg_ok p ph \<Longrightarrow> load_segment p ph ws = Some (Inr (ws @ seg_words p ph))"
  by (simp add: load_segment_def seg_ok_def seg_words_def seg_base_def Let_def
      emit_file_eq[where k = 0] emit_bss_eq)

lemma read_phdr_type: "read_phdr p a = Inr ph \<Longrightarrow> rd32 p a = Inr (p_type ph)"
  by (auto simp: read_phdr_def err_simps)

text \<open>
  C30. The program-header loop: when every entry is readable and every \<open>PT_LOAD\<close> segment lies
  inside the file, the loader returns and appends, segment by segment, the little-endian words of
  the file part followed by the zero words of the rest.
\<close>

theorem load_segments_eq:
  assumes "\<forall>i \<in> set is. read_phdr p (phoff + phdr_size * i) = Inr (ph i) \<and> seg_ok p (ph i)"
  shows "load_segments p phoff is ws = Some (Inr (ws @ concat (map (\<lambda>i. seg_words p (ph i)) is)))"
  using assms
proof (induction "is" arbitrary: ws)
  case Nil
  then show ?case by simp
next
  case (Cons i "is")
  then have "read_phdr p (phoff + phdr_size * i) = Inr (ph i)" and "seg_ok p (ph i)" by auto
  with Cons show ?case
    by (simp add: read_phdr_type load_segment_eq) (simp add: seg_words_def)
qed

definition sym_binding :: "bytes \<Rightarrow> nat \<Rightarrow> nat \<Rightarrow> nat \<Rightarrow> (string \<times> u32) option" where
  "sym_binding p symoff stroff i =
     (case (rd32 p (symoff + sym_size * i), rd32 p (symoff + sym_size * i + 4)) of
        (Inr nm, Inr v) \<Rightarrow>
          if nm = 0 then None
          else (case cstr p (stroff + unat nm) of Inr s \<Rightarrow> Some (s, v) | Inl _ \<Rightarrow> None)
      | _ \<Rightarrow> None)"

text \<open>
  The symbol table the loader returns maps a name to the value of its last named entry in the
  section; unnamed entries are skipped.
\<close>

theorem read_symbols_eq:
  assumes "read_symbols p symoff stroff is m = Inr m'"
  shows "m' = m ++ map_of (rev (List.map_filter (sym_binding p symoff stroff) is))"
  using assms
proof (induction p symoff stroff "is" m rule: read_symbols.induct)
  case (1 p symoff stroff m)
  then show ?case by (simp add: map_filter_simps)
next
  case (2 p symoff stroff i "is" m)
  let ?b = "sym_binding p symoff stroff"
  from "2.prems" obtain nm where nm: "rd32 p (symoff + sym_size * i) = Inr nm"
    by (auto split: sum.splits)
  show ?case
  proof (cases "nm = 0")
    case True
    then have "?b i = None" by (simp add: sym_binding_def nm split: sum.splits)
    then show ?thesis using "2.prems" "2.IH"(1)[OF nm True] nm True by (simp add: map_filter_simps)
  next
    case False
    with "2.prems" nm obtain s v where s: "cstr p (stroff + unat nm) = Inr s"
      and v: "rd32 p (symoff + sym_size * i + 4) = Inr v"
      and rest: "read_symbols p symoff stroff is (m(s \<mapsto> v)) = Inr m'"
      by (auto split: sum.splits)
    have "?b i = Some (s, v)" using nm False s v by (simp add: sym_binding_def)
    then show ?thesis
      using "2.IH"(2)[OF nm False s v rest]
      by (simp add: map_filter_simps map_add_def fun_eq_iff split: option.splits)
  qed
qed


lemma check_header_cases:
  "check_header p = Inr () \<longleftrightarrow> ehdr_size \<le> length p \<and> take 4 p = [0x7F, 0x45, 0x4C, 0x46] \<and>
     p ! 4 = 1 \<and> p ! 5 = 1 \<and> rd16 p 18 = Inr em_riscv"
  by (auto simp: check_header_def err_simps split: if_splits)

lemma check_header_no_wild: "check_header p \<noteq> Inl WildRead"
  by (auto simp: check_header_def err_simps rd16_def ehdr_size_def split: if_splits)

lemma header_fields:
  assumes "check_header p = Inr ()"
  obtains en phoff shoff phnum shnum where "rd32 p 24 = Inr en" "rd32 p 28 = Inr phoff"
    "rd32 p 32 = Inr shoff" "rd16 p 44 = Inr phnum" "rd16 p 48 = Inr shnum"
  using assms by (auto simp: check_header_cases rd32_def rd16_def ehdr_size_def)

lemma load_elf32_good_header:
  assumes "check_header p = Inr ()" "rd32 p 24 = Inr en" "rd32 p 28 = Inr phoff"
    "rd32 p 32 = Inr shoff" "rd16 p 44 = Inr phnum" "rd16 p 48 = Inr shnum"
  shows "load_elf32 (File p) =
    (case load_segments p (unat phoff) [0..<unat phnum] [] of
       None \<Rightarrow> None
     | Some (Inl e) \<Rightarrow> Some (Inl e)
     | Some (Inr ws) \<Rightarrow>
         (case load_symbols p (unat shoff) (unat shnum) of
            Inl e \<Rightarrow> Some (Inl e)
          | Inr sy \<Rightarrow> Some (Inr \<lparr>words = ws, symbols = sy, entry = en\<rparr>)))"
  using assms by (simp add: load_elf32_def)

lemma machine_bytes: "ucast a OR push_bit 8 (ucast b) = em_riscv \<longleftrightarrow> (a, b) = (0xF3, 0)" for a b :: u8
proof
  assume h: "ucast a OR push_bit 8 (ucast b) = em_riscv"
  have "a = fld 0 (ucast a OR push_bit 8 (ucast b) :: u16)" "b = fld 8 (ucast a OR push_bit 8 (ucast b) :: u16)"
    by (rule bit_word_eqI; auto simp: bit_fld bit_simps dest: bit_imp_le_length)+
  then show "(a, b) = (0xF3, 0)" unfolding h em_riscv_def by (simp add: fld_def)
qed (simp add: em_riscv_def)

lemma magic_bytes:
  assumes "4 \<le> length p"
  shows "take 4 p = [a, b, c, d] \<longleftrightarrow> (p ! 0, p ! 1, p ! 2, p ! 3) = (a, b, c, d)"
proof -
  obtain w x y z q where "p = w # x # y # z # q"
    using assms by (metis Suc_le_length_iff numeral_eq_Suc pred_numeral_simps(2) pred_numeral_simps(3) numeral_One BitM.simps)
  then show ?thesis by (simp add: numeral_eq_Suc)
qed

text \<open>The checks in terms of the bytes.\<close>

lemma header_diagnosis:
  "bindE (mapped f) check_header = Inl e \<longleftrightarrow>
    (case f of NoOpen \<Rightarrow> e = OpenFailed | NoStat \<Rightarrow> e = FstatFailed | NoMap \<Rightarrow> e = MmapFailed
     | File p \<Rightarrow>
         (if length p < 52 then e = FileTooSmall
          else if (p ! 0, p ! 1, p ! 2, p ! 3) \<noteq> (0x7F, 0x45, 0x4C, 0x46) then e = NotElf
          else if p ! 4 \<noteq> 1 then e = NotElf32
          else if p ! 5 \<noteq> 1 then e = NotLittleEndian
          else (p ! 18, p ! 19) \<noteq> (0xF3, 0x00) \<and> e = NotRiscv))"
proof (cases f)
  case (File p)
  show ?thesis
  proof (cases "length p < 52")
    case False
    then have "rd16 p 18 = Inr (ucast (p ! 18) OR push_bit 8 (ucast (p ! 19)))" by (simp add: rd16_def)
    then show ?thesis using False File machine_bytes[of "p ! 18" "p ! 19"] magic_bytes[of p "0x7F" "0x45" "0x4C" "0x46"]
      by (auto simp: check_header_def ehdr_size_def)
  qed (auto simp: File check_header_def ehdr_size_def)
qed auto

text \<open>
  C32. The loader rejects with a given diagnosis (anything but a wild read) exactly when opening, sizing or
  mapping the file fails so, or the bytes of the file are the first to fail so: fewer than the 52 of an ELF header, no
  ELF magic, not of the 32-bit class, not little-endian, not for RISC-V (machine 243).
\<close>

theorem load_elf32_header_error:
  assumes "e \<noteq> WildRead"
  shows "load_elf32 f = Some (Inl e) \<longleftrightarrow>
    (case f of NoOpen \<Rightarrow> e = OpenFailed | NoStat \<Rightarrow> e = FstatFailed | NoMap \<Rightarrow> e = MmapFailed
     | File p \<Rightarrow>
         (if length p < 52 then e = FileTooSmall
          else if (p ! 0, p ! 1, p ! 2, p ! 3) \<noteq> (0x7F, 0x45, 0x4C, 0x46) then e = NotElf
          else if p ! 4 \<noteq> 1 then e = NotElf32
          else if p ! 5 \<noteq> 1 then e = NotLittleEndian
          else (p ! 18, p ! 19) \<noteq> (0xF3, 0x00) \<and> e = NotRiscv))"
  unfolding header_diagnosis[symmetric]
proof (cases "bindE (mapped f) check_header")
  case (Inl e')
  then show "load_elf32 f = Some (Inl e) \<longleftrightarrow> bindE (mapped f) check_header = Inl e" by (cases f) (auto simp: load_elf32_def err_simps)
next
  case (Inr u)
  then obtain p where p: "f = File p" and h: "check_header p = Inr ()" by (cases f) auto
  obtain en phoff shoff phnum shnum where "rd32 p 24 = Inr en" "rd32 p 28 = Inr phoff"
    "rd32 p 32 = Inr shoff" "rd16 p 44 = Inr phnum" "rd16 p 48 = Inr shnum"
    using header_fields[OF h] by metis
  note eq = load_elf32_good_header[OF h this]
  show "load_elf32 f = Some (Inl e) \<longleftrightarrow> bindE (mapped f) check_header = Inl e" using assms Inr p
    by (auto simp: eq split: option.splits sum.splits dest: load_segments_errors load_symbols_errors)
qed

lemma load_elf32_accepted:
  assumes "load_elf32 f = Some (Inr out)"
  shows "\<exists>p. f = File p \<and> check_header p = Inr () \<and> rd32 p 24 = Inr (entry out)"
proof (cases "bindE (mapped f) check_header")
  case (Inl e')
  then show ?thesis using assms by (cases f) (auto simp: load_elf32_def err_simps)
next
  case (Inr u)
  then obtain p where p: "f = File p" and h: "check_header p = Inr ()" by (cases f) auto
  obtain en phoff shoff phnum shnum where r: "rd32 p 24 = Inr en" "rd32 p 28 = Inr phoff"
    "rd32 p 32 = Inr shoff" "rd16 p 44 = Inr phnum" "rd16 p 48 = Inr shnum"
    using header_fields[OF h] by metis
  then show ?thesis using assms p h
    by (auto simp: load_elf32_good_header[OF h r] split: option.splits sum.splits)
qed

section \<open>A concrete image\<close>

definition tiny_image :: bytes where
  "tiny_image = [1,0,0,0, 32,0,0,0, 0,0,0,0, 0,0,0,0x80, 6,0,0,0, 9,0,0,0, 0,0,0,0, 4,0,0,0,
                 1, 2, 3, 4, 5, 6]"

definition tiny_phdr :: phdr where
  "tiny_phdr = \<lparr>p_type = 1, p_offset = 32, p_vaddr = 0, p_paddr = 0x80000000,
     p_filesz = 6, p_memsz = 9\<rparr>"

lemma tiny_read: "read_phdr tiny_image (0 + phdr_size * 0) = Inr tiny_phdr"
  by code_simp

theorem load_segments_eq_witness:
  "load_segments tiny_image 0 [0] [] =
     Some (Inr [\<lparr>byte_addr = 0x80000000, data = 0x04030201\<rparr>, \<lparr>byte_addr = 0x80000004, data = 0x0605\<rparr>,
                \<lparr>byte_addr = 0x80000006, data = 0\<rparr>])"
proof -
  have "seg_ok tiny_image tiny_phdr" by (simp add: seg_ok_def tiny_phdr_def tiny_image_def)
  moreover have "seg_words tiny_image tiny_phdr =
      [\<lparr>byte_addr = 0x80000000, data = 0x04030201\<rparr>, \<lparr>byte_addr = 0x80000004, data = 0x0605\<rparr>,
       \<lparr>byte_addr = 0x80000006, data = 0\<rparr>]"
    by (simp add: seg_words_def seg_base_def tiny_phdr_def pt_load_def file_words_def bss_words_def
        upt_rec word_at_def byte_at_def tiny_image_def mk_word_def nth_Cons' push_bit_eq_mult)
  ultimately show ?thesis
    using load_segments_eq[of "[0]" tiny_image 0 "\<lambda>_. tiny_phdr" "[]"] tiny_read by simp
qed

theorem load_elf32_header_error_witness: "load_elf32 (File (replicate 60 0)) = Some (Inl NotElf)"
proof -
  show ?thesis using load_elf32_header_error[of NotElf "File (replicate 60 0)"] by simp
qed

text \<open>Two entries, the first unnamed; names start at offset 32.\<close>

definition tiny_symtab :: bytes where
  "tiny_symtab = [0,0,0,0, 9,0,0,0, 0,0,0,0, 0,0,0,0,  1,0,0,0, 7,0,0,0, 0,0,0,0, 0,0,0,0,
                  0, 97, 98, 0]"

theorem read_symbols_eq_witness:
  "\<exists>m. read_symbols tiny_symtab 0 32 [0, 1] Map.empty = Inr m \<and> m ''ab'' = Some 7"
proof -
  obtain m where m: "read_symbols tiny_symtab 0 32 [0, 1] Map.empty = Inr m"
  proof -
    have "\<not> isl (read_symbols tiny_symtab 0 32 [0, 1] Map.empty)" by code_simp
    then show thesis using that by (cases "read_symbols tiny_symtab 0 32 [0, 1] Map.empty") auto
  qed
  have "rev (List.map_filter (sym_binding tiny_symtab 0 32) [0, 1]) = [(''ab'', 7)]" by code_simp
  then show ?thesis using read_symbols_eq[OF m] m by simp
qed

end
