(* ===== verification/Bus.thy ===== *)
theory Bus
  imports Prelude
begin

text \<open>
  The on-chip data bus of the SoC as its slaves see it (\<open>docs/bus.md\<close>): a request with a valid
  flag, accepted when the slave is ready, and a response one cycle later.
\<close>

record bus_req =
  rq_valid :: bool
  rq_addr :: u32
  rq_wen :: bool
  rq_wdata :: u32
  rq_wmask :: "4 word"

definition no_req :: bus_req where
  "no_req = \<lparr>rq_valid = False, rq_addr = 0, rq_wen = False, rq_wdata = 0, rq_wmask = 0\<rparr>"

definition rd_req :: "u32 \<Rightarrow> bus_req" where
  "rd_req a = \<lparr>rq_valid = True, rq_addr = a, rq_wen = False, rq_wdata = 0, rq_wmask = 0\<rparr>"

definition wr_req :: "u32 \<Rightarrow> u32 \<Rightarrow> 4 word \<Rightarrow> bus_req" where
  "wr_req a v m = \<lparr>rq_valid = True, rq_addr = a, rq_wen = True, rq_wdata = v, rq_wmask = m\<rparr>"

lemma req_simps [simp]:
  "rq_valid no_req = False" "rq_valid (rd_req a) = True" "rq_valid (wr_req a v m) = True"
  "rq_addr (rd_req a) = a" "rq_addr (wr_req a v m) = a" "rq_wen (rd_req a) = False"
  "rq_wen (wr_req a v m) = True" "rq_wdata (wr_req a v m) = v" "rq_wmask (wr_req a v m) = m"
  by (simp_all add: no_req_def rd_req_def wr_req_def)

section \<open>The slave contract\<close>

text \<open>
  Out of reset, a slave answers exactly the requests it accepts, each in the next cycle. The
  lemmas count and order the answers of a whole run.
\<close>

locale bus_slave =
  fixes step :: "bool \<Rightarrow> bus_req \<Rightarrow> 's \<Rightarrow> 's"
    and ready :: "'s \<Rightarrow> bus_req \<Rightarrow> bool"
    and answers :: "'s \<Rightarrow> bool"
  assumes answer_iff: "answers (step False r s) \<longleftrightarrow> rq_valid r \<and> ready s r"
    and reset_silent: "\<not> answers (step True r s)"
begin

fun run :: "bus_req list \<Rightarrow> 's \<Rightarrow> 's list" where
  "run [] s = []"
| "run (r # rs) s = step False r s # run rs (step False r s)"

fun accepted :: "bus_req list \<Rightarrow> 's \<Rightarrow> bool list" where
  "accepted [] s = []"
| "accepted (r # rs) s = (rq_valid r \<and> ready s r) # accepted rs (step False r s)"

lemma answers_run: "map answers (run rs s) = accepted rs s"
  by (induction rs arbitrary: s) (simp_all add: answer_iff)

lemma no_answer_without_request: "\<not> rq_valid r \<Longrightarrow> \<not> answers (step False r s)"
  by (simp add: answer_iff)

end

section \<open>AXI4-Lite slave inputs\<close>

record axil_in =
  ax_rst :: bool
  ax_awvalid :: bool
  ax_awaddr :: u32
  ax_wvalid :: bool
  ax_wdata :: u32
  ax_wstrb :: "4 word"
  ax_bready :: bool
  ax_arvalid :: bool
  ax_araddr :: u32
  ax_rready :: bool

end
