(* ===== verification/Memories.thy ===== *)
theory Memories
  imports Bus
begin

text \<open>
  The word memories behind the simulators' DPI backdoors: the dual-port SRAM
  (\<open>rtl/mem/sram_dp.sv\<close>) and the DDR stand-in (\<open>rtl/mem/axil_bram_big.sv\<close>), with their clocked
  ports, and the backdoor contract the C++ harness relies on.
\<close>

type_synonym memory = "nat \<Rightarrow> u32"

section \<open>The backdoor contract\<close>

text \<open>What the harness expects of a pair of DPI functions on word indices.\<close>

locale word_backdoor =
  fixes rd :: "'s \<Rightarrow> u32 \<Rightarrow> u32"
    and wr :: "'s \<Rightarrow> u32 \<Rightarrow> u32 \<Rightarrow> 's"
    and ok :: "u32 \<Rightarrow> bool"
  assumes rd_wr_same: "ok i \<Longrightarrow> rd (wr s i v) i = v"
    and rd_wr_other: "i \<noteq> j \<Longrightarrow> rd (wr s i v) j = rd s j"
    and wr_ignored: "\<not> ok i \<Longrightarrow> wr s i v = s"
begin

lemma rd_wr: "rd (wr s i v) j = (if i = j \<and> ok j then v else rd s j)"
  using rd_wr_same rd_wr_other wr_ignored by (cases "i = j"; cases "ok i") auto

lemma rd_writes:
  "rd (foldl (\<lambda>s (i, v). wr s i v) s ws) j =
     (if ok j then (case map_of (rev ws) j of Some v \<Rightarrow> v | None \<Rightarrow> rd s j) else rd s j)"
proof (induction ws arbitrary: s)
  case Nil
  then show ?case by simp
next
  case (Cons w ws)
  then show ?case
    by (cases w) (auto simp: rd_wr map_add_def split: option.splits)
qed

lemma rd_writes_last:
  assumes "ok j"
  shows "rd (foldl (\<lambda>s (i, v). wr s i v) s (ws @ [(j, v)])) j = v"
  using assms by (simp add: rd_wr_same)

end

section \<open>sram_dp: DPI functions\<close>

definition sram_WORDS :: nat where "sram_WORDS = 16384"

definition sram_dpi_write :: "memory \<Rightarrow> u32 \<Rightarrow> u32 \<Rightarrow> memory" where
  "sram_dpi_write m word_addr v =
     (if 0 \<le> sint word_addr \<and> sint word_addr < int sram_WORDS
      then m(nat (sint word_addr) := v) else m)"

definition sram_dpi_read :: "memory \<Rightarrow> u32 \<Rightarrow> u32" where
  "sram_dpi_read m word_addr =
     (if 0 \<le> sint word_addr \<and> sint word_addr < int sram_WORDS
      then m (nat (sint word_addr)) else 0xDEADBEEF)"

section \<open>axil_bram_big: DPI functions\<close>

definition ddr_WORDS :: nat where "ddr_WORDS = 33554432"

definition ddr_dpi_write :: "memory \<Rightarrow> u32 \<Rightarrow> u32 \<Rightarrow> memory" where
  "ddr_dpi_write m word_addr v =
     (if 0 \<le> sint word_addr \<and> sint word_addr < int ddr_WORDS
      then m(nat (sint word_addr) := v) else m)"

definition ddr_dpi_read :: "memory \<Rightarrow> u32 \<Rightarrow> u32" where
  "ddr_dpi_read m word_addr =
     (if 0 \<le> sint word_addr \<and> sint word_addr < int ddr_WORDS
      then m (nat (sint word_addr)) else 0xDEADBEEF)"

definition dpi_in :: "nat \<Rightarrow> u32 \<Rightarrow> bool" where
  "dpi_in n i \<longleftrightarrow> 0 \<le> sint i \<and> sint i < int n"

lemma nat_sint_inj: "0 \<le> sint i \<Longrightarrow> 0 \<le> sint (j :: u32) \<Longrightarrow> nat (sint i) = nat (sint j) \<Longrightarrow> i = j"
  by (metis nat_0_le signed_word_eqI)

interpretation sram_bd: word_backdoor sram_dpi_read sram_dpi_write "dpi_in sram_WORDS"
  by unfold_locales (auto simp: sram_dpi_read_def sram_dpi_write_def dpi_in_def dest: nat_sint_inj)

interpretation ddr_bd: word_backdoor ddr_dpi_read ddr_dpi_write "dpi_in ddr_WORDS"
  by unfold_locales (auto simp: ddr_dpi_read_def ddr_dpi_write_def dpi_in_def dest: nat_sint_inj)

lemma sint_u32: "sint (i :: u32) = (if uint i < 2147483648 then uint i else uint i - 4294967296)"
proof -
  have u: "0 \<le> uint i" "uint i < 4294967296" using uint_bounded[of i] by simp_all
  have "sint i = (uint i + 2147483648) mod 4294967296 - 2147483648"
    by (simp add: sint_uint signed_take_bit_eq_take_bit_shift take_bit_eq_mod)
  moreover have "(uint i + 2147483648) mod 4294967296 =
      (if uint i < 2147483648 then uint i + 2147483648 else uint i - 2147483648)"
    using u by (auto simp: mod_pos_pos_trivial mod_pos_geq)
  ultimately show ?thesis by simp
qed

lemma uint_less_int: "uint (i :: u32) < int n \<longleftrightarrow> unat i < n"
  by (simp only: unat_eq_nat_uint nat_less_iff uint_nonnegative)

lemma dpi_in_iff:
  assumes "n \<le> 2147483648"
  shows "dpi_in n i \<longleftrightarrow> unat i < n"
proof -
  have "uint i < 4294967296" using uint_bounded[of i] by simp
  then show ?thesis using assms uint_less_int[of i n]
    by (auto simp: dpi_in_def sint_u32)
qed

lemma nat_sint_small:
  assumes "unat (i :: u32) < 2147483648"
  shows "nat (sint i) = unat i"
proof -
  have "uint i < 2147483648" using uint_less_int[of i 2147483648] assms by simp
  then have "sint i = uint i" by (simp only: sint_u32 if_True)
  then show ?thesis by (simp only: unat_eq_nat_uint)
qed

lemma sram_dpi_small:
  assumes "unat i < 16384"
  shows "sram_dpi_read m i = m (unat i)" "sram_dpi_write m i v = m(unat i := v)"
proof -
  have "dpi_in sram_WORDS i" using assms dpi_in_iff[of sram_WORDS i] by (simp add: sram_WORDS_def)
  moreover have "nat (sint i) = unat i" using assms by (intro nat_sint_small) simp
  ultimately show "sram_dpi_read m i = m (unat i)" "sram_dpi_write m i v = m(unat i := v)"
    by (simp_all only: sram_dpi_read_def sram_dpi_write_def dpi_in_def simp_thms if_True)
qed

lemma ddr_dpi_small:
  assumes "unat i < 33554432"
  shows "ddr_dpi_read m i = m (unat i)" "ddr_dpi_write m i v = m(unat i := v)"
proof -
  have "dpi_in ddr_WORDS i" using assms dpi_in_iff[of ddr_WORDS i] by (simp add: ddr_WORDS_def)
  moreover have "nat (sint i) = unat i" using assms by (intro nat_sint_small) simp
  ultimately show "ddr_dpi_read m i = m (unat i)" "ddr_dpi_write m i v = m(unat i := v)"
    by (simp_all only: ddr_dpi_read_def ddr_dpi_write_def dpi_in_def simp_thms if_True)
qed

section \<open>sram_dp: the two clocked ports\<close>

record sram =
  sr_mem :: memory
  sr_a_rsp_valid :: bool
  sr_a_rsp_rdata :: u32
  sr_b_rsp_valid :: bool
  sr_b_rsp_rdata :: u32

record sram_in =
  sr_a_req_valid :: bool
  sr_a_req_addr :: u32
  sr_b_req_valid :: bool
  sr_b_req_addr :: u32
  sr_b_req_wen :: bool
  sr_b_req_wmask :: "4 word"
  sr_b_req_wdata :: u32

text \<open>\<open>req_addr[ADDR_BITS+1:2]\<close> with \<open>ADDR_BITS = $clog2(16384) = 14\<close>.\<close>

definition sram_index :: "u32 \<Rightarrow> nat" where
  "sram_index a = unat (fld 2 a :: 14 word)"

definition sram_step :: "sram \<Rightarrow> sram_in \<Rightarrow> sram" where
  "sram_step s i =
     (let aw = sram_index (sr_a_req_addr i); bwd = sram_index (sr_b_req_addr i) in
      s\<lparr>sr_a_rsp_valid := sr_a_req_valid i,
        sr_a_rsp_rdata := (if sr_a_req_valid i then sr_mem s aw else sr_a_rsp_rdata s),
        sr_b_rsp_valid := sr_b_req_valid i,
        sr_b_rsp_rdata := (if sr_b_req_valid i \<and> \<not> sr_b_req_wen i then sr_mem s bwd
                           else sr_b_rsp_rdata s),
        sr_mem := (if sr_b_req_valid i \<and> sr_b_req_wen i
                   then (sr_mem s)(bwd := apply_wmask (sr_mem s bwd) (sr_b_req_wdata i)
                                           (sr_b_req_wmask i))
                   else sr_mem s)\<rparr>)"

lemma sram_index_less: "sram_index a < 16384"
  using unsigned_less[of "fld 2 a :: 14 word", where 'a = nat] by (simp add: sram_index_def)

text \<open>
  The clocked port and the DPI backdoor see the same array: what the port writes with all lanes
  on is what a poll of that word reads.
\<close>

lemma sram_port_write_read:
  assumes "sr_b_req_valid i" "sr_b_req_wen i" "k < 4"
  shows "byte_of (sram_dpi_read (sr_mem (sram_step s i)) (of_nat (sram_index (sr_b_req_addr i)))) k =
    (if bit (sr_b_req_wmask i) k then byte_of (sr_b_req_wdata i) k
     else byte_of (sr_mem s (sram_index (sr_b_req_addr i))) k)"
proof -
  have "unat (of_nat (sram_index (sr_b_req_addr i)) :: u32) = sram_index (sr_b_req_addr i)"
    using sram_index_less[of "sr_b_req_addr i"] by (simp add: unat_of_nat)
  then show ?thesis using assms sram_index_less[of "sr_b_req_addr i"]
    by (simp add: sram_dpi_small sram_step_def Let_def lane_simps)
qed

section \<open>axil_bram_big: the AXI-Lite slave\<close>

record bram =
  br_mem :: memory
  br_aw_hs :: bool
  br_w_hs :: bool
  br_awaddr :: u32
  br_wdata :: u32
  br_wstrb :: "4 word"
  br_bvalid :: bool
  br_ar_hs :: bool
  br_rvalid :: bool
  br_araddr :: u32
  br_rdata :: u32

definition bram_awready :: "bram \<Rightarrow> bool" where "bram_awready s = (\<not> br_aw_hs s)"
definition bram_wready :: "bram \<Rightarrow> bool" where "bram_wready s = (\<not> br_w_hs s)"
definition bram_arready :: "bram \<Rightarrow> bool" where "bram_arready s = (\<not> br_ar_hs s)"

text \<open>\<open>addr[AWIDTH+1:2]\<close> with \<open>AWIDTH = $clog2(33554432) = 25\<close>.\<close>

definition bram_index :: "u32 \<Rightarrow> nat" where
  "bram_index a = unat (fld 2 a :: 25 word)"

text \<open>The 4 KiB slave \<open>rtl/mem/axil_bram_slave.sv\<close> differs in its size only: \<open>AWIDTH = 10\<close>.\<close>

definition small_index :: "u32 \<Rightarrow> nat" where
  "small_index a = unat (fld 2 a :: 10 word)"

definition bram_write_step :: "(u32 \<Rightarrow> nat) \<Rightarrow> bram \<Rightarrow> axil_in \<Rightarrow> bram" where
  "bram_write_step index s i =
     (if ax_rst i then s\<lparr>br_aw_hs := False, br_w_hs := False, br_bvalid := False\<rparr>
      else
        let aw = ax_awvalid i \<and> bram_awready s;
            w = ax_wvalid i \<and> bram_wready s;
            commit = br_aw_hs s \<and> br_w_hs s \<and> \<not> br_bvalid s;
            ack = br_bvalid s \<and> ax_bready i;
            k = index (br_awaddr s)
        in s\<lparr>br_awaddr := (if aw then ax_awaddr i else br_awaddr s),
             br_aw_hs := (if ack then False else if aw then True else br_aw_hs s),
             br_wdata := (if w then ax_wdata i else br_wdata s),
             br_wstrb := (if w then ax_wstrb i else br_wstrb s),
             br_w_hs := (if ack then False else if w then True else br_w_hs s),
             br_mem := (if commit
                        then (br_mem s)(k := apply_wmask (br_mem s k) (br_wdata s) (br_wstrb s))
                        else br_mem s),
             br_bvalid := (if ack then False else if commit then True else br_bvalid s)\<rparr>)"

definition bram_read_step :: "(u32 \<Rightarrow> nat) \<Rightarrow> bram \<Rightarrow> axil_in \<Rightarrow> bram" where
  "bram_read_step index s i =
     (if ax_rst i then s\<lparr>br_ar_hs := False, br_rvalid := False, br_rdata := 0\<rparr>
      else
        let ar = ax_arvalid i \<and> bram_arready s;
            rd = br_ar_hs s \<and> \<not> br_rvalid s;
            ack = br_rvalid s \<and> ax_rready i
        in s\<lparr>br_araddr := (if ar then ax_araddr i else br_araddr s),
             br_rdata := (if rd then br_mem s (index (br_araddr s)) else br_rdata s),
             br_rvalid := (if ack then False else if rd then True else br_rvalid s),
             br_ar_hs := (if ack then False else if ar then True else br_ar_hs s)\<rparr>)"

text \<open>Both clocked blocks read the state before the edge.\<close>

definition bram_step :: "(u32 \<Rightarrow> nat) \<Rightarrow> bram \<Rightarrow> axil_in \<Rightarrow> bram" where
  "bram_step index s i =
     (let w = bram_write_step index s i; r = bram_read_step index s i
      in w\<lparr>br_ar_hs := br_ar_hs r, br_rvalid := br_rvalid r, br_araddr := br_araddr r,
           br_rdata := br_rdata r\<rparr>)"

definition axil_bram_big :: "bram \<Rightarrow> axil_in \<Rightarrow> bram" where
  "axil_bram_big s i = bram_step bram_index s i"

definition axil_bram_slave :: "bram \<Rightarrow> axil_in \<Rightarrow> bram" where
  "axil_bram_slave s i = bram_step small_index s i"

end
