(* ===== verification/Cli.thy ===== *)
theory Cli
  imports Prelude
begin

text \<open>
  Command-line handling shared by \<open>sim/cpp/sim_main.cpp\<close> and \<open>sim/cpp/sim_linux.cpp\<close>:
  \<open>plusarg\<close>, \<open>has_plusarg\<close>, and the C library's \<open>strtoull(s, nullptr, 0)\<close> they read numbers
  with. An argument vector is a list of strings without NUL characters.
\<close>

section \<open>Plus arguments\<close>

definition plusarg_match :: "string \<Rightarrow> string \<Rightarrow> bool" where
  "plusarg_match name arg \<longleftrightarrow>
     arg \<noteq> [] \<and> hd arg = CHR ''+'' \<and> take (length name) (tl arg) = name \<and>
     length name < length (tl arg) \<and> tl arg ! length name = CHR ''=''"

fun plusarg_from :: "string list \<Rightarrow> string \<Rightarrow> string option" where
  "plusarg_from [] name = None"
| "plusarg_from (arg # rest) name =
     (if plusarg_match name arg then Some (drop (2 + length name) arg)
      else plusarg_from rest name)"

definition plusarg :: "string list \<Rightarrow> string \<Rightarrow> string option" where
  "plusarg argv name = plusarg_from (drop 1 argv) name"

fun has_plusarg_from :: "string list \<Rightarrow> string \<Rightarrow> bool" where
  "has_plusarg_from [] name = False"
| "has_plusarg_from (arg # rest) name =
     (if arg \<noteq> [] \<and> hd arg = CHR ''+'' \<and> take (length name) (tl arg) = name then True
      else has_plusarg_from rest name)"

definition has_plusarg :: "string list \<Rightarrow> string \<Rightarrow> bool" where
  "has_plusarg argv name = has_plusarg_from (drop 1 argv) name"

lemma plusarg_match_iff:
  "plusarg_match name arg \<longleftrightarrow> (\<exists>v. arg = CHR ''+'' # name @ CHR ''='' # v)"
proof
  assume m: "plusarg_match name arg"
  then obtain t where arg: "arg = CHR ''+'' # t" and t: "take (length name) t = name"
    "length name < length t" "t ! length name = CHR ''=''"
    by (cases arg) (auto simp: plusarg_match_def)
  have "t = take (length name) t @ t ! length name # drop (Suc (length name)) t"
    using t(2) by (rule id_take_nth_drop)
  then show "\<exists>v. arg = CHR ''+'' # name @ CHR ''='' # v" using arg t by metis
next
  assume "\<exists>v. arg = CHR ''+'' # name @ CHR ''='' # v"
  then show "plusarg_match name arg" by (auto simp: plusarg_match_def)
qed

lemma plusarg_value [simp]:
  "plusarg_match name (CHR ''+'' # name @ CHR ''='' # v)"
  "drop (2 + length name) (CHR ''+'' # name @ CHR ''='' # v) = v"
  by (auto simp: plusarg_match_iff)

lemma plusarg_from_Some:
  "plusarg_from args name = Some v \<longleftrightarrow>
     (\<exists>pre post. args = pre @ (CHR ''+'' # name @ CHR ''='' # v) # post \<and>
        (\<forall>a \<in> set pre. \<not> plusarg_match name a))"
proof (induction args)
  case Nil
  then show ?case by simp
next
  case (Cons a args)
  show ?case
  proof (cases "plusarg_match name a")
    case True
    then obtain w where a: "a = CHR ''+'' # name @ CHR ''='' # w" by (auto simp: plusarg_match_iff)
    then have "plusarg_from (a # args) name = Some w" by simp
    then show ?thesis using True a by (auto simp: Cons_eq_append_conv)
  next
    case False
    show ?thesis
    proof
      assume "plusarg_from (a # args) name = Some v"
      then obtain pre post where "args = pre @ (CHR ''+'' # name @ CHR ''='' # v) # post"
        and "\<forall>a \<in> set pre. \<not> plusarg_match name a"
        using False Cons.IH by auto
      then show "\<exists>pre post. a # args = pre @ (CHR ''+'' # name @ CHR ''='' # v) # post \<and>
          (\<forall>a \<in> set pre. \<not> plusarg_match name a)"
        using False by - (rule exI[of _ "a # pre"], rule exI[of _ post], auto)
    next
      assume "\<exists>pre post. a # args = pre @ (CHR ''+'' # name @ CHR ''='' # v) # post \<and>
          (\<forall>a \<in> set pre. \<not> plusarg_match name a)"
      then obtain pre post where e: "a # args = pre @ (CHR ''+'' # name @ CHR ''='' # v) # post"
        and n: "\<forall>a \<in> set pre. \<not> plusarg_match name a" by blast
      from e False obtain pre' where "pre = a # pre'" by (cases pre) auto
      then show "plusarg_from (a # args) name = Some v" using e n False Cons.IH by auto
    qed
  qed
qed

section \<open>strtoull with base 0\<close>

definition is_space :: "char \<Rightarrow> bool" where
  "is_space c \<longleftrightarrow> c = CHR '' '' \<or> (9 \<le> (of_char c :: nat) \<and> (of_char c :: nat) \<le> 13)"

definition digit_val :: "char \<Rightarrow> nat option" where
  "digit_val c =
     (let n = of_char c :: nat in
      if 48 \<le> n \<and> n \<le> 57 then Some (n - 48)
      else if 97 \<le> n \<and> n \<le> 122 then Some (n - 87)
      else if 65 \<le> n \<and> n \<le> 90 then Some (n - 55) else None)"

fun parse_digits :: "nat \<Rightarrow> string \<Rightarrow> nat \<Rightarrow> nat" where
  "parse_digits base [] acc = acc"
| "parse_digits base (c # cs) acc =
     (case digit_val c of
        None \<Rightarrow> acc
      | Some d \<Rightarrow> if d < base then parse_digits base cs (acc * base + d) else acc)"

definition is_hex_start :: "string \<Rightarrow> bool" where
  "is_hex_start s \<longleftrightarrow>
     (case s of
        a # b # c # _ \<Rightarrow> a = CHR ''0'' \<and> (b = CHR ''x'' \<or> b = CHR ''X'') \<and>
                      (case digit_val c of Some d \<Rightarrow> d < 16 | None \<Rightarrow> False)
      | _ \<Rightarrow> False)"

definition parse_magnitude :: "string \<Rightarrow> nat" where
  "parse_magnitude s =
     (if is_hex_start s then parse_digits 16 (drop 2 s) 0
      else if s \<noteq> [] \<and> hd s = CHR ''0'' then parse_digits 8 s 0
      else parse_digits 10 s 0)"

definition strtoull :: "string \<Rightarrow> u64" where
  "strtoull s =
     (let t = dropWhile is_space s;
          neg = (t \<noteq> [] \<and> hd t = CHR ''-'');
          u = (if t \<noteq> [] \<and> (hd t = CHR ''-'' \<or> hd t = CHR ''+'') then tl t else t);
          m = parse_magnitude u
      in if 2 ^ 64 \<le> m then -1 else if neg then - of_nat m else of_nat m)"

end
