(* ===== verification/Run_Loop.thy ===== *)
theory Run_Loop
  imports Prelude
begin

text \<open>
  The contract of a simulator run loop: one clock cycle per iteration, a 64-bit cycle counter, and
  a cap. Both harnesses (\<open>sim_main.cpp\<close>, \<open>sim_linux.cpp\<close>) provide it.
\<close>

locale capped_loop =
  fixes loop :: "u64 \<Rightarrow> 'r \<Rightarrow> 'r"
    and cyc :: "'r \<Rightarrow> 'r"
    and fin :: "'r \<Rightarrow> bool"
    and count :: "'r \<Rightarrow> u64"
  assumes unfold: "loop t r = (if \<not> fin r \<and> count r < t then loop t (cyc r) else r)"
    and counts: "count (cyc r) = count r + 1"
begin

lemma step: "\<not> fin r \<Longrightarrow> count r < t \<Longrightarrow> loop t r = loop t (cyc r)"
  using unfold[of t r] by simp

lemma stop: "fin r \<or> t \<le> count r \<Longrightarrow> loop t r = r"
  using unfold[of t r] by (auto simp: not_less)

lemma count_after:
  assumes "unat (count r) + n < 2 ^ 64"
  shows "unat (count ((cyc ^^ n) r)) = unat (count r) + n"
  using assms
proof (induction n)
  case (Suc n)
  then show ?case by (simp add: counts unat_word_ariths)
qed simp

lemma runs:
  assumes "\<forall>m < n. \<not> fin ((cyc ^^ m) r)" "unat (count r) + n \<le> unat t"
  shows "loop t r = loop t ((cyc ^^ n) r)"
  using assms
proof (induction n)
  case (Suc n)
  have "unat t < 2 ^ 64" using unsigned_less[of t, where 'a = nat] by simp
  then have "count ((cyc ^^ n) r) < t"
    using Suc.prems count_after[of r n] by (simp add: word_less_nat_alt)
  then show ?case using Suc.IH Suc.prems step[of "(cyc ^^ n) r" t] by simp
qed simp

lemma stops_first:
  assumes "\<forall>m < n. \<not> fin ((cyc ^^ m) r)" "fin ((cyc ^^ n) r)" "unat (count r) + n \<le> unat t"
  shows "loop t r = (cyc ^^ n) r"
  using runs[OF assms(1,3)] stop[of "(cyc ^^ n) r" t] assms(2) by simp

lemma stops_at_cap:
  assumes "\<forall>m < n. \<not> fin ((cyc ^^ m) r)" "unat (count r) + n = unat t"
  shows "loop t r = (cyc ^^ n) r" and "count ((cyc ^^ n) r) = t"
proof -
  have "unat t < 2 ^ 64" using unsigned_less[of t, where 'a = nat] by simp
  then show t: "count ((cyc ^^ n) r) = t"
    using count_after[of r n] assms(2) by (simp add: word_unat_eq_iff)
  show "loop t r = (cyc ^^ n) r"
    using runs[OF assms(1)] assms(2) stop[of "(cyc ^^ n) r" t] t by simp
qed

text \<open>Every run ends after finitely many cycles, in the final state of the last of them.\<close>

lemma ends:
  obtains n where "loop t r = (cyc ^^ n) r" "\<forall>m < n. \<not> fin ((cyc ^^ m) r)"
    "fin ((cyc ^^ n) r) \<or> t \<le> count ((cyc ^^ n) r)"
proof (cases "\<exists>n. fin ((cyc ^^ n) r) \<and> unat (count r) + n \<le> unat t")
  case True
  let ?P = "\<lambda>n. fin ((cyc ^^ n) r) \<and> unat (count r) + n \<le> unat t"
  have P: "?P (LEAST n. ?P n)" using True by (rule LeastI_ex)
  have "\<not> fin ((cyc ^^ m) r)" if "m < (LEAST n. ?P n)" for m
    using not_less_Least[OF that] P that by auto
  then show thesis using that[of "LEAST n. ?P n"] stops_first[of "LEAST n. ?P n" r t] P by blast
next
  case no: False
  show thesis
  proof (cases "unat (count r) \<le> unat t")
    case True
    then have nf: "\<forall>m < unat t - unat (count r). \<not> fin ((cyc ^^ m) r)" using no by auto
    show thesis using that[of "unat t - unat (count r)"] stops_at_cap[OF nf] nf True by simp
  next
    case False
    then show thesis using that[of 0] stop[of r t] by (simp add: word_le_nat_alt)
  qed
qed

end

end
