(* ===== verification/Sim_Main.thy ===== *)
theory Sim_Main
  imports Elf_Loader Memories Cli Run_Loop
begin

text \<open>
  \<open>sim/cpp/sim_main.cpp\<close>: the Verilator harness that loads an ELF into the SRAM, resets the SoC
  and runs it until an exit write, a \<open>tohost\<close> value, \<open>$finish\<close> or the cycle cap. The Verilated
  SoC is generated from the RTL at build time, so it is a parameter: a record of functions on an
  opaque device state.
\<close>

section \<open>The Verilated top level (soc_tb_top)\<close>

record dut_out =
  commit_valid :: bool
  commit_pc :: u32
  commit_insn :: u32
  commit_rd_wen :: bool
  commit_rd_addr :: "5 word"
  commit_rd_data :: u32
  commit_trap :: bool
  commit_cause :: u32
  console_valid :: bool
  console_byte :: u8
  exit_valid :: bool
  exit_code :: u32

text \<open>
  \<open>eval d clk rst\<close> drives the two pins and evaluates; \<open>peek\<close>/\<open>poke\<close> are the DPI backdoor of the
  SRAM scope; \<open>finished\<close> is \<open>Verilated::gotFinish\<close>.
\<close>

record 'd dut =
  eval :: "'d \<Rightarrow> bool \<Rightarrow> bool \<Rightarrow> 'd"
  outs :: "'d \<Rightarrow> dut_out"
  peek :: "'d \<Rightarrow> u32 \<Rightarrow> u32"
  poke :: "'d \<Rightarrow> u32 \<Rightarrow> u32 \<Rightarrow> 'd"
  finished :: "'d \<Rightarrow> bool"

section \<open>Loading the image\<close>

definition sram_base :: u32 where "sram_base = 0x80000000"
definition sram_words :: u32 where "sram_words = 16384"

text \<open>The device (or a bare memory) with its number of loaded and skipped words.\<close>

fun load_words ::
    "('s \<Rightarrow> u32 \<Rightarrow> u32 \<Rightarrow> 's) \<Rightarrow> elf_word list \<Rightarrow> 's \<times> u32 \<times> u32 \<Rightarrow> 's \<times> u32 \<times> u32" where
  "load_words wr [] st = st"
| "load_words wr (w # ws) (s, loaded, skipped) =
     (if byte_addr w < sram_base then load_words wr ws (s, loaded, skipped + 1)
      else
        let widx = (byte_addr w - sram_base) div 4 in
        if sram_words \<le> widx then load_words wr ws (s, loaded, skipped + 1)
        else load_words wr ws (wr s widx (data w), loaded + 1, skipped))"

section \<open>The run loop\<close>

record trace_line =
  tl_pc :: u32
  tl_insn :: u32
  tl_rd :: "(5 word \<times> u32) option"
  tl_trap :: "u32 option"

datatype sim_msg =
    LoadedWords u32 u32 u32
  | TohostAt u32
  | MmioExit u32 u64
  | TohostPass u64
  | TohostFail u32 int u64
  | GotFinish u64
  | TimeoutAfter u64

record 'd run =
  dev :: 'd
  g_cycles :: u64
  run_done :: bool
  rc :: u32
  trace :: "trace_line list"
  console :: "u8 list"
  msgs :: "sim_msg list"

definition trace_line_of :: "dut_out \<Rightarrow> trace_line" where
  "trace_line_of out = \<lparr>tl_pc = commit_pc out, tl_insn = commit_insn out,
     tl_rd = (if commit_rd_wen out then Some (commit_rd_addr out, commit_rd_data out) else None),
     tl_trap = (if commit_trap out then Some (commit_cause out) else None)\<rparr>"

definition say :: "bool \<Rightarrow> sim_msg \<Rightarrow> 'd run \<Rightarrow> 'd run" where
  "say quiet m r = (if quiet then r else r\<lparr>msgs := msgs r @ [m]\<rparr>)"

text \<open>The rising edge: evaluate, then sample the commit, console and exit outputs.\<close>

definition rising_edge :: "'d dut \<Rightarrow> bool \<Rightarrow> bool \<Rightarrow> 'd run \<Rightarrow> 'd run" where
  "rising_edge D tracing quiet r =
     (let d = eval D (dev r) True False; out = outs D d;
          r1 = r\<lparr>dev := d\<rparr>;
          r2 = (if commit_valid out \<and> tracing
                then r1\<lparr>trace := trace r1 @ [trace_line_of out]\<rparr> else r1);
          r3 = (if console_valid out then r2\<lparr>console := console r2 @ [console_byte out]\<rparr> else r2)
      in if exit_valid out
         then say quiet (MmioExit (exit_code out) (g_cycles r3))
                (r3\<lparr>rc := exit_code out, run_done := True\<rparr>)
         else r3)"

text \<open>The falling edge, the \<open>tohost\<close> poll, the cycle count and \<open>gotFinish\<close>.\<close>

definition falling_edge :: "'d dut \<Rightarrow> bool \<Rightarrow> u32 \<Rightarrow> u32 \<Rightarrow> 'd run \<Rightarrow> 'd run" where
  "falling_edge D quiet tohost_addr tohost_widx r =
     (let d = eval D (dev r) False False;
          r1 = r\<lparr>dev := d\<rparr>;
          val = peek D d tohost_widx;
          r2 = (if \<not> run_done r1 \<and> tohost_addr \<noteq> 0 \<and> val \<noteq> 0
                then (if val = 1
                      then say quiet (TohostPass (g_cycles r1)) (r1\<lparr>rc := 0, run_done := True\<rparr>)
                      else say quiet (TohostFail val (sint val div 2) (g_cycles r1))
                             (r1\<lparr>rc := 1, run_done := True\<rparr>))
                else r1);
          r3 = r2\<lparr>g_cycles := g_cycles r2 + 1\<rparr>
      in if finished D d
         then say quiet (GotFinish (g_cycles r3)) (r3\<lparr>run_done := True\<rparr>) else r3)"

definition sim_cycle :: "'d dut \<Rightarrow> bool \<Rightarrow> bool \<Rightarrow> u32 \<Rightarrow> u32 \<Rightarrow> 'd run \<Rightarrow> 'd run" where
  "sim_cycle D tracing quiet tohost_addr tohost_widx r =
     falling_edge D quiet tohost_addr tohost_widx (rising_edge D tracing quiet r)"

lemma say_sel [simp]:
  "dev (say q m r) = dev r" "g_cycles (say q m r) = g_cycles r" "run_done (say q m r) = run_done r"
  "rc (say q m r) = rc r" "trace (say q m r) = trace r" "console (say q m r) = console r"
  by (simp_all add: say_def)

lemma g_cycles_cycle [simp]: "g_cycles (sim_cycle D t q a w r) = g_cycles r + 1"
  by (simp add: sim_cycle_def rising_edge_def falling_edge_def Let_def)

function sim_loop ::
    "'d dut \<Rightarrow> bool \<Rightarrow> bool \<Rightarrow> u32 \<Rightarrow> u32 \<Rightarrow> u64 \<Rightarrow> 'd run \<Rightarrow> 'd run" where
  "sim_loop D tracing quiet tohost_addr tohost_widx timeout r =
     (if \<not> run_done r \<and> g_cycles r < timeout
      then sim_loop D tracing quiet tohost_addr tohost_widx timeout
             (sim_cycle D tracing quiet tohost_addr tohost_widx r)
      else r)"
  by pat_completeness auto

termination
proof (relation "measure (\<lambda>(D, t, q, a, w, timeout, r). unat timeout - unat (g_cycles r))")
  fix D :: "'d dut" and t q a w timeout and r :: "'d run"
  assume "\<not> run_done r \<and> g_cycles r < timeout"
  then have "g_cycles r < timeout" by simp
  then show "((D, t, q, a, w, timeout, sim_cycle D t q a w r), D, t, q, a, w, timeout, r)
      \<in> measure (\<lambda>(D, t, q, a, w, timeout, r). unat timeout - unat (g_cycles r))"
    by (simp add: u64_step word_less_nat_alt)
qed simp

declare sim_loop.simps [simp del]

section \<open>Start-up, reset and exit\<close>

record sim_env =
  files :: "string \<Rightarrow> os_file"
  writable :: "string \<Rightarrow> bool"
  has_scope :: bool

datatype sim_failure = Usage | CannotOpenTrace string | NoSramScope | ElfLoadFailed elf_error

text \<open>The ten half-cycles with \<open>rst\<close> high, starting from \<open>clk = 0\<close>.\<close>

fun reset_pulse :: "'d dut \<Rightarrow> nat \<Rightarrow> bool \<Rightarrow> 'd run \<Rightarrow> 'd run" where
  "reset_pulse D 0 clk r = r"
| "reset_pulse D (Suc n) clk r =
     reset_pulse D n (\<not> clk)
       (r\<lparr>dev := eval D (dev r) (\<not> clk) True, g_cycles := g_cycles r + 1\<rparr>)"

definition sim_finish :: "u64 \<Rightarrow> 'd run \<Rightarrow> 'd run" where
  "sim_finish timeout r =
     (if \<not> run_done r \<and> timeout \<le> g_cycles r
      then r\<lparr>msgs := msgs r @ [TimeoutAfter (g_cycles r)], rc := 124\<rparr> else r)"

definition tohost_index :: "u32 \<Rightarrow> u32" where
  "tohost_index tohost_addr = (if tohost_addr \<noteq> 0 then (tohost_addr - sram_base) div 4 else 0)"

text \<open>Loading, reset, run and verdict, once the ELF has been read.\<close>

definition run_image :: "'d dut \<Rightarrow> 'd \<Rightarrow> bool \<Rightarrow> bool \<Rightarrow> u64 \<Rightarrow> loaded_elf \<Rightarrow> 'd run" where
  "run_image D d0 tracing quiet timeout elf =
     (let (d, loaded, skipped) = load_words (poke D) (words elf) (d0, 0, 0);
          r0 = \<lparr>dev = d, g_cycles = 0, run_done = False, rc = -1, trace = [], console = [],
                msgs = []\<rparr>;
          r1 = say quiet (LoadedWords loaded skipped (entry elf)) r0;
          tohost_addr = (case symbols elf ''tohost'' of Some a \<Rightarrow> a | None \<Rightarrow> 0);
          r2 = (if tohost_addr \<noteq> 0 then say quiet (TohostAt tohost_addr) r1 else r1)
      in sim_finish timeout
           (sim_loop D tracing quiet tohost_addr (tohost_index tohost_addr) timeout
             (reset_pulse D 10 False r2)))"

definition sim_main ::
    "sim_env \<Rightarrow> 'd dut \<Rightarrow> 'd \<Rightarrow> string list \<Rightarrow> (sim_failure \<times> u32 + 'd run) option" where
  "sim_main env D d0 argv =
     (case plusarg argv ''elf'' of
        None \<Rightarrow> Some (Inl (Usage, 1))
      | Some elf_path \<Rightarrow>
          let timeout = (case plusarg argv ''timeout'' of Some t \<Rightarrow> strtoull t | None \<Rightarrow> 2000000);
              trace_path = plusarg argv ''trace'';
              quiet = has_plusarg argv ''quiet''
          in if \<exists>p. trace_path = Some p \<and> \<not> writable env p
             then Some (Inl (CannotOpenTrace (the trace_path), 2))
             else if \<not> has_scope env then Some (Inl (NoSramScope, 2))
             else map_option
               (\<lambda>res. case res of
                   Inl e \<Rightarrow> Inl (ElfLoadFailed e, 2)
                 | Inr elf \<Rightarrow> Inr (run_image D d0 (trace_path \<noteq> None) quiet timeout elf))
               (load_elf32 (files env elf_path)))"

section \<open>The verdict of a run\<close>

text \<open>One full clock cycle of the device, and the event the harness sees in it.\<close>

definition next_low :: "'d dut \<Rightarrow> 'd \<Rightarrow> 'd" where
  "next_low D d = eval D (eval D d True False) False False"

definition cycle_verdict :: "'d dut \<Rightarrow> u32 \<Rightarrow> u32 \<Rightarrow> 'd \<Rightarrow> u32 option" where
  "cycle_verdict D tohost_addr tohost_widx d =
     (let h = outs D (eval D d True False); l = next_low D d; val = peek D l tohost_widx in
      if exit_valid h then Some (exit_code h)
      else if tohost_addr \<noteq> 0 \<and> val \<noteq> 0 then Some (if val = 1 then 0 else 1)
      else if finished D l then Some (- 1)
      else None)"

definition cycle_console :: "'d dut \<Rightarrow> 'd \<Rightarrow> u8 list" where
  "cycle_console D d =
     (let h = outs D (eval D d True False) in if console_valid h then [console_byte h] else [])"

definition cycle_trace :: "'d dut \<Rightarrow> bool \<Rightarrow> 'd \<Rightarrow> trace_line list" where
  "cycle_trace D tracing d =
     (let h = outs D (eval D d True False) in
      if commit_valid h \<and> tracing then [trace_line_of h] else [])"

lemma rising_edge_sel:
  "dev (rising_edge D t q r) = eval D (dev r) True False"
  "g_cycles (rising_edge D t q r) = g_cycles r"
  "console (rising_edge D t q r) = console r @ cycle_console D (dev r)"
  "trace (rising_edge D t q r) = trace r @ cycle_trace D t (dev r)"
  "run_done (rising_edge D t q r) \<longleftrightarrow> run_done r \<or> exit_valid (outs D (eval D (dev r) True False))"
  "rc (rising_edge D t q r) = (if exit_valid (outs D (eval D (dev r) True False))
     then exit_code (outs D (eval D (dev r) True False)) else rc r)"
  by (simp_all add: rising_edge_def cycle_console_def cycle_trace_def Let_def)

lemma falling_edge_sel:
  "dev (falling_edge D q a w r) = eval D (dev r) False False"
  "console (falling_edge D q a w r) = console r"
  "trace (falling_edge D q a w r) = trace r"
  "run_done (falling_edge D q a w r) \<longleftrightarrow> run_done r \<or>
     (a \<noteq> 0 \<and> peek D (eval D (dev r) False False) w \<noteq> 0) \<or> finished D (eval D (dev r) False False)"
  "rc (falling_edge D q a w r) =
     (if \<not> run_done r \<and> a \<noteq> 0 \<and> peek D (eval D (dev r) False False) w \<noteq> 0
      then (if peek D (eval D (dev r) False False) w = 1 then 0 else 1) else rc r)"
  by (simp_all add: falling_edge_def Let_def)

lemma sim_cycle_observed:
  assumes "\<not> run_done r"
  shows "dev (sim_cycle D t q a w r) = next_low D (dev r)"
    and "console (sim_cycle D t q a w r) = console r @ cycle_console D (dev r)"
    and "trace (sim_cycle D t q a w r) = trace r @ cycle_trace D t (dev r)"
    and "run_done (sim_cycle D t q a w r) \<longleftrightarrow> cycle_verdict D a w (dev r) \<noteq> None"
    and "rc r = - 1 \<Longrightarrow> rc (sim_cycle D t q a w r) =
           (case cycle_verdict D a w (dev r) of Some c \<Rightarrow> c | None \<Rightarrow> - 1)"
  using assms
  by (simp_all add: sim_cycle_def rising_edge_sel falling_edge_sel next_low_def
      cycle_verdict_def Let_def)

definition low_at :: "'d dut \<Rightarrow> 'd \<Rightarrow> nat \<Rightarrow> 'd" where
  "low_at D d n = (next_low D ^^ n) d"

lemma low_at_simps [simp]: "low_at D d 0 = d" "low_at D (next_low D d) n = low_at D d (Suc n)"
  by (simp_all add: low_at_def funpow_swap1)

interpretation main_loop: capped_loop "sim_loop D t q a w" "sim_cycle D t q a w" run_done g_cycles
  for D :: "'d dut" and t q a w
  by unfold_locales (subst sim_loop.simps, simp, simp)

lemmas sim_loop_step = main_loop.step
lemmas sim_loop_stop = main_loop.stop

lemma sim_loop_event:
  assumes "\<not> run_done r" "rc r = - 1" "unat (g_cycles r) + n < unat timeout"
    and "\<forall>m < n. cycle_verdict D a w (low_at D (dev r) m) = None"
    and "cycle_verdict D a w (low_at D (dev r) n) = Some c"
  shows "let r' = sim_loop D t q a w timeout r in
    run_done r' \<and> rc r' = c \<and> g_cycles r' = g_cycles r + of_nat (Suc n) \<and>
    console r' = console r @ concat (map (\<lambda>m. cycle_console D (low_at D (dev r) m)) [0..<Suc n]) \<and>
    trace r' = trace r @ concat (map (\<lambda>m. cycle_trace D t (low_at D (dev r) m)) [0..<Suc n])"
  using assms
proof (induction n arbitrary: r)
  case 0
  then have lt: "g_cycles r < timeout" by (simp add: word_less_nat_alt)
  have "sim_loop D t q a w timeout r = sim_cycle D t q a w r"
    using 0 lt by (simp add: sim_loop_step sim_loop_stop sim_cycle_observed)
  then show ?case using 0 by (simp add: sim_cycle_observed)
next
  case (Suc n)
  let ?r = "sim_cycle D t q a w r"
  have lt: "g_cycles r < timeout" using Suc.prems by (simp add: word_less_nat_alt)
  have v0: "cycle_verdict D a w (dev r) = None" using Suc.prems(4)[rule_format, of 0] by simp
  have g: "unat (g_cycles ?r) = Suc (unat (g_cycles r))" using u64_step[OF lt] by simp
  have vs: "\<forall>m < n. cycle_verdict D a w (low_at D (dev ?r) m) = None"
    using Suc.prems(1,4) by (simp add: sim_cycle_observed)
  have "let r' = sim_loop D t q a w timeout ?r in
    run_done r' \<and> rc r' = c \<and> g_cycles r' = g_cycles ?r + of_nat (Suc n) \<and>
    console r' = console ?r @ concat (map (\<lambda>m. cycle_console D (low_at D (dev ?r) m)) [0..<Suc n]) \<and>
    trace r' = trace ?r @ concat (map (\<lambda>m. cycle_trace D t (low_at D (dev ?r) m)) [0..<Suc n])"
    using Suc.prems vs v0 g by (intro Suc.IH) (simp_all add: sim_cycle_observed)
  moreover have "[0..<Suc (Suc n)] = 0 # map Suc [0..<Suc n]"
    unfolding map_Suc_upt by (rule upt_conv_Cons) simp
  ultimately show ?case
    using Suc.prems(1) lt
    by (simp add: sim_loop_step sim_cycle_observed Let_def comp_def del: upt_Suc)
qed

lemma sim_loop_no_event:
  assumes "\<not> run_done r" "rc r = - 1" "unat (g_cycles r) + n = unat timeout"
    and "\<forall>m < n. cycle_verdict D a w (low_at D (dev r) m) = None"
  shows "let r' = sim_loop D t q a w timeout r in
    \<not> run_done r' \<and> rc r' = - 1 \<and> g_cycles r' = timeout"
  using assms
proof (induction n arbitrary: r)
  case 0
  then have "g_cycles r = timeout" by (simp add: word_unat_eq_iff)
  then show ?case using 0 by (simp add: sim_loop_stop)
next
  case (Suc n)
  let ?r = "sim_cycle D t q a w r"
  have lt: "g_cycles r < timeout" using Suc.prems by (simp add: word_less_nat_alt)
  have v0: "cycle_verdict D a w (dev r) = None" using Suc.prems(4)[rule_format, of 0] by simp
  have g: "unat (g_cycles ?r) = Suc (unat (g_cycles r))" using u64_step[OF lt] by simp
  have "\<forall>m < n. cycle_verdict D a w (low_at D (dev ?r) m) = None"
    using Suc.prems(1,4) by (simp add: sim_cycle_observed)
  then have "let r' = sim_loop D t q a w timeout ?r in
      \<not> run_done r' \<and> rc r' = - 1 \<and> g_cycles r' = timeout"
    using Suc.prems v0 g by (intro Suc.IH) (simp_all add: sim_cycle_observed)
  then show ?case using Suc.prems(1) lt by (simp add: sim_loop_step)
qed

section \<open>What the load loop leaves in the SRAM\<close>

text \<open>The writes the loop performs: the in-range words with their SRAM index.\<close>

definition sram_writes :: "elf_word list \<Rightarrow> (u32 \<times> u32) list" where
  "sram_writes ws =
     map (\<lambda>w. ((byte_addr w - sram_base) div 4, data w))
       (filter (\<lambda>w. sram_base \<le> byte_addr w \<and> (byte_addr w - sram_base) div 4 < sram_words) ws)"

lemma load_words_writes:
  "fst (load_words wr ws (s, l, k)) = foldl (\<lambda>s (i, v). wr s i v) s (sram_writes ws)"
  by (induction ws arbitrary: s l k) (auto simp: sram_writes_def Let_def not_le not_less)

lemma load_words_counts:
  assumes "load_words wr ws (s, l, k) = (s', l', k')"
  shows "l' = l + of_nat (length (sram_writes ws)) \<and>
    k' = k + of_nat (length ws - length (sram_writes ws))"
proof -
  have le: "length (sram_writes ws) \<le> length ws" for ws
    by (simp add: sram_writes_def)
  show ?thesis using assms
  proof (induction ws arbitrary: s l k)
    case Nil
    then show ?case by (simp add: sram_writes_def)
  next
    case (Cons w ws)
    show ?case
    proof (cases "sram_base \<le> byte_addr w \<and> (byte_addr w - sram_base) div 4 < sram_words")
      case True
      then have "sram_writes (w # ws) =
          ((byte_addr w - sram_base) div 4, data w) # sram_writes ws"
        by (simp add: sram_writes_def)
      moreover have "load_words wr ws (wr s ((byte_addr w - sram_base) div 4) (data w), l + 1, k) = (s', l', k')"
        using True Cons.prems by (auto simp: Let_def not_le not_less split: if_splits)
      ultimately show ?thesis using Cons.IH by (fastforce simp: add.assoc)
    next
      case False
      then have "sram_writes (w # ws) = sram_writes ws"
        and "load_words wr ws (s, l, k + 1) = (s', l', k')"
        using Cons.prems by (auto simp: sram_writes_def Let_def not_le not_less split: if_splits)
      then show ?thesis using Cons.IH[of s l "k + 1"] le[of ws] by (simp add: Suc_diff_le)
    qed
  qed
qed

lemma sram_addr:
  assumes "a < 65536"
  shows "sram_base \<le> sram_base + of_nat a" and "(of_nat a :: u32) div 4 = of_nat (a div 4)"
    and "(of_nat a :: u32) div 4 < sram_words"
proof -
  have u: "unat (of_nat a :: u32) = a" using assms by (intro unat_of_nat_u32) simp
  have "unat (sram_base + of_nat a) = 0x80000000 + a"
    using assms by (subst unat_add_small) (simp_all add: sram_base_def)
  then show "sram_base \<le> sram_base + of_nat a"
    by (simp only: word_le_nat_alt sram_base_def) simp
  have d: "unat ((of_nat a :: u32) div 4) = a div 4" by (simp add: unat_div_distrib u)
  have "of_nat (unat ((of_nat a :: u32) div 4)) = (of_nat a :: u32) div 4" by simp
  then show "(of_nat a :: u32) div 4 = of_nat (a div 4)" by (simp only: d)
  show "(of_nat a :: u32) div 4 < sram_words"
    using d assms by (simp only: word_less_nat_alt sram_words_def) simp
qed

lemma bss_step_bound: "j < (m - n + 3) div (4 :: nat) \<Longrightarrow> n + 4 * j < m"
  using file_step_bound[of j "m - n"] by simp

lemma sram_writes_range:
  assumes "\<And>j. j < N \<Longrightarrow> a + 4 * j < 65536"
  shows "sram_writes (map (\<lambda>j. \<lparr>byte_addr = sram_base + of_nat (a + 4 * j), data = f j\<rparr>) [0..<N]) =
    map (\<lambda>j. (of_nat (a div 4 + j), f j)) [0..<N]"
proof -
  let ?w = "\<lambda>j. \<lparr>byte_addr = sram_base + of_nat (a + 4 * j), data = f j\<rparr>"
  have w: "sram_base \<le> byte_addr (?w j)" "(byte_addr (?w j) - sram_base) div 4 < sram_words"
      "(byte_addr (?w j) - sram_base) div 4 = of_nat (a div 4 + j)" if "j < N" for j
  proof -
    have lt: "a + 4 * j < 65536" using assms[OF that] .
    have "(a + 4 * j) div 4 = a div 4 + j" by simp
    then show "sram_base \<le> byte_addr (?w j)" "(byte_addr (?w j) - sram_base) div 4 < sram_words"
      "(byte_addr (?w j) - sram_base) div 4 = of_nat (a div 4 + j)"
      using sram_addr[OF lt] by (simp_all only: elf_word.select_convs add_diff_cancel_left')
  qed
  have "filter (\<lambda>w. sram_base \<le> byte_addr w \<and> (byte_addr w - sram_base) div 4 < sram_words)
      (map ?w [0..<N]) = map ?w [0..<N]"
    unfolding filter_id_conv using w(1,2) by (metis (no_types, lifting) atLeastLessThan_iff image_iff list.set_map set_upt)
  then show ?thesis
    unfolding sram_writes_def by (simp only: map_map comp_def) (rule map_cong[OF refl], simp only: set_upt atLeastLessThan_iff w(3)[unfolded elf_word.select_convs] elf_word.select_convs)
qed

text \<open>One segment at SRAM offset \<open>a\<close>, with \<open>n\<close> file bytes and \<open>m\<close> bytes in memory.\<close>

definition segment_image :: "bytes \<Rightarrow> nat \<Rightarrow> nat \<Rightarrow> nat \<Rightarrow> nat \<Rightarrow> elf_word list" where
  "segment_image p dat a n m =
     file_words p dat (sram_base + of_nat a) n 0 @ bss_words (sram_base + of_nat a) n m"

lemma sram_writes_segment:
  assumes "a mod 4 = 0" "a + n \<le> 65536" "a + m \<le> 65536"
  shows "sram_writes (segment_image p dat a n m) =
    map (\<lambda>j. (of_nat (a div 4 + j), word_at p dat n (4 * j))) [0..<(n + 3) div 4] @
    map (\<lambda>j. (of_nat ((a + n) div 4 + j), 0)) [0..<(m - n + 3) div 4]"
proof -
  have app: "sram_writes (xs @ ys) = sram_writes xs @ sram_writes ys" for xs ys
    by (simp add: sram_writes_def)
  have "file_words p dat (sram_base + of_nat a) n 0 =
      map (\<lambda>j. \<lparr>byte_addr = sram_base + of_nat (a + 4 * j), data = word_at p dat n (4 * j)\<rparr>)
        [0..<(n + 3) div 4]"
    by (simp add: file_words_def add.assoc)
  moreover have "bss_words (sram_base + of_nat a) n m =
      map (\<lambda>j. \<lparr>byte_addr = sram_base + of_nat (a + n + 4 * j), data = 0\<rparr>)
        [0..<(m - n + 3) div 4]"
    by (simp add: bss_words_def add.assoc)
  moreover have "a + 4 * j < 65536" if "j < (n + 3) div 4" for j
    using file_step_bound[OF that] assms(2) by linarith
  moreover have "a + n + 4 * j < 65536" if "j < (m - n + 3) div 4" for j
    using bss_step_bound[OF that] assms(3) by linarith
  ultimately show ?thesis
    unfolding segment_image_def app by (simp only: sram_writes_range)
qed

lemma segment_in_sram:
  assumes "a mod 4 = 0" "a + n \<le> 65536" "a + m \<le> 65536" "k < 16384"
  shows "fst (load_words sram_dpi_write (segment_image p dat a n m) (s, l, sk)) k =
    (if (a + n) div 4 \<le> k \<and> k < (a + n) div 4 + (m - n + 3) div 4 then 0
     else if a div 4 \<le> k \<and> k < a div 4 + (n + 3) div 4 then word_at p dat n (4 * (k - a div 4))
     else s k)"
proof -
  let ?k = "of_nat k :: u32"
  have uk: "unat ?k = k" using assms(4) by (intro unat_of_nat_u32) simp
  have ok: "dpi_in sram_WORDS ?k" using assms(4) uk by (simp add: dpi_in_iff sram_WORDS_def)
  have rd: "sram_dpi_read m' ?k = m' k" for m' using sram_dpi_small(1)[of ?k m'] uk assms(4) by simp
  have b: "(a + n) div 4 + (m - n + 3) div 4 \<le> 2 ^ 32" "a div 4 + (n + 3) div 4 \<le> 2 ^ 32"
    using assms by simp_all
  let ?W = "sram_writes (segment_image p dat a n m)"
  have "fst (load_words sram_dpi_write (segment_image p dat a n m) (s, l, sk)) k =
      sram_dpi_read (foldl (\<lambda>s (i, v). sram_dpi_write s i v) s ?W) ?k"
    by (simp add: rd load_words_writes)
  also have "\<dots> = (case map_of (rev ?W) ?k of Some v \<Rightarrow> v | None \<Rightarrow> s k)"
    by (subst sram_bd.rd_writes) (simp add: ok rd split: option.split)
  also have "map_of (rev ?W) ?k =
      (if (a + n) div 4 \<le> k \<and> k < (a + n) div 4 + (m - n + 3) div 4 then Some 0
       else if a div 4 \<le> k \<and> k < a div 4 + (n + 3) div 4
       then Some (word_at p dat n (4 * (k - a div 4))) else None)"
    by (simp add: sram_writes_segment[OF assms(1-3)] map_add_def map_of_rev_range[OF b(1)]
        map_of_rev_range[OF b(2)] uk del: of_nat_add)
  finally show ?thesis by (simp split: if_splits)
qed

definition sram_byte :: "memory \<Rightarrow> nat \<Rightarrow> u8" where
  "sram_byte m a = byte_of (m (a div 4)) (a mod 4)"

lemma byte_of_word_at: "k < 4 \<Longrightarrow> byte_of (word_at p dat n j) k = byte_at p dat n (j + k)"
  by (auto simp: word_at_def less_4_cases)

lemma word_index_less: "a mod 4 = 0 \<Longrightarrow> a + b < 65536 \<Longrightarrow> a div 4 + b div 4 < (16384 :: nat)"
  using less_mult_imp_div_less[of "a + b" 16384 4] by (simp add: aligned_split)

lemma bss_span:
  assumes "n mod 4 = 0" "n < (m :: nat)" "b < m"
  shows "b div 4 < n div 4 + (m - n + 3) div 4"
proof -
  have "(n + (m - n + 3)) div 4 = n div 4 + (m - n + 3) div 4" by (rule aligned_split(1)[OF assms(1)])
  then show ?thesis using word_span[OF assms(3)] assms(2) by simp
qed

text \<open>
  C33. A segment whose file part is a whole number of words, or that has no part beyond the
  file, is loaded faithfully: every byte of its memory image holds the file's byte, or zero
  beyond the file's part.
\<close>

theorem sram_image_faithful:
  assumes "a mod 4 = 0" "a + n \<le> 65536" "a + m \<le> 65536"
    and "n mod 4 = 0 \<or> m \<le> n" and "b < max n m"
  shows "sram_byte (fst (load_words sram_dpi_write (segment_image p dat a n m) (s, l, sk))) (a + b) =
    (if b < n then p ! (dat + b) else 0)"
proof -
  let ?k = "a div 4 + b div 4"
  have k: "?k < 16384" using assms(2,3,5) by (intro word_index_less assms(1)) auto
  note img = segment_in_sram[OF assms(1-3) k, of p dat s l sk]
  show ?thesis
  proof (cases "b < n")
    case True
    have "b div 4 < (n + 3) div 4" using True by (rule word_span)
    moreover have "\<not> ((a + n) div 4 \<le> ?k \<and> ?k < (a + n) div 4 + (m - n + 3) div 4)"
      using True assms(4) aligned_split(1)[of n "b - n"] by (auto simp: aligned_split[OF assms(1)] dest: div_le_mono)
    ultimately show ?thesis using True
      by (auto simp add: sram_byte_def aligned_split[OF assms(1)] img byte_of_word_at byte_at_def)
  next
    case False
    then have nm: "n < m" "n mod 4 = 0" using assms(4,5) by auto
    have "n div 4 \<le> b div 4" using False by (intro div_le_mono) simp
    moreover have "b div 4 < n div 4 + (m - n + 3) div 4" using assms(5) nm by (intro bss_span) auto
    ultimately have "(a + n) div 4 \<le> ?k \<and> ?k < (a + n) div 4 + (m - n + 3) div 4"
      unfolding aligned_split(1)[OF assms(1)] by linarith
    then show ?thesis using False
      by (simp only: sram_byte_def aligned_split[OF assms(1)] img if_True if_False)
        (simp add: byte_of_def fld_def)
  qed
qed

theorem sram_image_faithful_witness:
  "sram_byte (fst (load_words sram_dpi_write (segment_image [1, 2, 3, 4] 0 8 4 7) (\<lambda>_. 9, 0, 0))) (8 + 2) = 3"
  using sram_image_faithful[of 8 4 7 2 "[1, 2, 3, 4]" 0 "\<lambda>_. 9" 0 0] by simp

text \<open>
  C6. When the file part of a segment is not a whole number of words and the segment has a part
  beyond the file, the first zero word is written at the unaligned address \<open>vaddr + filesz\<close>,
  which the load loop rounds down: the last one to three bytes of the file are overwritten with
  zero.
\<close>

theorem sram_image_tail_lost:
  assumes "a mod 4 = 0" "a + n \<le> 65536" "a + m \<le> 65536"
    and "n mod 4 \<noteq> 0" "n < m" and "n - n mod 4 \<le> b" "b < n"
  shows "sram_byte (fst (load_words sram_dpi_write (segment_image p dat a n m) (s, l, sk))) (a + b) = 0"
proof -
  let ?k = "a div 4 + b div 4"
  have k: "?k < 16384" using assms(2,7) by (intro word_index_less assms(1)) auto
  have "n div 4 \<le> b div 4" using div_le_mono[OF assms(6), of 4] by (simp add: minus_mod_eq_mult_div)
  moreover have "b div 4 \<le> n div 4" using assms(7) by (intro div_le_mono) simp
  moreover have "0 < (m - n + 3) div 4" using word_span[of 0 "m - n"] assms(5) by simp
  ultimately have "(a + n) div 4 \<le> ?k \<and> ?k < (a + n) div 4 + (m - n + 3) div 4"
    unfolding aligned_split(1)[OF assms(1)] by linarith
  then show ?thesis
    by (simp only: sram_byte_def aligned_split[OF assms(1)] segment_in_sram[OF assms(1-3) k] if_True)
      (simp add: byte_of_def fld_def)
qed

theorem sram_image_tail_lost_witness:
  "sram_byte (fst (load_words sram_dpi_write (segment_image [1, 2, 3, 4, 5, 6] 0 8 6 12) (\<lambda>_. 9, 0, 0)))
     (8 + 5) = 0"
  using sram_image_tail_lost[of 8 6 12 5 "[1, 2, 3, 4, 5, 6]" 0 "\<lambda>_. 9" 0 0] by simp

section \<open>Verdict and time-out of a whole run\<close>

lemma reset_pulse_sel:
  "g_cycles (reset_pulse D n clk r) = g_cycles r + of_nat n"
  "run_done (reset_pulse D n clk r) = run_done r" "rc (reset_pulse D n clk r) = rc r"
  "console (reset_pulse D n clk r) = console r" "trace (reset_pulse D n clk r) = trace r"
  by (induction n arbitrary: clk r) (simp_all add: add.assoc)

fun reset_dev :: "'d dut \<Rightarrow> nat \<Rightarrow> bool \<Rightarrow> 'd \<Rightarrow> 'd" where
  "reset_dev D 0 clk d = d"
| "reset_dev D (Suc n) clk d = reset_dev D n (\<not> clk) (eval D d (\<not> clk) True)"

lemma dev_reset_pulse: "dev (reset_pulse D n clk r) = reset_dev D n clk (dev r)"
  by (induction n arbitrary: clk r) simp_all

text \<open>The device the clock starts from, and the polled symbol.\<close>

definition start_dev :: "'d dut \<Rightarrow> 'd \<Rightarrow> loaded_elf \<Rightarrow> 'd" where
  "start_dev D d0 elf = reset_dev D 10 False (fst (load_words (poke D) (words elf) (d0, 0, 0)))"

definition tohost_of :: "loaded_elf \<Rightarrow> u32" where
  "tohost_of elf = (case symbols elf ''tohost'' of Some a \<Rightarrow> a | None \<Rightarrow> 0)"

definition elf_verdict :: "'d dut \<Rightarrow> loaded_elf \<Rightarrow> 'd \<Rightarrow> u32 option" where
  "elf_verdict D elf = cycle_verdict D (tohost_of elf) (tohost_index (tohost_of elf))"

lemma run_image_loop:
  obtains r0 where "dev r0 = start_dev D d0 elf" "\<not> run_done r0" "rc r0 = - 1" "g_cycles r0 = 10"
    "console r0 = []" "trace r0 = []"
    "run_image D d0 t q timeout elf = sim_finish timeout
       (sim_loop D t q (tohost_of elf) (tohost_index (tohost_of elf)) timeout r0)"
proof -
  obtain d l k where lw: "load_words (poke D) (words elf) (d0, 0, 0) = (d, l, k)"
    by (metis prod_cases3)
  let ?r1 = "say q (LoadedWords l k (entry elf)) \<lparr>dev = d, g_cycles = 0, run_done = False, rc = -1,
    trace = [], console = [], msgs = []\<rparr>"
  let ?r2 = "if tohost_of elf \<noteq> 0 then say q (TohostAt (tohost_of elf)) ?r1 else ?r1"
  show thesis
    by (rule that[of "reset_pulse D 10 False ?r2"])
      (simp_all add: reset_pulse_sel dev_reset_pulse start_dev_def lw run_image_def tohost_of_def Let_def
        del: reset_pulse.simps reset_dev.simps)
qed

text \<open>A device that counts rising edges, prints at two and writes the exit register at three.\<close>

definition counter_dut :: "nat dut" where
  "counter_dut = \<lparr>
     eval = (\<lambda>d clk rst. if clk \<and> \<not> rst then Suc d else d),
     outs = (\<lambda>d. \<lparr>commit_valid = True, commit_pc = 0, commit_insn = 0, commit_rd_wen = False,
       commit_rd_addr = 0, commit_rd_data = 0, commit_trap = False, commit_cause = 0,
       console_valid = (d = 2), console_byte = 65, exit_valid = (d = 3), exit_code = 7\<rparr>),
     peek = (\<lambda>d i. 0), poke = (\<lambda>d i v. d), finished = (\<lambda>d. False)\<rparr>"

definition empty_elf :: loaded_elf where
  "empty_elf = \<lparr>words = [], symbols = Map.empty, entry = 0\<rparr>"

lemma counter_start: "start_dev counter_dut 0 empty_elf = 0"
  by (simp add: start_dev_def empty_elf_def counter_dut_def eval_nat_numeral)

lemma counter_low: "low_at counter_dut d n = d + n"
proof (induction n arbitrary: d)
  case (Suc n)
  have "next_low counter_dut d = Suc d" by (simp add: next_low_def counter_dut_def)
  then show ?case using Suc[of "Suc d"] by (simp flip: low_at_simps(2))
qed simp

lemma counter_console: "cycle_console counter_dut d = (if d = 1 then [65] else [])"
  by (simp add: cycle_console_def counter_dut_def)

lemma counter_verdict: "elf_verdict counter_dut empty_elf d = (if d = 2 then Some 7 else None)"
  by (simp add: elf_verdict_def cycle_verdict_def tohost_of_def empty_elf_def counter_dut_def
      next_low_def Let_def)

text \<open>
  C34. The run stops in the first cycle after reset that shows an exit write, a non-zero \<open>tohost\<close>
  word or \<open>$finish\<close>, with that cycle's verdict as exit code (an exit write wins over \<open>tohost\<close>);
  the console and the trace hold exactly what the cycles up to it showed, in order.
\<close>

theorem run_image_verdict:
  assumes "10 + n < unat timeout"
    and "\<forall>m < n. elf_verdict D elf (low_at D (start_dev D d0 elf) m) = None"
    and "elf_verdict D elf (low_at D (start_dev D d0 elf) n) = Some c"
  shows "let r = run_image D d0 t q timeout elf in
    run_done r \<and> rc r = c \<and> g_cycles r = of_nat (10 + Suc n) \<and>
    console r = concat (map (\<lambda>m. cycle_console D (low_at D (start_dev D d0 elf) m)) [0..<Suc n]) \<and>
    trace r = concat (map (\<lambda>m. cycle_trace D t (low_at D (start_dev D d0 elf) m)) [0..<Suc n])"
proof -
  obtain r0 where r0: "dev r0 = start_dev D d0 elf" "\<not> run_done r0" "rc r0 = - 1" "g_cycles r0 = 10"
    "console r0 = []" "trace r0 = []"
    and run: "run_image D d0 t q timeout elf = sim_finish timeout
       (sim_loop D t q (tohost_of elf) (tohost_index (tohost_of elf)) timeout r0)"
    by (rule run_image_loop)
  note ev = sim_loop_event[OF r0(2,3), where n = n and timeout = timeout and D = D and t = t
      and q = q and a = "tohost_of elf" and w = "tohost_index (tohost_of elf)" and c = c]
  show ?thesis using ev assms r0
    by (simp add: run elf_verdict_def Let_def sim_finish_def del: upt_Suc)
qed

theorem run_image_verdict_witness:
  "rc (run_image counter_dut 0 True False 100 empty_elf) = 7 \<and>
   console (run_image counter_dut 0 True False 100 empty_elf) = [65]"
proof -
  have "let r = run_image counter_dut 0 True False 100 empty_elf in
    run_done r \<and> rc r = 7 \<and> g_cycles r = of_nat (10 + Suc 2) \<and>
    console r = concat (map (\<lambda>m. cycle_console counter_dut (low_at counter_dut (start_dev counter_dut 0 empty_elf) m)) [0..<Suc 2]) \<and>
    trace r = concat (map (\<lambda>m. cycle_trace counter_dut True (low_at counter_dut (start_dev counter_dut 0 empty_elf) m)) [0..<Suc 2])"
    by (rule run_image_verdict) (simp_all add: counter_start counter_low counter_verdict)
  then show ?thesis
    by (simp add: Let_def counter_start counter_low counter_console eval_nat_numeral)
qed

text \<open>
  A run in which no cycle below the cap shows an exit write, a \<open>tohost\<close> value or \<open>$finish\<close>
  ends with the time-out code 124.
\<close>

theorem run_image_timeout:
  assumes "\<forall>m. 10 + m < unat timeout \<longrightarrow> elf_verdict D elf (low_at D (start_dev D d0 elf) m) = None"
  shows "rc (run_image D d0 t q timeout elf) = 124 \<and> \<not> run_done (run_image D d0 t q timeout elf)"
proof -
  obtain r0 where r0: "dev r0 = start_dev D d0 elf" "\<not> run_done r0" "rc r0 = - 1" "g_cycles r0 = 10"
    "console r0 = []" "trace r0 = []"
    and run: "run_image D d0 t q timeout elf = sim_finish timeout
       (sim_loop D t q (tohost_of elf) (tohost_index (tohost_of elf)) timeout r0)"
    by (rule run_image_loop)
  show ?thesis
  proof (cases "10 \<le> unat timeout")
    case True
    then show ?thesis
      using sim_loop_no_event[OF r0(2,3), where n = "unat timeout - 10" and timeout = timeout
          and D = D and t = t and q = q and a = "tohost_of elf"
          and w = "tohost_index (tohost_of elf)"] assms r0
      by (simp add: run elf_verdict_def Let_def sim_finish_def)
  next
    case False
    then have "timeout \<le> g_cycles r0" using r0 by (simp add: word_le_nat_alt)
    then show ?thesis using r0 by (simp add: run sim_loop_stop sim_finish_def)
  qed
qed

theorem run_image_timeout_witness: "rc (run_image counter_dut 0 True False 12 empty_elf) = 124"
proof -
  have "\<forall>m. 10 + m < unat (12 :: u64) \<longrightarrow>
      elf_verdict counter_dut empty_elf (low_at counter_dut (start_dev counter_dut 0 empty_elf) m) = None"
    by (simp add: counter_start counter_low counter_verdict)
  then show ?thesis
    using run_image_timeout[where D = counter_dut and elf = empty_elf and ?d0.0 = 0 and timeout = 12
        and t = True and q = False] by blast
qed

end
