(* ===== verification/Sim_Linux.thy ===== *)
theory Sim_Linux
  imports Memories Cli Run_Loop
begin

text \<open>
  \<open>sim/cpp/sim_linux.cpp\<close>: the Verilator harness of the Linux boot. It loads up to four images
  into the DDR model (or one raw image), a boot ROM into the SRAM, arms the handshake words, and
  runs the clock with windowed commit and data-memory traces. The Verilated SoC is a parameter.
\<close>

section \<open>The Verilated top level (soc_tb_linux)\<close>

record lx_out =
  lx_commit_valid :: bool
  lx_commit_pc :: u32
  lx_commit_insn :: u32
  lx_commit_rd_wen :: bool
  lx_commit_rd_addr :: "5 word"
  lx_commit_rd_data :: u32
  lx_commit_trap :: bool
  lx_commit_cause :: u32
  lx_req_fire :: bool
  lx_req_va :: u32
  lx_req_pa :: u32
  lx_req_wen :: bool
  lx_req_size :: "2 word"
  lx_req_wmask :: "4 word"
  lx_req_wdata :: u32
  lx_rsp_fire :: bool
  lx_rsp_rdata :: u32
  lx_rsp_fault :: bool
  lx_rsp_pagefault :: bool
  lx_exit_valid :: bool
  lx_exit_code :: u32
  lx_priv_mode :: u8

record 'd lx_dut =
  lx_eval :: "'d \<Rightarrow> bool \<Rightarrow> bool \<Rightarrow> 'd"
  lx_outs :: "'d \<Rightarrow> lx_out"
  ddr_peek :: "'d \<Rightarrow> u32 \<Rightarrow> u32"
  ddr_poke :: "'d \<Rightarrow> u32 \<Rightarrow> u32 \<Rightarrow> 'd"
  sram_poke :: "'d \<Rightarrow> u32 \<Rightarrow> u32 \<Rightarrow> 'd"
  lx_finished :: "'d \<Rightarrow> bool"

section \<open>Loading binary images\<close>

definition DDR_BASE :: u32 where "DDR_BASE = 0x40000000"
definition DDR_WORDS :: u32 where "DDR_WORDS = 32 * 1024 * 1024"

text \<open>One little-endian word of the buffer; bytes beyond its end are zero.\<close>

definition blob_word :: "bytes \<Rightarrow> nat \<Rightarrow> u32" where
  "blob_word buf i =
     foldl (\<lambda>w b. if i * 4 + b < length buf
                  then w OR push_bit (8 * b) (ucast (buf ! (i * 4 + b))) else w) 0 [0..<4]"

definition write_blob :: "('s \<Rightarrow> u32 \<Rightarrow> u32 \<Rightarrow> 's) \<Rightarrow> u32 \<Rightarrow> bytes \<Rightarrow> 's \<Rightarrow> 's" where
  "write_blob wr word_base buf s =
     foldl (\<lambda>s i. wr s (word_base + of_nat i) (blob_word buf i)) s [0..<(length buf + 3) div 4]"

datatype lx_failure =
    LxUsage
  | MissingScope
  | DpiRoundTrip u32
  | CannotOpen string string
  | BelowDdrBase string u32
  | OverrunsDdr string u32 nat
  | CannotOpenBootrom string
  | CannotOpenFile string

record lx_env =
  lx_files :: "string \<Rightarrow> bytes option"
  lx_writable :: "string \<Rightarrow> bool"
  has_ddr_scope :: bool
  has_sram_scope :: bool

definition load_blob_at ::
    "lx_env \<Rightarrow> ('s \<Rightarrow> u32 \<Rightarrow> u32 \<Rightarrow> 's) \<Rightarrow> string option \<Rightarrow> u32 \<Rightarrow> string \<Rightarrow> 's \<Rightarrow> lx_failure + 's" where
  "load_blob_at env wr path addr label s =
     (case path of
        None \<Rightarrow> Inr s
      | Some p \<Rightarrow>
          (case lx_files env p of
             None \<Rightarrow> Inl (CannotOpen label p)
           | Some buf \<Rightarrow>
               if addr < DDR_BASE then Inl (BelowDdrBase label addr)
               else
                 let offs = addr - DDR_BASE in
                 if unat (DDR_WORDS * 4) < unat offs + length buf
                 then Inl (OverrunsDdr label addr (length buf))
                 else Inr (write_blob wr (offs div 4) buf s)))"

text \<open>\<open>+raw=path@base\<close>: the first \<open>@\<close> separates the path from the load address.\<close>

definition raw_target :: "string \<Rightarrow> string \<times> u32" where
  "raw_target s =
     (let p = takeWhile (\<lambda>c. c \<noteq> CHR ''@'') s; rest = drop (length p) s in
      if rest = [] then (s, DDR_BASE) else (p, ucast (strtoull (tl rest))))"

definition load_images ::
    "lx_env \<Rightarrow> ('s \<Rightarrow> u32 \<Rightarrow> u32 \<Rightarrow> 's) \<Rightarrow> string list \<Rightarrow> 's \<Rightarrow> lx_failure + 's" where
  "load_images env wr argv s =
     (case plusarg argv ''raw'' of
        Some r \<Rightarrow> (case raw_target r of (p, base) \<Rightarrow> load_blob_at env wr (Some p) base ''raw'' s)
      | None \<Rightarrow>
          bindE (load_blob_at env wr (plusarg argv ''fw'') 0x40000000 ''fw_jump'' s) (\<lambda>s.
          bindE (load_blob_at env wr (plusarg argv ''kernel'') 0x40400000 ''kernel'' s) (\<lambda>s.
          bindE (load_blob_at env wr (plusarg argv ''dtb'') 0x42200000 ''dtb'' s) (\<lambda>s.
                 load_blob_at env wr (plusarg argv ''initrd'') 0x43000000 ''initrd'' s))))"

text \<open>The boot ROM in the SRAM, then the handshake words, the magic word last.\<close>

definition hs_word :: u32 where "hs_word = (0x47000000 - 0x40000000) div 4"

definition arm_handshake :: "('s \<Rightarrow> u32 \<Rightarrow> u32 \<Rightarrow> 's) \<Rightarrow> 's \<Rightarrow> 's" where
  "arm_handshake wr s =
     (let s = wr s (hs_word + 1) 0x40000000;
          s = wr s (hs_word + 2) 0x42200000
      in wr s (hs_word + 0) 0xDEADBEEF)"

definition load_bootrom ::
    "lx_env \<Rightarrow> ('s \<Rightarrow> u32 \<Rightarrow> u32 \<Rightarrow> 's) \<Rightarrow> ('s \<Rightarrow> u32 \<Rightarrow> u32 \<Rightarrow> 's) \<Rightarrow> string option \<Rightarrow> 's \<Rightarrow> lx_failure + 's" where
  "load_bootrom env sram_wr ddr_wr path s =
     (case path of
        None \<Rightarrow> Inr s
      | Some p \<Rightarrow>
          (case lx_files env p of
             None \<Rightarrow> Inl (CannotOpenBootrom p)
           | Some buf \<Rightarrow> Inr (arm_handshake ddr_wr (write_blob sram_wr 0 buf s))))"

text \<open>The sentinel test of the backdoor, which leaves word 0 cleared.\<close>

definition dpi_self_check :: "'d lx_dut \<Rightarrow> 'd \<Rightarrow> lx_failure + 'd" where
  "dpi_self_check D d =
     (let d = ddr_poke D d 0 0xDEADBEEF; rb = ddr_peek D d 0 in
      if rb \<noteq> 0xDEADBEEF then Inl (DpiRoundTrip rb) else Inr (ddr_poke D d 0 0))"

section \<open>Options\<close>

record lx_opts =
  op_timeout :: u64
  op_tfrom :: u64
  op_tto :: u64
  op_tpcmin :: u32
  op_tpcmax :: u32
  op_mtpamin :: u32
  op_mtpamax :: u32
  op_trace :: bool
  op_memtrace :: bool

definition num_arg :: "string list \<Rightarrow> string \<Rightarrow> u64 \<Rightarrow> u64" where
  "num_arg argv name dflt =
     (case plusarg argv name of Some t \<Rightarrow> strtoull t | None \<Rightarrow> dflt)"

definition num_arg32 :: "string list \<Rightarrow> string \<Rightarrow> u32 \<Rightarrow> u32" where
  "num_arg32 argv name dflt =
     (case plusarg argv name of Some t \<Rightarrow> ucast (strtoull t) | None \<Rightarrow> dflt)"

definition lx_options :: "string list \<Rightarrow> lx_opts" where
  "lx_options argv =
     \<lparr>op_timeout = num_arg argv ''timeout'' 20000000,
      op_tfrom = num_arg argv ''tracefrom'' 0,
      op_tto = num_arg argv ''traceuntil'' (-1),
      op_tpcmin = num_arg32 argv ''tracepcmin'' 0,
      op_tpcmax = num_arg32 argv ''tracepcmax'' 0xFFFFFFFF,
      op_mtpamin = num_arg32 argv ''memtracepamin'' 0,
      op_mtpamax = num_arg32 argv ''memtracepamax'' 0xFFFFFFFF,
      op_trace = (plusarg argv ''trace'' \<noteq> None),
      op_memtrace = (plusarg argv ''memtrace'' \<noteq> None)\<rparr>"

section \<open>The run loop\<close>

record commit_line =
  cl_cycle :: u64
  cl_pc :: u32
  cl_insn :: u32
  cl_rd :: "(5 word \<times> u32) option"
  cl_trap :: "u32 option"

datatype mem_line =
    IssueLine u64 u32 u32 bool "2 word" "(4 word \<times> u32) option"
  | RspLine u64 u32 u32 bool u32 bool bool

datatype lx_msg =
    PostReset u32 u32 u32
  | LxExit u32 u64
  | LxFinish u64
  | LxTrap u64 u32 u32 "2 word"
  | LxPriv "2 word" "2 word" u64 u32
  | LxBeat u64 u32 "2 word" u64
  | LxTimeout u64 u32
  | LxProbe "(u32 \<times> u32) list"

record 'd lx_run =
  lx_dev :: 'd
  lx_cycles :: u64
  lx_done :: bool
  lx_rc :: u32
  lx_pending :: bool
  lx_pva :: u32
  lx_ppa :: u32
  lx_pwen :: bool
  lx_prev_priv :: "2 word"
  lx_traps :: u64
  lx_ctrace :: "commit_line list"
  lx_mtrace :: "mem_line list"
  lx_msgs :: "lx_msg list"

definition in_window :: "lx_opts \<Rightarrow> u64 \<Rightarrow> bool" where
  "in_window op g \<longleftrightarrow> op_tfrom op \<le> g \<and> g \<le> op_tto op"

definition commit_lines :: "lx_opts \<Rightarrow> u64 \<Rightarrow> lx_out \<Rightarrow> commit_line list" where
  "commit_lines op g out =
     (if lx_commit_valid out \<and> op_trace op \<and> in_window op g \<and>
         op_tpcmin op \<le> lx_commit_pc out \<and> lx_commit_pc out \<le> op_tpcmax op
      then [\<lparr>cl_cycle = g, cl_pc = lx_commit_pc out, cl_insn = lx_commit_insn out,
              cl_rd = (if lx_commit_rd_wen out
                       then Some (lx_commit_rd_addr out, lx_commit_rd_data out) else None),
              cl_trap = (if lx_commit_trap out then Some (lx_commit_cause out) else None)\<rparr>]
      else [])"

text \<open>The data-memory tap: the issue side, then the response side.\<close>

definition tap_issue :: "lx_opts \<Rightarrow> lx_out \<Rightarrow> 'd lx_run \<Rightarrow> 'd lx_run" where
  "tap_issue op out r =
     (if lx_req_fire out \<and> op_mtpamin op \<le> lx_req_pa out \<and> lx_req_pa out \<le> op_mtpamax op
      then r\<lparr>lx_mtrace := lx_mtrace r @
               [IssueLine (lx_cycles r) (lx_req_va out) (lx_req_pa out) (lx_req_wen out) (lx_req_size out)
                  (if lx_req_wen out then Some (lx_req_wmask out, lx_req_wdata out) else None)],
             lx_pending := True, lx_pva := lx_req_va out, lx_ppa := lx_req_pa out,
             lx_pwen := lx_req_wen out\<rparr>
      else r)"

definition tap_rsp :: "lx_opts \<Rightarrow> lx_out \<Rightarrow> 'd lx_run \<Rightarrow> 'd lx_run" where
  "tap_rsp op out r =
     (if lx_rsp_fire out \<and> lx_pending r \<and> op_mtpamin op \<le> lx_ppa r \<and> lx_ppa r \<le> op_mtpamax op
      then r\<lparr>lx_mtrace := lx_mtrace r @
               [RspLine (lx_cycles r) (lx_pva r) (lx_ppa r) (lx_pwen r) (lx_rsp_rdata out)
                  (lx_rsp_fault out) (lx_rsp_pagefault out)],
             lx_pending := False\<rparr>
      else r)"

definition mem_tap :: "lx_opts \<Rightarrow> lx_out \<Rightarrow> 'd lx_run \<Rightarrow> 'd lx_run" where
  "mem_tap op out r =
     (if op_memtrace op \<and> in_window op (lx_cycles r)
      then tap_rsp op out (tap_issue op out r) else r)"

definition lx_rising :: "'d lx_dut \<Rightarrow> lx_opts \<Rightarrow> 'd lx_run \<Rightarrow> 'd lx_run" where
  "lx_rising D op r =
     (let d = lx_eval D (lx_dev r) True False; out = lx_outs D d;
          r1 = r\<lparr>lx_dev := d, lx_ctrace := lx_ctrace r @ commit_lines op (lx_cycles r) out\<rparr>;
          r2 = mem_tap op out r1
      in if lx_exit_valid out
         then r2\<lparr>lx_rc := lx_exit_code out, lx_done := True,
                 lx_msgs := lx_msgs r2 @ [LxExit (lx_exit_code out) (lx_cycles r2)]\<rparr>
         else r2)"

definition say_if :: "bool \<Rightarrow> lx_msg \<Rightarrow> 'd lx_run \<Rightarrow> 'd lx_run" where
  "say_if b m r = (if b then r\<lparr>lx_msgs := lx_msgs r @ [m]\<rparr> else r)"

text \<open>The low half: the cycle count, \<open>gotFinish\<close>, traps, privilege changes and the heartbeat.\<close>

definition lx_falling :: "'d lx_dut \<Rightarrow> 'd lx_run \<Rightarrow> 'd lx_run" where
  "lx_falling D r =
     (let d = lx_eval D (lx_dev r) False False; out = lx_outs D d;
          g = lx_cycles r + 1; priv = (ucast (lx_priv_mode out AND 3) :: 2 word);
          r1 = r\<lparr>lx_dev := d, lx_cycles := g\<rparr>;
          r2 = (if lx_finished D d then say_if True (LxFinish g) (r1\<lparr>lx_done := True\<rparr>) else r1);
          r3 = (if lx_commit_valid out \<and> lx_commit_trap out
                then let n = lx_traps r2 + 1 in
                     say_if (n \<le> 64 \<or> n AND 0xFFFF = 0)
                       (LxTrap g (lx_commit_pc out) (lx_commit_cause out) priv) (r2\<lparr>lx_traps := n\<rparr>)
                else r2);
          r4 = (if priv \<noteq> lx_prev_priv r3
                then say_if True (LxPriv (lx_prev_priv r3) priv g (lx_commit_pc out))
                       r3\<lparr>lx_prev_priv := priv\<rparr>
                else r3)
      in say_if (g AND 0x3FFFFFF = 0 \<and> g \<noteq> 0)
           (LxBeat g (lx_commit_pc out) priv (lx_traps r4)) r4)"

definition lx_cycle :: "'d lx_dut \<Rightarrow> lx_opts \<Rightarrow> 'd lx_run \<Rightarrow> 'd lx_run" where
  "lx_cycle D op r = lx_falling D (lx_rising D op r)"
lemma say_if_sel [simp]:
  "lx_dev (say_if b m r) = lx_dev r" "lx_cycles (say_if b m r) = lx_cycles r"
  "lx_done (say_if b m r) = lx_done r" "lx_rc (say_if b m r) = lx_rc r"
  "lx_ctrace (say_if b m r) = lx_ctrace r" "lx_mtrace (say_if b m r) = lx_mtrace r"
  "lx_pending (say_if b m r) = lx_pending r" "lx_pva (say_if b m r) = lx_pva r"
  "lx_ppa (say_if b m r) = lx_ppa r" "lx_pwen (say_if b m r) = lx_pwen r"
  by (simp_all add: say_if_def)

lemma mem_tap_sel [simp]:
  "lx_dev (mem_tap op out r) = lx_dev r" "lx_cycles (mem_tap op out r) = lx_cycles r"
  "lx_done (mem_tap op out r) = lx_done r" "lx_rc (mem_tap op out r) = lx_rc r"
  "lx_ctrace (mem_tap op out r) = lx_ctrace r"
  by (simp_all add: mem_tap_def tap_issue_def tap_rsp_def)

lemma lx_falling_sel:
  "lx_dev (lx_falling D r) = lx_eval D (lx_dev r) False False"
  "lx_cycles (lx_falling D r) = lx_cycles r + 1"
  "lx_done (lx_falling D r) \<longleftrightarrow> lx_done r \<or> lx_finished D (lx_eval D (lx_dev r) False False)"
  "lx_rc (lx_falling D r) = lx_rc r"
  "lx_ctrace (lx_falling D r) = lx_ctrace r" "lx_mtrace (lx_falling D r) = lx_mtrace r"
  "lx_pending (lx_falling D r) = lx_pending r" "lx_pva (lx_falling D r) = lx_pva r"
  "lx_ppa (lx_falling D r) = lx_ppa r" "lx_pwen (lx_falling D r) = lx_pwen r"
  by (simp_all add: lx_falling_def Let_def)

lemma lx_rising_sel:
  "lx_dev (lx_rising D op r) = lx_eval D (lx_dev r) True False"
  "lx_cycles (lx_rising D op r) = lx_cycles r"
  "lx_done (lx_rising D op r) \<longleftrightarrow> lx_done r \<or> lx_exit_valid (lx_outs D (lx_eval D (lx_dev r) True False))"
  "lx_rc (lx_rising D op r) = (if lx_exit_valid (lx_outs D (lx_eval D (lx_dev r) True False))
     then lx_exit_code (lx_outs D (lx_eval D (lx_dev r) True False)) else lx_rc r)"
  "lx_ctrace (lx_rising D op r) =
     lx_ctrace r @ commit_lines op (lx_cycles r) (lx_outs D (lx_eval D (lx_dev r) True False))"
  by (simp_all add: lx_rising_def Let_def)

function lx_loop :: "'d lx_dut \<Rightarrow> lx_opts \<Rightarrow> u64 \<Rightarrow> 'd lx_run \<Rightarrow> 'd lx_run" where
  "lx_loop D op timeout r =
     (if \<not> lx_done r \<and> lx_cycles r < timeout then lx_loop D op timeout (lx_cycle D op r) else r)"
  by pat_completeness auto
termination
proof (relation "measure (\<lambda>(D, op, timeout, r). unat timeout - unat (lx_cycles r))")
  fix D :: "'d lx_dut" and op timeout and r :: "'d lx_run"
  assume "\<not> lx_done r \<and> lx_cycles r < timeout"
  then have "lx_cycles r < timeout" by simp
  then show "((D, op, timeout, lx_cycle D op r), D, op, timeout, r)
      \<in> measure (\<lambda>(D, op, timeout, r). unat timeout - unat (lx_cycles r))"
    by (simp add: lx_cycle_def lx_falling_sel lx_rising_sel u64_step word_less_nat_alt)
qed simp

declare lx_loop.simps [simp del]

interpretation lx_loop: capped_loop "lx_loop D op" "lx_cycle D op" lx_done lx_cycles
  for D :: "'d lx_dut" and op
  by unfold_locales (subst lx_loop.simps, simp, simp add: lx_cycle_def lx_falling_sel lx_rising_sel)

section \<open>Reset, time-out, probe and the whole program\<close>

fun lx_reset :: "'d lx_dut \<Rightarrow> nat \<Rightarrow> bool \<Rightarrow> 'd \<Rightarrow> 'd" where
  "lx_reset D 0 clk d = d"
| "lx_reset D (Suc n) clk d = lx_reset D n (\<not> clk) (lx_eval D d (\<not> clk) True)"

definition lx_start :: "'d lx_dut \<Rightarrow> 'd \<Rightarrow> 'd lx_run" where
  "lx_start D d =
     (let d = lx_reset D 10 False d in
      \<lparr>lx_dev = d, lx_cycles = 10, lx_done = False, lx_rc = -1,
       lx_pending = False, lx_pva = 0, lx_ppa = 0, lx_pwen = False,
       lx_prev_priv = 3, lx_traps = 0, lx_ctrace = [], lx_mtrace = [],
       lx_msgs = [PostReset (ddr_peek D d 0) (ddr_peek D d 1) (ddr_peek D d 2)]\<rparr>)"

definition lx_cap :: "'d lx_dut \<Rightarrow> u64 \<Rightarrow> 'd lx_run \<Rightarrow> 'd lx_run" where
  "lx_cap D timeout r =
     (if \<not> lx_done r \<and> timeout \<le> lx_cycles r
      then r\<lparr>lx_msgs := lx_msgs r @ [LxTimeout (lx_cycles r) (lx_commit_pc (lx_outs D (lx_dev r)))],
             lx_rc := 124\<rparr>
      else r)"

definition probe_addrs :: "u32 list" where
  "probe_addrs =
     [0x420bf000, 0x420bfc00, 0x420bfc04, 0x420bfc08,
      0x420c0000, 0x420c0c00, 0x420c0c04,
      0x41982010, 0x41982014, 0x41982038]"

definition lx_probe :: "'d lx_dut \<Rightarrow> 'd lx_run \<Rightarrow> 'd lx_run" where
  "lx_probe D r =
     r\<lparr>lx_msgs := lx_msgs r @
         [LxProbe (map (\<lambda>pa. (pa, ddr_peek D (lx_dev r) ((pa - DDR_BASE) div 4))) probe_addrs)]\<rparr>"

definition lx_run_from :: "'d lx_dut \<Rightarrow> lx_opts \<Rightarrow> 'd \<Rightarrow> 'd lx_run" where
  "lx_run_from D op d = lx_probe D (lx_cap D (op_timeout op) (lx_loop D op (op_timeout op) (lx_start D d)))"

definition sim_linux :: "lx_env \<Rightarrow> 'd lx_dut \<Rightarrow> 'd \<Rightarrow> string list \<Rightarrow> lx_failure \<times> u32 + 'd lx_run" where
  "sim_linux env D d0 argv =
     (if plusarg argv ''fw'' = None \<and> plusarg argv ''raw'' = None then Inl (LxUsage, 1)
      else if \<not> has_ddr_scope env \<or> \<not> has_sram_scope env then Inl (MissingScope, 2)
      else
        (case bindE (dpi_self_check D d0) (\<lambda>d.
              bindE (load_images env (ddr_poke D) argv d) (\<lambda>d.
              bindE (load_bootrom env (sram_poke D) (ddr_poke D) (plusarg argv ''bootrom'') d) (\<lambda>d.
              case plusarg argv ''trace'' of
                Some p \<Rightarrow> if lx_writable env p then Inr d else Inl (CannotOpenFile p)
              | None \<Rightarrow> Inr d))) of
           Inl e \<Rightarrow> Inl (e, 2)
         | Inr d \<Rightarrow>
             (case plusarg argv ''memtrace'' of
                Some p \<Rightarrow> if lx_writable env p then Inr (lx_run_from D (lx_options argv) d)
                          else Inl (CannotOpenFile p, 2)
              | None \<Rightarrow> Inr (lx_run_from D (lx_options argv) d))))"

section \<open>What loading leaves in memory\<close>

definition buf_byte :: "bytes \<Rightarrow> nat \<Rightarrow> u8" where
  "buf_byte buf k = (if k < length buf then buf ! k else 0)"

lemma blob_word_eq:
  "blob_word buf i = mk_word (buf_byte buf (i * 4)) (buf_byte buf (i * 4 + 1))
     (buf_byte buf (i * 4 + 2)) (buf_byte buf (i * 4 + 3))"
proof -
  have u: "[0..<4] = [0, 1, 2, 3 :: nat]" by (simp add: upt_rec)
  have o: "(if c then x OR push_bit k (ucast (y :: u8)) else x :: u32) =
      x OR push_bit k (ucast (if c then y else 0))" for c x k y by simp
  show ?thesis
    unfolding blob_word_def u o buf_byte_def mk_word_def by (simp add: o or.assoc)
qed

lemma byte_of_blob_word: "k < 4 \<Longrightarrow> byte_of (blob_word buf i) k = buf_byte buf (i * 4 + k)"
  by (auto simp: blob_word_eq less_4_cases)

context word_backdoor begin

lemma rd_write_blob:
  assumes "unat base + (length buf + 3) div 4 \<le> 2 ^ 32"
    and "\<And>i. i < (length buf + 3) div 4 \<Longrightarrow> ok (base + of_nat i)"
  shows "rd (write_blob wr base buf s) j =
    (if unat base \<le> unat j \<and> unat j < unat base + (length buf + 3) div 4
     then blob_word buf (unat j - unat base) else rd s j)"
proof -
  let ?N = "(length buf + 3) div 4"
  let ?W = "map (\<lambda>i. (of_nat (unat base + i) :: u32, blob_word buf i)) [0..<?N]"
  have "write_blob wr base buf s = foldl (\<lambda>s (i, v). wr s i v) s ?W"
    by (simp add: write_blob_def foldl_map)
  then have "rd (write_blob wr base buf s) j =
      (if ok j then (case map_of (rev ?W) j of Some v \<Rightarrow> v | None \<Rightarrow> rd s j) else rd s j)"
    by (simp only: rd_writes)
  moreover have "ok j" if "unat base \<le> unat j" "unat j < unat base + ?N"
  proof -
    have "j = base + of_nat (unat j - unat base)"
      using that by (simp add: of_nat_diff)
    then show ?thesis using assms(2)[of "unat j - unat base"] that by auto
  qed
  ultimately show ?thesis unfolding map_of_rev_range[OF assms(1)] by (auto split: if_splits)
qed

end

definition mem_byte :: "memory \<Rightarrow> nat \<Rightarrow> u8" where
  "mem_byte m a = byte_of (m (a div 4)) (a mod 4)"

lemma write_blob_ddr:
  assumes "offs + length buf \<le> 134217728" "j < 33554432"
  shows "write_blob ddr_dpi_write (of_nat (offs div 4)) buf m j =
    (if offs div 4 \<le> j \<and> j < offs div 4 + (length buf + 3) div 4
     then blob_word buf (j - offs div 4) else m j)"
proof -
  let ?b = "of_nat (offs div 4) :: u32"
  have le: "offs div 4 + (length buf + 3) div 4 \<le> 33554432" using assms(1) by presburger
  have ub: "unat ?b = offs div 4" using le by (intro unat_of_nat_u32) simp
  have uj: "unat (of_nat j :: u32) = j" using assms(2) by (intro unat_of_nat_u32) simp
  have ok: "dpi_in ddr_WORDS (?b + of_nat i)" if "i < (length buf + 3) div 4" for i
  proof -
    have "unat (?b + of_nat i) = offs div 4 + i" using that le ub by (subst unat_add_small) simp_all
    then show ?thesis using that le by (simp add: dpi_in_iff ddr_WORDS_def)
  qed
  have "ddr_dpi_read (write_blob ddr_dpi_write ?b buf m) (of_nat j) =
    (if offs div 4 \<le> j \<and> j < offs div 4 + (length buf + 3) div 4
     then blob_word buf (j - offs div 4) else ddr_dpi_read m (of_nat j))"
    using ddr_bd.rd_write_blob[of ?b buf m "of_nat j"] le ok by (simp only: ub uj) simp
  then show ?thesis using ddr_dpi_small(1)[of "of_nat j"] uj assms(2) by simp
qed

lemma mem_byte_write_blob:
  assumes "offs + length buf \<le> 134217728" "a < 134217728" "offs mod 4 = 0"
  shows "mem_byte (write_blob ddr_dpi_write (of_nat (offs div 4)) buf m) a =
    (if offs \<le> a \<and> a < offs + 4 * ((length buf + 3) div 4) then buf_byte buf (a - offs) else mem_byte m a)"
proof -
  have j: "a div 4 < 33554432" using assms(2) by (intro less_mult_imp_div_less) simp
  obtain q where q: "offs = 4 * q" using assms(3) by (metis mod_0_imp_dvd dvdE)
  have lo: "q \<le> a div 4 \<longleftrightarrow> 4 * q \<le> a" by presburger
  have hi: "a div 4 < q + N \<longleftrightarrow> a < 4 * q + 4 * N" for N by presburger
  have off: "(a div 4 - q) * 4 + a mod 4 = a - 4 * q" if "4 * q \<le> a" using that by presburger
  show ?thesis
    using write_blob_ddr[OF assms(1) j, of m] lo off hi[of "(length buf + 3) div 4"]
    by (simp add: mem_byte_def q byte_of_blob_word)
qed


text \<open>
  An image is refused when it cannot be opened, starts below the DDR or does not fit; otherwise
  every byte of the DDR is the image's byte inside the image's words (zero in the padding of the
  last word) and unchanged outside. An unaligned load address is rounded down.
\<close>

theorem load_blob_at_effect:
  fixes addr :: u32
  assumes "lx_files env p = Some buf" "a < 134217728"
  defines "base \<equiv> unat (addr - DDR_BASE) - unat (addr - DDR_BASE) mod 4"
  shows "(case load_blob_at env ddr_dpi_write (Some p) addr label m of
      Inl e \<Rightarrow> (addr < DDR_BASE \<and> e = BelowDdrBase label addr) \<or>
        (DDR_BASE \<le> addr \<and> 134217728 < unat (addr - DDR_BASE) + length buf \<and>
         e = OverrunsDdr label addr (length buf))
    | Inr m' \<Rightarrow> DDR_BASE \<le> addr \<and> unat (addr - DDR_BASE) + length buf \<le> 134217728 \<and>
        mem_byte m' a =
          (if base \<le> a \<and> a < base + 4 * ((length buf + 3) div 4) then buf_byte buf (a - base)
           else mem_byte m a))"
proof -
  let ?o = "unat (addr - DDR_BASE)"
  have b: "base mod 4 = 0" "?o div 4 = base div 4" "base \<le> ?o"
    by (simp_all add: base_def minus_mod_eq_mult_div)
  have w: "(addr - DDR_BASE) div 4 = of_nat (base div 4)"
  proof -
    have "of_nat (unat ((addr - DDR_BASE) div 4)) = (addr - DDR_BASE) div 4" by simp
    moreover have "unat ((addr - DDR_BASE) div 4) = ?o div 4" by (simp add: unat_div_distrib)
    ultimately show ?thesis using b(2) by metis
  qed
  have d: "unat (DDR_WORDS * 4) = 134217728" by (simp add: DDR_WORDS_def)
  show ?thesis
  proof (cases "DDR_BASE \<le> addr \<and> ?o + length buf \<le> 134217728")
    case True
    then have "load_blob_at env ddr_dpi_write (Some p) addr label m =
        Inr (write_blob ddr_dpi_write (of_nat (base div 4)) buf m)"
      by (simp add: load_blob_at_def assms(1) Let_def d w not_less)
    then show ?thesis using True b(3) mem_byte_write_blob[of base buf a m] assms(2) b(1) by simp
  next
    case False
    then show ?thesis by (auto simp: load_blob_at_def assms(1) Let_def d not_le)
  qed
qed

definition one_file :: "bytes \<Rightarrow> lx_env" where
  "one_file buf = \<lparr>lx_files = (\<lambda>_. Some buf), lx_writable = (\<lambda>_. True), has_ddr_scope = True,
     has_sram_scope = True\<rparr>"

theorem load_blob_at_effect_witness:
  "case load_blob_at (one_file [1, 2, 3, 4, 5]) ddr_dpi_write (Some ''fw'') 0x40000004 ''fw_jump'' (\<lambda>_. 9) of
     Inl e \<Rightarrow> False | Inr m' \<Rightarrow> mem_byte m' 8 = 5"
  using load_blob_at_effect[of "one_file [1, 2, 3, 4, 5]" "''fw''" "[1, 2, 3, 4, 5]" 8 "0x40000004"
      "''fw_jump''" "\<lambda>_. 9"]
  by (simp add: one_file_def DDR_BASE_def buf_byte_def word_le_nat_alt word_less_nat_alt
      split: sum.splits)

lemma load_blob_at_aligned:
  assumes "path = None \<and> buf = [] \<or> (\<exists>p. path = Some p \<and> lx_files env p = Some buf)"
    and "off mod 4 = 0" "off + length buf \<le> 134217728" "addr = DDR_BASE + of_nat off"
  obtains m' where "load_blob_at env ddr_dpi_write path addr label m = Inr m'"
    "\<And>a. a < 134217728 \<Longrightarrow> mem_byte m' a =
       (if off \<le> a \<and> a < off + 4 * ((length buf + 3) div 4) then buf_byte buf (a - off) else mem_byte m a)"
proof (cases "path = None")
  case True
  then show thesis using assms(1) by (intro that[of m]) (auto simp: load_blob_at_def)
next
  case False
  then obtain p where p: "path = Some p" "lx_files env p = Some buf" using assms(1) by auto
  have uo: "unat (of_nat off :: u32) = off" using assms(3) by (intro unat_of_nat_u32) simp
  have diff: "addr - DDR_BASE = of_nat off" by (simp add: assms(4))
  have "unat addr = 1073741824 + off"
    using assms(3) uo unat_add_small[of DDR_BASE off] by (simp add: assms(4) DDR_BASE_def)
  then have ge: "\<not> addr < DDR_BASE" by (simp add: word_less_nat_alt DDR_BASE_def)
  have "of_nat (unat ((of_nat off :: u32) div 4)) = (of_nat off :: u32) div 4" by simp
  moreover have "unat ((of_nat off :: u32) div 4) = off div 4" by (simp add: unat_div_distrib uo)
  ultimately have w: "(of_nat off :: u32) div 4 = of_nat (off div 4)" by metis
  have "load_blob_at env ddr_dpi_write path addr label m =
      Inr (write_blob ddr_dpi_write (of_nat (off div 4)) buf m)"
    using ge assms(3) by (simp add: load_blob_at_def p Let_def diff uo w DDR_WORDS_def)
  then show thesis
    using that mem_byte_write_blob[OF assms(3) _ assms(2)] by simp
qed

text \<open>The image a plus argument names; a missing argument is an empty image.\<close>

definition image_of :: "lx_env \<Rightarrow> string list \<Rightarrow> string \<Rightarrow> bytes option" where
  "image_of env argv name = (case plusarg argv name of None \<Rightarrow> Some [] | Some p \<Rightarrow> lx_files env p)"

lemma image_of_cases:
  "image_of env argv name = Some buf \<Longrightarrow>
     plusarg argv name = None \<and> buf = [] \<or> (\<exists>p. plusarg argv name = Some p \<and> lx_files env p = Some buf)"
  by (auto simp: image_of_def split: option.splits)

lemma round_up_le: "n \<le> (4 * q :: nat) \<Longrightarrow> 4 * ((n + 3) div 4) \<le> 4 * q"
  by presburger

text \<open>
  Four images that fit between their fixed load addresses are all in place after loading: no
  later image, and no padding, has touched an earlier one.
\<close>

theorem boot_images_in_place:
  assumes "plusarg argv ''raw'' = None"
    and "image_of env argv ''fw'' = Some fw" "length fw \<le> 0x400000"
    and "image_of env argv ''kernel'' = Some krn" "length krn \<le> 0x1E00000"
    and "image_of env argv ''dtb'' = Some dtb" "length dtb \<le> 0xE00000"
    and "image_of env argv ''initrd'' = Some initrd" "length initrd \<le> 0x5000000"
  shows "\<exists>m'. load_images env ddr_dpi_write argv m = Inr m' \<and>
    (\<forall>k < length fw. mem_byte m' k = fw ! k) \<and>
    (\<forall>k < length krn. mem_byte m' (0x400000 + k) = krn ! k) \<and>
    (\<forall>k < length dtb. mem_byte m' (0x2200000 + k) = dtb ! k) \<and>
    (\<forall>k < length initrd. mem_byte m' (0x3000000 + k) = initrd ! k)"
proof -
  obtain m1 where m1: "load_blob_at env ddr_dpi_write (plusarg argv ''fw'') 0x40000000 ''fw_jump'' m = Inr m1"
    "\<And>a. a < 134217728 \<Longrightarrow> mem_byte m1 a =
       (if 0 \<le> a \<and> a < 0 + 4 * ((length fw + 3) div 4) then buf_byte fw (a - 0) else mem_byte m a)"
    by (rule load_blob_at_aligned[OF image_of_cases[OF assms(2)], where off = "0" and addr = "0x40000000" and label = "''fw_jump''" and m = m]) 
      (use assms(3) in \<open>simp_all add: DDR_BASE_def\<close>)
  obtain m2 where m2: "load_blob_at env ddr_dpi_write (plusarg argv ''kernel'') 0x40400000 ''kernel'' m1 = Inr m2"
    "\<And>a. a < 134217728 \<Longrightarrow> mem_byte m2 a =
       (if 0x400000 \<le> a \<and> a < 0x400000 + 4 * ((length krn + 3) div 4)
        then buf_byte krn (a - 0x400000) else mem_byte m1 a)"
    by (rule load_blob_at_aligned[OF image_of_cases[OF assms(4)], where off = "0x400000" and addr = "0x40400000" and label = "''kernel''" and m = m1])
      (use assms(5) in \<open>simp_all add: DDR_BASE_def\<close>)
  obtain m3 where m3: "load_blob_at env ddr_dpi_write (plusarg argv ''dtb'') 0x42200000 ''dtb'' m2 = Inr m3"
    "\<And>a. a < 134217728 \<Longrightarrow> mem_byte m3 a =
       (if 0x2200000 \<le> a \<and> a < 0x2200000 + 4 * ((length dtb + 3) div 4)
        then buf_byte dtb (a - 0x2200000) else mem_byte m2 a)"
    by (rule load_blob_at_aligned[OF image_of_cases[OF assms(6)], where off = "0x2200000" and addr = "0x42200000" and label = "''dtb''" and m = m2])
      (use assms(7) in \<open>simp_all add: DDR_BASE_def\<close>)
  obtain m4 where m4: "load_blob_at env ddr_dpi_write (plusarg argv ''initrd'') 0x43000000 ''initrd'' m3 = Inr m4"
    "\<And>a. a < 134217728 \<Longrightarrow> mem_byte m4 a =
       (if 0x3000000 \<le> a \<and> a < 0x3000000 + 4 * ((length initrd + 3) div 4)
        then buf_byte initrd (a - 0x3000000) else mem_byte m3 a)"
    by (rule load_blob_at_aligned[OF image_of_cases[OF assms(8)], where off = "0x3000000" and addr = "0x43000000" and label = "''initrd''" and m = m3])
      (use assms(9) in \<open>simp_all add: DDR_BASE_def\<close>)
  have "load_images env ddr_dpi_write argv m = Inr m4"
    by (simp add: load_images_def assms(1) m1(1) m2(1) m3(1) m4(1))
  moreover have up: "k < length b \<Longrightarrow> k < 4 * ((length b + 3) div 4)" for k and b :: bytes
    by presburger
  moreover have "mem_byte m4 k = fw ! k" if "k < length fw" for k
    using that assms(3) up[OF that] by (simp add: m4(2) m3(2) m2(2) m1(2) buf_byte_def)
  moreover have "mem_byte m4 (0x400000 + k) = krn ! k" if "k < length krn" for k
    using that assms(5) up[OF that] by (simp add: m4(2) m3(2) m2(2) buf_byte_def)
  moreover have "mem_byte m4 (0x2200000 + k) = dtb ! k" if "k < length dtb" for k
    using that assms(7) up[OF that] by (simp add: m4(2) m3(2) buf_byte_def)
  moreover have "mem_byte m4 (0x3000000 + k) = initrd ! k" if "k < length initrd" for k
    using that assms(9) up[OF that] by (simp add: m4(2) buf_byte_def)
  ultimately show ?thesis by blast
qed

theorem boot_images_in_place_witness:
  "\<exists>m'. load_images (one_file [7, 8]) ddr_dpi_write [''sim'', ''+fw=a'', ''+dtb=b''] (\<lambda>_. 0) = Inr m' \<and>
     mem_byte m' 0x2200001 = 8"
  using boot_images_in_place[of "[''sim'', ''+fw=a'', ''+dtb=b'']" "one_file [7, 8]" "[7, 8]" "[]" "[7, 8]" "[]"
      "\<lambda>_. 0"]
  by (fastforce simp: one_file_def image_of_def plusarg_def plusarg_match_def)

text \<open>The two memories as one state, as the boot ROM loader sees them (SRAM, DDR).\<close>

definition on_sram :: "memory \<times> memory \<Rightarrow> u32 \<Rightarrow> u32 \<Rightarrow> memory \<times> memory" where
  "on_sram s i v = (sram_dpi_write (fst s) i v, snd s)"

definition on_ddr :: "memory \<times> memory \<Rightarrow> u32 \<Rightarrow> u32 \<Rightarrow> memory \<times> memory" where
  "on_ddr s i v = (fst s, ddr_dpi_write (snd s) i v)"

lemma write_blob_on_sram: "write_blob on_sram b buf s = (write_blob sram_dpi_write b buf (fst s), snd s)"
proof -
  have "foldl (\<lambda>s i. on_sram s (b + of_nat i) (blob_word buf i)) s xs =
      (foldl (\<lambda>s i. sram_dpi_write s (b + of_nat i) (blob_word buf i)) (fst s) xs, snd s)" for xs
    by (induction xs arbitrary: s) (simp_all add: on_sram_def)
  then show ?thesis by (simp add: write_blob_def)
qed

lemma sram_write_blob:
  assumes "j < 16384" "length buf < 2 ^ 32"
  shows "write_blob sram_dpi_write 0 buf m j = (if j < (length buf + 3) div 4 then blob_word buf j else m j)"
proof -
  let ?W = "map (\<lambda>i. (of_nat (0 + i) :: u32, blob_word buf i)) [0..<(length buf + 3) div 4]"
  have le: "0 + (length buf + 3) div 4 \<le> 2 ^ 32" using assms(2) by simp
  have uj: "unat (of_nat j :: u32) = j" using assms(1) by (intro unat_of_nat_u32) simp
  have ok: "dpi_in sram_WORDS (of_nat j)" using assms(1) uj by (simp add: dpi_in_iff sram_WORDS_def)
  have "write_blob sram_dpi_write 0 buf m = foldl (\<lambda>s (i, v). sram_dpi_write s i v) m ?W"
    by (simp add: write_blob_def foldl_map)
  then have "sram_dpi_read (write_blob sram_dpi_write 0 buf m) (of_nat j) =
      (case map_of (rev ?W) (of_nat j) of Some v \<Rightarrow> v | None \<Rightarrow> sram_dpi_read m (of_nat j))"
    using ok by (simp only: sram_bd.rd_writes if_True)
  also have "\<dots> = (if j < (length buf + 3) div 4 then blob_word buf j else sram_dpi_read m (of_nat j))"
    unfolding map_of_rev_range[OF le] by (simp add: uj)
  finally show ?thesis using sram_dpi_small(1)[of "of_nat j"] uj assms(1) by simp
qed

lemma arm_handshake_ddr:
  "arm_handshake on_ddr s =
     (fst s, (snd s)(29360129 := 0x40000000, 29360130 := 0x42200000, 29360128 := 0xDEADBEEF))"
  by (simp add: arm_handshake_def on_ddr_def Let_def hs_word_def ddr_dpi_small)

text \<open>
  Loading a boot ROM puts its first 64 KiB into the SRAM (anything beyond is silently dropped),
  and arms the three handshake words in the DDR, leaving every other DDR word alone.
\<close>

theorem bootrom_handshake:
  assumes "lx_files env p = Some rom" "length rom < 2 ^ 32"
  shows "\<exists>sm dm. load_bootrom env on_sram on_ddr (Some p) s = Inr (sm, dm) \<and>
    (\<forall>a < 65536. a < length rom \<longrightarrow> mem_byte sm a = rom ! a) \<and>
    dm 0x1C00000 = 0xDEADBEEF \<and> dm 0x1C00001 = 0x40000000 \<and> dm 0x1C00002 = 0x42200000 \<and>
    (\<forall>j. j \<notin> {0x1C00000, 0x1C00001, 0x1C00002} \<longrightarrow> dm j = snd s j)"
proof -
  let ?sm = "write_blob sram_dpi_write 0 rom (fst s)"
  have b: "mem_byte ?sm a = rom ! a" if "a < 65536" "a < length rom" for a
  proof -
    have "a div 4 < 16384" using that(1) by (intro less_mult_imp_div_less) simp
    moreover have "a div 4 < (length rom + 3) div 4" using that(2) by (rule word_span)
    ultimately show ?thesis using that
      by (simp add: mem_byte_def sram_write_blob[OF _ assms(2)] byte_of_blob_word buf_byte_def)
  qed
  have l: "load_bootrom env on_sram on_ddr (Some p) s =
      Inr (?sm, (snd s)(29360129 := 0x40000000, 29360130 := 0x42200000, 29360128 := 0xDEADBEEF))"
    by (simp add: load_bootrom_def assms(1) write_blob_on_sram arm_handshake_ddr)
  show ?thesis unfolding l using b by auto
qed

theorem bootrom_handshake_witness:
  "\<exists>sm dm. load_bootrom (one_file [1, 2, 3, 4, 5, 6]) on_sram on_ddr (Some ''rom'') (\<lambda>_. 0, \<lambda>_. 3) = Inr (sm, dm) \<and>
     mem_byte sm 5 = 6 \<and> dm 0x1C00000 = 0xDEADBEEF"
  using bootrom_handshake[of "one_file [1, 2, 3, 4, 5, 6]" "''rom''" "[1, 2, 3, 4, 5, 6]" "(\<lambda>_. 0, \<lambda>_. 3)"]
  by (fastforce simp: one_file_def)

section \<open>Verdict, time-out and traces\<close>

definition lx_high :: "'d lx_dut \<Rightarrow> 'd \<Rightarrow> lx_out" where
  "lx_high D d = lx_outs D (lx_eval D d True False)"

definition lx_next :: "'d lx_dut \<Rightarrow> 'd \<Rightarrow> 'd" where
  "lx_next D d = lx_eval D (lx_eval D d True False) False False"

definition lx_verdict :: "'d lx_dut \<Rightarrow> 'd \<Rightarrow> u32 option" where
  "lx_verdict D d =
     (if lx_exit_valid (lx_high D d) then Some (lx_exit_code (lx_high D d))
      else if lx_finished D (lx_next D d) then Some (- 1) else None)"

definition lx_at :: "'d lx_dut \<Rightarrow> 'd \<Rightarrow> nat \<Rightarrow> 'd" where
  "lx_at D d n = (lx_next D ^^ n) (lx_reset D 10 False d)"

definition lx_ctrace_upto :: "'d lx_dut \<Rightarrow> lx_opts \<Rightarrow> 'd \<Rightarrow> nat \<Rightarrow> commit_line list" where
  "lx_ctrace_upto D op d n =
     concat (map (\<lambda>m. commit_lines op (10 + of_nat m) (lx_high D (lx_at D d m))) [0..<n])"

lemma lx_cycle_sel:
  "lx_dev (lx_cycle D op r) = lx_next D (lx_dev r)"
  "lx_cycles (lx_cycle D op r) = lx_cycles r + 1"
  "lx_done (lx_cycle D op r) \<longleftrightarrow> lx_done r \<or> lx_verdict D (lx_dev r) \<noteq> None"
  "lx_rc r = - 1 \<Longrightarrow> lx_rc (lx_cycle D op r) =
     (case lx_verdict D (lx_dev r) of Some c \<Rightarrow> c | None \<Rightarrow> - 1)"
  "lx_ctrace (lx_cycle D op r) = lx_ctrace r @ commit_lines op (lx_cycles r) (lx_high D (lx_dev r))"
  by (simp_all add: lx_cycle_def lx_falling_sel lx_rising_sel lx_next_def lx_verdict_def lx_high_def)

lemma lx_cycles_from_start:
  assumes "\<forall>m < n. lx_verdict D (lx_at D d m) = None"
  shows "let r = (lx_cycle D op ^^ n) (lx_start D d) in
    lx_dev r = lx_at D d n \<and> lx_cycles r = 10 + of_nat n \<and> \<not> lx_done r \<and> lx_rc r = - 1 \<and>
    lx_ctrace r = lx_ctrace_upto D op d n"
  using assms
proof (induction n)
  case 0
  then show ?case by (simp add: lx_start_def lx_at_def lx_ctrace_upto_def Let_def del: lx_reset.simps)
next
  case (Suc n)
  then show ?case
    by (simp add: Let_def lx_cycle_sel lx_ctrace_upto_def) (simp add: lx_at_def)
qed

lemma lx_probe_cap_sel:
  "lx_done (lx_probe D (lx_cap D t r)) = lx_done r" "lx_cycles (lx_probe D (lx_cap D t r)) = lx_cycles r"
  "lx_ctrace (lx_probe D (lx_cap D t r)) = lx_ctrace r" "lx_mtrace (lx_probe D (lx_cap D t r)) = lx_mtrace r"
  "lx_rc (lx_probe D (lx_cap D t r)) = (if \<not> lx_done r \<and> t \<le> lx_cycles r then 124 else lx_rc r)"
  by (simp_all add: lx_probe_def lx_cap_def)

text \<open>
  The run ends in the first cycle that shows an exit write or \<open>$finish\<close>, with the exit code
  written (or -1), and the commit trace then holds exactly the commits inside the cycle and PC
  windows, each stamped with its cycle.
\<close>

theorem lx_run_verdict:
  assumes "10 + n < unat (op_timeout op)" "\<forall>m < n. lx_verdict D (lx_at D d m) = None"
    and "lx_verdict D (lx_at D d n) = Some c"
  shows "let r = lx_run_from D op d in
    lx_done r \<and> lx_rc r = c \<and> lx_cycles r = 11 + of_nat n \<and> lx_ctrace r = lx_ctrace_upto D op d (Suc n)"
proof -
  let ?s = "lx_start D d"
  let ?r = "(lx_cycle D op ^^ Suc n) ?s"
  have c0: "lx_cycles ?s = 10" by (simp add: lx_start_def Let_def)
  have st: "m \<le> n \<Longrightarrow> let r = (lx_cycle D op ^^ m) ?s in
    lx_dev r = lx_at D d m \<and> lx_cycles r = 10 + of_nat m \<and> \<not> lx_done r \<and> lx_rc r = - 1 \<and>
    lx_ctrace r = lx_ctrace_upto D op d m" for m
    using assms(2) by (intro lx_cycles_from_start) auto
  have r: "lx_done ?r" "lx_rc ?r = c" "lx_cycles ?r = 11 + of_nat n"
      "lx_ctrace ?r = lx_ctrace_upto D op d (Suc n)"
    using st[of n] assms(3) by (simp_all add: Let_def lx_cycle_sel lx_ctrace_upto_def)
  have "lx_loop D op (op_timeout op) ?s = ?r"
    using st r(1) assms(1) by (intro lx_loop.stops_first) (auto simp: Let_def c0 less_Suc_eq_le)
  then show ?thesis using r by (simp add: lx_run_from_def lx_probe_cap_sel del: funpow.simps)
qed

text \<open>
  A run that sees neither below the cap ends with exit code 124 (at once when the cap is below
  the reset's ten half cycles).
\<close>

theorem lx_run_timeout:
  assumes "\<forall>m. 10 + m < unat (op_timeout op) \<longrightarrow> lx_verdict D (lx_at D d m) = None"
  shows "lx_rc (lx_run_from D op d) = 124 \<and> \<not> lx_done (lx_run_from D op d)"
proof -
  let ?s = "lx_start D d"
  let ?t = "op_timeout op"
  have c0: "lx_cycles ?s = 10" "\<not> lx_done ?s" by (simp_all add: lx_start_def Let_def)
  show ?thesis
  proof (cases "10 \<le> unat ?t")
    case True
    let ?n = "unat ?t - 10"
    have nf: "\<not> lx_done ((lx_cycle D op ^^ m) ?s)" if "m \<le> ?n" for m
      using lx_cycles_from_start[of m D d op] assms that by (simp add: Let_def)
    have "lx_loop D op ?t ?s = (lx_cycle D op ^^ ?n) ?s" "lx_cycles ((lx_cycle D op ^^ ?n) ?s) = ?t"
      using nf True c0 by (auto intro!: lx_loop.stops_at_cap)
    then show ?thesis using nf[of ?n] by (simp add: lx_run_from_def lx_probe_cap_sel)
  next
    case False
    then have "?t \<le> lx_cycles ?s" using c0 by (simp add: word_le_nat_alt)
    then show ?thesis using c0 by (simp add: lx_run_from_def lx_loop.stop lx_probe_cap_sel)
  qed
qed

text \<open>A device that counts rising edges, commits on each, and writes the exit register at three.\<close>

definition lx_quiet_out :: lx_out where
  "lx_quiet_out = \<lparr>lx_commit_valid = True, lx_commit_pc = 0x80000000, lx_commit_insn = 19,
     lx_commit_rd_wen = False, lx_commit_rd_addr = 0, lx_commit_rd_data = 0, lx_commit_trap = False,
     lx_commit_cause = 0, lx_req_fire = False, lx_req_va = 0, lx_req_pa = 0, lx_req_wen = False,
     lx_req_size = 0, lx_req_wmask = 0, lx_req_wdata = 0, lx_rsp_fire = False, lx_rsp_rdata = 0,
     lx_rsp_fault = False, lx_rsp_pagefault = False, lx_exit_valid = False, lx_exit_code = 7,
     lx_priv_mode = 3\<rparr>"

definition lx_counter :: "nat lx_dut" where
  "lx_counter = \<lparr>lx_eval = (\<lambda>d clk rst. if clk \<and> \<not> rst then Suc d else d),
     lx_outs = (\<lambda>d. lx_quiet_out\<lparr>lx_exit_valid := (d = 3)\<rparr>),
     ddr_peek = (\<lambda>d i. 0), ddr_poke = (\<lambda>d i v. d), sram_poke = (\<lambda>d i v. d), lx_finished = (\<lambda>d. False)\<rparr>"

lemma lx_counter_at: "lx_at lx_counter 0 n = n"
proof -
  have "lx_next lx_counter d = Suc d" for d by (simp add: lx_next_def lx_counter_def)
  moreover have "lx_reset lx_counter 10 False 0 = 0" by (simp add: lx_counter_def eval_nat_numeral)
  ultimately show ?thesis by (induction n) (simp_all add: lx_at_def)
qed

lemma lx_counter_verdict: "lx_verdict lx_counter d = (if d = 2 then Some 7 else None)"
  by (simp add: lx_verdict_def lx_high_def lx_counter_def lx_quiet_out_def)

theorem lx_run_verdict_witness:
  "lx_rc (lx_run_from lx_counter (lx_options [''sim'', ''+timeout=50'']) 0) = 7"
proof -
  have "unat (op_timeout (lx_options [''sim'', ''+timeout=50''])) = 50"
    by (simp add: lx_options_def num_arg_def plusarg_def plusarg_match_def strtoull_def is_space_def
        parse_magnitude_def is_hex_start_def digit_val_def Let_def)
  then show ?thesis
    using lx_run_verdict[of 2 "lx_options [''sim'', ''+timeout=50'']" lx_counter 0 7]
    by (simp add: lx_counter_at lx_counter_verdict Let_def)
qed

theorem lx_run_timeout_witness:
  "lx_rc (lx_run_from lx_counter (lx_options [''sim'', ''+timeout=12'']) 0) = 124"
proof -
  have "unat (op_timeout (lx_options [''sim'', ''+timeout=12''])) = 12"
    by (simp add: lx_options_def num_arg_def plusarg_def plusarg_match_def strtoull_def is_space_def
        parse_magnitude_def is_hex_start_def digit_val_def Let_def)
  then show ?thesis
    using lx_run_timeout[of "lx_options [''sim'', ''+timeout=12'']" lx_counter 0]
    by (simp add: lx_counter_at lx_counter_verdict)
qed

text \<open>
  Reading the memory trace back: an issue line opens a transaction, and a response line must repeat
  the addresses and the direction of the open one, which it closes.
\<close>

fun mtrace_open :: "mem_line list \<Rightarrow> (u32 \<times> u32 \<times> bool) option \<Rightarrow> (u32 \<times> u32 \<times> bool) option option" where
  "mtrace_open [] o1 = Some o1"
| "mtrace_open (IssueLine g va pa wen sz st # ls) o1 = mtrace_open ls (Some (va, pa, wen))"
| "mtrace_open (RspLine g va pa wen rd f pf # ls) o1 =
     (if o1 = Some (va, pa, wen) then mtrace_open ls None else None)"

lemma mtrace_open_append:
  "mtrace_open (xs @ ys) o1 = (case mtrace_open xs o1 of None \<Rightarrow> None | Some o2 \<Rightarrow> mtrace_open ys o2)"
  by (induction xs o1 rule: mtrace_open.induct) auto

fun line_cycle :: "mem_line \<Rightarrow> u64" where
  "line_cycle (IssueLine g va pa wen sz st) = g"
| "line_cycle (RspLine g va pa wen rd f pf) = g"

fun line_pa :: "mem_line \<Rightarrow> u32" where
  "line_pa (IssueLine g va pa wen sz st) = pa"
| "line_pa (RspLine g va pa wen rd f pf) = pa"

definition tap_inv :: "lx_opts \<Rightarrow> 'd lx_run \<Rightarrow> bool" where
  "tap_inv op r \<longleftrightarrow>
     mtrace_open (lx_mtrace r) None =
       Some (if lx_pending r then Some (lx_pva r, lx_ppa r, lx_pwen r) else None) \<and>
     (\<forall>l \<in> set (lx_mtrace r). in_window op (line_cycle l) \<and>
        op_mtpamin op \<le> line_pa l \<and> line_pa l \<le> op_mtpamax op)"

lemma tap_issue_inv:
  assumes "tap_inv op r" "in_window op (lx_cycles r)"
  shows "tap_inv op (tap_issue op out r)"
  using assms by (auto simp: tap_inv_def tap_issue_def mtrace_open_append)

lemma tap_rsp_inv:
  assumes "tap_inv op r" "in_window op (lx_cycles r)"
  shows "tap_inv op (tap_rsp op out r)"
  using assms by (auto simp: tap_inv_def tap_rsp_def mtrace_open_append)

lemma mem_tap_inv: "tap_inv op r \<Longrightarrow> tap_inv op (mem_tap op out r)"
proof -
  have "lx_cycles (tap_issue op out r) = lx_cycles r" by (simp add: tap_issue_def)
  then show "tap_inv op r \<Longrightarrow> tap_inv op (mem_tap op out r)"
    by (auto simp: mem_tap_def tap_issue_inv tap_rsp_inv)
qed

lemma tap_inv_frame [simp]:
  "tap_inv op (r\<lparr>lx_dev := d, lx_ctrace := c\<rparr>) = tap_inv op r"
  "tap_inv op (r\<lparr>lx_rc := e, lx_done := b, lx_msgs := m\<rparr>) = tap_inv op r"
  by (simp_all add: tap_inv_def)

lemma lx_falling_tap_inv: "tap_inv op (lx_falling D r) = tap_inv op r"
  by (simp add: tap_inv_def lx_falling_sel)

lemma lx_cycle_tap_inv: "tap_inv op r \<Longrightarrow> tap_inv op (lx_cycle D op r)"
  by (simp add: lx_cycle_def lx_falling_tap_inv lx_rising_def Let_def mem_tap_inv)

text \<open>
  In the memory trace of a run every response line answers the latest issue line that has no
  answer yet, with its virtual and physical address and direction; and every line is inside the
  cycle window and the physical address window.
\<close>

theorem memtrace_paired:
  "\<exists>o1. mtrace_open (lx_mtrace (lx_run_from D op d)) None = Some o1 \<and>
     (\<forall>l \<in> set (lx_mtrace (lx_run_from D op d)). in_window op (line_cycle l) \<and>
        op_mtpamin op \<le> line_pa l \<and> line_pa l \<le> op_mtpamax op)"
proof -
  obtain n where n: "lx_loop D op (op_timeout op) (lx_start D d) = (lx_cycle D op ^^ n) (lx_start D d)"
    by (rule lx_loop.ends)
  have "tap_inv op ((lx_cycle D op ^^ n) (lx_start D d))"
    by (induction n) (simp_all add: lx_cycle_tap_inv, simp add: tap_inv_def lx_start_def Let_def)
  then show ?thesis by (simp add: lx_run_from_def lx_probe_cap_sel n tap_inv_def)
qed

theorem memtrace_paired_witness:
  "\<exists>o1. mtrace_open (lx_mtrace (lx_run_from lx_counter (lx_options [''sim'']) 0)) None = Some o1"
  using memtrace_paired[of lx_counter "lx_options [''sim'']" 0] by blast

end
