(* ===== verification/Axil.thy ===== *)
theory Axil
  imports Memories
begin

text \<open>
  AXI4-Lite slaves: the contract of their two channels, shared by the BRAM slaves
  (\<open>rtl/mem/axil_bram_slave.sv\<close>, \<open>rtl/mem/axil_bram_big.sv\<close>) and the UartLite model
  (\<open>rtl/mem/axil_uartlite_sim.sv\<close>), and the UartLite model itself.
\<close>

section \<open>The write channels\<close>

text \<open>
  The address and the data half are accepted independently, held until both are there, performed
  once, and released by the B handshake.
\<close>

locale axil_write_slave =
  fixes step :: "'s \<Rightarrow> axil_in \<Rightarrow> 's"
    and aw_hs :: "'s \<Rightarrow> bool" and w_hs :: "'s \<Rightarrow> bool" and bvalid :: "'s \<Rightarrow> bool"
    and awaddr :: "'s \<Rightarrow> u32" and wdata :: "'s \<Rightarrow> u32" and wstrb :: "'s \<Rightarrow> 4 word"
  assumes aw_hs_step: "\<not> ax_rst i \<Longrightarrow> aw_hs (step s i) \<longleftrightarrow>
      \<not> (bvalid s \<and> ax_bready i) \<and> (aw_hs s \<or> ax_awvalid i)"
    and w_hs_step: "\<not> ax_rst i \<Longrightarrow> w_hs (step s i) \<longleftrightarrow>
      \<not> (bvalid s \<and> ax_bready i) \<and> (w_hs s \<or> ax_wvalid i)"
    and bvalid_step: "\<not> ax_rst i \<Longrightarrow> bvalid (step s i) \<longleftrightarrow>
      \<not> (bvalid s \<and> ax_bready i) \<and> (bvalid s \<or> (aw_hs s \<and> w_hs s))"
    and awaddr_step: "\<not> ax_rst i \<Longrightarrow> awaddr (step s i) =
      (if ax_awvalid i \<and> \<not> aw_hs s then ax_awaddr i else awaddr s)"
    and wdata_step: "\<not> ax_rst i \<Longrightarrow> wdata (step s i) = (if ax_wvalid i \<and> \<not> w_hs s then ax_wdata i else wdata s)"
    and wstrb_step: "\<not> ax_rst i \<Longrightarrow> wstrb (step s i) = (if ax_wvalid i \<and> \<not> w_hs s then ax_wstrb i else wstrb s)"
    and reset_idle: "ax_rst i \<Longrightarrow> \<not> aw_hs (step s i) \<and> \<not> w_hs (step s i) \<and> \<not> bvalid (step s i)"
begin

text \<open>A response is only offered for a captured pair.\<close>

definition wf :: "'s \<Rightarrow> bool" where
  "wf s \<longleftrightarrow> (bvalid s \<longrightarrow> aw_hs s \<and> w_hs s)"

lemma wf_step: "wf s \<Longrightarrow> wf (step s i)"
  by (cases "ax_rst i") (auto simp: wf_def aw_hs_step w_hs_step bvalid_step reset_idle)

text \<open>The addresses and data accepted in a cycle, and the write performed in it.\<close>

definition aw_acc :: "'s \<Rightarrow> axil_in \<Rightarrow> u32 list" where
  "aw_acc s i = (if ax_awvalid i \<and> \<not> aw_hs s then [ax_awaddr i] else [])"

definition w_acc :: "'s \<Rightarrow> axil_in \<Rightarrow> (u32 \<times> 4 word) list" where
  "w_acc s i = (if ax_wvalid i \<and> \<not> w_hs s then [(ax_wdata i, ax_wstrb i)] else [])"

definition performed :: "'s \<Rightarrow> (u32 \<times> u32 \<times> 4 word) list" where
  "performed s = (if aw_hs s \<and> w_hs s \<and> \<not> bvalid s then [(awaddr s, wdata s, wstrb s)] else [])"

definition aw_held :: "'s \<Rightarrow> u32 list" where
  "aw_held s = (if aw_hs s \<and> \<not> bvalid s then [awaddr s] else [])"

definition w_held :: "'s \<Rightarrow> (u32 \<times> 4 word) list" where
  "w_held s = (if w_hs s \<and> \<not> bvalid s then [(wdata s, wstrb s)] else [])"

lemma held_step:
  assumes "wf s" "\<not> ax_rst i"
  shows "aw_held s @ aw_acc s i = map fst (performed s) @ aw_held (step s i)"
    and "w_held s @ w_acc s i = map snd (performed s) @ w_held (step s i)"
  using assms
  by (auto simp: wf_def aw_held_def aw_acc_def w_held_def w_acc_def performed_def aw_hs_step w_hs_step
      bvalid_step awaddr_step wdata_step wstrb_step)

fun writes :: "axil_in list \<Rightarrow> 's \<Rightarrow> (u32 \<times> u32 \<times> 4 word) list" where
  "writes [] s = []"
| "writes (i # is) s = performed s @ writes is (step s i)"

fun aws :: "axil_in list \<Rightarrow> 's \<Rightarrow> u32 list" where
  "aws [] s = []"
| "aws (i # is) s = aw_acc s i @ aws is (step s i)"

fun ws :: "axil_in list \<Rightarrow> 's \<Rightarrow> (u32 \<times> 4 word) list" where
  "ws [] s = []"
| "ws (i # is) s = w_acc s i @ ws is (step s i)"

definition final :: "axil_in list \<Rightarrow> 's \<Rightarrow> 's" where
  "final is s = foldl step s is"

text \<open>The k-th accepted address and the k-th accepted data make the k-th write, performed once.\<close>

lemma writes_pair_up:
  assumes "wf s" "\<forall>i \<in> set is. \<not> ax_rst i"
  shows "aw_held s @ aws is s = map fst (writes is s) @ aw_held (final is s) \<and>
    w_held s @ ws is s = map snd (writes is s) @ w_held (final is s)"
  using assms
proof (induction "is" arbitrary: s)
  case Nil
  then show ?case by (simp add: final_def)
next
  case (Cons i "is")
  have "aw_held (step s i) @ aws is (step s i) = map fst (writes is (step s i)) @ aw_held (final is (step s i)) \<and>
    w_held (step s i) @ ws is (step s i) = map snd (writes is (step s i)) @ w_held (final is (step s i))"
    using Cons.prems by (intro Cons.IH wf_step) simp_all
  then show ?case
    using held_step[of s i] Cons.prems
    by (simp add: final_def) (metis append.assoc)
qed

end

interpretation big_w: axil_write_slave axil_bram_big br_aw_hs br_w_hs br_bvalid br_awaddr br_wdata br_wstrb
  by unfold_locales
    (auto simp: axil_bram_big_def bram_step_def bram_write_step_def bram_awready_def bram_wready_def Let_def)

interpretation small_w: axil_write_slave axil_bram_slave br_aw_hs br_w_hs br_bvalid br_awaddr br_wdata br_wstrb
  by unfold_locales
    (auto simp: axil_bram_slave_def bram_step_def bram_write_step_def bram_awready_def bram_wready_def Let_def)

section \<open>axil_uartlite_sim\<close>

record uartlite =
  ul_aw_hs :: bool
  ul_w_hs :: bool
  ul_awaddr :: u32
  ul_wdata :: u32
  ul_wstrb :: "4 word"
  ul_bvalid :: bool
  ul_ctrl_ie :: bool
  ul_ar_hs :: bool
  ul_rvalid :: bool
  ul_araddr :: u32
  ul_rdata :: u32
  ul_printed :: "u8 list"

definition ul_irq :: "uartlite \<Rightarrow> bool" where "ul_irq s = ul_ctrl_ie s"

definition uartlite_write_step :: "uartlite \<Rightarrow> axil_in \<Rightarrow> uartlite" where
  "uartlite_write_step s i =
     (if ax_rst i
      then s\<lparr>ul_aw_hs := False, ul_w_hs := False, ul_bvalid := False, ul_ctrl_ie := False\<rparr>
      else
        let aw = ax_awvalid i \<and> \<not> ul_aw_hs s;
            w = ax_wvalid i \<and> \<not> ul_w_hs s;
            commit = ul_aw_hs s \<and> ul_w_hs s \<and> \<not> ul_bvalid s;
            ack = ul_bvalid s \<and> ax_bready i;
            off = fld 0 (ul_awaddr s) :: 4 word
        in s\<lparr>ul_awaddr := (if aw then ax_awaddr i else ul_awaddr s),
             ul_aw_hs := (if ack then False else if aw then True else ul_aw_hs s),
             ul_wdata := (if w then ax_wdata i else ul_wdata s),
             ul_wstrb := (if w then ax_wstrb i else ul_wstrb s),
             ul_w_hs := (if ack then False else if w then True else ul_w_hs s),
             ul_printed := (if commit \<and> off = 4 \<and> bit (ul_wstrb s) 0
                            then ul_printed s @ [fld 0 (ul_wdata s)] else ul_printed s),
             ul_ctrl_ie := (if commit \<and> off = 0xC \<and> bit (ul_wstrb s) 0
                            then bit (ul_wdata s) 4 else ul_ctrl_ie s),
             ul_bvalid := (if ack then False else if commit then True else ul_bvalid s)\<rparr>)"

definition uartlite_read_step :: "uartlite \<Rightarrow> axil_in \<Rightarrow> uartlite" where
  "uartlite_read_step s i =
     (if ax_rst i then s\<lparr>ul_ar_hs := False, ul_rvalid := False, ul_rdata := 0\<rparr>
      else
        let ar = ax_arvalid i \<and> \<not> ul_ar_hs s;
            rd = ul_ar_hs s \<and> \<not> ul_rvalid s;
            ack = ul_rvalid s \<and> ax_rready i
        in s\<lparr>ul_araddr := (if ar then ax_araddr i else ul_araddr s),
             ul_rdata := (if rd then 0 else ul_rdata s),
             ul_rvalid := (if ack then False else if rd then True else ul_rvalid s),
             ul_ar_hs := (if ack then False else if ar then True else ul_ar_hs s)\<rparr>)"

definition uartlite_step :: "uartlite \<Rightarrow> axil_in \<Rightarrow> uartlite" where
  "uartlite_step s i =
     (let w = uartlite_write_step s i; r = uartlite_read_step s i
      in w\<lparr>ul_ar_hs := ul_ar_hs r, ul_rvalid := ul_rvalid r, ul_araddr := ul_araddr r,
           ul_rdata := ul_rdata r\<rparr>)"

interpretation ul_w: axil_write_slave uartlite_step ul_aw_hs ul_w_hs ul_bvalid ul_awaddr ul_wdata ul_wstrb
  by unfold_locales (auto simp: uartlite_step_def uartlite_write_step_def Let_def)

definition tx_bytes :: "(u32 \<times> u32 \<times> 4 word) list \<Rightarrow> u8 list" where
  "tx_bytes ws = map (\<lambda>(a, v, m). fld 0 v) (filter (\<lambda>(a, v, m). (fld 0 a :: 4 word) = 4 \<and> bit m 0) ws)"

lemma uartlite_printed_step:
  "\<not> ax_rst i \<Longrightarrow> ul_printed (uartlite_step s i) = ul_printed s @ tx_bytes (ul_w.performed s)"
  by (auto simp: uartlite_step_def uartlite_write_step_def Let_def tx_bytes_def ul_w.performed_def)

lemma tx_bytes_append: "tx_bytes (xs @ ys) = tx_bytes xs @ tx_bytes ys"
  by (simp add: tx_bytes_def)

lemma uartlite_printed_run:
  assumes "\<forall>i \<in> set is. \<not> ax_rst i"
  shows "ul_printed (ul_w.final is s) = ul_printed s @ tx_bytes (ul_w.writes is s)"
  using assms
proof (induction "is" arbitrary: s)
  case (Cons i "is")
  then show ?case by (simp add: ul_w.final_def uartlite_printed_step tx_bytes_append)
qed (simp add: ul_w.final_def tx_bytes_def)

text \<open>
  The UartLite prints exactly the bytes of the writes to its TX register, once each and in the
  order of the accepted addresses and data, however the two channels are timed.
\<close>

theorem uartlite_prints_in_order:
  assumes "\<forall>i \<in> set is. \<not> ax_rst i" "\<not> ul_aw_hs s" "\<not> ul_w_hs s" "\<not> ul_bvalid s"
  shows "\<exists>n. ul_printed (foldl uartlite_step s is) =
      ul_printed s @ tx_bytes (zip (take n (ul_w.aws is s)) (take n (ul_w.ws is s))) \<and>
    length (ul_w.aws is s) \<le> Suc n \<and> length (ul_w.ws is s) \<le> Suc n"
proof (intro exI conjI)
  let ?n = "length (ul_w.writes is s)"
  have wf: "ul_w.wf s" using assms by (simp add: ul_w.wf_def)
  note p = ul_w.writes_pair_up[OF wf assms(1)]
  have a: "ul_w.aws is s = map fst (ul_w.writes is s) @ ul_w.aw_held (ul_w.final is s)"
    and w: "ul_w.ws is s = map snd (ul_w.writes is s) @ ul_w.w_held (ul_w.final is s)"
    using p assms by (simp_all add: ul_w.aw_held_def ul_w.w_held_def)
  have "zip (take ?n (ul_w.aws is s)) (take ?n (ul_w.ws is s)) = ul_w.writes is s"
    by (simp add: a w zip_map_fst_snd)
  then show "ul_printed (foldl uartlite_step s is) =
      ul_printed s @ tx_bytes (zip (take ?n (ul_w.aws is s)) (take ?n (ul_w.ws is s)))"
    using uartlite_printed_run[OF assms(1), of s] by (simp add: ul_w.final_def)
  show "length (ul_w.aws is s) \<le> Suc ?n" "length (ul_w.ws is s) \<le> Suc ?n"
    by (simp_all add: a w ul_w.aw_held_def ul_w.w_held_def)
qed

definition axil_idle :: axil_in where
  "axil_idle = \<lparr>ax_rst = False, ax_awvalid = False, ax_awaddr = 0, ax_wvalid = False, ax_wdata = 0,
     ax_wstrb = 0, ax_bready = True, ax_arvalid = False, ax_araddr = 0, ax_rready = True\<rparr>"

definition axil_wr :: "u32 \<Rightarrow> u32 \<Rightarrow> axil_in" where
  "axil_wr a v = axil_idle\<lparr>ax_awvalid := True, ax_awaddr := a, ax_wvalid := True, ax_wdata := v,
     ax_wstrb := 15\<rparr>"

definition uartlite_start :: uartlite where
  "uartlite_start = \<lparr>ul_aw_hs = False, ul_w_hs = False, ul_awaddr = 0, ul_wdata = 0, ul_wstrb = 0,
     ul_bvalid = False, ul_ctrl_ie = False, ul_ar_hs = False, ul_rvalid = False, ul_araddr = 0,
     ul_rdata = 0, ul_printed = []\<rparr>"

theorem uartlite_prints_in_order_witness:
  "ul_printed (foldl uartlite_step uartlite_start [axil_wr 0xC0000004 0x41, axil_idle]) = [0x41]"
proof -
  let ?is = "[axil_wr 0xC0000004 0x41, axil_idle]"
  have q: "ul_w.aws ?is uartlite_start = [0xC0000004]" "ul_w.ws ?is uartlite_start = [(0x41, 15)]"
    by (simp_all add: ul_w.aw_acc_def ul_w.w_acc_def axil_wr_def axil_idle_def uartlite_start_def
        uartlite_step_def uartlite_write_step_def Let_def)
  have "ul_printed (foldl uartlite_step uartlite_start ?is) \<noteq> []"
    by (simp add: axil_wr_def axil_idle_def uartlite_start_def uartlite_step_def uartlite_write_step_def
        Let_def fld_def bit_iff_odd)
  moreover obtain n where "ul_printed (foldl uartlite_step uartlite_start ?is) =
      ul_printed uartlite_start @
        tx_bytes (zip (take n (ul_w.aws ?is uartlite_start)) (take n (ul_w.ws ?is uartlite_start)))"
    using uartlite_prints_in_order[of ?is uartlite_start]
    by (auto simp: axil_wr_def axil_idle_def uartlite_start_def)
  moreover have "tx_bytes (zip (take n [0xC0000004]) (take n [(0x41, 15)])) \<in> {[], [0x41]}"
    by (cases n) (auto simp: tx_bytes_def fld_def)
  ultimately show ?thesis by (simp only: q) (auto simp: uartlite_start_def)
qed

section \<open>The BRAM slaves apply their writes in order\<close>

definition apply_write :: "(u32 \<Rightarrow> nat) \<Rightarrow> memory \<Rightarrow> u32 \<times> u32 \<times> 4 word \<Rightarrow> memory" where
  "apply_write index m = (\<lambda>(a, v, k). m(index a := apply_wmask (m (index a)) v k))"

lemma bram_mem_run:
  assumes "\<forall>i \<in> set is. \<not> ax_rst i"
  shows "br_mem (big_w.final is s) = foldl (apply_write bram_index) (br_mem s) (big_w.writes is s)"
  using assms
proof (induction "is" arbitrary: s)
  case (Cons i "is")
  have "br_mem (axil_bram_big s i) = foldl (apply_write bram_index) (br_mem s) (big_w.performed s)"
    using Cons.prems
    by (auto simp: axil_bram_big_def bram_step_def bram_write_step_def Let_def big_w.performed_def apply_write_def)
  then show ?case using Cons by (simp add: big_w.final_def)
qed (simp add: big_w.final_def)

end
