(* ===== verification/Mmio_Uart.thy ===== *)
theory Mmio_Uart
  imports Bus
begin

text \<open>
  \<open>rtl/soc/mmio.sv\<close> (console and exit registers), \<open>rtl/soc/uart_tx.sv\<close> (the 8N1 transmitter), and
  the pair as \<open>rtl/fpga/hello_top.sv\<close> wires it: the MMIO's registered console byte feeds the
  transmitter, whose \<open>tx_ready\<close> is the MMIO's \<open>console_ready\<close>.
\<close>

section \<open>The MMIO block\<close>

definition ADDR_CONSOLE :: u32 where "ADDR_CONSOLE = 0xD0580000"
definition ADDR_EXIT :: u32 where "ADDR_EXIT = 0xD0580004"
definition ADDR_STATUS :: u32 where "ADDR_STATUS = 0xD0580008"

lemmas mmio_addrs = ADDR_CONSOLE_def ADDR_EXIT_def ADDR_STATUS_def

record mmio =
  mm_console_valid :: bool
  mm_console_byte :: u8
  mm_exit_valid :: bool
  mm_exit_code :: u32
  mm_rsp_valid :: bool
  mm_rsp_rdata :: u32
  mm_rsp_fault :: bool

definition mmio_reset :: mmio where
  "mmio_reset = \<lparr>mm_console_valid = False, mm_console_byte = 0, mm_exit_valid = False,
     mm_exit_code = 0, mm_rsp_valid = False, mm_rsp_rdata = 0, mm_rsp_fault = False\<rparr>"

definition mmio_ready :: "bool \<Rightarrow> bus_req \<Rightarrow> bool" where
  "mmio_ready console_ready r =
     (if rq_valid r \<and> rq_wen r \<and> rq_addr r = ADDR_CONSOLE then console_ready else True)"

definition mmio_step :: "bool \<Rightarrow> bool \<Rightarrow> bus_req \<Rightarrow> mmio \<Rightarrow> mmio" where
  "mmio_step console_ready rst r s =
     (if rst then mmio_reset
      else
        let s0 = s\<lparr>mm_console_valid := False, mm_rsp_valid := False, mm_rsp_fault := False\<rparr> in
        if rq_valid r \<and> mmio_ready console_ready r
        then let s1 = s0\<lparr>mm_rsp_valid := True, mm_rsp_rdata := 0\<rparr> in
             if rq_addr r = ADDR_CONSOLE
             then (if rq_wen r \<and> bit (rq_wmask r) 0
                   then s1\<lparr>mm_console_valid := True, mm_console_byte := fld 0 (rq_wdata r)\<rparr> else s1)
             else if rq_addr r = ADDR_EXIT
             then (if rq_wen r then s1\<lparr>mm_exit_valid := True, mm_exit_code := rq_wdata r\<rparr> else s1)
             else if rq_addr r = ADDR_STATUS then s1\<lparr>mm_rsp_rdata := 0\<rparr>
             else s1\<lparr>mm_rsp_fault := True\<rparr>
        else s0)"

interpretation mmio_bus: bus_slave "mmio_step rdy" "\<lambda>s r. mmio_ready rdy r" mm_rsp_valid for rdy
  by unfold_locales (auto simp: mmio_step_def mmio_reset_def Let_def)

section \<open>The UART transmitter\<close>

text \<open>\<open>CLK_HZ / BAUD\<close> at the default parameters; \<open>div_cnt\<close> has \<open>$clog2(435) = 9\<close> bits.\<close>

definition DIV_MAX :: nat where "DIV_MAX = 50000000 div 115200"

record uart =
  sreg :: "10 word"
  div_cnt :: "9 word"
  bit_cnt :: "4 word"
  busy :: bool

definition uart_reset :: uart where
  "uart_reset = \<lparr>sreg = 0x3FF, div_cnt = 0, bit_cnt = 0, busy = False\<rparr>"

definition tx_ready :: "uart \<Rightarrow> bool" where "tx_ready s = (\<not> busy s)"
definition tx :: "uart \<Rightarrow> bool" where "tx s = (if busy s then bit (sreg s) 0 else True)"

text \<open>\<open>{1'b1, tx_data, 1'b0}\<close>: stop bit, data, start bit.\<close>

definition tx_frame :: "u8 \<Rightarrow> 10 word" where
  "tx_frame d = put_bit 9 True (push_bit 1 (ucast d))"

text \<open>\<open>{1'b1, sreg[9:1]}\<close>.\<close>

definition shift_in1 :: "10 word \<Rightarrow> 10 word" where
  "shift_in1 x = put_bit 9 True (drop_bit 1 x)"

lemma bit_shift_in1: "bit (shift_in1 x) k \<longleftrightarrow> k = 9 \<or> bit x (Suc k)"
  unfolding shift_in1_def bit_put_bit bit_drop_bit_eq
  by (auto dest: bit_imp_le_length simp: comp_def)

definition uart_step :: "bool \<Rightarrow> bool \<Rightarrow> u8 \<Rightarrow> uart \<Rightarrow> uart" where
  "uart_step rst tx_valid tx_data s =
     (if rst then uart_reset
      else if \<not> busy s
      then (if tx_valid then \<lparr>sreg = tx_frame tx_data, div_cnt = 0, bit_cnt = 0, busy = True\<rparr> else s)
      else if div_cnt s = of_nat DIV_MAX - 1
      then s\<lparr>div_cnt := 0, sreg := shift_in1 (sreg s),
             busy := (bit_cnt s \<noteq> 9),
             bit_cnt := (if bit_cnt s = 9 then 0 else bit_cnt s + 1)\<rparr>
      else s\<lparr>div_cnt := div_cnt s + 1\<rparr>)"

section \<open>The line during one frame\<close>

text \<open>The bits of a frame in the order they are sent: start, data from the LSB, stop.\<close>

definition frame_bits :: "u8 \<Rightarrow> nat \<Rightarrow> bool" where
  "frame_bits d k = (if k = 0 then False else if k \<le> 8 then bit d (k - 1) else True)"

lemma bit_tx_frame: "bit (tx_frame d) k \<longleftrightarrow> k < 10 \<and> frame_bits d k"
  unfolding tx_frame_def bit_put_bit bit_push_bit_iff bit_ucast_iff
  by (auto simp: frame_bits_def dest: bit_imp_le_length)

text \<open>The state \<open>t\<close> cycles after a byte has been accepted.\<close>

definition in_frame :: "u8 \<Rightarrow> nat \<Rightarrow> uart \<Rightarrow> bool" where
  "in_frame d t s \<longleftrightarrow> busy s \<and> t < 10 * DIV_MAX \<and> unat (bit_cnt s) = t div DIV_MAX \<and>
     unat (div_cnt s) = t mod DIV_MAX \<and>
     (\<forall>k < 10. bit (sreg s) k \<longleftrightarrow> (if t div DIV_MAX + k < 10 then frame_bits d (t div DIV_MAX + k) else True))"

lemma DIV_MAX_val: "DIV_MAX = 434" by (simp add: DIV_MAX_def)

lemma in_frame_start: "\<not> busy s \<Longrightarrow> in_frame d 0 (uart_step False True d s)"
  by (auto simp: uart_step_def in_frame_def DIV_MAX_val bit_tx_frame)

lemma in_frame_step:
  assumes "in_frame d t s" "Suc t < 10 * DIV_MAX"
  shows "in_frame d (Suc t) (uart_step False v e s)"
proof (cases "t mod DIV_MAX = DIV_MAX - 1")
  case True
  have c: "div_cnt s = of_nat DIV_MAX - 1"
    using assms(1) True by (simp add: in_frame_def DIV_MAX_val word_unat_eq_iff)
  have q: "Suc t div DIV_MAX = Suc (t div DIV_MAX)" "Suc t mod DIV_MAX = 0"
    using True by (simp_all add: DIV_MAX_val div_Suc mod_Suc)
  have b: "t div DIV_MAX < 9" using assms(2) q(1) by (simp add: DIV_MAX_val)
  have n9: "bit_cnt s \<noteq> 9" using assms(1) b by (auto simp: in_frame_def)
  have "unat (bit_cnt s + 1) = Suc (t div DIV_MAX)"
    using assms(1) b by (simp add: in_frame_def unat_word_ariths)
  moreover have "bit (shift_in1 (sreg s)) k \<longleftrightarrow>
      (if Suc (t div DIV_MAX) + k < 10 then frame_bits d (Suc (t div DIV_MAX) + k) else True)" if "k < 10" for k
  proof (cases "k = 9")
    case False
    then have "Suc k < 10" using that by simp
    then show ?thesis using assms(1) False by (simp add: in_frame_def bit_shift_in1)
  qed (simp add: bit_shift_in1)
  ultimately show ?thesis
    using assms c n9 q b by (simp add: in_frame_def uart_step_def)
next
  case False
  have m: "t mod DIV_MAX < 433" using False mod_less_divisor[of 434 t] by (simp add: DIV_MAX_val)
  have c: "div_cnt s \<noteq> of_nat DIV_MAX - 1"
    using assms(1) m by (auto simp: in_frame_def DIV_MAX_val)
  have q: "Suc t div DIV_MAX = t div DIV_MAX" "Suc t mod DIV_MAX = Suc (t mod DIV_MAX)"
    using m by (simp_all add: DIV_MAX_val div_Suc mod_Suc)
  have "unat (div_cnt s + 1) = Suc (t mod DIV_MAX)"
    using assms(1) m by (simp add: in_frame_def unat_word_ariths)
  then show ?thesis using assms c q by (auto simp: in_frame_def uart_step_def)
qed

lemma in_frame_last:
  assumes "in_frame d (10 * DIV_MAX - 1) s"
  shows "\<not> busy (uart_step False v e s)"
proof -
  have "unat (bit_cnt s) = 9" "unat (div_cnt s) = 433"
    using assms by (simp_all add: in_frame_def DIV_MAX_val)
  then have "bit_cnt s = 9" "div_cnt s = of_nat DIV_MAX - 1"
    by (simp_all add: word_unat_eq_iff DIV_MAX_val)
  then show ?thesis using assms by (simp add: uart_step_def in_frame_def)
qed

lemma in_frame_tx: "in_frame d t s \<Longrightarrow> tx s = frame_bits d (t div DIV_MAX)"
  by (auto simp: in_frame_def tx_def DIV_MAX_val)

fun uart_run :: "(bool \<times> u8) list \<Rightarrow> uart \<Rightarrow> uart" where
  "uart_run [] s = s"
| "uart_run ((v, e) # ins) s = uart_run ins (uart_step False v e s)"

lemma in_frame_run:
  "in_frame d t s \<Longrightarrow> t + length ins < 10 * DIV_MAX \<Longrightarrow> in_frame d (t + length ins) (uart_run ins s)"
proof (induction ins arbitrary: t s)
  case (Cons i ins)
  obtain v e where i: "i = (v, e)" by (cases i)
  have "in_frame d (Suc t) (uart_step False v e s)" using Cons.prems by (intro in_frame_step) simp_all
  then show ?case using Cons.IH[of "Suc t"] Cons.prems by (simp add: i)
qed simp

lemma uart_run_snoc: "uart_run (ins @ [(v, e)]) s = uart_step False v e (uart_run ins s)"
  by (induction ins s rule: uart_run.induct) simp_all

text \<open>
  C35. An idle transmitter that accepts a byte drives the line with the start bit, the eight data
  bits from the LSB and the stop bit, each for exactly \<open>DIV_MAX\<close> cycles, ignores its inputs
  meanwhile, and is ready again right after the stop bit.
\<close>

theorem uart_sends_frame:
  fixes s :: uart and d :: u8 and ins :: "(bool \<times> u8) list"
  assumes "\<not> busy s" "length ins \<le> 10 * DIV_MAX"
  defines "s' \<equiv> uart_run ins (uart_step False True d s)"
  shows "if length ins < 10 * DIV_MAX
    then \<not> tx_ready s' \<and> tx s' = frame_bits d (length ins div DIV_MAX)
    else tx_ready s' \<and> tx s'"
proof (cases "length ins < 10 * DIV_MAX")
  case True
  then have "in_frame d (0 + length ins) s'"
    unfolding s'_def using assms(1) by (intro in_frame_run in_frame_start) simp_all
  then show ?thesis using True by (simp add: in_frame_tx tx_ready_def) (simp add: in_frame_def)
next
  case False
  then have l: "length ins = Suc (10 * DIV_MAX - 1)" using assms(2) by (simp add: DIV_MAX_val)
  then obtain pre v e where p: "ins = pre @ [(v, e)]" "length pre = 10 * DIV_MAX - 1"
    by (cases ins rule: rev_cases) auto
  have "in_frame d (0 + length pre) (uart_run pre (uart_step False True d s))"
    using assms(1) p(2) by (intro in_frame_run in_frame_start) (simp_all add: DIV_MAX_val)
  then have "\<not> busy s'" unfolding s'_def p(1) uart_run_snoc by (intro in_frame_last) (simp add: p(2))
  then show ?thesis using False by (simp add: tx_ready_def tx_def)
qed

theorem uart_sends_frame_witness:
  "tx (uart_run (replicate 900 (True, 3)) (uart_step False True 0x41 uart_reset)) = bit (0x41 :: u8) 1"
  using uart_sends_frame[of uart_reset "replicate 900 (True, 3)" "0x41"]
  by (simp add: uart_reset_def DIV_MAX_val frame_bits_def)

section \<open>The console path\<close>

definition console_step :: "bus_req \<Rightarrow> mmio \<times> uart \<Rightarrow> mmio \<times> uart" where
  "console_step r = (\<lambda>(m, u).
     (mmio_step (tx_ready u) False r m,
      uart_step False (mm_console_valid m) (mm_console_byte m) u))"

text \<open>The byte the MMIO accepts from the bus in this cycle, and the byte the UART takes.\<close>

definition stored :: "bus_req \<Rightarrow> mmio \<times> uart \<Rightarrow> u8 list" where
  "stored r = (\<lambda>(m, u).
     if rq_valid r \<and> rq_wen r \<and> rq_addr r = ADDR_CONSOLE \<and> bit (rq_wmask r) 0 \<and> tx_ready u
     then [fld 0 (rq_wdata r)] else [])"

definition taken :: "mmio \<times> uart \<Rightarrow> u8 list" where
  "taken = (\<lambda>(m, u). if mm_console_valid m \<and> \<not> busy u then [mm_console_byte m] else [])"

fun console_run :: "bus_req list \<Rightarrow> mmio \<times> uart \<Rightarrow> (u8 list \<times> u8 list) \<times> mmio \<times> uart" where
  "console_run [] st = (([], []), st)"
| "console_run (r # rs) st =
     (case console_run rs (console_step r st) of
        ((a, b), st') \<Rightarrow> ((stored r st @ a, taken st @ b), st'))"

text \<open>A master that waits for the response before it issues the next request.\<close>

fun waits_for_rsp :: "bus_req list \<Rightarrow> mmio \<times> uart \<Rightarrow> bool" where
  "waits_for_rsp [] st = True"
| "waits_for_rsp (r # rs) st =
     ((rq_valid r \<longrightarrow> \<not> mm_rsp_valid (fst st)) \<and> waits_for_rsp rs (console_step r st))"

definition console_inv :: "mmio \<times> uart \<Rightarrow> bool" where
  "console_inv st \<longleftrightarrow> (mm_console_valid (fst st) \<longrightarrow> mm_rsp_valid (fst st) \<and> \<not> busy (snd st))"

definition pending_byte :: "mmio \<times> uart \<Rightarrow> u8 list" where
  "pending_byte st = (if mm_console_valid (fst st) then [mm_console_byte (fst st)] else [])"

lemma console_step_inv:
  assumes "console_inv st" "rq_valid r \<longrightarrow> \<not> mm_rsp_valid (fst st)"
  shows "console_inv (console_step r st)"
    and "pending_byte st @ stored r st = taken st @ pending_byte (console_step r st)"
proof -
  obtain m u where st: "st = (m, u)" by (cases st)
  show "console_inv (console_step r st)"
    using assms by (auto simp: st console_inv_def console_step_def mmio_step_def mmio_ready_def uart_step_def
        tx_ready_def Let_def)
  show "pending_byte st @ stored r st = taken st @ pending_byte (console_step r st)"
    using assms
    by (auto simp: st console_inv_def pending_byte_def stored_def taken_def console_step_def mmio_step_def
        mmio_ready_def tx_ready_def Let_def)
qed

text \<open>
  With a master that waits for each response, the transmitter takes exactly the bytes stored to
  the console register, in order: the back-pressure drops none and duplicates none.
\<close>

theorem console_lossless:
  assumes "console_inv st" "waits_for_rsp rs st"
  shows "case console_run rs st of ((a, b), st') \<Rightarrow> pending_byte st @ a = b @ pending_byte st'"
  using assms
proof (induction rs arbitrary: st)
  case (Cons r rs)
  obtain a b st' where run: "console_run rs (console_step r st) = ((a, b), st')" by (metis prod.exhaust)
  have "console_inv (console_step r st)"
    using Cons.prems by (intro console_step_inv(1)) simp_all
  then have "pending_byte (console_step r st) @ a = b @ pending_byte st'"
    using Cons.IH[of "console_step r st"] Cons.prems run by simp
  moreover have "pending_byte st @ stored r st = taken st @ pending_byte (console_step r st)"
    using Cons.prems by (intro console_step_inv(2)) simp_all
  ultimately have "pending_byte st @ stored r st @ a = taken st @ b @ pending_byte st'"
    by (metis append_assoc)
  then show ?case using run by simp
qed simp

theorem console_lossless_witness:
  "fst (console_run [wr_req ADDR_CONSOLE 65 1, no_req, no_req] (mmio_reset, uart_reset)) = ([65], [65])"
proof -
  let ?rs = "[wr_req ADDR_CONSOLE 65 1, no_req, no_req]"
  have w: "waits_for_rsp ?rs (mmio_reset, uart_reset)"
    by (simp add: mmio_reset_def uart_reset_def console_step_def mmio_step_def mmio_ready_def tx_ready_def Let_def)
  have i: "console_inv (mmio_reset, uart_reset)" by (simp add: console_inv_def mmio_reset_def)
  have "fst (fst (console_run ?rs (mmio_reset, uart_reset))) = [65]"
    by (simp add: mmio_reset_def uart_reset_def console_step_def mmio_step_def mmio_ready_def tx_ready_def Let_def
        stored_def uart_step_def fld_def split: prod.splits)
  moreover have "pending_byte (snd (console_run ?rs (mmio_reset, uart_reset))) = []"
    by (simp add: mmio_reset_def uart_reset_def console_step_def mmio_step_def mmio_ready_def tx_ready_def Let_def
        pending_byte_def uart_step_def split: prod.splits)
  ultimately show ?thesis using console_lossless[OF i w]
    by (auto simp: pending_byte_def mmio_reset_def split: prod.splits)
qed

text \<open>
  Without that wait the path can lose data: of two console stores accepted in consecutive
  cycles the transmitter takes only the first, although the bus has accepted and answered both.
\<close>

theorem console_burst_drops:
  assumes "\<not> busy u" "\<not> mm_console_valid m" "bit k1 0" "bit k2 0"
  shows "let rs = [wr_req ADDR_CONSOLE v1 k1, wr_req ADDR_CONSOLE v2 k2, no_req] in
    fst (console_run rs (m, u)) = ([fld 0 v1, fld 0 v2], [fld 0 v1]) \<and>
    pending_byte (snd (console_run rs (m, u))) = []"
  using assms
  by (simp add: console_step_def mmio_step_def mmio_ready_def tx_ready_def stored_def taken_def
      uart_step_def pending_byte_def Let_def)

theorem console_burst_drops_witness:
  "fst (console_run [wr_req ADDR_CONSOLE 65 1, wr_req ADDR_CONSOLE 66 1, no_req] (mmio_reset, uart_reset)) =
     ([65, 66], [65])"
  using console_burst_drops[of uart_reset mmio_reset 1 1 65 66]
  by (simp add: uart_reset_def mmio_reset_def Let_def fld_def)

end
