(* ===== verification/Firmware.thy ===== *)
theory Firmware
  imports Cli Axil Mmio_Uart
begin

text \<open>
  The bare-metal C code under \<open>sw/\<close>: the console and UartLite drivers
  (\<open>sw/common/mmio.h\<close>, \<open>sw/common/uartlite.h\<close>), the number printers the demos share, and the demos
  \<open>hello.c\<close>, \<open>hello_axi.c\<close> and FreeRTOS \<open>main.c\<close>. A routine is a function on a state that holds the
  devices; volatile accesses go through a record of bus operations.
\<close>

section \<open>Programs\<close>

text \<open>
  A routine returns (\<open>Ret\<close>), ends in the endless loop of \<open>mmio_exit\<close> (\<open>Spin\<close>), or polls for ever
  (\<open>None\<close>).
\<close>

datatype 's outcome = Ret 's | Spin 's

type_synonym 's fw = "'s \<Rightarrow> 's outcome option"

definition skip_fw :: "'s fw" where "skip_fw s = Some (Ret s)"

definition fseq :: "'s fw \<Rightarrow> 's fw \<Rightarrow> 's fw" where
  "fseq f g s = (case f s of None \<Rightarrow> None | Some (Spin t) \<Rightarrow> Some (Spin t) | Some (Ret t) \<Rightarrow> g t)"

fun seqs :: "'s fw list \<Rightarrow> 's fw" where
  "seqs [] = skip_fw"
| "seqs (f # fs) = fseq f (seqs fs)"

lemma fseq_simps [simp]:
  "f s = Some (Ret t) \<Longrightarrow> fseq f g s = g t" "f s = Some (Spin t) \<Longrightarrow> fseq f g s = Some (Spin t)"
  "f s = None \<Longrightarrow> fseq f g s = None"
  by (simp_all add: fseq_def)

lemma seqs_append: "seqs (fs @ gs) s = fseq (seqs fs) (seqs gs) s"
  by (induction fs arbitrary: s) (auto simp: fseq_def skip_fw_def split: option.split outcome.split)

record 's fw_bus =
  b_ld32 :: "u32 \<Rightarrow> 's \<Rightarrow> u32 \<times> 's"
  b_st32 :: "u32 \<Rightarrow> u32 \<Rightarrow> 's \<Rightarrow> 's"
  b_st8 :: "u32 \<Rightarrow> u8 \<Rightarrow> 's \<Rightarrow> 's"

definition char_byte :: "char \<Rightarrow> u8" where "char_byte c = of_char c"

section \<open>mmio.h\<close>

definition MMIO_CONSOLE :: u32 where "MMIO_CONSOLE = 0xD0580000"
definition MMIO_EXIT :: u32 where "MMIO_EXIT = 0xD0580004"
definition MMIO_STATUS :: u32 where "MMIO_STATUS = 0xD0580008"

definition mmio_putc :: "'s fw_bus \<Rightarrow> char \<Rightarrow> 's fw" where
  "mmio_putc B c s = Some (Ret (b_st8 B MMIO_CONSOLE (char_byte c) s))"

definition mmio_exit :: "'s fw_bus \<Rightarrow> u32 \<Rightarrow> 's fw" where
  "mmio_exit B code s = Some (Spin (b_st32 B MMIO_EXIT code s))"

text \<open>\<open>while (*s) putc(*s++)\<close>, for the two character sinks.\<close>

fun puts :: "(char \<Rightarrow> 's fw) \<Rightarrow> string \<Rightarrow> 's fw" where
  "puts putc [] = skip_fw"
| "puts putc (c # cs) = (if c = CHR 0x00 then skip_fw else fseq (putc c) (puts putc cs))"

definition mmio_puts :: "'s fw_bus \<Rightarrow> string \<Rightarrow> 's fw" where
  "mmio_puts B = puts (mmio_putc B)"

section \<open>uartlite.h\<close>

definition UARTLITE_BASE :: u32 where "UARTLITE_BASE = 0xC0000000"
definition UL_RX_FIFO :: u32 where "UL_RX_FIFO = UARTLITE_BASE + 0x00"
definition UL_TX_FIFO :: u32 where "UL_TX_FIFO = UARTLITE_BASE + 0x04"
definition UL_STAT :: u32 where "UL_STAT = UARTLITE_BASE + 0x08"
definition UL_CTRL :: u32 where "UL_CTRL = UARTLITE_BASE + 0x0C"
definition UL_STAT_RX_VALID :: u32 where "UL_STAT_RX_VALID = push_bit 0 1"
definition UL_STAT_TX_FULL :: u32 where "UL_STAT_TX_FULL = push_bit 3 1"

partial_function (option) wait_tx :: "'s fw_bus \<Rightarrow> 's \<Rightarrow> 's option" where
  "wait_tx B s =
     (case b_ld32 B UL_STAT s of (v, t) \<Rightarrow>
        if v AND UL_STAT_TX_FULL \<noteq> 0 then wait_tx B t else Some t)"

definition uartlite_putc :: "'s fw_bus \<Rightarrow> char \<Rightarrow> 's fw" where
  "uartlite_putc B c s =
     (case wait_tx B s of None \<Rightarrow> None
      | Some t \<Rightarrow> Some (Ret (b_st32 B UL_TX_FIFO (ucast (char_byte c)) t)))"

definition uartlite_puts :: "'s fw_bus \<Rightarrow> string \<Rightarrow> 's fw" where
  "uartlite_puts B = puts (uartlite_putc B)"

definition uartlite_rx_has :: "'s fw_bus \<Rightarrow> 's \<Rightarrow> u32 \<times> 's" where
  "uartlite_rx_has B s = (case b_ld32 B UL_STAT s of (v, t) \<Rightarrow> (v AND UL_STAT_RX_VALID, t))"

partial_function (option) uartlite_getc :: "'s fw_bus \<Rightarrow> 's \<Rightarrow> (u8 \<times> 's) option" where
  "uartlite_getc B s =
     (case uartlite_rx_has B s of (v, t) \<Rightarrow>
        if v = 0 then uartlite_getc B t
        else (case b_ld32 B UL_RX_FIFO t of (w, u) \<Rightarrow> Some (ucast (w AND 0xFF), u)))"

section \<open>Printing numbers\<close>

definition hex_digit :: "u32 \<Rightarrow> char" where
  "hex_digit n = ''0123456789abcdef'' ! unat n"

definition put_hex :: "(char \<Rightarrow> 's fw) \<Rightarrow> u32 \<Rightarrow> 's fw" where
  "put_hex putc v =
     fseq (puts putc ''0x'')
       (seqs (map (\<lambda>i. putc (hex_digit (drop_bit (i * 4) v AND 0xF))) (rev [0..<8])))"

text \<open>The digits in the order the first loop stores them in \<open>buf\<close>.\<close>

function dec_buf :: "u32 \<Rightarrow> char list" where
  "dec_buf v = (if v = 0 then [] else char_of (48 + unat (v mod 10)) # dec_buf (v div 10))"
  by pat_completeness auto
termination
proof (relation "measure unat")
  fix v :: u32
  assume "v \<noteq> 0"
  then have "0 < unat v" by (simp add: unat_gt_0)
  then show "(v div 10, v) \<in> measure unat" by (simp add: unat_div_distrib)
qed simp

declare dec_buf.simps [simp del]

definition put_dec :: "(char \<Rightarrow> 's fw) \<Rightarrow> u32 \<Rightarrow> 's fw" where
  "put_dec putc v =
     (if v = 0 then putc CHR ''0'' else seqs (map putc (rev (dec_buf v))))"

text \<open>The two instances: \<open>hello.c\<close> prints to the MMIO console, the others to the UartLite.\<close>

definition mmio_put_hex :: "'s fw_bus \<Rightarrow> u32 \<Rightarrow> 's fw" where "mmio_put_hex B = put_hex (mmio_putc B)"
definition mmio_put_dec :: "'s fw_bus \<Rightarrow> u32 \<Rightarrow> 's fw" where "mmio_put_dec B = put_dec (mmio_putc B)"
definition ul_put_hex :: "'s fw_bus \<Rightarrow> u32 \<Rightarrow> 's fw" where "ul_put_hex B = put_hex (uartlite_putc B)"
definition ul_put_dec :: "'s fw_bus \<Rightarrow> u32 \<Rightarrow> 's fw" where "ul_put_dec B = put_dec (uartlite_putc B)"

text \<open>What the printers send, as text.\<close>

definition hex_text :: "u32 \<Rightarrow> string" where
  "hex_text v = ''0x'' @ map (\<lambda>i. hex_digit (drop_bit (i * 4) v AND 0xF)) (rev [0..<8])"

definition dec_text :: "u32 \<Rightarrow> string" where
  "dec_text v = (if v = 0 then ''0'' else rev (dec_buf v))"

section \<open>The console contract\<close>

text \<open>
  A character sink in a good state takes the character and stays good. The printers then send
  exactly their text.
\<close>

locale console =
  fixes putc :: "char \<Rightarrow> 's fw" and out :: "'s \<Rightarrow> u8 list" and good :: "'s \<Rightarrow> bool"
    and frame :: "'s \<Rightarrow> 'f"
  assumes putc_ok: "good s \<Longrightarrow> \<exists>t. putc c s = Some (Ret t) \<and> out t = out s @ [char_byte c] \<and> good t \<and>
    frame t = frame s"
begin

definition sends :: "string \<Rightarrow> 's fw \<Rightarrow> bool" where
  "sends str f \<longleftrightarrow> (\<forall>s. good s \<longrightarrow>
     (\<exists>t. f s = Some (Ret t) \<and> out t = out s @ map char_byte str \<and> good t \<and> frame t = frame s))"

lemma sends_putc: "sends [c] (putc c)"
  using putc_ok by (auto simp: sends_def)

lemma sends_skip: "sends [] skip_fw"
  by (simp add: sends_def skip_fw_def)

lemma sends_fseq:
  assumes "sends a f" "sends b g"
  shows "sends (a @ b) (fseq f g)"
  unfolding sends_def
proof (intro allI impI)
  fix s assume s: "good s"
  obtain t where t: "f s = Some (Ret t)" "out t = out s @ map char_byte a" "good t" "frame t = frame s"
    using assms(1) s by (auto simp: sends_def)
  obtain u where "g t = Some (Ret u)" "out u = out t @ map char_byte b" "good u" "frame u = frame t"
    using assms(2) t by (auto simp: sends_def)
  then show "\<exists>t. fseq f g s = Some (Ret t) \<and> out t = out s @ map char_byte (a @ b) \<and> good t \<and> frame t = frame s"
    using t by simp
qed

lemma sends_seqs_map: "sends str (seqs (map putc str))"
proof (induction str)
  case Nil
  then show ?case by (simp add: sends_skip)
next
  case (Cons c cs)
  then show ?case using sends_fseq[OF sends_putc[of c] Cons] by simp
qed

lemma sends_seqs: "list_all2 sends strs fs \<Longrightarrow> sends (concat strs) (seqs fs)"
  by (induction strs fs rule: list_all2_induct) (simp_all add: sends_skip sends_fseq)

lemma sends_puts: "CHR 0x00 \<notin> set str \<Longrightarrow> sends str (puts putc str)"
proof (induction str)
  case Nil
  then show ?case by (simp add: sends_skip)
next
  case (Cons c cs)
  then show ?case using sends_fseq[OF sends_putc[of c]] by auto
qed

lemma sends_put_dec: "sends (dec_text v) (put_dec putc v)"
  using sends_putc[of "CHR ''0''"] sends_seqs_map[of "rev (dec_buf v)"]
  by (simp add: put_dec_def dec_text_def)

lemma sends_put_hex: "sends (hex_text v) (put_hex putc v)"
proof -
  have "sends ''0x'' (puts putc ''0x'')" by (rule sends_puts) simp
  from sends_fseq[OF this sends_seqs_map[of "map (\<lambda>i. hex_digit (drop_bit (i * 4) v AND 0xF)) (rev [0..<8])"]]
  show ?thesis unfolding put_hex_def hex_text_def by (simp only: map_map comp_def)
qed

lemma sends_run:
  assumes "sends str f" "good s"
  obtains t where "f s = Some (Ret t)" "out t = out s @ map char_byte str" "good t" "frame t = frame s"
  using assms by (auto simp: sends_def)

end

section \<open>The printed text reads back\<close>

lemma digit_val_char: "n < 10 \<Longrightarrow> digit_val (char_of (48 + n)) = Some n"
  by (simp add: digit_val_def)

lemma parse_digits_append:
  assumes "\<forall>c \<in> set xs. \<exists>d < b. digit_val c = Some d"
  shows "parse_digits b (xs @ ys) acc = parse_digits b ys (parse_digits b xs acc)"
  using assms by (induction xs arbitrary: acc) auto

lemma u32_div10: "unat (v div 10) = unat v div 10" "unat (v mod 10) = unat v mod 10" for v :: u32
  by (simp_all add: unat_div_distrib unat_mod_distrib)

lemma dec_buf_digits: "\<forall>c \<in> set (dec_buf v). \<exists>d < 10. digit_val c = Some d"
proof (induction v rule: dec_buf.induct)
  case (1 v)
  show ?case
  proof (cases "v = 0")
    case False
    have "digit_val (char_of (48 + unat (v mod 10))) = Some (unat (v mod 10))"
      by (rule digit_val_char) (simp add: u32_div10)
    then show ?thesis using 1 False by (subst dec_buf.simps) (auto simp: u32_div10)
  qed (subst dec_buf.simps, simp)
qed

lemma parse_dec_buf: "parse_digits 10 (rev (dec_buf v)) 0 = unat v"
proof (induction v rule: dec_buf.induct)
  case (1 v)
  show ?case
  proof (cases "v = 0")
    case False
    have "digit_val (char_of (48 + unat (v mod 10))) = Some (unat (v mod 10))"
      by (rule digit_val_char) (simp add: u32_div10)
    then show ?thesis using 1 False dec_buf_digits[of "v div 10"]
      by (subst dec_buf.simps) (simp add: parse_digits_append u32_div10)
  qed (subst dec_buf.simps, simp)
qed

lemma last_dec_buf: "v \<noteq> 0 \<Longrightarrow> dec_buf v \<noteq> [] \<and> (\<exists>d :: nat. 0 < d \<and> d < 10 \<and> last (dec_buf v) = char_of (48 + d))"
proof (induction v rule: dec_buf.induct)
  case (1 v)
  show ?case
  proof (cases "v div 10 = 0")
    case True
    then have "unat v div 10 = 0" by (metis u32_div10(1) unsigned_0)
    then have "unat v < 10" "0 < unat v" using 1(2) by (simp_all add: unat_gt_0)
    then show ?thesis using 1(2) True
      by (subst (1 2) dec_buf.simps) (auto simp: u32_div10 dec_buf.simps[of 0] intro!: exI[of _ "unat v"])
  next
    case False
    then show ?thesis using 1 by (subst (1 2) dec_buf.simps) simp
  qed
qed

lemma length_dec_buf: "unat v < 10 ^ n \<Longrightarrow> length (dec_buf v) \<le> n"
proof (induction n arbitrary: v)
  case 0
  then have "v = 0" by (simp add: unat_eq_0)
  then show ?case by (simp add: dec_buf.simps[of 0])
next
  case (Suc n)
  have "unat v div 10 < 10 ^ n" using Suc.prems by (intro less_mult_imp_div_less) simp
  then have "length (dec_buf (v div 10)) \<le> n" by (intro Suc.IH) (simp add: u32_div10)
  then show ?case by (subst dec_buf.simps) simp
qed

lemma strtoull_decimal:
  fixes d :: nat
  assumes "s = char_of (48 + d) # cs" "0 < d" "d < 10"
  shows "strtoull s = (if 2 ^ 64 \<le> parse_digits 10 s 0 then - 1 else of_nat (parse_digits 10 s 0))"
proof -
  have n: "of_char (char_of (48 + d) :: char) = 48 + d" using assms(3) by simp
  have c: "char_of (48 + d) \<noteq> CHR ''0''" "char_of (48 + d) \<noteq> CHR ''-''" "char_of (48 + d) \<noteq> CHR ''+''"
      "\<not> is_space (char_of (48 + d))"
    using assms(2,3) n by (auto simp: is_space_def char_of_eq_iff take_bit_eq_mod dest!: arg_cong[where f = "of_char :: char \<Rightarrow> nat"])
  have "\<not> is_hex_start s" using c by (auto simp: is_hex_start_def assms(1) split: list.splits)
  then show ?thesis using c by (simp add: strtoull_def assms(1) parse_magnitude_def Let_def del: parse_digits.simps)
qed

lemma dec_text_reads: "length (dec_buf v) \<le> 10 \<and> strtoull (dec_text v) = ucast v"
proof
  have "unat v < 10 ^ 10" using unat_u32_less[of v] by simp
  then show "length (dec_buf v) \<le> 10" by (rule length_dec_buf)
  show "strtoull (dec_text v) = ucast v"
  proof (cases "v = 0")
    case True
    then show ?thesis by (simp add: dec_text_def strtoull_def is_space_def parse_magnitude_def is_hex_start_def
          digit_val_def Let_def)
  next
    case False
    obtain d :: nat where d: "dec_buf v \<noteq> []" "0 < d" "d < 10" "last (dec_buf v) = char_of (48 + d)"
      using last_dec_buf[OF False] by auto
    have "rev (dec_buf v) = char_of (48 + d) # tl (rev (dec_buf v))"
      using d by (metis hd_rev list.collapse rev_is_Nil_conv)
    from strtoull_decimal[OF this d(2,3)] have "strtoull (dec_text v) = of_nat (unat v)"
      using False unat_u32_less[of v] by (simp add: dec_text_def parse_dec_buf del: of_nat_unat)
    also have "\<dots> = ucast v" by simp
    finally show ?thesis .
  qed
qed

text \<open>What reaches a sink that collects characters.\<close>

lemma seqs_collect: "seqs (map (\<lambda>c out. Some (Ret (out @ [c]))) str) out = Some (Ret (out @ str))"
  by (induction str arbitrary: out) (simp_all add: skip_fw_def)

lemma put_dec_sends: "put_dec (\<lambda>c out. Some (Ret (out @ [c]))) v out = Some (Ret (out @ dec_text v))"
  by (simp add: put_dec_def dec_text_def seqs_collect)

lemma digit_char: "n < 10 \<Longrightarrow> char_of (48 + n :: nat) \<in> set ''0123456789''"
proof -
  assume "n < 10"
  then have "n \<in> {0, 1, 2, 3, 4, 5, 6, 7, 8, 9}" by auto
  then show ?thesis by (elim insertE emptyE) (simp_all add: char_of_def bit_0)
qed

lemma dec_buf_chars: "set (dec_buf v) \<subseteq> set ''0123456789''"
proof (induction v rule: dec_buf.induct)
  case (1 v)
  show ?case
  proof (cases "v = 0")
    case False
    have "unat (v mod 10) < 10" by (simp add: unat_mod)
    then show ?thesis using 1 False digit_char[of "unat (v mod 10)"] by (subst dec_buf.simps) (simp only: if_False list.simps(15) insert_subset simp_thms)
  qed (simp add: dec_buf.simps[of 0])
qed

lemma dec_text_digits: "set (dec_text v) \<subseteq> set ''0123456789'' \<and> dec_text v \<noteq> [] \<and> length (dec_text v) \<le> 10"
  using dec_buf_chars[of v] dec_text_reads[of v] by (auto simp: dec_text_def dec_buf.simps[of v])

text \<open>
  C36. The decimal printer returns, never overruns its 12-byte buffer, and sends at least one and at most ten characters,
  all of them digits, which the C library reads back as the number (the first digit of a number other than 0 is not
  0, so the text is not taken for octal or hexadecimal).
\<close>

theorem put_dec_roundtrip:
  "\<exists>str. put_dec (\<lambda>c out. Some (Ret (out @ [c]))) v out = Some (Ret (out @ str)) \<and> strtoull str = ucast v \<and>
    set str \<subseteq> set ''0123456789'' \<and> str \<noteq> [] \<and> length str \<le> 10 \<and> length (dec_buf v) \<le> 10"
  using put_dec_sends[of v out] dec_text_reads[of v] dec_text_digits[of v] by blast

section \<open>The devices behind the bus\<close>

text \<open>
  The console block with the bytes the simulator has seen, the UartLite model and the DDR model of
  \<open>soc_tb_linux.sv\<close>, each access as one complete transaction on the clocked model. The addresses
  are decoded as \<open>soc_top.sv\<close> and \<open>axi4_router_linux.sv\<close> decode them.
\<close>

record soc_dev =
  sd_mm :: mmio
  sd_log :: "u8 list"
  sd_ul :: uartlite
  sd_ddr :: bram

definition mm_cycle :: "bus_req \<Rightarrow> soc_dev \<Rightarrow> soc_dev" where
  "mm_cycle r d =
     (let m = mmio_step True False r (sd_mm d) in
      d\<lparr>sd_mm := m,
        sd_log := sd_log d @ (if mm_console_valid m then [mm_console_byte m] else [])\<rparr>)"

definition axil_rd :: "u32 \<Rightarrow> axil_in" where
  "axil_rd a = axil_idle\<lparr>ax_arvalid := True, ax_araddr := a\<rparr>"

definition is_mmio :: "u32 \<Rightarrow> bool" where "is_mmio a \<longleftrightarrow> (fld 16 a :: u16) = 0xD058"
definition is_uart :: "u32 \<Rightarrow> bool" where "is_uart a \<longleftrightarrow> (fld 28 a :: 4 word) = 0xC"
definition is_ddr :: "u32 \<Rightarrow> bool" where "is_ddr a \<longleftrightarrow> (fld 28 a :: 4 word) = 4"

definition ul_xact :: "axil_in \<Rightarrow> soc_dev \<Rightarrow> soc_dev" where
  "ul_xact i d = d\<lparr>sd_ul := foldl uartlite_step (sd_ul d) [i, axil_idle, axil_idle]\<rparr>"

definition ddr_xact :: "axil_in \<Rightarrow> soc_dev \<Rightarrow> soc_dev" where
  "ddr_xact i d = d\<lparr>sd_ddr := foldl axil_bram_big (sd_ddr d) [i, axil_idle, axil_idle]\<rparr>"

definition soc_store :: "u32 \<Rightarrow> u32 \<Rightarrow> 4 word \<Rightarrow> soc_dev \<Rightarrow> soc_dev" where
  "soc_store a v m d =
     (if is_mmio a then mm_cycle no_req (mm_cycle (wr_req a v m) d)
      else if is_uart a then ul_xact ((axil_wr a v)\<lparr>ax_wstrb := m\<rparr>) d
      else if is_ddr a then ddr_xact ((axil_wr a v)\<lparr>ax_wstrb := m\<rparr>) d
      else d)"

definition soc_load :: "u32 \<Rightarrow> soc_dev \<Rightarrow> u32 \<times> soc_dev" where
  "soc_load a d =
     (if is_mmio a then let d' = mm_cycle (rd_req a) d in (mm_rsp_rdata (sd_mm d'), mm_cycle no_req d')
      else if is_uart a then let d' = ul_xact (axil_rd a) d in (ul_rdata (sd_ul d'), d')
      else if is_ddr a then let d' = ddr_xact (axil_rd a) d in (br_rdata (sd_ddr d'), d')
      else (0, d))"

definition soc_bus :: "soc_dev fw_bus" where
  "soc_bus = \<lparr>b_ld32 = soc_load, b_st32 = (\<lambda>a v. soc_store a v 15),
     b_st8 = (\<lambda>a b. soc_store a (ucast b) 1)\<rparr>"

lemma soc_bus_sel [simp]:
  "b_ld32 soc_bus = soc_load" "b_st32 soc_bus = (\<lambda>a v. soc_store a v 15)"
  "b_st8 soc_bus = (\<lambda>a b. soc_store a (ucast b) 1)"
  by (simp_all add: soc_bus_def)

definition uart_idle :: "uartlite \<Rightarrow> bool" where
  "uart_idle s \<longleftrightarrow> \<not> ul_aw_hs s \<and> \<not> ul_w_hs s \<and> \<not> ul_bvalid s \<and> \<not> ul_ar_hs s \<and> \<not> ul_rvalid s"

definition ddr_idle :: "bram \<Rightarrow> bool" where
  "ddr_idle s \<longleftrightarrow> \<not> br_aw_hs s \<and> \<not> br_w_hs s \<and> \<not> br_bvalid s \<and> \<not> br_ar_hs s \<and> \<not> br_rvalid s"

definition soc_idle :: "soc_dev \<Rightarrow> bool" where
  "soc_idle d \<longleftrightarrow> uart_idle (sd_ul d) \<and> ddr_idle (sd_ddr d)"

lemma decode_regs:
  "is_mmio MMIO_CONSOLE" "is_mmio MMIO_EXIT" "\<not> is_mmio UL_STAT" "\<not> is_mmio UL_TX_FIFO"
  "is_uart UL_STAT" "is_uart UL_TX_FIFO" "(fld 0 UL_TX_FIFO :: 4 word) = 4"
  by (simp_all add: is_mmio_def is_uart_def fld_def MMIO_CONSOLE_def MMIO_EXIT_def UL_STAT_def
      UL_TX_FIFO_def UARTLITE_BASE_def)

lemma uart_store:
  assumes "uart_idle s" "bit m 0"
  shows "let t = foldl uartlite_step s [(axil_wr UL_TX_FIFO v)\<lparr>ax_wstrb := m\<rparr>, axil_idle, axil_idle] in
    uart_idle t \<and> ul_printed t = ul_printed s @ [fld 0 v]"
  using assms decode_regs(7)
  by (simp add: uart_idle_def axil_wr_def axil_idle_def uartlite_step_def uartlite_write_step_def
      uartlite_read_step_def Let_def)

lemma uart_load:
  assumes "uart_idle s"
  shows "let t = foldl uartlite_step s [axil_rd a, axil_idle, axil_idle] in
    uart_idle t \<and> ul_printed t = ul_printed s \<and> ul_rdata t = 0"
  using assms
  by (simp add: uart_idle_def axil_rd_def axil_idle_def uartlite_step_def uartlite_write_step_def
      uartlite_read_step_def Let_def)

lemma ddr_store:
  assumes "ddr_idle s"
  shows "let t = foldl axil_bram_big s [axil_wr a v, axil_idle, axil_idle] in
    ddr_idle t \<and> br_mem t = (br_mem s)(bram_index a := v)"
proof -
  have w: "ax_wstrb (axil_wr a v) = 15" by (simp add: axil_wr_def)
  show ?thesis using assms
    by (simp add: ddr_idle_def axil_wr_def axil_idle_def axil_bram_big_def bram_step_def bram_write_step_def
        bram_read_step_def bram_awready_def bram_wready_def bram_arready_def Let_def)
qed

lemma ddr_load:
  assumes "ddr_idle s"
  shows "let t = foldl axil_bram_big s [axil_rd a, axil_idle, axil_idle] in
    ddr_idle t \<and> br_mem t = br_mem s \<and> br_rdata t = br_mem s (bram_index a)"
  using assms
  by (simp add: ddr_idle_def axil_rd_def axil_idle_def axil_bram_big_def bram_step_def bram_write_step_def
      bram_read_step_def bram_awready_def bram_wready_def bram_arready_def Let_def)

lemma fld_ucast_byte [simp]: "fld 0 (ucast (b :: u8) :: u32) = b"
  by (rule bit_word_eqI) (auto simp: lane_simps bit_simps)

lemma mmio_console_store:
  "let t = soc_store MMIO_CONSOLE (ucast b) 1 d in
     sd_log t = sd_log d @ [b] \<and> sd_ul t = sd_ul d \<and> sd_ddr t = sd_ddr d"
proof -
  have a: "MMIO_CONSOLE = ADDR_CONSOLE" by (simp add: MMIO_CONSOLE_def ADDR_CONSOLE_def)
  have "soc_store MMIO_CONSOLE (ucast b) 1 d = mm_cycle no_req (mm_cycle (wr_req ADDR_CONSOLE (ucast b) 1) d)"
    by (simp add: soc_store_def decode_regs a [symmetric])
  then show ?thesis by (simp add: mm_cycle_def mmio_step_def mmio_ready_def Let_def)
qed

interpretation mmio_con: console "mmio_putc soc_bus" sd_log "\<lambda>_. True" "\<lambda>d. (sd_ul d, sd_ddr d)"
  using mmio_console_store
  by unfold_locales (auto simp: mmio_putc_def Let_def)

text \<open>The polling driver needs of its bus only the status load and the word store.\<close>

lemma ul_putc_ok:
  assumes "b_ld32 B UL_STAT = soc_load UL_STAT" "b_st32 B = (\<lambda>a v. soc_store a v 15)" "soc_idle d"
  shows "\<exists>t. uartlite_putc B c d = Some (Ret t) \<and>
      ul_printed (sd_ul t) = ul_printed (sd_ul d) @ [char_byte c] \<and> soc_idle t \<and>
      (sd_mm t, sd_log t, br_mem (sd_ddr t)) = (sd_mm d, sd_log d, br_mem (sd_ddr d))"
proof -
  let ?d1 = "ul_xact (axil_rd UL_STAT) d"
  have l: "uart_idle (sd_ul ?d1)" "ul_printed (sd_ul ?d1) = ul_printed (sd_ul d)" "ul_rdata (sd_ul ?d1) = 0"
    using uart_load[of "sd_ul d" UL_STAT] assms(3) by (simp_all add: ul_xact_def soc_idle_def Let_def)
  have w: "wait_tx B d = Some ?d1"
    by (subst wait_tx.simps) (simp add: assms(1) soc_load_def decode_regs Let_def l(3))
  let ?v = "ucast (char_byte c) :: u32"
  show ?thesis
    using uart_store[OF l(1), of 15 ?v] assms(3) l(2)
    by (simp add: uartlite_putc_def w assms(2) soc_store_def decode_regs ul_xact_def soc_idle_def Let_def
        bit_iff_odd)
qed

interpretation ul_con: console "uartlite_putc soc_bus" "\<lambda>d. ul_printed (sd_ul d)" soc_idle
  "\<lambda>d. (sd_mm d, sd_log d, br_mem (sd_ddr d))"
  by unfold_locales (rule ul_putc_ok, simp_all)

end
