(* ===== verification/Demos.thy ===== *)
theory Demos
  imports Firmware
begin

text \<open>
  The demo programs \<open>sw/tests/c/hello.c\<close> and \<open>sw/tests/c/hello_axi.c\<close> on the
  drivers of \<open>Firmware\<close>, and what they print on the simulated SoC.
\<close>

definition nl :: string where "nl = [CHR 0x0A]"
definition crlf :: string where "crlf = [CHR 0x0D, CHR 0x0A]"

section \<open>hello.c and hello_axi.c\<close>

text \<open>\<open>for (i = 1; i <= 10; ++i) sum += i\<close>, and ten steps of the Fibonacci pair.\<close>

definition sum_1_10 :: u32 where "sum_1_10 = foldl (\<lambda>sum i. sum + of_nat i) 0 [1..<11]"

definition fib_10 :: u32 where
  "fib_10 = fst (foldl (\<lambda>(a, b) _. (b, a + b)) (0, 1) [0..<10])"

definition hello_main :: "'s fw_bus \<Rightarrow> 's fw" where
  "hello_main B =
     seqs [mmio_puts B (''Hello from RV32I!'' @ nl),
           mmio_puts B ''sum(1..10) = '', mmio_put_dec B sum_1_10, mmio_puts B ('' (expect 55)'' @ nl),
           mmio_puts B ''fib(10) = '', mmio_put_dec B fib_10, mmio_puts B ('' (expect 55)'' @ nl),
           mmio_puts B ''magic = '', mmio_put_hex B 0xdeadbeef, mmio_puts B nl,
           mmio_puts B (''bye'' @ nl)]"

definition hello_axi_main :: "'s fw_bus \<Rightarrow> 's fw" where
  "hello_axi_main B =
     seqs [uartlite_puts B crlf,
           uartlite_puts B (''Hello from RV32IMA over AXI UartLite!'' @ crlf),
           uartlite_puts B ''sum(1..10) = '', ul_put_dec B sum_1_10, uartlite_puts B ('' (expect 55)'' @ crlf),
           uartlite_puts B ''magic = '', ul_put_hex B 0xdeadbeef, uartlite_puts B crlf,
           uartlite_puts B (''PASS'' @ crlf),
           mmio_exit B 0]"

lemma sum_fib_55: "sum_1_10 = 55" "fib_10 = 55"
proof -
  have u: "[1..<11] = [1, 2, 3, 4, 5, 6, 7, 8, 9, 10 :: nat]"
    "[0..<10] = [0, 1, 2, 3, 4, 5, 6, 7, 8, 9 :: nat]" by (simp_all add: upt_rec)
  show "sum_1_10 = 55" unfolding sum_1_10_def u by simp
  show "fib_10 = 55" unfolding fib_10_def u by simp
qed

lemma dec_text_55: "dec_text 55 = ''55''"
  by (simp add: dec_text_def dec_buf.simps char_of_def bit_0)

lemma hex_text_magic: "hex_text 0xdeadbeef = ''0xdeadbeef''"
proof -
  have u: "rev [0..<8] = [7, 6, 5, 4, 3, 2, 1, 0 :: nat]" by (simp add: upt_rec)
  show ?thesis by (simp add: hex_text_def u hex_digit_def drop_bit_eq_div)
qed

lemma no_nul [simp]: "CHR 0x00 \<notin> set nl" "CHR 0x00 \<notin> set crlf"
  by (simp_all add: nl_def crlf_def)

text \<open>
  \<open>hello.c\<close> returns, and the console has then received exactly its eleven pieces of text, with
  the computed sum and Fibonacci number (both 55) and the magic word in hexadecimal.
\<close>

theorem hello_prints:
  "\<exists>t. hello_main soc_bus d = Some (Ret t) \<and>
     sd_log t = sd_log d @ map char_byte
       (''Hello from RV32I!'' @ nl @ ''sum(1..10) = 55 (expect 55)'' @ nl @
        ''fib(10) = 55 (expect 55)'' @ nl @ ''magic = 0xdeadbeef'' @ nl @ ''bye'' @ nl)"
proof -
  have "mmio_con.sends (concat [''Hello from RV32I!'' @ nl, ''sum(1..10) = '', ''55'', '' (expect 55)'' @ nl,
      ''fib(10) = '', ''55'', '' (expect 55)'' @ nl, ''magic = '', ''0xdeadbeef'', nl, ''bye'' @ nl])
      (hello_main soc_bus)"
    unfolding hello_main_def mmio_puts_def mmio_put_dec_def mmio_put_hex_def sum_fib_55
    using mmio_con.sends_put_dec[of 55] mmio_con.sends_put_hex[of "0xdeadbeef"]
    by (intro mmio_con.sends_seqs list.rel_intros mmio_con.sends_puts)
      (simp_all add: dec_text_55 hex_text_magic)
  then show ?thesis by (auto simp: mmio_con.sends_def)
qed

lemma mmio_exit_store:
  "let t = soc_store MMIO_EXIT code 15 d in
     mm_exit_valid (sd_mm t) \<and> mm_exit_code (sd_mm t) = code \<and> sd_ul t = sd_ul d \<and> sd_ddr t = sd_ddr d"
proof -
  have a: "MMIO_EXIT = ADDR_EXIT" by (simp add: MMIO_EXIT_def ADDR_EXIT_def)
  have "soc_store MMIO_EXIT code 15 d = mm_cycle no_req (mm_cycle (wr_req ADDR_EXIT code 15) d)"
    by (simp add: soc_store_def decode_regs a [symmetric])
  moreover have "ADDR_EXIT \<noteq> ADDR_CONSOLE" by (simp add: mmio_addrs)
  ultimately show ?thesis by (simp add: mm_cycle_def mmio_step_def mmio_ready_def Let_def)
qed

text \<open>A run that ends in \<open>mmio_exit\<close>.\<close>

definition exits_with :: "u32 \<Rightarrow> u8 list \<Rightarrow> soc_dev outcome option \<Rightarrow> bool" where
  "exits_with code sent r \<longleftrightarrow>
     (\<exists>t. r = Some (Spin t) \<and> mm_exit_valid (sd_mm t) \<and> mm_exit_code (sd_mm t) = code \<and>
        ul_printed (sd_ul t) = sent)"

lemma exits_mmio_exit: "exits_with code (ul_printed (sd_ul d)) (mmio_exit soc_bus code d)"
  using mmio_exit_store[of code d] by (simp add: exits_with_def mmio_exit_def Let_def)

lemma exits_fseq:
  assumes "ul_con.sends str f" "soc_idle d"
    and "\<And>t. soc_idle t \<Longrightarrow> ul_printed (sd_ul t) = ul_printed (sd_ul d) @ map char_byte str \<Longrightarrow>
      exits_with code sent (g t)"
  shows "exits_with code sent (fseq f g d)"
proof -
  obtain t where "f d = Some (Ret t)" "ul_printed (sd_ul t) = ul_printed (sd_ul d) @ map char_byte str" "soc_idle t"
    using assms(1,2) by (auto simp: ul_con.sends_def)
  then show ?thesis using assms(3) by simp
qed

lemma exits_after:
  assumes "ul_con.sends str (seqs fs)" "soc_idle d"
  shows "exits_with code (ul_printed (sd_ul d) @ map char_byte str) (seqs (fs @ [mmio_exit soc_bus code]) d)"
proof -
  have "seqs [mmio_exit soc_bus code] t = mmio_exit soc_bus code t" for t
    by (simp add: mmio_exit_def)
  then have "exits_with code (ul_printed (sd_ul t)) (seqs [mmio_exit soc_bus code] t)" for t
    using exits_mmio_exit[of code t] by simp
  then show ?thesis unfolding seqs_append by (metis (no_types, lifting) exits_fseq assms)
qed

text \<open>
  \<open>hello_axi.c\<close> polls, prints its whole text through the UartLite model and ends the
  simulation with exit code 0.
\<close>

theorem hello_axi_passes:
  assumes "soc_idle d"
  shows "exits_with 0
    (ul_printed (sd_ul d) @ map char_byte
       (crlf @ ''Hello from RV32IMA over AXI UartLite!'' @ crlf @ ''sum(1..10) = 55 (expect 55)'' @ crlf @
        ''magic = 0xdeadbeef'' @ crlf @ ''PASS'' @ crlf))
    (hello_axi_main soc_bus d)"
proof -
  let ?fs = "[uartlite_puts soc_bus crlf,
    uartlite_puts soc_bus (''Hello from RV32IMA over AXI UartLite!'' @ crlf),
    uartlite_puts soc_bus ''sum(1..10) = '', ul_put_dec soc_bus 55, uartlite_puts soc_bus ('' (expect 55)'' @ crlf),
    uartlite_puts soc_bus ''magic = '', ul_put_hex soc_bus 0xdeadbeef, uartlite_puts soc_bus crlf,
    uartlite_puts soc_bus (''PASS'' @ crlf)]"
  have s: "ul_con.sends (concat [crlf, ''Hello from RV32IMA over AXI UartLite!'' @ crlf, ''sum(1..10) = '', ''55'',
      '' (expect 55)'' @ crlf, ''magic = '', ''0xdeadbeef'', crlf, ''PASS'' @ crlf]) (seqs ?fs)"
    unfolding uartlite_puts_def ul_put_dec_def ul_put_hex_def
    using ul_con.sends_put_dec[of 55] ul_con.sends_put_hex[of "0xdeadbeef"]
    by (intro ul_con.sends_seqs list.rel_intros ul_con.sends_puts)
      (simp_all add: dec_text_55 hex_text_magic)
  have e: "hello_axi_main soc_bus d = seqs (?fs @ [mmio_exit soc_bus 0]) d"
    by (simp add: hello_axi_main_def sum_fib_55)
  show ?thesis using exits_after[OF s assms, of 0] unfolding e by (simp del: seqs.simps)
qed

text \<open>An idle SoC for closed instances.\<close>

definition bram_start :: "memory \<Rightarrow> bram" where
  "bram_start m = \<lparr>br_mem = m, br_aw_hs = False, br_w_hs = False, br_awaddr = 0, br_wdata = 0,
     br_wstrb = 0, br_bvalid = False, br_ar_hs = False, br_rvalid = False, br_araddr = 0, br_rdata = 0\<rparr>"

definition soc_start :: "memory \<Rightarrow> soc_dev" where
  "soc_start m = \<lparr>sd_mm = mmio_reset, sd_log = [], sd_ul = uartlite_start, sd_ddr = bram_start m\<rparr>"

lemma soc_start_idle [simp]: "soc_idle (soc_start m)" "ul_printed (sd_ul (soc_start m)) = []"
  by (simp_all add: soc_start_def soc_idle_def uart_idle_def ddr_idle_def uartlite_start_def bram_start_def)

theorem hello_axi_passes_witness:
  "exits_with 0
    (map char_byte
       (crlf @ ''Hello from RV32IMA over AXI UartLite!'' @ crlf @ ''sum(1..10) = 55 (expect 55)'' @ crlf @
        ''magic = 0xdeadbeef'' @ crlf @ ''PASS'' @ crlf))
    (hello_axi_main soc_bus (soc_start (\<lambda>_. 0)))"
  using hello_axi_passes[of "soc_start (\<lambda>_. 0)"] by (simp del: map_append)

end
