(* ===== verification/Clint.thy ===== *)
theory Clint
  imports Bus
begin

text \<open>
  \<open>rtl/soc/clint.sv\<close>: the core-local interruptor. Non-blocking assignments read the state before
  the edge; a later assignment to a part of a register overrides only that part.
\<close>

record clint =
  mtime :: u64
  mtimecmp :: u64
  msip :: bool
  cl_rsp_valid :: bool
  cl_rsp_rdata :: u32
  cl_rsp_fault :: bool

definition OFF_MSIP :: u16 where "OFF_MSIP = 0x0000"
definition OFF_TCMP_LO :: u16 where "OFF_TCMP_LO = 0x4000"
definition OFF_TCMP_HI :: u16 where "OFF_TCMP_HI = 0x4004"
definition OFF_MTIME_LO :: u16 where "OFF_MTIME_LO = 0xBFF8"
definition OFF_MTIME_HI :: u16 where "OFF_MTIME_HI = 0xBFFC"

lemmas clint_offs = OFF_MSIP_def OFF_TCMP_LO_def OFF_TCMP_HI_def OFF_MTIME_LO_def OFF_MTIME_HI_def

definition mti :: "clint \<Rightarrow> bool" where "mti s = (mtimecmp s \<le> mtime s)"
definition msi :: "clint \<Rightarrow> bool" where "msi s = msip s"

definition clint_hit :: "u16 \<Rightarrow> bool" where
  "clint_hit off = (off \<in> {OFF_MSIP, OFF_TCMP_LO, OFF_TCMP_HI, OFF_MTIME_LO, OFF_MTIME_HI})"

definition clint_reset :: clint where
  "clint_reset = \<lparr>mtime = 0, mtimecmp = 0xFFFFFFFFFFFFFFFF, msip = False, cl_rsp_valid = False,
     cl_rsp_rdata = 0, cl_rsp_fault = False\<rparr>"

text \<open>The registers after one cycle with request \<open>r\<close>.\<close>

definition clint_regs :: "bus_req \<Rightarrow> clint \<Rightarrow> clint" where
  "clint_regs r s =
     (let off = fld 0 (rq_addr r) :: u16; w = rq_valid r \<and> rq_wen r; t = mtime s + 1;
          mrg = (\<lambda>lo v. put_fld lo (apply_wmask (fld lo v) (rq_wdata r) (rq_wmask r)))
      in s\<lparr>msip := (if w \<and> off = OFF_MSIP
                    then (if bit (rq_wmask r) 0 then bit (rq_wdata r) 0 else msip s) else msip s),
           mtimecmp := (if w \<and> off = OFF_TCMP_LO then mrg 0 (mtimecmp s) (mtimecmp s)
                        else if w \<and> off = OFF_TCMP_HI then mrg 32 (mtimecmp s) (mtimecmp s)
                        else mtimecmp s),
           mtime := (if w \<and> off = OFF_MTIME_LO then mrg 0 (mtime s) t
                     else if w \<and> off = OFF_MTIME_HI then mrg 32 (mtime s) t
                     else t)\<rparr>)"

definition clint_read :: "u16 \<Rightarrow> clint \<Rightarrow> u32" where
  "clint_read off s =
     (if off = OFF_MSIP then bw (msip s)
      else if off = OFF_TCMP_LO then fld 0 (mtimecmp s)
      else if off = OFF_TCMP_HI then fld 32 (mtimecmp s)
      else if off = OFF_MTIME_LO then fld 0 (mtime s)
      else if off = OFF_MTIME_HI then fld 32 (mtime s)
      else 0)"

definition clint_step :: "bool \<Rightarrow> bus_req \<Rightarrow> clint \<Rightarrow> clint" where
  "clint_step rst r s =
     (if rst then clint_reset
      else
        let off = fld 0 (rq_addr r) :: u16; hit = clint_hit off in
        (clint_regs r s)\<lparr>cl_rsp_valid := rq_valid r,
          cl_rsp_fault := rq_valid r \<and> \<not> hit,
          cl_rsp_rdata := (if rq_valid r \<and> hit \<and> \<not> rq_wen r then clint_read off s else 0)\<rparr>)"

interpretation clint_bus: bus_slave clint_step "\<lambda>s r. True" cl_rsp_valid
  by unfold_locales (simp_all add: clint_step_def clint_reset_def Let_def)

section \<open>Halves of a 64-bit register\<close>

definition join64 :: "u32 \<Rightarrow> u32 \<Rightarrow> u64" where
  "join64 hi lo = push_bit 32 (ucast hi) OR ucast lo"

lemma bit_join64 [lane_simps]:
  "bit (join64 hi lo) n \<longleftrightarrow> (if n < 32 then bit lo n else n < 64 \<and> bit hi (n - 32))"
  by (auto simp: join64_def bit_simps dest: bit_imp_le_length)

lemma join64_fld [simp]: "join64 (fld 32 x) (fld 0 x) = (x :: u64)"
  by (rule bit_word_eqI) (auto simp: lane_simps)

lemma fld_join64 [simp]: "fld 0 (join64 hi lo) = (lo :: u32)" "fld 32 (join64 hi lo) = (hi :: u32)"
  by (auto intro!: bit_word_eqI simp: lane_simps)

lemma put_fld_join64 [simp]:
  "put_fld 0 (v :: u32) (x :: u64) = join64 (fld 32 x) v"
  "put_fld 32 (v :: u32) (x :: u64) = join64 v (fld 0 x)"
  by (auto intro!: bit_word_eqI simp: lane_simps)

lemma unat_join64: "unat (join64 hi lo) = unat hi * 2 ^ 32 + unat lo"
proof -
  have "push_bit 32 (ucast hi :: u64) AND ucast lo = 0"
    by (rule bit_word_eqI) (auto simp: bit_simps dest: bit_imp_le_length)
  then have "join64 hi lo = push_bit 32 (ucast hi) + ucast lo"
    using word_plus_and_or[of "push_bit 32 (ucast hi :: u64)" "ucast lo"] by (simp add: join64_def)
  moreover have "unat (push_bit 32 (ucast hi :: u64)) = unat hi * 2 ^ 32"
    using unat_u32_less[of hi]
    by (simp add: push_bit_eq_mult unat_word_ariths unsigned_ucast_eq take_bit_eq_mod)
  ultimately show ?thesis
    using unat_u32_less[of hi] unat_u32_less[of lo]
    by (simp add: unat_word_ariths unsigned_ucast_eq take_bit_eq_mod)
qed

section \<open>Register accesses\<close>

lemma clint_offs_distinct [simp]:
  "OFF_MSIP \<noteq> OFF_TCMP_LO" "OFF_MSIP \<noteq> OFF_TCMP_HI" "OFF_MSIP \<noteq> OFF_MTIME_LO" "OFF_MSIP \<noteq> OFF_MTIME_HI"
  "OFF_TCMP_LO \<noteq> OFF_MSIP" "OFF_TCMP_LO \<noteq> OFF_TCMP_HI" "OFF_TCMP_LO \<noteq> OFF_MTIME_LO" "OFF_TCMP_LO \<noteq> OFF_MTIME_HI"
  "OFF_TCMP_HI \<noteq> OFF_MSIP" "OFF_TCMP_HI \<noteq> OFF_TCMP_LO" "OFF_TCMP_HI \<noteq> OFF_MTIME_LO" "OFF_TCMP_HI \<noteq> OFF_MTIME_HI"
  "OFF_MTIME_LO \<noteq> OFF_MSIP" "OFF_MTIME_LO \<noteq> OFF_TCMP_LO" "OFF_MTIME_LO \<noteq> OFF_TCMP_HI" "OFF_MTIME_LO \<noteq> OFF_MTIME_HI"
  "OFF_MTIME_HI \<noteq> OFF_MSIP" "OFF_MTIME_HI \<noteq> OFF_TCMP_LO" "OFF_MTIME_HI \<noteq> OFF_TCMP_HI" "OFF_MTIME_HI \<noteq> OFF_MTIME_LO"
  by (simp_all add: clint_offs)

definition clint_writes :: "bus_req \<Rightarrow> bool" where
  "clint_writes r \<longleftrightarrow> rq_valid r \<and> rq_wen r"

lemma clint_step_regs:
  "mtime (clint_step False r s) = mtime (clint_regs r s)"
  "mtimecmp (clint_step False r s) = mtimecmp (clint_regs r s)"
  "msip (clint_step False r s) = msip (clint_regs r s)"
  by (simp_all add: clint_step_def Let_def)

lemma clint_no_write:
  assumes "\<not> clint_writes r"
  shows "mtime (clint_step False r s) = mtime s + 1" "mtimecmp (clint_step False r s) = mtimecmp s"
    "msip (clint_step False r s) = msip s"
  using assms by (auto simp: clint_step_regs clint_regs_def clint_writes_def Let_def)

text \<open>
  A write to a register half merges exactly the enabled byte lanes into it; every other half
  keeps its value, the timer halves apart, which tick. A read answers in the next cycle with the
  register as it was in the cycle of the request, and an offset without a register faults.
\<close>

theorem clint_register_access:
  "clint_read off' (clint_step False (wr_req a v m) s) =
     (if off' = fld 0 a \<and> clint_hit off'
      then (if off' = OFF_MSIP then bw (if bit m 0 then bit v 0 else msip s)
            else apply_wmask (clint_read off' s) v m)
      else clint_read off' (s\<lparr>mtime := mtime s + 1\<rparr>)) \<and>
   cl_rsp_rdata (clint_step False (rd_req a) s) = clint_read (fld 0 a) s \<and>
   cl_rsp_fault (clint_step False r s) = (rq_valid r \<and> \<not> clint_hit (fld 0 (rq_addr r)))"
proof (intro conjI)
  show "cl_rsp_rdata (clint_step False (rd_req a) s) = clint_read (fld 0 a) s"
    by (auto simp: clint_step_def Let_def clint_hit_def clint_read_def)
  show "cl_rsp_fault (clint_step False r s) = (rq_valid r \<and> \<not> clint_hit (fld 0 (rq_addr r)))"
    by (simp add: clint_step_def Let_def)
  show "clint_read off' (clint_step False (wr_req a v m) s) =
     (if off' = fld 0 a \<and> clint_hit off'
      then (if off' = OFF_MSIP then bw (if bit m 0 then bit v 0 else msip s)
            else apply_wmask (clint_read off' s) v m)
      else clint_read off' (s\<lparr>mtime := mtime s + 1\<rparr>))"
    by (auto simp: clint_read_def clint_step_regs clint_regs_def Let_def clint_hit_def)
qed

section \<open>The timer\<close>

fun clint_run :: "bus_req list \<Rightarrow> clint \<Rightarrow> clint" where
  "clint_run [] s = s"
| "clint_run (r # rs) s = clint_run rs (clint_step False r s)"

lemma clint_run_append [simp]: "clint_run (xs @ ys) s = clint_run ys (clint_run xs s)"
  by (induction xs arbitrary: s) simp_all

lemma clint_quiet_run:
  assumes "\<forall>r \<in> set rs. \<not> clint_writes r"
  shows "mtime (clint_run rs s) = mtime s + of_nat (length rs)" "mtimecmp (clint_run rs s) = mtimecmp s"
    "msip (clint_run rs s) = msip s"
  using assms by (induction rs arbitrary: s) (simp_all add: clint_no_write add.assoc)

lemma unat_add_small64:
  fixes w :: u64
  assumes "unat w + b < 2 ^ 64"
  shows "unat (w + of_nat b) = unat w + b"
  using assms by (simp add: unat_word_ariths unat_of_nat)

text \<open>
  Without register writes the timer interrupt rises exactly when the cycles elapsed reach the
  distance from \<open>mtime\<close> to \<open>mtimecmp\<close>, and stays until the counter wraps.
\<close>

theorem clint_fires_on_time:
  assumes "\<forall>r \<in> set rs. \<not> clint_writes r" "unat (mtime s) + length rs < 2 ^ 64"
  shows "mti (clint_run rs s) \<longleftrightarrow> unat (mtimecmp s) \<le> unat (mtime s) + length rs"
  using assms unat_add_small64[OF assms(2)] by (simp add: mti_def clint_quiet_run word_le_nat_alt)

theorem clint_fires_on_time_witness:
  "mti (clint_run [no_req, no_req] (clint_reset\<lparr>mtime := 5, mtimecmp := 7\<rparr>)) \<and>
   \<not> mti (clint_run [no_req] (clint_reset\<lparr>mtime := 5, mtimecmp := 7\<rparr>))"
  using clint_fires_on_time[of "[no_req, no_req]" "clint_reset\<lparr>mtime := 5, mtimecmp := 7\<rparr>"]
    clint_fires_on_time[of "[no_req]" "clint_reset\<lparr>mtime := 5, mtimecmp := 7\<rparr>"]
  by (simp add: clint_writes_def)

section \<open>Re-arming the timer in three writes\<close>

lemma clint_bus_run_append:
  "clint_bus.run (xs @ ys) s = clint_bus.run xs s @ clint_bus.run ys (clint_run xs s)"
  by (induction xs arbitrary: s) simp_all

lemma quiet_run_states:
  assumes "\<forall>r \<in> set rs. \<not> clint_writes r" "s' \<in> set (clint_bus.run rs s)"
  shows "mtimecmp s' = mtimecmp s \<and> (\<exists>i \<le> length rs. mtime s' = mtime s + of_nat i)"
  using assms
proof (induction rs arbitrary: s)
  case (Cons r rs)
  let ?s = "clint_step False r s"
  have r: "mtimecmp ?s = mtimecmp s" "mtime ?s = mtime s + 1" using Cons.prems(1) by (simp_all add: clint_no_write)
  show ?case
  proof (cases "s' = ?s")
    case True
    then show ?thesis using r by (auto intro!: exI[of _ 1])
  next
    case False
    then obtain i where "i \<le> length rs" "mtime s' = mtime s + 1 + of_nat i" "mtimecmp s' = mtimecmp s"
      using Cons.IH[of ?s] Cons.prems r by auto
    then show ?thesis by (auto intro!: exI[of _ "Suc i"] simp: add.assoc)
  qed
qed simp

text \<open>While the high half of \<open>mtimecmp\<close> is all ones, the interrupt cannot be pending.\<close>

lemma high_half_masks:
  assumes "fld 32 (mtimecmp s) = (0xFFFFFFFF :: u32)" "unat (mtime s) < 0xFFFFFFFF00000000"
  shows "\<not> mti s"
proof -
  have "unat (mtimecmp s) = unat (join64 0xFFFFFFFF (fld 0 (mtimecmp s)))"
    using join64_fld[of "mtimecmp s"] assms(1) by simp
  then have "0xFFFFFFFF00000000 \<le> unat (mtimecmp s)" by (simp add: unat_join64)
  then show ?thesis using assms(2) by (simp add: mti_def word_le_nat_alt)
qed

lemma cmp_write:
  assumes "fld 0 a = OFF_TCMP_HI \<or> fld 0 a = OFF_TCMP_LO"
  shows "mtime (clint_step False (wr_req a v 15) s) = mtime s + 1"
    and "mtimecmp (clint_step False (wr_req a v 15) s) =
      (if fld 0 a = OFF_TCMP_HI then join64 v (fld 0 (mtimecmp s)) else join64 (fld 32 (mtimecmp s)) v)"
  using assms by (auto simp: clint_step_regs clint_regs_def Let_def)

lemma arm_states:
  assumes "fld 0 ah = OFF_TCMP_HI" "fld 0 al = OFF_TCMP_LO"
    and "filter clint_writes rs = [wr_req al lo 15, wr_req ah hi 15]"
    and "unat (mtime s) + Suc (length rs) < 0xFFFFFFFF00000000"
    and "s' \<in> set (clint_bus.run (wr_req ah 0xFFFFFFFF 15 # rs) s)"
  shows "mti s' \<Longrightarrow> join64 hi lo \<le> mtime s'"
proof -
  assume fire: "mti s'"
  obtain g1 rs1 where 1: "rs = g1 @ wr_req al lo 15 # rs1" "\<forall>u \<in> set g1. \<not> clint_writes u"
    "filter clint_writes rs1 = [wr_req ah hi 15]"
    using filter_eq_ConsD[OF assms(3)] by auto
  obtain g2 g3 where 2: "rs1 = g2 @ wr_req ah hi 15 # g3" "\<forall>u \<in> set g2. \<not> clint_writes u"
    "filter clint_writes g3 = []"
    using filter_eq_ConsD[OF 1(3)] by auto
  have g3: "\<forall>u \<in> set g3. \<not> clint_writes u" using 2(3) by (simp add: filter_empty_conv)
  let ?s1 = "clint_step False (wr_req ah 0xFFFFFFFF 15) s"
  let ?s2 = "clint_step False (wr_req al lo 15) (clint_run g1 ?s1)"
  let ?s3 = "clint_step False (wr_req ah hi 15) (clint_run g2 ?s2)"
  have len: "length rs = length g1 + length g2 + length g3 + 2" by (simp add: 1(1) 2(1))
  have s1: "mtime ?s1 = mtime s + 1" "fld 32 (mtimecmp ?s1) = (0xFFFFFFFF :: u32)"
    using cmp_write[of ah] assms(1) by simp_all
  have s2: "mtime ?s2 = mtime s + of_nat (length g1 + 2)" "fld 32 (mtimecmp ?s2) = (0xFFFFFFFF :: u32)"
    "fld 0 (mtimecmp ?s2) = lo"
    using cmp_write[of al] assms(2) s1 1(2) by (simp_all add: clint_quiet_run)
  have s3: "mtime ?s3 = mtime s + of_nat (length g1 + length g2 + 3)" "mtimecmp ?s3 = join64 hi lo"
    using cmp_write[of ah] assms(1) s2 2(2) by (simp_all add: clint_quiet_run)
  have early: "\<not> mti t" if "fld 32 (mtimecmp t) = (0xFFFFFFFF :: u32)" "mtime t = mtime s + of_nat i" "i \<le> Suc (length rs)" for t i
    using that assms(4) unat_add_small64[of "mtime s" i] by (intro high_half_masks) simp_all
  have quiet1: "\<not> mti t" if "t = ?s1 \<or> t \<in> set (clint_bus.run g1 ?s1)" for t
  proof -
    have "mtimecmp t = mtimecmp ?s1 \<and> (\<exists>i \<le> length g1. mtime t = mtime s + 1 + of_nat i)"
      using that quiet_run_states[OF 1(2)] s1 by fastforce
    then obtain i where "i \<le> length g1" "mtime t = mtime s + of_nat (Suc i)" "mtimecmp t = mtimecmp ?s1"
      by (auto simp: add.assoc)
    then show ?thesis using early[of t "Suc i"] s1 len by simp
  qed
  have quiet2: "\<not> mti t" if "t = ?s2 \<or> t \<in> set (clint_bus.run g2 ?s2)" for t
  proof -
    have "mtimecmp t = mtimecmp ?s2 \<and> (\<exists>i \<le> length g2. mtime t = mtime ?s2 + of_nat i)"
      using that quiet_run_states[OF 2(2)] by fastforce
    then obtain i where "i \<le> length g2" "mtime t = mtime s + of_nat (length g1 + 2 + i)" "mtimecmp t = mtimecmp ?s2"
      by (auto simp: s2(1) add.assoc simp del: of_nat_add) (auto simp: add.assoc)
    then show ?thesis using early[of t "length g1 + 2 + i"] s2 len by simp
  qed
  have last: "mtimecmp t = join64 hi lo" if "t = ?s3 \<or> t \<in> set (clint_bus.run g3 ?s3)" for t
    using that quiet_run_states[OF g3] s3 by auto
  have "set (clint_bus.run (wr_req ah 0xFFFFFFFF 15 # rs) s) =
      {?s1} \<union> set (clint_bus.run g1 ?s1) \<union> {?s2} \<union> set (clint_bus.run g2 ?s2) \<union> {?s3} \<union>
      set (clint_bus.run g3 ?s3)"
    by (auto simp: 1(1) 2(1) clint_bus_run_append)
  then have "s' = ?s3 \<or> s' \<in> set (clint_bus.run g3 ?s3)"
    using assms(5) quiet1 quiet2 fire by blast
  then show ?thesis using last[of s'] fire by (simp add: mti_def)
qed

end
