(* ===== verification/Timer_Fw.thy ===== *)
theory Timer_Fw
  imports Firmware Clint
begin

text \<open>
  The timer code of \<open>sw/tests/c/irq_timer.c\<close> and \<open>sw/tests/c/irq_wfi.c\<close> (\<open>read_mtime\<close>,
  \<open>arm_mtimecmp\<close>, the trap handler), run against the CLINT model with arbitrary delays between
  its accesses.
\<close>

definition CLINT_MTIMECMP_LO :: u32 where "CLINT_MTIMECMP_LO = 0x02000000 + 0x4000"
definition CLINT_MTIMECMP_HI :: u32 where "CLINT_MTIMECMP_HI = 0x02000000 + 0x4004"
definition CLINT_MTIME_LO :: u32 where "CLINT_MTIME_LO = 0x02000000 + 0xBFF8"
definition CLINT_MTIME_HI :: u32 where "CLINT_MTIME_HI = 0x02000000 + 0xBFFC"
definition TICK_PERIOD :: u64 where "TICK_PERIOD = 200"

partial_function (option) read_mtime :: "'s fw_bus \<Rightarrow> 's \<Rightarrow> (u64 \<times> 's) option" where
  "read_mtime B s =
     (case b_ld32 B CLINT_MTIME_HI s of (hi1, s1) \<Rightarrow>
      case b_ld32 B CLINT_MTIME_LO s1 of (lo, s2) \<Rightarrow>
      case b_ld32 B CLINT_MTIME_HI s2 of (hi2, s3) \<Rightarrow>
        if hi1 \<noteq> hi2 then read_mtime B s3
        else Some (push_bit 32 (ucast hi1) OR ucast lo, s3))"

definition arm_mtimecmp :: "'s fw_bus \<Rightarrow> u64 \<Rightarrow> 's \<Rightarrow> 's" where
  "arm_mtimecmp B when s =
     (let s = b_st32 B CLINT_MTIMECMP_HI 0xFFFFFFFF s;
          s = b_st32 B CLINT_MTIMECMP_LO (ucast (when AND 0xFFFFFFFF)) s
      in b_st32 B CLINT_MTIMECMP_HI (ucast (drop_bit 32 when)) s)"

text \<open>The handler's globals: the number of interrupts and the last cause.\<close>

definition trap_handler :: "'s fw_bus \<Rightarrow> u32 \<Rightarrow> (u32 \<times> u32) \<times> 's \<Rightarrow> ((u32 \<times> u32) \<times> 's) option" where
  "trap_handler B mcause = (\<lambda>((irq_count, last_cause), s).
     map_option (\<lambda>(now, t). ((irq_count + 1, mcause), arm_mtimecmp B (now + TICK_PERIOD) t)) (read_mtime B s))"

section \<open>Arming never fires early\<close>

text \<open>A bus that records the stores, as requests to the CLINT.\<close>

definition log_bus :: "bus_req list fw_bus" where
  "log_bus = \<lparr>b_ld32 = (\<lambda>a l. (0, l)), b_st32 = (\<lambda>a v l. l @ [wr_req a v 15]),
     b_st8 = (\<lambda>a b l. l @ [wr_req a (ucast b) 1])\<rparr>"

lemma arm_log:
  "arm_mtimecmp log_bus when [] =
     [wr_req CLINT_MTIMECMP_HI 0xFFFFFFFF 15, wr_req CLINT_MTIMECMP_LO (fld 0 when) 15,
      wr_req CLINT_MTIMECMP_HI (fld 32 when) 15]"
proof -
  have m: "(0xFFFFFFFF :: u64) = mask 32" by (simp add: mask_eq_exp_minus_1)
  have "(ucast (when AND 0xFFFFFFFF) :: u32) = fld 0 when"
    unfolding m by (rule bit_word_eqI) (auto simp: lane_simps bit_simps)
  then show ?thesis by (simp add: arm_mtimecmp_def log_bus_def Let_def fld_def)
qed

lemma timer_offs:
  "fld 0 CLINT_MTIMECMP_HI = OFF_TCMP_HI" "fld 0 CLINT_MTIMECMP_LO = OFF_TCMP_LO"
  "fld 0 CLINT_MTIME_HI = OFF_MTIME_HI" "fld 0 CLINT_MTIME_LO = OFF_MTIME_LO"
  by (simp_all add: fld_def clint_offs CLINT_MTIMECMP_HI_def CLINT_MTIMECMP_LO_def CLINT_MTIME_HI_def
      CLINT_MTIME_LO_def)

text \<open>
  C40. While \<open>arm_mtimecmp\<close> sets a new deadline, with any reads and idle cycles between and after its
  three stores, the timer interrupt is pending only in cycles at or after that deadline: neither
  the old deadline nor a half-written one fires.
\<close>

theorem arm_mtimecmp_no_early_fire:
  assumes "filter clint_writes (r # rs) = arm_mtimecmp log_bus when []" "clint_writes r"
    and "unat (mtime s) + Suc (length rs) < 0xFFFFFFFF00000000"
    and "s' \<in> set (clint_bus.run (r # rs) s)" "mti s'"
  shows "when \<le> mtime s'"
proof -
  have r: "r = wr_req CLINT_MTIMECMP_HI 0xFFFFFFFF 15"
    and rs: "filter clint_writes rs = [wr_req CLINT_MTIMECMP_LO (fld 0 when) 15, wr_req CLINT_MTIMECMP_HI (fld 32 when) 15]"
    using assms(1,2) by (simp_all add: arm_log)
  have "join64 (fld 32 when) (fld 0 when) \<le> mtime s'"
    using assms(4,5) unfolding r by (intro arm_states[OF timer_offs(1,2) rs assms(3)])
  then show ?thesis by simp
qed

theorem arm_mtimecmp_no_early_fire_witness:
  "400 \<le> mtime (last (clint_bus.run (arm_mtimecmp log_bus 400 [] @ replicate 400 no_req) clint_reset))"
proof -
  let ?rs = "tl (arm_mtimecmp log_bus 400 []) @ replicate 400 no_req"
  let ?r = "wr_req CLINT_MTIMECMP_HI 0xFFFFFFFF 15"
  let ?s = "last (clint_bus.run (?r # ?rs) clint_reset)"
  have all: "arm_mtimecmp log_bus 400 [] @ replicate 400 no_req = ?r # ?rs" by (simp add: arm_log)
  have lastr: "clint_bus.run xs s \<noteq> [] \<Longrightarrow> last (clint_bus.run xs s) = clint_run xs s" for xs s
  proof (induction xs arbitrary: s)
    case (Cons x xs)
    then show ?case by (cases xs) auto
  qed simp
  have regs: "clint_run (?r # ?rs) clint_reset = clint_run (replicate 400 no_req)
      (clint_step False (wr_req CLINT_MTIMECMP_HI (fld 32 (400 :: u64)) 15)
        (clint_step False (wr_req CLINT_MTIMECMP_LO (fld 0 (400 :: u64)) 15) (clint_step False ?r clint_reset)))"
    by (simp add: arm_log)
  have c: "mtimecmp (clint_run (?r # ?rs) clint_reset) = 400" "mtime (clint_run (?r # ?rs) clint_reset) = 403"
    unfolding regs by (simp_all add: clint_quiet_run clint_writes_def cmp_write timer_offs clint_reset_def)
  have "mti ?s" using c lastr[of "?r # ?rs" clint_reset] by (simp add: mti_def)
  moreover have "?s \<in> set (clint_bus.run (?r # ?rs) clint_reset)" by (intro last_in_set) simp
  moreover have "filter clint_writes (?r # ?rs) = arm_mtimecmp log_bus 400 []"
    by (simp add: arm_log clint_writes_def)
  ultimately show ?thesis
    unfolding all by (intro arm_mtimecmp_no_early_fire[of ?r ?rs])
      (simp_all add: clint_writes_def arm_log clint_reset_def)
qed

section \<open>Reading the 64-bit time in two halves\<close>

text \<open>A bus on which the n-th access reaches the CLINT after \<open>gap n\<close> further cycles.\<close>

record gapped =
  gp_clint :: clint
  gp_gap :: "nat \<Rightarrow> nat"
  gp_n :: nat

definition gap_access :: "bus_req \<Rightarrow> gapped \<Rightarrow> gapped" where
  "gap_access r g =
     g\<lparr>gp_clint := clint_step False r (clint_run (replicate (gp_gap g (gp_n g)) no_req) (gp_clint g)),
       gp_n := gp_n g + 1\<rparr>"

definition gap_bus :: "gapped fw_bus" where
  "gap_bus = \<lparr>b_ld32 = (\<lambda>a g. let g' = gap_access (rd_req a) g in (cl_rsp_rdata (gp_clint g'), g')),
     b_st32 = (\<lambda>a v. gap_access (wr_req a v 15)), b_st8 = (\<lambda>a b. gap_access (wr_req a (ucast b) 1))\<rparr>"

definition now :: "gapped \<Rightarrow> u64" where "now g = mtime (gp_clint g)"

lemma gap_read:
  assumes "fld 0 a = OFF_MTIME_HI \<or> fld 0 a = OFF_MTIME_LO"
  obtains g' where "b_ld32 gap_bus a g = ((if fld 0 a = OFF_MTIME_HI then fld 32 (now g + of_nat (gp_gap g (gp_n g)))
      else fld 0 (now g + of_nat (gp_gap g (gp_n g)))), g')"
    "now g' = now g + of_nat (Suc (gp_gap g (gp_n g)))" "gp_gap g' = gp_gap g" "gp_n g' = gp_n g + 1"
proof
  let ?k = "gp_gap g (gp_n g)"
  let ?c = "clint_run (replicate ?k no_req) (gp_clint g)"
  have q: "mtime ?c = now g + of_nat ?k" by (simp add: clint_quiet_run clint_writes_def now_def)
  have h: "cl_rsp_rdata (clint_step False (rd_req a) ?c) =
      (if fld 0 a = OFF_MTIME_HI then fld 32 (mtime ?c) else fld 0 (mtime ?c))"
    using assms by (auto simp: clint_step_def Let_def clint_hit_def clint_read_def)
  show "b_ld32 gap_bus a g = ((if fld 0 a = OFF_MTIME_HI then fld 32 (now g + of_nat ?k)
      else fld 0 (now g + of_nat ?k)), gap_access (rd_req a) g)"
    using h q by (simp add: gap_bus_def gap_access_def Let_def)
  show "now (gap_access (rd_req a) g) = now g + of_nat (Suc ?k)" "gp_gap (gap_access (rd_req a) g) = gp_gap g"
    "gp_n (gap_access (rd_req a) g) = gp_n g + 1"
    using q by (simp_all add: now_def gap_access_def clint_no_write clint_writes_def)
qed

lemma unat_halves: "unat x = unat (fld 32 x :: u32) * 2 ^ 32 + unat (fld 0 x :: u32)" for x :: u64
  using unat_join64[of "fld 32 x" "fld 0 x"] by simp

text \<open>Adding less than \<open>2^32\<close> keeps the high half exactly when the low half does not overflow.\<close>

lemma high_half_same:
  fixes x :: u64
  assumes "k < 2 ^ 32"
  shows "(fld 32 (x + of_nat k) :: u32) = fld 32 x \<longleftrightarrow> unat (fld 0 x :: u32) + k < 2 ^ 32"
proof -
  let ?h = "unat (fld 32 x :: u32)" and ?l = "unat (fld 0 x :: u32)"
  have l: "?l < 2 ^ 32" "?h < 2 ^ 32" using unat_u32_less by (simp_all add: unat_u32_less)
  have d: "m mod 18446744073709551616 div 4294967296 = m div 4294967296 mod 4294967296" for m :: nat
    using mod_mult2_eq[of m 4294967296 4294967296] by simp
  have "unat (fld 32 (x + of_nat k) :: u32) = (?h * 4294967296 + ?l + k) div 4294967296 mod 4294967296"
    using assms unat_halves[of x] by (simp add: unat_fld unat_word_ariths unat_of_nat d)
  also have "(?h * 4294967296 + ?l + k) div 4294967296 = ?h + (?l + k) div 4294967296"
    by (simp add: add.assoc)
  also have "(?l + k) div 4294967296 = (if ?l + k < 4294967296 then 0 else 1)"
    using assms l by (auto intro!: div_nat_eqI)
  finally show ?thesis
    using l by (auto simp: word_unat_eq_iff mod_Suc split: if_splits)
qed

lemma low_half_add:
  fixes x :: u64
  shows "unat (fld 0 (x + of_nat k) :: u32) = (unat (fld 0 x :: u32) + k) mod 2 ^ 32"
proof -
  have "unat (x + of_nat k) mod 4294967296 = (unat x + k) mod 4294967296"
    by (simp add: unat_word_ariths unat_of_nat mod_mod_cancel mod_add_right_eq)
  then show ?thesis by (simp add: unat_fld mod_add_left_eq)
qed

text \<open>One turn of the loop.\<close>

lemma read_mtime_turn:
  assumes "x = now g + of_nat (gp_gap g (gp_n g))" "k1 = gp_gap g (gp_n g + 1)" "k2 = gp_gap g (gp_n g + 2)"
  obtains g' where
    "read_mtime gap_bus g =
       (if fld 32 x \<noteq> (fld 32 (x + of_nat (k1 + k2 + 2)) :: u32) then read_mtime gap_bus g'
        else Some (join64 (fld 32 x) (fld 0 (x + of_nat (k1 + 1))), g'))"
    "now g' = x + of_nat (k1 + k2 + 3)" "gp_gap g' = gp_gap g" "gp_n g' = gp_n g + 3"
proof -
  have hi: "fld 0 CLINT_MTIME_HI = OFF_MTIME_HI \<or> fld 0 CLINT_MTIME_HI = OFF_MTIME_LO"
    and lo: "fld 0 CLINT_MTIME_LO = OFF_MTIME_HI \<or> fld 0 CLINT_MTIME_LO = OFF_MTIME_LO"
    by (simp_all add: timer_offs)
  have k1: "gp_gap g (Suc (gp_n g)) = k1" and k2: "gp_gap g (Suc (Suc (gp_n g))) = k2"
    using assms by simp_all
  obtain g1 where g1: "b_ld32 gap_bus CLINT_MTIME_HI g = (fld 32 x, g1)"
    "now g1 = x + 1" "gp_gap g1 = gp_gap g" "gp_n g1 = Suc (gp_n g)"
    by (rule gap_read[OF hi, of g]) (simp add: timer_offs assms(1))
  obtain g2 where g2: "b_ld32 gap_bus CLINT_MTIME_LO g1 = (fld 0 (x + of_nat (k1 + 1)), g2)"
    "now g2 = x + of_nat (k1 + 2)" "gp_gap g2 = gp_gap g" "gp_n g2 = Suc (Suc (gp_n g))"
    by (rule gap_read[OF lo, of g1]) (simp add: timer_offs g1 k1 add_ac)
  obtain g3 where g3: "b_ld32 gap_bus CLINT_MTIME_HI g2 = (fld 32 (x + of_nat (k1 + k2 + 2)), g3)"
    "now g3 = x + of_nat (k1 + k2 + 3)" "gp_gap g3 = gp_gap g" "gp_n g3 = gp_n g + 3"
    by (rule gap_read[OF hi, of g2]) (simp add: timer_offs g2 k2 add_ac)
  have "read_mtime gap_bus g =
       (if fld 32 x \<noteq> (fld 32 (x + of_nat (k1 + k2 + 2)) :: u32) then read_mtime gap_bus g3
        else Some (join64 (fld 32 x) (fld 0 (x + of_nat (k1 + 1))), g3))"
    by (subst read_mtime.simps) (simp only: g1 g2 g3 prod.case join64_def)
  then show thesis using that g3(2-4) by blast
qed

text \<open>A turn that keeps the high half returns the time of its middle read.\<close>

lemma mid_read:
  fixes x :: u64
  assumes "fld 32 x = (fld 32 (x + of_nat k) :: u32)" "m \<le> k" "k < 2 ^ 32"
  shows "join64 (fld 32 x) (fld 0 (x + of_nat m)) = x + of_nat m"
proof -
  have "unat (fld 0 x :: u32) + k < 2 ^ 32" using high_half_same[OF assms(3), of x] assms(1) by simp
  then have "(fld 32 (x + of_nat m) :: u32) = fld 32 x"
    using high_half_same[of m x] assms(2,3) by simp
  then show ?thesis by (metis join64_fld)
qed

text \<open>
  C39. \<open>read_mtime\<close> returns after one turn of its loop or two, of three accesses each, however its accesses are
  delayed (below \<open>2^29\<close> cycles each), and the value is the exact 64-bit time of a moment between its start
  and its end, even when the low half overflows between the reads. A second turn is made only if the high half of
  the time changed during the first.
\<close>

theorem read_mtime_exact:
  assumes "\<And>n. gp_gap g n < 2 ^ 29"
  shows "\<exists>t g' k e. read_mtime gap_bus g = Some (t, g') \<and> t = now g + of_nat k \<and>
    now g' = now g + of_nat e \<and> k < e \<and> e < 2 ^ 32 \<and>
    (gp_n g' = gp_n g + 3 \<or> gp_n g' = gp_n g + 6 \<and> (fld 32 (now g') :: u32) \<noteq> fld 32 (now g))"
proof -
  define a where "a i = gp_gap g (gp_n g + i)" for i
  have a: "a i < 536870912" for i using assms[of "gp_n g + i"] by (simp add: a_def)
  define x where "x = now g + of_nat (a 0)"
  obtain g1 where g1: "read_mtime gap_bus g =
       (if fld 32 x \<noteq> (fld 32 (x + of_nat (a 1 + a 2 + 2)) :: u32) then read_mtime gap_bus g1
        else Some (join64 (fld 32 x) (fld 0 (x + of_nat (a 1 + 1))), g1))"
    "now g1 = x + of_nat (a 1 + a 2 + 3)" "gp_gap g1 = gp_gap g" "gp_n g1 = gp_n g + 3"
    by (rule read_mtime_turn[of x g "a 1" "a 2"]) (simp_all add: a_def x_def)
  show ?thesis
  proof (cases "fld 32 x = (fld 32 (x + of_nat (a 1 + a 2 + 2)) :: u32)")
    case True
    have "join64 (fld 32 x) (fld 0 (x + of_nat (a 1 + 1))) = x + of_nat (a 1 + 1)"
      using a[of 1] a[of 2] by (intro mid_read[OF True]) simp_all
    then have "read_mtime gap_bus g = Some (now g + of_nat (a 0 + a 1 + 1), g1)"
      using g1(1) True by (simp add: x_def add.assoc)
    moreover have "now g1 = now g + of_nat (a 0 + a 1 + a 2 + 3)" using g1(2) by (simp add: x_def add.assoc)
    moreover have "a 0 + a 1 + a 2 + 3 < 2 ^ 32" using a[of 0] a[of 1] a[of 2] by simp
    moreover have "a 0 + a 1 + 1 < a 0 + a 1 + a 2 + 3" by simp
    ultimately show ?thesis using g1(4) by blast
  next
    case False
    define d where "d = a 1 + a 2 + 3 + a 3"
    define y where "y = x + of_nat d"
    have e1: "y = now g1 + of_nat (gp_gap g1 (gp_n g1))" and e2: "a 4 = gp_gap g1 (gp_n g1 + 1)"
      and e3: "a 5 = gp_gap g1 (gp_n g1 + 2)"
      by (simp_all add: g1 a_def y_def d_def add_ac)
    obtain g2 where g2: "read_mtime gap_bus g1 =
         (if fld 32 y \<noteq> (fld 32 (y + of_nat (a 4 + a 5 + 2)) :: u32) then read_mtime gap_bus g2
          else Some (join64 (fld 32 y) (fld 0 (y + of_nat (a 4 + 1))), g2))"
      "now g2 = y + of_nat (a 4 + a 5 + 3)" "gp_n g2 = gp_n g1 + 3"
      by (rule read_mtime_turn[OF e1 e2 e3])
    have over: "4294967296 \<le> unat (fld 0 x :: u32) + (a 1 + a 2 + 2)"
      using False high_half_same[of "a 1 + a 2 + 2" x] a[of 1] a[of 2] by (auto simp: not_less)
    have "unat (fld 0 y :: u32) = (unat (fld 0 x :: u32) + d) mod 2 ^ 32"
      unfolding y_def by (rule low_half_add)
    also have "\<dots> = unat (fld 0 x :: u32) + d - 4294967296"
      using over a[of 1] a[of 2] a[of 3] unat_u32_less[of "fld 0 x"] by (simp add: mod_if d_def)
    finally have "unat (fld 0 y :: u32) + (a 4 + a 5 + 2) < 2 ^ 32"
      using a[of 1] a[of 2] a[of 3] a[of 4] a[of 5] unat_u32_less[of "fld 0 x"] over by (simp add: d_def)
    then have same: "fld 32 y = (fld 32 (y + of_nat (a 4 + a 5 + 2)) :: u32)"
      using high_half_same[of "a 4 + a 5 + 2" y] a[of 4] a[of 5] by auto
    have "join64 (fld 32 y) (fld 0 (y + of_nat (a 4 + 1))) = y + of_nat (a 4 + 1)"
      using a[of 4] a[of 5] by (intro mid_read[OF same]) simp_all
    then have "read_mtime gap_bus g = Some (now g + of_nat (a 0 + d + a 4 + 1), g2)"
      using g1(1) g2(1) False same by (simp add: x_def y_def add.assoc)
    moreover have "now g2 = now g + of_nat (a 0 + d + a 4 + a 5 + 3)"
      using g2(2) by (simp add: x_def y_def add.assoc)
    moreover have "a 0 + d + a 4 + a 5 + 3 < 2 ^ 32"
      using a[of 0] a[of 1] a[of 2] a[of 3] a[of 4] a[of 5] by (simp add: d_def)
    moreover have "a 0 + d + a 4 + 1 < a 0 + d + a 4 + a 5 + 3" by simp
    moreover have "gp_n g2 = gp_n g + 6" using g1(4) g2(3) by simp
    moreover have "(fld 32 (now g2) :: u32) \<noteq> fld 32 (now g)"
    proof -
      have "a 0 + d + a 4 + a 5 + 3 < 2 ^ 32" by fact
      then have "(fld 32 (now g2) :: u32) = fld 32 (now g) \<longleftrightarrow> unat (fld 0 (now g) :: u32) + (a 0 + d + a 4 + a 5 + 3) < 2 ^ 32"
        unfolding \<open>now g2 = now g + of_nat (a 0 + d + a 4 + a 5 + 3)\<close> by (rule high_half_same)
      moreover have "2 ^ 32 \<le> unat (fld 0 (now g) :: u32) + (a 0 + d + a 4 + a 5 + 3)"
      proof -
        have "unat (fld 0 x :: u32) = (unat (fld 0 (now g) :: u32) + a 0) mod 2 ^ 32" unfolding x_def by (rule low_half_add)
        then have "unat (fld 0 x :: u32) \<le> unat (fld 0 (now g) :: u32) + a 0" by simp
        then show ?thesis using over by (simp add: d_def)
      qed
      ultimately show ?thesis by simp
    qed
    ultimately show ?thesis by blast
  qed
qed

theorem read_mtime_exact_witness:
  "\<exists>t g'. read_mtime gap_bus \<lparr>gp_clint = clint_reset\<lparr>mtime := 0xFFFFFFFE\<rparr>, gp_gap = (\<lambda>_. 1), gp_n = 0\<rparr> = Some (t, g') \<and> gp_n g' \<le> 6"
  using read_mtime_exact[of "\<lparr>gp_clint = clint_reset\<lparr>mtime := 0xFFFFFFFE\<rparr>, gp_gap = (\<lambda>_. 1), gp_n = 0\<rparr>"]
  by fastforce

end
