(* ===== verification/Freertos.thy ===== *)
theory Freertos
  imports Demos Timer_Fw "HOL-Library.Sublist"
begin

text \<open>
  \<open>sw/freertos/main.c\<close> and \<open>FreeRTOSConfig.h\<close>. The kernel is not part of the sources: task creation,
  the scheduler and \<open>vTaskDelay\<close> are parameters. The two tasks share the UartLite without a lock, so
  \<open>task_blink\<close> is also given access by access; the last section shows what the UART receives when it
  runs in arbitrary bursts while \<open>task_hello\<close> sleeps.
\<close>

section \<open>FreeRTOS demo tasks\<close>

text \<open>
  A task body is an endless loop over \<open>vTaskDelay\<close>; \<open>task_hello\<close> leaves it through \<open>mmio_exit\<close> in
  the simulator build.
\<close>

definition hello_body :: "'s fw_bus \<Rightarrow> u32 \<Rightarrow> 's fw" where
  "hello_body B n =
     seqs [uartlite_puts B ''hello #'', ul_put_dec B n, uartlite_puts B crlf,
           if n + 1 = 10 then seqs [uartlite_puts B (''PASS'' @ crlf), mmio_exit B 0] else skip_fw]"

partial_function (option) task_hello :: "'s fw_bus \<Rightarrow> 's fw \<Rightarrow> u32 \<Rightarrow> 's \<Rightarrow> 's outcome option" where
  "task_hello B delay n s =
     (case fseq (hello_body B n) delay s of
        None \<Rightarrow> None
      | Some r \<Rightarrow> (case r of Spin t \<Rightarrow> Some (Spin t) | Ret t \<Rightarrow> task_hello B delay (n + 1) t))"

definition blink_body :: "'s fw_bus \<Rightarrow> u32 \<Rightarrow> 's fw" where
  "blink_body B n =
     seqs [uartlite_puts B ''[blink '', ul_put_dec B n, uartlite_puts B ('']'' @ crlf),
           (\<lambda>s. Some (Ret (b_st32 B MMIO_STATUS (0xB000 OR ((n + 1) AND 0xFF)) s)))]"

partial_function (option) task_blink :: "'s fw_bus \<Rightarrow> 's fw \<Rightarrow> u32 \<Rightarrow> 's \<Rightarrow> 's outcome option" where
  "task_blink B delay n s =
     (case fseq (blink_body B n) delay s of
        None \<Rightarrow> None
      | Some r \<Rightarrow> (case r of Spin t \<Rightarrow> Some (Spin t) | Ret t \<Rightarrow> task_blink B delay (n + 1) t))"

definition vAssertCalled :: "'s fw_bus \<Rightarrow> 's fw" where
  "vAssertCalled B = seqs [uartlite_puts B (''ASSERT'' @ crlf), mmio_exit B 2]"

definition exception_handler :: "'s fw_bus \<Rightarrow> 's fw" where
  "exception_handler B = seqs [uartlite_puts B (''EXC'' @ crlf), mmio_exit B 3]"

definition interrupt_handler :: "'s fw_bus \<Rightarrow> 's fw" where
  "interrupt_handler B = seqs [uartlite_puts B (''IRQ?'' @ crlf), mmio_exit B 4]"

definition hello_line :: "u32 \<Rightarrow> string" where
  "hello_line n = ''hello #'' @ dec_text n @ crlf"



section \<open>main and the configuration\<close>

text \<open>The task functions \<open>main\<close> passes by address, and the arguments of \<open>xTaskCreate\<close>.\<close>

datatype task_fn = Fn_hello | Fn_blink

record task_args =
  ta_fn :: task_fn
  ta_name :: string
  ta_stack :: nat
  ta_prio :: nat

definition hello_args :: task_args where
  "hello_args = \<lparr>ta_fn = Fn_hello, ta_name = ''hello'', ta_stack = 256, ta_prio = 2\<rparr>"

definition blink_args :: task_args where
  "blink_args = \<lparr>ta_fn = Fn_blink, ta_name = ''blink'', ta_stack = 256, ta_prio = 1\<rparr>"

definition boot_text :: string where
  "boot_text = crlf @ ''FreeRTOS booting on RV32IMA SoC'' @ crlf"

definition rtos_main :: "'s fw_bus \<Rightarrow> 's fw \<Rightarrow> (task_args \<Rightarrow> 's fw) \<Rightarrow> 's fw \<Rightarrow> 's fw" where
  "rtos_main B csrw_mtvec create start =
     seqs [uartlite_puts B boot_text,
           csrw_mtvec, create hello_args, create blink_args, start,
           uartlite_puts B (''scheduler returned?'' @ crlf), mmio_exit B 5]"

text \<open>
  The values of \<open>FreeRTOSConfig.h\<close>; stacks are counted in words of four bytes, the heap in bytes, and
  \<open>included\<close> lists the functions whose \<open>INCLUDE_\<close> switch is on.
\<close>

record rtos_config =
  cpu_clock_hz :: nat
  tick_rate_hz :: nat
  mtime_base :: u32
  mtimecmp_base :: u32
  isr_stack_words :: nat
  use_preemption :: bool
  use_idle_hook :: bool
  use_tick_hook :: bool
  use_16_bit_ticks :: bool
  max_priorities :: nat
  minimal_stack_words :: nat
  total_heap_bytes :: nat
  max_task_name_len :: nat
  use_trace_facility :: bool
  idle_should_yield :: bool
  use_mutexes :: bool
  queue_registry_size :: nat
  check_stack_overflow :: nat
  use_recursive_mutexes :: bool
  use_malloc_failed_hook :: bool
  use_counting_semaphores :: bool
  use_timers :: bool
  included :: "string list"

definition freertos_config :: rtos_config where
  "freertos_config = \<lparr>cpu_clock_hz = 50000000, tick_rate_hz = 1000, mtime_base = 0x0200BFF8,
     mtimecmp_base = 0x02004000, isr_stack_words = 256, use_preemption = True, use_idle_hook = False,
     use_tick_hook = False, use_16_bit_ticks = False, max_priorities = 5, minimal_stack_words = 128,
     total_heap_bytes = 8192, max_task_name_len = 8, use_trace_facility = False, idle_should_yield = True,
     use_mutexes = False, queue_registry_size = 0, check_stack_overflow = 0, use_recursive_mutexes = False,
     use_malloc_failed_hook = False, use_counting_semaphores = False, use_timers = False,
     included = [''vTaskDelayUntil'', ''vTaskDelay'']\<rparr>"

definition configASSERT :: "'s fw_bus \<Rightarrow> bool \<Rightarrow> 's fw" where
  "configASSERT B x = (if \<not> x then vAssertCalled B else skip_fw)"

text \<open>
  What the kernel's documentation asks of a task: a priority below the maximum, a name that fits with
  its terminator, at least the minimal stack.
\<close>

definition task_fits :: "rtos_config \<Rightarrow> task_args \<Rightarrow> bool" where
  "task_fits c a \<longleftrightarrow> ta_prio a < max_priorities c \<and> length (ta_name a) < max_task_name_len c \<and>
     minimal_stack_words c \<le> ta_stack a"

text \<open>
  The configuration is consistent with the hardware and with \<open>main\<close>: the two timer addresses are the
  64-bit CLINT registers, the tasks fit, their stacks with the idle task's leave heap over, the delay is
  compiled in, preemption by priority is on, and a tick is a whole number of clock cycles.
\<close>

theorem freertos_config_consistent:
  "fld 16 (mtime_base freertos_config) = (0x0200 :: u16) \<and> fld 0 (mtime_base freertos_config) = OFF_MTIME_LO \<and>
   fld 16 (mtimecmp_base freertos_config) = (0x0200 :: u16) \<and> fld 0 (mtimecmp_base freertos_config) = OFF_TCMP_LO \<and>
   task_fits freertos_config hello_args \<and> task_fits freertos_config blink_args \<and>
   4 * (ta_stack hello_args + ta_stack blink_args + minimal_stack_words freertos_config) <
     total_heap_bytes freertos_config \<and>
   ''vTaskDelay'' \<in> set (included freertos_config) \<and> use_preemption freertos_config \<and>
   cpu_clock_hz freertos_config = 50000 * tick_rate_hz freertos_config"
  by (simp add: freertos_config_def fld_def clint_offs task_fits_def hello_args_def blink_args_def)

section \<open>The blinking task, access by access\<close>

text \<open>
  What is left of a turn of \<open>task_blink\<close>: the polls of \<open>uartlite_putc\<close>, its stores and the status store.
  A preemption can come between any two of them.
\<close>

datatype blink_access = Poll | Send char | Status u32

definition blink_line :: "u32 \<Rightarrow> string" where
  "blink_line n = ''[blink '' @ dec_text n @ '']'' @ crlf"

definition blink_acts :: "u32 \<Rightarrow> blink_access list" where
  "blink_acts n = concat (map (\<lambda>c. [Poll, Send c]) (blink_line n)) @ [Status (0xB000 OR ((n + 1) AND 0xFF))]"

definition access_step :: "'s fw_bus \<Rightarrow> blink_access \<Rightarrow> 's \<Rightarrow> bool \<times> 's" where
  "access_step B a s = (case a of
       Poll \<Rightarrow> (case b_ld32 B UL_STAT s of (v, t) \<Rightarrow> (v AND UL_STAT_TX_FULL = 0, t))
     | Send c \<Rightarrow> (True, b_st32 B UL_TX_FIFO (ucast (char_byte c)) s)
     | Status v \<Rightarrow> (True, b_st32 B MMIO_STATUS v s))"

text \<open>Each access repeated until it succeeds.\<close>

definition access_fw :: "'s fw_bus \<Rightarrow> blink_access \<Rightarrow> 's fw" where
  "access_fw B a s = (case a of Poll \<Rightarrow> map_option Ret (wait_tx B s) | _ \<Rightarrow> Some (Ret (snd (access_step B a s))))"

lemma access_fw_poll:
  "access_fw B Poll s = (case access_step B Poll s of (ok, t) \<Rightarrow> if ok then Some (Ret t) else access_fw B Poll t)"
  by (simp add: access_fw_def access_step_def wait_tx.simps[of B s] split: prod.split)

lemma seqs_cat: "seqs (fs @ gs) = fseq (seqs fs) (seqs gs)"
  by (rule ext) (rule seqs_append)

lemma fseq_assoc: "fseq (fseq f g) h = fseq f (fseq g h)"
  by (rule ext) (simp add: fseq_def split: option.split outcome.split)

lemma fseq_skip [simp]: "fseq f skip_fw = f" "fseq skip_fw f = f"
  by (auto simp: fseq_def skip_fw_def fun_eq_iff split: option.split outcome.split)

lemma putc_acts: "uartlite_putc B c = seqs (map (access_fw B) [Poll, Send c])"
  by (rule ext) (simp add: uartlite_putc_def access_fw_def access_step_def fseq_def split: option.split)

lemma puts_acts:
  "CHR 0x00 \<notin> set str \<Longrightarrow>
     uartlite_puts B str = seqs (map (access_fw B) (concat (map (\<lambda>c. [Poll, Send c]) str)))"
  by (induction str) (auto simp: uartlite_puts_def putc_acts seqs_cat fseq_assoc)

lemma putcs_acts:
  "seqs (map (uartlite_putc B) str) = seqs (map (access_fw B) (concat (map (\<lambda>c. [Poll, Send c]) str)))"
  by (induction str) (simp_all add: putc_acts seqs_cat fseq_assoc)

text \<open>Run without a preemption, the accesses are the body of the task.\<close>

theorem blink_acts_body: "seqs (map (access_fw B) (blink_acts n)) = blink_body B n"
proof -
  have d: "ul_put_dec B n = seqs (map (access_fw B) (concat (map (\<lambda>c. [Poll, Send c]) (dec_text n))))"
    using putcs_acts[of B "rev (dec_buf n)"] by (simp add: ul_put_dec_def put_dec_def dec_text_def putc_acts)
  have s: "access_fw B (Status v) = (\<lambda>s. Some (Ret (b_st32 B MMIO_STATUS v s)))" for v
    by (simp add: access_fw_def access_step_def fun_eq_iff)
  show ?thesis
    unfolding blink_acts_def blink_line_def map_append concat_append seqs_cat blink_body_def d
    by (simp add: puts_acts seqs_cat fseq_assoc s del: map_append)
qed

section \<open>The demo under preemption\<close>

text \<open>
  The devices, the trap vector, the tasks created so far, and where \<open>task_blink\<close> stands: the turn and the
  accesses left in it.
\<close>

record demo =
  fd_dev :: soc_dev
  fd_mtvec :: u32
  fd_tasks :: "task_args list"
  fd_turn :: u32
  fd_acts :: "blink_access list"

definition demo_bus :: "demo fw_bus" where
  "demo_bus = \<lparr>b_ld32 = (\<lambda>a s. map_prod id (\<lambda>d. s\<lparr>fd_dev := d\<rparr>) (soc_load a (fd_dev s))),
     b_st32 = (\<lambda>a v s. s\<lparr>fd_dev := soc_store a v 15 (fd_dev s)\<rparr>),
     b_st8 = (\<lambda>a b s. s\<lparr>fd_dev := soc_store a (ucast b) 1 (fd_dev s)\<rparr>)\<rparr>"

definition demo_start :: "soc_dev \<Rightarrow> demo" where
  "demo_start d = \<lparr>fd_dev = d, fd_mtvec = 0, fd_tasks = [], fd_turn = 0, fd_acts = blink_acts 0\<rparr>"

text \<open>One access of \<open>task_blink\<close>; after the last one of a turn the loop starts over.\<close>

definition blink_tick :: "demo \<Rightarrow> demo" where
  "blink_tick s =
     (let s = (if fd_acts s = [] then s\<lparr>fd_turn := fd_turn s + 1, fd_acts := blink_acts (fd_turn s + 1)\<rparr> else s) in
      case access_step demo_bus (hd (fd_acts s)) s of
        (ok, t) \<Rightarrow> if ok then t\<lparr>fd_acts := tl (fd_acts s)\<rparr> else t)"

definition burst :: "nat \<Rightarrow> demo \<Rightarrow> demo" where
  "burst k = blink_tick ^^ k"

definition run_task :: "demo fw \<Rightarrow> task_args \<Rightarrow> demo fw" where
  "run_task delay a = (case ta_fn a of Fn_hello \<Rightarrow> task_hello demo_bus delay 0 | Fn_blink \<Rightarrow> task_blink demo_bus delay 0)"

lemma demo_bus_sel [simp]:
  "b_ld32 demo_bus = (\<lambda>a s. map_prod id (\<lambda>d. s\<lparr>fd_dev := d\<rparr>) (soc_load a (fd_dev s)))"
  "b_st32 demo_bus = (\<lambda>a v s. s\<lparr>fd_dev := soc_store a v 15 (fd_dev s)\<rparr>)"
  by (simp_all add: demo_bus_def)

abbreviation sent :: "demo \<Rightarrow> u8 list" where "sent s \<equiv> ul_printed (sd_ul (fd_dev s))"
abbreviation usable :: "demo \<Rightarrow> bool" where "usable s \<equiv> soc_idle (fd_dev s)"

lemma poll_demo:
  assumes "usable s"
  shows "\<exists>d. b_ld32 demo_bus UL_STAT s = (0, s\<lparr>fd_dev := d\<rparr>) \<and> soc_idle d \<and> ul_printed (sd_ul d) = sent s \<and>
    sd_mm d = sd_mm (fd_dev s) \<and> sd_log d = sd_log (fd_dev s)"
  using uart_load[of "sd_ul (fd_dev s)" UL_STAT] assms
  by (intro exI[of _ "snd (soc_load UL_STAT (fd_dev s))"])
    (simp add: soc_load_def decode_regs ul_xact_def soc_idle_def Let_def)

lemma send_demo:
  assumes "usable s"
  shows "\<exists>d. b_st32 demo_bus UL_TX_FIFO (ucast (char_byte c)) s = s\<lparr>fd_dev := d\<rparr> \<and> soc_idle d \<and>
    ul_printed (sd_ul d) = sent s @ [char_byte c]"
  using uart_store[of "sd_ul (fd_dev s)" 15 "ucast (char_byte c)"] assms
  by (intro exI[of _ "soc_store UL_TX_FIFO (ucast (char_byte c)) 15 (fd_dev s)"])
    (simp add: soc_store_def decode_regs ul_xact_def soc_idle_def Let_def bit_iff_odd)

lemma status_demo:
  assumes "usable s"
  shows "\<exists>d. b_st32 demo_bus MMIO_STATUS v s = s\<lparr>fd_dev := d\<rparr> \<and> soc_idle d \<and> ul_printed (sd_ul d) = sent s"
proof -
  have "is_mmio MMIO_STATUS" by (simp add: is_mmio_def fld_def MMIO_STATUS_def)
  then show ?thesis using assms
    by (intro exI[of _ "soc_store MMIO_STATUS v 15 (fd_dev s)"]) (simp add: soc_store_def mm_cycle_def soc_idle_def Let_def)
qed

interpretation fd_con: console "uartlite_putc demo_bus" "\<lambda>s. sent s" "\<lambda>s. usable s"
  "\<lambda>s. (fd_mtvec s, fd_tasks s, fd_turn s, fd_acts s)"
proof
  fix s :: demo and c
  assume "usable s"
  then obtain d where d: "b_ld32 demo_bus UL_STAT s = (0, s\<lparr>fd_dev := d\<rparr>)" "soc_idle d" "ul_printed (sd_ul d) = sent s"
    using poll_demo by blast
  have w: "wait_tx demo_bus s = Some (s\<lparr>fd_dev := d\<rparr>)"
    by (subst wait_tx.simps) (simp add: d(1) del: demo_bus_sel)
  show "\<exists>t. uartlite_putc demo_bus c s = Some (Ret t) \<and> sent t = sent s @ [char_byte c] \<and> usable t \<and>
      (fd_mtvec t, fd_tasks t, fd_turn t, fd_acts t) = (fd_mtvec s, fd_tasks s, fd_turn s, fd_acts s)"
    using send_demo[of "s\<lparr>fd_dev := d\<rparr>" c] d
    by (auto simp: uartlite_putc_def w simp del: demo_bus_sel)
qed


text \<open>What is left to send of a turn, and the progress of the stream of blink lines.\<close>

definition to_send :: "blink_access list \<Rightarrow> string" where
  "to_send as = concat (map (\<lambda>a. case a of Send c \<Rightarrow> [c] | _ \<Rightarrow> []) as)"

definition blinked :: "string \<Rightarrow> demo \<Rightarrow> bool" where
  "blinked p s \<longleftrightarrow> (\<exists>j. fd_turn s = of_nat j \<and>
     p @ to_send (fd_acts s) = concat (map (\<lambda>k. blink_line (of_nat k)) [0..<Suc j]))"

lemma to_send_simps [simp]:
  "to_send [] = []" "to_send (Poll # as) = to_send as" "to_send (Send c # as) = c # to_send as"
  "to_send (Status v # as) = to_send as"
  by (simp_all add: to_send_def)

lemma to_send_blink_acts [simp]: "to_send (blink_acts n) = blink_line n"
proof -
  have "to_send (concat (map (\<lambda>c. [Poll, Send c]) str) @ as) = str @ to_send as" for str as
    by (induction str) simp_all
  then show ?thesis by (simp add: blink_acts_def)
qed

lemma blink_tick_step:
  assumes "usable s" "blinked p s"
  shows "\<exists>c. blinked (p @ c) (blink_tick s) \<and> sent (blink_tick s) = sent s @ map char_byte c \<and> usable (blink_tick s)"
proof -
  define s1 where "s1 = (if fd_acts s = [] then s\<lparr>fd_turn := fd_turn s + 1, fd_acts := blink_acts (fd_turn s + 1)\<rparr> else s)"
  have b: "blinked p s1" "usable s1" "sent s1 = sent s" "fd_acts s1 \<noteq> []"
  proof -
    obtain j where j: "fd_turn s = of_nat j"
      "p @ to_send (fd_acts s) = concat (map (\<lambda>k. blink_line (of_nat k)) [0..<Suc j])"
      using assms(2) by (auto simp: blinked_def)
    have "blinked p s1" if "fd_acts s = []"
      unfolding blinked_def using that j by (intro exI[of _ "Suc j"]) (simp add: s1_def add.commute)
    then show "blinked p s1" using assms(2) by (auto simp: s1_def)
    show "usable s1" "sent s1 = sent s" "fd_acts s1 \<noteq> []" using assms(1) by (auto simp: s1_def blink_acts_def)
  qed
  have t: "blink_tick s = (case access_step demo_bus (hd (fd_acts s1)) s1 of
      (ok, t) \<Rightarrow> if ok then t\<lparr>fd_acts := tl (fd_acts s1)\<rparr> else t)"
    by (simp only: blink_tick_def s1_def [symmetric] Let_def)
  obtain a as where a: "fd_acts s1 = a # as" using b(4) by (cases "fd_acts s1") auto
  have k: "blinked (p @ c) (s1\<lparr>fd_dev := d, fd_acts := as\<rparr>)" if "to_send (a # as) = c @ to_send as" for c d
    using b(1) that by (auto simp: blinked_def a)
  show ?thesis
  proof (cases a)
    case Poll
    obtain d where "b_ld32 demo_bus UL_STAT s1 = (0, s1\<lparr>fd_dev := d\<rparr>)" "soc_idle d" "ul_printed (sd_ul d) = sent s1"
      using poll_demo[OF b(2)] by blast
    then show ?thesis using k[of "[]"] b(3) by (intro exI[of _ "[]"]) (simp add: t a Poll access_step_def del: demo_bus_sel)
  next
    case (Send c)
    obtain d where "b_st32 demo_bus UL_TX_FIFO (ucast (char_byte c)) s1 = s1\<lparr>fd_dev := d\<rparr>" "soc_idle d"
      "ul_printed (sd_ul d) = sent s1 @ [char_byte c]"
      using send_demo[OF b(2)] by blast
    then show ?thesis using k[of "[c]"] b(3) by (intro exI[of _ "[c]"]) (simp add: t a Send access_step_def del: demo_bus_sel)
  next
    case (Status v)
    obtain d where "b_st32 demo_bus MMIO_STATUS v s1 = s1\<lparr>fd_dev := d\<rparr>" "soc_idle d" "ul_printed (sd_ul d) = sent s1"
      using status_demo[OF b(2)] by blast
    then show ?thesis using k[of "[]"] b(3) by (intro exI[of _ "[]"]) (simp add: t a Status access_step_def del: demo_bus_sel)
  qed
qed

lemma burst_step:
  assumes "usable s" "blinked p s"
  obtains c where "blinked (p @ c) (burst k s)" "sent (burst k s) = sent s @ map char_byte c" "usable (burst k s)"
proof -
  have "\<exists>c. blinked (p @ c) (burst k s) \<and> sent (burst k s) = sent s @ map char_byte c \<and> usable (burst k s)"
  proof (induction k)
    case 0
    then show ?case using assms by (intro exI[of _ "[]"]) (simp add: burst_def)
  next
    case (Suc k)
    then obtain c where c: "blinked (p @ c) (burst k s)" "sent (burst k s) = sent s @ map char_byte c" "usable (burst k s)"
      by blast
    from blink_tick_step[OF c(3,1)] obtain e where "blinked ((p @ c) @ e) (blink_tick (burst k s))"
      "sent (blink_tick (burst k s)) = sent (burst k s) @ map char_byte e" "usable (blink_tick (burst k s))" by blast
    then show ?case using c(2) by (intro exI[of _ "c @ e"]) (simp add: burst_def)
  qed
  then show ?thesis using that by blast
qed

text \<open>A run of the demo that ends in \<open>mmio_exit\<close>.\<close>

definition demo_exits :: "u32 \<Rightarrow> u8 list \<Rightarrow> demo outcome option \<Rightarrow> bool" where
  "demo_exits code text r \<longleftrightarrow> (\<exists>t. r = Some (Spin t) \<and> mm_exit_valid (sd_mm (fd_dev t)) \<and>
     mm_exit_code (sd_mm (fd_dev t)) = code \<and> sent t = text)"

lemma demo_exit: "demo_exits code (sent s) (mmio_exit demo_bus code s)"
  using mmio_exit_store[of code "fd_dev s"] by (simp add: demo_exits_def mmio_exit_def Let_def)

text \<open>The lines of \<open>task_hello\<close> with what \<open>task_blink\<close> sends in between.\<close>

fun woven :: "nat \<Rightarrow> string list \<Rightarrow> string" where
  "woven n [] = hello_line (of_nat n) @ ''PASS'' @ crlf"
| "woven n (c # cs) = hello_line (of_nat n) @ c @ woven (Suc n) cs"

lemma hello_demo:
  shows "n + 1 \<noteq> 10 \<Longrightarrow> fd_con.sends (hello_line n) (hello_body demo_bus n)"
    and "usable s \<Longrightarrow> demo_exits 0 (sent s @ map char_byte (hello_line 9 @ ''PASS'' @ crlf))
      (hello_body demo_bus 9 s)"
proof -
  let ?fs = "\<lambda>n. [uartlite_puts demo_bus ''hello #'', ul_put_dec demo_bus n, uartlite_puts demo_bus crlf]"
  have s: "fd_con.sends (hello_line n) (seqs (?fs n))" for n
  proof -
    have "fd_con.sends (concat [''hello #'', dec_text n, crlf]) (seqs (?fs n))"
      unfolding uartlite_puts_def ul_put_dec_def
      by (intro fd_con.sends_seqs list.rel_intros fd_con.sends_puts fd_con.sends_put_dec) simp_all
    then show ?thesis by (simp add: hello_line_def)
  qed
  show "n + 1 \<noteq> 10 \<Longrightarrow> fd_con.sends (hello_line n) (hello_body demo_bus n)"
    using s[of n] by (simp add: hello_body_def)
  assume u: "usable s"
  have p: "fd_con.sends (''PASS'' @ crlf) (uartlite_puts demo_bus (''PASS'' @ crlf))"
    unfolding uartlite_puts_def by (rule fd_con.sends_puts) simp
  obtain t where t: "seqs (?fs 9 @ [uartlite_puts demo_bus (''PASS'' @ crlf)]) s = Some (Ret t)"
    "sent t = sent s @ map char_byte (hello_line 9 @ ''PASS'' @ crlf)"
    using fd_con.sends_run[OF fd_con.sends_fseq[OF s p] u, of 9] by (auto simp: fseq_assoc)
  have "hello_body demo_bus 9 = fseq (seqs (?fs 9 @ [uartlite_puts demo_bus (''PASS'' @ crlf)])) (mmio_exit demo_bus 0)"
    by (simp add: hello_body_def fseq_assoc)
  then show "demo_exits 0 (sent s @ map char_byte (hello_line 9 @ ''PASS'' @ crlf)) (hello_body demo_bus 9 s)"
    using demo_exit[of 0 t] t by simp
qed

lemma hello_weaves:
  assumes delay: "\<And>s. \<exists>k. delay s = Some (Ret (burst k s))"
    and "usable s" "blinked p s" "n + m = 9"
  shows "\<exists>cs N. length cs = m \<and> prefix (p @ concat cs) (concat (map (\<lambda>k. blink_line (of_nat k)) [0..<N])) \<and>
    demo_exits 0 (sent s @ map char_byte (woven n cs)) (task_hello demo_bus delay (of_nat n) s)"
  using assms(2-)
proof (induction m arbitrary: n s p)
  case 0
  then have n: "of_nat n = (9 :: u32)" by simp
  obtain j where "prefix p (concat (map (\<lambda>k. blink_line (of_nat k)) [0..<Suc j]))"
    using 0(2) by (metis blinked_def prefixI)
  moreover obtain t where t: "hello_body demo_bus 9 s = Some (Spin t)"
    using hello_demo(2)[OF 0(1)] by (auto simp: demo_exits_def)
  then have "task_hello demo_bus delay 9 s = hello_body demo_bus 9 s"
    by (subst task_hello.simps) simp
  ultimately show ?case using hello_demo(2)[OF 0(1)] by (intro exI[of _ "[]"] exI[of _ "Suc j"]) (simp add: n)
next
  case (Suc m)
  have "unat (of_nat n + 1 :: u32) = n + 1" using Suc.prems by (simp add: unat_word_ariths unat_of_nat)
  then have n: "of_nat n + 1 \<noteq> (10 :: u32)" using Suc.prems by auto
  obtain t where t: "hello_body demo_bus (of_nat n) s = Some (Ret t)"
    "sent t = sent s @ map char_byte (hello_line (of_nat n))" "usable t"
    "(fd_mtvec t, fd_tasks t, fd_turn t, fd_acts t) = (fd_mtvec s, fd_tasks s, fd_turn s, fd_acts s)"
    using fd_con.sends_run[OF hello_demo(1)[OF n] Suc.prems(1)] by blast
  obtain k where k: "delay t = Some (Ret (burst k t))" using delay by blast
  have "blinked p t" using Suc.prems(2) t(4) by (simp add: blinked_def)
  from burst_step[OF t(3) this, of k] obtain c where c: "blinked (p @ c) (burst k t)"
    "sent (burst k t) = sent t @ map char_byte c" "usable (burst k t)" by blast
  obtain cs N where cs: "length cs = m"
    "prefix ((p @ c) @ concat cs) (concat (map (\<lambda>k. blink_line (of_nat k)) [0..<N]))"
    "demo_exits 0 (sent (burst k t) @ map char_byte (woven (Suc n) cs)) (task_hello demo_bus delay (of_nat (Suc n)) (burst k t))"
    using Suc.IH[OF c(3,1), of "Suc n"] Suc.prems(3) by auto
  have "task_hello demo_bus delay (of_nat n) s = task_hello demo_bus delay (of_nat (Suc n)) (burst k t)"
    by (subst task_hello.simps) (simp add: t(1) k add.commute)
  then show ?case using cs c(2) t(2) by (intro exI[of _ "c # cs"] exI[of _ N]) simp
qed

text \<open>
  C37. Let the kernel do what its documentation says: \<open>xTaskCreate\<close> adds the task, the scheduler starts the
  task of the highest priority, and while that one sleeps the other runs for some finite time. Then
  \<open>main\<close> prints its banner and ends the simulation with exit code 0 after the ten lines of \<open>task_hello\<close>
  and PASS, each line in one piece; what stands between them is, put together, a beginning of the lines
  of \<open>task_blink\<close>, with nothing lost, repeated or reordered.
\<close>

theorem rtos_demo_output:
  assumes create: "\<And>a s. create a s = Some (Ret (s\<lparr>fd_tasks := fd_tasks s @ [a]\<rparr>))"
    and start: "\<And>a s. a \<in> set (fd_tasks s) \<Longrightarrow> (\<And>b. b \<in> set (fd_tasks s) \<Longrightarrow> b \<noteq> a \<Longrightarrow> ta_prio b < ta_prio a) \<Longrightarrow>
      start s = run_task delay a s"
    and delay: "\<And>s. \<exists>k. delay s = Some (Ret (burst k s))"
    and "soc_idle d"
  shows "\<exists>cs N. length cs = 9 \<and> prefix (concat cs) (concat (map (\<lambda>k. blink_line (of_nat k)) [0..<N])) \<and>
    demo_exits 0
      (ul_printed (sd_ul d) @ map char_byte (boot_text @ woven 0 cs))
      (rtos_main demo_bus (\<lambda>s. Some (Ret (s\<lparr>fd_mtvec := h\<rparr>))) create start (demo_start d))"
proof -
  have b: "fd_con.sends boot_text (uartlite_puts demo_bus boot_text)"
    unfolding uartlite_puts_def by (rule fd_con.sends_puts) (simp add: boot_text_def)
  obtain t where t: "uartlite_puts demo_bus boot_text (demo_start d) = Some (Ret t)"
    "sent t = ul_printed (sd_ul d) @ map char_byte boot_text" "usable t"
    "fd_tasks t = []" "fd_turn t = 0" "fd_acts t = blink_acts 0"
    using fd_con.sends_run[OF b, of "demo_start d"] assms(4) by (auto simp: demo_start_def)
  let ?u = "t\<lparr>fd_mtvec := h, fd_tasks := [hello_args, blink_args]\<rparr>"
  have s: "start ?u = task_hello demo_bus delay 0 ?u"
    using start[of hello_args ?u] by (auto simp: run_task_def hello_args_def blink_args_def)
  have "blinked [] ?u" using t(5,6) by (auto simp: blinked_def intro!: exI[of _ 0])
  from hello_weaves[OF delay _ this, where n = 0 and m = 9] obtain cs N where cs: "length cs = 9"
    "prefix (concat cs) (concat (map (\<lambda>k. blink_line (of_nat k)) [0..<N]))"
    "demo_exits 0 (sent ?u @ map char_byte (woven 0 cs)) (task_hello demo_bus delay 0 ?u)"
    using t(3) by auto
  obtain v where v: "task_hello demo_bus delay 0 ?u = Some (Spin v)" using cs(3) by (auto simp: demo_exits_def)
  have "rtos_main demo_bus (\<lambda>s. Some (Ret (s\<lparr>fd_mtvec := h\<rparr>))) create start (demo_start d) = task_hello demo_bus delay 0 ?u"
    using s v t(4) by (simp add: rtos_main_def t(1) create fseq_def)
  then show ?thesis using cs t(2) by (intro exI[of _ cs] exI[of _ N]) simp
qed

text \<open>A kernel that lets \<open>task_blink\<close> make 25 accesses in every sleep.\<close>

theorem rtos_demo_output_witness:
  "\<exists>cs N. length cs = 9 \<and> prefix (concat cs) (concat (map (\<lambda>k. blink_line (of_nat k)) [0..<N])) \<and>
    demo_exits 0
      (map char_byte (boot_text @ woven 0 cs))
      (rtos_main demo_bus (\<lambda>s. Some (Ret (s\<lparr>fd_mtvec := 0x80000100\<rparr>)))
        (\<lambda>a s. Some (Ret (s\<lparr>fd_tasks := fd_tasks s @ [a]\<rparr>)))
        (\<lambda>s. run_task (\<lambda>s. Some (Ret (burst 25 s))) (arg_min_list (\<lambda>a. - int (ta_prio a)) (fd_tasks s)) s)
        (demo_start (soc_start (\<lambda>_. 0))))"
proof -
  have "arg_min_list (\<lambda>a. - int (ta_prio a)) as = a"
    if "a \<in> set as" "\<And>b. b \<in> set as \<Longrightarrow> b \<noteq> a \<Longrightarrow> ta_prio b < ta_prio a" for a :: task_args and as
  proof (rule ccontr)
    let ?b = "arg_min_list (\<lambda>a. - int (ta_prio a)) as"
    assume n: "?b \<noteq> a"
    have "as \<noteq> []" using that(1) by auto
    then have "?b \<in> set as" "- int (ta_prio ?b) \<le> - int (ta_prio a)"
      using arg_min_list_in f_arg_min_list_f[of as "\<lambda>a. - int (ta_prio a)"] that(1) by (auto intro: Min_le)
    then show False using that(2)[OF _ n] by simp
  qed
  then show ?thesis
    using rtos_demo_output[where create = "\<lambda>a s. Some (Ret (s\<lparr>fd_tasks := fd_tasks s @ [a]\<rparr>))"
      and start = "\<lambda>s. run_task (\<lambda>s. Some (Ret (burst 25 s))) (arg_min_list (\<lambda>a. - int (ta_prio a)) (fd_tasks s)) s"
      and delay = "\<lambda>s. Some (Ret (burst 25 s))" and d = "soc_start (\<lambda>_. 0)" and h = "0x80000100"] by auto
qed

end
