(* ===== verification/Memtest.thy ===== *)
theory Memtest
  imports Demos
begin

text \<open>
  \<open>sw/tests/c/memtest.c\<close>: the DDR smoke test, run on the SoC's UART and DDR models, and on a DDR
  with a broken data line.
\<close>

definition MT_BASE :: u32 where "MT_BASE = 0x40000000"
definition DDR_BYTES :: u32 where "DDR_BYTES = 4 * 1024"

text \<open>A check phase returns whether it passed.\<close>

type_synonym 's check = "'s \<Rightarrow> (bool \<times> 's) option"

text \<open>Run a routine for its output and answer \<open>b\<close>; none of the messages ends the program.\<close>

definition then_ret :: "'s fw \<Rightarrow> bool \<Rightarrow> 's check" where
  "then_ret f b s = (case f s of Some (Ret t) \<Rightarrow> Some (b, t) | _ \<Rightarrow> None)"

definition p32_store :: "'s fw_bus \<Rightarrow> u32 \<Rightarrow> u32 \<Rightarrow> 's \<Rightarrow> 's" where
  "p32_store B off v s = b_st32 B (MT_BASE + off) v s"

definition p32_load :: "'s fw_bus \<Rightarrow> u32 \<Rightarrow> 's \<Rightarrow> u32 \<times> 's" where
  "p32_load B off s = b_ld32 B (MT_BASE + off) s"

definition fail_at :: "'s fw_bus \<Rightarrow> u32 \<Rightarrow> u32 \<Rightarrow> u32 \<Rightarrow> 's fw" where
  "fail_at B off got expected =
     seqs [uartlite_puts B ''  FAIL @ '', ul_put_hex B (MT_BASE + off),
           uartlite_puts B '' got '', ul_put_hex B got,
           uartlite_puts B '' exp '', ul_put_hex B expected, uartlite_puts B crlf]"

text \<open>The store loop and the check loop over a list of offsets and values.\<close>

fun store_all :: "'s fw_bus \<Rightarrow> (u32 \<times> u32) list \<Rightarrow> 's \<Rightarrow> 's" where
  "store_all B [] s = s"
| "store_all B ((o1, v) # xs) s = store_all B xs (p32_store B o1 v s)"

fun check_all :: "'s fw_bus \<Rightarrow> (u32 \<times> u32) list \<Rightarrow> 's check" where
  "check_all B [] s = Some (True, s)"
| "check_all B ((o1, v) # xs) s =
     (case p32_load B o1 s of (got, t) \<Rightarrow>
        if got \<noteq> v then then_ret (fail_at B o1 got v) False t else check_all B xs t)"

definition single_words :: "(u32 \<times> u32) list" where
  "single_words = [(0x000, 0xdeadbeef), (0x010, 0xcafef00d), (0x100, 0x0badc0de), (0x800, 0xa5a5a5a5)]"

definition phase_single_word :: "'s fw_bus \<Rightarrow> 's check" where
  "phase_single_word B s = check_all B single_words (store_all B single_words s)"

fun walk_bits :: "'s fw_bus \<Rightarrow> nat list \<Rightarrow> 's check" where
  "walk_bits B [] s = Some (True, s)"
| "walk_bits B (b # bs) s =
     (let v = push_bit b 1 in
      case p32_load B 0 (p32_store B 0 v s) of (got, t) \<Rightarrow>
        if got \<noteq> v
        then then_ret (seqs [uartlite_puts B ''  FAIL @ bit '', ul_put_hex B (of_nat b),
               uartlite_puts B '' got '', ul_put_hex B got, uartlite_puts B crlf]) False t
        else walk_bits B bs t)"

definition phase_walking_ones :: "'s fw_bus \<Rightarrow> 's check" where
  "phase_walking_ones B = walk_bits B [0..<32]"

definition pattern_words :: "(u32 \<times> u32) list" where
  "pattern_words = map (\<lambda>i. (of_nat i * 4, of_nat i XOR 0x12345678)) [0..<unat (DDR_BYTES div 4)]"

definition phase_pattern :: "'s fw_bus \<Rightarrow> 's check" where
  "phase_pattern B s = check_all B pattern_words (store_all B pattern_words s)"

text \<open>One phase of \<open>main\<close>: the label, the check, and \<open>ok\<close> on success.\<close>

definition run_phase :: "'s fw_bus \<Rightarrow> string \<Rightarrow> 's check \<Rightarrow> bool \<times> 's \<Rightarrow> (bool \<times> 's) option" where
  "run_phase B label chk = (\<lambda>(ok, s).
     case uartlite_puts B label s of
       Some (Ret t) \<Rightarrow>
         (case chk t of
            None \<Rightarrow> None
          | Some (True, u) \<Rightarrow> then_ret (uartlite_puts B (''ok'' @ crlf)) ok u
          | Some (False, u) \<Rightarrow> Some (False, u))
     | _ \<Rightarrow> None)"

definition memtest_main :: "'s fw_bus \<Rightarrow> 's fw" where
  "memtest_main B s =
     (case seqs [uartlite_puts B (crlf @ ''DDR3 memtest @ ''), ul_put_hex B MT_BASE,
                 uartlite_puts B ('' (1Gbit/128MB on Urbana)'' @ crlf)] s of
        Some (Ret t) \<Rightarrow>
          (case Option.bind (run_phase B ''phase 1 single-word ... '' (phase_single_word B) (True, t))
                 (\<lambda>st. Option.bind (run_phase B ''phase 2 walking-1s  ... '' (phase_walking_ones B) st)
                   (run_phase B ''phase 3 4KB pattern ... '' (phase_pattern B))) of
             None \<Rightarrow> None
           | Some (ok, u) \<Rightarrow>
               seqs [uartlite_puts B (if ok then ''PASS'' @ crlf else ''FAIL'' @ crlf),
                     mmio_exit B (if ok then 0 else 1)] u)
      | r \<Rightarrow> r)"

section \<open>A bus whose DDR data lines may be broken\<close>

text \<open>What the core reads from the DDR goes through \<open>f\<close>; the identity is the sound bus.\<close>

definition lines_bus :: "(u32 \<Rightarrow> u32) \<Rightarrow> soc_dev fw_bus" where
  "lines_bus f = soc_bus\<lparr>b_ld32 := (\<lambda>a d. case soc_load a d of (v, t) \<Rightarrow> (if is_ddr a then f v else v, t))\<rparr>"

lemma lines_bus_id: "lines_bus (\<lambda>v. v) = soc_bus"
  by (simp add: lines_bus_def soc_bus_def fun_eq_iff split: prod.split)

lemma lines_bus_sel [simp]:
  "b_st32 (lines_bus f) = (\<lambda>a v. soc_store a v 15)" "b_st8 (lines_bus f) = b_st8 soc_bus"
  "b_ld32 (lines_bus f) UL_STAT = soc_load UL_STAT"
proof -
  have "\<not> is_ddr UL_STAT" by (simp add: is_ddr_def UL_STAT_def UARTLITE_BASE_def fld_def)
  then show "b_st32 (lines_bus f) = (\<lambda>a v. soc_store a v 15)" "b_st8 (lines_bus f) = b_st8 soc_bus"
    "b_ld32 (lines_bus f) UL_STAT = soc_load UL_STAT"
    by (simp_all add: lines_bus_def soc_bus_def fun_eq_iff)
qed

interpretation lines_con: console "uartlite_putc (lines_bus f)" "\<lambda>d. ul_printed (sd_ul d)" soc_idle
  "\<lambda>d. (sd_mm d, sd_log d, br_mem (sd_ddr d))" for f
  by unfold_locales (rule ul_putc_ok, simp_all)

definition ddr_at :: "u32 \<Rightarrow> soc_dev \<Rightarrow> u32" where
  "ddr_at off d = br_mem (sd_ddr d) (bram_index (MT_BASE + off))"

text \<open>Offsets below the probe's 4 KiB, word aligned.\<close>

definition probe_off :: "u32 \<Rightarrow> bool" where
  "probe_off o1 \<longleftrightarrow> (\<exists>i < 1024. o1 = of_nat i * 4)"

lemma probe_decode:
  assumes "probe_off o1"
  shows "is_ddr (MT_BASE + o1)" "\<not> is_mmio (MT_BASE + o1)" "\<not> is_uart (MT_BASE + o1)"
    "bram_index (MT_BASE + o1) = unat o1 div 4" "unat o1 < 4096"
proof -
  obtain i where i: "i < 1024" "o1 = of_nat i * 4" using assms by (auto simp: probe_off_def)
  have uo: "unat o1 = 4 * i" using i by (simp add: unat_word_ariths unat_of_nat)
  then show "unat o1 < 4096" using i by simp
  have ua: "unat (MT_BASE + o1) = 0x40000000 + 4 * i"
    using i uo by (simp add: MT_BASE_def unat_word_ariths)
  have hi: "(0x40000000 + 4 * i) div 2 ^ 28 = 4" "(0x40000000 + 4 * i) div 2 ^ 16 = 0x4000"
    using i by (auto intro!: div_nat_eqI)
  show "is_ddr (MT_BASE + o1)" "\<not> is_mmio (MT_BASE + o1)" "\<not> is_uart (MT_BASE + o1)"
    using hi by (simp_all add: is_ddr_def is_mmio_def is_uart_def word_unat_eq_iff unat_fld ua)
  have "(0x40000000 + 4 * i) div 4 mod 33554432 = i"
    using mod_mult_self1[of i 8 33554432] i by (simp add: add.commute)
  then show "bram_index (MT_BASE + o1) = unat o1 div 4"
    using uo by (simp add: bram_index_def unat_fld ua)
qed

section \<open>Accesses and phases\<close>

definition same_ddr :: "soc_dev \<Rightarrow> soc_dev \<Rightarrow> bool" where
  "same_ddr d t \<longleftrightarrow> soc_idle t \<and> br_mem (sd_ddr t) = br_mem (sd_ddr d)"

lemma p32_store_ddr:
  assumes "probe_off o1" "soc_idle d"
  shows "soc_idle (p32_store (lines_bus f) o1 v d)"
    and "br_mem (sd_ddr (p32_store (lines_bus f) o1 v d)) = (br_mem (sd_ddr d))(unat o1 div 4 := v)"
proof -
  have s: "(axil_wr a v)\<lparr>ax_wstrb := 15\<rparr> = axil_wr a v" for a by (simp add: axil_wr_def)
  have "p32_store (lines_bus f) o1 v d = ddr_xact (axil_wr (MT_BASE + o1) v) d"
    using probe_decode[OF assms(1)] by (simp add: p32_store_def soc_store_def s)
  then show "soc_idle (p32_store (lines_bus f) o1 v d)"
    "br_mem (sd_ddr (p32_store (lines_bus f) o1 v d)) = (br_mem (sd_ddr d))(unat o1 div 4 := v)"
    using ddr_store[of "sd_ddr d" "MT_BASE + o1" v] assms(2) probe_decode(4)[OF assms(1)]
    by (simp_all add: ddr_xact_def soc_idle_def Let_def)
qed

lemma p32_load_ddr:
  assumes "probe_off o1" "soc_idle d"
  obtains t where "p32_load (lines_bus f) o1 d = (f (br_mem (sd_ddr d) (unat o1 div 4)), t)" "same_ddr d t"
proof
  let ?t = "ddr_xact (axil_rd (MT_BASE + o1)) d"
  have l: "soc_idle ?t" "br_mem (sd_ddr ?t) = br_mem (sd_ddr d)"
    "br_rdata (sd_ddr ?t) = br_mem (sd_ddr d) (unat o1 div 4)"
    using ddr_load[of "sd_ddr d" "MT_BASE + o1"] assms(2) probe_decode(4)[OF assms(1)]
    by (simp_all add: ddr_xact_def soc_idle_def Let_def)
  show "p32_load (lines_bus f) o1 d = (f (br_mem (sd_ddr d) (unat o1 div 4)), ?t)"
    using probe_decode[OF assms(1)] l by (simp add: p32_load_def lines_bus_def soc_load_def Let_def)
  show "same_ddr d ?t" using l by (simp add: same_ddr_def)
qed

lemma then_ret_sends:
  assumes "lines_con.sends str g" "soc_idle d"
  obtains t where "then_ret g b d = Some (b, t)" "same_ddr d t"
  using assms by (auto simp: lines_con.sends_def then_ret_def same_ddr_def)

lemma no_nul_msgs [simp]: "CHR 0x00 \<notin> set (a @ crlf) \<longleftrightarrow> CHR 0x00 \<notin> set a"
  by simp

lemma fail_at_sends:
  "lines_con.sends (concat [''  FAIL @ '', hex_text (MT_BASE + o1), '' got '', hex_text got, '' exp '',
     hex_text expected, crlf]) (fail_at (lines_bus f) o1 got expected)"
  unfolding fail_at_def uartlite_puts_def ul_put_hex_def
  by (intro lines_con.sends_seqs list.rel_intros lines_con.sends_puts lines_con.sends_put_hex) simp_all

lemma fail_bit_sends:
  "lines_con.sends (concat [''  FAIL @ bit '', hex_text b, '' got '', hex_text got, crlf])
     (seqs [uartlite_puts (lines_bus f) ''  FAIL @ bit '', ul_put_hex (lines_bus f) b,
       uartlite_puts (lines_bus f) '' got '', ul_put_hex (lines_bus f) got, uartlite_puts (lines_bus f) crlf])"
  unfolding uartlite_puts_def ul_put_hex_def
  by (intro lines_con.sends_seqs list.rel_intros lines_con.sends_puts lines_con.sends_put_hex) simp_all

lemma check_all_verdict:
  assumes "\<forall>(o1, v) \<in> set xs. probe_off o1" "soc_idle d"
  shows "\<exists>ok t. check_all (lines_bus f) xs d = Some (ok, t) \<and> same_ddr d t \<and>
    (ok \<longleftrightarrow> (\<forall>(o1, v) \<in> set xs. f (br_mem (sd_ddr d) (unat o1 div 4)) = v))"
  using assms
proof (induction xs arbitrary: d)
  case Nil
  then show ?case by (auto simp: same_ddr_def)
next
  case (Cons x xs)
  obtain o1 v where x: "x = (o1, v)" by (cases x)
  have p: "probe_off o1" using Cons.prems(1) x by simp
  obtain t where t: "p32_load (lines_bus f) o1 d = (f (br_mem (sd_ddr d) (unat o1 div 4)), t)" "same_ddr d t"
    by (rule p32_load_ddr[OF p Cons.prems(2)])
  have it: "soc_idle t" using t(2) by (simp add: same_ddr_def)
  show ?case
  proof (cases "f (br_mem (sd_ddr d) (unat o1 div 4)) = v")
    case True
    have "\<exists>ok t'. check_all (lines_bus f) xs t = Some (ok, t') \<and> same_ddr t t' \<and>
      (ok \<longleftrightarrow> (\<forall>(o1, v) \<in> set xs. f (br_mem (sd_ddr t) (unat o1 div 4)) = v))"
      using Cons.prems(1) by (intro Cons.IH it) simp
    then show ?thesis using True t by (auto simp: x same_ddr_def)
  next
    case False
    obtain u where "then_ret (fail_at (lines_bus f) o1 (f (br_mem (sd_ddr d) (unat o1 div 4))) v) False t =
        Some (False, u)" "same_ddr t u"
      by (rule then_ret_sends[OF fail_at_sends it])
    then show ?thesis using False t by (auto simp: x same_ddr_def)
  qed
qed

lemma store_all_mem:
  assumes "\<forall>(o1, v) \<in> set xs. probe_off o1" "soc_idle d" "distinct (map (\<lambda>(o1, v). unat o1 div 4) xs)"
  shows "soc_idle (store_all (lines_bus f) xs d) \<and>
    (\<forall>(o1, v) \<in> set xs. br_mem (sd_ddr (store_all (lines_bus f) xs d)) (unat o1 div 4) = v) \<and>
    (\<forall>k. k \<notin> set (map (\<lambda>(o1, v). unat o1 div 4) xs) \<longrightarrow>
       br_mem (sd_ddr (store_all (lines_bus f) xs d)) k = br_mem (sd_ddr d) k)"
  using assms
proof (induction xs arbitrary: d)
  case Nil
  then show ?case by simp
next
  case (Cons x xs)
  obtain o1 v where x: "x = (o1, v)" by (cases x)
  have p: "probe_off o1" using Cons.prems(1) x by simp
  let ?d = "p32_store (lines_bus f) o1 v d"
  have "soc_idle (store_all (lines_bus f) xs ?d) \<and>
    (\<forall>(o1, v) \<in> set xs. br_mem (sd_ddr (store_all (lines_bus f) xs ?d)) (unat o1 div 4) = v) \<and>
    (\<forall>k. k \<notin> set (map (\<lambda>(o1, v). unat o1 div 4) xs) \<longrightarrow>
       br_mem (sd_ddr (store_all (lines_bus f) xs ?d)) k = br_mem (sd_ddr ?d) k)"
    using Cons.prems p32_store_ddr[OF p Cons.prems(2)] by (intro Cons.IH) (simp_all add: x)
  then show ?case using p32_store_ddr[OF p Cons.prems(2), of f v] Cons.prems(3) by (auto simp: x)
qed

lemma store_check:
  assumes "\<forall>(o1, v) \<in> set xs. probe_off o1" "soc_idle d" "distinct (map (\<lambda>(o1, v). unat o1 div 4) xs)"
  shows "\<exists>ok t. check_all (lines_bus f) xs (store_all (lines_bus f) xs d) = Some (ok, t) \<and> soc_idle t \<and>
    (ok \<longleftrightarrow> (\<forall>(o1, v) \<in> set xs. f v = v))"
proof -
  let ?d = "store_all (lines_bus f) xs d"
  note st = store_all_mem[OF assms, of f]
  then obtain ok t where "check_all (lines_bus f) xs ?d = Some (ok, t)" "same_ddr ?d t"
    "ok \<longleftrightarrow> (\<forall>(o1, v) \<in> set xs. f (br_mem (sd_ddr ?d) (unat o1 div 4)) = v)"
    using check_all_verdict[OF assms(1), of ?d f] by blast
  then show ?thesis using st by (fastforce simp: same_ddr_def)
qed

lemma walk_bits_verdict:
  assumes "soc_idle d"
  shows "\<exists>ok t. walk_bits (lines_bus f) bs d = Some (ok, t) \<and> soc_idle t \<and>
    (ok \<longleftrightarrow> (\<forall>b \<in> set bs. f (push_bit b 1) = push_bit b 1))"
  using assms
proof (induction bs arbitrary: d)
  case (Cons b bs)
  have p0: "probe_off 0" by (auto simp: probe_off_def intro!: exI[of _ 0])
  let ?v = "push_bit b 1 :: u32"
  let ?d = "p32_store (lines_bus f) 0 ?v d"
  note st = p32_store_ddr[OF p0 Cons.prems, of f ?v]
  obtain t where t: "p32_load (lines_bus f) 0 ?d = (f ?v, t)" "same_ddr ?d t"
    using p32_load_ddr[OF p0 st(1), of f] st(2) by auto
  have it: "soc_idle t" using t(2) by (simp add: same_ddr_def)
  show ?case
  proof (cases "f ?v = ?v")
    case True
    then show ?thesis using Cons.IH[OF it] t(1) by (auto simp: Let_def)
  next
    case False
    obtain u where "then_ret (seqs [uartlite_puts (lines_bus f) ''  FAIL @ bit '', ul_put_hex (lines_bus f) (of_nat b),
        uartlite_puts (lines_bus f) '' got '', ul_put_hex (lines_bus f) (f ?v), uartlite_puts (lines_bus f) crlf])
        False t = Some (False, u)" "same_ddr t u"
      by (rule then_ret_sends[OF fail_bit_sends it])
    then show ?thesis using False t(1) by (auto simp: Let_def same_ddr_def simp del: seqs.simps)
  qed
qed auto

text \<open>What a check phase has to find for a given bus.\<close>

definition phase_spec :: "(soc_dev fw_bus \<Rightarrow> soc_dev check) \<Rightarrow> (u32 \<Rightarrow> u32) \<Rightarrow> bool \<Rightarrow> bool" where
  "phase_spec chk f good \<longleftrightarrow> (\<forall>d. soc_idle d \<longrightarrow>
     (\<exists>ok t. chk (lines_bus f) d = Some (ok, t) \<and> soc_idle t \<and> (ok \<longleftrightarrow> good)))"

lemma single_word_spec:
  "phase_spec phase_single_word f (\<forall>(o1, v) \<in> set single_words. f v = v)"
proof -
  have p: "probe_off 0" "probe_off 0x10" "probe_off 0x100" "probe_off 0x800"
    unfolding probe_off_def
    by (rule exI[of _ 0], simp, rule exI[of _ 4], simp, rule exI[of _ 64], simp, rule exI[of _ 512], simp)
  then show ?thesis
    unfolding phase_spec_def phase_single_word_def
    by (intro allI impI store_check) (simp_all add: single_words_def)
qed

lemma walking_spec:
  "phase_spec phase_walking_ones f (\<forall>b \<in> set [0..<32]. f (push_bit b 1) = push_bit b 1)"
  using walk_bits_verdict[of _ f "[0..<32]"] by (simp add: phase_spec_def phase_walking_ones_def)

lemma pattern_words_eq: "pattern_words = map (\<lambda>i. (of_nat i * 4, of_nat i XOR 0x12345678)) [0..<1024]"
  by (simp add: pattern_words_def DDR_BYTES_def)

lemma pattern_spec:
  "phase_spec phase_pattern f (\<forall>(o1, v) \<in> set pattern_words. f v = v)"
proof -
  have u: "unat (of_nat i * 4 :: u32) div 4 = i" if "i < 1024" for i
    using that by (simp add: unat_word_ariths unat_of_nat)
  have "distinct (map (\<lambda>(o1, v). unat o1 div 4) pattern_words)"
    by (simp add: pattern_words_eq distinct_map comp_def inj_on_def u)
  moreover have "\<forall>(o1, v) \<in> set pattern_words. probe_off o1"
    by (auto simp: pattern_words_eq probe_off_def)
  ultimately show ?thesis
    unfolding phase_spec_def phase_pattern_def by (intro allI impI store_check)
qed

lemma run_phase_verdict:
  assumes "phase_spec chk f good" "soc_idle d" "CHR 0x00 \<notin> set label"
  shows "\<exists>t. run_phase (lines_bus f) label (chk (lines_bus f)) (ok, d) = Some (ok \<and> good, t) \<and> soc_idle t"
proof -
  obtain t where t: "uartlite_puts (lines_bus f) label d = Some (Ret t)" "soc_idle t"
    using lines_con.sends_puts[OF assms(3)] assms(2) by (fastforce simp: lines_con.sends_def uartlite_puts_def)
  obtain okp u where u: "chk (lines_bus f) t = Some (okp, u)" "soc_idle u" "okp \<longleftrightarrow> good"
    using assms(1) t(2) by (auto simp: phase_spec_def)
  have "lines_con.sends (''ok'' @ crlf) (uartlite_puts (lines_bus f) (''ok'' @ crlf))"
    unfolding uartlite_puts_def by (rule lines_con.sends_puts) simp
  then obtain w where w: "then_ret (uartlite_puts (lines_bus f) (''ok'' @ crlf)) ok u = Some (ok, w)" "same_ddr u w"
    using then_ret_sends[OF _ u(2)] by blast
  then show ?thesis using t u by (cases good) (auto simp: run_phase_def same_ddr_def)
qed

text \<open>The data lines carry every word the three phases write.\<close>

definition lines_good :: "(u32 \<Rightarrow> u32) \<Rightarrow> bool" where
  "lines_good f \<longleftrightarrow> (\<forall>(o1, v) \<in> set single_words. f v = v) \<and>
     (\<forall>b \<in> set [0..<32]. f (push_bit b 1) = push_bit b 1) \<and> (\<forall>(o1, v) \<in> set pattern_words. f v = v)"

definition exit_code_is :: "u32 \<Rightarrow> soc_dev outcome option \<Rightarrow> bool" where
  "exit_code_is code r \<longleftrightarrow>
     (\<exists>t. r = Some (Spin t) \<and> mm_exit_valid (sd_mm t) \<and> mm_exit_code (sd_mm t) = code)"

lemma memtest_main_verdict:
  assumes "soc_idle d"
  shows "exit_code_is (if lines_good f then 0 else 1) (memtest_main (lines_bus f) d)"
proof -
  let ?B = "lines_bus f"
  have h: "lines_con.sends (concat [crlf @ ''DDR3 memtest @ '', hex_text MT_BASE, '' (1Gbit/128MB on Urbana)'' @ crlf])
      (seqs [uartlite_puts ?B (crlf @ ''DDR3 memtest @ ''), ul_put_hex ?B MT_BASE,
             uartlite_puts ?B ('' (1Gbit/128MB on Urbana)'' @ crlf)])"
    unfolding uartlite_puts_def ul_put_hex_def
    by (intro lines_con.sends_seqs list.rel_intros lines_con.sends_puts lines_con.sends_put_hex) simp_all
  obtain t0 where t0: "seqs [uartlite_puts ?B (crlf @ ''DDR3 memtest @ ''), ul_put_hex ?B MT_BASE,
      uartlite_puts ?B ('' (1Gbit/128MB on Urbana)'' @ crlf)] d = Some (Ret t0)" "soc_idle t0"
    by (rule lines_con.sends_run[OF h assms])
  obtain t1 where t1: "run_phase ?B ''phase 1 single-word ... '' (phase_single_word ?B) (True, t0) =
      Some (\<forall>(o1, v) \<in> set single_words. f v = v, t1)" "soc_idle t1"
    using run_phase_verdict[OF single_word_spec t0(2), of "''phase 1 single-word ... ''" f True] by auto
  obtain t2 where t2: "run_phase ?B ''phase 2 walking-1s  ... '' (phase_walking_ones ?B)
      (\<forall>(o1, v) \<in> set single_words. f v = v, t1) =
      Some ((\<forall>(o1, v) \<in> set single_words. f v = v) \<and> (\<forall>b \<in> set [0..<32]. f (push_bit b 1) = push_bit b 1), t2)" "soc_idle t2"
    using run_phase_verdict[OF walking_spec t1(2), of "''phase 2 walking-1s  ... ''"] by auto
  have p3: "CHR 0x00 \<notin> set ''phase 3 4KB pattern ... ''" by simp
  obtain t3 where t3: "run_phase ?B ''phase 3 4KB pattern ... '' (phase_pattern ?B)
      ((\<forall>(o1, v) \<in> set single_words. f v = v) \<and> (\<forall>b \<in> set [0..<32]. f (push_bit b 1) = push_bit b 1), t2) =
      Some (lines_good f, t3)" "soc_idle t3"
    using run_phase_verdict[OF pattern_spec t2(2) p3, of f
        "(\<forall>(o1, v) \<in> set single_words. f v = v) \<and> (\<forall>b \<in> set [0..<32]. f (push_bit b 1) = push_bit b 1)"]
    unfolding lines_good_def conj_assoc by blast
  have e: "mmio_exit ?B c u = mmio_exit soc_bus c u" for c u by (simp add: mmio_exit_def)
  have fin: "exit_code_is c (seqs [uartlite_puts ?B str, mmio_exit ?B c] u)"
    if iu: "soc_idle u" and ns: "CHR 0x00 \<notin> set str" for c str u
  proof -
    obtain w where "uartlite_puts ?B str u = Some (Ret w)"
      using lines_con.sends_puts[OF ns] iu by (fastforce simp: lines_con.sends_def uartlite_puts_def)
    then show ?thesis using exits_mmio_exit[of c w] e
      by (auto simp: exit_code_is_def exits_with_def)
  qed
  have "memtest_main ?B d = seqs [uartlite_puts ?B (if lines_good f then ''PASS'' @ crlf else ''FAIL'' @ crlf),
      mmio_exit ?B (if lines_good f then 0 else 1)] t3"
    unfolding memtest_main_def t0(1) option.case outcome.case t1(1) Option.bind_lunit t2(1) t3(1) prod.case
    by (rule refl)
  then show ?thesis using fin[OF t3(2)] by (simp del: seqs.simps)
qed

lemma lines_good_id: "lines_good (\<lambda>v. v)" by (auto simp: lines_good_def)

text \<open>
  C38. The memory test runs to its end on every bus, passes on a sound DDR, and fails with exit code
  1 when any data line of the DDR reads stuck at 0 or at 1.
\<close>

theorem memtest_finds_stuck_line:
  assumes "soc_idle d"
  shows "exit_code_is 0 (memtest_main soc_bus d) \<and>
    (b < 32 \<longrightarrow> exit_code_is 1 (memtest_main (lines_bus (put_bit b c)) d))"
proof
  show "exit_code_is 0 (memtest_main soc_bus d)"
    using memtest_main_verdict[OF assms, of "\<lambda>v. v"] lines_good_id by (simp add: lines_bus_id)
  show "b < 32 \<longrightarrow> exit_code_is 1 (memtest_main (lines_bus (put_bit b c)) d)"
  proof
    assume b: "b < 32"
    have "\<exists>k < 32. put_bit b c (push_bit k 1 :: u32) \<noteq> push_bit k 1"
    proof -
      let ?k = "if c then (if b = 0 then 1 else 0) else b"
      have "bit (put_bit b c (push_bit ?k 1 :: u32)) b \<noteq> bit (push_bit ?k 1 :: u32) b"
        using b by (auto simp: lane_simps bit_exp_iff bit_0)
      then show ?thesis using b by (intro exI[of _ ?k]) auto
    qed
    then have "\<not> lines_good (put_bit b c)" by (auto simp: lines_good_def)
    then show "exit_code_is 1 (memtest_main (lines_bus (put_bit b c)) d)"
      using memtest_main_verdict[OF assms, of "put_bit b c"] by simp
  qed
qed

theorem memtest_finds_stuck_line_witness:
  "exit_code_is 0 (memtest_main soc_bus (soc_start (\<lambda>_. 7))) \<and>
   exit_code_is 1 (memtest_main (lines_bus (put_bit 9 True)) (soc_start (\<lambda>_. 7)))"
  using memtest_finds_stuck_line[of "soc_start (\<lambda>_. 7)" 9 True] by simp

end
