(* ===== verification/Arith.thy ===== *)
theory Arith
  imports Prelude "HOL-Library.Signed_Division"
begin

text \<open>
  The integer datapath of the core: \<open>rtl/core/alu.sv\<close>, \<open>rtl/core/mul_unit.sv\<close>, the iterative
  divider \<open>rtl/core/div_unit.sv\<close>, the immediate decoder \<open>rtl/core/imm_gen.sv\<close> and the register file
  \<open>rtl/core/regfile.sv\<close>.
\<close>

section \<open>ALU\<close>

definition ALU_ADD :: "4 word" where "ALU_ADD = 0"
definition ALU_SUB :: "4 word" where "ALU_SUB = 1"
definition ALU_AND :: "4 word" where "ALU_AND = 2"
definition ALU_OR :: "4 word" where "ALU_OR = 3"
definition ALU_XOR :: "4 word" where "ALU_XOR = 4"
definition ALU_SLL :: "4 word" where "ALU_SLL = 5"
definition ALU_SRL :: "4 word" where "ALU_SRL = 6"
definition ALU_SRA :: "4 word" where "ALU_SRA = 7"
definition ALU_SLT :: "4 word" where "ALU_SLT = 8"
definition ALU_SLTU :: "4 word" where "ALU_SLTU = 9"
definition ALU_COPY_B :: "4 word" where "ALU_COPY_B = 10"

lemmas alu_ops = ALU_ADD_def ALU_SUB_def ALU_AND_def ALU_OR_def ALU_XOR_def ALU_SLL_def ALU_SRL_def
  ALU_SRA_def ALU_SLT_def ALU_SLTU_def ALU_COPY_B_def

definition alu_eq :: "u32 \<Rightarrow> u32 \<Rightarrow> bool" where "alu_eq a b = (a = b)"
definition alu_lt :: "u32 \<Rightarrow> u32 \<Rightarrow> bool" where "alu_lt a b = (sint a < sint b)"
definition alu_ltu :: "u32 \<Rightarrow> u32 \<Rightarrow> bool" where "alu_ltu a b = (a < b)"

definition alu :: "4 word \<Rightarrow> u32 \<Rightarrow> u32 \<Rightarrow> u32" where
  "alu op a b =
     (let shamt = unat (fld 0 b :: 5 word) in
      if op = ALU_ADD then a + b
      else if op = ALU_SUB then a - b
      else if op = ALU_AND then a AND b
      else if op = ALU_OR then a OR b
      else if op = ALU_XOR then a XOR b
      else if op = ALU_SLL then push_bit shamt a
      else if op = ALU_SRL then drop_bit shamt a
      else if op = ALU_SRA then signed_drop_bit shamt a
      else if op = ALU_SLT then bw (alu_lt a b)
      else if op = ALU_SLTU then bw (alu_ltu a b)
      else if op = ALU_COPY_B then b
      else 0)"

section \<open>Multiplier\<close>

definition mul_ext :: "bool \<Rightarrow> u32 \<Rightarrow> 33 word" where
  "mul_ext is_signed a = (if is_signed then scast a else ucast a)"

definition mul_unit :: "u32 \<Rightarrow> u32 \<Rightarrow> bool \<Rightarrow> bool \<Rightarrow> bool \<Rightarrow> u32" where
  "mul_unit a b a_signed b_signed hi =
     (let prod = (scast (mul_ext a_signed a) :: 66 word) * scast (mul_ext b_signed b) in
      if hi then fld 32 prod else fld 0 prod)"

definition operand :: "bool \<Rightarrow> u32 \<Rightarrow> int" where
  "operand is_signed a = (if is_signed then sint a else uint a)"

lemma sint_mul_ext: "sint (mul_ext s a) = operand s a"
proof -
  have "- (2 ^ 32) \<le> uint a" by (rule order_trans[of _ 0]) simp_all
  moreover have "uint a < 2 ^ 32" using uint_bounded[of a] by simp
  ultimately have "signed_take_bit 32 (uint a) = uint a" by (rule signed_take_bit_int_eq_self)
  then show ?thesis by (simp add: mul_ext_def operand_def sint_up_scast is_up signed_ucast_eq)
qed

lemma mul_product:
  "(scast (mul_ext sa a) :: 66 word) * scast (mul_ext sb b) = word_of_int (operand sa a * operand sb b)"
proof -
  have "(scast (mul_ext s x) :: 66 word) = word_of_int (operand s x)" for s x
    by (metis sint_mul_ext scast_eq)
  then show ?thesis by simp
qed

text \<open>
  Each of MUL, MULH, MULHSU and MULHU returns the requested half of the exact product of the
  operands, each read as signed or unsigned as the instruction says.
\<close>

theorem mul_unit_exact:
  "mul_unit a b sa sb hi =
     word_of_int (if hi then operand sa a * operand sb b div 2 ^ 32 else operand sa a * operand sb b)"
proof -
  have "fld 32 (word_of_int P :: 66 word) = (word_of_int (drop_bit 32 P) :: u32)"
    and "fld 0 (word_of_int P :: 66 word) = (word_of_int P :: u32)" for P
    by (auto intro!: bit_word_eqI simp: bit_fld bit_word_of_int_iff bit_drop_bit_eq)
  then show ?thesis unfolding mul_unit_def mul_product Let_def by (simp only: drop_bit_eq_div split: if_split) simp
qed

section \<open>Divider\<close>

datatype div_fsm = S_IDLE | S_INIT | S_COMPUTE | S_FIXUP

record div_unit =
  dv_state :: div_fsm
  dv_sign :: bool
  dv_rem :: bool
  dv_neg_q :: bool
  dv_neg_r :: bool
  dv_by_zero :: bool
  dv_overflow :: bool
  dv_remainder :: u32
  dv_quotient :: u32
  dv_divisor_abs :: u32
  dv_dividend_abs :: u32
  dv_iter :: "6 word"
  dv_done :: bool
  dv_result :: u32

record div_in =
  di_start :: bool
  di_signed :: bool
  di_want_rem :: bool
  di_dividend :: u32
  di_divisor :: u32

definition dv_busy :: "div_unit \<Rightarrow> bool" where "dv_busy s = (dv_state s \<noteq> S_IDLE)"

definition div_reset :: div_unit where
  "div_reset = \<lparr>dv_state = S_IDLE, dv_sign = False, dv_rem = False, dv_neg_q = False,
     dv_neg_r = False, dv_by_zero = False, dv_overflow = False, dv_remainder = 0, dv_quotient = 0,
     dv_divisor_abs = 0, dv_dividend_abs = 0, dv_iter = 0, dv_done = False, dv_result = 0\<rparr>"

definition negate :: "u32 \<Rightarrow> u32" where "negate x = NOT x + 1"

text \<open>\<open>S_IDLE\<close> with \<open>start\<close>: latch the operands' magnitudes, signs and special cases.\<close>

definition div_start :: "div_in \<Rightarrow> div_unit \<Rightarrow> div_unit" where
  "div_start i s =
     (let a = di_dividend i; b = di_divisor i;
          a_neg = di_signed i \<and> bit a 31; b_neg = di_signed i \<and> bit b 31
      in s\<lparr>dv_sign := di_signed i, dv_rem := di_want_rem i,
           dv_by_zero := (b = 0),
           dv_overflow := (di_signed i \<and> a = 0x80000000 \<and> b = 0xFFFFFFFF),
           dv_neg_q := (a_neg \<noteq> b_neg), dv_neg_r := a_neg,
           dv_divisor_abs := (if b_neg then negate b else b),
           dv_dividend_abs := (if a_neg then negate a else a),
           dv_remainder := 0, dv_quotient := 0, dv_iter := 0, dv_state := S_INIT\<rparr>)"

text \<open>One restoring step on 33 bits.\<close>

definition r_shift :: "div_unit \<Rightarrow> 33 word" where
  "r_shift s = push_bit 1 (ucast (dv_remainder s)) OR bw (bit (dv_dividend_abs s) 31)"

definition r_sub :: "div_unit \<Rightarrow> 33 word" where
  "r_sub s = r_shift s - ucast (dv_divisor_abs s)"

definition r_ge :: "div_unit \<Rightarrow> bool" where "r_ge s = (\<not> bit (r_sub s) 32)"

definition div_compute :: "div_unit \<Rightarrow> div_unit" where
  "div_compute s =
     s\<lparr>dv_remainder := (if r_ge s then fld 0 (r_sub s) else fld 0 (r_shift s)),
       dv_quotient := push_bit 1 (dv_quotient s) OR bw (r_ge s),
       dv_dividend_abs := push_bit 1 (dv_dividend_abs s),
       dv_iter := dv_iter s + 1,
       dv_state := (if dv_iter s = 31 then S_FIXUP else S_COMPUTE)\<rparr>"

definition div_step :: "bool \<Rightarrow> div_in \<Rightarrow> div_unit \<Rightarrow> div_unit" where
  "div_step rst i s0 =
     (if rst then div_reset
      else
        let s = s0\<lparr>dv_done := False\<rparr> in
        case dv_state s of
          S_IDLE \<Rightarrow> if di_start i then div_start i s else s
        | S_INIT \<Rightarrow>
            if dv_by_zero s
            then s\<lparr>dv_result := (if dv_rem s
                     then (if dv_neg_r s then negate (dv_dividend_abs s) else dv_dividend_abs s)
                     else 0xFFFFFFFF),
                   dv_done := True, dv_state := S_IDLE\<rparr>
            else if dv_overflow s
            then s\<lparr>dv_result := (if dv_rem s then 0 else 0x80000000), dv_done := True, dv_state := S_IDLE\<rparr>
            else s\<lparr>dv_state := S_COMPUTE\<rparr>
        | S_COMPUTE \<Rightarrow> div_compute s
        | S_FIXUP \<Rightarrow>
            s\<lparr>dv_result := (if dv_rem s
                 then (if dv_neg_r s then negate (dv_remainder s) else dv_remainder s)
                 else (if dv_neg_q s then negate (dv_quotient s) else dv_quotient s)),
              dv_done := True, dv_state := S_IDLE\<rparr>)"

text \<open>The RISC-V M-extension result.\<close>

definition rv_div :: "bool \<Rightarrow> bool \<Rightarrow> u32 \<Rightarrow> u32 \<Rightarrow> u32" where
  "rv_div is_signed want_rem a b =
     (if b = 0 then (if want_rem then a else - 1)
      else if want_rem then word_of_int (operand is_signed a smod operand is_signed b)
      else word_of_int (operand is_signed a sdiv operand is_signed b))"

section \<open>The divider computes the RISC-V result\<close>

lemma push1_bw: "push_bit 1 x OR bw b = 2 * x + (bw b :: 'a::len word)"
proof -
  have "y AND (bw b :: 'a word) = 0" if "\<not> bit y 0" for y
    using that by (intro bit_word_eqI) (auto simp: bw_def bit_and_iff bit_1_iff intro: gr0I)
  moreover have "\<not> bit (push_bit 1 x) 0" by (simp add: bit_push_bit_iff del: push_bit_Suc)
  ultimately have "push_bit 1 x AND (bw b :: 'a word) = 0" by blast
  then have "push_bit 1 x OR bw b = push_bit 1 x + (bw b :: 'a word)"
    using word_plus_and_or[of "push_bit 1 x" "bw b :: 'a word"] by simp
  then show ?thesis by (simp add: push_bit_eq_mult mult.commute)
qed

text \<open>After \<open>k\<close> of the 32 steps: the top \<open>k\<close> bits of the dividend have been divided.\<close>

definition div_inv :: "u32 \<Rightarrow> nat \<Rightarrow> div_unit \<Rightarrow> bool" where
  "div_inv A k s \<longleftrightarrow> k < 32 \<and> dv_state s = S_COMPUTE \<and> dv_iter s = of_nat k \<and>
     dv_divisor_abs s \<noteq> 0 \<and> dv_dividend_abs s = push_bit k A \<and>
     unat (dv_remainder s) = unat A div 2 ^ (32 - k) mod unat (dv_divisor_abs s) \<and>
     unat (dv_quotient s) = unat A div 2 ^ (32 - k) div unat (dv_divisor_abs s)"

lemma restoring_arith:
  fixes P D b :: nat
  assumes "0 < D" "b < 2"
  shows "(2 * P + b) div D = 2 * (P div D) + (if D \<le> 2 * (P mod D) + b then 1 else 0)"
    and "(2 * P + b) mod D = 2 * (P mod D) + b - (if D \<le> 2 * (P mod D) + b then D else 0)"
proof -
  let ?x = "2 * (P mod D) + b"
  have "P div D * D + P mod D = P" by simp
  moreover have "2 * (P div D) * D = 2 * (P div D * D)" by (simp only: mult.assoc)
  ultimately have e: "2 * P + b = 2 * (P div D) * D + ?x" by linarith
  have x: "?x < 2 * D" using assms mod_less_divisor[of D P] by linarith
  have d: "?x div D = (if D \<le> ?x then 1 else 0)"
  proof (cases "D \<le> ?x")
    case True
    then show ?thesis using div_nat_eqI[of D 1 ?x] x by simp
  next
    case False
    then show ?thesis by simp
  qed
  have m: "?x mod D = ?x - (if D \<le> ?x then D else 0)"
  proof (cases "D \<le> ?x")
    case True
    then show ?thesis using le_mod_geq[OF True] x by simp
  next
    case False
    then show ?thesis by simp
  qed
  have "(2 * P + b) div D = 2 * (P div D) + ?x div D"
    unfolding e using assms(1) by (intro div_mult_self3) simp
  moreover have "(2 * P + b) mod D = ?x mod D" unfolding e by (rule mod_mult_self3)
  ultimately show "(2 * P + b) div D = 2 * (P div D) + (if D \<le> ?x then 1 else 0)"
    "(2 * P + b) mod D = ?x - (if D \<le> ?x then D else 0)"
    unfolding d m .
qed

lemma next_prefix:
  fixes A :: u32
  assumes "k < 32"
  shows "unat A div 2 ^ (31 - k) = 2 * (unat A div 2 ^ (32 - k)) + (if bit A (31 - k) then 1 else 0)"
proof -
  have k: "32 - k = Suc (31 - k)" using assms by simp
  have "unat A div 2 ^ (32 - k) = unat A div 2 ^ (31 - k) div 2"
    unfolding k power_Suc2 div_mult2_eq by (rule refl)
  moreover have "bit A (31 - k) \<longleftrightarrow> odd (unat A div 2 ^ (31 - k))"
    using bit_iff_odd[of "unat A" "31 - k"] bit_unsigned_iff[of A "31 - k", where 'a = nat]
    by (auto dest: bit_imp_le_length)
  moreover have "n = 2 * (n div 2) + (if odd n then 1 else 0)" for n :: nat by presburger
  ultimately show ?thesis by simp
qed

lemma r_shift_val:
  "unat (r_shift s) = 2 * unat (dv_remainder s) + (if bit (dv_dividend_abs s) 31 then 1 else 0)"
proof -
  have "unat (dv_remainder s) < 2 ^ 32" using unat_u32_less by simp
  then show ?thesis unfolding r_shift_def push1_bw
    by (simp add: unat_word_ariths unsigned_ucast_eq take_bit_eq_mod bw_def)
qed

lemma r_sub_val:
  assumes "unat (r_shift s) < 2 * unat (dv_divisor_abs s)"
  shows "r_ge s \<longleftrightarrow> unat (dv_divisor_abs s) \<le> unat (r_shift s)"
    and "unat (dv_divisor_abs s) \<le> unat (r_shift s) \<Longrightarrow>
      unat (fld 0 (r_sub s) :: u32) = unat (r_shift s) - unat (dv_divisor_abs s)"
    and "unat (r_shift s) < unat (dv_divisor_abs s) \<Longrightarrow> unat (fld 0 (r_shift s) :: u32) = unat (r_shift s)"
proof -
  let ?D = "ucast (dv_divisor_abs s) :: 33 word"
  have D: "unat ?D = unat (dv_divisor_abs s)" "unat (dv_divisor_abs s) < 2 ^ 32"
    using unat_u32_less[of "dv_divisor_abs s"] by (simp_all add: unsigned_ucast_eq take_bit_eq_mod)
  have b32: "bit x 32 \<longleftrightarrow> 2 ^ 32 \<le> unat x" for x :: "33 word"
  proof -
    have "unat x < 2 ^ 33" using unsigned_less[of x, where 'a = nat] by simp
    then have "unat x div 2 ^ 32 = (if 2 ^ 32 \<le> unat x then 1 else 0)" by (auto intro: div_nat_eqI)
    then show ?thesis using bit_iff_odd[of "unat x" 32] bit_unsigned_iff[of x 32, where 'a = nat] by simp
  qed
  have ge: "unat (r_sub s) = unat (r_shift s) - unat ?D" if "unat ?D \<le> unat (r_shift s)"
    using that by (simp add: r_sub_def unat_sub word_le_nat_alt)
  have lt: "2 ^ 32 \<le> unat (r_sub s)" if l: "unat (r_shift s) < unat ?D"
  proof -
    have "unat (r_sub s) = 2 ^ 33 + unat (r_shift s) - unat ?D"
      using l by (simp add: r_sub_def unat_sub_if_size word_size)
    then show ?thesis using D by simp
  qed
  show "r_ge s \<longleftrightarrow> unat (dv_divisor_abs s) \<le> unat (r_shift s)"
    using ge lt D assms by (cases "unat ?D \<le> unat (r_shift s)") (auto simp: r_ge_def b32 not_le)
  show "unat (fld 0 (r_sub s) :: u32) = unat (r_shift s) - unat (dv_divisor_abs s)"
    if "unat (dv_divisor_abs s) \<le> unat (r_shift s)"
    using ge that D assms by (simp add: unat_fld)
  show "unat (fld 0 (r_shift s) :: u32) = unat (r_shift s)"
    if "unat (r_shift s) < unat (dv_divisor_abs s)"
    using that D by (simp add: unat_fld)
qed

lemma div_compute_inv:
  assumes "div_inv A k s"
  shows "unat (dv_remainder (div_compute s)) = unat A div 2 ^ (31 - k) mod unat (dv_divisor_abs s)"
    and "unat (dv_quotient (div_compute s)) = unat A div 2 ^ (31 - k) div unat (dv_divisor_abs s)"
    and "dv_dividend_abs (div_compute s) = push_bit (Suc k) A"
proof -
  let ?D = "unat (dv_divisor_abs s)" and ?P = "unat A div 2 ^ (32 - k)"
  let ?b = "if bit A (31 - k) then 1 else 0 :: nat"
  have k: "k < 32" and D: "0 < ?D" and q: "unat (dv_quotient s) = ?P div ?D" "unat (dv_remainder s) = ?P mod ?D"
    using assms by (simp_all add: div_inv_def unat_gt_0)
  have "bit (dv_dividend_abs s) 31 \<longleftrightarrow> bit A (31 - k)"
    using assms by (simp add: div_inv_def bit_push_bit_iff)
  then have rs: "unat (r_shift s) = 2 * (?P mod ?D) + ?b" by (simp add: r_shift_val q)
  have r2: "unat (r_shift s) < 2 * ?D" using rs mod_less_divisor[OF D, of ?P] by simp
  note sub = r_sub_val[OF r2]
  have pre: "unat A div 2 ^ (31 - k) = 2 * ?P + ?b" by (rule next_prefix[OF k])
  have b2: "?b < 2" by simp
  show "unat (dv_remainder (div_compute s)) = unat A div 2 ^ (31 - k) mod ?D"
    unfolding pre restoring_arith(2)[OF D b2] using sub rs by (simp add: div_compute_def not_le)
  have "unat A div 2 ^ (31 - k) div ?D \<le> unat A"
    by (meson div_le_dividend order_trans)
  then have "(2 * ?P + ?b) div ?D < 4294967296" unfolding pre using unat_u32_less[of A] by linarith
  then have "2 * (?P div ?D) + (if r_ge s then 1 else 0) < 4294967296"
    unfolding restoring_arith(1)[OF D b2] by (simp only: sub(1) rs)
  then have "unat (dv_quotient (div_compute s)) = 2 * (?P div ?D) + (if r_ge s then 1 else 0)"
    unfolding div_compute_def push1_bw by (cases "r_ge s") (simp_all add: unat_word_ariths bw_def q)
  then show "unat (dv_quotient (div_compute s)) = unat A div 2 ^ (31 - k) div ?D"
    unfolding pre restoring_arith(1)[OF D b2] by (simp only: sub(1) rs)
  show "dv_dividend_abs (div_compute s) = push_bit (Suc k) A"
    using assms by (simp add: div_compute_def div_inv_def)
qed

fun div_run :: "div_in list \<Rightarrow> div_unit \<Rightarrow> div_unit" where
  "div_run [] s = s"
| "div_run (i # is) s = div_run is (div_step False i s)"

lemma div_run_append: "div_run (xs @ ys) s = div_run ys (div_run xs s)"
  by (induction xs arbitrary: s) simp_all

text \<open>What the unit keeps of an accepted operation.\<close>

definition latched :: "div_in \<Rightarrow> div_unit \<Rightarrow> bool" where
  "latched i s \<longleftrightarrow>
     dv_rem s = di_want_rem i \<and>
     dv_neg_q s = ((di_signed i \<and> bit (di_dividend i) 31) \<noteq> (di_signed i \<and> bit (di_divisor i) 31)) \<and>
     dv_neg_r s = (di_signed i \<and> bit (di_dividend i) 31)"

definition mag :: "bool \<Rightarrow> u32 \<Rightarrow> u32" where
  "mag sg x = (if sg \<and> bit x 31 then negate x else x)"

lemma negate_uminus [simp]: "negate x = - x"
  by (simp add: negate_def minus_eq_not_plus_1)

lemma mag_operand: "uint (mag sg x) = \<bar>operand sg x\<bar>"
  and mag_neg: "sg \<and> bit x 31 \<longleftrightarrow> operand sg x < 0"
  and mag_zero: "mag sg x = 0 \<longleftrightarrow> x = 0"
proof -
  have u: "0 \<le> uint x" "uint x < 4294967296" using uint_bounded[of x] by simp_all
  have b: "bit x 31 \<longleftrightarrow> 2147483648 \<le> uint x"
  proof -
    have "uint x div 2147483648 = 1" if "2147483648 \<le> uint x"
      by (rule int_div_pos_eq[where r = "uint x - 2147483648"]) (use that u in simp_all)
    moreover have "uint x div 2147483648 = 0" if "\<not> 2147483648 \<le> uint x"
      using that u by (intro div_pos_pos_trivial) simp_all
    ultimately have "odd (uint x div 2147483648) \<longleftrightarrow> 2147483648 \<le> uint x" by fastforce
    then show ?thesis using bit_iff_odd[of "uint x" 31] bit_unsigned_iff[of x 31, where 'a = int] by simp
  qed
  have s: "sint x = (if 2147483648 \<le> uint x then uint x - 4294967296 else uint x)"
  proof -
    have "sint x = (uint x + 2147483648) mod 4294967296 - 2147483648"
      by (simp add: sint_uint signed_take_bit_eq_take_bit_shift take_bit_eq_mod)
    moreover have "(uint x + 2147483648) mod 4294967296 =
        (if 2147483648 \<le> uint x then uint x - 2147483648 else uint x + 2147483648)"
      using u by (auto simp: mod_pos_pos_trivial mod_pos_geq)
    ultimately show ?thesis by simp
  qed
  show "sg \<and> bit x 31 \<longleftrightarrow> operand sg x < 0" using b s u by (auto simp: operand_def)
  show "mag sg x = 0 \<longleftrightarrow> x = 0" by (simp add: mag_def)
  show "uint (mag sg x) = \<bar>operand sg x\<bar>"
  proof (cases "sg \<and> bit x 31")
    case True
    then have "uint (- x) = 4294967296 - uint x"
      using b u by (simp add: uint_word_ariths zmod_zminus1_eq_if)
    then show ?thesis using True b s u by (simp add: mag_def operand_def)
  next
    case False
    then show ?thesis using b s u by (auto simp: mag_def operand_def)
  qed
qed

lemma div_start_sel:
  "dv_state (div_start i s) = S_INIT" "dv_done (div_start i s) = dv_done s"
  "dv_by_zero (div_start i s) = (di_divisor i = 0)"
  "dv_overflow (div_start i s) = (di_signed i \<and> di_dividend i = 0x80000000 \<and> di_divisor i = 0xFFFFFFFF)"
  "dv_divisor_abs (div_start i s) = mag (di_signed i) (di_divisor i)"
  "dv_dividend_abs (div_start i s) = mag (di_signed i) (di_dividend i)"
  "dv_remainder (div_start i s) = 0" "dv_quotient (div_start i s) = 0" "dv_iter (div_start i s) = 0"
  "latched i (div_start i s)"
  by (auto simp: div_start_def Let_def mag_def latched_def)

text \<open>The \<open>k\<close>-th cycle of the compute phase, and the cycle of the sign fix-up.\<close>

definition computing :: "div_in \<Rightarrow> nat \<Rightarrow> div_unit \<Rightarrow> bool" where
  "computing i k s \<longleftrightarrow> div_inv (mag (di_signed i) (di_dividend i)) k s \<and>
     dv_divisor_abs s = mag (di_signed i) (di_divisor i) \<and> latched i s \<and> \<not> dv_done s"

definition fixing :: "div_in \<Rightarrow> div_unit \<Rightarrow> bool" where
  "fixing i s \<longleftrightarrow> dv_state s = S_FIXUP \<and> latched i s \<and> \<not> dv_done s \<and>
     unat (dv_quotient s) = unat (mag (di_signed i) (di_dividend i)) div unat (mag (di_signed i) (di_divisor i)) \<and>
     unat (dv_remainder s) = unat (mag (di_signed i) (di_dividend i)) mod unat (mag (di_signed i) (di_divisor i))"

lemma computing_step:
  assumes "computing i k s"
  shows "if k = 31 then fixing i (div_step False j s) else computing i (Suc k) (div_step False j s)"
proof -
  let ?A = "mag (di_signed i) (di_dividend i)"
  let ?s = "s\<lparr>dv_done := False\<rparr>"
  have inv: "div_inv ?A k ?s" using assms by (auto simp: computing_def div_inv_def)
  have st: "div_step False j s = div_compute ?s" using assms by (auto simp: div_step_def computing_def div_inv_def Let_def)
  note c = div_compute_inv[OF inv]
  have k: "k < 32" "dv_iter s = of_nat k" using assms by (auto simp: computing_def div_inv_def)
  have "dv_iter s = 31 \<longleftrightarrow> k = 31"
    using k by (auto simp: word_unat_eq_iff unat_of_nat)
  then show ?thesis
    using c assms k
    by (cases "k = 31") (auto simp: st computing_def fixing_def div_inv_def latched_def div_compute_def)
qed

lemma computing_run:
  assumes "computing i k s"
  shows "(k + length js < 32 \<longrightarrow> computing i (k + length js) (div_run js s)) \<and>
    (k + length js = 32 \<longrightarrow> fixing i (div_run js s))"
  using assms
proof (induction js arbitrary: k s)
  case Nil
  then show ?case by (auto simp: computing_def div_inv_def)
next
  case (Cons j js)
  show ?case
  proof (cases "k = 31")
    case True
    then show ?thesis using computing_step[OF Cons.prems, of j] by auto
  next
    case False
    then have "computing i (Suc k) (div_step False j s)" using computing_step[OF Cons.prems, of j] by simp
    from Cons.IH[OF this] show ?thesis by simp
  qed
qed

lemma init_step:
  assumes "di_divisor i \<noteq> 0" "\<not> (di_signed i \<and> di_dividend i = 0x80000000 \<and> di_divisor i = 0xFFFFFFFF)"
  shows "computing i 0 (div_step False j (div_start i (s\<lparr>dv_done := False\<rparr>)))"
proof -
  let ?t = "div_start i (s\<lparr>dv_done := False\<rparr>)"
  have A: "unat (mag (di_signed i) (di_dividend i)) < 4294967296" by (rule unat_u32_less)
  have "div_step False j ?t = ?t\<lparr>dv_state := S_COMPUTE\<rparr>"
    using assms by (auto simp: div_step_def div_start_sel Let_def)
  then show ?thesis
    using assms A div_start_sel(10)[of i "s\<lparr>dv_done := False\<rparr>"]
    by (simp add: computing_def div_inv_def div_start_sel mag_zero latched_def)
qed

text \<open>The fixed-up result is the RISC-V result.\<close>

lemma fixup_result:
  fixes j :: div_in
  assumes "fixing i s" "di_divisor i \<noteq> 0"
  defines "s' \<equiv> div_step False j s"
  shows "dv_done s'" "dv_state s' = S_IDLE"
    "dv_result s' = rv_div (di_signed i) (di_want_rem i) (di_dividend i) (di_divisor i)"
proof -
  let ?x = "operand (di_signed i) (di_dividend i)" and ?y = "operand (di_signed i) (di_divisor i)"
  have y0: "?y \<noteq> 0" using assms(2) mag_operand[of "di_signed i" "di_divisor i"] mag_zero[of "di_signed i" "di_divisor i"]
    by (metis abs_eq_0 uint_0_iff)
  have n: "latched i s" using assms(1) by (simp add: fixing_def)
  have "uint (dv_quotient s) = \<bar>?x\<bar> div \<bar>?y\<bar>" "uint (dv_remainder s) = \<bar>?x\<bar> mod \<bar>?y\<bar>"
  proof -
    let ?A = "mag (di_signed i) (di_dividend i)" and ?D = "mag (di_signed i) (di_divisor i)"
    have "unat (dv_quotient s) = unat ?A div unat ?D" "unat (dv_remainder s) = unat ?A mod unat ?D"
      using assms(1) unfolding fixing_def by blast+
    then have "int (unat (dv_quotient s)) = int (unat ?A) div int (unat ?D)"
      "int (unat (dv_remainder s)) = int (unat ?A) mod int (unat ?D)"
      by (simp_all only: zdiv_int zmod_int)
    then show "uint (dv_quotient s) = \<bar>?x\<bar> div \<bar>?y\<bar>" "uint (dv_remainder s) = \<bar>?x\<bar> mod \<bar>?y\<bar>"
      by (simp_all only: of_nat_unat mag_operand)
  qed
  then have q: "dv_quotient s = word_of_int (\<bar>?x\<bar> div \<bar>?y\<bar>)" and r: "dv_remainder s = word_of_int (\<bar>?x\<bar> mod \<bar>?y\<bar>)"
    by (metis word_of_int_uint)+
  have sg: "dv_neg_q s \<longleftrightarrow> (?x < 0) \<noteq> (?y < 0)" "dv_neg_r s \<longleftrightarrow> ?x < 0"
    using n by (simp_all add: latched_def mag_neg)
  have st: "div_step False j s = s\<lparr>dv_result := (if dv_rem s
                 then (if dv_neg_r s then negate (dv_remainder s) else dv_remainder s)
                 else (if dv_neg_q s then negate (dv_quotient s) else dv_quotient s)),
              dv_done := True, dv_state := S_IDLE\<rparr>"
    using assms(1) by (simp add: div_step_def fixing_def Let_def)
  show "dv_done s'" "dv_state s' = S_IDLE" by (simp_all add: s'_def st)
  have div_sgn: "?x sdiv ?y = (if (?x < 0) \<noteq> (?y < 0) then - (\<bar>?x\<bar> div \<bar>?y\<bar>) else \<bar>?x\<bar> div \<bar>?y\<bar>)"
    using y0 by (auto simp: signed_divide_int_def sgn_if)
  have mod_sgn: "?x smod ?y = (if ?x < 0 then - (\<bar>?x\<bar> mod \<bar>?y\<bar>) else \<bar>?x\<bar> mod \<bar>?y\<bar>)"
    by (auto simp: signed_modulo_int_def sgn_if)
  have rm: "dv_rem s = di_want_rem i" using n by (simp add: latched_def)
  show "dv_result s' = rv_div (di_signed i) (di_want_rem i) (di_dividend i) (di_divisor i)"
    unfolding s'_def st rv_div_def div_sgn mod_sgn using assms(2) by (simp add: q r sg rm)
qed

definition div_latency :: "div_in \<Rightarrow> nat" where
  "div_latency i = (if di_divisor i = 0 \<or> di_signed i \<and> di_dividend i = 0x80000000 \<and> di_divisor i = 0xFFFFFFFF
     then 1 else 34)"

lemma special_result:
  fixes s :: div_unit and j :: div_in
  assumes "div_latency i = 1"
  defines "t \<equiv> div_step False j (div_start i (s\<lparr>dv_done := False\<rparr>))"
  shows "dv_done t" "dv_state t = S_IDLE"
    "dv_result t = rv_div (di_signed i) (di_want_rem i) (di_dividend i) (di_divisor i)"
proof -
  let ?s = "div_start i (s\<lparr>dv_done := False\<rparr>)"
  have rm: "dv_rem ?s = di_want_rem i" "dv_neg_r ?s \<longleftrightarrow> di_signed i \<and> bit (di_dividend i) 31"
    using div_start_sel(10)[of i "s\<lparr>dv_done := False\<rparr>"] by (auto simp: latched_def)
  have sp: "di_divisor i = 0 \<or> di_signed i \<and> di_dividend i = 0x80000000 \<and> di_divisor i = 0xFFFFFFFF"
    using assms(1) by (simp add: div_latency_def split: if_splits)
  have ov: "word_of_int (sint (0x80000000 :: u32) sdiv sint (0xFFFFFFFF :: u32)) = (0x80000000 :: u32)"
    "sint (0x80000000 :: u32) smod sint (0xFFFFFFFF :: u32) = 0"
    by (simp_all add: signed_divide_int_def signed_modulo_int_def)
  show "dv_done t" "dv_state t = S_IDLE"
    using sp by (auto simp: t_def div_step_def div_start_sel Let_def)
  show "dv_result t = rv_div (di_signed i) (di_want_rem i) (di_dividend i) (di_divisor i)"
    using sp rm ov by (auto simp: t_def div_step_def div_start_sel rv_div_def operand_def mag_def Let_def)
qed

lemma div_unit_run:
  fixes s :: div_unit
  assumes "dv_state s = S_IDLE" "di_start i" "length js \<le> div_latency i"
  shows "let t = div_run js (div_step False i s) in
    if length js < div_latency i then dv_busy t \<and> \<not> dv_done t
    else \<not> dv_busy t \<and> dv_done t \<and>
      dv_result t = rv_div (di_signed i) (di_want_rem i) (di_dividend i) (di_divisor i)"
proof -
  let ?s = "div_start i (s\<lparr>dv_done := False\<rparr>)"
  have st: "div_step False i s = ?s" using assms by (simp add: div_step_def Let_def)
  show ?thesis
  proof (cases js)
    case Nil
    then show ?thesis by (simp add: st div_start_sel dv_busy_def div_latency_def)
  next
    case (Cons j ks)
    show ?thesis
    proof (cases "div_latency i = 1")
      case True
      then have "ks = []" using Cons assms(3) by simp
      then show ?thesis using special_result[OF True, of j s] Cons True by (simp add: st dv_busy_def)
    next
      case False
      then have sp: "div_latency i = 34" "di_divisor i \<noteq> 0"
        "\<not> (di_signed i \<and> di_dividend i = 0x80000000 \<and> di_divisor i = 0xFFFFFFFF)"
        by (simp_all add: div_latency_def split: if_splits)
      have run: "computing i 0 (div_step False j ?s)" by (rule init_step[OF sp(2,3)])
      have len: "length ks \<le> 33" using Cons assms(3) sp by simp
      consider "length ks < 32" | "length ks = 32" | m l where "ks = m @ [l]" "length m = 32"
      proof (cases "length ks = 33")
        case True
        then have "ks = take 32 ks @ [ks ! 32]" using take_Suc_conv_app_nth[of 32 ks] by simp
        then show ?thesis using that(3)[of "take 32 ks" "ks ! 32"] True by simp
      qed (use that len in linarith)
      then show ?thesis
      proof cases
        case 1
        then have "computing i (length ks) (div_run ks (div_step False j ?s))" using computing_run[OF run, of ks] by simp
        then show ?thesis using 1 sp Cons by (auto simp: st dv_busy_def computing_def div_inv_def)
      next
        case 2
        then have "fixing i (div_run ks (div_step False j ?s))" using computing_run[OF run, of ks] by simp
        then show ?thesis using 2 sp Cons by (auto simp: st dv_busy_def fixing_def)
      next
        case 3
        then have "fixing i (div_run m (div_step False j ?s))" using computing_run[OF run, of m] by simp
        from fixup_result[OF this sp(2), of l] show ?thesis
          using 3 sp Cons by (simp add: st dv_busy_def div_run_append)
      qed
    qed
  qed
qed

text \<open>
  C10. From idle, \<open>start\<close> makes the divider busy for 34 cycles (one, for division by zero and for the
  signed overflow), whatever its inputs do meanwhile; in the next it is idle, \<open>done\<close> is high and
  \<open>result\<close> is the RISC-V quotient or remainder of the operands of the start cycle.
\<close>

theorem div_unit_correct:
  fixes s :: div_unit
  assumes "dv_state s = S_IDLE" "di_start i" "length js \<le> div_latency i"
  shows "let t = div_run js (div_step False i s) in
    if length js < div_latency i then dv_busy t \<and> \<not> dv_done t
    else \<not> dv_busy t \<and> dv_done t \<and>
      dv_result t = rv_div (di_signed i) (di_want_rem i) (di_dividend i) (di_divisor i)"
  using assms by (rule div_unit_run)

theorem div_unit_correct_witness:
  "let i = \<lparr>di_start = True, di_signed = True, di_want_rem = True, di_dividend = - 7, di_divisor = 2\<rparr>
   in dv_result (div_run (replicate 34 i) (div_step False i div_reset)) = - 1"
proof -
  let ?i = "\<lparr>di_start = True, di_signed = True, di_want_rem = True, di_dividend = - 7, di_divisor = 2\<rparr>"
  have "rv_div True True (- 7) 2 = - 1"
    by (simp add: rv_div_def operand_def signed_modulo_int_def)
  then show ?thesis
    using div_unit_correct[of div_reset ?i "replicate 34 ?i"]
    by (simp add: div_reset_def div_latency_def Let_def)
qed

section \<open>Immediates\<close>

definition rep :: "bool \<Rightarrow> 'a::len word" where "rep b = (if b then - 1 else 0)"

definition imm_i :: "u32 \<Rightarrow> u32" where
  "imm_i instr = word_cat (rep (bit instr 31) :: 20 word) (fld 20 instr :: 12 word)"

definition imm_s :: "u32 \<Rightarrow> u32" where
  "imm_s instr = word_cat (rep (bit instr 31) :: 20 word)
     (word_cat (fld 25 instr :: 7 word) (fld 7 instr :: 5 word) :: 12 word)"

definition imm_b :: "u32 \<Rightarrow> u32" where
  "imm_b instr = word_cat (rep (bit instr 31) :: 19 word)
     (word_cat (word_cat (bw (bit instr 31) :: 1 word) (bw (bit instr 7) :: 1 word) :: 2 word)
       (word_cat (fld 25 instr :: 6 word) (word_cat (fld 8 instr :: 4 word) (0 :: 1 word) :: 5 word) :: 11 word)
       :: 13 word)"

definition imm_u :: "u32 \<Rightarrow> u32" where
  "imm_u instr = word_cat (fld 12 instr :: 20 word) (0 :: 12 word)"

definition imm_j :: "u32 \<Rightarrow> u32" where
  "imm_j instr = word_cat (rep (bit instr 31) :: 11 word)
     (word_cat (word_cat (bw (bit instr 31) :: 1 word) (fld 12 instr :: 8 word) :: 9 word)
       (word_cat (bw (bit instr 20) :: 1 word) (word_cat (fld 21 instr :: 10 word) (0 :: 1 word) :: 11 word) :: 12 word)
       :: 21 word)"

text \<open>
  The instruction formats of the RISC-V manual, as an assembler fills them: the immediate \<open>k\<close> scattered
  over an instruction whose other fields are those of \<open>w\<close>.
\<close>

definition put :: "nat \<Rightarrow> nat \<Rightarrow> nat \<Rightarrow> 'a::len word \<Rightarrow> u32 \<Rightarrow> u32" where
  "put lo from n k w = (w AND NOT (push_bit lo (mask n))) OR push_bit lo (ucast (drop_bit from k) AND mask n)"

definition enc_i :: "12 word \<Rightarrow> u32 \<Rightarrow> u32" where "enc_i k w = put 20 0 12 k w"
definition enc_s :: "12 word \<Rightarrow> u32 \<Rightarrow> u32" where "enc_s k w = put 25 5 7 k (put 7 0 5 k w)"
definition enc_b :: "12 word \<Rightarrow> u32 \<Rightarrow> u32" where
  "enc_b k w = put 31 11 1 k (put 7 10 1 k (put 25 4 6 k (put 8 0 4 k w)))"
definition enc_u :: "20 word \<Rightarrow> u32 \<Rightarrow> u32" where "enc_u k w = put 12 0 20 k w"
definition enc_j :: "20 word \<Rightarrow> u32 \<Rightarrow> u32" where
  "enc_j k w = put 31 19 1 k (put 12 11 8 k (put 20 10 1 k (put 21 0 10 k w)))"

lemma bit_put: "bit (put lo from n (k :: 'a::len word) w) m \<longleftrightarrow>
    (if lo \<le> m \<and> m < lo + n then m < 32 \<and> bit k (from + (m - lo)) else bit w m)"
  by (auto simp: put_def bit_or_iff bit_and_iff bit_not_iff bit_push_bit_iff bit_mask_iff
      bit_ucast_iff bit_drop_bit_eq add.commute dest: bit_imp_le_length)

lemma bit_rep: "bit (rep b :: 'a::len word) n \<longleftrightarrow> b \<and> n < LENGTH('a)"
  by (simp add: rep_def)

lemma bit_bw: "bit (bw b :: 'a::len word) n \<longleftrightarrow> b \<and> n = 0"
  by (simp add: bw_def bit_1_iff)

lemma u32_bits_eqI:
  fixes x y :: u32
  assumes "\<And>n. n \<in> set [0..<32] \<Longrightarrow> bit x n = bit y n"
  shows "x = y"
  using assms by (intro bit_word_eqI) simp

lemmas imm_bits = bit_word_cat_iff bit_rep bit_bw bit_fld bit_put bit_push_bit_iff bit_signed_iff bit_ucast_iff

lemma bit_dbl: "bit (2 * x :: 'a::len word) n \<longleftrightarrow> 0 < n \<and> n < LENGTH('a) \<and> bit x (n - 1)"
  by (auto simp: bit_double_iff)

lemma nat_11: "11 \<le> n \<Longrightarrow> n < 12 \<Longrightarrow> n = (11 :: nat)"
  by simp

lemma nat_12: "n \<noteq> 11 \<Longrightarrow> \<not> n < 11 \<Longrightarrow> n < 13 \<Longrightarrow> n = (12 :: nat)"
  by simp

lemma nat_11': "\<not> n < 11 \<Longrightarrow> n < 12 \<Longrightarrow> n = (11 :: nat)"
  and nat_20: "\<not> n < 20 \<Longrightarrow> n < 21 \<Longrightarrow> n = (20 :: nat)"
  by simp_all

text \<open>
  An immediate that an assembler puts into an I-, S-, B-, U- or J-format instruction is decoded to
  exactly that value: sign-extended, and doubled for branches and jumps, whatever the other fields hold.
\<close>

theorem imm_gen_decodes:
  "imm_i (enc_i k w) = scast k \<and> imm_s (enc_s k w) = scast k \<and> imm_b (enc_b k w) = 2 * (scast k) \<and>
   imm_u (enc_u l w) = push_bit 12 (ucast l) \<and> imm_j (enc_j l w) = 2 * (scast l)"
proof (intro conjI)
  show "imm_i (enc_i k w) = scast k"
    by (rule u32_bits_eqI) (auto simp: imm_i_def enc_i_def imm_bits min_def dest: nat_11)
  show "imm_s (enc_s k w) = scast k"
    by (rule u32_bits_eqI) (auto simp: imm_s_def enc_s_def imm_bits min_def dest: nat_11)
  show "imm_u (enc_u l w) = push_bit 12 (ucast l)"
    by (rule u32_bits_eqI) (auto simp: imm_u_def enc_u_def imm_bits)
  show "imm_b (enc_b k w) = 2 * (scast k)"
    by (rule u32_bits_eqI) (auto simp: imm_b_def enc_b_def imm_bits bit_dbl dest: nat_12)
  show "imm_j (enc_j l w) = 2 * (scast l)"
    by (rule u32_bits_eqI) (auto simp: imm_j_def enc_j_def imm_bits bit_dbl dest: nat_11' nat_20)
qed

section \<open>Register file\<close>

type_synonym regs = "5 word \<Rightarrow> u32"

definition rf_read :: "regs \<Rightarrow> 5 word \<Rightarrow> u32" where
  "rf_read regs a = (if a = 0 then 0 else regs a)"

definition rf_step :: "bool \<Rightarrow> 5 word \<Rightarrow> u32 \<Rightarrow> regs \<Rightarrow> regs" where
  "rf_step wen rd d regs = (if wen \<and> rd \<noteq> 0 then regs(rd := d) else regs)"

lemma rf_read_step [simp]:
  "rf_read (rf_step wen rd d regs) a = (if wen \<and> rd = a \<and> a \<noteq> 0 then d else rf_read regs a)"
  by (auto simp: rf_read_def rf_step_def)

end
