(* ===== verification/Pmp.thy ===== *)
theory Pmp
  imports Prelude
begin

text \<open>
  The physical-memory-protection check, \<open>rtl/core/pmp.sv\<close>: which of the sixteen entries governs an
  access, and whether it is allowed.
\<close>

section \<open>Model\<close>

type_synonym pmp_cfg = "nat \<Rightarrow> u8"
type_synonym pmp_addr = "nat \<Rightarrow> u32"

definition PRV_U :: "2 word" where "PRV_U = 0"
definition PRV_S :: "2 word" where "PRV_S = 1"
definition PRV_M :: "2 word" where "PRV_M = 3"

definition A_OFF :: "2 word" where "A_OFF = 0"
definition A_TOR :: "2 word" where "A_TOR = 1"
definition A_NA4 :: "2 word" where "A_NA4 = 2"
definition A_NAPOT :: "2 word" where "A_NAPOT = 3"

lemmas pmp_modes = A_OFF_def A_TOR_def A_NA4_def A_NAPOT_def

record pmp_access =
  pa_priv :: "2 word"
  pa_addr :: u32
  pa_read :: bool
  pa_write :: bool
  pa_exec :: bool

definition pmp_mode :: "u8 \<Rightarrow> 2 word" where "pmp_mode c = fld 3 c"

definition access_hi :: "pmp_access \<Rightarrow> 30 word" where "access_hi a = fld 2 (pa_addr a)"

definition this_addr :: "pmp_addr \<Rightarrow> nat \<Rightarrow> 30 word" where "this_addr ad i = fld 0 (ad i)"

definition prev_addr :: "pmp_addr \<Rightarrow> nat \<Rightarrow> 30 word" where
  "prev_addr ad i = (if i = 0 then 0 else fld 0 (ad (i - 1)))"

definition match_tor :: "pmp_addr \<Rightarrow> nat \<Rightarrow> 30 word \<Rightarrow> bool" where
  "match_tor ad i h = (prev_addr ad i \<le> h \<and> h < this_addr ad i)"

definition run_mask :: "30 word \<Rightarrow> 30 word" where "run_mask t = t XOR (t + 1)"

definition match_napot :: "30 word \<Rightarrow> 30 word \<Rightarrow> bool" where
  "match_napot t h = (h AND NOT (run_mask t) = t AND NOT (run_mask t))"

definition pmp_match :: "pmp_cfg \<Rightarrow> pmp_addr \<Rightarrow> nat \<Rightarrow> 30 word \<Rightarrow> bool" where
  "pmp_match cfg ad i h =
     (if pmp_mode (cfg i) = A_TOR then match_tor ad i h
      else if pmp_mode (cfg i) = A_NA4 then h = this_addr ad i
      else if pmp_mode (cfg i) = A_NAPOT then match_napot (this_addr ad i) h
      else False)"

definition pmp_allowed :: "u8 \<Rightarrow> pmp_access \<Rightarrow> bool" where
  "pmp_allowed c a =
     ((pa_priv a = PRV_M \<and> \<not> bit c 7) \<or>
      (pa_read a \<and> bit c 0) \<or> (pa_write a \<and> bit c 1) \<or> (pa_exec a \<and> bit c 2))"

definition any_active :: "pmp_cfg \<Rightarrow> bool" where
  "any_active cfg = list_ex (\<lambda>i. pmp_mode (cfg i) \<noteq> A_OFF) [0..<16]"

text \<open>The priority loop over the entries, with its two variables.\<close>

definition pmp_pick :: "pmp_cfg \<Rightarrow> pmp_addr \<Rightarrow> pmp_access \<Rightarrow> nat \<Rightarrow> bool \<times> bool \<Rightarrow> bool \<times> bool" where
  "pmp_pick cfg ad a i = (\<lambda>(picked, decision).
     if \<not> picked \<and> pmp_match cfg ad i (access_hi a) then (True, pmp_allowed (cfg i) a)
     else (picked, decision))"

definition pmp_decision :: "pmp_cfg \<Rightarrow> pmp_addr \<Rightarrow> pmp_access \<Rightarrow> bool" where
  "pmp_decision cfg ad a = snd (fold (pmp_pick cfg ad a) [0..<16] (False, pa_priv a = PRV_M))"

definition pmp_fault :: "pmp_cfg \<Rightarrow> pmp_addr \<Rightarrow> pmp_access \<Rightarrow> bool" where
  "pmp_fault cfg ad a = (any_active cfg \<and> \<not> pmp_decision cfg ad a)"

section \<open>Regions\<close>

text \<open>Specification: the byte addresses an entry covers, as the privileged manual states them.\<close>

function trailing_ones :: "nat \<Rightarrow> nat" where
  "trailing_ones n = (if odd n then Suc (trailing_ones (n div 2)) else 0)"
  by auto
termination trailing_ones
  by (relation "measure id") (auto elim!: oddE)

declare trailing_ones.simps [simp del]

definition napot_size :: "nat \<Rightarrow> nat" where "napot_size t = 2 ^ (trailing_ones t + 3)"

definition pmp_region :: "pmp_cfg \<Rightarrow> pmp_addr \<Rightarrow> nat \<Rightarrow> nat set" where
  "pmp_region cfg ad i =
     (let t = unat (this_addr ad i) in
      if pmp_mode (cfg i) = A_TOR then {4 * unat (prev_addr ad i) ..< 4 * t}
      else if pmp_mode (cfg i) = A_NA4 then {4 * t ..< 4 * t + 4}
      else if pmp_mode (cfg i) = A_NAPOT
      then {4 * t div napot_size t * napot_size t ..< (4 * t div napot_size t + 1) * napot_size t}
      else {})"

lemma bit_xor_Suc: "bit (t XOR Suc t) n \<longleftrightarrow> n \<le> trailing_ones t"
proof (induction t arbitrary: n rule: trailing_ones.induct)
  case (1 t)
  show ?case
  proof (cases "odd t")
    case True
    then obtain u where "t = 2 * u + 1" by (rule oddE)
    then have "Suc t div 2 = Suc (t div 2)" by simp
    then show ?thesis using 1[OF True, unfolded bit_xor_iff] True unfolding bit_xor_iff
      by (cases n) (simp_all add: bit_Suc bit_0 trailing_ones.simps[of t])
  next
    case False
    then show ?thesis unfolding bit_xor_iff
      by (cases n) (simp_all add: bit_Suc bit_0 trailing_ones.simps[of t])
  qed
qed

lemma bit_run_mask: "bit (run_mask t) n \<longleftrightarrow> n < 30 \<and> n \<le> trailing_ones (unat t)"
proof (cases "n < 30")
  case True
  have "bit t n \<longleftrightarrow> bit (unat t) n" using True by (simp add: bit_unsigned_iff)
  moreover have "bit (t + 1) n \<longleftrightarrow> bit (Suc (unat t)) n"
  proof -
    have "bit (t + 1) n \<longleftrightarrow> bit (unat (t + 1)) n" using True by (simp add: bit_unsigned_iff)
    also have "unat (t + 1) = take_bit 30 (Suc (unat t))" by (simp add: unat_word_ariths take_bit_eq_mod)
    finally show ?thesis using True by (simp add: bit_take_bit_iff)
  qed
  ultimately show ?thesis using True bit_xor_Suc[of "unat t" n] by (simp add: run_mask_def bit_xor_iff)
next
  case False
  then show ?thesis by (auto dest: bit_imp_le_length)
qed

lemma match_napot_div:
  "match_napot t h \<longleftrightarrow> unat h div 2 ^ (trailing_ones (unat t) + 1) = unat t div 2 ^ (trailing_ones (unat t) + 1)"
proof -
  let ?k = "trailing_ones (unat t)"
  have "match_napot t h \<longleftrightarrow> (\<forall>n. n < 30 \<and> ?k < n \<longrightarrow> bit h n = bit t n)"
    unfolding match_napot_def bit_eq_iff
    by (simp add: bit_and_iff bit_not_iff bit_run_mask) (meson not_le)
  also have "\<dots> \<longleftrightarrow> (\<forall>n. bit (drop_bit (?k + 1) h) n = bit (drop_bit (?k + 1) t) n)"
  proof
    assume l: "\<forall>n. n < 30 \<and> ?k < n \<longrightarrow> bit h n = bit t n"
    show "\<forall>n. bit (drop_bit (?k + 1) h) n = bit (drop_bit (?k + 1) t) n"
    proof
      fix n
      show "bit (drop_bit (?k + 1) h) n = bit (drop_bit (?k + 1) t) n"
        using l[rule_format, of "?k + 1 + n"] bit_imp_le_length[of h "?k + 1 + n"] bit_imp_le_length[of t "?k + 1 + n"]
        by (auto simp: bit_drop_bit_eq)
    qed
  next
    assume r: "\<forall>n. bit (drop_bit (?k + 1) h) n = bit (drop_bit (?k + 1) t) n"
    show "\<forall>n. n < 30 \<and> ?k < n \<longrightarrow> bit h n = bit t n"
    proof safe
      fix n assume "?k < n"
      then show "bit h n \<Longrightarrow> bit t n" "bit t n \<Longrightarrow> bit h n"
        using r[rule_format, of "n - (?k + 1)"] by (auto simp: bit_drop_bit_eq)
    qed
  qed
  also have "\<dots> \<longleftrightarrow> drop_bit (?k + 1) h = drop_bit (?k + 1) t" by (metis bit_word_eqI)
  also have "\<dots> \<longleftrightarrow> unat h div 2 ^ (?k + 1) = unat t div 2 ^ (?k + 1)"
    by (simp only: word_unat_eq_iff unat_drop_bit_eq) (simp only: drop_bit_eq_div)
  finally show ?thesis .
qed

lemma div_eq_iff_range: "0 < d \<Longrightarrow> x div d = m \<longleftrightarrow> m * d \<le> x \<and> x < (m + 1) * (d :: nat)"
  by (metis Suc_eq_plus1 add.commute div_nat_eqI div_times_less_eq_dividend dividend_less_div_times mult_Suc mult.commute)

lemma access_hi_div: "unat (access_hi a) = unat (pa_addr a) div 4"
  using unat_u32_less[of "pa_addr a"] by (simp add: access_hi_def unat_fld)

lemma pmp_match_region: "pmp_match cfg ad i (access_hi a) \<longleftrightarrow> unat (pa_addr a) \<in> pmp_region cfg ad i"
proof -
  let ?x = "unat (pa_addr a)" and ?t = "unat (this_addr ad i)"
  have tor: "4 * p \<le> ?x \<longleftrightarrow> p \<le> ?x div 4" "?x < 4 * p \<longleftrightarrow> ?x div 4 < p" for p by linarith+
  have na4: "?x div 4 = ?t \<longleftrightarrow> 4 * ?t \<le> ?x \<and> ?x < 4 * ?t + 4" by linarith
  have e: "?x div 4 div 2 ^ (trailing_ones ?t + 1) = ?x div napot_size ?t"
    "?t div 2 ^ (trailing_ones ?t + 1) = 4 * ?t div napot_size ?t"
  proof -
    have n: "napot_size ?t = 4 * 2 ^ (trailing_ones ?t + 1)" by (simp add: napot_size_def power_add)
    show "?x div 4 div 2 ^ (trailing_ones ?t + 1) = ?x div napot_size ?t" unfolding n div_mult2_eq ..
    show "?t div 2 ^ (trailing_ones ?t + 1) = 4 * ?t div napot_size ?t" unfolding n by (subst div_mult_mult1) simp_all
  qed
  have nap: "match_napot (this_addr ad i) (access_hi a) \<longleftrightarrow> ?x div napot_size ?t = 4 * ?t div napot_size ?t"
    unfolding match_napot_div access_hi_div e ..
  have sz: "0 < napot_size ?t" by (simp add: napot_size_def)
  show ?thesis
    unfolding pmp_match_def pmp_region_def Let_def
    using tor na4 nap div_eq_iff_range[OF sz, of ?x]
    by (simp add: pmp_modes match_tor_def word_le_nat_alt word_less_nat_alt word_unat_eq_iff access_hi_div)
qed

section \<open>Priority\<close>

lemma fold_pick_done: "fold (pmp_pick cfg ad a) is (True, d) = (True, d)"
  by (induction "is") (simp_all add: pmp_pick_def)

lemma pick_one: "pmp_pick cfg ad a i (False, d) =
    (if unat (pa_addr a) \<in> pmp_region cfg ad i then (True, pmp_allowed (cfg i) a) else (False, d))"
  by (simp add: pmp_pick_def pmp_match_region)

lemma fold_pick:
  "snd (fold (pmp_pick cfg ad a) is (False, d)) =
     (case find (\<lambda>i. unat (pa_addr a) \<in> pmp_region cfg ad i) is of None \<Rightarrow> d | Some i \<Rightarrow> pmp_allowed (cfg i) a)"
  by (induction "is") (simp_all add: pick_one fold_pick_done)

text \<open>
  C9. An access faults exactly if some entry is active and the lowest-numbered entry whose address
  region (top-of-range, 4-byte, or naturally aligned power of two) contains the byte address denies
  it, or no region contains it and the access is not made in machine mode.
\<close>

theorem pmp_first_match_governs:
  "pmp_fault cfg ad a \<longleftrightarrow>
     (\<exists>i<16. pmp_mode (cfg i) \<noteq> A_OFF) \<and>
     \<not> (case find (\<lambda>i. unat (pa_addr a) \<in> pmp_region cfg ad i) [0..<16] of
           None \<Rightarrow> pa_priv a = PRV_M
         | Some i \<Rightarrow> pmp_allowed (cfg i) a)"
proof -
  have "any_active cfg \<longleftrightarrow> (\<exists>i<16. pmp_mode (cfg i) \<noteq> A_OFF)"
    unfolding any_active_def list_ex_iff by auto
  then show ?thesis unfolding pmp_fault_def pmp_decision_def fold_pick by simp
qed

end
