(* ===== verification/Csr.thy ===== *)
theory Csr
  imports Pmp
begin

text \<open>
  The control and status registers, \<open>rtl/core/csr.sv\<close>: reads, masked writes, traps and their
  delegation, \<open>mret\<close> and \<open>sret\<close>, and the choice of interrupt.
\<close>

section \<open>Model\<close>

record csrs =
  mstatus :: u32
  mie :: u32
  mtvec :: u32
  mscratch :: u32
  mepc :: u32
  mcause :: u32
  mtval :: u32
  medeleg :: u32
  mideleg :: u32
  mip_sw :: u32
  stvec :: u32
  sscratch :: u32
  sepc :: u32
  scause :: u32
  stval :: u32
  satp :: u32
  mcycle :: u64
  minstret :: u64
  priv_mode :: "2 word"
  pmpcfg :: "nat \<Rightarrow> u32"
  pmpaddr :: "nat \<Rightarrow> u32"

record csr_in =
  ci_en :: bool
  ci_op :: "3 word"
  ci_addr :: "12 word"
  ci_rs1_or_imm :: "5 word"
  ci_wdata :: u32
  ci_trap :: bool
  ci_trap_pc :: u32
  ci_trap_cause :: u32
  ci_trap_tval :: u32
  ci_mret :: bool
  ci_sret :: bool
  ci_retire :: bool
  ci_mti :: bool
  ci_msi :: bool
  ci_mei :: bool
  ci_sei :: bool
  ci_mtime :: u64

definition SSTATUS_MASK :: u32 where "SSTATUS_MASK = 0x000C0122"
definition MSTATUS_WRITABLE :: u32 where "MSTATUS_WRITABLE = 0x005E19AA"
definition MIE_WRITABLE :: u32 where "MIE_WRITABLE = 0xAAA"
definition MIP_M_WRITABLE :: u32 where "MIP_M_WRITABLE = 0x222"
definition MIP_S_WRITABLE :: u32 where "MIP_S_WRITABLE = 0x2"
definition MEDELEG_MASK :: u32 where "MEDELEG_MASK = 0xB3FF"
definition MIDELEG_MASK :: u32 where "MIDELEG_MASK = 0x222"
definition MISA_CONST :: u32 where "MISA_CONST = 0x40040100"

definition csr_reset :: csrs where
  "csr_reset = \<lparr>mstatus = 0, mie = 0, mtvec = 0, mscratch = 0, mepc = 0, mcause = 0, mtval = 0,
     medeleg = 0, mideleg = 0, mip_sw = 0, stvec = 0, sscratch = 0, sepc = 0, scause = 0, stval = 0,
     satp = 0, mcycle = 0, minstret = 0, priv_mode = PRV_M, pmpcfg = (\<lambda>_. 0), pmpaddr = (\<lambda>_. 0)\<rparr>"

text \<open>Locking of the protection registers.\<close>

definition pmp_L :: "csrs \<Rightarrow> nat \<Rightarrow> bool" where
  "pmp_L s i = bit (pmpcfg s (i div 4)) (i mod 4 * 8 + 7)"

definition pmp_A_is_tor :: "csrs \<Rightarrow> nat \<Rightarrow> bool" where
  "pmp_A_is_tor s i = (fld (i mod 4 * 8 + 3) (pmpcfg s (i div 4)) = (1 :: 2 word))"

definition pmpaddr_locked :: "csrs \<Rightarrow> nat \<Rightarrow> bool" where
  "pmpaddr_locked s i =
     (if i = 15 then pmp_L s i else pmp_L s i \<or> (pmp_L s (i + 1) \<and> pmp_A_is_tor s (i + 1)))"

definition pmpcfg_write_mask :: "u32 \<Rightarrow> u32 \<Rightarrow> u32" where
  "pmpcfg_write_mask old_w wb_new =
     fold (\<lambda>b w. put_fld (b * 8) (byte_of (if bit old_w (b * 8 + 7) then old_w else wb_new) b) w) [0..<4] 0"

definition pmp_cfg_out :: "csrs \<Rightarrow> pmp_cfg" where "pmp_cfg_out s i = fld (i mod 4 * 8) (pmpcfg s (i div 4))"
definition pmp_addr_out :: "csrs \<Rightarrow> pmp_addr" where "pmp_addr_out s i = pmpaddr s i"

text \<open>Pending interrupts and the interrupt to take.\<close>

definition mip_live :: "csr_in \<Rightarrow> csrs \<Rightarrow> u32" where
  "mip_live i s =
     put_bit 9 (bit (mip_sw s) 9 \<or> ci_sei i) (put_bit 11 (ci_mei i) (put_bit 7 (ci_mti i) (put_bit 3 (ci_msi i) (mip_sw s))))"

definition mip_m_enabled :: "csr_in \<Rightarrow> csrs \<Rightarrow> u32" where
  "mip_m_enabled i s = mip_live i s AND mie s AND NOT (mideleg s)"
definition mip_s_enabled :: "csr_in \<Rightarrow> csrs \<Rightarrow> u32" where
  "mip_s_enabled i s = mip_live i s AND mie s AND mideleg s"
definition m_irq_enabled :: "csrs \<Rightarrow> bool" where
  "m_irq_enabled s = (priv_mode s \<noteq> PRV_M \<or> (priv_mode s = PRV_M \<and> bit (mstatus s) 3))"
definition s_irq_enabled :: "csrs \<Rightarrow> bool" where
  "s_irq_enabled s = (priv_mode s = PRV_U \<or> (priv_mode s = PRV_S \<and> bit (mstatus s) 1))"
definition m_irq_live :: "csr_in \<Rightarrow> csrs \<Rightarrow> bool" where
  "m_irq_live i s = (m_irq_enabled s \<and> mip_m_enabled i s \<noteq> 0)"
definition s_irq_live :: "csr_in \<Rightarrow> csrs \<Rightarrow> bool" where
  "s_irq_live i s = (s_irq_enabled s \<and> mip_s_enabled i s \<noteq> 0)"
definition irq_pending :: "csr_in \<Rightarrow> csrs \<Rightarrow> bool" where
  "irq_pending i s = (m_irq_live i s \<or> s_irq_live i s)"

definition irq_cause :: "csr_in \<Rightarrow> csrs \<Rightarrow> u32" where
  "irq_cause i s =
     (if m_irq_live i s
      then (if bit (mip_m_enabled i s) 11 then 0x8000000B
            else if bit (mip_m_enabled i s) 3 then 0x80000003
            else if bit (mip_m_enabled i s) 7 then 0x80000007
            else if bit (mip_m_enabled i s) 9 then 0x80000009
            else if bit (mip_m_enabled i s) 1 then 0x80000001
            else 0x80000005)
      else (if bit (mip_s_enabled i s) 9 then 0x80000009
            else if bit (mip_s_enabled i s) 1 then 0x80000001
            else 0x80000005))"

text \<open>Delegation of the trap being taken.\<close>

definition trap_to_s :: "csr_in \<Rightarrow> csrs \<Rightarrow> bool" where
  "trap_to_s i s =
     (let idx = unat (fld 0 (ci_trap_cause i) :: 5 word);
          delegated = (if bit (ci_trap_cause i) 31 then bit (mideleg s) idx else bit (medeleg s) idx)
      in ci_trap i \<and> priv_mode s \<noteq> PRV_M \<and> delegated)"

section \<open>Reads\<close>

definition csr_lookup :: "csr_in \<Rightarrow> csrs \<Rightarrow> 12 word \<Rightarrow> u32 option" where
  "csr_lookup i s a =
     (if a = 0x300 then Some (mstatus s)
      else if a = 0x301 then Some MISA_CONST
      else if a = 0x302 then Some (medeleg s)
      else if a = 0x303 then Some (mideleg s)
      else if a = 0x304 then Some (mie s)
      else if a = 0x344 then Some (mip_live i s)
      else if a = 0x305 then Some (mtvec s)
      else if a = 0x340 then Some (mscratch s)
      else if a = 0x341 then Some (mepc s)
      else if a = 0x342 then Some (mcause s)
      else if a = 0x343 then Some (mtval s)
      else if a = 0xB00 \<or> a = 0xC00 then Some (fld 0 (mcycle s))
      else if a = 0xB80 \<or> a = 0xC80 then Some (fld 32 (mcycle s))
      else if a = 0xB02 \<or> a = 0xC02 then Some (fld 0 (minstret s))
      else if a = 0xB82 \<or> a = 0xC82 then Some (fld 32 (minstret s))
      else if a = 0xC01 then Some (fld 0 (ci_mtime i))
      else if a = 0xC81 then Some (fld 32 (ci_mtime i))
      else if a = 0xF14 \<or> a = 0xF11 \<or> a = 0xF12 then Some 0
      else if a = 0xF13 then Some 1
      else if a = 0x100 then Some (mstatus s AND SSTATUS_MASK)
      else if a = 0x104 then Some (mie s AND mideleg s)
      else if a = 0x144 then Some (mip_live i s AND mideleg s)
      else if a = 0x105 then Some (stvec s)
      else if a = 0x106 then Some 0
      else if a = 0x140 then Some (sscratch s)
      else if a = 0x141 then Some (sepc s)
      else if a = 0x142 then Some (scause s)
      else if a = 0x143 then Some (stval s)
      else if a = 0x180 then Some (satp s)
      else if 0x3A0 \<le> a \<and> a \<le> 0x3A3 then Some (pmpcfg s (unat (a - 0x3A0)))
      else if 0x3B0 \<le> a \<and> a \<le> 0x3BF then Some (pmpaddr s (unat (a - 0x3B0)))
      else None)"

definition read_value :: "csr_in \<Rightarrow> csrs \<Rightarrow> u32" where
  "read_value i s = (case csr_lookup i s (ci_addr i) of None \<Rightarrow> 0 | Some v \<Rightarrow> v)"

definition addr_valid :: "csr_in \<Rightarrow> csrs \<Rightarrow> bool" where
  "addr_valid i s = (csr_lookup i s (ci_addr i) \<noteq> None)"

section \<open>Writes\<close>

definition does_write :: "csr_in \<Rightarrow> bool" where
  "does_write i =
     (if ci_op i = 1 \<or> ci_op i = 5 then True
      else if ci_op i = 2 \<or> ci_op i = 3 then ci_rs1_or_imm i \<noteq> 0
      else if ci_op i = 6 \<or> ci_op i = 7 then ci_rs1_or_imm i \<noteq> 0
      else False)"

definition csr_new_val :: "csr_in \<Rightarrow> csrs \<Rightarrow> u32" where
  "csr_new_val i s =
     (if ci_op i = 1 \<or> ci_op i = 5 then ci_wdata i
      else if ci_op i = 2 \<or> ci_op i = 6 then read_value i s OR ci_wdata i
      else if ci_op i = 3 \<or> ci_op i = 7 then read_value i s AND NOT (ci_wdata i)
      else read_value i s)"

definition csr_illegal :: "csr_in \<Rightarrow> csrs \<Rightarrow> bool" where
  "csr_illegal i s =
     (\<not> addr_valid i s \<or> \<not> (fld 8 (ci_addr i) :: 2 word) \<le> priv_mode s \<or>
      (does_write i \<and> (fld 10 (ci_addr i) :: 2 word) = 3) \<or>
      (ci_addr i = 0x180 \<and> priv_mode s = PRV_S \<and> bit (mstatus s) 20))"

definition do_write :: "csr_in \<Rightarrow> csrs \<Rightarrow> bool" where
  "do_write i s = (ci_en i \<and> does_write i \<and> \<not> csr_illegal i s)"

definition masked :: "u32 \<Rightarrow> u32 \<Rightarrow> u32 \<Rightarrow> u32" where
  "masked m old v = (old AND NOT m) OR (v AND m)"

text \<open>\<open>{new_val[31:2], 1'b0, new_val[0]}\<close> and \<open>{new_val[31:2], 2'b00}\<close>.\<close>

definition vec_legal :: "u32 \<Rightarrow> u32" where "vec_legal v = put_bit 1 False v"
definition epc_legal :: "u32 \<Rightarrow> u32" where "epc_legal v = put_fld 0 (0 :: 2 word) v"

definition csr_write :: "12 word \<Rightarrow> u32 \<Rightarrow> csrs \<Rightarrow> csrs" where
  "csr_write a v s =
     (if a = 0x300 then s\<lparr>mstatus := masked MSTATUS_WRITABLE (mstatus s) v\<rparr>
      else if a = 0x302 then s\<lparr>medeleg := v AND MEDELEG_MASK\<rparr>
      else if a = 0x303 then s\<lparr>mideleg := v AND MIDELEG_MASK\<rparr>
      else if a = 0x304 then s\<lparr>mie := masked MIE_WRITABLE (mie s) v\<rparr>
      else if a = 0x344 then s\<lparr>mip_sw := masked MIP_M_WRITABLE (mip_sw s) v\<rparr>
      else if a = 0x305 then s\<lparr>mtvec := vec_legal v\<rparr>
      else if a = 0x340 then s\<lparr>mscratch := v\<rparr>
      else if a = 0x341 then s\<lparr>mepc := epc_legal v\<rparr>
      else if a = 0x342 then s\<lparr>mcause := v\<rparr>
      else if a = 0x343 then s\<lparr>mtval := v\<rparr>
      else if a = 0xB00 then s\<lparr>mcycle := put_fld 0 v (mcycle s)\<rparr>
      else if a = 0xB80 then s\<lparr>mcycle := put_fld 32 v (mcycle s)\<rparr>
      else if a = 0xB02 then s\<lparr>minstret := put_fld 0 v (minstret s)\<rparr>
      else if a = 0xB82 then s\<lparr>minstret := put_fld 32 v (minstret s)\<rparr>
      else if a = 0x100 then s\<lparr>mstatus := masked SSTATUS_MASK (mstatus s) v\<rparr>
      else if a = 0x104 then s\<lparr>mie := (mie s AND NOT (mideleg s)) OR (v AND mideleg s AND MIE_WRITABLE)\<rparr>
      else if a = 0x144 then s\<lparr>mip_sw := (mip_sw s AND NOT MIP_S_WRITABLE) OR (v AND MIP_S_WRITABLE AND mideleg s)\<rparr>
      else if a = 0x105 then s\<lparr>stvec := vec_legal v\<rparr>
      else if a = 0x140 then s\<lparr>sscratch := v\<rparr>
      else if a = 0x141 then s\<lparr>sepc := epc_legal v\<rparr>
      else if a = 0x142 then s\<lparr>scause := v\<rparr>
      else if a = 0x143 then s\<lparr>stval := v\<rparr>
      else if a = 0x180 then s\<lparr>satp := v\<rparr>
      else if 0x3A0 \<le> a \<and> a \<le> 0x3A3
      then s\<lparr>pmpcfg := (pmpcfg s)(unat (a - 0x3A0) := pmpcfg_write_mask (pmpcfg s (unat (a - 0x3A0))) v)\<rparr>
      else if 0x3B0 \<le> a \<and> a \<le> 0x3BF
      then (if pmpaddr_locked s (unat (a - 0x3B0)) then s else s\<lparr>pmpaddr := (pmpaddr s)(unat (a - 0x3B0) := v)\<rparr>)
      else s)"

section \<open>Traps and returns\<close>

definition trap_s :: "csr_in \<Rightarrow> csrs \<Rightarrow> csrs" where
  "trap_s i s =
     s\<lparr>sepc := ci_trap_pc i, scause := ci_trap_cause i, stval := ci_trap_tval i,
       mstatus := put_bit 8 (priv_mode s = PRV_S) (put_bit 1 False (put_bit 5 (bit (mstatus s) 1) (mstatus s))),
       priv_mode := PRV_S\<rparr>"

definition trap_m :: "csr_in \<Rightarrow> csrs \<Rightarrow> csrs" where
  "trap_m i s =
     s\<lparr>mepc := ci_trap_pc i, mcause := ci_trap_cause i, mtval := ci_trap_tval i,
       mstatus := put_fld 11 (priv_mode s) (put_bit 3 False (put_bit 7 (bit (mstatus s) 3) (mstatus s))),
       priv_mode := PRV_M\<rparr>"

definition mpp :: "csrs \<Rightarrow> 2 word" where "mpp s = fld 11 (mstatus s)"

definition do_mret :: "csrs \<Rightarrow> csrs" where
  "do_mret s =
     (let m = put_fld 11 PRV_U (put_bit 7 True (put_bit 3 (bit (mstatus s) 7) (mstatus s)))
      in s\<lparr>mstatus := (if mpp s \<noteq> PRV_M then put_bit 17 False m else m), priv_mode := mpp s\<rparr>)"

definition do_sret :: "csrs \<Rightarrow> csrs" where
  "do_sret s =
     (let m = put_bit 8 False (put_bit 5 True (put_bit 1 (bit (mstatus s) 5) (mstatus s)))
      in s\<lparr>mstatus := (if \<not> bit (mstatus s) 8 then put_bit 17 False m else m),
           priv_mode := (if bit (mstatus s) 8 then PRV_S else PRV_U)\<rparr>)"

definition csr_tick :: "csr_in \<Rightarrow> csrs \<Rightarrow> csrs" where
  "csr_tick i s =
     s\<lparr>mcycle := (if do_write i s \<and> (ci_addr i = 0xB00 \<or> ci_addr i = 0xB80) then mcycle s else mcycle s + 1),
       minstret := (if ci_retire i \<and> \<not> (do_write i s \<and> (ci_addr i = 0xB02 \<or> ci_addr i = 0xB82))
                    then minstret s + 1 else minstret s)\<rparr>"

definition csr_step :: "bool \<Rightarrow> csr_in \<Rightarrow> csrs \<Rightarrow> csrs" where
  "csr_step rst i s =
     (if rst then csr_reset
      else
        let t = csr_tick i s in
        if ci_trap i then (if trap_to_s i s then trap_s i t else trap_m i t)
        else if ci_mret i then do_mret t
        else if ci_sret i then do_sret t
        else if do_write i s then csr_write (ci_addr i) (csr_new_val i s) t
        else t)"

section \<open>Masks, bit by bit\<close>

lemma u32_bits: "bit (w :: u32) n \<longleftrightarrow> n < 32 \<and> odd (unat w div 2 ^ n)"
  using bit_iff_odd[of "unat w" n] bit_unsigned_iff[of w n, where 'a = nat]
  by (auto dest: bit_imp_le_length)

lemma below_32: "n < 32 \<longleftrightarrow> n \<in> {0,1,2,3,4,5,6,7,8,9,10,11,12,13,14,15,16,17,18,19,20,21,22,23,24,25,26,27,28,29,30,31::nat}"
  unfolding insert_iff empty_iff by presburger

lemma bit_MIE: "bit MIE_WRITABLE n \<longleftrightarrow> n \<in> {1, 3, 5, 7, 9, 11}"
  by (cases "n < 32") (auto simp: u32_bits below_32 MIE_WRITABLE_def)

lemma bit_MIDELEG: "bit MIDELEG_MASK n \<longleftrightarrow> n \<in> {1, 5, 9}"
  by (cases "n < 32") (auto simp: u32_bits below_32 MIDELEG_MASK_def)

lemma bit_SSTATUS: "bit SSTATUS_MASK n \<longleftrightarrow> n \<in> {1, 5, 8, 18, 19}"
  by (cases "n < 32") (auto simp: u32_bits below_32 SSTATUS_MASK_def)

lemma bit_MIP_S: "bit MIP_S_WRITABLE n \<longleftrightarrow> n = 1"
  by (cases "n < 32") (auto simp: u32_bits below_32 MIP_S_WRITABLE_def)

lemma bit_MSTATUS: "bit MSTATUS_WRITABLE n \<longleftrightarrow> n \<in> {1, 3, 5, 7, 8, 11, 12, 17, 18, 19, 20, 22}"
  by (cases "n < 32") (auto simp: u32_bits below_32 MSTATUS_WRITABLE_def)

lemma bit_masked [lane_simps]: "bit (masked m v w) n \<longleftrightarrow> (if bit m n then bit w n else bit v n)"
  by (auto simp: masked_def bit_simps dest: bit_imp_le_length)

section \<open>Locked protection entries\<close>

lemma upt_4: "[0..<4] = [0, 1, 2, 3 :: nat]"
  by (simp add: upt_rec)

lemma bit_pmpcfg_write_mask:
  "bit (pmpcfg_write_mask v w) n \<longleftrightarrow> n < 32 \<and> (if bit v (n div 8 * 8 + 7) then bit v n else bit w n)"
proof -
  consider "n < 8" | "8 \<le> n" "n < 16" | "16 \<le> n" "n < 24" | "24 \<le> n" "n < 32" | "32 \<le> n" by linarith
  then have "n < 8 \<and> n div 8 = 0 \<or> (8 \<le> n \<and> n < 16 \<and> n div 8 = 1) \<or> (16 \<le> n \<and> n < 24 \<and> n div 8 = 2) \<or>
      (24 \<le> n \<and> n < 32 \<and> n div 8 = 3) \<or> 32 \<le> n"
    by cases (auto intro: div_nat_eqI)
  then show ?thesis
    unfolding pmpcfg_write_mask_def upt_4 by (auto simp: lane_simps split: if_splits)
qed

lemma pmp_addr_ranges: "(a :: 12 word) \<le> 0x3A3 \<Longrightarrow> \<not> 0x3B0 \<le> a"
  by (simp add: word_le_nat_alt)

lemma csr_write_pmp:
  "pmpcfg (csr_write a v s) k = (if 0x3A0 \<le> a \<and> a \<le> 0x3A3 \<and> k = unat (a - 0x3A0)
     then pmpcfg_write_mask (pmpcfg s k) v else pmpcfg s k)"
  "pmpaddr (csr_write a v s) k = (if 0x3B0 \<le> a \<and> a \<le> 0x3BF \<and> k = unat (a - 0x3B0) \<and> \<not> pmpaddr_locked s k
     then v else pmpaddr s k)"
  using pmp_addr_ranges[of a] by (auto simp: csr_write_def)

lemma csr_step_pmp:
  shows "\<exists>v. pmpcfg (csr_step False i s) k \<in> {pmpcfg s k, pmpcfg_write_mask (pmpcfg s k) v}"
    and "pmpaddr_locked s k \<Longrightarrow> pmpaddr (csr_step False i s) k = pmpaddr s k"
proof -
  let ?t = "csr_tick i s"
  have t: "pmpcfg ?t = pmpcfg s" "pmpaddr ?t = pmpaddr s" by (simp_all add: csr_tick_def)
  have l: "pmpaddr_locked ?t k = pmpaddr_locked s k"
    by (simp add: pmpaddr_locked_def pmp_L_def pmp_A_is_tor_def t)
  show "\<exists>v. pmpcfg (csr_step False i s) k \<in> {pmpcfg s k, pmpcfg_write_mask (pmpcfg s k) v}"
    by (simp add: csr_step_def Let_def trap_s_def trap_m_def do_mret_def do_sret_def csr_write_pmp t) blast
  show "pmpaddr_locked s k \<Longrightarrow> pmpaddr (csr_step False i s) k = pmpaddr s k"
    by (simp add: csr_step_def Let_def trap_s_def trap_m_def do_mret_def do_sret_def csr_write_pmp t l)
qed

lemma locked_byte_kept:
  assumes "pmp_L s i"
  shows "pmp_cfg_out (csr_step False j s) i = pmp_cfg_out s i"
proof -
  obtain v where v: "pmpcfg (csr_step False j s) (i div 4) \<in> {pmpcfg s (i div 4), pmpcfg_write_mask (pmpcfg s (i div 4)) v}"
    using csr_step_pmp(1) by blast
  have L: "bit (pmpcfg s (i div 4)) (i mod 4 * 8 + 7)" using assms by (simp add: pmp_L_def)
  have "(i mod 4 * 8 + n) div 8 = i mod 4" if "n < 8" for n using that by simp
  moreover have "i mod 4 * 8 + n < 32" if "n < 8" for n using that by simp
  ultimately have "(fld (i mod 4 * 8) (pmpcfg_write_mask (pmpcfg s (i div 4)) v) :: u8) = fld (i mod 4 * 8) (pmpcfg s (i div 4))"
    using L by (intro bit_word_eqI) (simp add: bit_fld bit_pmpcfg_write_mask)
  then show ?thesis using v by (auto simp: pmp_cfg_out_def)
qed

lemma pmp_L_out: "pmp_L s i \<longleftrightarrow> bit (pmp_cfg_out s i) 7"
  by (simp add: pmp_L_def pmp_cfg_out_def bit_fld)

lemma pmp_tor_out: "pmp_A_is_tor s i \<longleftrightarrow> pmp_mode (pmp_cfg_out s i) = A_TOR"
proof -
  have "(fld 3 (fld (i mod 4 * 8) w :: u8) :: 2 word) = fld (i mod 4 * 8 + 3) w" for w :: u32
    by (rule bit_word_eqI) (simp add: bit_fld add.assoc)
  then show ?thesis by (simp add: pmp_A_is_tor_def pmp_mode_def pmp_cfg_out_def A_TOR_def)
qed

definition csr_run :: "csr_in list \<Rightarrow> csrs \<Rightarrow> csrs" where
  "csr_run is s = fold (\<lambda>i. csr_step False i) is s"

lemma locked_entry_step:
  fixes s :: csrs and j :: csr_in
  assumes "pmp_L s i" "i < 16"
  defines "t \<equiv> csr_step False j s"
  shows "pmp_L t i" "pmp_cfg_out t i = pmp_cfg_out s i" "pmp_addr_out t i = pmp_addr_out s i"
    "i \<noteq> 0 \<and> pmp_mode (pmp_cfg_out s i) = A_TOR \<longrightarrow> pmp_addr_out t (i - 1) = pmp_addr_out s (i - 1)"
proof -
  show c: "pmp_cfg_out t i = pmp_cfg_out s i" unfolding t_def by (rule locked_byte_kept[OF assms(1)])
  show "pmp_L t i" using assms(1) c by (simp add: pmp_L_out)
  show "pmp_addr_out t i = pmp_addr_out s i"
    unfolding t_def pmp_addr_out_def using assms(1) by (intro csr_step_pmp) (auto simp: pmpaddr_locked_def)
  show "i \<noteq> 0 \<and> pmp_mode (pmp_cfg_out s i) = A_TOR \<longrightarrow> pmp_addr_out t (i - 1) = pmp_addr_out s (i - 1)"
    unfolding t_def pmp_addr_out_def using assms(1,2)
    by (auto intro!: csr_step_pmp simp: pmpaddr_locked_def pmp_tor_out)
qed

lemma region_cong:
  assumes "cfg i = cfg' i" "ad i = ad' i" "i \<noteq> 0 \<and> pmp_mode (cfg i) = A_TOR \<longrightarrow> ad (i - 1) = ad' (i - 1)"
  shows "pmp_region cfg ad i = pmp_region cfg' ad' i"
  using assms by (auto simp: pmp_region_def this_addr_def prev_addr_def Let_def)

text \<open>
  C26. Once entry \<open>i\<close> is locked, no sequence of CSR instructions, traps and returns, in any mode, changes
  its configuration or the address range it governs; only reset does.
\<close>

theorem pmp_lock_permanent:
  assumes "pmp_L s i" "i < 16"
  shows "let t = csr_run ins s in pmp_cfg_out t i = pmp_cfg_out s i \<and>
    pmp_region (pmp_cfg_out t) (pmp_addr_out t) i = pmp_region (pmp_cfg_out s) (pmp_addr_out s) i"
  using assms
proof (induction ins arbitrary: s)
  case Nil
  then show ?case by (simp add: csr_run_def)
next
  case (Cons j js)
  let ?t = "csr_step False j s"
  note l = locked_entry_step[OF Cons.prems, of j]
  have "pmp_region (pmp_cfg_out ?t) (pmp_addr_out ?t) i = pmp_region (pmp_cfg_out s) (pmp_addr_out s) i"
    using l(2-4) by (intro region_cong) auto
  then show ?case using Cons.IH[OF l(1) Cons.prems(2)] l(2) by (simp add: csr_run_def Let_def)
qed

theorem pmp_lock_permanent_witness:
  "let s = csr_reset\<lparr>pmpcfg := (\<lambda>_. 0x8F), pmpaddr := (\<lambda>_. 0x20000000)\<rparr>;
       i = \<lparr>ci_en = True, ci_op = 1, ci_addr = 0x3A0, ci_rs1_or_imm = 1, ci_wdata = 0, ci_trap = False,
            ci_trap_pc = 0, ci_trap_cause = 0, ci_trap_tval = 0, ci_mret = False, ci_sret = False,
            ci_retire = True, ci_mti = False, ci_msi = False, ci_mei = False, ci_sei = False, ci_mtime = 0\<rparr>
   in pmp_cfg_out (csr_run [i, i\<lparr>ci_addr := 0x3B0\<rparr>] s) 0 = 0x8F"
proof -
  let ?s = "csr_reset\<lparr>pmpcfg := (\<lambda>_. 0x8F), pmpaddr := (\<lambda>_. 0x20000000)\<rparr>"
  have "pmp_L ?s 0" by (simp add: pmp_L_def u32_bits)
  moreover have "pmp_cfg_out ?s 0 = 0x8F" by (simp add: pmp_cfg_out_def fld_def)
  ultimately show ?thesis using pmp_lock_permanent[of ?s 0] by (simp add: Let_def)
qed

end
