(* ===== verification/Csr_Trap.thy ===== *)
theory Csr_Trap
  imports Csr
begin

text \<open>
  Interrupt choice, trap delegation and return, and the confinement of supervisor and user code to
  their part of the CSR state (\<open>rtl/core/csr.sv\<close>).
\<close>

section \<open>Write-any-read-legal invariant\<close>

text \<open>Every register keeps to its writable bits, whatever is written to it.\<close>

definition csr_inv :: "csrs \<Rightarrow> bool" where
  "csr_inv s \<longleftrightarrow>
     mie s AND NOT MIE_WRITABLE = 0 \<and> mideleg s AND NOT MIDELEG_MASK = 0 \<and>
     medeleg s AND NOT MEDELEG_MASK = 0 \<and> mip_sw s AND NOT MIP_M_WRITABLE = 0 \<and>
     mstatus s AND NOT MSTATUS_WRITABLE = 0 \<and> \<not> bit (mtvec s) 1 \<and> \<not> bit (stvec s) 1"

lemma within_iff: "(w :: 'a::len word) AND NOT m = 0 \<longleftrightarrow> (\<forall>n. bit w n \<longrightarrow> bit m n)"
  by (auto simp: bit_eq_iff bit_simps dest: bit_imp_le_length)

lemma bit_MIP_M: "bit MIP_M_WRITABLE n \<longleftrightarrow> n \<in> {1, 5, 9}"
  using bit_MIDELEG[of n] by (simp add: MIP_M_WRITABLE_def MIDELEG_MASK_def)

lemmas mask_bits = bit_MIE bit_MIDELEG bit_MIP_M bit_MSTATUS bit_SSTATUS bit_MIP_S

lemma csr_inv_reset: "csr_inv csr_reset"
  by (simp add: csr_inv_def csr_reset_def)

lemma csr_write_inv:
  assumes "csr_inv s"
  shows "csr_inv (csr_write a v s)"
proof -
  have "mie (csr_write a v s) AND NOT MIE_WRITABLE = 0"
    using assms unfolding csr_inv_def within_iff
    by (simp add: csr_write_def bit_masked bit_or_iff bit_and_iff bit_not_iff) blast
  moreover have "mideleg (csr_write a v s) AND NOT MIDELEG_MASK = 0"
    "medeleg (csr_write a v s) AND NOT MEDELEG_MASK = 0"
    using assms unfolding csr_inv_def within_iff by (simp_all add: csr_write_def bit_and_iff)
  moreover have "mip_sw (csr_write a v s) AND NOT MIP_M_WRITABLE = 0"
    using assms unfolding csr_inv_def within_iff
    by (auto simp: csr_write_def bit_masked bit_or_iff bit_and_iff bit_not_iff mask_bits split: if_splits)
  moreover have "mstatus (csr_write a v s) AND NOT MSTATUS_WRITABLE = 0"
    using assms unfolding csr_inv_def within_iff
    by (auto simp: csr_write_def bit_masked mask_bits split: if_splits)
  moreover have "\<not> bit (mtvec (csr_write a v s)) 1" "\<not> bit (stvec (csr_write a v s)) 1"
    using assms by (simp_all add: csr_inv_def csr_write_def vec_legal_def bit_put_bit)
  ultimately show ?thesis by (simp add: csr_inv_def)
qed

lemma bit_mstatus_ops:
  "n \<in> {1, 3, 5, 7, 8, 17} \<Longrightarrow> w AND NOT MSTATUS_WRITABLE = 0 \<Longrightarrow> put_bit n b w AND NOT MSTATUS_WRITABLE = 0"
  "w AND NOT MSTATUS_WRITABLE = 0 \<Longrightarrow> put_fld 11 (f :: 2 word) w AND NOT MSTATUS_WRITABLE = 0"
  unfolding within_iff by (auto simp: bit_put_bit bit_put_fld bit_MSTATUS)

lemma csr_inv_step: "csr_inv s \<Longrightarrow> csr_inv (csr_step False i s)"
proof -
  assume s: "csr_inv s"
  then have t: "csr_inv (csr_tick i s)" by (simp add: csr_inv_def csr_tick_def)
  let ?t = "csr_tick i s"
  have "csr_inv (trap_s i ?t)" "csr_inv (trap_m i ?t)" "csr_inv (do_mret ?t)" "csr_inv (do_sret ?t)"
    using t by (auto simp: csr_inv_def trap_s_def trap_m_def do_mret_def do_sret_def Let_def intro!: bit_mstatus_ops)
  then show ?thesis using t csr_write_inv[OF t] by (simp add: csr_step_def Let_def)
qed

lemma csr_inv_run: "csr_inv s \<Longrightarrow> csr_inv (csr_run is s)"
  unfolding csr_run_def by (induction "is" arbitrary: s) (simp_all add: csr_inv_step)

section \<open>Interrupts\<close>

text \<open>Specification: when interrupt \<open>n\<close> can be taken, and in what order.\<close>

definition can_take :: "csr_in \<Rightarrow> csrs \<Rightarrow> nat \<Rightarrow> bool" where
  "can_take i s n \<longleftrightarrow> bit (mip_live i s) n \<and> bit (mie s) n \<and>
     (if bit (mideleg s) n then priv_mode s = PRV_U \<or> priv_mode s = PRV_S \<and> bit (mstatus s) 1
      else priv_mode s = PRV_M \<longrightarrow> bit (mstatus s) 3)"

definition irq_order :: "csrs \<Rightarrow> nat list" where
  "irq_order s = filter (\<lambda>n. \<not> bit (mideleg s) n) [11, 3, 7, 9, 1, 5] @ filter (\<lambda>n. bit (mideleg s) n) [11, 3, 7, 9, 1, 5]"

definition irq_spec :: "csr_in \<Rightarrow> csrs \<Rightarrow> nat option" where
  "irq_spec i s = find (can_take i s) (irq_order s)"

lemma enabled_bits:
  "bit (mip_m_enabled i s) n \<longleftrightarrow> bit (mip_live i s) n \<and> bit (mie s) n \<and> \<not> bit (mideleg s) n"
  "bit (mip_s_enabled i s) n \<longleftrightarrow> bit (mip_live i s) n \<and> bit (mie s) n \<and> bit (mideleg s) n"
  by (auto simp: mip_m_enabled_def mip_s_enabled_def bit_simps dest: bit_imp_le_length)

lemma word_zero_iff: "(w :: 'a::len word) = 0 \<longleftrightarrow> (\<forall>n. \<not> bit w n)"
  by (auto simp: bit_eq_iff dest: bit_imp_le_length)

lemma inv_bits:
  assumes "csr_inv s"
  shows "bit (mie s) n \<Longrightarrow> n \<in> {11, 3, 7, 9, 1, 5}" "bit (mideleg s) n \<Longrightarrow> n \<in> {9, 1, 5}"
  using assms by (auto simp: csr_inv_def within_iff mask_bits)

lemma enabled_nonzero:
  assumes "csr_inv s"
  shows "mip_m_enabled i s \<noteq> 0 \<longleftrightarrow> (\<exists>n\<in>{11, 3, 7, 9, 1, 5}. bit (mip_m_enabled i s) n)"
    "mip_s_enabled i s \<noteq> 0 \<longleftrightarrow> (\<exists>n\<in>{9, 1, 5}. bit (mip_s_enabled i s) n)"
  using inv_bits[OF assms] unfolding word_zero_iff enabled_bits by blast+

definition irq_choice :: "csr_in \<Rightarrow> csrs \<Rightarrow> nat option" where
  "irq_choice i s =
     (if m_irq_live i s then find (bit (mip_m_enabled i s)) [11, 3, 7, 9, 1, 5]
      else if s_irq_live i s then find (bit (mip_s_enabled i s)) [9, 1, 5]
      else None)"

lemma find_filter: "find P (filter Q xs) = find (\<lambda>x. P x \<and> Q x) xs"
  by (induction xs) auto

lemma find_cong: "(\<And>x. x \<in> set xs \<Longrightarrow> P x = Q x) \<Longrightarrow> find P xs = find Q xs"
  by (induction xs) auto

lemma find_append: "find P (xs @ ys) = (case find P xs of None \<Rightarrow> find P ys | Some x \<Rightarrow> Some x)"
  by (induction xs) auto

lemma irq_spec_choice:
  assumes "csr_inv s"
  shows "irq_spec i s = irq_choice i s"
proof -
  let ?L = "[11, 3, 7, 9, 1, 5] :: nat list"
  have d: "\<not> bit (mideleg s) 11" "\<not> bit (mideleg s) 3" "\<not> bit (mideleg s) 7"
    using inv_bits(2)[OF assms] by fastforce+
  have m: "find (can_take i s) (filter (\<lambda>n. \<not> bit (mideleg s) n) ?L) =
      (if m_irq_live i s then find (bit (mip_m_enabled i s)) ?L else None)"
  proof (cases "m_irq_live i s")
    case True
    then show ?thesis unfolding find_filter
      by (intro trans[OF find_cong if_P[symmetric]])
        (auto simp: can_take_def enabled_bits m_irq_live_def m_irq_enabled_def)
  next
    case False
    then have no: "m_irq_enabled s \<Longrightarrow> mip_m_enabled i s = 0" by (simp add: m_irq_live_def)
    have "\<not> (can_take i s n \<and> \<not> bit (mideleg s) n)" for n
    proof
      assume "can_take i s n \<and> \<not> bit (mideleg s) n"
      then have "m_irq_enabled s" "bit (mip_m_enabled i s) n"
        by (auto simp: can_take_def enabled_bits m_irq_enabled_def)
      then show False using no by simp
    qed
    then show ?thesis using False unfolding find_filter by (simp add: find_None_iff)
  qed
  have s: "find (can_take i s) (filter (\<lambda>n. bit (mideleg s) n) ?L) =
      (if s_irq_live i s then find (bit (mip_s_enabled i s)) [9, 1, 5] else None)"
  proof (cases "s_irq_live i s")
    case True
    have "find (can_take i s) (filter (\<lambda>n. bit (mideleg s) n) ?L) =
        find (can_take i s) (filter (\<lambda>n. bit (mideleg s) n) [9, 1, 5])" using d by simp
    also have "\<dots> = find (\<lambda>n. can_take i s n \<and> bit (mideleg s) n) [9, 1, 5]" by (rule find_filter)
    also have "\<dots> = find (bit (mip_s_enabled i s)) [9, 1, 5]"
      using True by (intro find_cong) (auto simp: can_take_def enabled_bits s_irq_live_def s_irq_enabled_def)
    finally show ?thesis using True by simp
  next
    case False
    then have no: "s_irq_enabled s \<Longrightarrow> mip_s_enabled i s = 0" by (simp add: s_irq_live_def)
    have "\<not> (can_take i s n \<and> bit (mideleg s) n)" for n
    proof
      assume "can_take i s n \<and> bit (mideleg s) n"
      then have "s_irq_enabled s" "bit (mip_s_enabled i s) n"
        by (auto simp: can_take_def enabled_bits s_irq_enabled_def)
      then show False using no by simp
    qed
    then show ?thesis using False unfolding find_filter by (simp add: find_None_iff)
  qed
  have ne: "m_irq_live i s \<Longrightarrow> find (bit (mip_m_enabled i s)) ?L \<noteq> None"
    using enabled_nonzero(1)[OF assms, of i] by (auto simp: m_irq_live_def find_None_iff)
  show ?thesis
    unfolding irq_spec_def irq_order_def find_append m s irq_choice_def using ne by (auto split: option.splits)
qed

lemma choice_cause:
  assumes "csr_inv s"
  shows "case irq_choice i s of None \<Rightarrow> \<not> irq_pending i s
    | Some n \<Rightarrow> irq_pending i s \<and> irq_cause i s = 0x80000000 + of_nat n"
proof -
  consider (m) "m_irq_live i s" | (s) "\<not> m_irq_live i s" "s_irq_live i s" | (none) "\<not> m_irq_live i s" "\<not> s_irq_live i s"
    by blast
  then show ?thesis
  proof cases
    case m
    then have "\<exists>n\<in>{11, 3, 7, 9, 1, 5}. bit (mip_m_enabled i s) n" using enabled_nonzero(1)[OF assms] by (simp add: m_irq_live_def)
    then show ?thesis using m by (simp add: irq_choice_def irq_pending_def irq_cause_def) blast
  next
    case s
    then have "\<exists>n\<in>{9, 1, 5}. bit (mip_s_enabled i s) n" using enabled_nonzero(2)[OF assms] by (simp add: s_irq_live_def)
    then show ?thesis using s by (simp add: irq_choice_def irq_pending_def irq_cause_def) blast
  next
    case none
    then show ?thesis by (simp add: irq_choice_def irq_pending_def)
  qed
qed

lemma irq_target:
  assumes "n \<in> {11, 3, 7, 9, 1, 5}"
  shows "trap_to_s (j\<lparr>ci_trap := True, ci_trap_cause := 0x80000000 + of_nat n\<rparr>) s \<longleftrightarrow>
    priv_mode s \<noteq> PRV_M \<and> bit (mideleg s) n"
proof -
  have "bit (0x80000000 + of_nat n :: u32) 31" "unat (fld 0 (0x80000000 + of_nat n :: u32) :: 5 word) = n"
    using assms by (auto simp: u32_bits unat_fld)
  then show ?thesis by (simp add: trap_to_s_def Let_def)
qed

text \<open>
  C22. In every reachable state the interrupt offered to the core is the first, in the order MEI, MSI, MTI,
  SEI, SSI, STI with the undelegated ones before the delegated ones, that is pending, enabled and not
  masked in the current mode; none is offered if there is none, and the trap the core then takes goes
  to supervisor mode exactly if that interrupt is delegated.
\<close>

theorem irq_highest_priority:
  "let s = csr_run ins csr_reset in
   case irq_spec i s of
     None \<Rightarrow> \<not> irq_pending i s
   | Some n \<Rightarrow> irq_pending i s \<and> irq_cause i s = 0x80000000 + of_nat n \<and>
       (trap_to_s (j\<lparr>ci_trap := True, ci_trap_cause := irq_cause i s\<rparr>) s \<longleftrightarrow> bit (mideleg s) n)"
proof -
  let ?s = "csr_run ins csr_reset"
  have inv: "csr_inv ?s" by (rule csr_inv_run[OF csr_inv_reset])
  note c = choice_cause[OF inv, of i, folded irq_spec_choice[OF inv]]
  show ?thesis
  proof (cases "irq_spec i ?s")
    case None
    then show ?thesis using c by (simp add: Let_def)
  next
    case (Some n)
    then have t: "can_take i ?s n"
      by (auto simp: irq_spec_def find_Some_iff)
    then have "n \<in> {11, 3, 7, 9, 1, 5}" using inv_bits(1)[OF inv] by (simp add: can_take_def)
    moreover have "bit (mideleg ?s) n \<Longrightarrow> priv_mode ?s \<noteq> PRV_M"
      using t by (auto simp: can_take_def PRV_M_def PRV_S_def PRV_U_def)
    ultimately show ?thesis using c Some irq_target[of n j ?s] by (auto simp: Let_def)
  qed
qed

section \<open>Confinement\<close>

definition S_ADDRS :: "12 word set" where
  "S_ADDRS = {0x100, 0x104, 0x144, 0x105, 0x140, 0x141, 0x142, 0x143, 0x180}"

definition M_PART :: u32 where "M_PART = NOT (SSTATUS_MASK OR 0x20000)"

text \<open>What a write to a supervisor CSR leaves alone.\<close>

definition confined :: "csrs \<Rightarrow> csrs \<Rightarrow> bool" where
  "confined s t \<longleftrightarrow>
     mtvec t = mtvec s \<and> mscratch t = mscratch s \<and> mepc t = mepc s \<and> mcause t = mcause s \<and>
     mtval t = mtval s \<and> medeleg t = medeleg s \<and> mideleg t = mideleg s \<and>
     pmpcfg t = pmpcfg s \<and> pmpaddr t = pmpaddr s \<and>
     mstatus t AND M_PART = mstatus s AND M_PART \<and>
     (bit (mstatus t) 17 \<longrightarrow> bit (mstatus s) 17) \<and>
     mie t AND NOT (mideleg s) = mie s AND NOT (mideleg s) \<and>
     mip_sw t AND NOT MIP_S_WRITABLE = mip_sw s AND NOT MIP_S_WRITABLE"

lemma bit_M_PART: "bit M_PART n \<longleftrightarrow> n < 32 \<and> n \<notin> {1, 5, 8, 17, 18, 19}"
proof -
  have "bit (0x20000 :: u32) n \<longleftrightarrow> n = 17"
    by (cases "n < 32") (auto simp: u32_bits below_32)
  then show ?thesis unfolding M_PART_def by (simp only: bit_not_iff bit_or_iff bit_SSTATUS) auto
qed

lemma low_addr:
  fixes a :: "12 word"
  assumes "(fld 8 a :: 2 word) \<le> 1"
  shows "a \<notin> {0x300, 0x302, 0x303, 0x304, 0x344, 0x305, 0x340, 0x341, 0x342, 0x343, 0xB00, 0xB80, 0xB02, 0xB82}"
    "\<not> (0x3A0 \<le> a \<and> a \<le> 0x3A3)" "\<not> (0x3B0 \<le> a \<and> a \<le> 0x3BF)"
proof -
  have f: "unat a div 256 mod 4 \<le> 1" using assms by (simp add: word_le_nat_alt unat_fld)
  show "a \<notin> {0x300, 0x302, 0x303, 0x304, 0x344, 0x305, 0x340, 0x341, 0x342, 0x343, 0xB00, 0xB80, 0xB02, 0xB82}"
    using f by (auto simp: word_unat_eq_iff)
  have "unat a div 256 = 3" if "0x300 \<le> unat a" "unat a \<le> 0x3FF" using that by (intro div_nat_eqI) simp_all
  then show "\<not> (0x3A0 \<le> a \<and> a \<le> 0x3A3)" "\<not> (0x3B0 \<le> a \<and> a \<le> 0x3BF)"
    using f by (auto simp: word_le_nat_alt)
qed

lemma low_write_same:
  assumes "(fld 8 a :: 2 word) \<le> 1" "a \<notin> S_ADDRS"
  shows "csr_write a v s = s"
proof -
  note facts = low_addr(1)[OF assms(1), unfolded insert_iff empty_iff de_Morgan_disj]
    assms(2)[unfolded S_ADDRS_def insert_iff empty_iff de_Morgan_disj]
  show ?thesis unfolding csr_write_def using facts
    by (simp only: low_addr(2,3)[OF assms(1)] if_False simp_thms)
qed

lemma low_write_confined:
  assumes "(fld 8 a :: 2 word) \<le> 1"
  shows "confined s (csr_write a v s)"
proof (cases "a \<in> S_ADDRS")
  case False
  then show ?thesis using low_write_same[OF assms] by (simp add: confined_def)
next
  case True
  have m: "masked SSTATUS_MASK w v AND M_PART = w AND M_PART" for w
    by (rule bit_word_eqI) (auto simp: bit_masked bit_and_iff bit_M_PART bit_SSTATUS)
  have "\<not> bit SSTATUS_MASK 17" by (simp add: bit_SSTATUS)
  then have m17: "bit (masked SSTATUS_MASK w v) 17 = bit w 17" for w by (simp add: bit_masked)
  have e: "(w AND NOT d OR v AND d AND MIE_WRITABLE) AND NOT d = w AND NOT d" for w d :: u32
    by (rule bit_word_eqI) (auto simp: bit_simps)
  have p: "(w AND NOT d OR v AND d AND d') AND NOT d = w AND NOT d" for w d d' :: u32
    by (rule bit_word_eqI) (auto simp: bit_simps)
  from True show ?thesis unfolding S_ADDRS_def
    by (elim insertE emptyE) (simp_all add: confined_def csr_write_def m m17 e p)
qed

lemma sret_confined: "confined s (do_sret s)"
proof -
  have "put_bit n b w AND M_PART = w AND M_PART"
    if "n \<in> {1, 5, 8, 17}" for n b w
    using that by (intro bit_word_eqI) (auto simp: bit_and_iff bit_put_bit bit_M_PART)
  then show ?thesis by (auto simp: confined_def do_sret_def Let_def bit_put_bit)
qed

text \<open>
  C11. Code below machine mode that takes no trap (and does not reach \<open>mret\<close>, which the core does not let
  it) cannot change machine state: trap vector, scratch, trap registers, delegation, protection entries,
  the machine bits of \<open>mstatus\<close> (\<open>MPRV\<close> can only be cleared), undelegated interrupt enables, counters other
  than by their tick; and it does not reach machine mode.
\<close>

theorem csr_confinement:
  assumes "priv_mode s = PRV_S \<or> priv_mode s = PRV_U" "\<not> ci_trap i" "\<not> ci_mret i"
  shows "let t = csr_step False i s in
    confined s t \<and> priv_mode t \<noteq> PRV_M \<and> mcycle t = mcycle s + 1 \<and>
    minstret t = (if ci_retire i then minstret s + 1 else minstret s)"
proof -
  let ?u = "csr_tick i s"
  have low: "(fld 8 (ci_addr i) :: 2 word) \<le> 1" if "do_write i s"
    using that assms(1) by (auto simp: do_write_def csr_illegal_def PRV_S_def PRV_U_def)
  have "do_write i s \<Longrightarrow> ci_addr i \<notin> {0xB00, 0xB80, 0xB02, 0xB82}"
    using low_addr(1)[OF low] by simp
  then have u: "?u = s\<lparr>mcycle := mcycle s + 1, minstret := (if ci_retire i then minstret s + 1 else minstret s)\<rparr>"
    by (auto simp: csr_tick_def)
  have cu: "confined s t" if "confined ?u t" for t using that by (simp add: confined_def u)
  have w: "priv_mode (csr_write a v x) = priv_mode x" for a v x by (simp add: csr_write_def)
  have c: "mcycle (csr_write a v x) = mcycle x" "minstret (csr_write a v x) = minstret x"
    if "(fld 8 a :: 2 word) \<le> 1" for a v x
    using low_addr(1)[OF that] by (simp_all add: csr_write_def)
  have d: "mcycle (do_sret x) = mcycle x" "minstret (do_sret x) = minstret x" "priv_mode (do_sret x) \<noteq> PRV_M" for x
    by (simp_all add: do_sret_def Let_def PRV_M_def PRV_S_def PRV_U_def)
  have nm: "priv_mode ?u \<noteq> PRV_M" using assms(1) by (auto simp: u PRV_M_def PRV_S_def PRV_U_def)
  consider "ci_sret i" | "\<not> ci_sret i" "do_write i s" | "\<not> ci_sret i" "\<not> do_write i s" by blast
  then show ?thesis
  proof cases
    case 1
    then have "csr_step False i s = do_sret ?u" using assms by (simp add: csr_step_def Let_def)
    then show ?thesis using cu[OF sret_confined] d[of ?u] by (simp add: u)
  next
    case 2
    then have "csr_step False i s = csr_write (ci_addr i) (csr_new_val i s) ?u"
      using assms by (simp add: csr_step_def Let_def)
    then show ?thesis using cu[OF low_write_confined[OF low[OF 2(2)]]] c[OF low[OF 2(2)]] w nm by (simp add: u)
  next
    case 3
    then have "csr_step False i s = ?u" using assms by (simp add: csr_step_def Let_def)
    then show ?thesis using nm by (simp add: u confined_def)
  qed
qed

theorem csr_confinement_witness:
  "let i = \<lparr>ci_en = True, ci_op = 1, ci_addr = 0x100, ci_rs1_or_imm = 1, ci_wdata = - 1, ci_trap = False,
            ci_trap_pc = 0, ci_trap_cause = 0, ci_trap_tval = 0, ci_mret = False, ci_sret = False,
            ci_retire = True, ci_mti = False, ci_msi = False, ci_mei = False, ci_sei = False, ci_mtime = 0\<rparr>
   in priv_mode (csr_step False i (csr_reset\<lparr>priv_mode := PRV_S\<rparr>)) \<noteq> PRV_M"
  using csr_confinement[of "csr_reset\<lparr>priv_mode := PRV_S\<rparr>"] by (simp add: Let_def)

section \<open>Trap and return\<close>

lemma trap_step:
  assumes "ci_trap i"
  shows "csr_step False i s = (if trap_to_s i s then trap_s i (csr_tick i s) else trap_m i (csr_tick i s))"
  using assms by (simp add: csr_step_def Let_def)

lemma tick_kept [simp]:
  "mstatus (csr_tick i s) = mstatus s" "priv_mode (csr_tick i s) = priv_mode s"
  by (simp_all add: csr_tick_def)

lemma mode_cases: "w = PRV_U \<or> w = PRV_S \<or> w = 2 \<or> w = PRV_M" for w :: "2 word"
proof -
  have "unat w < 4" using unsigned_less[of w, where 'a = nat] by simp
  then show ?thesis by (auto simp: less_4_cases word_unat_eq_iff PRV_U_def PRV_S_def PRV_M_def)
qed

lemma mode_bits:
  "n \<in> {11, 12} \<Longrightarrow> bit (put_fld 11 (w :: 2 word) (v :: u32)) n = bit w (n - 11)"
  "n \<notin> {11, 12} \<Longrightarrow> bit (put_fld 11 (w :: 2 word) (v :: u32)) n = bit v n"
  by (auto simp: bit_put_fld dest: bit_imp_le_length)

text \<open>The status bits after a trap and after a return.\<close>

lemma trap_status:
  "bit (mstatus (trap_s i x)) n =
    (if n = 1 then False else if n = 5 then bit (mstatus x) 1 else if n = 8 then priv_mode x = PRV_S else bit (mstatus x) n)"
  "bit (mstatus (trap_m i x)) n =
    (if n = 3 then False else if n = 7 then bit (mstatus x) 3 else if n \<in> {11, 12} then bit (priv_mode x) (n - 11)
     else bit (mstatus x) n)"
  by (auto simp: trap_s_def trap_m_def bit_put_bit mode_bits)

lemma return_status:
  "bit (mstatus (do_sret x)) n =
    (if n = 5 then True else if n = 8 then False else if n = 1 then bit (mstatus x) 5
     else if n = 17 then bit (mstatus x) 17 \<and> bit (mstatus x) 8 else bit (mstatus x) n)"
  "bit (mstatus (do_mret x)) n =
    (if n = 7 then True else if n \<in> {11, 12} then False else if n = 3 then bit (mstatus x) 7
     else if n = 17 then bit (mstatus x) 17 \<and> mpp x = PRV_M else bit (mstatus x) n)"
  by (auto simp: do_sret_def do_mret_def Let_def bit_put_bit mode_bits PRV_U_def)

text \<open>The rest of the state after a trap and the return from it.\<close>

lemma roundtrip_rest:
  "do_sret (csr_tick j (trap_s i (csr_tick i s))) =
    s\<lparr>sepc := ci_trap_pc i, scause := ci_trap_cause i, stval := ci_trap_tval i,
      mstatus := mstatus (do_sret (csr_tick j (trap_s i (csr_tick i s)))),
      mcycle := mcycle (csr_tick j (trap_s i (csr_tick i s))),
      minstret := minstret (csr_tick j (trap_s i (csr_tick i s))), priv_mode := (if priv_mode s = PRV_S then PRV_S else PRV_U)\<rparr>"
  "do_mret (csr_tick j (trap_m i (csr_tick i s))) =
    s\<lparr>mepc := ci_trap_pc i, mcause := ci_trap_cause i, mtval := ci_trap_tval i,
      mstatus := mstatus (do_mret (csr_tick j (trap_m i (csr_tick i s)))),
      mcycle := mcycle (csr_tick j (trap_m i (csr_tick i s))),
      minstret := minstret (csr_tick j (trap_m i (csr_tick i s))), priv_mode := mpp (csr_tick j (trap_m i (csr_tick i s)))\<rparr>"
  by (simp_all add: do_sret_def do_mret_def Let_def csr_tick_def trap_s_def trap_m_def bit_put_bit)

lemma trap_mpp: "mpp (csr_tick j (trap_m i (csr_tick i s))) = priv_mode s"
  by (simp add: mpp_def trap_m_def) (rule bit_word_eqI, auto simp: lane_simps)

lemma keep_eq: "x = y\<lparr>mstatus := a, mcycle := b, minstret := c, priv_mode := priv_mode y\<rparr> \<Longrightarrow>
  x = y\<lparr>mstatus := mstatus x, mcycle := mcycle x, minstret := minstret x\<rparr>" for x y :: csrs
  by simp

text \<open>
  C25. A trap enters supervisor mode exactly if it comes from below machine mode and is delegated, and saves
  its pc, cause and value there. It moves that mode's interrupt enable to the saved one and clears it, records the
  privilege mode in the field of that mode, and changes no other bit of \<open>mstatus\<close>. After the matching return the
  state is again as before the trap but for the two counters, the saved pc, cause and value, and four places of
  \<open>mstatus\<close>: the saved enable is set, the field of the mode is that of the least privileged one, and \<open>MPRV\<close> is cleared
  unless the trap came from the mode it was taken in.
\<close>

theorem trap_return_roundtrip:
  fixes s :: csrs
  assumes "ci_trap i" "priv_mode s \<noteq> 2" "\<not> ci_trap j" "ci_mret j = (\<not> trap_to_s i s)" "ci_sret j = trap_to_s i s"
  shows "let d = trap_to_s i s; ie = (if d then 1 else 3); pie = (if d then 5 else 7);
             t = csr_step False i s; u = csr_step False j t in
    priv_mode t = (if d then PRV_S else PRV_M) \<and>
    (if d then sepc t else mepc t) = ci_trap_pc i \<and> (if d then scause t else mcause t) = ci_trap_cause i \<and>
    (if d then stval t else mtval t) = ci_trap_tval i \<and>
    (\<forall>n. bit (mstatus t) n =
       (if n = ie then False else if n = pie then bit (mstatus s) ie
        else if d \<and> n = 8 then priv_mode s = PRV_S
        else if \<not> d \<and> n \<in> {11, 12} then bit (priv_mode s) (n - 11)
        else bit (mstatus s) n)) \<and>
    priv_mode u = priv_mode s \<and> bit (mstatus u) ie = bit (mstatus s) ie \<and>
    (\<forall>n. bit (mstatus u) n =
       (if n = pie then True
        else if d \<and> n = 8 \<or> \<not> d \<and> n \<in> {11, 12} then False
        else if n = 17 then bit (mstatus s) 17 \<and> priv_mode s = (if d then PRV_S else PRV_M)
        else bit (mstatus s) n)) \<and>
    u = (if d then s\<lparr>sepc := sepc t, scause := scause t, stval := stval t\<rparr>
         else s\<lparr>mepc := mepc t, mcause := mcause t, mtval := mtval t\<rparr>)
       \<lparr>mstatus := mstatus u, mcycle := mcycle u, minstret := minstret u\<rparr>"
proof (cases "trap_to_s i s")
  case True
  let ?t = "trap_s i (csr_tick i s)"
  let ?u = "do_sret (csr_tick j ?t)"
  have st: "csr_step False i s = ?t" "csr_step False j ?t = ?u"
    using assms True by (simp_all add: trap_step csr_step_def Let_def)
  have "priv_mode s \<noteq> PRV_M" using True by (simp add: trap_to_s_def Let_def)
  then have p: "(if priv_mode s = PRV_S then PRV_S else PRV_U) = priv_mode s" using assms(2) mode_cases[of "priv_mode s"] by auto
  have t: "priv_mode ?t = PRV_S" "sepc ?t = ci_trap_pc i" "scause ?t = ci_trap_cause i" "stval ?t = ci_trap_tval i"
    by (simp_all add: trap_s_def)
  note u = roundtrip_rest(1)[of j i s, unfolded p]
  have "priv_mode ?u = priv_mode s" by (subst u) simp
  moreover have "?u = s\<lparr>sepc := ci_trap_pc i, scause := ci_trap_cause i, stval := ci_trap_tval i\<rparr>
      \<lparr>mstatus := mstatus ?u, mcycle := mcycle ?u, minstret := minstret ?u\<rparr>"
    by (rule keep_eq[OF trans[OF u]]) simp
  ultimately show ?thesis using True by (auto simp: st Let_def t trap_status return_status)
next
  case False
  let ?t = "trap_m i (csr_tick i s)"
  let ?u = "do_mret (csr_tick j ?t)"
  have st: "csr_step False i s = ?t" "csr_step False j ?t = ?u"
    using assms False by (simp_all add: trap_step csr_step_def Let_def)
  have t: "priv_mode ?t = PRV_M" "mepc ?t = ci_trap_pc i" "mcause ?t = ci_trap_cause i" "mtval ?t = ci_trap_tval i"
    by (simp_all add: trap_m_def)
  note u = roundtrip_rest(2)[of j i s, unfolded trap_mpp]
  have "priv_mode ?u = priv_mode s" by (subst u) simp
  moreover have "?u = s\<lparr>mepc := ci_trap_pc i, mcause := ci_trap_cause i, mtval := ci_trap_tval i\<rparr>
      \<lparr>mstatus := mstatus ?u, mcycle := mcycle ?u, minstret := minstret ?u\<rparr>"
    by (rule keep_eq[OF trans[OF u]]) simp
  ultimately show ?thesis using False by (auto simp: st Let_def t trap_status return_status trap_mpp)
qed

text \<open>
  Where the code departs from the privileged manual. \<open>csrrs\<close>/\<open>csrrc\<close> on \<open>mip\<close> write back the
  external-interrupt line they read, so setting the timer bit while the line is high leaves a
  software-pending external interrupt behind; a supervisor write to \<open>sip\<close> clears an undelegated software
  interrupt; \<open>sret\<close> to supervisor mode keeps \<open>MPRV\<close>; and \<open>mret\<close> can enter the reserved mode 2.
\<close>

lemma mip_set_latches_external:
  assumes "ci_sei i" "ci_addr i = 0x344" "ci_op i = 2" "do_write i s" "\<not> ci_trap i" "\<not> ci_mret i" "\<not> ci_sret i"
  shows "bit (mip_sw (csr_step False i s)) 9"
proof -
  have "csr_lookup i s 0x344 = Some (mip_live i s)" by (simp add: csr_lookup_def)
  then have "bit (csr_new_val i s) 9"
    using assms by (simp add: csr_new_val_def read_value_def mip_live_def bit_or_iff bit_put_bit)
  moreover have "csr_step False i s = csr_write 0x344 (csr_new_val i s) (csr_tick i s)"
    using assms by (simp add: csr_step_def Let_def)
  ultimately show ?thesis by (simp add: csr_write_def bit_masked bit_MIP_M)
qed

lemma sip_write_clears_undelegated: "\<not> bit (mideleg s) 1 \<Longrightarrow> \<not> bit (mip_sw (csr_write 0x144 v s)) 1"
  by (simp add: csr_write_def bit_or_iff bit_and_iff bit_not_iff bit_MIP_S)

lemma sret_keeps_mprv: "bit (mstatus s) 8 \<Longrightarrow> bit (mstatus s) 17 \<Longrightarrow> bit (mstatus (do_sret s)) 17"
  by (simp add: do_sret_def Let_def bit_put_bit)

lemma mret_reserved_mode: "priv_mode (do_mret (csr_write 0x300 0x1000 csr_reset)) = 2"
  by (simp add: do_mret_def Let_def mpp_def csr_write_def masked_def MSTATUS_WRITABLE_def csr_reset_def fld_def)

theorem trap_return_roundtrip_witness:
  "let i = \<lparr>ci_en = False, ci_op = 0, ci_addr = 0, ci_rs1_or_imm = 0, ci_wdata = 0, ci_trap = True,
            ci_trap_pc = 0x80000010, ci_trap_cause = 8, ci_trap_tval = 0, ci_mret = False, ci_sret = False,
            ci_retire = False, ci_mti = False, ci_msi = False, ci_mei = False, ci_sei = False, ci_mtime = 0\<rparr>;
       s = csr_reset\<lparr>priv_mode := PRV_U, medeleg := 0x100\<rparr>
   in trap_to_s i s \<and>
     priv_mode (csr_step False (i\<lparr>ci_trap := False, ci_sret := True\<rparr>) (csr_step False i s)) = PRV_U"
proof -
  let ?i = "\<lparr>ci_en = False, ci_op = 0, ci_addr = 0, ci_rs1_or_imm = 0, ci_wdata = 0, ci_trap = True,
            ci_trap_pc = 0x80000010, ci_trap_cause = 8, ci_trap_tval = 0, ci_mret = False, ci_sret = False,
            ci_retire = False, ci_mti = False, ci_msi = False, ci_mei = False, ci_sei = False, ci_mtime = 0\<rparr>"
  let ?s = "csr_reset\<lparr>priv_mode := PRV_U, medeleg := 0x100\<rparr>"
  have d: "trap_to_s ?i ?s"
    by (simp add: trap_to_s_def Let_def unat_fld u32_bits PRV_U_def PRV_M_def)
  have "priv_mode ?s = PRV_U" "priv_mode ?s \<noteq> 2" by (simp_all add: PRV_U_def)
  then show ?thesis
    using trap_return_roundtrip[of ?i ?s "?i\<lparr>ci_trap := False, ci_sret := True\<rparr>"] d by (simp add: Let_def)
qed

end
