(* ===== verification/Plic.thy ===== *)
theory Plic
  imports Bus
begin

text \<open>
  \<open>rtl/soc/plic.sv\<close>: the interrupt controller at its default parameters, four sources (source 0
  reserved) and two contexts. The right-hand sides read the state \<open>s\<close> before the edge and update
  the state \<open>t\<close> under construction.
\<close>

section \<open>Model\<close>

record plic =
  pl_prio :: "nat \<Rightarrow> 3 word"
  pl_pending :: "4 word"
  pl_enable :: "nat \<Rightarrow> 4 word"
  pl_threshold :: "nat \<Rightarrow> 3 word"
  pl_claimed :: "nat \<Rightarrow> 3 word"
  pl_inflight :: "4 word"
  pl_rsp_valid :: bool
  pl_rsp_rdata :: u32
  pl_rsp_fault :: bool

definition NUM_SOURCES :: nat where "NUM_SOURCES = 4"
definition NUM_CTX :: nat where "NUM_CTX = 2"

definition plic_reset :: plic where
  "plic_reset = \<lparr>pl_prio = (\<lambda>_. 0), pl_pending = 0, pl_enable = (\<lambda>_. 0), pl_threshold = (\<lambda>_. 0),
     pl_claimed = (\<lambda>_. 0), pl_inflight = 0, pl_rsp_valid = False, pl_rsp_rdata = 0, pl_rsp_fault = False\<rparr>"

text \<open>Address decode: the offset in the 16 MiB window, and the four windows.\<close>

definition pl_off :: "bus_req \<Rightarrow> nat" where "pl_off r = unat (fld 0 (rq_addr r) :: 24 word)"

definition in_prio_window :: "nat \<Rightarrow> bool" where "in_prio_window off = (off < 0x1000)"
definition in_pending :: "nat \<Rightarrow> bool" where "in_pending off = (off = 0x1000)"
definition in_enable_window :: "nat \<Rightarrow> bool" where
  "in_enable_window off = (0x2000 \<le> off \<and> off < 0x2000 + NUM_CTX * 0x80)"
definition in_ctx_window :: "nat \<Rightarrow> bool" where
  "in_ctx_window off = (0x200000 \<le> off \<and> off < 0x200000 + NUM_CTX * 0x1000)"

definition prio_idx :: "nat \<Rightarrow> nat" where "prio_idx off = off div 4"
definition en_ctx :: "nat \<Rightarrow> nat" where "en_ctx off = (off - 0x2000) div 0x80"
definition ctx_idx :: "nat \<Rightarrow> nat" where "ctx_idx off = (off - 0x200000) div 0x1000"
definition ctx_off :: "nat \<Rightarrow> nat" where "ctx_off off = (off - 0x200000) mod 0x1000"

text \<open>The priority scan with its two variables.\<close>

definition pick_src :: "plic \<Rightarrow> nat \<Rightarrow> nat \<Rightarrow> 3 word \<times> nat \<Rightarrow> 3 word \<times> nat" where
  "pick_src s c i = (\<lambda>(best_prio, best_idx).
     if bit (pl_enable s c) i \<and> bit (pl_pending s) i \<and> pl_threshold s c < pl_prio s i \<and> best_prio < pl_prio s i
     then (pl_prio s i, i) else (best_prio, best_idx))"

definition pick_best_src :: "plic \<Rightarrow> nat \<Rightarrow> nat" where
  "pick_best_src s c = snd (fold (pick_src s c) [1..<NUM_SOURCES] (0, 0))"

definition irq_o :: "plic \<Rightarrow> nat \<Rightarrow> bool" where "irq_o s c = (pick_best_src s c \<noteq> 0)"

text \<open>The gateway: a source line latches its pending bit unless it is in flight.\<close>

definition plic_gateway :: "4 word \<Rightarrow> plic \<Rightarrow> 4 word" where
  "plic_gateway src s =
     put_bit 0 False (fold (\<lambda>i p. if bit src i \<and> \<not> bit (pl_inflight s) i then put_bit i True p else p)
       [1..<NUM_SOURCES] (pl_pending s))"

definition plic_prio_access :: "bus_req \<Rightarrow> plic \<Rightarrow> plic \<Rightarrow> plic" where
  "plic_prio_access r s t =
     (let i = prio_idx (pl_off r) in
      if rq_wen r
      then (if 0 < i \<and> i < NUM_SOURCES \<and> bit (rq_wmask r) 0
            then t\<lparr>pl_prio := (pl_prio s)(i := fld 0 (rq_wdata r))\<rparr> else t)
      else t\<lparr>pl_rsp_rdata := (if i < NUM_SOURCES then ucast (pl_prio s i) else 0)\<rparr>)"

definition plic_enable_access :: "bus_req \<Rightarrow> plic \<Rightarrow> plic \<Rightarrow> plic" where
  "plic_enable_access r s t =
     (let c = en_ctx (pl_off r) in
      if c < NUM_CTX
      then (if rq_wen r
            then let new_en = apply_wmask (ucast (pl_enable s c)) (rq_wdata r) (rq_wmask r)
                 in t\<lparr>pl_enable := (pl_enable s)(c := put_bit 0 False (fld 0 new_en))\<rparr>
            else t\<lparr>pl_rsp_rdata := ucast (pl_enable s c)\<rparr>)
      else t\<lparr>pl_rsp_fault := True\<rparr>)"

text \<open>Completion (a write) and claim (a read) of context \<open>c\<close>.\<close>

definition plic_complete :: "nat \<Rightarrow> u32 \<Rightarrow> plic \<Rightarrow> plic \<Rightarrow> plic" where
  "plic_complete c v s t =
     (if v < of_nat NUM_SOURCES \<and> v \<noteq> 0
      then t\<lparr>pl_inflight := put_bit (unat (fld 0 v :: 2 word)) False (pl_inflight s),
             pl_claimed := (if pl_claimed s c = fld 0 v then (pl_claimed s)(c := 0) else pl_claimed s)\<rparr>
      else t)"

definition plic_claim :: "nat \<Rightarrow> plic \<Rightarrow> plic \<Rightarrow> plic" where
  "plic_claim c s t =
     (let best = pick_best_src s c; u = t\<lparr>pl_rsp_rdata := of_nat best\<rparr> in
      if best \<noteq> 0
      then u\<lparr>pl_pending := put_bit best False (pl_pending u),
             pl_inflight := put_bit best True (pl_inflight s),
             pl_claimed := (pl_claimed s)(c := of_nat best)\<rparr>
      else u)"

definition plic_ctx_access :: "bus_req \<Rightarrow> plic \<Rightarrow> plic \<Rightarrow> plic" where
  "plic_ctx_access r s t =
     (let c = ctx_idx (pl_off r); o' = ctx_off (pl_off r) in
      if c < NUM_CTX
      then (if o' = 0
            then (if rq_wen r
                  then (if bit (rq_wmask r) 0
                        then t\<lparr>pl_threshold := (pl_threshold s)(c := fld 0 (rq_wdata r))\<rparr> else t)
                  else t\<lparr>pl_rsp_rdata := ucast (pl_threshold s c)\<rparr>)
            else if o' = 4
            then (if rq_wen r then plic_complete c (rq_wdata r) s t else plic_claim c s t)
            else t\<lparr>pl_rsp_fault := True\<rparr>)
      else t\<lparr>pl_rsp_fault := True\<rparr>)"

definition plic_access :: "bus_req \<Rightarrow> plic \<Rightarrow> plic \<Rightarrow> plic" where
  "plic_access r s t =
     (let off = pl_off r in
      if in_prio_window off then plic_prio_access r s t
      else if in_pending off
      then (if rq_wen r then t else t\<lparr>pl_rsp_rdata := ucast (pl_pending s)\<rparr>)
      else if in_enable_window off then plic_enable_access r s t
      else if in_ctx_window off then plic_ctx_access r s t
      else t\<lparr>pl_rsp_fault := True\<rparr>)"

definition plic_step :: "bool \<Rightarrow> 4 word \<Rightarrow> bus_req \<Rightarrow> plic \<Rightarrow> plic" where
  "plic_step rst src r s =
     (if rst then plic_reset
      else
        let t = s\<lparr>pl_rsp_valid := rq_valid r, pl_rsp_rdata := 0, pl_rsp_fault := False,
                  pl_pending := plic_gateway src s\<rparr>
        in if rq_valid r then plic_access r s t else t)"

fun plic_run :: "(4 word \<times> bus_req) list \<Rightarrow> plic \<Rightarrow> plic" where
  "plic_run [] s = s"
| "plic_run ((src, r) # is) s = plic_run is (plic_step False src r s)"

lemmas plic_ops = plic_access_def plic_prio_access_def plic_enable_access_def plic_ctx_access_def
  plic_complete_def plic_claim_def

lemma plic_access_valid: "pl_rsp_valid (plic_access r s t) = pl_rsp_valid t"
  by (simp add: plic_ops Let_def)

interpretation plic_bus: bus_slave "\<lambda>rst r. plic_step rst src r" "\<lambda>s r. True" pl_rsp_valid for src
  by unfold_locales (simp_all add: plic_step_def plic_reset_def plic_access_valid Let_def)

section \<open>Choice\<close>

text \<open>Specification: the sources a context may claim, and the order between them.\<close>

definition candidate :: "plic \<Rightarrow> nat \<Rightarrow> nat \<Rightarrow> bool" where
  "candidate s c i \<longleftrightarrow> i \<in> {1..3} \<and> bit (pl_enable s c) i \<and> bit (pl_pending s) i \<and> pl_threshold s c < pl_prio s i"

definition beats :: "plic \<Rightarrow> nat \<Rightarrow> nat \<Rightarrow> bool" where
  "beats s i j \<longleftrightarrow> pl_prio s j < pl_prio s i \<or> pl_prio s j = pl_prio s i \<and> i \<le> j"

lemma in_1_3: "i \<in> {1..3 :: nat} \<longleftrightarrow> i = 1 \<or> i = 2 \<or> i = 3"
  by auto

lemma upt_sources: "[1..<NUM_SOURCES] = [1, 2, 3]"
  by (simp add: NUM_SOURCES_def upt_rec numeral_eq_Suc)

definition best :: "plic \<Rightarrow> nat \<Rightarrow> nat \<Rightarrow> 3 word \<times> nat \<Rightarrow> bool" where
  "best s c n = (\<lambda>(p, k). if k = 0 then p = 0 \<and> (\<forall>j. j \<le> n \<longrightarrow> \<not> candidate s c j)
     else candidate s c k \<and> k \<le> n \<and> p = pl_prio s k \<and> (\<forall>j. j \<le> n \<and> candidate s c j \<longrightarrow> beats s k j))"

lemma best_step:
  assumes "best s c n pk" "Suc n \<in> {1..3}"
  shows "best s c (Suc n) (pick_src s c (Suc n) pk)"
proof -
  obtain p k where pk: "pk = (p, k)" by (cases pk)
  have le: "j \<le> Suc n \<longleftrightarrow> j \<le> n \<or> j = Suc n" for j by auto
  show ?thesis
  proof (cases "candidate s c (Suc n) \<and> p < pl_prio s (Suc n)")
    case True
    then have pick: "pick_src s c (Suc n) (p, k) = (pl_prio s (Suc n), Suc n)"
      by (simp add: pick_src_def candidate_def)
    have "beats s (Suc n) j" if "j \<le> n" "candidate s c j" for j
      using that assms(1) True by (auto simp: pk best_def beats_def split: if_splits)
    then show ?thesis unfolding pk pick using True by (auto simp: best_def le beats_def)
  next
    case False
    then have pick: "pick_src s c (Suc n) (p, k) = (p, k)"
      using assms(2) by (auto simp: pick_src_def candidate_def)
    have "k = 0 \<Longrightarrow> \<not> candidate s c (Suc n)"
      using False assms(1) by (auto simp: pk best_def candidate_def word_gt_0)
    then show ?thesis unfolding pk pick using False assms(1)
      by (auto simp: pk best_def le beats_def not_less split: if_splits)
  qed
qed

lemma best_0: "best s c 0 (0, 0)"
  by (simp add: best_def candidate_def)

lemma pick_best_src_spec:
  "if pick_best_src s c = 0 then \<forall>j. \<not> candidate s c j
   else candidate s c (pick_best_src s c) \<and> (\<forall>j. candidate s c j \<longrightarrow> beats s (pick_best_src s c) j)"
proof -
  have "best s c 3 (fold (pick_src s c) [1, 2, 3] (0, 0))"
    using best_step[OF best_step[OF best_step[OF best_0]]] by (simp add: numeral_eq_Suc)
  moreover have "candidate s c j \<Longrightarrow> j \<le> 3" for j by (simp add: candidate_def)
  ultimately show ?thesis
    unfolding pick_best_src_def upt_sources best_def by (auto split: if_splits prod.splits)
qed

lemma beats_antisym: "beats s k l \<Longrightarrow> beats s l k \<Longrightarrow> k = l"
  by (auto simp: beats_def)

lemma not_candidate_0 [simp]: "\<not> candidate s c 0"
  by (simp add: candidate_def)

lemma pick_best_src_iff:
  "pick_best_src s c = k \<longleftrightarrow>
     (if k = 0 then \<forall>j. \<not> candidate s c j
      else candidate s c k \<and> (\<forall>j. candidate s c j \<longrightarrow> beats s k j))"
  using pick_best_src_spec[of s c]
  by (cases "pick_best_src s c = 0"; cases "k = 0") (auto intro: beats_antisym)

section \<open>Claim and completion\<close>

definition claim_off :: "nat \<Rightarrow> nat" where "claim_off c = 0x200004 + c * 0x1000"

definition claims :: "bus_req \<Rightarrow> nat \<Rightarrow> bool" where
  "claims r c \<longleftrightarrow> rq_valid r \<and> \<not> rq_wen r \<and> c < NUM_CTX \<and> pl_off r = claim_off c"

definition completes :: "bus_req \<Rightarrow> nat \<Rightarrow> bool" where
  "completes r k \<longleftrightarrow> rq_valid r \<and> rq_wen r \<and> (\<exists>c<NUM_CTX. pl_off r = claim_off c) \<and> unat (rq_wdata r) = k"

definition claimed_now :: "plic \<Rightarrow> bus_req \<Rightarrow> nat \<Rightarrow> bool" where
  "claimed_now s r k \<longleftrightarrow> k \<noteq> 0 \<and> (\<exists>c. claims r c \<and> pick_best_src s c = k)"

lemma claim_window:
  assumes "c < NUM_CTX"
  shows "\<not> in_prio_window (claim_off c)" "\<not> in_pending (claim_off c)" "\<not> in_enable_window (claim_off c)"
    "in_ctx_window (claim_off c)" "ctx_idx (claim_off c) = c" "ctx_off (claim_off c) = 4"
proof -
  have "c = 0 \<or> c = 1" using assms by (auto simp: NUM_CTX_def)
  then show "\<not> in_prio_window (claim_off c)" "\<not> in_pending (claim_off c)" "\<not> in_enable_window (claim_off c)"
    "in_ctx_window (claim_off c)" "ctx_idx (claim_off c) = c" "ctx_off (claim_off c) = 4"
    by (auto simp: claim_off_def in_prio_window_def in_pending_def in_enable_window_def in_ctx_window_def
        ctx_idx_def ctx_off_def NUM_CTX_def)
qed

lemma claim_window_conv:
  assumes "in_ctx_window off" "ctx_off off = 4"
  shows "off = claim_off (ctx_idx off)" "ctx_idx off < NUM_CTX"
proof -
  let ?d = "off - 0x200000"
  have d: "0x200000 \<le> off" "?d < 2 * 0x1000" "?d mod 0x1000 = 4"
    using assms by (auto simp: in_ctx_window_def ctx_off_def NUM_CTX_def)
  have "?d = ?d div 0x1000 * 0x1000 + 4" using d(3) div_mult_mod_eq[of ?d "0x1000"] by metis
  then show "off = claim_off (ctx_idx off)" using d(1) by (simp add: claim_off_def ctx_idx_def)
  show "ctx_idx off < NUM_CTX" unfolding ctx_idx_def NUM_CTX_def using d(2) by (rule less_mult_imp_div_less)
qed

lemma claims_unique: "claims r c \<Longrightarrow> claims r d \<Longrightarrow> c = d"
  by (simp add: claims_def claim_off_def)

text \<open>What one cycle does to the pending and in-flight bits.\<close>

definition ctx4 :: "bus_req \<Rightarrow> bool" where
  "ctx4 r \<longleftrightarrow> rq_valid r \<and> (\<exists>c<NUM_CTX. pl_off r = claim_off c)"

lemma access_other:
  assumes "rq_valid r" "\<not> ctx4 r"
  shows "pl_pending (plic_access r s t) = pl_pending t" "pl_inflight (plic_access r s t) = pl_inflight t"
proof -
  have n: "\<not> in_ctx_window (pl_off r) \<or> ctx_off (pl_off r) \<noteq> 4"
    using claim_window_conv[of "pl_off r"] assms by (auto simp: ctx4_def)
  have "pl_pending (plic_prio_access r s t) = pl_pending t" "pl_inflight (plic_prio_access r s t) = pl_inflight t"
    "pl_pending (plic_enable_access r s t) = pl_pending t" "pl_inflight (plic_enable_access r s t) = pl_inflight t"
    by (simp_all add: plic_prio_access_def plic_enable_access_def Let_def)
  moreover have "ctx_off (pl_off r) \<noteq> 4 \<Longrightarrow> pl_pending (plic_ctx_access r s t) = pl_pending t"
    "ctx_off (pl_off r) \<noteq> 4 \<Longrightarrow> pl_inflight (plic_ctx_access r s t) = pl_inflight t"
    by (simp_all add: plic_ctx_access_def Let_def)
  ultimately show "pl_pending (plic_access r s t) = pl_pending t" "pl_inflight (plic_access r s t) = pl_inflight t"
    using n by (auto simp: plic_access_def Let_def)
qed

lemma access_claim:
  assumes "claims r c"
  shows "plic_access r s t = plic_claim c s t"
  using assms claim_window[of c] by (simp add: claims_def plic_access_def plic_ctx_access_def Let_def)

lemma access_complete:
  assumes "rq_wen r" "c < NUM_CTX" "pl_off r = claim_off c"
  shows "plic_access r s t = plic_complete c (rq_wdata r) s t"
  using assms claim_window[of c] by (simp add: plic_access_def plic_ctx_access_def Let_def)

lemma bit_gateway:
  "bit (plic_gateway src s) k \<longleftrightarrow> k \<noteq> 0 \<and> (bit (pl_pending s) k \<or> k < 4 \<and> bit src k \<and> \<not> bit (pl_inflight s) k)"
  unfolding plic_gateway_def upt_sources
  by (auto simp: bit_put_bit dest: bit_imp_le_length split: if_splits)

lemma pick_le: "pick_best_src s c \<le> 3" and pick_pending: "pick_best_src s c \<noteq> 0 \<Longrightarrow> bit (pl_pending s) (pick_best_src s c)"
  using pick_best_src_spec[of s c] by (auto simp: candidate_def split: if_splits)

lemma complete_inflight:
  assumes "k \<in> {1..3}" "pl_inflight t = pl_inflight s"
  shows "bit (pl_inflight (plic_complete c v s t)) k \<longleftrightarrow> bit (pl_inflight s) k \<and> unat v \<noteq> k"
    and "pl_pending (plic_complete c v s t) = pl_pending t"
proof -
  have lt: "v < of_nat NUM_SOURCES \<longleftrightarrow> unat v < 4" by (simp add: NUM_SOURCES_def word_less_nat_alt)
  have "unat (fld 0 v :: 2 word) = unat v" if "unat v < 4" using that by (simp add: unat_fld)
  then show "bit (pl_inflight (plic_complete c v s t)) k \<longleftrightarrow> bit (pl_inflight s) k \<and> unat v \<noteq> k"
    using assms by (auto simp: plic_complete_def lt bit_put_bit)
  show "pl_pending (plic_complete c v s t) = pl_pending t" by (simp add: plic_complete_def)
qed

lemma plic_bits:
  fixes s :: plic and r :: bus_req and src :: "4 word"
  assumes "k \<in> {1..3}"
  defines "s' \<equiv> plic_step False src r s"
  shows "bit (pl_pending s') k \<longleftrightarrow>
      (bit (pl_pending s) k \<or> bit src k \<and> \<not> bit (pl_inflight s) k) \<and> \<not> claimed_now s r k"
    and "bit (pl_inflight s') k \<longleftrightarrow> bit (pl_inflight s) k \<and> \<not> completes r k \<or> claimed_now s r k"
proof -
  let ?t = "s\<lparr>pl_rsp_valid := rq_valid r, pl_rsp_rdata := 0, pl_rsp_fault := False, pl_pending := plic_gateway src s\<rparr>"
  have k: "k \<noteq> 0" "k < 4" using assms by auto
  have st: "s' = (if rq_valid r then plic_access r s ?t else ?t)"
    by (simp add: s'_def plic_step_def Let_def)
  have gp: "bit (plic_gateway src s) k \<longleftrightarrow> bit (pl_pending s) k \<or> bit src k \<and> \<not> bit (pl_inflight s) k"
    using k by (simp add: bit_gateway)
  consider (other) "\<not> ctx4 r" | (claim) c where "claims r c" | (compl) c where "ctx4 r" "rq_wen r" "c < NUM_CTX" "pl_off r = claim_off c"
    by (auto simp: ctx4_def claims_def)
  then have "(bit (pl_pending s') k \<longleftrightarrow>
      (bit (pl_pending s) k \<or> bit src k \<and> \<not> bit (pl_inflight s) k) \<and> \<not> claimed_now s r k) \<and>
    (bit (pl_inflight s') k \<longleftrightarrow> bit (pl_inflight s) k \<and> \<not> completes r k \<or> claimed_now s r k)"
  proof cases
    case other
    then have "\<not> claimed_now s r k" "\<not> completes r k" by (auto simp: ctx4_def claimed_now_def claims_def completes_def)
    then show ?thesis using gp access_other[OF _ other] by (cases "rq_valid r") (simp_all add: st)
  next
    case claim
    have nc: "\<not> completes r k" using claim by (auto simp: claims_def completes_def)
    have cn: "claimed_now s r k \<longleftrightarrow> pick_best_src s c = k"
      using k claim claims_unique by (auto simp: claimed_now_def)
    show ?thesis using claim gp k pick_le[of s c] unfolding cn
      by (auto simp: st access_claim[OF claim] plic_claim_def Let_def bit_put_bit nc claims_def)
  next
    case compl
    then have "\<not> claimed_now s r k" "completes r k \<longleftrightarrow> unat (rq_wdata r) = k" "rq_valid r"
      by (auto simp: ctx4_def claimed_now_def claims_def completes_def)
    then show ?thesis using gp complete_inflight[OF assms(1), of ?t s c "rq_wdata r"] access_complete[OF compl(2-4)]
      by (simp add: st)
  qed
  then show "bit (pl_pending s') k \<longleftrightarrow>
      (bit (pl_pending s) k \<or> bit src k \<and> \<not> bit (pl_inflight s) k) \<and> \<not> claimed_now s r k"
    "bit (pl_inflight s') k \<longleftrightarrow> bit (pl_inflight s) k \<and> \<not> completes r k \<or> claimed_now s r k"
    by blast+
qed

lemma claim_value:
  assumes "claims r c"
  shows "pl_rsp_rdata (plic_step False src r s) = of_nat (pick_best_src s c)"
  using assms by (simp add: plic_step_def access_claim[OF assms] plic_claim_def claims_def Let_def)

lemma claim_value_unat:
  assumes "claims r c"
  shows "unat (pl_rsp_rdata (plic_step False src r s)) = pick_best_src s c"
proof -
  have "pick_best_src s c < 4294967296" using pick_le[of s c] by simp
  then show ?thesis unfolding claim_value[OF assms] by (rule unat_of_nat_u32)
qed

section \<open>Invariant\<close>

definition plic_inv :: "plic \<Rightarrow> bool" where
  "plic_inv s \<longleftrightarrow> (\<forall>k\<in>{1..3}. bit (pl_inflight s) k \<longrightarrow> \<not> bit (pl_pending s) k)"

lemma plic_inv_step: "plic_inv s \<Longrightarrow> plic_inv (plic_step False src r s)"
  unfolding plic_inv_def by (simp add: plic_bits)

lemma plic_inv_run: "plic_inv s \<Longrightarrow> plic_inv (plic_run ins s)"
  by (induction ins s rule: plic_run.induct) (simp_all add: plic_inv_step)

lemma plic_inv_reset: "plic_inv plic_reset"
  by (simp add: plic_inv_def plic_reset_def)

lemma inflight_run:
  assumes "bit (pl_inflight s) k" "k \<in> {1..3}" "\<forall>(src, r)\<in>set ins. \<not> completes r k"
  shows "bit (pl_inflight (plic_run ins s)) k"
  using assms by (induction ins s rule: plic_run.induct) (auto simp: plic_bits)

text \<open>A source latched once stays pending, whatever its line does, until it is claimed.\<close>

fun unclaimed :: "nat \<Rightarrow> (4 word \<times> bus_req) list \<Rightarrow> plic \<Rightarrow> bool" where
  "unclaimed k [] s = True"
| "unclaimed k ((src, r) # ins) s = (\<not> claimed_now s r k \<and> unclaimed k ins (plic_step False src r s))"

lemma pending_sticky:
  "k \<in> {1..3} \<Longrightarrow> bit (pl_pending s) k \<Longrightarrow> unclaimed k ins s \<Longrightarrow> bit (pl_pending (plic_run ins s)) k"
  by (induction k ins s rule: unclaimed.induct) (simp_all add: plic_bits)

text \<open>
  A claim returns the enabled pending source of highest priority above the threshold, the lowest
  numbered one among equals, and 0 exactly if there is none; the interrupt line of the context is high
  exactly if a claim would return a source.
\<close>

theorem plic_claim_returns_best:
  assumes "claims r c"
  shows "let v = unat (pl_rsp_rdata (plic_step False src r s)) in
    (irq_o s c \<longleftrightarrow> v \<noteq> 0) \<and>
    (if v = 0 then \<forall>j. \<not> candidate s c j
     else candidate s c v \<and> (\<forall>j. candidate s c j \<longrightarrow> beats s v j))"
  using pick_best_src_spec[of s c] by (simp add: claim_value_unat[OF assms] irq_o_def)

theorem plic_claim_returns_best_witness:
  "let s = plic_reset\<lparr>pl_prio := (\<lambda>i. if i = 2 then 5 else 3), pl_enable := (\<lambda>_. 14), pl_pending := 14\<rparr> in
   unat (pl_rsp_rdata (plic_step False 0 (rd_req 0x0C200004) s)) = 2"
proof -
  let ?s = "plic_reset\<lparr>pl_prio := (\<lambda>i. if i = 2 then 5 else 3), pl_enable := (\<lambda>_. 14), pl_pending := 14\<rparr>"
  let ?v = "unat (pl_rsp_rdata (plic_step False 0 (rd_req 0x0C200004) ?s))"
  have cl: "claims (rd_req 0x0C200004) 0"
    by (simp add: claims_def NUM_CTX_def claim_off_def pl_off_def unat_fld)
  have b: "bit (14 :: 4 word) 1" "bit (14 :: 4 word) 2" "bit (14 :: 4 word) 3" by (simp_all add: bit_iff_odd)
  have c2: "candidate ?s 0 2" by (simp add: candidate_def plic_reset_def b)
  note t = plic_claim_returns_best[OF cl, of 0 ?s, unfolded Let_def]
  have nz: "?v \<noteq> 0" using t c2 by metis
  then have "beats ?s ?v 2" using t c2 by metis
  then have "?v = 2" by (auto simp: beats_def split: if_splits)
  then show ?thesis by (simp only: Let_def)
qed

text \<open>
  C12. No double service: a source handed out by a claim is never handed out again, to either context,
  before a completion of it is written, whatever the lines and the bus do in between.
\<close>

theorem plic_claim_exclusive:
  fixes ins mid :: "(4 word \<times> bus_req) list"
  assumes "claims r c" "claims r' c'"
    and "v = pl_rsp_rdata (plic_step False src r (plic_run ins plic_reset))" "v \<noteq> 0"
    and "\<forall>(_, q)\<in>set mid. \<not> completes q (unat v)"
  shows "pl_rsp_rdata (plic_step False src' r' (plic_run (ins @ (src, r) # mid) plic_reset)) \<noteq> v"
proof -
  have app: "plic_run (xs @ ys) s = plic_run ys (plic_run xs s)" for xs ys s
    by (induction xs s rule: plic_run.induct) simp_all
  let ?s = "plic_run ins plic_reset"
  let ?t = "plic_run mid (plic_step False src r ?s)"
  define k where "k = pick_best_src ?s c"
  have v: "unat v = k" using claim_value_unat[OF assms(1)] by (simp add: assms(3) k_def)
  then have k: "k \<noteq> 0" "k \<in> {1..3}" using unat_gt_0[of v] assms(4) pick_le[of ?s c] unfolding k_def by auto
  have "bit (pl_inflight (plic_step False src r ?s)) k"
    using assms(1) k by (auto simp: plic_bits claimed_now_def k_def)
  then have "bit (pl_inflight ?t) k" using assms(5) k v by (intro inflight_run) auto
  moreover have "plic_inv ?t" by (intro plic_inv_run plic_inv_step plic_inv_reset)
  ultimately have "\<not> bit (pl_pending ?t) k" using k by (simp add: plic_inv_def)
  then have "pick_best_src ?t c' \<noteq> k" using pick_pending k by metis
  then have "unat (pl_rsp_rdata (plic_step False src' r' ?t)) \<noteq> unat v"
    unfolding claim_value_unat[OF assms(2)] v .
  then show ?thesis by (auto simp: app)
qed

theorem plic_claim_exclusive_witness:
  "let ins = [(2, wr_req 0x0C000004 1 15), (2, wr_req 0x0C002080 2 15)]; r = rd_req 0x0C201004;
       v = pl_rsp_rdata (plic_step False 2 r (plic_run ins plic_reset))
   in v \<noteq> 0 \<and> pl_rsp_rdata (plic_step False 2 (rd_req 0x0C200004)
     (plic_run (ins @ (2, r) # [(2, rd_req 0x0C001000)]) plic_reset)) \<noteq> v"
proof -
  let ?ins = "[(2 :: 4 word, wr_req 0x0C000004 1 15), (2, wr_req 0x0C002080 2 15)]"
  let ?s = "plic_run ?ins plic_reset" and ?r = "rd_req 0x0C201004"
  let ?v = "pl_rsp_rdata (plic_step False 2 ?r ?s)"
  have cl: "claims ?r 1" "claims (rd_req 0x0C200004) 0"
    by (simp_all add: claims_def NUM_CTX_def claim_off_def pl_off_def unat_fld)
  have off: "pl_off (wr_req 0x0C000004 1 15) = 4" "pl_off (wr_req 0x0C002080 2 15) = 0x2080"
    by (simp_all add: pl_off_def unat_fld)
  have b: "bit (15 :: 4 word) 0" "bit (2 :: 4 word) 1" "fld 0 (1 :: u32) = (1 :: 3 word)"
    "bit (fld 0 (2 :: u32) :: 4 word) (Suc 0)"
    by (simp_all add: bit_iff_odd fld_def)
  have cfg: "bit (pl_enable ?s 1) 1" "pl_threshold ?s 1 = 0" "pl_prio ?s 1 = 1"
    by (simp_all add: plic_step_def plic_access_def plic_prio_access_def plic_enable_access_def off Let_def
        in_prio_window_def in_pending_def in_enable_window_def prio_idx_def en_ctx_def NUM_SOURCES_def NUM_CTX_def
        plic_reset_def b bit_put_bit)
  have "claimed_now s (wr_req a x m) k = False" for s a x m k by (simp add: claimed_now_def claims_def)
  then have "bit (pl_pending ?s) 1" using b(2) by (simp add: plic_bits plic_reset_def)
  then have "candidate ?s 1 1" using cfg by (simp add: candidate_def)
  then have "pick_best_src ?s 1 \<noteq> 0" using pick_best_src_spec[of ?s 1] by (metis (full_types))
  then have "?v \<noteq> 0" using claim_value_unat[OF cl(1), of 2 ?s] by (metis unat_0)
  moreover have "\<forall>(_, q)\<in>set [(2 :: 4 word, rd_req 0x0C001000)]. \<not> completes q (unat ?v)"
    by (simp add: completes_def)
  ultimately show ?thesis
    using plic_claim_exclusive[OF cl refl, of 2 ?ins "[(2, rd_req 0x0C001000)]" 2] by (simp only: Let_def simp_thms)
qed

end
