(* ===== verification/Mmu.thy ===== *)
theory Mmu
  imports Pmp
begin

text \<open>
  The SV32 memory-management unit, \<open>rtl/core/mmu.sv\<close>: a translation lookaside buffer per port, the
  shared page-table walker, the protection check on the translated address, and the routing of
  requests and responses. The two ports are two instances of one side; a flag tells the
  instruction side (\<open>True\<close>) from the data side.
\<close>

section \<open>Inputs and state\<close>

record mmu_csr =
  mc_satp :: u32
  mc_priv :: "2 word"
  mc_mprv :: bool
  mc_mpp :: "2 word"
  mc_sum :: bool
  mc_mxr :: bool
  mc_pmpcfg :: pmp_cfg
  mc_pmpaddr :: pmp_addr

record sfence =
  sf_valid :: bool
  sf_rs1_nz :: bool
  sf_rs1_va :: u32
  sf_rs2_nz :: bool
  sf_rs2_asid :: "9 word"

text \<open>A core-facing port with the answers of its downstream.\<close>

record port_in =
  pi_valid :: bool
  pi_addr :: u32
  pi_wen :: bool
  pi_wdata :: u32
  pi_wmask :: "4 word"
  pi_size :: "2 word"
  pi_rsp_ready :: bool
  pi_ds_req_ready :: bool
  pi_ds_rsp_valid :: bool
  pi_ds_rsp_data :: u32
  pi_ds_rsp_fault :: bool

record port_out =
  po_ds_valid :: bool
  po_ds_addr :: u32
  po_ds_wen :: bool
  po_ds_wdata :: u32
  po_ds_wmask :: "4 word"
  po_ds_size :: "2 word"
  po_req_ready :: bool
  po_rsp_valid :: bool
  po_rsp_data :: u32
  po_rsp_fault :: bool
  po_rsp_pagefault :: bool
  po_ds_rsp_ready :: bool

record ptw_in =
  pw_req_ready :: bool
  pw_rsp_valid :: bool
  pw_rdata :: u32
  pw_fault :: bool

record tlb_entry =
  te_valid :: bool
  te_sp :: bool
  te_asid :: "9 word"
  te_g :: bool
  te_vpn :: "20 word"
  te_ppn :: "22 word"
  te_r :: bool
  te_w :: bool
  te_x :: bool
  te_u :: bool
  te_a :: bool
  te_d :: bool

definition te_zero :: tlb_entry where
  "te_zero = \<lparr>te_valid = False, te_sp = False, te_asid = 0, te_g = False, te_vpn = 0, te_ppn = 0,
     te_r = False, te_w = False, te_x = False, te_u = False, te_a = False, te_d = False\<rparr>"

record xside =
  xs_valid :: bool
  xs_fault :: bool
  xs_pa :: u32
  xs_va :: u32
  xs_tlb :: "nat \<Rightarrow> tlb_entry"
  xs_repl :: "2 word"
  xs_pmp_pending :: bool

datatype ptw_fsm = PTW_IDLE | PTW_L1_REQ | PTW_L1_WAIT | PTW_L0_REQ | PTW_L0_WAIT

record ptw =
  pt_state :: ptw_fsm
  pt_dm :: bool
  pt_fetch :: bool
  pt_store :: bool
  pt_priv :: "2 word"
  pt_va :: u32
  pt_ppn1 :: "12 word"
  pt_ppn0 :: "10 word"

record mmu =
  mm_ptw :: ptw
  mm_if :: xside
  mm_dm :: xside

definition TLB_N :: nat where "TLB_N = 4"

definition xside_reset :: xside where
  "xside_reset = \<lparr>xs_valid = False, xs_fault = False, xs_pa = 0, xs_va = 0, xs_tlb = (\<lambda>_. te_zero),
     xs_repl = 0, xs_pmp_pending = False\<rparr>"

definition mmu_reset :: mmu where
  "mmu_reset = \<lparr>mm_ptw = \<lparr>pt_state = PTW_IDLE, pt_dm = False, pt_fetch = False, pt_store = False,
       pt_priv = PRV_M, pt_va = 0, pt_ppn1 = 0, pt_ppn0 = 0\<rparr>,
     mm_if = xside_reset, mm_dm = xside_reset\<rparr>"

section \<open>Translation\<close>

definition satp_on :: "mmu_csr \<Rightarrow> bool" where "satp_on c = bit (mc_satp c) 31"
definition cur_asid :: "mmu_csr \<Rightarrow> 9 word" where "cur_asid c = fld 22 (mc_satp c)"
definition dm_eff_priv :: "mmu_csr \<Rightarrow> 2 word" where
  "dm_eff_priv c = (if mc_priv c = PRV_M \<and> mc_mprv c then mc_mpp c else mc_priv c)"
definition side_priv :: "mmu_csr \<Rightarrow> bool \<Rightarrow> 2 word" where
  "side_priv c f = (if f then mc_priv c else dm_eff_priv c)"
definition xlate :: "mmu_csr \<Rightarrow> bool \<Rightarrow> bool" where
  "xlate c f = (satp_on c \<and> side_priv c f \<noteq> PRV_M)"

definition tlb_match :: "tlb_entry \<Rightarrow> u32 \<Rightarrow> 9 word \<Rightarrow> bool" where
  "tlb_match e va asid =
     (te_valid e \<and> (te_g e \<or> te_asid e = asid) \<and>
      (fld 10 (te_vpn e) :: 10 word) = fld 22 va \<and>
      (te_sp e \<or> (fld 0 (te_vpn e) :: 10 word) = fld 12 va))"

text \<open>The lookup loop with its two variables: the last match wins.\<close>

definition tlb_lookup :: "xside \<Rightarrow> u32 \<Rightarrow> 9 word \<Rightarrow> bool \<times> tlb_entry" where
  "tlb_lookup x va asid =
     fold (\<lambda>i (hit, e). if tlb_match (xs_tlb x i) va asid then (True, xs_tlb x i) else (hit, e))
       [0..<TLB_N] (False, te_zero)"

definition perm_ok :: "2 word \<Rightarrow> bool \<Rightarrow> bool \<Rightarrow> bool \<Rightarrow> bool \<Rightarrow> bool \<Rightarrow> bool \<Rightarrow> bool \<Rightarrow> bool \<Rightarrow> bool \<Rightarrow> bool \<Rightarrow> bool" where
  "perm_ok eff_priv is_fetch is_store p_r p_w p_x p_u p_a p_d smode_user mxr =
     (let op_ok = (if is_fetch then p_x else if is_store then p_r \<and> p_w else p_r \<or> (mxr \<and> p_x));
          u_ok = (if eff_priv = PRV_U then p_u
                  else if eff_priv = PRV_S then (if is_fetch then \<not> p_u else \<not> p_u \<or> smode_user)
                  else True)
      in op_ok \<and> u_ok \<and> p_a \<and> (\<not> is_store \<or> p_d))"

section \<open>One side: the combinational decisions\<close>

definition is_store :: "bool \<Rightarrow> port_in \<Rightarrow> bool" where "is_store f p = (\<not> f \<and> pi_wen p)"

definition tlb_hit :: "mmu_csr \<Rightarrow> port_in \<Rightarrow> xside \<Rightarrow> bool" where
  "tlb_hit c p x = fst (tlb_lookup x (pi_addr p) (cur_asid c))"
definition tlb_hit_e :: "mmu_csr \<Rightarrow> port_in \<Rightarrow> xside \<Rightarrow> tlb_entry" where
  "tlb_hit_e c p x = snd (tlb_lookup x (pi_addr p) (cur_asid c))"

definition tlb_perm_ok :: "mmu_csr \<Rightarrow> bool \<Rightarrow> port_in \<Rightarrow> xside \<Rightarrow> bool" where
  "tlb_perm_ok c f p x =
     (let e = tlb_hit_e c p x in
      perm_ok (side_priv c f) f (is_store f p) (te_r e) (te_w e) (te_x e) (te_u e) (te_a e) (te_d e)
        (mc_sum c) (mc_mxr c))"

definition entry_pa :: "tlb_entry \<Rightarrow> u32 \<Rightarrow> u32" where
  "entry_pa e va =
     (if te_sp e then word_cat (fld 10 (te_ppn e) :: 12 word) (fld 0 va :: 22 word)
      else word_cat (te_ppn e) (fld 0 va :: 12 word))"

definition tlb_pa :: "mmu_csr \<Rightarrow> port_in \<Rightarrow> xside \<Rightarrow> u32" where
  "tlb_pa c p x = entry_pa (tlb_hit_e c p x) (pi_addr p)"

definition tlb_go :: "mmu_csr \<Rightarrow> bool \<Rightarrow> port_in \<Rightarrow> xside \<Rightarrow> bool" where
  "tlb_go c f p x = (xlate c f \<and> tlb_hit c p x \<and> tlb_perm_ok c f p x)"
definition tlb_deny :: "mmu_csr \<Rightarrow> bool \<Rightarrow> port_in \<Rightarrow> xside \<Rightarrow> bool" where
  "tlb_deny c f p x = (xlate c f \<and> tlb_hit c p x \<and> \<not> tlb_perm_ok c f p x)"

definition xlate_va_match :: "port_in \<Rightarrow> xside \<Rightarrow> bool" where
  "xlate_va_match p x = ((fld 12 (xs_va x) :: 20 word) = fld 12 (pi_addr p))"
definition xlate_cache_usable :: "port_in \<Rightarrow> xside \<Rightarrow> bool" where
  "xlate_cache_usable p x = (xs_valid x \<and> xlate_va_match p x)"
definition needs_walk :: "mmu_csr \<Rightarrow> bool \<Rightarrow> port_in \<Rightarrow> xside \<Rightarrow> bool" where
  "needs_walk c f p x = (xlate c f \<and> pi_valid p \<and> \<not> tlb_hit c p x \<and> \<not> xlate_cache_usable p x)"
definition xlate_cache_live :: "port_in \<Rightarrow> xside \<Rightarrow> bool" where
  "xlate_cache_live p x = (xs_valid x \<and> (\<not> pi_valid p \<or> xlate_va_match p x))"
definition forward :: "mmu_csr \<Rightarrow> bool \<Rightarrow> port_in \<Rightarrow> xside \<Rightarrow> bool" where
  "forward c f p x = (xlate c f \<and> xlate_cache_live p x \<and> \<not> xs_fault x)"
definition fault_reply :: "mmu_csr \<Rightarrow> bool \<Rightarrow> port_in \<Rightarrow> xside \<Rightarrow> bool" where
  "fault_reply c f p x = (xlate c f \<and> xlate_cache_live p x \<and> xs_fault x)"

text \<open>The protection check on the final address.\<close>

definition pmp_addr_active :: "mmu_csr \<Rightarrow> bool \<Rightarrow> port_in \<Rightarrow> xside \<Rightarrow> u32 \<times> bool" where
  "pmp_addr_active c f p x =
     (if \<not> xlate c f then (pi_addr p, pi_valid p)
      else if tlb_go c f p x then (tlb_pa c p x, pi_valid p)
      else if xlate c f \<and> xs_valid x \<and> \<not> xs_fault x \<and> xlate_va_match p x then (xs_pa x, pi_valid p)
      else (0, False))"

definition pmp_query :: "mmu_csr \<Rightarrow> bool \<Rightarrow> port_in \<Rightarrow> u32 \<Rightarrow> pmp_access" where
  "pmp_query c f p pa = \<lparr>pa_priv = side_priv c f, pa_addr = pa, pa_read = (\<not> f \<and> \<not> pi_wen p),
     pa_write = (\<not> f \<and> pi_wen p), pa_exec = f\<rparr>"

definition pmp_kill_comb :: "mmu_csr \<Rightarrow> bool \<Rightarrow> port_in \<Rightarrow> xside \<Rightarrow> bool" where
  "pmp_kill_comb c f p x =
     (let (pa, active) = pmp_addr_active c f p x in
      active \<and> pmp_fault (mc_pmpcfg c) (mc_pmpaddr c) (pmp_query c f p pa))"

definition pmp_kill :: "mmu_csr \<Rightarrow> bool \<Rightarrow> port_in \<Rightarrow> xside \<Rightarrow> bool" where
  "pmp_kill c f p x = (pmp_kill_comb c f p x \<or> xs_pmp_pending x)"

section \<open>One side: outputs\<close>

definition pass_through :: "port_in \<Rightarrow> u32 \<Rightarrow> port_out" where
  "pass_through p pa =
     \<lparr>po_ds_valid = pi_valid p, po_ds_addr = pa, po_ds_wen = pi_wen p, po_ds_wdata = pi_wdata p,
      po_ds_wmask = pi_wmask p, po_ds_size = pi_size p, po_req_ready = pi_ds_req_ready p,
      po_rsp_valid = pi_ds_rsp_valid p, po_rsp_data = pi_ds_rsp_data p,
      po_rsp_fault = pi_ds_rsp_fault p, po_rsp_pagefault = False, po_ds_rsp_ready = pi_rsp_ready p\<rparr>"

definition no_ds :: "bool \<Rightarrow> port_out" where
  "no_ds reply =
     \<lparr>po_ds_valid = False, po_ds_addr = 0, po_ds_wen = False, po_ds_wdata = 0, po_ds_wmask = 0,
      po_ds_size = 0, po_req_ready = reply, po_rsp_valid = reply, po_rsp_data = 0, po_rsp_fault = False,
      po_rsp_pagefault = reply, po_ds_rsp_ready = True\<rparr>"

definition raw_out :: "mmu_csr \<Rightarrow> bool \<Rightarrow> port_in \<Rightarrow> xside \<Rightarrow> port_out" where
  "raw_out c f p x =
     (if \<not> xlate c f then pass_through p (pi_addr p)
      else if tlb_go c f p x then pass_through p (tlb_pa c p x)
      else if tlb_deny c f p x then no_ds True
      else if forward c f p x then pass_through p (xs_pa x)
      else if fault_reply c f p x then no_ds True
      else no_ds False)"

definition side_out :: "mmu_csr \<Rightarrow> bool \<Rightarrow> port_in \<Rightarrow> xside \<Rightarrow> port_out" where
  "side_out c f p x =
     (if pmp_kill c f p x
      then (raw_out c f p x)\<lparr>po_ds_valid := False, po_ds_wen := False, po_req_ready := True, po_rsp_valid := True,
             po_rsp_data := 0, po_rsp_fault := True, po_rsp_pagefault := False, po_ds_rsp_ready := True\<rparr>
      else raw_out c f p x)"

section \<open>The page-table walker\<close>

definition pte_is_leaf :: "u32 \<Rightarrow> bool" where "pte_is_leaf pte = (bit pte 1 \<or> bit pte 3)"
definition pte_is_bad :: "u32 \<Rightarrow> bool" where "pte_is_bad pte = (\<not> bit pte 0 \<or> (bit pte 2 \<and> \<not> bit pte 1))"
definition pte_ppn0 :: "u32 \<Rightarrow> 10 word" where "pte_ppn0 pte = fld 10 pte"
definition pte_ppn1 :: "u32 \<Rightarrow> 12 word" where "pte_ppn1 pte = fld 20 pte"

definition pte_perm_ok :: "mmu_csr \<Rightarrow> ptw \<Rightarrow> u32 \<Rightarrow> bool" where
  "pte_perm_ok c t pte =
     perm_ok (pt_priv t) (pt_fetch t) (pt_store t) (bit pte 1) (bit pte 2) (bit pte 3) (bit pte 4) (bit pte 6)
       (bit pte 7) (mc_sum c) (mc_mxr c)"

definition l1_leaf_misaligned :: "u32 \<Rightarrow> bool" where "l1_leaf_misaligned pte = (pte_ppn0 pte \<noteq> 0)"
definition l1_leaf_ok :: "mmu_csr \<Rightarrow> ptw \<Rightarrow> u32 \<Rightarrow> bool" where
  "l1_leaf_ok c t pte = (\<not> l1_leaf_misaligned pte \<and> pte_perm_ok c t pte)"
definition l0_well_formed :: "ptw_in \<Rightarrow> bool" where
  "l0_well_formed w = (\<not> pw_fault w \<and> \<not> pte_is_bad (pw_rdata w) \<and> pte_is_leaf (pw_rdata w))"
definition l0_leaf_ok :: "mmu_csr \<Rightarrow> ptw \<Rightarrow> ptw_in \<Rightarrow> bool" where
  "l0_leaf_ok c t w = (l0_well_formed w \<and> pte_perm_ok c t (pw_rdata w))"

definition fill_entry :: "mmu_csr \<Rightarrow> ptw \<Rightarrow> bool \<Rightarrow> u32 \<Rightarrow> tlb_entry" where
  "fill_entry c t sp pte =
     \<lparr>te_valid = True, te_sp = sp, te_asid = cur_asid c, te_g = bit pte 5,
      te_vpn = (if sp then word_cat (fld 22 (pt_va t) :: 10 word) (0 :: 10 word)
                else word_cat (fld 22 (pt_va t) :: 10 word) (fld 12 (pt_va t) :: 10 word)),
      te_ppn = (if sp then word_cat (pte_ppn1 pte) (0 :: 10 word) else word_cat (pte_ppn1 pte) (pte_ppn0 pte)),
      te_r = bit pte 1, te_w = bit pte 2, te_x = bit pte 3, te_u = bit pte 4, te_a = bit pte 6, te_d = bit pte 7\<rparr>"

text \<open>The result of a walk: fault, the physical address (kept as it is on a level-1 fault), TLB fill.\<close>

record walk_res =
  wr_fault :: bool
  wr_pa :: "u32 option"
  wr_fill :: "tlb_entry option"

definition ptw_req :: "mmu_csr \<Rightarrow> ptw \<Rightarrow> bool \<times> u32" where
  "ptw_req c t =
     (case pt_state t of
        PTW_L1_REQ \<Rightarrow> (True, word_cat (fld 0 (mc_satp c) :: 22 word) (0 :: 12 word)
          + word_cat (fld 22 (pt_va t) :: 10 word) (0 :: 2 word))
      | PTW_L0_REQ \<Rightarrow> (True, word_cat (word_cat (fld 0 (pt_ppn1 t) :: 10 word) (pt_ppn0 t) :: 20 word) (0 :: 12 word)
          + word_cat (fld 12 (pt_va t) :: 10 word) (0 :: 2 word))
      | _ \<Rightarrow> (False, 0))"

definition ptw_result :: "mmu_csr \<Rightarrow> ptw_in \<Rightarrow> ptw \<Rightarrow> walk_res option" where
  "ptw_result c w t =
     (let pte = pw_rdata w; va = pt_va t in
      case pt_state t of
        PTW_L1_WAIT \<Rightarrow>
          if \<not> pw_rsp_valid w then None
          else if pw_fault w \<or> pte_is_bad pte
          then Some \<lparr>wr_fault = True, wr_pa = None, wr_fill = None\<rparr>
          else if pte_is_leaf pte
          then Some \<lparr>wr_fault = (\<not> l1_leaf_ok c t pte),
                 wr_pa = Some (if l1_leaf_ok c t pte then word_cat (pte_ppn1 pte) (fld 0 va :: 22 word) else 0),
                 wr_fill = (if l1_leaf_misaligned pte then None else Some (fill_entry c t True pte))\<rparr>
          else None
      | PTW_L0_WAIT \<Rightarrow>
          if \<not> pw_rsp_valid w then None
          else Some \<lparr>wr_fault = (\<not> l0_leaf_ok c t w),
                 wr_pa = Some (if l0_leaf_ok c t w
                   then word_cat (word_cat (fld 0 (pte_ppn1 pte) :: 10 word) (pte_ppn0 pte) :: 20 word) (fld 0 va :: 12 word)
                   else 0),
                 wr_fill = (if l0_well_formed w then Some (fill_entry c t False pte) else None)\<rparr>
      | _ \<Rightarrow> None)"

text \<open>The next state; in the idle state a walk is launched, the instruction side first.\<close>

definition ptw_launch :: "mmu_csr \<Rightarrow> port_in \<Rightarrow> port_in \<Rightarrow> bool \<Rightarrow> bool \<Rightarrow> ptw \<Rightarrow> ptw" where
  "ptw_launch c pif pdm if_needs dm_needs t =
     (if if_needs
      then t\<lparr>pt_state := PTW_L1_REQ, pt_dm := False, pt_va := pi_addr pif, pt_fetch := True,
             pt_store := False, pt_priv := mc_priv c\<rparr>
      else if dm_needs
      then t\<lparr>pt_state := PTW_L1_REQ, pt_dm := True, pt_va := pi_addr pdm, pt_fetch := False,
             pt_store := pi_wen pdm, pt_priv := dm_eff_priv c\<rparr>
      else t)"

definition ptw_next :: "ptw_in \<Rightarrow> ptw \<Rightarrow> ptw" where
  "ptw_next w t =
     (case pt_state t of
        PTW_IDLE \<Rightarrow> t
      | PTW_L1_REQ \<Rightarrow> if pw_req_ready w then t\<lparr>pt_state := PTW_L1_WAIT\<rparr> else t
      | PTW_L1_WAIT \<Rightarrow>
          if \<not> pw_rsp_valid w then t
          else if pw_fault w \<or> pte_is_bad (pw_rdata w) \<or> pte_is_leaf (pw_rdata w) then t\<lparr>pt_state := PTW_IDLE\<rparr>
          else t\<lparr>pt_ppn1 := pte_ppn1 (pw_rdata w), pt_ppn0 := pte_ppn0 (pw_rdata w), pt_state := PTW_L0_REQ\<rparr>
      | PTW_L0_REQ \<Rightarrow> if pw_req_ready w then t\<lparr>pt_state := PTW_L0_WAIT\<rparr> else t
      | PTW_L0_WAIT \<Rightarrow> if pw_rsp_valid w then t\<lparr>pt_state := PTW_IDLE\<rparr> else t)"

section \<open>State update\<close>

definition commit_walk :: "walk_res option \<Rightarrow> u32 \<Rightarrow> xside \<Rightarrow> xside" where
  "commit_walk res va x =
     (case res of
        None \<Rightarrow> x
      | Some r \<Rightarrow> x\<lparr>xs_valid := True, xs_fault := wr_fault r,
                    xs_pa := (case wr_pa r of None \<Rightarrow> xs_pa x | Some pa \<Rightarrow> pa), xs_va := va\<rparr>)"

definition sfence_hits :: "sfence \<Rightarrow> tlb_entry \<Rightarrow> bool" where
  "sfence_hits sf e =
     (let vpn_match = (if te_sp e then (fld 10 (te_vpn e) :: 10 word) = fld 22 (sf_rs1_va sf)
                       else te_vpn e = fld 12 (sf_rs1_va sf));
          asid_match = (te_asid e = sf_rs2_asid sf)
      in if \<not> sf_rs1_nz sf \<and> \<not> sf_rs2_nz sf then True
         else if sf_rs1_nz sf \<and> \<not> sf_rs2_nz sf then vpn_match
         else if \<not> sf_rs1_nz sf \<and> sf_rs2_nz sf then \<not> te_g e \<and> asid_match
         else \<not> te_g e \<and> asid_match \<and> vpn_match)"

definition fill_tlb :: "walk_res option \<Rightarrow> xside \<Rightarrow> xside \<Rightarrow> xside" where
  "fill_tlb res x y =
     (case res of
        None \<Rightarrow> y
      | Some r \<Rightarrow>
          (case wr_fill r of
             None \<Rightarrow> y
           | Some e \<Rightarrow> y\<lparr>xs_tlb := (xs_tlb x)(unat (xs_repl x) := e), xs_repl := xs_repl x + 1\<rparr>))"

text \<open>The flush tests the entries before the edge and clears the valid bit of whatever is written there.\<close>

definition flush_tlb :: "sfence \<Rightarrow> xside \<Rightarrow> xside \<Rightarrow> xside" where
  "flush_tlb sf x y =
     (if sf_valid sf
      then y\<lparr>xs_tlb := (\<lambda>i. if i < TLB_N \<and> sfence_hits sf (xs_tlb x i)
                          then (xs_tlb y i)\<lparr>te_valid := False\<rparr> else xs_tlb y i)\<rparr>
      else y)"

text \<open>The walk-result registers: a walk's result, a buffer hit still waiting for its response, retirement.\<close>

definition result_step :: "mmu_csr \<Rightarrow> bool \<Rightarrow> port_in \<Rightarrow> walk_res option \<Rightarrow> u32 \<Rightarrow> xside \<Rightarrow> xside" where
  "result_step c f p res va x =
     (let go = tlb_go c f p x; deny = tlb_deny c f p x;
          req_fire = go \<and> pi_valid p \<and> pi_ds_req_ready p;
          rsp_fire = go \<and> pi_ds_rsp_valid p \<and> pi_rsp_ready p;
          deny_fire = deny \<and> pi_valid p \<and> pi_rsp_ready p;
          done = (forward c f p x \<and> pi_ds_rsp_valid p \<and> pi_rsp_ready p) \<or>
                 (fault_reply c f p x \<and> pi_rsp_ready p) \<or> rsp_fire \<or> deny_fire;
          x1 = commit_walk res va x;
          x2 = (if req_fire \<and> \<not> rsp_fire \<and> \<not> xs_valid x
                then x1\<lparr>xs_valid := True, xs_fault := False, xs_pa := tlb_pa c p x, xs_va := pi_addr p\<rparr> else x1);
          x3 = (if deny \<and> pi_valid p \<and> \<not> deny_fire \<and> \<not> xs_valid x
                then x2\<lparr>xs_valid := True, xs_fault := True, xs_va := pi_addr p\<rparr> else x2)
      in if done then x3\<lparr>xs_valid := False, xs_fault := False\<rparr> else x3)"

definition pmp_latch :: "mmu_csr \<Rightarrow> bool \<Rightarrow> port_in \<Rightarrow> xside \<Rightarrow> bool" where
  "pmp_latch c f p x =
     (if pmp_kill_comb c f p x \<and> pi_valid p \<and> \<not> pi_rsp_ready p then True
      else if xs_pmp_pending x \<and> pi_rsp_ready p then False
      else xs_pmp_pending x)"

definition side_step :: "mmu_csr \<Rightarrow> sfence \<Rightarrow> bool \<Rightarrow> port_in \<Rightarrow> walk_res option \<Rightarrow> u32 \<Rightarrow> xside \<Rightarrow> xside" where
  "side_step c sf f p res va x =
     (flush_tlb sf x (fill_tlb res x (result_step c f p res va x)))\<lparr>xs_pmp_pending := pmp_latch c f p x\<rparr>"

definition mmu_step :: "bool \<Rightarrow> mmu_csr \<Rightarrow> sfence \<Rightarrow> port_in \<Rightarrow> port_in \<Rightarrow> ptw_in \<Rightarrow> mmu \<Rightarrow> mmu" where
  "mmu_step rst c sf pif pdm w s =
     (if rst then mmu_reset
      else
        let t = mm_ptw s; res = ptw_result c w t;
            res_if = (if pt_dm t then None else res); res_dm = (if pt_dm t then res else None)
        in \<lparr>mm_ptw = (if pt_state t = PTW_IDLE
              then ptw_launch c pif pdm (needs_walk c True pif (mm_if s)) (needs_walk c False pdm (mm_dm s)) t
              else ptw_next w t),
            mm_if = side_step c sf True pif res_if (pt_va t) (mm_if s),
            mm_dm = side_step c sf False pdm res_dm (pt_va t) (mm_dm s)\<rparr>)"

end
