(* ===== verification/Mmu_Walk.thy ===== *)
theory Mmu_Walk
  imports Mmu
begin

text \<open>
  The translation of SV32 as the privileged manual defines it, and the proof that the page-table
  walker of \<open>rtl/core/mmu.sv\<close> computes it for any timing of its memory port.
\<close>

section \<open>Specification\<close>

text \<open>Physical memory as the walker's port sees it: a word, or a bus error.\<close>

type_synonym pmem = "u32 \<Rightarrow> u32 option"

definition pte_ppn :: "u32 \<Rightarrow> 22 word" where "pte_ppn pte = fld 10 pte"

definition pte_addr :: "22 word \<Rightarrow> 10 word \<Rightarrow> u32" where
  "pte_addr ppn idx = of_nat (unat ppn * 4096 + unat idx * 4)"

text \<open>The leaf entry of an address, and whether it maps a 4 MiB superpage.\<close>

definition sv32_leaf :: "pmem \<Rightarrow> u32 \<Rightarrow> u32 \<Rightarrow> (bool \<times> u32) option" where
  "sv32_leaf mem stp va =
     (case mem (pte_addr (fld 0 stp) (fld 22 va)) of
        None \<Rightarrow> None
      | Some p1 \<Rightarrow>
          if pte_is_bad p1 then None
          else if pte_is_leaf p1 then (if pte_ppn0 p1 = 0 then Some (True, p1) else None)
          else
            (case mem (pte_addr (pte_ppn p1) (fld 12 va)) of
               None \<Rightarrow> None
             | Some p0 \<Rightarrow> if pte_is_bad p0 \<or> \<not> pte_is_leaf p0 then None else Some (False, p0)))"

definition sv32_allows :: "mmu_csr \<Rightarrow> 2 word \<Rightarrow> bool \<Rightarrow> bool \<Rightarrow> u32 \<Rightarrow> bool" where
  "sv32_allows c prv fetch store pte \<longleftrightarrow>
     (if fetch then bit pte 3 else if store then bit pte 2 else bit pte 1 \<or> mc_mxr c \<and> bit pte 3) \<and>
     (prv = PRV_U \<longrightarrow> bit pte 4) \<and>
     (prv = PRV_S \<and> bit pte 4 \<longrightarrow> mc_sum c \<and> \<not> fetch) \<and>
     bit pte 6 \<and> (store \<longrightarrow> bit pte 7)"

definition sv32_pa :: "bool \<Rightarrow> u32 \<Rightarrow> u32 \<Rightarrow> u32" where
  "sv32_pa superpage pte va =
     (if superpage then word_cat (fld 20 pte :: 12 word) (fld 0 va :: 22 word)
      else word_cat (pte_ppn pte) (fld 0 va :: 12 word))"

definition sv32 :: "pmem \<Rightarrow> mmu_csr \<Rightarrow> 2 word \<Rightarrow> bool \<Rightarrow> bool \<Rightarrow> u32 \<Rightarrow> u32 option" where
  "sv32 mem c prv fetch store va =
     (case sv32_leaf mem (mc_satp c) va of
        None \<Rightarrow> None
      | Some (sp, pte) \<Rightarrow> if sv32_allows c prv fetch store pte then Some (sv32_pa sp pte va) else None)"

section \<open>Words and addresses\<close>

lemma word_cat_0:
  "(word_cat (a :: 'a::len word) (0 :: 'b::len word) :: u32) = of_nat (unat a * 2 ^ LENGTH('b))"
proof -
  have "(word_cat a (0 :: 'b word) :: u32) = word_of_int (uint a * 2 ^ LENGTH('b))"
    by (simp add: word_cat_eq concat_bit_eq push_bit_eq_mult)
  also have "\<dots> = of_nat (unat a * 2 ^ LENGTH('b))" by simp
  finally show ?thesis .
qed

lemma l0_base: "(word_cat (word_cat (fld 0 (pte_ppn1 p) :: 10 word) (pte_ppn0 p) :: 20 word) (x :: 12 word) :: u32) =
    word_cat (pte_ppn p) x"
  by (rule bit_word_eqI) (auto simp: bit_word_cat_iff bit_fld pte_ppn_def pte_ppn1_def pte_ppn0_def)

lemma perm_spec:
  assumes "\<not> pte_is_bad pte" "\<not> (fetch \<and> store)"
  shows "perm_ok prv fetch store (bit pte 1) (bit pte 2) (bit pte 3) (bit pte 4) (bit pte 6) (bit pte 7)
      (mc_sum c) (mc_mxr c) \<longleftrightarrow> sv32_allows c prv fetch store pte"
  using assms by (auto simp: perm_ok_def sv32_allows_def pte_is_bad_def PRV_U_def PRV_S_def Let_def)

section \<open>The walker against a memory\<close>

text \<open>
  The address whose response a waiting walker expects, a port that answers from memory, and a run of
  the walker up to its result.
\<close>

definition ptw_pending_addr :: "mmu_csr \<Rightarrow> ptw \<Rightarrow> u32" where
  "ptw_pending_addr c t =
     (case pt_state t of
        PTW_L1_WAIT \<Rightarrow> snd (ptw_req c (t\<lparr>pt_state := PTW_L1_REQ\<rparr>))
      | PTW_L0_WAIT \<Rightarrow> snd (ptw_req c (t\<lparr>pt_state := PTW_L0_REQ\<rparr>))
      | _ \<Rightarrow> snd (ptw_req c t))"

definition ptw_waiting :: "ptw \<Rightarrow> bool" where
  "ptw_waiting t \<longleftrightarrow> pt_state t = PTW_L1_WAIT \<or> pt_state t = PTW_L0_WAIT"

definition answers :: "pmem \<Rightarrow> u32 \<Rightarrow> ptw_in \<Rightarrow> bool" where
  "answers mem a w \<longleftrightarrow> (case mem a of None \<Rightarrow> pw_fault w | Some v \<Rightarrow> \<not> pw_fault w \<and> pw_rdata w = v)"

definition honest_cycle :: "pmem \<Rightarrow> mmu_csr \<Rightarrow> ptw_in \<Rightarrow> ptw \<Rightarrow> bool" where
  "honest_cycle mem c w t \<longleftrightarrow> (ptw_waiting t \<and> pw_rsp_valid w \<longrightarrow> answers mem (ptw_pending_addr c t) w)"

fun honest :: "pmem \<Rightarrow> mmu_csr \<Rightarrow> ptw_in list \<Rightarrow> ptw \<Rightarrow> bool" where
  "honest mem c [] t = True"
| "honest mem c (w # ws) t = (honest_cycle mem c w t \<and> honest mem c ws (ptw_next w t))"

fun walk :: "mmu_csr \<Rightarrow> ptw_in list \<Rightarrow> ptw \<Rightarrow> walk_res option" where
  "walk c [] t = None"
| "walk c (w # ws) t = (case ptw_result c w t of Some r \<Rightarrow> Some r | None \<Rightarrow> walk c ws (ptw_next w t))"

text \<open>What a running walk has established: in level 0, the level-1 entry it came from.\<close>

definition ptw_inv :: "pmem \<Rightarrow> mmu_csr \<Rightarrow> ptw \<Rightarrow> bool" where
  "ptw_inv mem c t \<longleftrightarrow> \<not> (pt_fetch t \<and> pt_store t) \<and>
     (pt_state t = PTW_L0_REQ \<or> pt_state t = PTW_L0_WAIT \<longrightarrow>
       (\<exists>p1. mem (pte_addr (fld 0 (mc_satp c)) (fld 22 (pt_va t))) = Some p1 \<and>
          \<not> pte_is_bad p1 \<and> \<not> pte_is_leaf p1 \<and> pt_ppn1 t = pte_ppn1 p1 \<and> pt_ppn0 t = pte_ppn0 p1))"

text \<open>A result is right if it is the translation, and the TLB fill the leaf.\<close>

definition walk_ok :: "pmem \<Rightarrow> mmu_csr \<Rightarrow> ptw \<Rightarrow> walk_res \<Rightarrow> bool" where
  "walk_ok mem c t r \<longleftrightarrow>
     (case sv32 mem c (pt_priv t) (pt_fetch t) (pt_store t) (pt_va t) of
        None \<Rightarrow> wr_fault r
      | Some pa \<Rightarrow> \<not> wr_fault r \<and> wr_pa r = Some pa) \<and>
     wr_fill r = map_option (\<lambda>(sp, pte). fill_entry c t sp pte) (sv32_leaf mem (mc_satp c) (pt_va t))"

lemma l1_addr:
  "pt_state t = PTW_L1_WAIT \<Longrightarrow> ptw_pending_addr c t = pte_addr (fld 0 (mc_satp c)) (fld 22 (pt_va t))"
  by (simp add: ptw_pending_addr_def ptw_req_def word_cat_0 pte_addr_def)

lemma l0_addr:
  assumes "pt_state t = PTW_L0_WAIT" "pt_ppn1 t = pte_ppn1 p1" "pt_ppn0 t = pte_ppn0 p1"
  shows "ptw_pending_addr c t = pte_addr (pte_ppn p1) (fld 12 (pt_va t))"
  using assms by (simp add: ptw_pending_addr_def ptw_req_def l0_base) (simp add: word_cat_0 pte_addr_def)

lemma ptw_result_ok:
  assumes "ptw_inv mem c t" "honest_cycle mem c w t" "ptw_result c w t = Some r"
  shows "walk_ok mem c t r"
proof -
  let ?l1 = "pte_addr (fld 0 (mc_satp c)) (fld 22 (pt_va t))"
  have fs: "\<not> (pt_fetch t \<and> pt_store t)" using assms(1) by (simp add: ptw_inv_def)
  have valid: "pw_rsp_valid w" and st: "pt_state t = PTW_L1_WAIT \<or> pt_state t = PTW_L0_WAIT"
    using assms(3) by (auto simp: ptw_result_def Let_def split: ptw_fsm.splits if_splits)
  from st show ?thesis
  proof
    assume l1: "pt_state t = PTW_L1_WAIT"
    then have a: "answers mem ?l1 w" using assms(2) valid l1_addr[OF l1] by (simp add: honest_cycle_def ptw_waiting_def)
    show ?thesis
    proof (cases "mem ?l1")
      case None
      then show ?thesis using a assms(3) l1 valid
        by (auto simp: answers_def ptw_result_def walk_ok_def sv32_def sv32_leaf_def Let_def)
    next
      case (Some p1)
      then have w: "\<not> pw_fault w" "pw_rdata w = p1" using a by (simp_all add: answers_def)
      consider (bad) "pte_is_bad p1" | (mis) "\<not> pte_is_bad p1" "pte_is_leaf p1" "pte_ppn0 p1 \<noteq> 0"
        | (leaf) "\<not> pte_is_bad p1" "pte_is_leaf p1" "pte_ppn0 p1 = 0"
        using assms(3) l1 valid w by (auto simp: ptw_result_def Let_def split: if_splits)
      then show ?thesis
      proof cases
        case bad
        then show ?thesis using assms(3) l1 valid w Some
          by (auto simp: ptw_result_def walk_ok_def sv32_def sv32_leaf_def Let_def)
      next
        case mis
        then show ?thesis using assms(3) l1 valid w Some
          by (auto simp: ptw_result_def walk_ok_def sv32_def sv32_leaf_def l1_leaf_ok_def l1_leaf_misaligned_def Let_def)
      next
        case leaf
        have ok: "l1_leaf_ok c t p1 \<longleftrightarrow> sv32_allows c (pt_priv t) (pt_fetch t) (pt_store t) p1"
          using leaf perm_spec[OF leaf(1) fs] by (simp add: l1_leaf_ok_def l1_leaf_misaligned_def pte_perm_ok_def)
        have sl: "sv32_leaf mem (mc_satp c) (pt_va t) = Some (True, p1)" using leaf Some by (simp add: sv32_leaf_def)
        show ?thesis using assms(3) l1 valid w leaf
          by (auto simp: ptw_result_def walk_ok_def sv32_def sl ok l1_leaf_misaligned_def sv32_pa_def pte_ppn1_def Let_def)
      qed
    qed
  next
    assume l0: "pt_state t = PTW_L0_WAIT"
    then obtain p1 where p1: "mem ?l1 = Some p1" "\<not> pte_is_bad p1" "\<not> pte_is_leaf p1"
      "pt_ppn1 t = pte_ppn1 p1" "pt_ppn0 t = pte_ppn0 p1"
      using assms(1) by (auto simp: ptw_inv_def)
    let ?l0 = "pte_addr (pte_ppn p1) (fld 12 (pt_va t))"
    have a: "answers mem ?l0 w"
      using assms(2) valid l0_addr[OF l0 p1(4,5), of c] l0 by (simp add: honest_cycle_def ptw_waiting_def)
    have sl: "sv32_leaf mem (mc_satp c) (pt_va t) =
        (if l0_well_formed w then Some (False, pw_rdata w) else None)"
      using p1 a by (auto simp: sv32_leaf_def l0_well_formed_def answers_def split: option.splits)
    have ok: "l0_leaf_ok c t w \<longleftrightarrow> l0_well_formed w \<and> sv32_allows c (pt_priv t) (pt_fetch t) (pt_store t) (pw_rdata w)"
      using perm_spec[OF _ fs] by (auto simp: l0_leaf_ok_def pte_perm_ok_def l0_well_formed_def)
    show ?thesis using assms(3) l0 valid
      by (auto simp: ptw_result_def walk_ok_def sv32_def sl ok sv32_pa_def l0_base Let_def)
  qed
qed

lemma ptw_next_inv:
  assumes "ptw_inv mem c t" "honest_cycle mem c w t" "pt_state t \<noteq> PTW_IDLE"
  shows "ptw_inv mem c (ptw_next w t)"
proof (cases "pt_state t = PTW_L1_WAIT \<and> pw_rsp_valid w")
  case True
  then show ?thesis using assms l1_addr[of t c]
    by (auto simp: ptw_inv_def ptw_next_def honest_cycle_def ptw_waiting_def answers_def split: option.splits)
next
  case False
  then show ?thesis using assms by (auto simp: ptw_inv_def ptw_next_def split: ptw_fsm.splits)
qed

lemma ptw_next_keeps [simp]:
  "pt_va (ptw_next w t) = pt_va t" "pt_fetch (ptw_next w t) = pt_fetch t" "pt_store (ptw_next w t) = pt_store t"
  "pt_priv (ptw_next w t) = pt_priv t" "pt_dm (ptw_next w t) = pt_dm t"
  by (simp_all add: ptw_next_def split: ptw_fsm.splits)

lemma ptw_next_idle: "ptw_result c w t = None \<Longrightarrow> pt_state t \<noteq> PTW_IDLE \<Longrightarrow> pt_state (ptw_next w t) \<noteq> PTW_IDLE"
  by (auto simp: ptw_result_def ptw_next_def Let_def split: ptw_fsm.splits if_splits)

lemma walk_ok_cong: "walk_ok mem c (ptw_next w t) r = walk_ok mem c t r"
proof -
  have "fill_entry c (ptw_next w t) = fill_entry c t" by (intro ext) (simp add: fill_entry_def)
  then show ?thesis by (simp add: walk_ok_def)
qed

fun steps_left :: "ptw_fsm \<Rightarrow> nat" where
  "steps_left PTW_L1_REQ = 4" | "steps_left PTW_L1_WAIT = 3" | "steps_left PTW_L0_REQ = 2"
| "steps_left PTW_L0_WAIT = 1" | "steps_left PTW_IDLE = 0"

definition served :: "ptw_in list \<Rightarrow> nat" where
  "served ws = length (filter (\<lambda>w. pw_req_ready w \<and> pw_rsp_valid w) ws)"

lemma walk_correct:
  assumes "ptw_inv mem c t" "honest mem c ws t" "pt_state t \<noteq> PTW_IDLE"
  shows "case walk c ws t of None \<Rightarrow> served ws < steps_left (pt_state t) | Some r \<Rightarrow> walk_ok mem c t r"
  using assms
proof (induction ws arbitrary: t)
  case Nil
  then show ?case by (cases "pt_state t") (simp_all add: served_def)
next
  case (Cons w ws)
  show ?case
  proof (cases "ptw_result c w t")
    case None
    have h: "honest_cycle mem c w t" "honest mem c ws (ptw_next w t)" using Cons.prems by simp_all
    note IH = Cons.IH[OF ptw_next_inv[OF Cons.prems(1) h(1) Cons.prems(3)] h(2) ptw_next_idle[OF None Cons.prems(3)]]
    have "steps_left (pt_state (ptw_next w t)) + (if pw_req_ready w \<and> pw_rsp_valid w then 1 else 0)
        \<le> steps_left (pt_state t)"
      using None Cons.prems(3)
      by (auto simp: ptw_next_def ptw_result_def Let_def split: ptw_fsm.splits if_splits)
    then show ?thesis using IH None by (auto simp: walk_ok_cong served_def split: option.splits)
  next
    case (Some r)
    then show ?thesis using ptw_result_ok[OF Cons.prems(1) _ Some] Cons.prems(2) by simp
  qed
qed

text \<open>
  C7. Launched on an address, the walker yields exactly the SV32 translation or page fault of the address
  for the access it was launched for, and the leaf as its TLB fill, whatever the timing of a memory
  port that answers from memory; and it does so before the port has been ready and valid in four cycles.
\<close>

theorem ptw_refines_sv32:
  assumes "pt_state t = PTW_L1_REQ" "honest mem c ws t" "\<not> (pt_fetch t \<and> pt_store t)"
  shows "case walk c ws t of
      None \<Rightarrow> served ws < 4
    | Some r \<Rightarrow>
        (case sv32 mem c (pt_priv t) (pt_fetch t) (pt_store t) (pt_va t) of
           None \<Rightarrow> wr_fault r
         | Some pa \<Rightarrow> \<not> wr_fault r \<and> wr_pa r = Some pa) \<and>
        wr_fill r = map_option (\<lambda>(sp, pte). fill_entry c t sp pte) (sv32_leaf mem (mc_satp c) (pt_va t))"
proof -
  have "ptw_inv mem c t" using assms by (simp add: ptw_inv_def)
  from walk_correct[OF this assms(2)] show ?thesis using assms(1) unfolding walk_ok_def by (cases "walk c ws t") simp_all
qed

theorem ptw_refines_sv32_witness:
  "let c = \<lparr>mc_satp = 0x80080000, mc_priv = PRV_S, mc_mprv = False, mc_mpp = 0, mc_sum = False, mc_mxr = False,
            mc_pmpcfg = (\<lambda>_. 0), mc_pmpaddr = (\<lambda>_. 0)\<rparr>;
       t = \<lparr>pt_state = PTW_L1_REQ, pt_dm = True, pt_fetch = False, pt_store = False, pt_priv = PRV_S,
            pt_va = 0x80000123, pt_ppn1 = 0, pt_ppn0 = 0\<rparr>;
       w = \<lparr>pw_req_ready = True, pw_rsp_valid = True, pw_rdata = 0x200000CF, pw_fault = False\<rparr>
   in \<exists>r. walk c [w, w, w, w] t = Some r \<and>
     sv32 (\<lambda>_. Some 0x200000CF) c PRV_S False False 0x80000123 = (if wr_fault r then None else wr_pa r)"
proof -
  let ?c = "\<lparr>mc_satp = 0x80080000, mc_priv = PRV_S, mc_mprv = False, mc_mpp = 0, mc_sum = False, mc_mxr = False,
            mc_pmpcfg = (\<lambda>_. 0), mc_pmpaddr = (\<lambda>_. 0)\<rparr>"
  let ?t = "\<lparr>pt_state = PTW_L1_REQ, pt_dm = True, pt_fetch = False, pt_store = False, pt_priv = PRV_S,
            pt_va = 0x80000123, pt_ppn1 = 0, pt_ppn0 = 0\<rparr>"
  let ?w = "\<lparr>pw_req_ready = True, pw_rsp_valid = True, pw_rdata = 0x200000CF, pw_fault = False\<rparr>"
  let ?mem = "\<lambda>_ :: u32. Some (0x200000CF :: u32)"
  have a: "honest_cycle ?mem ?c ?w u" for u by (simp add: honest_cycle_def answers_def)
  have h: "honest ?mem ?c [?w, ?w, ?w, ?w] ?t" by (simp add: a)
  show ?thesis
    using ptw_refines_sv32[of ?t ?mem ?c "[?w, ?w, ?w, ?w]"] h
    by (auto simp: served_def Let_def simp del: walk.simps honest.simps split: option.splits)
qed

end
