(* ===== verification/Mmu_Tlb.thy ===== *)
theory Mmu_Tlb
  imports Mmu_Walk
begin

text \<open>
  The translation lookaside buffers of \<open>rtl/core/mmu.sv\<close> agree with the page tables: every reachable
  entry is a leaf of the tables, so a hit translates, or denies, exactly as a walk would.
\<close>

section \<open>Sound entries\<close>

definition te_covers :: "tlb_entry \<Rightarrow> u32 \<Rightarrow> bool" where
  "te_covers e va \<longleftrightarrow> (fld 10 (te_vpn e) :: 10 word) = fld 22 va \<and>
     (te_sp e \<or> (fld 0 (te_vpn e) :: 10 word) = fld 12 va)"

definition te_flags :: "tlb_entry \<Rightarrow> u32 \<Rightarrow> bool" where
  "te_flags e pte \<longleftrightarrow> te_r e = bit pte 1 \<and> te_w e = bit pte 2 \<and> te_x e = bit pte 3 \<and> te_u e = bit pte 4 \<and>
     te_a e = bit pte 6 \<and> te_d e = bit pte 7"

definition te_sound :: "pmem \<Rightarrow> u32 \<Rightarrow> tlb_entry \<Rightarrow> bool" where
  "te_sound mem stp e \<longleftrightarrow> (te_valid e \<longrightarrow>
     (\<forall>va. te_covers e va \<longrightarrow> (\<exists>pte. sv32_leaf mem stp va = Some (te_sp e, pte) \<and> te_flags e pte \<and>
        entry_pa e va = sv32_pa (te_sp e) pte va)))"

lemma fld_word_cat [simp]:
  "(fld 10 (word_cat (a :: 10 word) (b :: 10 word) :: 20 word) :: 10 word) = a"
  "(fld 0 (word_cat (a :: 10 word) (b :: 10 word) :: 20 word) :: 10 word) = b"
  "(fld 10 (word_cat (d :: 12 word) (b :: 10 word) :: 22 word) :: 12 word) = d"
  by (auto intro!: bit_word_eqI simp: bit_word_cat_iff bit_fld dest: bit_imp_le_length)

lemma pte_ppn_cat: "(word_cat (pte_ppn1 pte) (pte_ppn0 pte) :: 22 word) = pte_ppn pte"
  by (rule bit_word_eqI) (auto simp: bit_word_cat_iff bit_fld pte_ppn_def pte_ppn1_def pte_ppn0_def)

lemma sv32_leaf_page:
  assumes "sv32_leaf mem stp va = Some (sp, pte)" "(fld 22 va :: 10 word) = fld 22 va'"
    "sp \<or> (fld 12 va :: 10 word) = fld 12 va'"
  shows "sv32_leaf mem stp va' = Some (sp, pte)"
proof -
  obtain p1 where p1: "mem (pte_addr (fld 0 stp) (fld 22 va')) = Some p1" "\<not> pte_is_bad p1"
    using assms(1,2) by (auto simp: sv32_leaf_def split: option.splits if_splits)
  then show ?thesis using assms by (cases "pte_is_leaf p1") (auto simp: sv32_leaf_def split: option.splits if_splits)
qed

lemma fill_sound:
  assumes "sv32_leaf mem (mc_satp c) (pt_va t) = Some (sp, pte)"
  shows "te_sound mem (mc_satp c) (fill_entry c t sp pte)"
proof -
  let ?e = "fill_entry c t sp pte"
  have sel: "te_sp ?e = sp" "te_flags ?e pte" by (simp_all add: fill_entry_def te_flags_def)
  have "sv32_leaf mem (mc_satp c) va = Some (sp, pte) \<and> entry_pa ?e va = sv32_pa sp pte va" if "te_covers ?e va" for va
  proof
    show "sv32_leaf mem (mc_satp c) va = Some (sp, pte)"
      using that by (intro sv32_leaf_page[OF assms]) (auto simp: te_covers_def fill_entry_def split: if_splits)
    show "entry_pa ?e va = sv32_pa sp pte va"
      by (simp add: entry_pa_def fill_entry_def sv32_pa_def pte_ppn_cat) (simp add: pte_ppn1_def)
  qed
  then show ?thesis unfolding te_sound_def using sel by (intro impI allI exI[of _ pte]) simp
qed

lemma te_sound_invalid: "te_sound mem stp (e\<lparr>te_valid := False\<rparr>)"
  by (simp add: te_sound_def)

section \<open>The entries after one cycle\<close>

lemma fill_tlb_tlb: "xs_tlb y = xs_tlb x \<Longrightarrow> xs_tlb (fill_tlb res x y) =
    (case res of None \<Rightarrow> xs_tlb x | Some r \<Rightarrow> (case wr_fill r of None \<Rightarrow> xs_tlb x
       | Some e \<Rightarrow> (xs_tlb x)(unat (xs_repl x) := e)))"
  by (simp add: fill_tlb_def split: option.splits)

lemma flush_tlb_tlb: "xs_tlb (flush_tlb sf x z) =
    (if sf_valid sf then (\<lambda>i. if i < TLB_N \<and> sfence_hits sf (xs_tlb x i)
       then (xs_tlb z i)\<lparr>te_valid := False\<rparr> else xs_tlb z i) else xs_tlb z)"
  by (simp add: flush_tlb_def)

lemma tlb_kept:
  fixes y :: xside
  assumes "xs_tlb y = l"
  shows "xs_tlb (if b then y\<lparr>xs_valid := v, xs_fault := d\<rparr> else y) = l"
    "xs_tlb (if b then y\<lparr>xs_valid := v, xs_fault := d, xs_va := a\<rparr> else y) = l"
    "xs_tlb (if b then y\<lparr>xs_valid := v, xs_fault := d, xs_pa := a, xs_va := a'\<rparr> else y) = l"
    "xs_tlb (commit_walk res a y) = l"
  using assms by (simp_all add: commit_walk_def split: option.splits)

lemma side_step_tlb:
  "xs_tlb (side_step c sf f p res va x) = xs_tlb (flush_tlb sf x (fill_tlb res x x))"
proof -
  have "xs_tlb (flush_tlb sf x (fill_tlb res x y)) = xs_tlb (flush_tlb sf x (fill_tlb res x x))"
    if "xs_tlb y = xs_tlb x" for y
  proof -
    have e: "xs_tlb (fill_tlb res x y) = xs_tlb (fill_tlb res x x)"
      using fill_tlb_tlb[OF that, of res] fill_tlb_tlb[OF refl, of res x] by (rule trans[OF _ sym])
    show ?thesis unfolding flush_tlb_tlb e ..
  qed
  moreover have "xs_tlb (result_step c f p res va x) = xs_tlb x"
    unfolding result_step_def Let_def by (intro tlb_kept refl)
  ultimately have "xs_tlb (flush_tlb sf x (fill_tlb res x (result_step c f p res va x))) =
      xs_tlb (flush_tlb sf x (fill_tlb res x x))" by blast
  then show ?thesis unfolding side_step_def by simp
qed

lemma side_step_entry:
  "te_valid (xs_tlb (side_step c sf f p res va x) i) \<Longrightarrow>
     xs_tlb (side_step c sf f p res va x) i = xs_tlb x i \<or>
     (\<exists>r. res = Some r \<and> wr_fill r = Some (xs_tlb (side_step c sf f p res va x) i))"
  unfolding side_step_tlb flush_tlb_def
  by (auto simp: fill_tlb_tlb split: if_splits option.splits)

lemma side_step_sound:
  assumes "\<forall>i. te_sound mem stp (xs_tlb x i)"
    and "\<And>r e. res = Some r \<Longrightarrow> wr_fill r = Some e \<Longrightarrow> te_sound mem stp e"
  shows "\<forall>i. te_sound mem stp (xs_tlb (side_step c sf f p res va x) i)"
proof
  fix i
  let ?e = "xs_tlb (side_step c sf f p res va x) i"
  show "te_sound mem stp ?e"
    using side_step_entry[of c sf f p res va x i] assms by (cases "te_valid ?e") (auto simp: te_sound_def)
qed

section \<open>Runs with fixed page tables\<close>

type_synonym mmu_input = "mmu_csr \<times> sfence \<times> port_in \<times> port_in \<times> ptw_in"

fun mmu_run :: "mmu_input list \<Rightarrow> mmu \<Rightarrow> mmu" where
  "mmu_run [] s = s"
| "mmu_run ((c, sf, pif, pdm, w) # ins) s = mmu_run ins (mmu_step False c sf pif pdm w s)"

text \<open>The environment: \<open>satp\<close> stays, and the walker's port answers from the page tables \<open>mem\<close>.\<close>

fun mmu_env :: "pmem \<Rightarrow> u32 \<Rightarrow> mmu_input list \<Rightarrow> mmu \<Rightarrow> bool" where
  "mmu_env mem stp [] s = True"
| "mmu_env mem stp ((c, sf, pif, pdm, w) # ins) s =
     (mc_satp c = stp \<and> honest_cycle mem c w (mm_ptw s) \<and> mmu_env mem stp ins (mmu_step False c sf pif pdm w s))"

definition mmu_inv :: "pmem \<Rightarrow> u32 \<Rightarrow> mmu \<Rightarrow> bool" where
  "mmu_inv mem stp s \<longleftrightarrow>
     (\<forall>c. mc_satp c = stp \<longrightarrow> ptw_inv mem c (mm_ptw s)) \<and>
     (\<forall>i. te_sound mem stp (xs_tlb (mm_if s) i)) \<and> (\<forall>i. te_sound mem stp (xs_tlb (mm_dm s) i))"

lemma ptw_inv_satp: "mc_satp c = mc_satp d \<Longrightarrow> ptw_inv mem c t = ptw_inv mem d t"
  by (simp add: ptw_inv_def)

lemma mmu_inv_reset: "mmu_inv mem stp mmu_reset"
  by (simp add: mmu_inv_def mmu_reset_def ptw_inv_def xside_reset_def te_sound_def te_zero_def)

lemma mmu_inv_step:
  assumes "mmu_inv mem stp s" "mc_satp c = stp" "honest_cycle mem c w (mm_ptw s)"
  shows "mmu_inv mem stp (mmu_step False c sf pif pdm w s)"
proof -
  let ?t = "mm_ptw s" and ?s = "mmu_step False c sf pif pdm w s"
  have inv: "ptw_inv mem c ?t" using assms by (simp add: mmu_inv_def)
  have "ptw_inv mem c (mm_ptw ?s)"
  proof (cases "pt_state ?t = PTW_IDLE")
    case True
    then show ?thesis using inv by (auto simp: mmu_step_def ptw_launch_def ptw_inv_def Let_def)
  next
    case False
    then show ?thesis using ptw_next_inv[OF inv assms(3) False] by (simp add: mmu_step_def Let_def)
  qed
  then have p: "\<forall>d. mc_satp d = stp \<longrightarrow> ptw_inv mem d (mm_ptw ?s)" using assms(2) ptw_inv_satp by metis
  have fill: "te_sound mem stp e" if "ptw_result c w ?t = Some r" "wr_fill r = Some e" for r e
    using ptw_result_ok[OF inv assms(3) that(1)] that(2) fill_sound[of mem c ?t] assms(2)
    by (cases "sv32_leaf mem stp (pt_va ?t)") (auto simp: walk_ok_def)
  have "\<forall>i. te_sound mem stp (xs_tlb (mm_if ?s) i)" "\<forall>i. te_sound mem stp (xs_tlb (mm_dm ?s) i)"
    using assms(1) fill by (auto simp: mmu_step_def Let_def mmu_inv_def split: if_splits intro!: side_step_sound[rule_format])
  then show ?thesis using p by (simp add: mmu_inv_def)
qed

lemma mmu_inv_run: "mmu_inv mem stp s \<Longrightarrow> mmu_env mem stp ins s \<Longrightarrow> mmu_inv mem stp (mmu_run ins s)"
  by (induction ins s rule: mmu_run.induct) (simp_all add: mmu_inv_step)

lemma tlb_lookup_match:
  assumes "fst (tlb_lookup x va asid)"
  shows "\<exists>i. snd (tlb_lookup x va asid) = xs_tlb x i \<and> tlb_match (xs_tlb x i) va asid"
proof -
  let ?g = "\<lambda>i (hit, e). if tlb_match (xs_tlb x i) va asid then (True, xs_tlb x i) else (hit, e)"
  have "fst he \<Longrightarrow> \<exists>i. snd he = xs_tlb x i \<and> tlb_match (xs_tlb x i) va asid"
    if "he = fold ?g ns (False, te_zero)" for he ns
    using that
  proof (induction ns arbitrary: he rule: rev_induct)
    case Nil
    then show ?case by simp
  next
    case (snoc n ns)
    then show ?case by (cases "tlb_match (xs_tlb x n) va asid") (auto split: prod.splits)
  qed
  then show ?thesis using assms unfolding tlb_lookup_def by blast
qed

section \<open>Translation through the buffers\<close>

lemma hit_decision:
  assumes "\<forall>i. te_sound mem stp (xs_tlb x i)" "mc_satp c = stp" "xlate c f" "tlb_hit c p x"
  shows "case sv32 mem c (side_priv c f) f (is_store f p) (pi_addr p) of
      None \<Rightarrow> tlb_deny c f p x | Some pa \<Rightarrow> tlb_go c f p x \<and> tlb_pa c p x = pa"
proof -
  let ?e = "tlb_hit_e c p x"
  obtain i where "?e = xs_tlb x i" "tlb_match ?e (pi_addr p) (cur_asid c)"
    using tlb_lookup_match[of x "pi_addr p" "cur_asid c"] assms(4)
    unfolding tlb_hit_def tlb_hit_e_def by metis
  then have "te_sound mem stp ?e" "te_valid ?e" "te_covers ?e (pi_addr p)"
    using assms(1) by (auto simp: tlb_match_def te_covers_def)
  then obtain pte where pte: "sv32_leaf mem stp (pi_addr p) = Some (te_sp ?e, pte)" "te_flags ?e pte"
    "entry_pa ?e (pi_addr p) = sv32_pa (te_sp ?e) pte (pi_addr p)"
    unfolding te_sound_def by blast
  have "\<not> pte_is_bad pte" using pte(1) by (auto simp: sv32_leaf_def split: option.splits if_splits)
  then have perm: "tlb_perm_ok c f p x \<longleftrightarrow> sv32_allows c (side_priv c f) f (is_store f p) pte"
    using perm_spec[of pte f "is_store f p" "side_priv c f" c] pte(2)
    by (simp add: tlb_perm_ok_def te_flags_def is_store_def Let_def)
  show ?thesis using assms(2-4) pte(1,3) perm
    by (simp add: sv32_def tlb_go_def tlb_deny_def tlb_pa_def)
qed

text \<open>
  What the protection check looks at: the translation of the request or, where that is refused, the answer of a walk
  for the same page that is still held.
\<close>

definition checked_pa :: "(u32 \<Rightarrow> u32 option) \<Rightarrow> mmu_csr \<Rightarrow> bool \<Rightarrow> port_in \<Rightarrow> xside \<Rightarrow> u32 option" where
  "checked_pa mem c f p x =
     (case sv32 mem c (side_priv c f) f (is_store f p) (pi_addr p) of
        Some pa \<Rightarrow> Some pa
      | None \<Rightarrow> if xlate_cache_usable p x \<and> \<not> xs_fault x then Some (xs_pa x) else None)"

definition refused :: "(u32 \<Rightarrow> u32 option) \<Rightarrow> mmu_csr \<Rightarrow> bool \<Rightarrow> port_in \<Rightarrow> xside \<Rightarrow> bool" where
  "refused mem c f p x \<longleftrightarrow>
     (case checked_pa mem c f p x of None \<Rightarrow> False
      | Some pa \<Rightarrow> pmp_fault (mc_pmpcfg c) (mc_pmpaddr c) (pmp_query c f p pa))"

lemma hit_kill:
  assumes "\<forall>i. te_sound mem (mc_satp c) (xs_tlb x i)" "xlate c f" "tlb_hit c p x" "pi_valid p"
  shows "pmp_kill_comb c f p x = refused mem c f p x"
  using hit_decision[OF assms(1) refl assms(2,3)] assms(2,4)
  by (auto simp: pmp_kill_comb_def pmp_addr_active_def refused_def checked_pa_def xlate_cache_usable_def
      tlb_go_def tlb_deny_def split: option.splits)

lemma hit_out:
  assumes "\<not> pmp_kill c f p x"
  shows "tlb_go c f p x \<Longrightarrow> side_out c f p x = pass_through p (tlb_pa c p x)"
    "tlb_deny c f p x \<Longrightarrow> side_out c f p x = no_ds True"
  using assms by (auto simp: side_out_def raw_out_def tlb_deny_def tlb_go_def)

lemma owed_fault:
  "xs_pmp_pending (side_step c sf f p res va x) \<longleftrightarrow>
    \<not> pi_rsp_ready p \<and> (xs_pmp_pending x \<or> pmp_kill_comb c f p x \<and> pi_valid p)"
  by (auto simp: side_step_def pmp_latch_def)

text \<open>
  C15. With fixed page tables, after any history of requests, walks, replacements and fences, a request
  that hits in either lookaside buffer is answered as SV32 and the protection entries demand. If the check denies its
  address, or the fault of an earlier denial has not been taken yet, it goes no further and is answered with an access
  fault; otherwise it goes no further and is answered with a page fault if the tables do not map it for this access,
  and is passed on, at exactly its SV32 translation, with memory's answer passed back if they do. A fault stays owed
  just until the response is taken. (The address checked is the translation; where there is none, it is the address of
  a walk for the same page whose answer is still held, if any.)
\<close>

theorem mmu_hit_translates:
  assumes "mmu_env mem (mc_satp c) ins mmu_reset" "xlate c f"
    and "x = (if f then mm_if else mm_dm) (mmu_run ins mmu_reset)" "tlb_hit c p x" "pi_valid p"
  shows "let o' = side_out c f p x; pa' = sv32 mem c (side_priv c f) f (is_store f p) (pi_addr p);
      denied = (\<exists>pa. (pa' = Some pa \<or> pa' = None \<and> xlate_cache_usable p x \<and> \<not> xs_fault x \<and> pa = xs_pa x) \<and>
        pmp_fault (mc_pmpcfg c) (mc_pmpaddr c) (pmp_query c f p pa)) in
    (if denied \<or> xs_pmp_pending x
     then \<not> po_ds_valid o' \<and> po_req_ready o' \<and> po_rsp_valid o' \<and> po_rsp_fault o' \<and> \<not> po_rsp_pagefault o' \<and> po_rsp_data o' = 0
     else case pa' of
        None \<Rightarrow> \<not> po_ds_valid o' \<and> po_req_ready o' \<and> po_rsp_valid o' \<and> \<not> po_rsp_fault o' \<and> po_rsp_pagefault o' \<and> po_rsp_data o' = 0
      | Some pa \<Rightarrow> po_ds_valid o' \<and> po_ds_addr o' = pa \<and> po_ds_wen o' = pi_wen p \<and> po_ds_wdata o' = pi_wdata p \<and>
          po_ds_wmask o' = pi_wmask p \<and> po_ds_size o' = pi_size p \<and> po_req_ready o' = pi_ds_req_ready p \<and>
          po_rsp_valid o' = pi_ds_rsp_valid p \<and> po_rsp_data o' = pi_ds_rsp_data p \<and> po_rsp_fault o' = pi_ds_rsp_fault p \<and>
          \<not> po_rsp_pagefault o') \<and>
    (\<forall>sf q w. xs_pmp_pending ((if f then mm_if else mm_dm)
        (mmu_step False c sf (if f then p else q) (if f then q else p) w (mmu_run ins mmu_reset))) \<longleftrightarrow>
      \<not> pi_rsp_ready p \<and> (denied \<or> xs_pmp_pending x))"
proof -
  have "mmu_inv mem (mc_satp c) (mmu_run ins mmu_reset)"
    using mmu_inv_run[OF mmu_inv_reset assms(1)] .
  then have inv: "\<forall>i. te_sound mem (mc_satp c) (xs_tlb x i)"
    using assms(3) by (simp add: mmu_inv_def)
  note d = hit_decision[OF inv refl assms(2,4)] and kill = hit_kill[OF inv assms(2,4,5)]
  have refused: "(\<exists>pa. (sv32 mem c (side_priv c f) f (is_store f p) (pi_addr p) = Some pa \<or>
      sv32 mem c (side_priv c f) f (is_store f p) (pi_addr p) = None \<and> xlate_cache_usable p x \<and> \<not> xs_fault x \<and> pa = xs_pa x) \<and>
      pmp_fault (mc_pmpcfg c) (mc_pmpaddr c) (pmp_query c f p pa)) = refused mem c f p x"
    by (auto simp: refused_def checked_pa_def split: option.splits)
  have owed: "xs_pmp_pending ((if f then mm_if else mm_dm)
        (mmu_step False c sf (if f then p else q) (if f then q else p) w (mmu_run ins mmu_reset))) \<longleftrightarrow>
      \<not> pi_rsp_ready p \<and> (refused mem c f p x \<or> xs_pmp_pending x)" for sf q w
    using assms(3,5) kill by (cases f) (auto simp: mmu_step_def Let_def owed_fault split: prod.splits)
  show ?thesis
  proof (cases "pmp_kill c f p x")
    case True
    then have "refused mem c f p x \<or> xs_pmp_pending x" using kill by (simp add: pmp_kill_def)
    then show ?thesis unfolding Let_def refused using True owed by (simp add: side_out_def)
  next
    case False
    then have "\<not> (refused mem c f p x \<or> xs_pmp_pending x)" using kill by (simp add: pmp_kill_def)
    then show ?thesis unfolding Let_def refused using d hit_out[OF False] assms(5) owed
      by (cases "sv32 mem c (side_priv c f) f (is_store f p) (pi_addr p)") (simp_all add: pass_through_def no_ds_def)
  qed
qed

section \<open>Fences\<close>

text \<open>
  Specification: a fence with an address names the entries that translate it, global ones included; with an
  address space it names the entries of that space that are not global.
\<close>

definition fence_names :: "sfence \<Rightarrow> tlb_entry \<Rightarrow> bool" where
  "fence_names sf e \<longleftrightarrow>
     (sf_rs1_nz sf \<longrightarrow> (fld 10 (te_vpn e) :: 10 word) = fld 22 (sf_rs1_va sf) \<and>
        (te_sp e \<or> (fld 0 (te_vpn e) :: 10 word) = fld 12 (sf_rs1_va sf))) \<and>
     (sf_rs2_nz sf \<longrightarrow> \<not> te_g e \<and> te_asid e = sf_rs2_asid sf)"

lemma vpn_halves:
  "te_vpn e = fld 12 va \<longleftrightarrow> (fld 10 (te_vpn e) :: 10 word) = fld 22 va \<and> (fld 0 (te_vpn e) :: 10 word) = fld 12 va"
proof
  assume h: "(fld 10 (te_vpn e) :: 10 word) = fld 22 va \<and> (fld 0 (te_vpn e) :: 10 word) = fld 12 va"
  show "te_vpn e = fld 12 va"
  proof (rule bit_word_eqI)
    fix n :: nat
    assume n: "n < LENGTH(20)"
    have "bit (fld 10 (te_vpn e) :: 10 word) (n - 10) = bit (fld 22 va :: 10 word) (n - 10)"
      "bit (fld 0 (te_vpn e) :: 10 word) n = bit (fld 12 va :: 10 word) n" using h by simp_all
    moreover have "n - 10 < 10" using n by auto
    ultimately show "bit (te_vpn e) n = bit (fld 12 va :: 20 word) n"
      using n by (cases "n < 10") (simp_all add: bit_fld)
  qed
next
  assume h: "te_vpn e = fld 12 va"
  show "(fld 10 (te_vpn e) :: 10 word) = fld 22 va \<and> (fld 0 (te_vpn e) :: 10 word) = fld 12 va"
    unfolding h by (auto intro!: bit_word_eqI simp: bit_fld)
qed

lemma sfence_hits_names: "sfence_hits sf e = fence_names sf e"
  by (auto simp: sfence_hits_def fence_names_def vpn_halves Let_def)

lemma flush_entry:
  assumes "sf_valid sf" "i < TLB_N" "sfence_hits sf (xs_tlb x i)"
  shows "\<not> te_valid (xs_tlb (side_step c sf f p res va x) i)"
  using assms by (simp add: side_step_tlb flush_tlb_def)

lemma no_match_no_hit:
  assumes "\<forall>i<TLB_N. \<not> te_valid (xs_tlb x i)"
  shows "\<not> tlb_hit c p x"
proof -
  have "fold (\<lambda>i (hit, e). if tlb_match (xs_tlb x i) va asid then (True, xs_tlb x i) else (hit, e)) ns z = z"
    if "set ns \<subseteq> {..<TLB_N}" for ns z va asid
    using that assms by (induction ns arbitrary: z) (auto simp: tlb_match_def split: prod.splits)
  then show ?thesis by (simp add: tlb_hit_def tlb_lookup_def atLeast0LessThan)
qed

text \<open>
  C16. A fence flushes what it names: in the next cycle no entry is left that the buffers held and the
  fence selects, entries it does not select stay unless a walk replaces them, and after a fence without
  operands nothing hits, even if a walk completes in the same cycle.
\<close>

theorem sfence_flushes:
  fixes s :: mmu
  assumes "sf_valid sf"
  shows "let t = mmu_step False c sf pif pdm w s in
    (if \<not> sf_rs1_nz sf \<and> \<not> sf_rs2_nz sf then \<not> tlb_hit d p (mm_if t) \<and> \<not> tlb_hit d p (mm_dm t)
     else \<forall>i<TLB_N. \<forall>(x, y)\<in>{(mm_if s, mm_if t), (mm_dm s, mm_dm t)}.
       (fence_names sf (xs_tlb x i) \<longrightarrow> \<not> te_valid (xs_tlb y i)) \<and>
       (\<not> fence_names sf (xs_tlb x i) \<and> i \<noteq> unat (xs_repl x) \<longrightarrow> xs_tlb y i = xs_tlb x i))"
proof (cases "\<not> sf_rs1_nz sf \<and> \<not> sf_rs2_nz sf")
  case True
  then have "sfence_hits sf e" for e by (simp add: sfence_hits_def Let_def)
  then show ?thesis using True flush_entry[OF assms]
    by (auto simp: Let_def mmu_step_def intro!: no_match_no_hit)
next
  case False
  have keep: "xs_tlb (side_step c sf f p res va x) i = xs_tlb x i"
    if "\<not> sfence_hits sf (xs_tlb x i)" "i \<noteq> unat (xs_repl x)" for f p res va x i
    using that assms by (simp add: side_step_tlb flush_tlb_def fill_tlb_tlb split: option.splits)
  show ?thesis using False flush_entry[OF assms] keep unfolding sfence_hits_names by (auto simp: Let_def mmu_step_def)
qed

definition demo_csr :: mmu_csr where
  "demo_csr = \<lparr>mc_satp = 0x80080000, mc_priv = PRV_S, mc_mprv = False, mc_mpp = 0, mc_sum = False,
     mc_mxr = False, mc_pmpcfg = (\<lambda>_. 0), mc_pmpaddr = (\<lambda>_. 0)\<rparr>"

definition demo_port :: "bool \<Rightarrow> port_in" where
  "demo_port v = \<lparr>pi_valid = v, pi_addr = 0x80000123, pi_wen = False, pi_wdata = 0, pi_wmask = 0, pi_size = 2,
     pi_rsp_ready = True, pi_ds_req_ready = True, pi_ds_rsp_valid = False, pi_ds_rsp_data = 0, pi_ds_rsp_fault = False\<rparr>"

definition demo_ptw :: ptw_in where
  "demo_ptw = \<lparr>pw_req_ready = True, pw_rsp_valid = True, pw_rdata = 0x200000CF, pw_fault = False\<rparr>"

definition no_fence :: sfence where
  "no_fence = \<lparr>sf_valid = False, sf_rs1_nz = False, sf_rs1_va = 0, sf_rs2_nz = False, sf_rs2_asid = 0\<rparr>"

definition demo_ins :: "mmu_input list" where
  "demo_ins = replicate 3 (demo_csr, no_fence, demo_port False, demo_port True, demo_ptw)"

lemma demo_facts:
  "tlb_hit demo_csr (demo_port True) (mm_dm (mmu_run demo_ins mmu_reset))"
  "\<not> xs_pmp_pending (mm_dm (mmu_run demo_ins mmu_reset))"
  "\<not> pmp_fault (mc_pmpcfg demo_csr) (mc_pmpaddr demo_csr) (pmp_query demo_csr False (demo_port True) 0x80000123)"
  "xlate demo_csr False"
  "sv32 (\<lambda>_. Some 0x200000CF) demo_csr (side_priv demo_csr False) False (is_store False (demo_port True))
     (pi_addr (demo_port True)) = Some 0x80000123"
  by code_simp+

lemma demo_valid: "pi_valid (demo_port True)"
  by (simp add: demo_port_def)

lemma demo_env: "mmu_env (\<lambda>_. Some 0x200000CF) (mc_satp demo_csr) demo_ins s"
proof -
  have "honest_cycle (\<lambda>_. Some 0x200000CF) c demo_ptw t" for c t
    by (simp add: honest_cycle_def answers_def demo_ptw_def)
  then have "mmu_env (\<lambda>_. Some 0x200000CF) (mc_satp demo_csr)
      (replicate n (demo_csr, no_fence, demo_port False, demo_port True, demo_ptw)) s" for n s
    by (induction n arbitrary: s) simp_all
  then show ?thesis unfolding demo_ins_def by blast
qed

theorem mmu_hit_translates_witness:
  "let o' = side_out demo_csr False (demo_port True) (mm_dm (mmu_run demo_ins mmu_reset))
   in po_ds_valid o' \<and> po_ds_addr o' = 0x80000123"
  using mmu_hit_translates[of "\<lambda>_. Some 0x200000CF" demo_csr demo_ins False
      "mm_dm (mmu_run demo_ins mmu_reset)" "demo_port True"] demo_facts demo_env demo_valid
  by (simp add: Let_def)

theorem sfence_flushes_witness:
  "\<not> tlb_hit demo_csr (demo_port True)
     (mm_dm (mmu_step False demo_csr (no_fence\<lparr>sf_valid := True\<rparr>) (demo_port False) (demo_port True) demo_ptw
       (mmu_run demo_ins mmu_reset)))"
  using sfence_flushes[of "no_fence\<lparr>sf_valid := True\<rparr>"] by (simp add: no_fence_def Let_def)

text \<open>
  The fence leaves the walk-result register alone: a result whose request was withdrawn is still used
  after a full fence, for any address of the page, at the offset of the old request.
\<close>

lemma stale_result_after_fence:
  "let s = mmu_run (demo_ins @ [(demo_csr, no_fence\<lparr>sf_valid := True\<rparr>, demo_port False, demo_port False, demo_ptw)]) mmu_reset;
       o' = side_out demo_csr False ((demo_port True)\<lparr>pi_addr := 0x80000200\<rparr>) (mm_dm s)
   in po_ds_valid o' \<and> po_ds_addr o' = 0x80000123"
  by code_simp

end
