(* ===== verification/Cache_Geom.thy ===== *)
theory Cache_Geom
  imports Bus
begin

text \<open>
  What the two caches (\<open>rtl/cache/icache.sv\<close>, \<open>rtl/cache/dcache.sv\<close>) share at their default
  geometry of 4 ways, 64 sets and 16-word lines: the address fields, the hit detection and the
  tree-pLRU replacement.
\<close>

section \<open>Address fields\<close>

type_synonym way = "2 word"
type_synonym set_idx = "6 word"
type_synonym woff = "4 word"
type_synonym ctag = "20 word"

definition LINE_WORDS :: nat where "LINE_WORDS = 16"

definition a_tag :: "u32 \<Rightarrow> ctag" where "a_tag a = fld 12 a"
definition a_idx :: "u32 \<Rightarrow> set_idx" where "a_idx a = fld 6 a"
definition a_woff :: "u32 \<Rightarrow> woff" where "a_woff a = fld 2 a"

definition line_base :: "u32 \<Rightarrow> u32" where
  "line_base a = word_cat (a_tag a) (word_cat (a_idx a) (0 :: 6 word) :: 12 word)"

definition fill_addr :: "u32 \<Rightarrow> 5 word \<Rightarrow> u32" where
  "fill_addr a cnt = line_base a OR word_cat (fld 0 cnt :: 4 word) (0 :: 2 word)"

section \<open>Hit detection and replacement\<close>

definition WAYS :: "way list" where "WAYS = [0, 1, 2, 3]"

definition hit_vec :: "(way \<Rightarrow> bool) \<Rightarrow> (way \<Rightarrow> ctag) \<Rightarrow> u32 \<Rightarrow> way \<Rightarrow> bool" where
  "hit_vec valid_rd tag_rd a w = (valid_rd w \<and> tag_rd w = a_tag a)"

definition hit_any :: "(way \<Rightarrow> bool) \<Rightarrow> bool" where "hit_any hv = list_ex hv WAYS"

definition hit_way :: "(way \<Rightarrow> bool) \<Rightarrow> way" where
  "hit_way hv = fold (\<lambda>w h. if hv w then w else h) WAYS 0"

definition plru_pick :: "3 word \<Rightarrow> way" where
  "plru_pick p = (if bit p 2 then (if bit p 0 then 3 else 2) else (if bit p 1 then 1 else 0))"

definition plru_update :: "3 word \<Rightarrow> way \<Rightarrow> 3 word" where
  "plru_update p w =
     (let q = put_bit 2 (\<not> bit w 1) p in
      if \<not> bit w 1 then put_bit 1 (\<not> bit w 0) q else put_bit 0 (\<not> bit w 0) q)"

text \<open>One word of the data arrays replaced.\<close>

definition put3 :: "way \<Rightarrow> set_idx \<Rightarrow> woff \<Rightarrow> u32 \<Rightarrow> (way \<Rightarrow> set_idx \<Rightarrow> woff \<Rightarrow> u32) \<Rightarrow> way \<Rightarrow> set_idx \<Rightarrow> woff \<Rightarrow> u32" where
  "put3 w i k v d = (\<lambda>w' i' k'. if w' = w \<and> i' = i \<and> k' = k then v else d w' i' k')"

section \<open>Facts\<close>

lemma way_cases: "(w :: way) = 0 \<or> w = 1 \<or> w = 2 \<or> w = 3"
proof -
  have "unat w < 4" using unsigned_less[of w, where 'a = nat] by simp
  then show ?thesis by (auto simp: less_4_cases word_unat_eq_iff)
qed

lemma hit_any_iff: "hit_any hv \<longleftrightarrow> (\<exists>w. hv w)"
  unfolding hit_any_def WAYS_def using way_cases by (simp, metis)

lemma hit_way_hit: "hit_any hv \<Longrightarrow> hv (hit_way hv)"
  by (auto simp: hit_any_def hit_way_def WAYS_def)

text \<open>The victim is never the way used last.\<close>

lemma plru_not_last: "plru_pick (plru_update p w) \<noteq> w"
proof -
  have b: "\<not> bit (0 :: way) 0" "\<not> bit (0 :: way) 1" "bit (1 :: way) 0" "\<not> bit (1 :: way) 1"
    "\<not> bit (2 :: way) 0" "bit (2 :: way) 1" "bit (3 :: way) 0" "bit (3 :: way) 1"
    by (simp_all add: bit_iff_odd)
  show ?thesis using way_cases[of w] b
    by (elim disjE) (simp_all add: plru_pick_def plru_update_def Let_def bit_put_bit del: bit_0)
qed

text \<open>Word positions: the 30-bit word index of an address, and of word \<open>o\<close> of a line.\<close>

definition wi :: "u32 \<Rightarrow> 30 word" where "wi a = fld 2 a"

definition pos :: "ctag \<Rightarrow> set_idx \<Rightarrow> woff \<Rightarrow> 30 word" where
  "pos t i k = word_cat t (word_cat i k :: 10 word)"

lemma wi_pos: "wi a = pos (a_tag a) (a_idx a) (a_woff a)"
  by (rule bit_word_eqI) (auto simp: wi_def pos_def a_tag_def a_idx_def a_woff_def bit_word_cat_iff bit_fld)

lemma pos_eq_iff: "pos t i k = pos t' i' k' \<longleftrightarrow> t = t' \<and> i = i' \<and> k = k'"
proof
  assume e: "pos t i k = pos t' i' k'"
  have "t = fld 10 (pos t i k)" "i = fld 4 (pos t i k)" "k = fld 0 (pos t i k)" for t i k
    by (auto intro!: bit_word_eqI simp: pos_def bit_word_cat_iff bit_fld dest: bit_imp_le_length)
  then show "t = t' \<and> i = i' \<and> k = k'" using e by metis
qed simp

lemma wi_fill: "wi (fill_addr a cnt) = pos (a_tag a) (a_idx a) (fld 0 cnt)"
  by (rule bit_word_eqI)
    (auto simp: wi_def fill_addr_def line_base_def pos_def bit_word_cat_iff bit_fld bit_or_iff)

text \<open>The words of a line, and the counters of a fill.\<close>

lemma put3_apply: "put3 w i k v d w' i' k' = (if w' = w \<and> i' = i \<and> k' = k then v else d w' i' k')"
  by (simp add: put3_def)

lemma low_bits_of_nat: "fld 0 (c :: 5 word) = (of_nat (unat c) :: 4 word)"
  by (rule bit_word_eqI) (simp add: bit_fld bit_of_nat_iff bit_unsigned_iff)

lemma of_nat_woff: "n < 16 \<Longrightarrow> (of_nat n = a_woff a) = (n = unat (a_woff a))"
  by (auto simp: word_unat_eq_iff unat_of_nat)

lemma of_nat_woff_eq: "j < 16 \<Longrightarrow> n < 16 \<Longrightarrow> (of_nat j :: woff) = of_nat n \<longleftrightarrow> j = n"
  by (simp add: word_unat_eq_iff unat_of_nat)

lemma put3_line:
  assumes "\<forall>j<n. d w i (of_nat j) = f j" "n < 16" "j < Suc n"
  shows "put3 w i (of_nat n) (f n) d w i (of_nat j) = f j"
  using assms of_nat_woff_eq[of j n] by (cases "j = n") (simp_all add: put3_apply)

end
