(* ===== verification/Dcache.thy ===== *)
theory Dcache
  imports Cache_Geom
begin

text \<open>
  The data cache, \<open>rtl/cache/dcache.sv\<close>: write-through, write-allocate, blocking.
\<close>

section \<open>Model\<close>

datatype dc_fsm = DC_IDLE | DC_LOOKUP | DC_WT | DC_FILL | DC_WT_MISS | DC_DONE

record dcache =
  dc_tag :: "way \<Rightarrow> set_idx \<Rightarrow> ctag"
  dc_data :: "way \<Rightarrow> set_idx \<Rightarrow> woff \<Rightarrow> u32"
  dc_valid :: "set_idx \<Rightarrow> way \<Rightarrow> bool"
  dc_plru :: "set_idx \<Rightarrow> 3 word"
  dc_state :: dc_fsm
  dc_addr :: u32
  dc_wen :: bool
  dc_wdata :: u32
  dc_wmask :: "4 word"
  dc_req_cnt :: "5 word"
  dc_rsp_cnt :: "5 word"
  dc_victim :: way
  dc_fault :: bool
  dc_fired :: bool
  dc_seen :: bool
  dc_rsp_hit :: bool
  dc_rsp_way :: way
  dc_target :: u32
  dc_tag_rd :: "way \<Rightarrow> ctag"
  dc_valid_rd :: "way \<Rightarrow> bool"
  dc_data_rd :: "way \<Rightarrow> u32"

text \<open>The memory port, seen by the cache.\<close>

record mem_in =
  mi_ready :: bool
  mi_rsp :: bool
  mi_rdata :: u32

definition dc_hit_vec :: "dcache \<Rightarrow> way \<Rightarrow> bool" where
  "dc_hit_vec x = hit_vec (dc_valid_rd x) (dc_tag_rd x) (dc_addr x)"

definition dc_accept :: "bus_req \<Rightarrow> dcache \<Rightarrow> bool" where
  "dc_accept r x = (dc_state x = DC_IDLE \<and> rq_valid r)"

text \<open>Outputs.\<close>

definition dc_req_ready :: "dcache \<Rightarrow> bool" where "dc_req_ready x = (dc_state x = DC_IDLE)"
definition dc_rsp_valid :: "dcache \<Rightarrow> bool" where "dc_rsp_valid x = (dc_state x = DC_DONE)"
definition dc_rsp_rdata :: "dcache \<Rightarrow> u32" where
  "dc_rsp_rdata x = (if dc_rsp_hit x then dc_data_rd x (dc_rsp_way x) else dc_target x)"
definition dc_rsp_fault :: "dcache \<Rightarrow> bool" where
  "dc_rsp_fault x = (dc_state x = DC_DONE \<and> \<not> dc_rsp_hit x \<and> dc_fault x)"

definition dc_target_addr :: "dcache \<Rightarrow> u32" where
  "dc_target_addr x = word_cat (fld 2 (dc_addr x) :: 30 word) (0 :: 2 word)"

definition dc_mem_req :: "dcache \<Rightarrow> bus_req" where
  "dc_mem_req x =
     (case dc_state x of
        DC_FILL \<Rightarrow> \<lparr>rq_valid = dc_req_cnt x < of_nat LINE_WORDS, rq_addr = fill_addr (dc_addr x) (dc_req_cnt x),
                   rq_wen = False, rq_wdata = 0, rq_wmask = 0\<rparr>
      | DC_WT \<Rightarrow> \<lparr>rq_valid = \<not> dc_fired x, rq_addr = dc_target_addr x, rq_wen = True,
                 rq_wdata = dc_wdata x, rq_wmask = dc_wmask x\<rparr>
      | DC_WT_MISS \<Rightarrow> \<lparr>rq_valid = \<not> dc_fired x, rq_addr = dc_target_addr x, rq_wen = True,
                 rq_wdata = dc_wdata x, rq_wmask = dc_wmask x\<rparr>
      | _ \<Rightarrow> no_req)"

definition dc_mem_fire :: "mem_in \<Rightarrow> dcache \<Rightarrow> bool" where
  "dc_mem_fire m x = (rq_valid (dc_mem_req x) \<and> mi_ready m)"

text \<open>The state machine: next values of its registers.\<close>

definition dc_lookup :: "dcache \<Rightarrow> dcache" where
  "dc_lookup x =
     (if hit_any (dc_hit_vec x)
      then let y = x\<lparr>dc_rsp_hit := True, dc_rsp_way := hit_way (dc_hit_vec x)\<rparr> in
           if dc_wen x then y\<lparr>dc_fired := False, dc_seen := False, dc_state := DC_WT\<rparr>
           else y\<lparr>dc_state := DC_DONE\<rparr>
      else x\<lparr>dc_victim := plru_pick (dc_plru x (a_idx (dc_addr x))), dc_req_cnt := 0, dc_rsp_cnt := 0,
             dc_fault := False, dc_state := DC_FILL\<rparr>)"

definition dc_wt :: "mem_in \<Rightarrow> dcache \<Rightarrow> dcache" where
  "dc_wt m x =
     (let y = x\<lparr>dc_fired := dc_fired x \<or> dc_mem_fire m x, dc_seen := dc_seen x \<or> mi_rsp m\<rparr> in
      if (dc_mem_fire m x \<or> dc_fired x) \<and> (mi_rsp m \<or> dc_seen x) then y\<lparr>dc_state := DC_DONE\<rparr> else y)"

definition dc_fill :: "mem_in \<Rightarrow> dcache \<Rightarrow> dcache" where
  "dc_fill m x =
     (let rsp_cnt = (if mi_rsp m then dc_rsp_cnt x + 1 else dc_rsp_cnt x);
          y = x\<lparr>dc_req_cnt := (if dc_mem_fire m x then dc_req_cnt x + 1 else dc_req_cnt x),
                dc_rsp_cnt := rsp_cnt\<rparr> in
      if rsp_cnt = of_nat LINE_WORDS
      then let z = y\<lparr>dc_rsp_hit := False, dc_rsp_way := dc_victim x\<rparr> in
           if dc_wen x \<and> \<not> dc_fault x then z\<lparr>dc_fired := False, dc_seen := False, dc_state := DC_WT_MISS\<rparr>
           else z\<lparr>dc_state := DC_DONE\<rparr>
      else y)"

definition dc_next :: "bus_req \<Rightarrow> mem_in \<Rightarrow> dcache \<Rightarrow> dcache" where
  "dc_next r m x =
     (case dc_state x of
        DC_IDLE \<Rightarrow> if dc_accept r x then x\<lparr>dc_state := DC_LOOKUP\<rparr> else x
      | DC_LOOKUP \<Rightarrow> dc_lookup x
      | DC_WT \<Rightarrow> dc_wt m x
      | DC_FILL \<Rightarrow> dc_fill m x
      | DC_WT_MISS \<Rightarrow> dc_wt m x
      | DC_DONE \<Rightarrow> x\<lparr>dc_state := DC_IDLE\<rparr>)"

text \<open>The arrays, from the state before the edge; \<open>filled\<close> is the cycle that completes a line.\<close>

definition dc_filled :: "mem_in \<Rightarrow> dcache \<Rightarrow> bool" where
  "dc_filled m x = (dc_state x = DC_FILL \<and> dc_state (dc_fill m x) \<noteq> DC_FILL \<and> \<not> dc_fault x)"

definition dc_plru_next :: "mem_in \<Rightarrow> dcache \<Rightarrow> set_idx \<Rightarrow> 3 word" where
  "dc_plru_next m x =
     (let i = a_idx (dc_addr x) in
      if dc_state x = DC_LOOKUP \<and> hit_any (dc_hit_vec x)
      then (dc_plru x)(i := plru_update (dc_plru x i) (hit_way (dc_hit_vec x)))
      else if dc_filled m x then (dc_plru x)(i := plru_update (dc_plru x i) (dc_victim x))
      else dc_plru x)"

definition dc_data_next :: "mem_in \<Rightarrow> dcache \<Rightarrow> way \<Rightarrow> set_idx \<Rightarrow> woff \<Rightarrow> u32" where
  "dc_data_next m x =
     (let i = a_idx (dc_addr x); k = a_woff (dc_addr x); h = hit_way (dc_hit_vec x); f = fld 0 (dc_rsp_cnt x) in
      if dc_state x = DC_LOOKUP \<and> hit_any (dc_hit_vec x) \<and> dc_wen x
      then put3 h i k (apply_wmask (dc_data x h i k) (dc_wdata x) (dc_wmask x)) (dc_data x)
      else if dc_state x = DC_FILL \<and> mi_rsp m
      then (if dc_wen x \<and> f = k
            then put3 (dc_victim x) i k (apply_wmask (mi_rdata m) (dc_wdata x) (dc_wmask x)) (dc_data x)
            else put3 (dc_victim x) i f (mi_rdata m) (dc_data x))
      else dc_data x)"

definition dc_target_next :: "mem_in \<Rightarrow> dcache \<Rightarrow> u32" where
  "dc_target_next m x =
     (if dc_state x = DC_FILL \<and> mi_rsp m \<and> fld 0 (dc_rsp_cnt x) = a_woff (dc_addr x) then mi_rdata m
      else dc_target x)"

text \<open>The registered read ports.\<close>

definition dc_rd_addr :: "bus_req \<Rightarrow> dcache \<Rightarrow> u32" where
  "dc_rd_addr r x = (if dc_accept r x then rq_addr r else dc_addr x)"

definition dc_reset :: "dcache \<Rightarrow> dcache" where
  "dc_reset x =
     x\<lparr>dc_valid := (\<lambda>_ _. False), dc_plru := (\<lambda>_. 0), dc_state := DC_IDLE, dc_addr := 0, dc_wen := False,
       dc_wdata := 0, dc_wmask := 0, dc_req_cnt := 0, dc_rsp_cnt := 0, dc_victim := 0, dc_fault := False,
       dc_fired := False, dc_seen := False, dc_rsp_hit := False, dc_rsp_way := 0, dc_target := 0\<rparr>"

definition dc_latch :: "bus_req \<Rightarrow> dcache \<Rightarrow> dcache \<Rightarrow> dcache" where
  "dc_latch r x y =
     (if dc_accept r x
      then y\<lparr>dc_addr := rq_addr r, dc_wen := rq_wen r, dc_wdata := rq_wdata r, dc_wmask := rq_wmask r\<rparr>
      else y)"

definition dc_arrays :: "mem_in \<Rightarrow> dcache \<Rightarrow> dcache \<Rightarrow> dcache" where
  "dc_arrays m x y =
     (let i = a_idx (dc_addr x) in
      y\<lparr>dc_tag := (if dc_filled m x then (dc_tag x)(dc_victim x := (dc_tag x (dc_victim x))(i := a_tag (dc_addr x)))
                   else dc_tag x),
        dc_valid := (if dc_filled m x then (dc_valid x)(i := (dc_valid x i)(dc_victim x := True)) else dc_valid x),
        dc_plru := dc_plru_next m x, dc_data := dc_data_next m x, dc_target := dc_target_next m x\<rparr>)"

definition dc_read_ports :: "bus_req \<Rightarrow> dcache \<Rightarrow> dcache \<Rightarrow> dcache" where
  "dc_read_ports r x y =
     (let a = dc_rd_addr r x; i = a_idx a; k = a_woff a; tags = dc_tag x; data = dc_data x in
      y\<lparr>dc_tag_rd := (\<lambda>w. tags w i), dc_valid_rd := dc_valid x i, dc_data_rd := (\<lambda>w. data w i k)\<rparr>)"

text \<open>Reset clears the registers and valid bits; the unreset blocks still run in that cycle.\<close>

definition dcache_step :: "bool \<Rightarrow> bus_req \<Rightarrow> mem_in \<Rightarrow> dcache \<Rightarrow> dcache" where
  "dcache_step rst r m x =
     (if rst then dc_read_ports r x (dc_reset (x\<lparr>dc_data := dc_data_next m x\<rparr>))
      else dc_read_ports r x (dc_latch r x (dc_arrays m x (dc_next r m x))))"

end
