(* ===== verification/Dcache_Coherent.thy ===== *)
theory Dcache_Coherent
  imports Dcache
begin

text \<open>
  The data cache with a memory behind it: the invariant that relates the lines to the memory in every
  state of the machine, its preservation by every cycle, and what follows for the client.
\<close>

unbundle bit_operations_syntax

section \<open>The memory behind the cache\<close>

text \<open>
  A memory port that accepts when it likes, and answers the accepted requests in order, from the same
  cycle on. A write is answered with an arbitrary word.
\<close>

type_synonym wmem = "30 word \<Rightarrow> u32"

record menv =
  me_mem :: wmem
  me_q :: "u32 list"

record env_in =
  ei_ready :: bool
  ei_respond :: bool
  ei_ack :: u32

definition mem_store :: "bus_req \<Rightarrow> wmem \<Rightarrow> wmem" where
  "mem_store r M = M(wi (rq_addr r) := apply_wmask (M (wi (rq_addr r))) (rq_wdata r) (rq_wmask r))"

definition env_accept :: "env_in \<Rightarrow> bus_req \<Rightarrow> menv \<Rightarrow> menv" where
  "env_accept i q e =
     (if rq_valid q \<and> ei_ready i
      then if rq_wen q then e\<lparr>me_mem := mem_store q (me_mem e), me_q := me_q e @ [ei_ack i]\<rparr>
           else e\<lparr>me_q := me_q e @ [me_mem e (wi (rq_addr q))]\<rparr>
      else e)"

definition env_rsp :: "env_in \<Rightarrow> menv \<Rightarrow> mem_in" where
  "env_rsp i e = \<lparr>mi_ready = ei_ready i, mi_rsp = (ei_respond i \<and> me_q e \<noteq> []), mi_rdata = hd (me_q e)\<rparr>"

definition env_pop :: "env_in \<Rightarrow> menv \<Rightarrow> menv" where
  "env_pop i e = (if ei_respond i \<and> me_q e \<noteq> [] then e\<lparr>me_q := tl (me_q e)\<rparr> else e)"

text \<open>
  The cache with its memory, and beside them what the requests mean: the memory after all accepted
  stores, and the request being served.
\<close>

record dsys =
  ds_cache :: dcache
  ds_env :: menv
  ds_spec :: wmem
  ds_cur :: bus_req

definition dsys_step :: "bus_req \<times> env_in \<Rightarrow> dsys \<Rightarrow> dsys" where
  "dsys_step = (\<lambda>(r, i) s.
     let x = ds_cache s; e = env_accept i (dc_mem_req x) (ds_env s); acc = dc_accept r x in
     \<lparr>ds_cache = dcache_step False r (env_rsp i e) x, ds_env = env_pop i e,
      ds_spec = (if acc \<and> rq_wen r then mem_store r (ds_spec s) else ds_spec s),
      ds_cur = (if acc then r else ds_cur s)\<rparr>)"

definition dsys_run :: "(bus_req \<times> env_in) list \<Rightarrow> dsys \<Rightarrow> dsys" where
  "dsys_run ins s = fold dsys_step ins s"

section \<open>Invariant\<close>

text \<open>Every valid line, but one, holds what memory \<open>M\<close> holds; no set has a tag twice.\<close>

definition coherent :: "(way \<times> set_idx) set \<Rightarrow> wmem \<Rightarrow> dcache \<Rightarrow> bool" where
  "coherent X M x \<longleftrightarrow>
     (\<forall>i w k. dc_valid x i w \<and> (w, i) \<notin> X \<longrightarrow> dc_data x w i k = M (pos (dc_tag x w i) i k)) \<and>
     (\<forall>i w w'. dc_valid x i w \<and> dc_valid x i w' \<and> dc_tag x w i = dc_tag x w' i \<longrightarrow> w = w')"

definition dc_pend :: "dcache \<Rightarrow> wmem \<Rightarrow> wmem" where
  "dc_pend x M =
     (if dc_wen x then M(wi (dc_addr x) := apply_wmask (M (wi (dc_addr x))) (dc_wdata x) (dc_wmask x)) else M)"

definition line_pos :: "dcache \<Rightarrow> nat \<Rightarrow> 30 word" where
  "line_pos x j = pos (a_tag (dc_addr x)) (a_idx (dc_addr x)) (of_nat j)"

definition inv_lookup :: "dcache \<Rightarrow> menv \<Rightarrow> wmem \<Rightarrow> bool" where
  "inv_lookup x e S \<longleftrightarrow> me_q e = [] \<and> S = dc_pend x (me_mem e) \<and> coherent {} (me_mem e) x \<and>
     (\<forall>w. dc_tag_rd x w = dc_tag x w (a_idx (dc_addr x)) \<and> dc_valid_rd x w = dc_valid x (a_idx (dc_addr x)) w \<and>
       dc_data_rd x w = dc_data x w (a_idx (dc_addr x)) (a_woff (dc_addr x)))"

definition inv_fill :: "dcache \<Rightarrow> menv \<Rightarrow> wmem \<Rightarrow> bool" where
  "inv_fill x e S \<longleftrightarrow>
     (let i = a_idx (dc_addr x); n = unat (dc_rsp_cnt x); k = unat (dc_req_cnt x) in
      S = dc_pend x (me_mem e) \<and> n < 16 \<and> n \<le> k \<and> k \<le> 16 \<and> \<not> dc_fault x \<and>
      me_q e = map (\<lambda>j. me_mem e (line_pos x j)) [n..<k] \<and>
      coherent {(dc_victim x, i)} (me_mem e) x \<and>
      (\<forall>w. dc_valid x i w \<longrightarrow> dc_tag x w i \<noteq> a_tag (dc_addr x)) \<and>
      (\<forall>j<n. dc_data x (dc_victim x) i (of_nat j) = S (line_pos x j)) \<and>
      (unat (a_woff (dc_addr x)) < n \<longrightarrow> dc_target x = me_mem e (wi (dc_addr x))))"

definition inv_wt :: "dcache \<Rightarrow> menv \<Rightarrow> wmem \<Rightarrow> bool" where
  "inv_wt x e S \<longleftrightarrow> dc_wen x \<and> coherent {} S x \<and> \<not> dc_seen x \<and> (\<not> dc_rsp_hit x \<longrightarrow> \<not> dc_fault x) \<and>
     (if dc_fired x then S = me_mem e \<and> length (me_q e) = 1 else S = dc_pend x (me_mem e) \<and> me_q e = [])"

definition inv_done :: "dcache \<Rightarrow> menv \<Rightarrow> wmem \<Rightarrow> bool" where
  "inv_done x e S \<longleftrightarrow> me_q e = [] \<and> S = me_mem e \<and> coherent {} S x \<and> (\<not> dc_rsp_hit x \<longrightarrow> \<not> dc_fault x) \<and>
     (\<not> dc_wen x \<longrightarrow> dc_rsp_rdata x = S (wi (dc_addr x)))"

definition inv_idle :: "dcache \<Rightarrow> menv \<Rightarrow> wmem \<Rightarrow> bool" where
  "inv_idle x e S \<longleftrightarrow> me_q e = [] \<and> S = me_mem e \<and> coherent {} S x"

definition dc_inv :: "dsys \<Rightarrow> bool" where
  "dc_inv s \<longleftrightarrow>
     (let x = ds_cache s; r = ds_cur s in
      (case dc_state x of
         DC_IDLE \<Rightarrow> inv_idle x (ds_env s) (ds_spec s)
       | DC_LOOKUP \<Rightarrow> inv_lookup x (ds_env s) (ds_spec s)
       | DC_FILL \<Rightarrow> inv_fill x (ds_env s) (ds_spec s)
       | DC_WT \<Rightarrow> inv_wt x (ds_env s) (ds_spec s)
       | DC_WT_MISS \<Rightarrow> inv_wt x (ds_env s) (ds_spec s)
       | DC_DONE \<Rightarrow> inv_done x (ds_env s) (ds_spec s)) \<and>
      (dc_state x \<noteq> DC_IDLE \<longrightarrow> dc_addr x = rq_addr r \<and> dc_wen x = rq_wen r \<and> dc_wdata x = rq_wdata r \<and>
        dc_wmask x = rq_wmask r))"

section \<open>One cycle, state by state\<close>

lemma coherent_cong:
  "dc_valid x = dc_valid y \<Longrightarrow> dc_tag x = dc_tag y \<Longrightarrow> dc_data x = dc_data y \<Longrightarrow> coherent X M x = coherent X M y"
  by (simp add: coherent_def)

text \<open>The result of a cycle, field by field.\<close>

lemma step_sel:
  fixes x :: dcache and r :: bus_req and m :: mem_in
  defines "y \<equiv> dcache_step False r m x" and "n \<equiv> dc_next r m x" and "a \<equiv> dc_rd_addr r x" and "i \<equiv> a_idx (dc_addr x)"
  shows "dc_state y = dc_state n" "dc_req_cnt y = dc_req_cnt n" "dc_rsp_cnt y = dc_rsp_cnt n"
    "dc_victim y = dc_victim n" "dc_fault y = dc_fault n" "dc_fired y = dc_fired n" "dc_seen y = dc_seen n"
    "dc_rsp_hit y = dc_rsp_hit n" "dc_rsp_way y = dc_rsp_way n"
    "dc_addr y = (if dc_accept r x then rq_addr r else dc_addr n)"
    "dc_wen y = (if dc_accept r x then rq_wen r else dc_wen n)"
    "dc_wdata y = (if dc_accept r x then rq_wdata r else dc_wdata n)"
    "dc_wmask y = (if dc_accept r x then rq_wmask r else dc_wmask n)"
    "dc_tag y = (if dc_filled m x then (dc_tag x)(dc_victim x := (dc_tag x (dc_victim x))(i := a_tag (dc_addr x)))
       else dc_tag x)"
    "dc_valid y = (if dc_filled m x then (dc_valid x)(i := (dc_valid x i)(dc_victim x := True)) else dc_valid x)"
    "dc_data y = dc_data_next m x" "dc_target y = dc_target_next m x"
    "dc_tag_rd y = (\<lambda>w. dc_tag x w (a_idx a))" "dc_valid_rd y = dc_valid x (a_idx a)"
    "dc_data_rd y = (\<lambda>w. dc_data x w (a_idx a) (a_woff a))"
  by (simp_all add: y_def n_def a_def i_def dcache_step_def dc_read_ports_def dc_latch_def dc_arrays_def Let_def)

lemma next_kept:
  "dc_addr (dc_next r m x) = dc_addr x" "dc_wen (dc_next r m x) = dc_wen x"
  "dc_wdata (dc_next r m x) = dc_wdata x" "dc_wmask (dc_next r m x) = dc_wmask x"
  by (simp_all add: dc_next_def dc_lookup_def dc_wt_def dc_fill_def Let_def split: dc_fsm.splits)

lemma no_mem_req:
  assumes "\<not> rq_valid (dc_mem_req x)" "me_q e = []"
  shows "env_accept i (dc_mem_req x) e = e" "env_pop i e = e" "\<not> mi_rsp (env_rsp i e)"
  using assms by (simp_all add: env_accept_def env_pop_def env_rsp_def)

lemma idle_step:
  assumes "dc_state x = DC_IDLE" "inv_idle x e S"
  shows "let y = dcache_step False r m x in
    if dc_accept r x then dc_state y = DC_LOOKUP \<and> inv_lookup y e (if rq_wen r then mem_store r S else S)
    else dc_state y = DC_IDLE \<and> inv_idle y e S"
proof -
  let ?y = "dcache_step False r m x"
  have arr: "dc_tag ?y = dc_tag x" "dc_valid ?y = dc_valid x" "dc_data ?y = dc_data x"
    using assms(1) by (simp_all add: step_sel dc_filled_def dc_data_next_def Let_def)
  have coh: "coherent X M ?y = coherent X M x" for X M by (rule coherent_cong) (simp_all add: arr)
  have st: "dc_state ?y = (if dc_accept r x then DC_LOOKUP else DC_IDLE)"
    using assms(1) by (simp add: step_sel dc_next_def)
  show ?thesis
  proof (cases "dc_accept r x")
    case True
    have rd: "dc_tag_rd ?y w = dc_tag x w (a_idx (rq_addr r))" "dc_valid_rd ?y w = dc_valid x (a_idx (rq_addr r)) w"
      "dc_data_rd ?y w = dc_data x w (a_idx (rq_addr r)) (a_woff (rq_addr r))" for w
      using True by (simp_all add: step_sel dc_rd_addr_def)
    have req: "dc_addr ?y = rq_addr r" "dc_wen ?y = rq_wen r" "dc_wdata ?y = rq_wdata r" "dc_wmask ?y = rq_wmask r"
      using True by (simp_all add: step_sel)
    show ?thesis using True assms(2)
      by (auto simp: Let_def st inv_idle_def inv_lookup_def coh rd req arr dc_pend_def mem_store_def)
  next
    case False
    then show ?thesis using assms(2) by (auto simp: Let_def st inv_idle_def coh)
  qed
qed

lemma done_step:
  assumes "dc_state x = DC_DONE" "inv_done x e S"
  shows "let y = dcache_step False r m x in dc_state y = DC_IDLE \<and> inv_idle y e S"
proof -
  let ?y = "dcache_step False r m x"
  have arr: "dc_tag ?y = dc_tag x" "dc_valid ?y = dc_valid x" "dc_data ?y = dc_data x"
    using assms(1) by (simp_all add: step_sel dc_filled_def dc_data_next_def Let_def)
  have coh: "coherent X M ?y = coherent X M x" for X M by (rule coherent_cong) (simp_all add: arr)
  show ?thesis using assms by (auto simp: Let_def step_sel dc_next_def inv_done_def inv_idle_def coh)
qed

lemma lookup_hit:
  assumes "inv_lookup x e S" "hit_any (dc_hit_vec x)"
  defines "h \<equiv> hit_way (dc_hit_vec x)" and "i \<equiv> a_idx (dc_addr x)"
  shows "dc_valid x i h" "dc_tag x h i = a_tag (dc_addr x)"
    "dc_data x h i (a_woff (dc_addr x)) = me_mem e (wi (dc_addr x))"
proof -
  have "dc_hit_vec x h" unfolding h_def by (rule hit_way_hit[OF assms(2)])
  then show v: "dc_valid x i h" and t: "dc_tag x h i = a_tag (dc_addr x)"
    using assms(1) by (simp_all add: dc_hit_vec_def hit_vec_def inv_lookup_def i_def)
  have "dc_data x h i (a_woff (dc_addr x)) = me_mem e (pos (dc_tag x h i) i (a_woff (dc_addr x)))"
    using assms(1) v unfolding inv_lookup_def coherent_def by blast
  then show "dc_data x h i (a_woff (dc_addr x)) = me_mem e (wi (dc_addr x))"
    using t by (simp add: wi_pos i_def)
qed

lemma coherent_store:
  assumes "coherent {} M x" "dc_valid x i h" "dc_tag x h i = t" "p = pos t i k"
    and "dc_tag y = dc_tag x" "dc_valid y = dc_valid x" "dc_data y = put3 h i k v (dc_data x)"
  shows "coherent {} (M(p := v)) y"
proof -
  have u: "w = h" if "dc_valid x i w" "dc_tag x w i = t" for w
    using that assms(1-3) unfolding coherent_def by metis
  show ?thesis using assms(1) u assms(3)
    by (auto simp: coherent_def assms(4-7) put3_apply pos_eq_iff)
qed

lemma lookup_step:
  assumes "dc_state x = DC_LOOKUP" "inv_lookup x e S"
  shows "let y = dcache_step False r m x in
    (if hit_any (dc_hit_vec x) then if dc_wen x then dc_state y = DC_WT \<and> inv_wt y e S else dc_state y = DC_DONE \<and> inv_done y e S
     else dc_state y = DC_FILL \<and> inv_fill y e S) \<and>
    dc_addr y = dc_addr x \<and> dc_wen y = dc_wen x \<and> dc_wdata y = dc_wdata x \<and> dc_wmask y = dc_wmask x"
proof -
  let ?y = "dcache_step False r m x" and ?i = "a_idx (dc_addr x)"
  let ?h = "hit_way (dc_hit_vec x)"
  have na: "\<not> dc_accept r x" "\<not> dc_filled m x" "dc_next r m x = dc_lookup x"
    using assms(1) by (simp_all add: dc_accept_def dc_filled_def dc_next_def)
  have kept: "dc_addr ?y = dc_addr x" "dc_wen ?y = dc_wen x" "dc_wdata ?y = dc_wdata x" "dc_wmask ?y = dc_wmask x"
    by (simp_all add: step_sel na next_kept[of r m x, unfolded na])
  have arr: "dc_tag ?y = dc_tag x" "dc_valid ?y = dc_valid x" using na by (simp_all add: step_sel)
  have pend: "dc_pend ?y = dc_pend x" by (simp add: dc_pend_def kept fun_eq_iff)
  have e: "me_q e = []" "S = dc_pend x (me_mem e)" "coherent {} (me_mem e) x" using assms(2) by (simp_all add: inv_lookup_def)
  show ?thesis
  proof (cases "hit_any (dc_hit_vec x)")
    case True
    note h = lookup_hit[OF assms(2) True]
    show ?thesis
    proof (cases "dc_wen x")
      case wen: True
      have st: "dc_state ?y = DC_WT" "\<not> dc_fired ?y" "\<not> dc_seen ?y" "dc_rsp_hit ?y"
        using True wen by (simp_all add: step_sel na dc_lookup_def Let_def)
      have d: "dc_data ?y = put3 ?h ?i (a_woff (dc_addr x))
          (apply_wmask (dc_data x ?h ?i (a_woff (dc_addr x))) (dc_wdata x) (dc_wmask x)) (dc_data x)"
        using True wen assms(1) by (simp add: step_sel dc_data_next_def Let_def)
      have "coherent {} S ?y"
        unfolding e(2) dc_pend_def using wen coherent_store[OF e(3) h(1,2) wi_pos arr d] by (simp add: h(3))
      then show ?thesis using True wen st kept e pend by (simp add: Let_def inv_wt_def)
    next
      case nw: False
      have st: "dc_state ?y = DC_DONE" "dc_rsp_hit ?y" "dc_rsp_way ?y = ?h"
        using True nw by (simp_all add: step_sel na dc_lookup_def Let_def)
      have d: "dc_data ?y = dc_data x" using nw assms(1) by (simp add: step_sel dc_data_next_def Let_def)
      have "coherent {} (me_mem e) ?y" using e(3) coherent_cong[of ?y x] arr d by simp
      moreover have "dc_rsp_rdata ?y = me_mem e (wi (dc_addr x))"
        using h(3) by (simp add: dc_rsp_rdata_def st) (simp add: step_sel dc_rd_addr_def na)
      ultimately show ?thesis using True nw st kept e by (simp add: Let_def inv_done_def dc_pend_def)
    qed
  next
    case False
    have st: "dc_state ?y = DC_FILL" "dc_req_cnt ?y = 0" "dc_rsp_cnt ?y = 0" "\<not> dc_fault ?y"
      using False by (simp_all add: step_sel na dc_lookup_def Let_def)
    have d: "dc_data ?y = dc_data x" using False assms(1) by (simp add: step_sel dc_data_next_def Let_def)
    have "coherent {} (me_mem e) ?y" using e(3) coherent_cong[of ?y x] arr d by simp
    then have c: "coherent X (me_mem e) ?y" for X by (simp add: coherent_def)
    have "dc_tag x w ?i \<noteq> a_tag (dc_addr x)" if "dc_valid x ?i w" for w
      using that False assms(2) by (auto simp: hit_any_iff dc_hit_vec_def hit_vec_def inv_lookup_def)
    then show ?thesis using False st kept e pend c arr by (simp add: Let_def inv_fill_def)
  qed
qed

lemma wt_step:
  fixes x :: dcache and e :: menv and i :: env_in and r :: bus_req and S :: wmem
  assumes "dc_state x = DC_WT \<or> dc_state x = DC_WT_MISS" "inv_wt x e S"
  defines "e' \<equiv> env_accept i (dc_mem_req x) e" and "y \<equiv> dcache_step False r (env_rsp i (env_accept i (dc_mem_req x) e)) x"
  shows "(dc_state y = DC_DONE \<and> inv_done y (env_pop i e') S \<or> dc_state y = dc_state x \<and> inv_wt y (env_pop i e') S) \<and>
    dc_addr y = dc_addr x \<and> dc_wen y = dc_wen x \<and> dc_wdata y = dc_wdata x \<and> dc_wmask y = dc_wmask x"
proof -
  let ?m = "env_rsp i e'"
  have y: "y = dcache_step False r ?m x" by (simp add: y_def e'_def)
  have na: "\<not> dc_accept r x" "\<not> dc_filled ?m x" "dc_next r ?m x = dc_wt ?m x"
    using assms(1) by (auto simp: dc_accept_def dc_filled_def dc_next_def)
  have d: "dc_data y = dc_data x" "dc_tag y = dc_tag x" "dc_valid y = dc_valid x"
    using assms(1) na by (auto simp: y step_sel dc_data_next_def Let_def)
  have kept: "dc_addr y = dc_addr x" "dc_wen y = dc_wen x" "dc_wdata y = dc_wdata x" "dc_wmask y = dc_wmask x"
    by (simp_all add: y step_sel na next_kept[of r ?m x, unfolded na])
  have coh: "coherent {} S y" using assms(2) coherent_cong[of y x] d by (simp add: inv_wt_def)
  have w: "dc_wen x" "\<not> dc_seen x" "\<not> dc_rsp_hit x \<longrightarrow> \<not> dc_fault x" using assms(2) by (simp_all add: inv_wt_def)
  have rq: "rq_valid (dc_mem_req x) = (\<not> dc_fired x)" "rq_wen (dc_mem_req x)"
    "mem_store (dc_mem_req x) = dc_pend x"
  proof -
    have "wi (dc_target_addr x) = wi (dc_addr x)"
      by (rule bit_word_eqI) (simp add: wi_def dc_target_addr_def bit_fld bit_word_cat_iff)
    then show "rq_valid (dc_mem_req x) = (\<not> dc_fired x)" "rq_wen (dc_mem_req x)" "mem_store (dc_mem_req x) = dc_pend x"
      using assms(1) w(1) by (auto simp: dc_mem_req_def mem_store_def dc_pend_def)
  qed
  have sel: "dc_state y = (if (dc_mem_fire ?m x \<or> dc_fired x) \<and> mi_rsp ?m then DC_DONE else dc_state x)"
    "dc_fired y = (dc_fired x \<or> dc_mem_fire ?m x)" "dc_seen y = mi_rsp ?m" "dc_rsp_hit y = dc_rsp_hit x" "dc_fault y = dc_fault x"
    using w by (simp_all add: y step_sel na dc_wt_def Let_def)
  have fire: "dc_mem_fire ?m x = (\<not> dc_fired x \<and> ei_ready i)" by (simp add: dc_mem_fire_def rq env_rsp_def)
  show ?thesis
  proof (cases "dc_fired x")
    case True
    then have e: "e' = e" "S = me_mem e" "length (me_q e) = 1"
      using assms(2) by (simp_all add: e'_def env_accept_def rq inv_wt_def)
    then show ?thesis using True w coh kept sel
      by (cases "ei_respond i") (auto simp: env_rsp_def env_pop_def inv_done_def inv_wt_def length_Suc_conv)
  next
    case False
    then have e: "S = dc_pend x (me_mem e)" "me_q e = []" using assms(2) by (simp_all add: inv_wt_def)
    have pend: "dc_pend y = dc_pend x" by (simp add: dc_pend_def kept fun_eq_iff)
    show ?thesis
    proof (cases "ei_ready i")
      case True
      have "e' = \<lparr>me_mem = S, me_q = [ei_ack i]\<rparr>" using True False e by (simp add: e'_def env_accept_def rq)
      then show ?thesis using True False w coh kept sel fire
        by (cases "ei_respond i") (simp_all add: env_rsp_def env_pop_def inv_done_def inv_wt_def)
    next
      case nr: False
      then have "e' = e" by (simp add: e'_def env_accept_def)
      then show ?thesis using nr False w coh kept sel fire e pend
        by (simp add: env_rsp_def env_pop_def inv_wt_def)
    qed
  qed
qed


lemma line_pos_target: "n < 16 \<Longrightarrow> line_pos x n = wi (dc_addr x) \<longleftrightarrow> n = unat (a_woff (dc_addr x))"
  using of_nat_woff[of n "dc_addr x"] by (simp add: line_pos_def wi_pos pos_eq_iff)

text \<open>What the memory sees of a fill, and the counters after the cycle.\<close>

lemma fill_queue:
  fixes x :: dcache and e :: menv and i :: env_in and S :: wmem
  assumes "dc_state x = DC_FILL" "inv_fill x e S"
  defines "e' \<equiv> env_accept i (dc_mem_req x) e" and "n \<equiv> unat (dc_rsp_cnt x)"
    and "f \<equiv> \<lambda>j. me_mem e (line_pos x j)" and "m \<equiv> env_rsp i (env_accept i (dc_mem_req x) e)"
    and "cnt \<equiv> if dc_mem_fire (env_rsp i (env_accept i (dc_mem_req x) e)) x then dc_req_cnt x + 1 else dc_req_cnt x"
  shows "unat cnt \<le> 16" "n \<le> unat cnt" "me_mem e' = me_mem e" "me_q e' = map f [n..<unat cnt]"
    "mi_rsp m \<longleftrightarrow> ei_respond i \<and> n < unat cnt" "mi_rsp m \<Longrightarrow> mi_rdata m = f n"
    "me_q (env_pop i e') = map f [if mi_rsp m then Suc n else n..<unat cnt]" "me_mem (env_pop i e') = me_mem e"
proof -
  have inv: "n < 16" "n \<le> unat (dc_req_cnt x)" "unat (dc_req_cnt x) \<le> 16" "me_q e = map f [n..<unat (dc_req_cnt x)]"
    using assms(2) by (simp_all add: inv_fill_def Let_def n_def f_def)
  have rq: "rq_valid (dc_mem_req x) = (unat (dc_req_cnt x) < 16)" "\<not> rq_wen (dc_mem_req x)"
    "wi (rq_addr (dc_mem_req x)) = line_pos x (unat (dc_req_cnt x))"
    using assms(1) by (simp_all add: dc_mem_req_def wi_fill low_bits_of_nat line_pos_def LINE_WORDS_def word_less_nat_alt)
  have fire: "dc_mem_fire m x = (unat (dc_req_cnt x) < 16 \<and> ei_ready i)"
    by (simp add: dc_mem_fire_def rq m_def env_rsp_def)
  have cnt: "unat cnt = (if unat (dc_req_cnt x) < 16 \<and> ei_ready i then Suc (unat (dc_req_cnt x)) else unat (dc_req_cnt x))"
    using inv(3) fire by (simp add: cnt_def m_def[symmetric] unat_word_ariths)
  show "unat cnt \<le> 16" "n \<le> unat cnt" using inv cnt by auto
  show mem: "me_mem e' = me_mem e" by (simp add: e'_def env_accept_def rq)
  show q: "me_q e' = map f [n..<unat cnt]"
    using inv cnt by (simp add: e'_def env_accept_def rq f_def)
  show rsp: "mi_rsp m \<longleftrightarrow> ei_respond i \<and> n < unat cnt" using q by (auto simp: m_def e'_def[symmetric] env_rsp_def)
  show "mi_rdata m = f n" if "mi_rsp m"
    using that rsp q by (simp add: m_def e'_def[symmetric] env_rsp_def upt_conv_Cons)
  show "me_q (env_pop i e') = map f [if mi_rsp m then Suc n else n..<unat cnt]"
    using q rsp by (auto simp: env_pop_def upt_conv_Cons)
  show "me_mem (env_pop i e') = me_mem e" using mem by (simp add: env_pop_def)
qed

text \<open>The word a response puts in the line already carries the pending store.\<close>

lemma fill_data:
  assumes "dc_state x = DC_FILL" "S = dc_pend x M" "n = unat (dc_rsp_cnt x)" "n < 16" "mi_rdata m = M (line_pos x n)"
  shows "dc_data_next m x =
    (if mi_rsp m then put3 (dc_victim x) (a_idx (dc_addr x)) (of_nat n) (S (line_pos x n)) (dc_data x) else dc_data x)"
proof -
  have t: "fld 0 (dc_rsp_cnt x) = (of_nat n :: 4 word)" using assms(3) low_bits_of_nat by simp
  note w = of_nat_woff[OF assms(4), of "dc_addr x"] and p = line_pos_target[OF assms(4), of x]
  show ?thesis
  proof (cases "n = unat (a_woff (dc_addr x))")
    case True
    then show ?thesis using assms(1,5) w p by (simp add: dc_data_next_def Let_def t assms(2) dc_pend_def)
  next
    case False
    then show ?thesis using assms(1,5) w p by (simp add: dc_data_next_def Let_def t assms(2) dc_pend_def)
  qed
qed

lemma coherent_install:
  assumes c: "coherent {(v, i)} M x" and p: "i = a_idx (dc_addr x)"
    and new: "\<forall>w. dc_valid x i w \<longrightarrow> dc_tag x w i \<noteq> a_tag (dc_addr x)"
    and t: "dc_tag y = (dc_tag x)(v := (dc_tag x v)(i := a_tag (dc_addr x)))"
    and vl: "dc_valid y = (dc_valid x)(i := (dc_valid x i)(v := True))"
    and d: "\<And>k. dc_data y v i k = dc_pend x M (pos (a_tag (dc_addr x)) i k)"
    and o: "\<And>w j k. (w, j) \<noteq> (v, i) \<Longrightarrow> dc_data y w j k = dc_data x w j k"
  shows "coherent {} (dc_pend x M) y"
proof -
  have old: "dc_pend x M (pos (dc_tag x w j) j k) = M (pos (dc_tag x w j) j k)" if "dc_valid x j w" for w j k
    using new that p by (auto simp: dc_pend_def wi_pos pos_eq_iff)
  have "dc_data y w j k = dc_pend x M (pos (dc_tag y w j) j k)" if "dc_valid y j w" for w j k
  proof (cases "(w, j) = (v, i)")
    case True then show ?thesis by (simp add: d t)
  next
    case False
    then have "dc_valid x j w" "dc_tag y w j = dc_tag x w j" using that by (auto simp: vl t split: if_splits)
    then show ?thesis using c False old o by (simp add: coherent_def)
  qed
  moreover have "w = w'" if "dc_valid y j w" "dc_valid y j w'" "dc_tag y w j = dc_tag y w' j" for j w w'
    using that c new unfolding coherent_def t vl by (auto split: if_splits)
  ultimately show ?thesis by (auto simp: coherent_def)
qed


lemma fill_step:
  fixes x :: dcache and e :: menv and i :: env_in and r :: bus_req and S :: wmem
  assumes "dc_state x = DC_FILL" "inv_fill x e S"
  defines "e' \<equiv> env_accept i (dc_mem_req x) e" and "y \<equiv> dcache_step False r (env_rsp i (env_accept i (dc_mem_req x) e)) x"
  shows "(dc_state y = DC_FILL \<and> inv_fill y (env_pop i e') S \<or> dc_state y = DC_DONE \<and> inv_done y (env_pop i e') S \<or>
      dc_state y = DC_WT_MISS \<and> inv_wt y (env_pop i e') S) \<and>
    dc_addr y = dc_addr x \<and> dc_wen y = dc_wen x \<and> dc_wdata y = dc_wdata x \<and> dc_wmask y = dc_wmask x"
proof -
  let ?m = "env_rsp i e'" and ?i = "a_idx (dc_addr x)" and ?v = "dc_victim x" and ?n = "unat (dc_rsp_cnt x)"
  let ?c = "if dc_mem_fire ?m x then dc_req_cnt x + 1 else dc_req_cnt x" and ?M = "me_mem e"
  let ?n' = "if mi_rsp ?m then Suc ?n else ?n"
  have y: "y = dcache_step False r ?m x" by (simp add: y_def e'_def)
  note q = fill_queue[OF assms(1,2), of i, folded e'_def]
  have inv: "S = dc_pend x ?M" "?n < 16" "\<not> dc_fault x" "coherent {(?v, ?i)} ?M x"
    "\<forall>w. dc_valid x ?i w \<longrightarrow> dc_tag x w ?i \<noteq> a_tag (dc_addr x)" "\<forall>j<?n. dc_data x ?v ?i (of_nat j) = S (line_pos x j)"
    "unat (a_woff (dc_addr x)) < ?n \<longrightarrow> dc_target x = ?M (wi (dc_addr x))"
    using assms(2) by (simp_all add: inv_fill_def Let_def)
  have na: "\<not> dc_accept r x" "dc_next r ?m x = dc_fill ?m x" using assms(1) by (simp_all add: dc_accept_def dc_next_def)
  have kept: "dc_addr y = dc_addr x" "dc_wen y = dc_wen x" "dc_wdata y = dc_wdata x" "dc_wmask y = dc_wmask x"
    by (simp_all add: y step_sel na next_kept[of r ?m x, unfolded na])
  have pend: "dc_pend y = dc_pend x" by (simp add: dc_pend_def kept fun_eq_iff)
  have lp: "line_pos y = line_pos x" by (simp add: line_pos_def kept fun_eq_iff)
  have cnt: "unat (if mi_rsp ?m then dc_rsp_cnt x + 1 else dc_rsp_cnt x) = ?n'"
    using inv(2) by (simp add: unat_word_ariths)
  then have full: "((if mi_rsp ?m then dc_rsp_cnt x + 1 else dc_rsp_cnt x) = of_nat LINE_WORDS) = (?n' = 16)"
    unfolding word_unat_eq_iff by (simp add: LINE_WORDS_def)
  have sel: "dc_state y = (if ?n' = 16 then if dc_wen x then DC_WT_MISS else DC_DONE else DC_FILL)"
    "dc_req_cnt y = ?c" "dc_rsp_cnt y = (if mi_rsp ?m then dc_rsp_cnt x + 1 else dc_rsp_cnt x)" "dc_victim y = ?v" "dc_fault y = dc_fault x"
    "?n' = 16 \<Longrightarrow> \<not> dc_rsp_hit y" "?n' = 16 \<Longrightarrow> dc_wen x \<Longrightarrow> \<not> dc_fired y \<and> \<not> dc_seen y"
    using full inv(3) by (simp_all add: y step_sel na dc_fill_def Let_def assms(1))
  have filled: "dc_filled ?m x = (?n' = 16)"
    using full inv(3) assms(1) by (simp add: dc_filled_def dc_fill_def Let_def)
  have data: "dc_data y = (if mi_rsp ?m then put3 ?v ?i (of_nat ?n) (S (line_pos x ?n)) (dc_data x) else dc_data x)"
    unfolding y step_sel by (cases "mi_rsp ?m") (simp_all add: fill_data[OF assms(1) inv(1) refl inv(2)] q(6), simp add: dc_data_next_def Let_def assms(1))
  have other: "dc_data y w j k = dc_data x w j k" if "(w, j) \<noteq> (?v, ?i)" for w j k
    using that by (auto simp: data put3_apply)
  have line: "dc_data y ?v ?i (of_nat j) = S (line_pos x j)" if "j < ?n'" for j
    using put3_line[where d = "dc_data x" and f = "\<lambda>j. S (line_pos x j)", OF inv(6) inv(2), of j] that inv(6) by (auto simp: data split: if_splits)
  have target: "dc_target y = ?M (wi (dc_addr x))" if "unat (a_woff (dc_addr x)) < ?n'"
  proof (cases "mi_rsp ?m \<and> ?n = unat (a_woff (dc_addr x))")
    case True
    then have "?M (line_pos x ?n) = ?M (wi (dc_addr x))" using line_pos_target[OF inv(2), of x] by simp
    then show ?thesis using True q(6) of_nat_woff[OF inv(2), of "dc_addr x"] low_bits_of_nat[of "dc_rsp_cnt x"]
      by (simp add: y step_sel dc_target_next_def assms(1))
  next
    case False
    then have "dc_target y = dc_target x"
      using of_nat_woff[OF inv(2), of "dc_addr x"] low_bits_of_nat[of "dc_rsp_cnt x"]
      by (auto simp: y step_sel dc_target_next_def)
    then show ?thesis using False that inv(7) by (auto split: if_splits)
  qed
  show ?thesis
  proof (cases "?n' = 16")
    case False
    have arr: "dc_tag y = dc_tag x" "dc_valid y = dc_valid x" using False filled by (simp_all add: y step_sel)
    have c: "coherent {(?v, ?i)} ?M y" using inv(4) other by (auto simp: coherent_def arr)
    have "inv_fill y (env_pop i e') S"
      unfolding inv_fill_def Let_def kept pend lp sel(2-5) q(7,8) cnt
      using inv(1-3,5) q(1,2) c arr line target False by (auto simp: q(5))
    then show ?thesis using False sel(1) kept by simp
  next
    case True
    have "dc_data y ?v ?i k = dc_pend x ?M (pos (a_tag (dc_addr x)) ?i k)" for k
      using line[of "unat k"] True unsigned_less[of k, where 'a = nat] by (simp add: inv(1) line_pos_def)
    then have c: "coherent {} S y"
      unfolding inv(1) using True filled other inv(4,5) by (intro coherent_install[of ?v ?i]) (simp_all add: y step_sel)
    have e: "me_q (env_pop i e') = []" "me_mem (env_pop i e') = ?M" using q(1) True by (simp_all add: q(7,8))
    have f: "\<not> dc_fault y" "\<not> dc_rsp_hit y" using sel(5,6) True inv(3) by simp_all
    have t: "dc_target y = ?M (wi (dc_addr x))"
      using True unsigned_less[of "a_woff (dc_addr x)", where 'a = nat] by (intro target) simp
    show ?thesis
    proof (cases "dc_wen x")
      case wen: True
      then show ?thesis using True sel(1,7) kept e c f inv(1) pend by (simp add: inv_wt_def)
    next
      case nw: False
      then show ?thesis using True sel(1) kept e c f inv(1) t by (auto simp: inv_done_def dc_pend_def dc_rsp_rdata_def)
    qed
  qed
qed


section \<open>Every cycle\<close>

lemma dc_state_idle: "dc_accept r x \<Longrightarrow> dc_state x = DC_IDLE" by (simp add: dc_accept_def)

lemma dc_inv_step:
  assumes "dc_inv s" shows "dc_inv (dsys_step (r, i) s)"
proof -
  let ?x = "ds_cache s" and ?e = "ds_env s" and ?S = "ds_spec s"
  let ?e' = "env_accept i (dc_mem_req ?x) ?e"
  have quiet: "env_accept i (dc_mem_req ?x) ?e = ?e" "env_pop i ?e = ?e"
    if "dc_state ?x \<in> {DC_IDLE, DC_LOOKUP, DC_DONE}" "me_q ?e = []"
    using that by (auto simp: env_accept_def env_pop_def dc_mem_req_def no_req_def)
  show ?thesis
  proof (cases "dc_state ?x")
    case DC_IDLE
    then have v: "inv_idle ?x ?e ?S" using assms by (simp add: dc_inv_def Let_def)
    show ?thesis using idle_step[OF DC_IDLE v, of r "env_rsp i ?e"] quiet DC_IDLE v
      by (auto simp: dsys_step_def Let_def dc_inv_def inv_idle_def step_sel split: if_splits)
  next
    case DC_LOOKUP
    then have v: "inv_lookup ?x ?e ?S" using assms by (simp add: dc_inv_def Let_def)
    show ?thesis using lookup_step[OF DC_LOOKUP v, of r "env_rsp i ?e"] quiet DC_LOOKUP v assms
      by (auto simp: dsys_step_def Let_def dc_inv_def inv_lookup_def dc_accept_def split: if_splits)
  next
    case DC_WT
    then have v: "inv_wt ?x ?e ?S" using assms by (simp add: dc_inv_def Let_def)
    show ?thesis using wt_step[OF disjI1, OF DC_WT v, where i = i and r = r] DC_WT assms
      by (auto simp: dsys_step_def Let_def dc_inv_def dc_accept_def)
  next
    case DC_FILL
    then have v: "inv_fill ?x ?e ?S" using assms by (simp add: dc_inv_def Let_def)
    show ?thesis using fill_step[OF DC_FILL v, where i = i and r = r] DC_FILL assms
      by (auto simp: dsys_step_def Let_def dc_inv_def dc_accept_def)
  next
    case DC_WT_MISS
    then have v: "inv_wt ?x ?e ?S" using assms by (simp add: dc_inv_def Let_def)
    show ?thesis using wt_step[OF disjI2, OF DC_WT_MISS v, where i = i and r = r] DC_WT_MISS assms
      by (auto simp: dsys_step_def Let_def dc_inv_def dc_accept_def)
  next
    case DC_DONE
    then have v: "inv_done ?x ?e ?S" using assms by (simp add: dc_inv_def Let_def)
    show ?thesis using done_step[OF DC_DONE v, of r "env_rsp i ?e"] quiet DC_DONE v
      by (auto simp: dsys_step_def Let_def dc_inv_def inv_done_def dc_accept_def)
  qed
qed

lemma dc_inv_run: "dc_inv s \<Longrightarrow> dc_inv (dsys_run ins s)"
  by (induction ins arbitrary: s) (auto simp: dsys_run_def dc_inv_step)

text \<open>A system just out of reset, over memory \<open>M\<close>.\<close>

definition dsys_init :: "dcache \<Rightarrow> wmem \<Rightarrow> dsys" where
  "dsys_init x M = \<lparr>ds_cache = dc_reset x, ds_env = \<lparr>me_mem = M, me_q = []\<rparr>, ds_spec = M, ds_cur = no_req\<rparr>"

lemma dc_inv_init: "dc_inv (dsys_init x M)"
  by (simp add: dsys_init_def dc_inv_def dc_reset_def inv_idle_def coherent_def Let_def)


section \<open>Progress\<close>

text \<open>Cycles to the answer, with a memory that is always ready and always responds.\<close>

definition dc_rank :: "dcache \<Rightarrow> nat" where
  "dc_rank x = (case dc_state x of DC_LOOKUP \<Rightarrow> 18 | DC_FILL \<Rightarrow> 17 - unat (dc_rsp_cnt x) | DC_WT \<Rightarrow> 1 | DC_WT_MISS \<Rightarrow> 1 | _ \<Rightarrow> 0)"

definition prompt :: "env_in \<Rightarrow> bool" where "prompt i \<longleftrightarrow> ei_ready i \<and> ei_respond i"

lemma wt_prompt:
  assumes "dc_state x = DC_WT \<or> dc_state x = DC_WT_MISS" "inv_wt x e S" "prompt i"
  shows "dc_state (dcache_step False r (env_rsp i (env_accept i (dc_mem_req x) e)) x) = DC_DONE"
proof -
  let ?m = "env_rsp i (env_accept i (dc_mem_req x) e)"
  have "dc_next r ?m x = dc_wt ?m x" using assms(1) by (auto simp: dc_next_def)
  moreover have "(dc_mem_fire ?m x \<or> dc_fired x) \<and> mi_rsp ?m"
    using assms by (auto simp: inv_wt_def prompt_def dc_mem_fire_def env_rsp_def env_accept_def dc_mem_req_def)
  ultimately show ?thesis by (simp add: step_sel dc_wt_def Let_def)
qed

lemma fill_prompt:
  assumes "dc_state x = DC_FILL" "inv_fill x e S" "prompt i"
  shows "dc_rank (dcache_step False r (env_rsp i (env_accept i (dc_mem_req x) e)) x) < dc_rank x"
proof -
  let ?m = "env_rsp i (env_accept i (dc_mem_req x) e)"
  have n: "unat (dc_rsp_cnt x) < 16" "unat (dc_rsp_cnt x) \<le> unat (dc_req_cnt x)" "unat (dc_req_cnt x) \<le> 16"
    using assms(2) by (simp_all add: inv_fill_def Let_def)
  have fire: "dc_mem_fire ?m x = (unat (dc_req_cnt x) < 16)"
    using assms(1,3) by (simp add: dc_mem_fire_def dc_mem_req_def env_rsp_def prompt_def LINE_WORDS_def word_less_nat_alt)
  have rsp: "mi_rsp ?m"
    using fill_queue(5)[OF assms(1,2), of i] assms(3) n fire by (auto simp: prompt_def unat_word_ariths)
  have nx: "dc_next r ?m x = dc_fill ?m x" using assms(1) by (simp add: dc_next_def)
  have c: "dc_rsp_cnt (dcache_step False r ?m x) = dc_rsp_cnt x + 1"
    using rsp by (simp add: step_sel nx dc_fill_def Let_def)
  have u: "unat (dc_rsp_cnt x + 1) = Suc (unat (dc_rsp_cnt x))" using n by (simp add: unat_word_ariths)
  have "dc_state (dcache_step False r ?m x) \<in> {DC_FILL, DC_WT_MISS, DC_DONE}"
    using assms(1) by (simp add: step_sel nx dc_fill_def Let_def)
  then show ?thesis using n c u assms(1) by (auto simp: dc_rank_def)
qed

lemma rank_step:
  assumes "dc_inv s" "prompt i" "0 < dc_rank (ds_cache s)"
  shows "dc_rank (ds_cache (dsys_step (r, i) s)) < dc_rank (ds_cache s) \<and>
    dc_state (ds_cache (dsys_step (r, i) s)) \<noteq> DC_IDLE"
proof -
  let ?x = "ds_cache s" and ?e = "ds_env s" and ?S = "ds_spec s"
  let ?m = "env_rsp i (env_accept i (dc_mem_req ?x) ?e)"
  have st: "ds_cache (dsys_step (r, i) s) = dcache_step False r ?m ?x" by (simp add: dsys_step_def Let_def)
  show ?thesis
  proof (cases "dc_state ?x")
    case DC_LOOKUP
    then have "dc_state (dc_lookup ?x) \<in> {DC_WT, DC_DONE} \<or> dc_state (dc_lookup ?x) = DC_FILL \<and> dc_rsp_cnt (dc_lookup ?x) = 0"
      by (simp add: dc_lookup_def Let_def)
    then show ?thesis using DC_LOOKUP unfolding st by (auto simp: step_sel dc_next_def dc_rank_def)
  next
    case DC_FILL
    then have v: "inv_fill ?x ?e ?S" using assms by (simp add: dc_inv_def Let_def)
    have "dc_state (dcache_step False r ?m ?x) \<noteq> DC_IDLE"
      using DC_FILL by (simp add: step_sel dc_next_def dc_fill_def Let_def)
    then show ?thesis using fill_prompt[OF DC_FILL v assms(2), of r] unfolding st by simp
  next
    case DC_WT
    then have v: "inv_wt ?x ?e ?S" using assms by (simp add: dc_inv_def Let_def)
    show ?thesis using wt_prompt[OF disjI1, OF DC_WT v assms(2), of r] DC_WT unfolding st by (simp add: dc_rank_def)
  next
    case DC_WT_MISS
    then have v: "inv_wt ?x ?e ?S" using assms by (simp add: dc_inv_def Let_def)
    show ?thesis using wt_prompt[OF disjI2, OF DC_WT_MISS v assms(2), of r] DC_WT_MISS unfolding st by (simp add: dc_rank_def)
  qed (use assms(3) in \<open>simp_all add: dc_rank_def\<close>)
qed

lemma rank_run:
  assumes "dc_inv s" "dc_state (ds_cache s) \<noteq> DC_IDLE" "dc_rank (ds_cache s) \<le> length ins" "\<forall>p \<in> set ins. prompt (snd p)"
  shows "\<exists>k \<le> length ins. dc_rsp_valid (ds_cache (dsys_run (take k ins) s))"
  using assms
proof (induction ins arbitrary: s)
  case Nil
  then show ?case
    by (auto simp: dsys_run_def dc_rsp_valid_def dc_rank_def dc_inv_def inv_fill_def Let_def split: dc_fsm.splits)
next
  case (Cons p ins)
  show ?case
  proof (cases "dc_state (ds_cache s) = DC_DONE")
    case True
    then show ?thesis by (intro exI[of _ 0]) (simp add: dsys_run_def dc_rsp_valid_def)
  next
    case False
    then have pos: "0 < dc_rank (ds_cache s)"
      using Cons.prems by (auto simp: dc_rank_def dc_inv_def inv_fill_def Let_def split: dc_fsm.splits)
    obtain r i where p: "p = (r, i)" by (cases p)
    have "\<exists>k \<le> length ins. dc_rsp_valid (ds_cache (dsys_run (take k ins) (dsys_step p s)))"
      using rank_step[OF Cons.prems(1) _ pos, of i r] Cons.prems dc_inv_step[OF Cons.prems(1), of r i] p
      by (intro Cons.IH) auto
    then obtain k where "k \<le> length ins" "dc_rsp_valid (ds_cache (dsys_run (take k ins) (dsys_step p s)))" by blast
    then show ?thesis by (intro exI[of _ "Suc k"]) (simp add: dsys_run_def)
  qed
qed

section \<open>Properties\<close>

lemma answers_from:
  assumes "dc_inv s" "dc_req_ready (ds_cache s)" "rq_valid r" "\<forall>p \<in> set ps. prompt (snd p)" "18 \<le> length ps"
  shows "\<exists>k \<le> length ps. dc_rsp_valid (ds_cache (dsys_run ((r, i) # take k ps) s))"
proof -
  have inv: "dc_inv (dsys_step (r, i) s)" using assms(1) by (rule dc_inv_step)
  have st: "dc_state (ds_cache (dsys_step (r, i) s)) = DC_LOOKUP"
    using assms(2,3) by (simp add: dsys_step_def Let_def step_sel dc_next_def dc_accept_def dc_req_ready_def)
  have "\<exists>k \<le> length ps. dc_rsp_valid (ds_cache (dsys_run (take k ps) (dsys_step (r, i) s)))"
    using inv st assms(4,5) by (intro rank_run) (simp_all add: dc_rank_def)
  then show ?thesis by (simp add: dsys_run_def)
qed

lemma quiet_run:
  "\<forall>p \<in> set ps. \<not> rq_valid (fst p) \<Longrightarrow>
    ds_cur (dsys_run ps s) = ds_cur s \<and> ds_spec (dsys_run ps s) = ds_spec s"
  by (induction ps arbitrary: s) (auto simp: dsys_run_def dsys_step_def Let_def dc_accept_def)

text \<open>A load, and a memory that answers at once.\<close>

definition dc_cold :: dcache where
  "dc_cold = \<lparr>dc_tag = (\<lambda>_ _. 0), dc_data = (\<lambda>_ _ _. 0), dc_valid = (\<lambda>_ _. False), dc_plru = (\<lambda>_. 0),
     dc_state = DC_IDLE, dc_addr = 0, dc_wen = False, dc_wdata = 0, dc_wmask = 0, dc_req_cnt = 0, dc_rsp_cnt = 0,
     dc_victim = 0, dc_fault = False, dc_fired = False, dc_seen = False, dc_rsp_hit = False, dc_rsp_way = 0,
     dc_target = 0, dc_tag_rd = (\<lambda>_. 0), dc_valid_rd = (\<lambda>_. False), dc_data_rd = (\<lambda>_. 0)\<rparr>"

definition load_req :: bus_req where
  "load_req = \<lparr>rq_valid = True, rq_addr = 0x1048, rq_wen = False, rq_wdata = 0, rq_wmask = 0\<rparr>"
definition prompt_env :: env_in where "prompt_env = \<lparr>ei_ready = True, ei_respond = True, ei_ack = 0\<rparr>"
definition const_mem :: wmem where "const_mem = (\<lambda>_. 0x11223344)"
definition load_ins :: "nat \<Rightarrow> (bus_req \<times> env_in) list" where
  "load_ins k = (load_req, prompt_env) # take k (replicate 18 (no_req, prompt_env))"

text \<open>
  C5. The data cache is transparent. After any run from reset over any memory, whatever the client
  requests and whenever the memory behind the cache accepts and responds, a response is fault-free and
  a load returns the word that the stores accepted so far leave in memory; and when the cache responds
  or is idle, the memory itself holds exactly those stores (write-through).
\<close>
theorem dcache_transparent:
  "let s = dsys_run ins (dsys_init x M) in
    (dc_rsp_valid (ds_cache s) \<longrightarrow> \<not> dc_rsp_fault (ds_cache s) \<and>
      (\<not> rq_wen (ds_cur s) \<longrightarrow> dc_rsp_rdata (ds_cache s) = ds_spec s (wi (rq_addr (ds_cur s))))) \<and>
    (dc_rsp_valid (ds_cache s) \<or> dc_req_ready (ds_cache s) \<longrightarrow> me_mem (ds_env s) = ds_spec s)"
proof -
  have "dc_inv (dsys_run ins (dsys_init x M))" by (intro dc_inv_run dc_inv_init)
  then show ?thesis
    by (auto simp: dc_inv_def Let_def dc_rsp_valid_def dc_req_ready_def dc_rsp_fault_def inv_done_def inv_idle_def)
qed

lemma dcache_transparent_witness:
  "\<exists>k \<le> 18. dc_rsp_valid (ds_cache (dsys_run (load_ins k) (dsys_init dc_cold const_mem))) \<and>
     dc_rsp_rdata (ds_cache (dsys_run (load_ins k) (dsys_init dc_cold const_mem))) = 0x11223344"
proof -
  let ?s = "dsys_init dc_cold const_mem"
  obtain k where k: "k \<le> 18" "dc_rsp_valid (ds_cache (dsys_run (load_ins k) ?s))"
    using answers_from[of ?s load_req "replicate 18 (no_req, prompt_env)" prompt_env] dc_inv_init[of dc_cold const_mem]
    by (auto simp: load_ins_def dsys_init_def dc_req_ready_def dc_reset_def load_req_def prompt_def prompt_env_def)
  have "ds_cur (dsys_run (load_ins k) ?s) = load_req \<and> ds_spec (dsys_run (load_ins k) ?s) = const_mem"
    using quiet_run[of "take k (replicate 18 (no_req, prompt_env))" "dsys_step (load_req, prompt_env) ?s"]
    by (simp add: load_ins_def dsys_run_def dsys_step_def Let_def dc_accept_def dsys_init_def dc_reset_def
        load_req_def no_req_def)
  then show ?thesis using k dcache_transparent[of "load_ins k" dc_cold const_mem]
    by (auto simp: Let_def load_req_def const_mem_def)
qed

text \<open>
  C27. And it answers: in every reachable idle state a request is accepted, and if the memory is ready
  and responds in every cycle, the response comes within 18 cycles of the acceptance.
\<close>
theorem dcache_answers:
  assumes "dc_req_ready (ds_cache (dsys_run ins (dsys_init x M)))" "rq_valid r" "\<forall>p \<in> set ps. prompt (snd p)" "18 \<le> length ps"
  shows "\<exists>k \<le> length ps. dc_rsp_valid (ds_cache (dsys_run (ins @ (r, i) # take k ps) (dsys_init x M)))"
  using answers_from[OF dc_inv_run[OF dc_inv_init] assms] by (simp add: dsys_run_def)

lemma dcache_answers_witness:
  "\<exists>k \<le> 18. dc_rsp_valid (ds_cache (dsys_run ([] @ load_ins k) (dsys_init dc_cold const_mem)))"
proof -
  have "dc_req_ready (ds_cache (dsys_run [] (dsys_init dc_cold const_mem)))"
    by (simp add: dsys_run_def dsys_init_def dc_req_ready_def dc_reset_def)
  then show ?thesis
    using dcache_answers[of "[]" dc_cold const_mem load_req "replicate 18 (no_req, prompt_env)" prompt_env]
    by (simp add: load_req_def prompt_def prompt_env_def load_ins_def)
qed

end
