(* ===== verification/Icache.thy ===== *)
theory Icache
  imports Cache_Geom
begin

text \<open>
  The instruction cache, \<open>rtl/cache/icache.sv\<close>: four ways of 64 sets of 16-word lines, filled a word at
  a time, cleared by the pulse that the pipeline sends when FENCE.I retires.
\<close>

section \<open>Model\<close>

datatype ic_fsm = IC_IDLE | IC_LOOKUP | IC_FILL | IC_DONE

record icache =
  ic_tag :: "way \<Rightarrow> set_idx \<Rightarrow> ctag"
  ic_data :: "way \<Rightarrow> set_idx \<Rightarrow> woff \<Rightarrow> u32"
  ic_valid :: "set_idx \<Rightarrow> way \<Rightarrow> bool"
  ic_plru :: "set_idx \<Rightarrow> 3 word"
  ic_state :: ic_fsm
  ic_addr :: u32
  ic_req_cnt :: "5 word"
  ic_rsp_cnt :: "5 word"
  ic_victim :: way
  ic_fault :: bool
  ic_rsp_hit :: bool
  ic_rsp_way :: way
  ic_target :: u32
  ic_tag_rd :: "way \<Rightarrow> ctag"
  ic_valid_rd :: "way \<Rightarrow> bool"
  ic_data_rd :: "way \<Rightarrow> u32"

text \<open>
  The inputs of a cycle: the core's request (an address, when its valid line is high), the invalidate
  pulse, and the memory port.
\<close>

record ic_in =
  ii_req :: "u32 option"
  ii_inval :: bool
  ii_ready :: bool
  ii_rsp :: bool
  ii_data :: u32
  ii_fault :: bool

definition ic_hit_vec :: "icache \<Rightarrow> way \<Rightarrow> bool" where
  "ic_hit_vec x = hit_vec (ic_valid_rd x) (ic_tag_rd x) (ic_addr x)"

definition ic_accept :: "ic_in \<Rightarrow> icache \<Rightarrow> bool" where
  "ic_accept i x = (ic_state x = IC_IDLE \<and> ii_req i \<noteq> None)"

text \<open>Outputs.\<close>

definition ic_req_ready :: "ic_in \<Rightarrow> icache \<Rightarrow> bool" where
  "ic_req_ready i x = (ic_state x = IC_IDLE \<and> \<not> ii_inval i)"
definition ic_rsp_valid :: "icache \<Rightarrow> bool" where "ic_rsp_valid x = (ic_state x = IC_DONE)"
definition ic_rsp_data :: "icache \<Rightarrow> u32" where
  "ic_rsp_data x = (if ic_rsp_hit x then ic_data_rd x (ic_rsp_way x) else ic_target x)"
definition ic_rsp_fault :: "icache \<Rightarrow> bool" where
  "ic_rsp_fault x = (ic_state x = IC_DONE \<and> \<not> ic_rsp_hit x \<and> ic_fault x)"

definition ic_mem_req :: "icache \<Rightarrow> u32 option" where
  "ic_mem_req x =
     (if ic_state x = IC_FILL \<and> ic_req_cnt x < of_nat LINE_WORDS
      then Some (fill_addr (ic_addr x) (ic_req_cnt x)) else None)"

text \<open>The state machine: next values of its registers.\<close>

definition ic_lookup :: "icache \<Rightarrow> icache" where
  "ic_lookup x =
     (if hit_any (ic_hit_vec x)
      then x\<lparr>ic_rsp_hit := True, ic_rsp_way := hit_way (ic_hit_vec x), ic_state := IC_DONE\<rparr>
      else x\<lparr>ic_victim := plru_pick (ic_plru x (a_idx (ic_addr x))), ic_req_cnt := 0, ic_rsp_cnt := 0,
             ic_fault := False, ic_state := IC_FILL\<rparr>)"

definition ic_fill :: "ic_in \<Rightarrow> icache \<Rightarrow> icache" where
  "ic_fill i x =
     (let rsp_cnt = (if ii_rsp i then ic_rsp_cnt x + 1 else ic_rsp_cnt x);
          y = x\<lparr>ic_req_cnt := (if ic_mem_req x \<noteq> None \<and> ii_ready i then ic_req_cnt x + 1 else ic_req_cnt x),
                ic_rsp_cnt := rsp_cnt, ic_fault := ic_fault x \<or> ii_rsp i \<and> ii_fault i\<rparr> in
      if rsp_cnt = of_nat LINE_WORDS
      then y\<lparr>ic_rsp_hit := False, ic_rsp_way := ic_victim x, ic_state := IC_DONE\<rparr> else y)"

definition ic_next :: "ic_in \<Rightarrow> icache \<Rightarrow> icache" where
  "ic_next i x =
     (case ic_state x of
        IC_IDLE \<Rightarrow> if ic_accept i x then x\<lparr>ic_state := IC_LOOKUP\<rparr> else x
      | IC_LOOKUP \<Rightarrow> ic_lookup x
      | IC_FILL \<Rightarrow> ic_fill i x
      | IC_DONE \<Rightarrow> x\<lparr>ic_state := IC_IDLE\<rparr>)"

text \<open>The arrays; the line that completes is made valid after the invalidate pulse has cleared the bits.\<close>

definition ic_filled :: "ic_in \<Rightarrow> icache \<Rightarrow> bool" where
  "ic_filled i x = (ic_state x = IC_FILL \<and> ic_state (ic_fill i x) = IC_DONE \<and> \<not> ic_fault (ic_fill i x))"

definition ic_valid_next :: "ic_in \<Rightarrow> icache \<Rightarrow> set_idx \<Rightarrow> way \<Rightarrow> bool" where
  "ic_valid_next i x =
     (let v = (if ii_inval i then (\<lambda>_ _. False) else ic_valid x); k = a_idx (ic_addr x) in
      if ic_filled i x then v(k := (v k)(ic_victim x := True)) else v)"

definition ic_tag_next :: "ic_in \<Rightarrow> icache \<Rightarrow> way \<Rightarrow> set_idx \<Rightarrow> ctag" where
  "ic_tag_next i x =
     (let t = ic_tag x; v = ic_victim x; k = a_idx (ic_addr x) in
      if ic_filled i x then t(v := (t v)(k := a_tag (ic_addr x))) else t)"

definition ic_plru_next :: "ic_in \<Rightarrow> icache \<Rightarrow> set_idx \<Rightarrow> 3 word" where
  "ic_plru_next i x =
     (let p = ic_plru x; k = a_idx (ic_addr x) in
      if ic_state x = IC_LOOKUP \<and> hit_any (ic_hit_vec x) then p(k := plru_update (p k) (hit_way (ic_hit_vec x)))
      else if ic_filled i x then p(k := plru_update (p k) (ic_victim x))
      else p)"

definition ic_word_in :: "ic_in \<Rightarrow> icache \<Rightarrow> bool" where
  "ic_word_in i x = (ic_state x = IC_FILL \<and> ii_rsp i \<and> \<not> ii_fault i)"

definition ic_data_next :: "ic_in \<Rightarrow> icache \<Rightarrow> way \<Rightarrow> set_idx \<Rightarrow> woff \<Rightarrow> u32" where
  "ic_data_next i x =
     (if ic_word_in i x then put3 (ic_victim x) (a_idx (ic_addr x)) (fld 0 (ic_rsp_cnt x)) (ii_data i) (ic_data x)
      else ic_data x)"

definition ic_target_next :: "ic_in \<Rightarrow> icache \<Rightarrow> u32" where
  "ic_target_next i x =
     (if ic_word_in i x \<and> fld 0 (ic_rsp_cnt x) = a_woff (ic_addr x) then ii_data i else ic_target x)"

definition ic_read_ports :: "ic_in \<Rightarrow> icache \<Rightarrow> icache \<Rightarrow> icache" where
  "ic_read_ports i x y =
     (let a = (if ic_accept i x then the (ii_req i) else ic_addr x); k = a_idx a; o' = a_woff a;
          tags = ic_tag x; data = ic_data x in
      y\<lparr>ic_tag_rd := (\<lambda>w. tags w k), ic_valid_rd := ic_valid x k, ic_data_rd := (\<lambda>w. data w k o')\<rparr>)"

definition ic_reset :: "icache \<Rightarrow> icache" where
  "ic_reset x =
     x\<lparr>ic_valid := (\<lambda>_ _. False), ic_plru := (\<lambda>_. 0), ic_state := IC_IDLE, ic_addr := 0, ic_req_cnt := 0,
       ic_rsp_cnt := 0, ic_victim := 0, ic_fault := False, ic_rsp_hit := False, ic_rsp_way := 0, ic_target := 0\<rparr>"

definition ic_clock :: "ic_in \<Rightarrow> icache \<Rightarrow> icache" where
  "ic_clock i x =
     (ic_next i x)\<lparr>ic_addr := (if ic_accept i x then the (ii_req i) else ic_addr x),
        ic_tag := ic_tag_next i x, ic_valid := ic_valid_next i x, ic_plru := ic_plru_next i x,
        ic_data := ic_data_next i x, ic_target := ic_target_next i x\<rparr>"

definition icache_step :: "bool \<Rightarrow> ic_in \<Rightarrow> icache \<Rightarrow> icache" where
  "icache_step rst i x =
     ic_read_ports i x (if rst then ic_reset (x\<lparr>ic_data := ic_data_next i x\<rparr>) else ic_clock i x)"

end
