(* ===== verification/Icache_Coherent.thy ===== *)
theory Icache_Coherent
  imports Icache Dcache_Coherent
begin

text \<open>
  The instruction cache with a memory behind it that is written meanwhile: what a fetch returns, how the
  invalidate pulse (FENCE.I) makes stores visible, how long a fetch takes, and where the pulse and a
  faulting fill fall short.
\<close>

unbundle bit_operations_syntax

section \<open>The memory behind the cache\<close>

text \<open>
  An instruction memory that is written while the cache runs: each cycle may accept a fetch, answer the oldest one
  with its word or with a fault, and take a store; the pulse may come in any cycle. Two fields are not of the
  design: \<open>is_dirty\<close> collects the words for which a fetch may miss a store, and \<open>is_refused\<close> tells whether memory has
  refused a word of the fetch in flight.
\<close>

record isys =
  is_cache :: icache
  is_mem :: wmem
  is_q :: "u32 list"
  is_dirty :: "30 word set"
  is_refused :: bool

record isys_in =
  ys_req :: "u32 option"
  ys_inval :: bool
  ys_ready :: bool
  ys_respond :: bool
  ys_fault :: bool
  ys_store :: "(30 word \<times> u32) option"

definition is_queue :: "isys_in \<Rightarrow> isys \<Rightarrow> u32 list" where
  "is_queue i s =
     is_q s @ (case ic_mem_req (is_cache s) of
                 Some a \<Rightarrow> if ys_ready i then [is_mem s (wi a)] else []
               | None \<Rightarrow> [])"

definition is_ic_in :: "isys_in \<Rightarrow> isys \<Rightarrow> ic_in" where
  "is_ic_in i s =
     \<lparr>ii_req = ys_req i, ii_inval = ys_inval i, ii_ready = ys_ready i,
      ii_rsp = (ys_respond i \<and> is_queue i s \<noteq> []), ii_data = hd (is_queue i s), ii_fault = ys_fault i\<rparr>"

text \<open>The words of the line of an address, and those of the line that a fetch is about in this cycle.\<close>

definition line_of :: "u32 \<Rightarrow> 30 word set" where
  "line_of a = range (pos (a_tag a) (a_idx a))"

definition ic_in_flight :: "ic_in \<Rightarrow> icache \<Rightarrow> 30 word set" where
  "ic_in_flight i x =
     (case ic_state x of
        IC_IDLE \<Rightarrow> (case ii_req i of Some a \<Rightarrow> line_of a | None \<Rightarrow> {})
      | IC_LOOKUP \<Rightarrow> line_of (ic_addr x)
      | IC_FILL \<Rightarrow> line_of (ic_addr x)
      | IC_DONE \<Rightarrow> {})"

text \<open>A refused word spoils the line that was to be replaced, if it is valid: its words are partly overwritten.\<close>

definition ic_spoilt :: "ic_in \<Rightarrow> icache \<Rightarrow> 30 word set" where
  "ic_spoilt i x =
     (let k = a_idx (ic_addr x); v = ic_victim x in
      if ic_state x = IC_FILL \<and> ii_rsp i \<and> ii_fault i \<and> \<not> ii_inval i \<and> ic_valid x k v
      then range (pos (ic_tag x v k) k) else {})"

text \<open>The pulse makes every store visible but those to the line of a fetch in flight or just offered.\<close>

definition ic_dirty :: "ic_in \<Rightarrow> icache \<Rightarrow> 30 word set \<Rightarrow> 30 word set" where
  "ic_dirty i x D = (if ii_inval i then D \<inter> ic_in_flight i x else D) \<union> ic_spoilt i x"

definition ic_refused :: "ic_in \<Rightarrow> icache \<Rightarrow> bool \<Rightarrow> bool" where
  "ic_refused i x r = (ic_state x \<noteq> IC_IDLE \<and> (r \<or> ic_state x = IC_FILL \<and> ii_rsp i \<and> ii_fault i))"

definition isys_next :: "isys_in \<Rightarrow> isys \<Rightarrow> isys" where
  "isys_next i s =
     (let j = is_ic_in i s; x = is_cache s; D = ic_dirty j x (is_dirty s) in
      \<lparr>is_cache = icache_step False j x,
       is_mem = (case ys_store i of Some (p, v) \<Rightarrow> (is_mem s)(p := v) | None \<Rightarrow> is_mem s),
       is_q = (if ys_respond i then tl (is_queue i s) else is_queue i s),
       is_dirty = (case ys_store i of Some (p, v) \<Rightarrow> insert p D | None \<Rightarrow> D),
       is_refused = ic_refused j x (is_refused s)\<rparr>)"

definition isys_init :: "icache \<Rightarrow> wmem \<Rightarrow> isys" where
  "isys_init x M = \<lparr>is_cache = ic_reset x, is_mem = M, is_q = [], is_dirty = {}, is_refused = False\<rparr>"

inductive isys_reach :: "isys \<Rightarrow> bool" where
  init: "isys_reach (isys_init x M)"
| step: "isys_reach s \<Longrightarrow> isys_reach (isys_next i s)"

section \<open>Invariant\<close>

text \<open>A value that is current at \<open>p\<close>, unless \<open>p\<close> is dirty.\<close>

definition agree :: "30 word set \<Rightarrow> wmem \<Rightarrow> 30 word \<Rightarrow> u32 \<Rightarrow> bool" where
  "agree D M p v \<longleftrightarrow> p \<in> D \<or> v = M p"

definition ic_lines :: "(way \<times> set_idx) set \<Rightarrow> 30 word set \<Rightarrow> wmem \<Rightarrow> icache \<Rightarrow> bool" where
  "ic_lines X D M x \<longleftrightarrow>
     (\<forall>j w k. ic_valid x j w \<and> (w, j) \<notin> X \<longrightarrow> agree D M (pos (ic_tag x w j) j k) (ic_data x w j k))"

definition ic_pos :: "icache \<Rightarrow> nat \<Rightarrow> 30 word" where
  "ic_pos x j = pos (a_tag (ic_addr x)) (a_idx (ic_addr x)) (of_nat j)"

definition ic_inv_lookup :: "30 word set \<Rightarrow> wmem \<Rightarrow> icache \<Rightarrow> bool" where
  "ic_inv_lookup D M x \<longleftrightarrow>
     (let k = a_idx (ic_addr x) in
      \<forall>w. ic_valid_rd x w \<and> ic_tag_rd x w = a_tag (ic_addr x) \<longrightarrow>
        (\<forall>o'. agree D M (pos (a_tag (ic_addr x)) k o') (ic_data x w k o')))"

definition ic_inv_fill :: "30 word set \<Rightarrow> wmem \<Rightarrow> u32 list \<Rightarrow> icache \<Rightarrow> bool" where
  "ic_inv_fill D M q x \<longleftrightarrow>
     (let n = unat (ic_rsp_cnt x); k = unat (ic_req_cnt x); v = ic_victim x; l = a_idx (ic_addr x) in
      n < 16 \<and> k \<le> 16 \<and> k = n + length q \<and>
      (\<forall>j < length q. agree D M (ic_pos x (n + j)) (q ! j)) \<and>
      (\<not> ic_fault x \<longrightarrow> (\<forall>j < n. agree D M (ic_pos x j) (ic_data x v l (of_nat j)))) \<and>
      (\<not> ic_fault x \<longrightarrow> unat (a_woff (ic_addr x)) < n \<longrightarrow> agree D M (wi (ic_addr x)) (ic_target x)) \<and>
      (ic_fault x \<longrightarrow> ic_valid x l v \<longrightarrow> range (pos (ic_tag x v l) l) \<subseteq> D))"

definition ic_inv_done :: "bool \<Rightarrow> 30 word set \<Rightarrow> wmem \<Rightarrow> icache \<Rightarrow> bool" where
  "ic_inv_done r D M x \<longleftrightarrow> r = (\<not> ic_rsp_hit x \<and> ic_fault x) \<and> (r \<or> agree D M (wi (ic_addr x)) (ic_rsp_data x))"

definition ic_hole :: "icache \<Rightarrow> (way \<times> set_idx) set" where
  "ic_hole x = (if ic_state x = IC_FILL then {(ic_victim x, a_idx (ic_addr x))} else {})"

definition ic_inv :: "bool \<Rightarrow> 30 word set \<Rightarrow> wmem \<Rightarrow> u32 list \<Rightarrow> icache \<Rightarrow> bool" where
  "ic_inv r D M q x \<longleftrightarrow>
     ic_lines (ic_hole x) D M x \<and> (ic_state x \<noteq> IC_FILL \<longrightarrow> q = []) \<and>
     (case ic_state x of
        IC_IDLE \<Rightarrow> True
      | IC_LOOKUP \<Rightarrow> \<not> r \<and> ic_inv_lookup D M x
      | IC_FILL \<Rightarrow> r = ic_fault x \<and> ic_inv_fill D M q x
      | IC_DONE \<Rightarrow> ic_inv_done r D M x)"

definition isys_inv :: "isys \<Rightarrow> bool" where
  "isys_inv s \<longleftrightarrow> ic_inv (is_refused s) (is_dirty s) (is_mem s) (is_q s) (is_cache s)"

section \<open>Stores keep it\<close>

lemma agree_store: "agree D M p v \<Longrightarrow> agree (insert a D) (M(a := b)) p v"
  by (auto simp: agree_def)

lemma ic_inv_store: "ic_inv r D M q x \<Longrightarrow> ic_inv r (insert a D) (M(a := b)) q x"
  by (auto simp: ic_inv_def ic_lines_def ic_inv_lookup_def ic_inv_fill_def ic_inv_done_def Let_def
      intro: agree_store split: ic_fsm.splits)

section \<open>One cycle\<close>

lemma ic_sel:
  fixes x :: icache and i :: ic_in
  defines "y \<equiv> icache_step False i x" and "a \<equiv> (if ic_accept i x then the (ii_req i) else ic_addr x)"
  shows "ic_state y = ic_state (ic_next i x)" "ic_req_cnt y = ic_req_cnt (ic_next i x)"
    "ic_rsp_cnt y = ic_rsp_cnt (ic_next i x)" "ic_victim y = ic_victim (ic_next i x)"
    "ic_fault y = ic_fault (ic_next i x)" "ic_rsp_hit y = ic_rsp_hit (ic_next i x)"
    "ic_rsp_way y = ic_rsp_way (ic_next i x)" "ic_addr y = a" "ic_tag y = ic_tag_next i x"
    "ic_valid y = ic_valid_next i x" "ic_data y = ic_data_next i x" "ic_target y = ic_target_next i x"
    "ic_tag_rd y = (\<lambda>w. ic_tag x w (a_idx a))" "ic_valid_rd y = ic_valid x (a_idx a)"
    "ic_data_rd y = (\<lambda>w. ic_data x w (a_idx a) (a_woff a))"
  by (simp_all add: y_def a_def icache_step_def ic_read_ports_def ic_clock_def Let_def)

lemma lines_kept:
  "ic_lines X D M x \<Longrightarrow> ic_tag y = ic_tag x \<Longrightarrow> ic_data y = ic_data x \<Longrightarrow>
    (\<And>j w. ic_valid y j w \<Longrightarrow> ic_valid x j w) \<Longrightarrow> ic_lines X D M y"
  unfolding ic_lines_def by simp

lemma lines_cleared: "(\<And>j w. \<not> ic_valid y j w) \<Longrightarrow> ic_lines X D M y"
  by (simp add: ic_lines_def)


text \<open>No word arrives and no line completes outside a fill.\<close>

lemma ic_no_fill:
  assumes "ic_state x \<noteq> IC_FILL"
  shows "ic_tag_next i x = ic_tag x" "ic_data_next i x = ic_data x" "ic_target_next i x = ic_target x"
    "ic_valid_next i x = (if ii_inval i then (\<lambda>_ _. False) else ic_valid x)" "ic_mem_req x = None"
  using assms by (simp_all add: ic_tag_next_def ic_data_next_def ic_target_next_def ic_valid_next_def ic_filled_def
      ic_word_in_def ic_mem_req_def Let_def)

text \<open>What the pulse spares.\<close>

lemma agree_in_flight: "agree D M p v \<Longrightarrow> p \<in> ic_in_flight i x \<Longrightarrow> agree (ic_dirty i x D) M p v"
  by (auto simp: agree_def ic_dirty_def)

lemma agree_no_pulse: "agree D M p v \<Longrightarrow> \<not> ii_inval i \<Longrightarrow> agree (ic_dirty i x D) M p v"
  by (auto simp: agree_def ic_dirty_def)

lemma wi_line: "wi a \<in> line_of a" unfolding line_of_def by (metis wi_pos rangeI)

lemma ic_lines_next:
  assumes "ic_state x \<noteq> IC_FILL" "ic_lines {} D M x"
  shows "ic_lines X (ic_dirty i x D) M (icache_step False i x)"
proof (cases "ii_inval i")
  case True
  then show ?thesis by (intro lines_cleared) (simp add: ic_sel ic_no_fill[OF assms(1)])
next
  case False
  then show ?thesis using assms(2)
    by (auto simp: ic_lines_def ic_sel ic_no_fill[OF assms(1)] intro: agree_no_pulse)
qed

lemma ic_idle_step:
  assumes "ic_state x = IC_IDLE" "ic_inv r D M [] x"
  shows "ic_inv (ic_refused i x r) (ic_dirty i x D) M [] (icache_step False i x)"
proof -
  let ?y = "icache_step False i x" and ?D = "ic_dirty i x D"
  have lines: "ic_lines {} D M x" using assms by (simp add: ic_inv_def ic_hole_def)
  then have "ic_lines (ic_hole ?y) ?D M ?y" using assms(1) by (intro ic_lines_next) simp
  moreover have "ic_inv_lookup ?D M ?y" if "ic_accept i x"
  proof -
    obtain a where a: "ii_req i = Some a" using \<open>ic_accept i x\<close> by (auto simp: ic_accept_def)
    have "agree ?D M (pos (a_tag a) (a_idx a) o') (ic_data x w (a_idx a) o')"
      if "ic_valid x (a_idx a) w" "ic_tag x w (a_idx a) = a_tag a" for w o'
    proof (rule agree_in_flight)
      show "agree D M (pos (a_tag a) (a_idx a) o') (ic_data x w (a_idx a) o')"
        using lines[unfolded ic_lines_def, rule_format, of "a_idx a" w o'] that by simp
    qed (use assms(1) a in \<open>simp add: ic_in_flight_def line_of_def\<close>)
    then show ?thesis using that assms(1) a by (simp add: ic_inv_lookup_def ic_sel ic_no_fill Let_def)
  qed
  moreover have "ic_state ?y = (if ic_accept i x then IC_LOOKUP else IC_IDLE)" using assms(1) by (simp add: ic_sel ic_next_def)
  ultimately show ?thesis using assms(1) by (simp add: ic_inv_def ic_refused_def)
qed

lemma ic_done_step:
  assumes "ic_state x = IC_DONE" "ic_inv r D M [] x"
  shows "ic_inv (ic_refused i x r) (ic_dirty i x D) M [] (icache_step False i x)"
proof -
  have "ic_lines {} D M x" using assms(1,2) by (simp add: ic_inv_def ic_hole_def)
  note l = ic_lines_next[OF _ this, where i = i]
  show ?thesis using assms(1) by (simp add: ic_inv_def ic_sel ic_next_def l)
qed

lemma ic_lookup_step:
  assumes "ic_state x = IC_LOOKUP" "ic_inv r D M [] x"
  shows "ic_inv (ic_refused i x r) (ic_dirty i x D) M [] (icache_step False i x)"
proof -
  let ?y = "icache_step False i x" and ?k = "a_idx (ic_addr x)"
  have lines: "ic_lines {} D M x" and rd: "ic_inv_lookup D M x" and r: "\<not> ic_refused i x r"
    using assms(1,2) by (simp_all add: ic_inv_def ic_hole_def ic_refused_def)
  have nf: "ic_state x \<noteq> IC_FILL" and na: "\<not> ic_accept i x" and nx: "ic_next i x = ic_lookup x"
    using assms(1) by (simp_all add: ic_accept_def ic_next_def)
  note l = ic_lines_next[OF nf lines, where i = i]
  show ?thesis
  proof (cases "hit_any (ic_hit_vec x)")
    case True
    let ?h = "hit_way (ic_hit_vec x)"
    have "ic_hit_vec x ?h" using True by (rule hit_way_hit)
    then have h: "ic_valid_rd x ?h" "ic_tag_rd x ?h = a_tag (ic_addr x)" by (simp_all add: ic_hit_vec_def hit_vec_def)
    have st: "ic_state ?y = IC_DONE" "ic_rsp_hit ?y" "ic_addr ?y = ic_addr x"
      "ic_rsp_data ?y = ic_data x ?h ?k (a_woff (ic_addr x))"
      using True by (simp_all add: ic_sel nx na ic_lookup_def ic_rsp_data_def)
    have "agree D M (wi (ic_addr x)) (ic_data x ?h ?k (a_woff (ic_addr x)))"
      using rd h by (simp add: ic_inv_lookup_def Let_def) (metis wi_pos)
    then have "agree (ic_dirty i x D) M (wi (ic_addr x)) (ic_data x ?h ?k (a_woff (ic_addr x)))"
      using assms(1) by (intro agree_in_flight) (simp_all add: ic_in_flight_def wi_line)
    then show ?thesis using st l r by (simp add: ic_inv_def ic_inv_done_def)
  next
    case False
    then have "ic_state ?y = IC_FILL" "ic_req_cnt ?y = 0" "ic_rsp_cnt ?y = 0" "\<not> ic_fault ?y"
      by (simp_all add: ic_sel nx ic_lookup_def)
    then show ?thesis using l r by (simp add: ic_inv_def ic_inv_fill_def)
  qed
qed

lemma put3_line_pred:
  assumes "\<forall>j<n. P j (d w i (of_nat j))" "P n v" "n < 16" "j < Suc n"
  shows "P j (put3 w i (of_nat n) v d w i (of_nat j))"
  using assms of_nat_woff_eq[of j n] by (cases "j = n") (simp_all add: put3_apply)

lemma ic_fill_queue:
  assumes "ic_state x = IC_FILL" "ic_inv_fill D M q x"
    and q': "q' = q @ (case ic_mem_req x of Some a \<Rightarrow> if ii_ready i then [M (wi a)] else [] | None \<Rightarrow> [])"
  defines "c \<equiv> if ic_mem_req x \<noteq> None \<and> ii_ready i then ic_req_cnt x + 1 else ic_req_cnt x"
  shows "unat c = unat (ic_rsp_cnt x) + length q' \<and> unat c \<le> 16 \<and>
    (\<forall>j < length q'. agree D M (ic_pos x (unat (ic_rsp_cnt x) + j)) (q' ! j))"
proof -
  let ?n = "unat (ic_rsp_cnt x)"
  note f = assms(2)[unfolded ic_inv_fill_def Let_def]
  have mr: "ic_mem_req x = (if unat (ic_req_cnt x) < 16 then Some (fill_addr (ic_addr x) (ic_req_cnt x)) else None)"
    using assms(1) by (simp add: ic_mem_req_def LINE_WORDS_def word_less_nat_alt)
  have wi: "wi (fill_addr (ic_addr x) (ic_req_cnt x)) = ic_pos x (unat (ic_req_cnt x))"
    by (simp add: wi_fill low_bits_of_nat ic_pos_def)
  have c: "unat c = ?n + length q'" "unat c \<le> 16" using f by (auto simp: q' c_def mr unat_word_ariths split: if_splits)
  have "agree D M (ic_pos x (?n + j)) (q' ! j)" if "j < length q'" for j
  proof (cases "j < length q")
    case True then show ?thesis using f by (simp add: q' nth_append)
  next
    case False
    then have j: "j = length q" using that by (simp add: q' mr split: if_splits)
    then have "q' ! j = M (ic_pos x (?n + j))" using that f by (auto simp: q' mr wi split: if_splits)
    then show ?thesis by (simp add: agree_def)
  qed
  then show ?thesis using c by simp
qed

text \<open>The registers, the arrays and the words of the line after a cycle of a fill.\<close>

lemma ic_fill_sel:
  fixes i :: ic_in
  assumes "ic_state x = IC_FILL" "unat (ic_rsp_cnt x) < 16"
  defines "y \<equiv> icache_step False i x" and "n \<equiv> (if ii_rsp i then Suc (unat (ic_rsp_cnt x)) else unat (ic_rsp_cnt x))"
  shows "unat (ic_rsp_cnt y) = n" "ic_state y = (if n = 16 then IC_DONE else IC_FILL)"
    "ic_req_cnt y = (if ic_mem_req x \<noteq> None \<and> ii_ready i then ic_req_cnt x + 1 else ic_req_cnt x)"
    "ic_victim y = ic_victim x" "ic_fault y = (ic_fault x \<or> ii_rsp i \<and> ii_fault i)" "n = 16 \<Longrightarrow> \<not> ic_rsp_hit y"
    "ic_addr y = ic_addr x" "ic_filled i x = (n = 16 \<and> \<not> ic_fault y)" "ic_pos y = ic_pos x"
    "ic_data y = (if ii_rsp i \<and> \<not> ii_fault i
       then put3 (ic_victim x) (a_idx (ic_addr x)) (of_nat (unat (ic_rsp_cnt x))) (ii_data i) (ic_data x) else ic_data x)"
proof -
  have na: "\<not> ic_accept i x" and nx: "ic_next i x = ic_fill i x" using assms(1) by (simp_all add: ic_accept_def ic_next_def)
  have cnt: "unat (if ii_rsp i then ic_rsp_cnt x + 1 else ic_rsp_cnt x) = n" using assms(2) by (simp add: n_def unat_word_ariths)
  then have full: "((if ii_rsp i then ic_rsp_cnt x + 1 else ic_rsp_cnt x) = of_nat LINE_WORDS) = (n = 16)"
    unfolding word_unat_eq_iff by (simp add: LINE_WORDS_def)
  show "unat (ic_rsp_cnt y) = n" unfolding cnt[symmetric] by (simp add: y_def ic_sel nx ic_fill_def Let_def)
  show "ic_state y = (if n = 16 then IC_DONE else IC_FILL)" "n = 16 \<Longrightarrow> \<not> ic_rsp_hit y" "ic_filled i x = (n = 16 \<and> \<not> ic_fault y)"
    "ic_fault y = (ic_fault x \<or> ii_rsp i \<and> ii_fault i)"
    "ic_req_cnt y = (if ic_mem_req x \<noteq> None \<and> ii_ready i then ic_req_cnt x + 1 else ic_req_cnt x)"
    "ic_victim y = ic_victim x"
    using full assms(1) by (simp_all add: y_def ic_sel nx ic_fill_def ic_filled_def Let_def)
  show a: "ic_addr y = ic_addr x" by (simp add: y_def ic_sel na)
  show "ic_pos y = ic_pos x" by (simp add: ic_pos_def a fun_eq_iff)
  show "ic_data y = (if ii_rsp i \<and> \<not> ii_fault i
       then put3 (ic_victim x) (a_idx (ic_addr x)) (of_nat (unat (ic_rsp_cnt x))) (ii_data i) (ic_data x) else ic_data x)"
    using assms(1) low_bits_of_nat[of "ic_rsp_cnt x"] by (simp add: y_def ic_sel ic_data_next_def ic_word_in_def)
qed

lemma ic_fill_words:
  fixes i :: ic_in
  assumes "ic_state x = IC_FILL" "ic_inv_fill D M q x" "\<not> ic_fault (icache_step False i x)"
    and hd: "ii_rsp i \<Longrightarrow> agree D M (ic_pos x (unat (ic_rsp_cnt x))) (ii_data i)"
  defines "n \<equiv> (if ii_rsp i then Suc (unat (ic_rsp_cnt x)) else unat (ic_rsp_cnt x))"
  shows "\<forall>j < n. agree D M (ic_pos x j) (ic_data (icache_step False i x) (ic_victim x) (a_idx (ic_addr x)) (of_nat j))"
    "unat (a_woff (ic_addr x)) < n \<longrightarrow> agree D M (wi (ic_addr x)) (ic_target (icache_step False i x))"
proof -
  let ?y = "icache_step False i x" and ?n = "unat (ic_rsp_cnt x)" and ?v = "ic_victim x" and ?k = "a_idx (ic_addr x)"
  note f = assms(2)[unfolded ic_inv_fill_def Let_def]
  note sel = ic_fill_sel[OF assms(1), of i]
  have ok: "\<not> ic_fault x" "\<not> (ii_rsp i \<and> ii_fault i)" using assms(3) f sel(5) by auto
  then have word: "ic_word_in i x = ii_rsp i" using assms(1) by (auto simp: ic_word_in_def)
  have data: "ic_data ?y = (if ii_rsp i then put3 ?v ?k (of_nat ?n) (ii_data i) (ic_data x) else ic_data x)"
    using ok f sel(10) by auto
  have "agree D M (ic_pos x j) (ic_data ?y ?v ?k (of_nat j))" if "j < n" for j
    using put3_line_pred[where P = "\<lambda>j. agree D M (ic_pos x j)" and d = "ic_data x" and n = ?n and j = j] f hd ok that
    by (auto simp: data n_def split: if_splits)
  then show "\<forall>j < n. agree D M (ic_pos x j) (ic_data ?y ?v ?k (of_nat j))" by blast
  show "unat (a_woff (ic_addr x)) < n \<longrightarrow> agree D M (wi (ic_addr x)) (ic_target ?y)"
  proof (cases "ii_rsp i \<and> ?n = unat (a_woff (ic_addr x))")
    case True
    then have "ic_target ?y = ii_data i" "ic_pos x ?n = wi (ic_addr x)"
      using low_bits_of_nat[of "ic_rsp_cnt x"] by (simp_all add: ic_sel ic_target_next_def word ic_pos_def wi_pos)
    then show ?thesis using hd True by simp
  next
    case False
    then have "ic_target ?y = ic_target x"
      using of_nat_woff[of ?n "ic_addr x"] low_bits_of_nat[of "ic_rsp_cnt x"] f
      by (auto simp: ic_sel ic_target_next_def word)
    then show ?thesis using False f ok by (auto simp: n_def split: if_splits)
  qed
qed

text \<open>The lines: those of other places are kept or cleared, and the victim's is spoilt by a refused word.\<close>

lemma ic_fill_others:
  assumes "ic_state x = IC_FILL" "unat (ic_rsp_cnt x) < 16" "ic_lines {(ic_victim x, a_idx (ic_addr x))} D M x"
  shows "ic_lines {(ic_victim x, a_idx (ic_addr x))} (ic_dirty i x D) M (icache_step False i x)"
proof -
  have "agree (ic_dirty i x D) M (pos (ic_tag (icache_step False i x) w j) j k) (ic_data (icache_step False i x) w j k)"
    if v: "ic_valid (icache_step False i x) j w" and o: "(w, j) \<noteq> (ic_victim x, a_idx (ic_addr x))" for w j k
  proof -
    have "ic_valid x j w" "\<not> ii_inval i" "ic_tag (icache_step False i x) w j = ic_tag x w j"
      "ic_data (icache_step False i x) w j k = ic_data x w j k"
      using v o by (auto simp: ic_sel(9,10) ic_fill_sel(10)[OF assms(1,2)] ic_valid_next_def ic_tag_next_def put3_apply
          Let_def split: if_splits)
    then show ?thesis using assms(3) o by (auto simp: ic_lines_def intro: agree_no_pulse)
  qed
  then show ?thesis by (simp add: ic_lines_def)
qed

lemma ic_fill_spoilt:
  fixes i :: ic_in
  assumes "ic_state x = IC_FILL" "ic_inv_fill D M q x"
  defines "y \<equiv> icache_step False i x" and "v \<equiv> ic_victim x" and "k \<equiv> a_idx (ic_addr x)"
  assumes "ic_fault y" "ic_valid y k v"
  shows "range (pos (ic_tag y v k) k) \<subseteq> ic_dirty i x D"
proof -
  note f = assms(2)[unfolded ic_inv_fill_def Let_def]
  have n: "unat (ic_rsp_cnt x) < 16" using f by simp
  have "\<not> ic_filled i x" using assms(6) ic_fill_sel(8)[OF assms(1) n, of i] by (simp add: y_def)
  then have "ic_valid x k v" "\<not> ii_inval i" "ic_tag y v k = ic_tag x v k"
    using assms(7) by (auto simp: y_def ic_sel ic_valid_next_def ic_tag_next_def Let_def split: if_splits)
  then show ?thesis using assms(6) f ic_fill_sel(5)[OF assms(1) n, of i] assms(1)
    by (auto simp: y_def v_def k_def ic_dirty_def ic_spoilt_def Let_def)
qed

lemma ic_fill_step:
  assumes "ic_state x = IC_FILL" "ic_inv r D M q x"
    and q': "q' = q @ (case ic_mem_req x of Some a \<Rightarrow> if ii_ready i then [M (wi a)] else [] | None \<Rightarrow> [])"
    and rsp: "ii_rsp i \<Longrightarrow> q' \<noteq> [] \<and> ii_data i = hd q'"
  shows "ic_inv (ic_refused i x r) (ic_dirty i x D) M (if ii_rsp i then tl q' else q') (icache_step False i x)"
proof -
  let ?y = "icache_step False i x" and ?k = "a_idx (ic_addr x)" and ?n = "unat (ic_rsp_cnt x)" and ?v = "ic_victim x"
  let ?n' = "if ii_rsp i then Suc ?n else ?n" and ?q = "if ii_rsp i then tl q' else q'" and ?D = "ic_dirty i x D"
  have lines: "ic_lines {(?v, ?k)} D M x" and f: "ic_inv_fill D M q x" and r: "r = ic_fault x"
    using assms(1,2) by (simp_all add: ic_inv_def ic_hole_def)
  have n: "?n < 16" using f by (simp add: ic_inv_fill_def Let_def)
  note sel = ic_fill_sel[OF assms(1) n, of i] and queue = ic_fill_queue[OF assms(1) f q']
  have refused: "ic_refused i x r = ic_fault ?y" using assms(1) r by (simp add: ic_refused_def sel)
  have fly: "agree D M (ic_pos x j) u \<Longrightarrow> agree ?D M (ic_pos x j) u" "agree D M (wi (ic_addr x)) u \<Longrightarrow> agree ?D M (wi (ic_addr x)) u"
    for j u using assms(1) wi_line[of "ic_addr x"]
    by (auto intro!: agree_in_flight simp: ic_in_flight_def ic_pos_def line_of_def)
  have hd: "ii_rsp i \<Longrightarrow> agree D M (ic_pos x ?n) (ii_data i)" using queue rsp by (auto simp: hd_conv_nth)
  note words = ic_fill_words[OF assms(1) f _ hd]
  have line: "agree ?D M (ic_pos x j) (ic_data ?y ?v ?k (of_nat j))" if "\<not> ic_fault ?y" "j < ?n'" for j
    using words(1) that fly(1) by blast
  have target: "agree ?D M (wi (ic_addr x)) (ic_target ?y)" if "\<not> ic_fault ?y" "unat (a_woff (ic_addr x)) < ?n'"
    using words(2) that fly(2) by blast
  note others = ic_fill_others[OF assms(1) n lines, of i] and spoilt = ic_fill_spoilt[OF assms(1) f, of i]
  show ?thesis
  proof (cases "?n' = 16")
    case False
    have "?n + length q' = ?n' + length ?q" using rsp by (cases q') auto
    then have "unat (ic_req_cnt ?y) = ?n' + length ?q" "unat (ic_req_cnt ?y) \<le> 16" using queue unfolding sel(3) by (metis, blast)
    moreover have "agree ?D M (ic_pos x (?n' + j)) (?q ! j)" if "j < length ?q" for j
    proof (rule fly(1))
      have "(if ii_rsp i then Suc j else j) < length q'" using that by (auto split: if_splits)
      then have "agree D M (ic_pos x (?n + (if ii_rsp i then Suc j else j))) (q' ! (if ii_rsp i then Suc j else j))"
        using queue by blast
      then show "agree D M (ic_pos x (?n' + j)) (?q ! j)" using that by (cases "ii_rsp i") (simp_all add: nth_tl)
    qed
    moreover have "?n' < 16" using False n by (simp split: if_splits)
    ultimately have "ic_inv_fill ?D M ?q ?y"
      unfolding ic_inv_fill_def Let_def sel(1,4,7,9) using line target spoilt by blast
    then show ?thesis using False others by (simp add: ic_inv_def ic_hole_def sel(2,4,7) refused)
  next
    case True
    then have rn: "ii_rsp i" "?n = 15" using n by (auto split: if_splits)
    have "agree ?D M (pos (ic_tag ?y ?v ?k) ?k o') (ic_data ?y ?v ?k o')" if "ic_valid ?y ?k ?v" for o'
    proof (cases "ic_fault ?y")
      case True then show ?thesis using spoilt that by (auto simp: agree_def)
    next
      case False
      then have "ic_tag ?y ?v ?k = a_tag (ic_addr x)" using sel(8) \<open>?n' = 16\<close> by (simp add: ic_sel(9) ic_tag_next_def Let_def)
      then show ?thesis using line[OF False, of "unat o'"] \<open>?n' = 16\<close> unsigned_less[of o', where 'a = nat] by (simp add: ic_pos_def)
    qed
    then have "ic_lines {} ?D M ?y" using others by (auto simp: ic_lines_def)
    moreover have "tl q' = []" using queue rn rsp by (cases q') auto
    moreover have "agree ?D M (wi (ic_addr x)) (ic_target ?y)" if "\<not> ic_fault ?y"
      using that True unsigned_less[of "a_woff (ic_addr x)", where 'a = nat] by (intro target) simp_all
    ultimately show ?thesis using True rn sel(6)
      by (cases "ic_fault ?y") (simp_all add: ic_inv_def ic_hole_def ic_inv_done_def ic_rsp_data_def sel(2,7) refused)
  qed
qed

section \<open>Every cycle\<close>

lemma isys_inv_next:
  assumes "isys_inv s" shows "isys_inv (isys_next i s)"
proof -
  let ?x = "is_cache s" and ?i = "is_ic_in i s"
  let ?q = "if ys_respond i then tl (is_queue i s) else is_queue i s"
  have inv: "ic_inv (is_refused s) (is_dirty s) (is_mem s) (is_q s) ?x" using assms by (simp add: isys_inv_def)
  have ii: "ii_ready ?i = ys_ready i" "ii_rsp ?i \<Longrightarrow> is_queue i s \<noteq> [] \<and> ii_data ?i = hd (is_queue i s)"
    "?q = (if ii_rsp ?i then tl (is_queue i s) else is_queue i s)"
    by (auto simp: is_ic_in_def)
  have e: "is_q s = []" "?q = []" if "ic_state ?x \<noteq> IC_FILL"
    using that inv by (auto simp: ic_inv_def is_queue_def ic_no_fill)
  have "ic_inv (ic_refused ?i ?x (is_refused s)) (ic_dirty ?i ?x (is_dirty s)) (is_mem s) ?q (icache_step False ?i ?x)"
  proof (cases "ic_state ?x")
    case IC_FILL
    then show ?thesis unfolding ii(3) using ii(2)
      by (intro ic_fill_step[OF IC_FILL inv]) (simp_all add: ii(1) is_queue_def split: option.split)
  qed (use e inv ic_idle_step ic_lookup_step ic_done_step in simp_all)
  then show ?thesis
    by (auto simp: isys_inv_def isys_next_def Let_def intro: ic_inv_store split: option.split)
qed

lemma isys_inv_reach: "isys_reach s \<Longrightarrow> isys_inv s"
proof (induction rule: isys_reach.induct)
  case (init x M)
  then show ?case by (simp add: isys_inv_def isys_init_def ic_inv_def ic_reset_def ic_lines_def)
qed (rule isys_inv_next)


section \<open>Progress\<close>

definition ic_rank :: "icache \<Rightarrow> nat" where
  "ic_rank x = (case ic_state x of IC_LOOKUP \<Rightarrow> 17 | IC_FILL \<Rightarrow> 16 - unat (ic_rsp_cnt x) | _ \<Rightarrow> 0)"

text \<open>A cycle with a memory that accepts and responds.\<close>

definition fetch_cycle :: "isys_in \<Rightarrow> bool" where
  "fetch_cycle i \<longleftrightarrow> ys_ready i \<and> ys_respond i"

lemma ic_rank_step:
  assumes "isys_inv s" "fetch_cycle i" "ic_state (is_cache s) = IC_LOOKUP \<or> ic_state (is_cache s) = IC_FILL"
  shows "ic_rank (is_cache (isys_next i s)) < ic_rank (is_cache s) \<and> ic_state (is_cache (isys_next i s)) \<noteq> IC_IDLE \<and>
    ic_state (is_cache (isys_next i s)) \<noteq> IC_LOOKUP"
proof -
  let ?x = "is_cache s" and ?i = "is_ic_in i s"
  have st: "is_cache (isys_next i s) = icache_step False ?i ?x" by (simp add: isys_next_def Let_def)
  show ?thesis
  proof (cases "ic_state ?x = IC_LOOKUP")
    case True
    then have "ic_next ?i ?x = ic_lookup ?x" by (simp add: ic_next_def)
    then show ?thesis using True unfolding st by (simp add: ic_sel ic_rank_def ic_lookup_def)
  next
    case False
    then have fill: "ic_state ?x = IC_FILL" using assms(3) by simp
    then have f: "ic_inv_fill (is_dirty s) (is_mem s) (is_q s) ?x" using assms(1) by (simp add: isys_inv_def ic_inv_def)
    note f = f[unfolded ic_inv_fill_def Let_def]
    have mr: "ic_mem_req ?x \<noteq> None \<longleftrightarrow> unat (ic_req_cnt ?x) < 16"
      using fill by (simp add: ic_mem_req_def LINE_WORDS_def word_less_nat_alt)
    have "is_queue i s \<noteq> []"
      using f mr assms(2) by (cases "is_q s = []") (auto simp: is_queue_def fetch_cycle_def split: option.split)
    then have "ii_rsp ?i" using assms(2) by (simp add: is_ic_in_def fetch_cycle_def)
    then have c: "ic_rsp_cnt (icache_step False ?i ?x) = ic_rsp_cnt ?x + 1"
      "ic_state (icache_step False ?i ?x) \<in> {IC_FILL, IC_DONE}"
      using fill by (simp_all add: ic_sel ic_next_def ic_fill_def Let_def)
    have "unat (ic_rsp_cnt ?x + 1) = Suc (unat (ic_rsp_cnt ?x))" using f by (simp add: unat_word_ariths)
    then show ?thesis using c f fill unfolding st by (auto simp: ic_rank_def)
  qed
qed

definition isys_run :: "isys_in list \<Rightarrow> isys \<Rightarrow> isys" where
  "isys_run is' s = fold isys_next is' s"

lemma reach_run: "isys_reach s \<Longrightarrow> isys_reach (isys_run ins s)"
  by (induction ins arbitrary: s) (simp_all add: isys_run_def isys_reach.step)

lemma fetch_answered:
  assumes "isys_reach s" "ic_state (is_cache s) = IC_LOOKUP \<or> ic_state (is_cache s) = IC_FILL \<or> ic_state (is_cache s) = IC_DONE"
    "ic_rank (is_cache s) \<le> length ins" "\<forall>i \<in> set ins. fetch_cycle i"
  shows "\<exists>k \<le> length ins. ic_rsp_valid (is_cache (isys_run (take k ins) s))"
  using assms
proof (induction ins arbitrary: s)
  case Nil
  then have "ic_state (is_cache s) = IC_DONE"
    using isys_inv_reach[OF Nil.prems(1)] by (auto simp: ic_rank_def isys_inv_def ic_inv_def ic_inv_fill_def Let_def)
  then show ?case by (simp add: isys_run_def ic_rsp_valid_def)
next
  case (Cons i ins)
  show ?case
  proof (cases "ic_state (is_cache s) = IC_DONE")
    case True
    then show ?thesis by (intro exI[of _ 0]) (simp add: isys_run_def ic_rsp_valid_def)
  next
    case False
    have "isys_reach (isys_next i s)" using Cons.prems(1) by (rule isys_reach.step)
    moreover have "ic_rank (is_cache (isys_next i s)) < ic_rank (is_cache s)" "ic_state (is_cache (isys_next i s)) \<noteq> IC_IDLE"
      using ic_rank_step[OF isys_inv_reach[OF Cons.prems(1)], of i] False Cons.prems(2,4) by auto
    ultimately obtain k where "k \<le> length ins" "ic_rsp_valid (is_cache (isys_run (take k ins) (isys_next i s)))"
      using Cons.IH[of "isys_next i s"] Cons.prems(3,4) by (cases "ic_state (is_cache (isys_next i s))") auto
    then show ?thesis by (intro exI[of _ "Suc k"]) (simp add: isys_run_def)
  qed
qed

section \<open>Where the pulse and the faults fall short\<close>

text \<open>
  A line whose fill completes in the cycle of the pulse is valid afterwards, though its words were read
  before: the pulse does not reach a fetch in flight.
\<close>

lemma pulse_misses_fill:
  assumes "ic_filled i x" "ii_inval i"
  shows "ic_valid (icache_step False i x) (a_idx (ic_addr x)) (ic_victim x) \<and>
    ic_tag (icache_step False i x) (ic_victim x) (a_idx (ic_addr x)) = a_tag (ic_addr x)"
  using assms by (simp add: ic_sel ic_valid_next_def ic_tag_next_def Let_def)

text \<open>
  A pulse in the middle of a fill has no effect on it: the next state of the machine does not depend on it.
\<close>

lemma pulse_keeps_fill: "ic_fill (i\<lparr>ii_inval := b\<rparr>) x = ic_fill i x"
  by (simp add: ic_fill_def)

text \<open>
  A request in the cycle of the pulse is taken although ready is low, and looks at the old valid bits.
\<close>

lemma pulse_accepts_request:
  assumes "ic_state x = IC_IDLE" "ii_req i = Some a" "ii_inval i"
  shows "\<not> ic_req_ready i x \<and> ic_state (icache_step False i x) = IC_LOOKUP \<and> ic_addr (icache_step False i x) = a \<and>
    ic_valid_rd (icache_step False i x) = ic_valid x (a_idx a)"
  using assms by (simp add: ic_req_ready_def ic_sel ic_next_def ic_accept_def)

text \<open>
  A fill that faults has already written its earlier words over the victim's, whose tag stays valid: the old
  line answers with the words of another.
\<close>

lemma faulting_fill_corrupts:
  assumes "ic_word_in i x" "\<not> ic_filled i x" "\<not> ii_inval i" "ic_valid x (a_idx (ic_addr x)) (ic_victim x)"
  shows "ic_valid (icache_step False i x) (a_idx (ic_addr x)) (ic_victim x) \<and>
    ic_tag (icache_step False i x) (ic_victim x) (a_idx (ic_addr x)) = ic_tag x (ic_victim x) (a_idx (ic_addr x)) \<and>
    ic_data (icache_step False i x) (ic_victim x) (a_idx (ic_addr x)) (fld 0 (ic_rsp_cnt x)) = ii_data i"
  using assms by (simp add: ic_sel ic_valid_next_def ic_tag_next_def ic_data_next_def put3_apply)

section \<open>Properties\<close>

text \<open>
  C13. The instruction cache is coherent up to FENCE.I, whatever memory does and whenever the pulse comes: a response
  is a fault exactly when memory has refused a word of its fetch, and any other is the word that memory holds, unless
  that word is dirty. Dirty are the words stored to, until a pulse comes with no fetch in flight and none offered (a
  pulse during a fetch leaves those of its line dirty: it does not reach it), and the words of a valid line that a
  refused fill was to replace, until such a pulse.
\<close>
theorem icache_coherent:
  assumes "isys_reach s" "ic_rsp_valid (is_cache s)"
  shows "ic_rsp_fault (is_cache s) = is_refused s \<and>
    (\<not> ic_rsp_fault (is_cache s) \<and> wi (ic_addr (is_cache s)) \<notin> is_dirty s \<longrightarrow>
      ic_rsp_data (is_cache s) = is_mem s (wi (ic_addr (is_cache s))))"
  using isys_inv_reach[OF assms(1)] assms(2)
  by (auto simp: isys_inv_def ic_inv_def ic_rsp_valid_def ic_rsp_fault_def ic_inv_done_def agree_def)

definition ic_cold :: icache where
  "ic_cold = \<lparr>ic_tag = (\<lambda>_ _. 0), ic_data = (\<lambda>_ _ _. 0), ic_valid = (\<lambda>_ _. False), ic_plru = (\<lambda>_. 0),
     ic_state = IC_IDLE, ic_addr = 0, ic_req_cnt = 0, ic_rsp_cnt = 0, ic_victim = 0, ic_fault = False,
     ic_rsp_hit = False, ic_rsp_way = 0, ic_target = 0, ic_tag_rd = (\<lambda>_. 0), ic_valid_rd = (\<lambda>_. False),
     ic_data_rd = (\<lambda>_. 0)\<rparr>"

definition fetch_in :: "u32 option \<Rightarrow> isys_in" where
  "fetch_in a = \<lparr>ys_req = a, ys_inval = False, ys_ready = True, ys_respond = True, ys_fault = False, ys_store = None\<rparr>"

definition fetch_ins :: "nat \<Rightarrow> isys_in list" where
  "fetch_ins k = fetch_in (Some 0x80000040) # take k (replicate 17 (fetch_in None))"

lemma quiet_fetch:
  assumes "\<forall>i \<in> set ins. i = fetch_in None \<or> i = fetch_in (Some a)" "is_dirty s = {}" "\<not> is_refused s"
  shows "is_mem (isys_run ins s) = is_mem s \<and> is_dirty (isys_run ins s) = {} \<and> \<not> is_refused (isys_run ins s)"
  using assms
proof (induction ins arbitrary: s)
  case (Cons i ins)
  obtain b where i: "i = fetch_in b" using Cons.prems(1) by auto
  have "is_mem (isys_next i s) = is_mem s" "is_dirty (isys_next i s) = {}" "\<not> is_refused (isys_next i s)"
    using Cons.prems(2,3)
    by (simp_all add: i isys_next_def fetch_in_def Let_def ic_dirty_def ic_spoilt_def ic_refused_def is_ic_in_def)
  then show ?case using Cons by (simp add: isys_run_def)
qed (simp add: isys_run_def)

lemma icache_coherent_witness:
  "\<exists>k \<le> 17. ic_rsp_valid (is_cache (isys_run (fetch_ins k) (isys_init ic_cold const_mem))) \<and>
    ic_rsp_data (is_cache (isys_run (fetch_ins k) (isys_init ic_cold const_mem))) = 0x11223344"
proof -
  let ?s = "isys_init ic_cold const_mem" and ?i = "fetch_in (Some 0x80000040)"
  let ?ins = "replicate 17 (fetch_in None)"
  have fc: "fetch_cycle (fetch_in a)" for a by (simp add: fetch_cycle_def fetch_in_def)
  have r: "isys_reach (isys_next ?i ?s)" by (intro isys_reach.intros)
  have st: "ic_state (is_cache (isys_next ?i ?s)) = IC_LOOKUP"
    by (simp add: isys_next_def Let_def ic_sel ic_next_def ic_accept_def isys_init_def ic_reset_def is_ic_in_def fetch_in_def)
  obtain k where k: "k \<le> 17" "ic_rsp_valid (is_cache (isys_run (take k ?ins) (isys_next ?i ?s)))"
    using fetch_answered[OF r, of ?ins] st fc by (auto simp: ic_rank_def)
  have eq: "isys_run (fetch_ins k) ?s = isys_run (take k ?ins) (isys_next ?i ?s)"
    by (simp add: fetch_ins_def isys_run_def)
  have "\<forall>i \<in> set (fetch_ins k). i = fetch_in None \<or> i = ?i" by (auto simp: fetch_ins_def dest: in_set_takeD)
  then have q: "is_mem (isys_run (fetch_ins k) ?s) = const_mem \<and> is_dirty (isys_run (fetch_ins k) ?s) = {} \<and>
    \<not> is_refused (isys_run (fetch_ins k) ?s)"
    using quiet_fetch[of "fetch_ins k" "0x80000040" ?s] by (simp add: isys_init_def)
  have v: "ic_rsp_valid (is_cache (isys_run (fetch_ins k) ?s))" using k(2) by (simp only: eq)
  have "ic_rsp_data (is_cache (isys_run (fetch_ins k) ?s)) = 0x11223344"
    using icache_coherent[OF reach_run[OF isys_reach.init] v] q by (simp add: const_mem_def)
  then show ?thesis using k(1) v by blast
qed

end
