(* ===== verification/Axi.thy ===== *)
theory Axi
  imports Axil "HOL-Library.Sublist"
begin

text \<open>
  The external bus: the AXI4 master shim (\<open>rtl/soc/axi4_master.sv\<close>), the two simulation routers
  (\<open>rtl/mem/axi4_router_1x2.sv\<close>, \<open>rtl/mem/axi4_router_linux.sv\<close>), and the path of the Linux test
  bench (\<open>rtl/soc/soc_tb_linux.sv\<close>) from the shim through the router to the DDR and the UartLite.
  The constant AXI attributes (id, length, size, burst, cache, protection) are not represented.
\<close>

section \<open>axi4_master\<close>

datatype axim_fsm = AX_IDLE | AX_WRITE | AX_WRITE_B | AX_READ | AX_READ_R

record axim =
  xm_state :: axim_fsm
  xm_addr :: u32
  xm_wdata :: u32
  xm_wmask :: "4 word"
  xm_aw_sent :: bool
  xm_w_sent :: bool
  xm_rsp_valid :: bool
  xm_rsp_fault :: bool
  xm_rsp_rdata :: u32
  xm_cooldown :: "4 word"

text \<open>What the master drives, and what comes back.\<close>

record axi_out =
  xo_awvalid :: bool
  xo_awaddr :: u32
  xo_wvalid :: bool
  xo_wdata :: u32
  xo_wstrb :: "4 word"
  xo_bready :: bool
  xo_arvalid :: bool
  xo_araddr :: u32
  xo_rready :: bool

record axi_back =
  xb_awready :: bool
  xb_wready :: bool
  xb_bvalid :: bool
  xb_bresp :: "2 word"
  xb_arready :: bool
  xb_rvalid :: bool
  xb_rdata :: u32
  xb_rresp :: "2 word"

definition axim_req_ready :: "axim \<Rightarrow> bool" where
  "axim_req_ready x = (xm_state x = AX_IDLE \<and> \<not> xm_rsp_valid x \<and> xm_cooldown x = 0)"

definition axim_out :: "axim \<Rightarrow> axi_out" where
  "axim_out x =
     \<lparr>xo_awvalid = (xm_state x = AX_WRITE \<and> \<not> xm_aw_sent x), xo_awaddr = xm_addr x,
      xo_wvalid = (xm_state x = AX_WRITE \<and> \<not> xm_w_sent x), xo_wdata = xm_wdata x, xo_wstrb = xm_wmask x,
      xo_bready = (xm_state x = AX_WRITE_B), xo_arvalid = (xm_state x = AX_READ), xo_araddr = xm_addr x,
      xo_rready = (xm_state x = AX_READ_R)\<rparr>"

definition axim_reset :: axim where
  "axim_reset =
     \<lparr>xm_state = AX_IDLE, xm_addr = 0, xm_wdata = 0, xm_wmask = 0, xm_aw_sent = False, xm_w_sent = False,
      xm_rsp_valid = False, xm_rsp_fault = False, xm_rsp_rdata = 0, xm_cooldown = 0\<rparr>"

definition axim_respond :: "u32 \<Rightarrow> 2 word \<Rightarrow> axim \<Rightarrow> axim" where
  "axim_respond d resp x =
     x\<lparr>xm_rsp_valid := True, xm_rsp_rdata := d, xm_rsp_fault := resp \<noteq> 0, xm_state := AX_IDLE, xm_cooldown := 8\<rparr>"

definition axim_next :: "bus_req \<Rightarrow> axi_back \<Rightarrow> axim \<Rightarrow> axim" where
  "axim_next r b x =
     (let y = x\<lparr>xm_rsp_valid := False, xm_rsp_fault := False,
                xm_cooldown := (if xm_cooldown x \<noteq> 0 then xm_cooldown x - 1 else xm_cooldown x)\<rparr>;
          aw = xo_awvalid (axim_out x) \<and> xb_awready b; w = xo_wvalid (axim_out x) \<and> xb_wready b in
      case xm_state x of
        AX_IDLE \<Rightarrow>
          if rq_valid r \<and> axim_req_ready x
          then y\<lparr>xm_addr := rq_addr r, xm_wdata := rq_wdata r, xm_wmask := rq_wmask r, xm_aw_sent := False,
                 xm_w_sent := False, xm_state := if rq_wen r then AX_WRITE else AX_READ\<rparr>
          else y
      | AX_WRITE \<Rightarrow>
          y\<lparr>xm_aw_sent := xm_aw_sent x \<or> aw, xm_w_sent := xm_w_sent x \<or> w,
            xm_state := if (xm_aw_sent x \<or> aw) \<and> (xm_w_sent x \<or> w) then AX_WRITE_B else AX_WRITE\<rparr>
      | AX_WRITE_B \<Rightarrow> if xb_bvalid b then axim_respond 0 (xb_bresp b) y else y
      | AX_READ \<Rightarrow> if xb_arready b then y\<lparr>xm_state := AX_READ_R\<rparr> else y
      | AX_READ_R \<Rightarrow> if xb_rvalid b then axim_respond (xb_rdata b) (xb_rresp b) y else y)"

definition axim_step :: "bool \<Rightarrow> bus_req \<Rightarrow> axi_back \<Rightarrow> axim \<Rightarrow> axim" where
  "axim_step rst r b x = (if rst then axim_reset else axim_next r b x)"

section \<open>The routers\<close>

text \<open>What an AXI4-Lite slave drives.\<close>

record lite_out =
  lo_awready :: bool
  lo_wready :: bool
  lo_bvalid :: bool
  lo_bresp :: "2 word"
  lo_arready :: bool
  lo_rvalid :: bool
  lo_rdata :: u32
  lo_rresp :: "2 word"

record router =
  rt_sel_w :: "2 word"
  rt_sel_r :: "2 word"
  rt_sel_w_valid :: bool
  rt_sel_r_valid :: bool
  rt_d_aw :: bool
  rt_d_w :: bool
  rt_d_b :: bool
  rt_d_ar :: bool
  rt_d_r :: bool

text \<open>The two routers differ in their decoder only: 0 and 1 are slaves, 2 is unmapped.\<close>

definition decode_1x2 :: "u32 \<Rightarrow> 2 word" where
  "decode_1x2 a =
     (if fld 16 a \<noteq> (0xC000 :: 16 word) then 2
      else if fld 13 a \<noteq> (0 :: 3 word) then 2
      else word_cat (0 :: 1 word) (fld 12 a :: 1 word))"

definition decode_linux :: "u32 \<Rightarrow> 2 word" where
  "decode_linux a = (let n = fld 28 a :: 4 word in if n = 4 then 0 else if n = 0xC then 1 else 2)"

definition rt_reset :: router where
  "rt_reset =
     \<lparr>rt_sel_w = 0, rt_sel_r = 0, rt_sel_w_valid = False, rt_sel_r_valid = False, rt_d_aw = False, rt_d_w = False,
      rt_d_b = False, rt_d_ar = False, rt_d_r = False\<rparr>"

definition rt_sel_w_eff :: "(u32 \<Rightarrow> 2 word) \<Rightarrow> axi_out \<Rightarrow> router \<Rightarrow> 2 word" where
  "rt_sel_w_eff decode m x = (if rt_sel_w_valid x then rt_sel_w x else decode (xo_awaddr m))"

definition rt_pick :: "2 word \<Rightarrow> 'a \<Rightarrow> 'a \<Rightarrow> 'a \<Rightarrow> 'a" where
  "rt_pick k a0 a1 ad = (if k = 0 then a0 else if k = 1 then a1 else ad)"

text \<open>The answer to the master.\<close>

definition rt_back :: "(u32 \<Rightarrow> 2 word) \<Rightarrow> axi_out \<Rightarrow> lite_out \<Rightarrow> lite_out \<Rightarrow> router \<Rightarrow> axi_back" where
  "rt_back decode m s0 s1 x =
     \<lparr>xb_awready = rt_pick (decode (xo_awaddr m)) (lo_awready s0) (lo_awready s1) (\<not> rt_d_aw x),
      xb_wready = rt_pick (rt_sel_w_eff decode m x) (lo_wready s0) (lo_wready s1) (\<not> rt_d_w x),
      xb_bvalid = (rt_sel_w_valid x \<and> rt_pick (rt_sel_w x) (lo_bvalid s0) (lo_bvalid s1) (rt_d_b x)),
      xb_bresp = (if rt_sel_w_valid x then rt_pick (rt_sel_w x) (lo_bresp s0) (lo_bresp s1) 3 else 0),
      xb_arready = rt_pick (decode (xo_araddr m)) (lo_arready s0) (lo_arready s1) (\<not> rt_d_ar x),
      xb_rvalid = (rt_sel_r_valid x \<and> rt_pick (rt_sel_r x) (lo_rvalid s0) (lo_rvalid s1) (rt_d_r x)),
      xb_rdata = (if rt_sel_r_valid x then rt_pick (rt_sel_r x) (lo_rdata s0) (lo_rdata s1) 0 else 0),
      xb_rresp = (if rt_sel_r_valid x then rt_pick (rt_sel_r x) (lo_rresp s0) (lo_rresp s1) 3 else 0)\<rparr>"

text \<open>What slave \<open>k\<close> sees.\<close>

definition rt_lite :: "bool \<Rightarrow> (u32 \<Rightarrow> 2 word) \<Rightarrow> axi_out \<Rightarrow> 2 word \<Rightarrow> router \<Rightarrow> axil_in" where
  "rt_lite rst decode m k x =
     \<lparr>ax_rst = rst,
      ax_awvalid = (xo_awvalid m \<and> decode (xo_awaddr m) = k), ax_awaddr = xo_awaddr m,
      ax_wvalid = (xo_wvalid m \<and> rt_sel_w_eff decode m x = k), ax_wdata = xo_wdata m, ax_wstrb = xo_wstrb m,
      ax_bready = (rt_sel_w_valid x \<and> rt_sel_w x = k \<and> xo_bready m),
      ax_arvalid = (xo_arvalid m \<and> decode (xo_araddr m) = k), ax_araddr = xo_araddr m,
      ax_rready = (rt_sel_r_valid x \<and> rt_sel_r x = k \<and> xo_rready m)\<rparr>"

text \<open>The stub that answers unmapped addresses, and the selection registers.\<close>

definition rt_stub :: "(u32 \<Rightarrow> 2 word) \<Rightarrow> axi_out \<Rightarrow> router \<Rightarrow> router" where
  "rt_stub decode m x =
     (let b_ack = rt_d_b x \<and> xo_bready m \<and> rt_sel_w x = 2; r_ack = rt_d_r x \<and> xo_rready m \<and> rt_sel_r x = 2 in
      x\<lparr>rt_d_aw := \<not> b_ack \<and> (rt_d_aw x \<or> xo_awvalid m \<and> decode (xo_awaddr m) = 2),
        rt_d_w := \<not> b_ack \<and> (rt_d_w x \<or> xo_wvalid m \<and> rt_sel_w_eff decode m x = 2),
        rt_d_b := \<not> b_ack \<and> (rt_d_b x \<or> rt_d_aw x \<and> rt_d_w x),
        rt_d_ar := \<not> r_ack \<and> (rt_d_ar x \<or> xo_arvalid m \<and> decode (xo_araddr m) = 2),
        rt_d_r := \<not> r_ack \<and> (rt_d_r x \<or> rt_d_ar x)\<rparr>)"

definition rt_select :: "(u32 \<Rightarrow> 2 word) \<Rightarrow> axi_out \<Rightarrow> axi_back \<Rightarrow> router \<Rightarrow> router" where
  "rt_select decode m b x =
     (let aw = xo_awvalid m \<and> xb_awready b; bk = xb_bvalid b \<and> xo_bready m;
          ar = xo_arvalid m \<and> xb_arready b; rk = xb_rvalid b \<and> xo_rready m in
      x\<lparr>rt_sel_w := (if aw then decode (xo_awaddr m) else rt_sel_w x),
        rt_sel_w_valid := (if aw then True else if bk then False else rt_sel_w_valid x),
        rt_sel_r := (if ar then decode (xo_araddr m) else rt_sel_r x),
        rt_sel_r_valid := (if ar then True else if rk then False else rt_sel_r_valid x)\<rparr>)"

definition router_step :: "bool \<Rightarrow> (u32 \<Rightarrow> 2 word) \<Rightarrow> axi_out \<Rightarrow> lite_out \<Rightarrow> lite_out \<Rightarrow> router \<Rightarrow> router" where
  "router_step rst decode m s0 s1 x =
     (if rst then rt_reset
      else let d = rt_stub decode m x; s = rt_select decode m (rt_back decode m s0 s1 x) x in
        s\<lparr>rt_d_aw := rt_d_aw d, rt_d_w := rt_d_w d, rt_d_b := rt_d_b d, rt_d_ar := rt_d_ar d, rt_d_r := rt_d_r d\<rparr>)"

end
