(* ===== verification/Axi_Path.thy ===== *)
theory Axi_Path
  imports Axi
begin

text \<open>
  The AXI4 master shim over an arbitrary slave (every request goes out once, every answer comes back
  once, the cooldown), and the whole external bus of the Linux test bench, which implements a memory and a
  console.
\<close>

unbundle bit_operations_syntax

section \<open>The shim over any AXI slave\<close>

type_synonym axim_input = "bus_req \<times> axi_back"

definition axim_clock :: "axim_input \<Rightarrow> axim \<Rightarrow> axim" where
  "axim_clock i x = axim_step False (fst i) (snd i) x"

definition axim_run :: "axim_input list \<Rightarrow> axim \<Rightarrow> axim" where
  "axim_run ins x = fold axim_clock ins x"

text \<open>What a run records: \<open>f\<close> gives the events of a cycle.\<close>

fun axim_log :: "(axim \<Rightarrow> axim_input \<Rightarrow> 'a list) \<Rightarrow> axim_input list \<Rightarrow> axim \<Rightarrow> 'a list" where
  "axim_log f [] x = []"
| "axim_log f (i # ins) x = f x i @ axim_log f ins (axim_clock i x)"

definition ev_accept :: "axim \<Rightarrow> axim_input \<Rightarrow> bus_req list" where
  "ev_accept x i = (if rq_valid (fst i) \<and> axim_req_ready x then [fst i] else [])"

definition ev_aw :: "axim \<Rightarrow> axim_input \<Rightarrow> u32 list" where
  "ev_aw x i = (if xo_awvalid (axim_out x) \<and> xb_awready (snd i) then [xo_awaddr (axim_out x)] else [])"

definition ev_w :: "axim \<Rightarrow> axim_input \<Rightarrow> (u32 \<times> 4 word) list" where
  "ev_w x i = (if xo_wvalid (axim_out x) \<and> xb_wready (snd i) then [(xo_wdata (axim_out x), xo_wstrb (axim_out x))] else [])"

definition ev_ar :: "axim \<Rightarrow> axim_input \<Rightarrow> u32 list" where
  "ev_ar x i = (if xo_arvalid (axim_out x) \<and> xb_arready (snd i) then [xo_araddr (axim_out x)] else [])"

definition ev_answer :: "axim \<Rightarrow> axim_input \<Rightarrow> (u32 \<times> bool) list" where
  "ev_answer x i =
     (if xo_bready (axim_out x) \<and> xb_bvalid (snd i) then [(0, xb_bresp (snd i) \<noteq> 0)]
      else if xo_rready (axim_out x) \<and> xb_rvalid (snd i) then [(xb_rdata (snd i), xb_rresp (snd i) \<noteq> 0)] else [])"

definition ev_rsp :: "axim \<Rightarrow> axim_input \<Rightarrow> (u32 \<times> bool) list" where
  "ev_rsp x i = (if xm_rsp_valid x then [(xm_rsp_rdata x, xm_rsp_fault x)] else [])"

lemma log_conserved:
  assumes "\<And>x i. P x @ g x i = f x i @ P (axim_clock i x)"
  shows "P x @ axim_log g ins x = axim_log f ins x @ P (axim_run ins x)"
proof (induction ins arbitrary: x)
  case (Cons i ins)
  have "P x @ axim_log g (i # ins) x = (P x @ g x i) @ axim_log g ins (axim_clock i x)" by simp
  then show ?case using assms[of x i] Cons.IH[of "axim_clock i x"] by (simp add: axim_run_def)
qed (simp add: axim_run_def)

lemma log_map: "axim_log (\<lambda>x i. map h (filter p (g x i))) ins x = map h (filter p (axim_log g ins x))"
  by (induction ins arbitrary: x) simp_all

definition left_aw :: "axim \<Rightarrow> u32 list" where
  "left_aw x = (if xm_state x = AX_WRITE \<and> \<not> xm_aw_sent x then [xm_addr x] else [])"
definition left_w :: "axim \<Rightarrow> (u32 \<times> 4 word) list" where
  "left_w x = (if xm_state x = AX_WRITE \<and> \<not> xm_w_sent x then [(xm_wdata x, xm_wmask x)] else [])"
definition left_ar :: "axim \<Rightarrow> u32 list" where
  "left_ar x = (if xm_state x = AX_READ then [xm_addr x] else [])"

lemmas axim_defs = axim_clock_def axim_step_def axim_next_def axim_out_def axim_respond_def ev_accept_def ev_aw_def
  ev_w_def ev_ar_def ev_answer_def ev_rsp_def left_aw_def left_w_def left_ar_def axim_req_ready_def Let_def

lemma aw_conserved: "left_aw x @ map rq_addr (filter rq_wen (ev_accept x i)) = ev_aw x i @ left_aw (axim_clock i x)"
  by (cases "xm_state x") (simp_all add: axim_defs)

lemma w_conserved:
  "left_w x @ map (\<lambda>r. (rq_wdata r, rq_wmask r)) (filter rq_wen (ev_accept x i)) = ev_w x i @ left_w (axim_clock i x)"
  by (cases "xm_state x") (simp_all add: axim_defs)

lemma ar_conserved:
  "left_ar x @ map rq_addr (filter (\<lambda>r. \<not> rq_wen r) (ev_accept x i)) = ev_ar x i @ left_ar (axim_clock i x)"
  by (cases "xm_state x") (simp_all add: axim_defs)

lemma rsp_conserved: "ev_rsp x i @ ev_answer x i = ev_rsp x i @ ev_rsp (axim_clock i x) i'"
  by (cases "xm_state x") (simp_all add: axim_defs)

definition busy :: "axim \<Rightarrow> unit list" where "busy x = (if xm_state x = AX_IDLE then [] else [()])"

lemma busy_conserved:
  "busy x @ map (\<lambda>r. ()) (ev_accept x i) = map (\<lambda>a. ()) (ev_answer x i) @ busy (axim_clock i x)"
  by (cases "xm_state x") (simp_all add: axim_defs busy_def)

text \<open>AXI's stability rule: what is offered and not taken is offered again, unchanged.\<close>

lemma axim_stable:
  assumes "y = axim_clock i x"
  shows "xo_awvalid (axim_out x) \<and> \<not> xb_awready (snd i) \<longrightarrow> xo_awvalid (axim_out y) \<and> xo_awaddr (axim_out y) = xo_awaddr (axim_out x)"
    and "xo_wvalid (axim_out x) \<and> \<not> xb_wready (snd i) \<longrightarrow>
      xo_wvalid (axim_out y) \<and> xo_wdata (axim_out y) = xo_wdata (axim_out x) \<and> xo_wstrb (axim_out y) = xo_wstrb (axim_out x)"
    and "xo_arvalid (axim_out x) \<and> \<not> xb_arready (snd i) \<longrightarrow> xo_arvalid (axim_out y) \<and> xo_araddr (axim_out y) = xo_araddr (axim_out x)"
  unfolding assms by (cases "xm_state x"; simp add: axim_defs)+

section \<open>The cooldown\<close>

definition axim_inv :: "axim \<Rightarrow> bool" where
  "axim_inv x \<longleftrightarrow> (xm_rsp_valid x \<longrightarrow> xm_state x = AX_IDLE \<and> xm_cooldown x = 8)"

lemma axim_inv_step: "axim_inv x \<Longrightarrow> axim_inv (axim_clock i x)"
  by (cases "xm_state x") (simp_all add: axim_inv_def axim_defs)

lemma axim_inv_run: "axim_inv x \<Longrightarrow> axim_inv (axim_run ins x)"
  by (induction ins arbitrary: x) (simp_all add: axim_run_def axim_inv_step)

lemma cooling:
  assumes "xm_state x = AX_IDLE" "unat (xm_cooldown x) = n" "0 < n" "n \<le> 8"
  shows "xm_state (axim_clock i x) = AX_IDLE \<and> unat (xm_cooldown (axim_clock i x)) = n - 1 \<and> \<not> xm_rsp_valid (axim_clock i x)"
proof -
  have "xm_cooldown x \<noteq> 0" using assms(2,3) by auto
  then have "unat (xm_cooldown x - 1) = n - 1" using assms(2) by (simp add: unat_minus_one)
  then show ?thesis using assms \<open>xm_cooldown x \<noteq> 0\<close> by (simp add: axim_defs)
qed

lemma cooling_run:
  assumes "xm_state x = AX_IDLE" "unat (xm_cooldown x) = n" "n \<le> 8" "length ins \<le> n"
  shows "xm_state (axim_run ins x) = AX_IDLE \<and> unat (xm_cooldown (axim_run ins x)) = n - length ins \<and>
    (ins \<noteq> [] \<longrightarrow> \<not> xm_rsp_valid (axim_run ins x))"
  using assms
proof (induction ins arbitrary: x n)
  case (Cons i ins)
  note c = cooling[OF Cons.prems(1,2) _ Cons.prems(3), of i]
  show ?case using Cons.IH[of "axim_clock i x" "n - 1"] c Cons.prems
    by (cases ins) (auto simp: axim_run_def)
qed (simp add: axim_run_def)


section \<open>The external bus of the Linux test bench\<close>

record axpath =
  ap_axim :: axim
  ap_rt :: router
  ap_ddr :: bram
  ap_uart :: uartlite

definition ddr_out :: "bram \<Rightarrow> lite_out" where
  "ddr_out s = \<lparr>lo_awready = bram_awready s, lo_wready = bram_wready s, lo_bvalid = br_bvalid s, lo_bresp = 0,
     lo_arready = bram_arready s, lo_rvalid = br_rvalid s, lo_rdata = br_rdata s, lo_rresp = 0\<rparr>"

definition uart_out :: "uartlite \<Rightarrow> lite_out" where
  "uart_out s = \<lparr>lo_awready = (\<not> ul_aw_hs s), lo_wready = (\<not> ul_w_hs s), lo_bvalid = ul_bvalid s, lo_bresp = 0,
     lo_arready = (\<not> ul_ar_hs s), lo_rvalid = ul_rvalid s, lo_rdata = ul_rdata s, lo_rresp = 0\<rparr>"

definition axpath_step :: "bool \<Rightarrow> bus_req \<Rightarrow> axpath \<Rightarrow> axpath" where
  "axpath_step rst r p =
     (let m = axim_out (ap_axim p); s0 = ddr_out (ap_ddr p); s1 = uart_out (ap_uart p); x = ap_rt p in
      \<lparr>ap_axim = axim_step rst r (rt_back decode_linux m s0 s1 x) (ap_axim p),
       ap_rt = router_step rst decode_linux m s0 s1 x,
       ap_ddr = axil_bram_big (ap_ddr p) (rt_lite rst decode_linux m 0 x),
       ap_uart = uartlite_step (ap_uart p) (rt_lite rst decode_linux m 1 x)\<rparr>)"

definition axpath_run :: "bus_req list \<Rightarrow> axpath \<Rightarrow> axpath" where
  "axpath_run rs p = fold (axpath_step False) rs p"

text \<open>What the client can rely on: the memory, the console, and the meaning of a request.\<close>

record ext_mem =
  em_mem :: memory
  em_printed :: "u8 list"
  em_uart_ie :: bool

definition ext_request :: "bus_req \<Rightarrow> ext_mem \<Rightarrow> ext_mem" where
  "ext_request r s =
     (let k = bram_index (rq_addr r); off = fld 0 (rq_addr r) :: 4 word; lane0 = bit (rq_wmask r) 0 in
      if \<not> rq_wen r then s
      else if decode_linux (rq_addr r) = 0
      then s\<lparr>em_mem := (em_mem s)(k := apply_wmask (em_mem s k) (rq_wdata r) (rq_wmask r))\<rparr>
      else if decode_linux (rq_addr r) = 1
      then s\<lparr>em_printed := (if off = 4 \<and> lane0 then em_printed s @ [fld 0 (rq_wdata r)] else em_printed s),
             em_uart_ie := (if off = 0xC \<and> lane0 then bit (rq_wdata r) 4 else em_uart_ie s)\<rparr>
      else s)"

definition ext_data :: "bus_req \<Rightarrow> ext_mem \<Rightarrow> u32" where
  "ext_data r s =
     (if \<not> rq_wen r \<and> decode_linux (rq_addr r) = 0 then em_mem s (bram_index (rq_addr r)) else 0)"

definition ext_fault :: "bus_req \<Rightarrow> bool" where "ext_fault r \<longleftrightarrow> decode_linux (rq_addr r) = 2"

definition ext_abs :: "axpath \<Rightarrow> ext_mem" where
  "ext_abs p = \<lparr>em_mem = br_mem (ap_ddr p), em_printed = ul_printed (ap_uart p), em_uart_ie = ul_ctrl_ie (ap_uart p)\<rparr>"

definition path_quiet :: "axpath \<Rightarrow> bool" where
  "path_quiet p \<longleftrightarrow> xm_state (ap_axim p) = AX_IDLE \<and>
     \<not> rt_sel_w_valid (ap_rt p) \<and> \<not> rt_sel_r_valid (ap_rt p) \<and> \<not> rt_d_aw (ap_rt p) \<and> \<not> rt_d_w (ap_rt p) \<and>
     \<not> rt_d_b (ap_rt p) \<and> \<not> rt_d_ar (ap_rt p) \<and> \<not> rt_d_r (ap_rt p) \<and>
     \<not> br_aw_hs (ap_ddr p) \<and> \<not> br_w_hs (ap_ddr p) \<and> \<not> br_bvalid (ap_ddr p) \<and> \<not> br_ar_hs (ap_ddr p) \<and>
     \<not> br_rvalid (ap_ddr p) \<and> \<not> ul_aw_hs (ap_uart p) \<and> \<not> ul_w_hs (ap_uart p) \<and> \<not> ul_bvalid (ap_uart p) \<and>
     \<not> ul_ar_hs (ap_uart p) \<and> \<not> ul_rvalid (ap_uart p)"

lemma decode_linux_cases: "decode_linux a = 0 \<or> decode_linux a = 1 \<or> decode_linux a = 2"
  by (simp add: decode_linux_def Let_def)

lemma reset_quiet: "path_quiet (axpath_step True r p)"
  by (simp add: path_quiet_def axpath_step_def Let_def axim_step_def axim_reset_def router_step_def rt_reset_def
      axil_bram_big_def bram_step_def bram_write_step_def bram_read_step_def uartlite_step_def
      uartlite_write_step_def uartlite_read_step_def rt_lite_def)

lemma quiet_idle:
  assumes "path_quiet p" "\<not> (rq_valid r \<and> axim_req_ready (ap_axim p))"
  shows "path_quiet (axpath_step False r p) \<and> ext_abs (axpath_step False r p) = ext_abs p"
  using assms
  by (auto simp: path_quiet_def axpath_step_def Let_def axim_step_def axim_next_def axim_out_def router_step_def
      rt_stub_def rt_select_def axil_bram_big_def bram_step_def bram_write_step_def bram_read_step_def
      uartlite_step_def uartlite_write_step_def uartlite_read_step_def rt_lite_def rt_sel_w_eff_def ext_abs_def)


text \<open>The four cycles of a transaction: requested, at the slave, answered, delivered.\<close>

definition ph_requested :: "bus_req \<Rightarrow> axpath \<Rightarrow> bool" where
  "ph_requested r p \<longleftrightarrow> path_quiet (p\<lparr>ap_axim := (ap_axim p)\<lparr>xm_state := AX_IDLE\<rparr>\<rparr>) \<and>
     xm_state (ap_axim p) = (if rq_wen r then AX_WRITE else AX_READ) \<and> xm_addr (ap_axim p) = rq_addr r \<and>
     xm_wdata (ap_axim p) = rq_wdata r \<and> xm_wmask (ap_axim p) = rq_wmask r \<and>
     \<not> xm_aw_sent (ap_axim p) \<and> \<not> xm_w_sent (ap_axim p)"

definition ph_routed :: "bool \<Rightarrow> bus_req \<Rightarrow> axpath \<Rightarrow> bool" where
  "ph_routed ans r p \<longleftrightarrow> (let k = decode_linux (rq_addr r); w = rq_wen r; x = ap_rt p; d = ap_ddr p; u = ap_uart p in
     xm_state (ap_axim p) = (if w then AX_WRITE_B else AX_READ_R) \<and>
     rt_sel_w_valid x = w \<and> rt_sel_r_valid x = (\<not> w) \<and> (w \<longrightarrow> rt_sel_w x = k) \<and> (\<not> w \<longrightarrow> rt_sel_r x = k) \<and>
     rt_d_aw x = (w \<and> k = 2) \<and> rt_d_w x = (w \<and> k = 2) \<and> rt_d_b x = (ans \<and> w \<and> k = 2) \<and>
     rt_d_ar x = (\<not> w \<and> k = 2) \<and> rt_d_r x = (ans \<and> \<not> w \<and> k = 2) \<and>
     br_aw_hs d = (w \<and> k = 0) \<and> br_w_hs d = (w \<and> k = 0) \<and> br_bvalid d = (ans \<and> w \<and> k = 0) \<and>
     br_ar_hs d = (\<not> w \<and> k = 0) \<and> br_rvalid d = (ans \<and> \<not> w \<and> k = 0) \<and>
     ul_aw_hs u = (w \<and> k = 1) \<and> ul_w_hs u = (w \<and> k = 1) \<and> ul_bvalid u = (ans \<and> w \<and> k = 1) \<and>
     ul_ar_hs u = (\<not> w \<and> k = 1) \<and> ul_rvalid u = (ans \<and> \<not> w \<and> k = 1))"

definition ph_at_slave :: "bus_req \<Rightarrow> axpath \<Rightarrow> bool" where
  "ph_at_slave r p \<longleftrightarrow> ph_routed False r p \<and>
     (let k = decode_linux (rq_addr r); d = ap_ddr p; u = ap_uart p in
      (rq_wen r \<and> k = 0 \<longrightarrow> br_awaddr d = rq_addr r \<and> br_wdata d = rq_wdata r \<and> br_wstrb d = rq_wmask r) \<and>
      (\<not> rq_wen r \<and> k = 0 \<longrightarrow> br_araddr d = rq_addr r) \<and>
      (rq_wen r \<and> k = 1 \<longrightarrow> ul_awaddr u = rq_addr r \<and> ul_wdata u = rq_wdata r \<and> ul_wstrb u = rq_wmask r))"

definition ph_answered :: "bus_req \<Rightarrow> ext_mem \<Rightarrow> axpath \<Rightarrow> bool" where
  "ph_answered r s p \<longleftrightarrow> ph_routed True r p \<and> ext_abs p = ext_request r s \<and>
     (let k = decode_linux (rq_addr r) in
      (\<not> rq_wen r \<and> k = 0 \<longrightarrow> br_rdata (ap_ddr p) = ext_data r s) \<and> (\<not> rq_wen r \<and> k = 1 \<longrightarrow> ul_rdata (ap_uart p) = 0))"

lemmas path_defs = axpath_step_def axim_step_def axim_next_def axim_out_def router_step_def
  rt_stub_def rt_select_def rt_back_def rt_pick_def rt_sel_w_eff_def rt_lite_def ddr_out_def uart_out_def
  axil_bram_big_def bram_step_def bram_write_step_def bram_read_step_def bram_awready_def bram_wready_def bram_arready_def
  uartlite_step_def uartlite_write_step_def uartlite_read_step_def

lemma cycle_request:
  assumes "path_quiet p" "rq_valid r" "axim_req_ready (ap_axim p)"
  shows "ph_requested r (axpath_step False r p) \<and> ext_abs (axpath_step False r p) = ext_abs p"
  using assms
  by (auto simp: path_quiet_def ph_requested_def path_defs Let_def ext_abs_def)

lemma cycle_slave:
  assumes "ph_requested r p"
  shows "ph_at_slave r (axpath_step False r' p) \<and> ext_abs (axpath_step False r' p) = ext_abs p"
proof (cases "rq_wen r")
  case True
  show ?thesis using decode_linux_cases[of "rq_addr r"] assms True
    by (elim disjE)
      (simp_all add: path_quiet_def ph_requested_def ph_at_slave_def ph_routed_def path_defs Let_def ext_abs_def)
next
  case False
  show ?thesis using decode_linux_cases[of "rq_addr r"] assms False
    by (elim disjE)
      (simp_all add: path_quiet_def ph_requested_def ph_at_slave_def ph_routed_def path_defs Let_def ext_abs_def)
qed

lemma cycle_answer:
  assumes "ph_at_slave r p"
  shows "ph_answered r (ext_abs p) (axpath_step False r' p)"
proof (cases "rq_wen r")
  case True
  show ?thesis using decode_linux_cases[of "rq_addr r"] assms True
    by (elim disjE)
      (simp_all add: ph_at_slave_def ph_answered_def ph_routed_def path_defs Let_def ext_abs_def ext_request_def ext_data_def)
next
  case False
  show ?thesis using decode_linux_cases[of "rq_addr r"] assms False
    by (elim disjE)
      (simp_all add: ph_at_slave_def ph_answered_def ph_routed_def path_defs Let_def ext_abs_def ext_request_def ext_data_def)
qed

lemma cycle_deliver:
  assumes "ph_answered r s p"
  shows "let q = axpath_step False r' p in path_quiet q \<and> ext_abs q = ext_request r s \<and> xm_rsp_valid (ap_axim q) \<and>
    xm_rsp_rdata (ap_axim q) = ext_data r s \<and> xm_rsp_fault (ap_axim q) = ext_fault r \<and> xm_cooldown (ap_axim q) = 8"
proof (cases "rq_wen r")
  case True
  show ?thesis using decode_linux_cases[of "rq_addr r"] assms True
    by (elim disjE)
      (simp_all add: ph_answered_def path_quiet_def ph_routed_def path_defs axim_respond_def Let_def ext_abs_def ext_data_def ext_fault_def)
next
  case False
  show ?thesis using decode_linux_cases[of "rq_addr r"] assms False
    by (elim disjE)
      (simp_all add: ph_answered_def path_quiet_def ph_routed_def path_defs axim_respond_def Let_def ext_abs_def ext_data_def ext_fault_def)
qed


section \<open>Runs\<close>

text \<open>The accepted requests of a run, and the responses after each cycle; and what they should be.\<close>

fun path_accepted :: "bus_req list \<Rightarrow> axpath \<Rightarrow> bus_req list" where
  "path_accepted [] p = []"
| "path_accepted (r # rs) p =
     (if rq_valid r \<and> axim_req_ready (ap_axim p) then [r] else []) @ path_accepted rs (axpath_step False r p)"

definition path_rsp :: "axpath \<Rightarrow> (u32 \<times> bool) list" where
  "path_rsp p = (if xm_rsp_valid (ap_axim p) then [(xm_rsp_rdata (ap_axim p), xm_rsp_fault (ap_axim p))] else [])"

fun path_responses :: "bus_req list \<Rightarrow> axpath \<Rightarrow> (u32 \<times> bool) list" where
  "path_responses [] p = []"
| "path_responses (r # rs) p = path_rsp (axpath_step False r p) @ path_responses rs (axpath_step False r p)"

fun ext_answers :: "bus_req list \<Rightarrow> ext_mem \<Rightarrow> (u32 \<times> bool) list" where
  "ext_answers [] s = []"
| "ext_answers (r # rs) s = (ext_data r s, ext_fault r) # ext_answers rs (ext_request r s)"

definition ext_final :: "bus_req list \<Rightarrow> ext_mem \<Rightarrow> ext_mem" where
  "ext_final rs s = fold ext_request rs s"

lemma idle_silent: "path_quiet p \<Longrightarrow> \<not> (rq_valid r \<and> axim_req_ready (ap_axim p)) \<Longrightarrow> path_rsp (axpath_step False r p) = []"
  by (simp add: path_quiet_def path_rsp_def axpath_step_def axim_step_def axim_next_def Let_def)

lemma busy_silent:
  "xm_state (ap_axim p) \<noteq> AX_IDLE \<Longrightarrow> xm_state (ap_axim (axpath_step False r p)) \<noteq> AX_IDLE \<Longrightarrow> path_rsp (axpath_step False r p) = []"
  by (cases "xm_state (ap_axim p)")
    (auto simp: path_rsp_def axpath_step_def axim_step_def axim_next_def axim_respond_def Let_def split: if_splits)

lemma busy_deaf: "xm_state (ap_axim p) \<noteq> AX_IDLE \<Longrightarrow> \<not> axim_req_ready (ap_axim p)"
  by (simp add: axim_req_ready_def)

lemma phase_busy:
  "ph_requested r p \<Longrightarrow> xm_state (ap_axim p) \<noteq> AX_IDLE"
  "ph_at_slave r p \<Longrightarrow> xm_state (ap_axim p) \<noteq> AX_IDLE"
  "ph_answered r s p \<Longrightarrow> xm_state (ap_axim p) \<noteq> AX_IDLE"
  by (auto simp: ph_requested_def ph_at_slave_def ph_answered_def ph_routed_def Let_def)

lemma accept_silent:
  "path_quiet p \<Longrightarrow> rq_valid r \<Longrightarrow> axim_req_ready (ap_axim p) \<Longrightarrow> path_rsp (axpath_step False r p) = []"
  by (simp add: path_quiet_def path_rsp_def axpath_step_def axim_step_def axim_next_def Let_def)

text \<open>A transaction, from the acceptance on.\<close>

lemma transaction:
  assumes "path_quiet p" "rq_valid r" "axim_req_ready (ap_axim p)"
  shows "let q = axpath_run [r, r1, r2, r3] p; s = ext_abs p in
    path_quiet q \<and> ext_abs q = ext_request r s \<and> path_accepted [r, r1, r2, r3] p = [r] \<and>
    path_responses [r, r1, r2, r3] p = [(ext_data r s, ext_fault r)] \<and> path_rsp q = [(ext_data r s, ext_fault r)]"
proof -
  let ?a = "axpath_step False r p" let ?b = "axpath_step False r1 ?a" let ?c = "axpath_step False r2 ?b"
  let ?d = "axpath_step False r3 ?c"
  have a: "ph_requested r ?a" "ext_abs ?a = ext_abs p" using cycle_request[OF assms] by simp_all
  have b: "ph_at_slave r ?b" "ext_abs ?b = ext_abs p" using cycle_slave[OF a(1), of r1] a(2) by simp_all
  have c: "ph_answered r (ext_abs p) ?c" using cycle_answer[OF b(1), of r2] b(2) by simp
  note d = cycle_deliver[OF c, of r3, unfolded Let_def]
  have rsp: "path_rsp ?a = []" "path_rsp ?b = []" "path_rsp ?c = []" "path_rsp ?d = [(ext_data r (ext_abs p), ext_fault r)]"
    using accept_silent[OF assms] busy_silent[OF phase_busy(1)[OF a(1)] phase_busy(2)[OF b(1)]]
      busy_silent[OF phase_busy(2)[OF b(1)] phase_busy(3)[OF c]] d by (simp_all add: path_rsp_def)
  have "\<not> axim_req_ready (ap_axim ?a)" "\<not> axim_req_ready (ap_axim ?b)" "\<not> axim_req_ready (ap_axim ?c)"
    using phase_busy(1)[OF a(1)] phase_busy(2)[OF b(1)] phase_busy(3)[OF c] by (simp_all add: axim_req_ready_def)
  then show ?thesis using assms rsp d by (simp add: axpath_run_def Let_def)
qed

text \<open>Fewer than four cycles: nothing is answered yet.\<close>

lemma transaction_prefix:
  assumes "path_quiet p" "rq_valid r" "axim_req_ready (ap_axim p)" "length rs < 3"
  shows "path_responses (r # rs) p = [] \<and> \<not> path_quiet (axpath_run (r # rs) p)"
proof -
  let ?a = "axpath_step False r p"
  have a: "ph_requested r ?a" using cycle_request[OF assms(1-3)] by simp
  have b: "ph_at_slave r (axpath_step False x ?a)" for x using cycle_slave[OF a, of x] by simp
  have c: "ph_answered r (ext_abs (axpath_step False x ?a)) (axpath_step False y (axpath_step False x ?a))" for x y
    by (rule cycle_answer[OF b])
  have nq: "\<not> path_quiet q" if "xm_state (ap_axim q) \<noteq> AX_IDLE" for q using that by (simp add: path_quiet_def)
  consider "rs = []" | x where "rs = [x]" | x y where "rs = [x, y]"
    using assms(4) by (cases rs; cases "tl rs"; cases "tl (tl rs)") auto
  then show ?thesis
    by cases (simp_all add: axpath_run_def accept_silent[OF assms(1-3)] nq phase_busy(1)[OF a] phase_busy(2)[OF b]
        phase_busy(3)[OF c] busy_silent[OF phase_busy(1)[OF a] phase_busy(2)[OF b]] busy_silent[OF phase_busy(2)[OF b] phase_busy(3)[OF c]])
qed

lemma run_append: "axpath_run (xs @ ys) p = axpath_run ys (axpath_run xs p)" by (simp add: axpath_run_def)
lemma accepted_append: "path_accepted (xs @ ys) p = path_accepted xs p @ path_accepted ys (axpath_run xs p)"
  by (induction xs arbitrary: p) (simp_all add: axpath_run_def)
lemma responses_append: "path_responses (xs @ ys) p = path_responses xs p @ path_responses ys (axpath_run xs p)"
  by (induction xs arbitrary: p) (simp_all add: axpath_run_def)

lemma path_run_refines:
  assumes "path_quiet p"
  shows "(\<exists>n. path_responses rs p = take n (ext_answers (path_accepted rs p) (ext_abs p))) \<and>
    (path_quiet (axpath_run rs p) \<longrightarrow>
      path_responses rs p = ext_answers (path_accepted rs p) (ext_abs p) \<and>
      ext_abs (axpath_run rs p) = ext_final (path_accepted rs p) (ext_abs p))"
  using assms
proof (induction "length rs" arbitrary: rs p rule: less_induct)
  case less
  show ?case
  proof (cases rs)
    case Nil
    then show ?thesis by (simp add: axpath_run_def ext_final_def)
  next
    case (Cons r rs')
    show ?thesis
    proof (cases "rq_valid r \<and> axim_req_ready (ap_axim p)")
      case False
      let ?q = "axpath_step False r p"
      have "path_quiet ?q" "ext_abs ?q = ext_abs p" "path_rsp ?q = []"
        using quiet_idle[OF less.prems False] idle_silent[OF less.prems False] by simp_all
      then show ?thesis using less.hyps[of rs' ?q] Cons False by (auto simp: axpath_run_def)
    next
      case acc: True
      show ?thesis
      proof (cases "length rs' < 3")
        case True
        then show ?thesis using transaction_prefix[OF less.prems _ _ True, of r] acc Cons
          by (intro conjI exI[of _ 0]) simp_all
      next
        case False
        then obtain r1 r2 r3 ys where "rs' = r1 # r2 # r3 # ys"
          by (metis length_Cons list.exhaust list.size(3) not_less_eq numeral_3_eq_3 zero_less_Suc)
        then have split: "rs = [r, r1, r2, r3] @ ys" using Cons by simp
        let ?q = "axpath_run [r, r1, r2, r3] p"
        note t = transaction[OF less.prems, of r r1 r2 r3, unfolded Let_def] 
        have q: "path_quiet ?q" "ext_abs ?q = ext_request r (ext_abs p)" "path_accepted [r, r1, r2, r3] p = [r]"
          "path_responses [r, r1, r2, r3] p = [(ext_data r (ext_abs p), ext_fault r)]" using t acc by blast+
        have len: "length ys < length rs" using split by simp
        note ih = less.hyps[OF len q(1)]
        obtain n where "path_responses ys ?q = take n (ext_answers (path_accepted ys ?q) (ext_abs ?q))" using ih by blast
        then have "path_responses rs p = take (Suc n) (ext_answers (path_accepted rs p) (ext_abs p))"
          unfolding split responses_append accepted_append q(3,4) using q(2) by simp
        moreover have "path_quiet (axpath_run rs p) \<longrightarrow> path_responses rs p = ext_answers (path_accepted rs p) (ext_abs p) \<and>
            ext_abs (axpath_run rs p) = ext_final (path_accepted rs p) (ext_abs p)"
          unfolding split responses_append accepted_append run_append q(3,4) using ih q(2) by (simp add: ext_final_def)
        ultimately show ?thesis by blast
      qed
    qed
  qed
qed


section \<open>Properties\<close>

text \<open>
  C23. The AXI4 master shim performs every request exactly once. Over any run from reset and any slave, the
  address and data beats taken by the slave are those of the accepted writes, and the read addresses those
  of the accepted reads, in order and without repetition, but for what the current transaction has still
  to send; the responses to the client are the slave's answers in order; and at most one accepted request
  is unanswered.
\<close>
theorem axim_exactly_once:
  "let y = axim_run ins axim_reset; reqs = axim_log ev_accept ins axim_reset in
    map rq_addr (filter rq_wen reqs) = axim_log ev_aw ins axim_reset @ left_aw y \<and>
    map (\<lambda>r. (rq_wdata r, rq_wmask r)) (filter rq_wen reqs) = axim_log ev_w ins axim_reset @ left_w y \<and>
    map rq_addr (filter (\<lambda>r. \<not> rq_wen r) reqs) = axim_log ev_ar ins axim_reset @ left_ar y \<and>
    axim_log ev_answer ins axim_reset = axim_log ev_rsp ins axim_reset @ ev_rsp y i \<and>
    length reqs = length (axim_log ev_answer ins axim_reset) + (if xm_state y = AX_IDLE then 0 else 1)"
proof -
  let ?x = axim_reset let ?y = "axim_run ins ?x" let ?l = "axim_log ev_accept ins ?x"
  have empty: "left_aw ?x = []" "left_w ?x = []" "left_ar ?x = []" "ev_rsp ?x i = []" "busy ?x = []" for i
    by (simp_all add: left_aw_def left_w_def left_ar_def ev_rsp_def busy_def axim_reset_def)
  have 1: "map rq_addr (filter rq_wen ?l) = axim_log ev_aw ins ?x @ left_aw ?y"
    using log_conserved[of left_aw _ ev_aw, OF aw_conserved, where ins = ins and x = ?x] by (simp add: empty log_map)
  have 2: "map (\<lambda>r. (rq_wdata r, rq_wmask r)) (filter rq_wen ?l) = axim_log ev_w ins ?x @ left_w ?y"
    using log_conserved[of left_w _ ev_w, OF w_conserved, where ins = ins and x = ?x] by (simp add: empty log_map)
  have 3: "map rq_addr (filter (\<lambda>r. \<not> rq_wen r) ?l) = axim_log ev_ar ins ?x @ left_ar ?y"
    using log_conserved[of left_ar _ ev_ar, OF ar_conserved, where ins = ins and x = ?x] by (simp add: empty log_map)
  have 4: "axim_log ev_answer ins ?x = axim_log ev_rsp ins ?x @ ev_rsp ?y i"
    using log_conserved[of "\<lambda>x. ev_rsp x i" ev_answer ev_rsp, where ins = ins and x = ?x] rsp_conserved
    by (simp add: ev_rsp_def axim_reset_def)
  have 5: "map (\<lambda>r. ()) ?l = map (\<lambda>a. ()) (axim_log ev_answer ins ?x) @ busy ?y"
    using log_conserved[of busy _ "\<lambda>x i. map (\<lambda>a. ()) (ev_answer x i)", OF busy_conserved, where ins = ins and x = ?x]
      log_map[of "\<lambda>_. ()" "\<lambda>_. True" ev_accept] log_map[of "\<lambda>_. ()" "\<lambda>_. True" ev_answer] by (simp add: empty)
  have "length ?l = length (axim_log ev_answer ins ?x) + (if xm_state ?y = AX_IDLE then 0 else 1)"
    using arg_cong[OF 5, of length] by (simp add: busy_def)
  then show ?thesis unfolding Let_def using 1 2 3 4 by blast
qed

text \<open>
  C28. The cooldown of the shim: counted from the cycle of a response, in any run from reset, it accepts no
  request for exactly eight cycles.
\<close>
theorem axim_cooldown:
  assumes "xm_rsp_valid (axim_run ins axim_reset)" "length rest \<le> 8"
  shows "axim_req_ready (axim_run (ins @ rest) axim_reset) \<longleftrightarrow> length rest = 8"
proof -
  let ?x = "axim_run ins axim_reset"
  have "axim_inv axim_reset" by (simp add: axim_inv_def axim_reset_def)
  then have "axim_inv ?x" by (rule axim_inv_run)
  then have "xm_state ?x = AX_IDLE" "unat (xm_cooldown ?x) = 8" using assms(1) by (simp_all add: axim_inv_def)
  note c = cooling_run[OF this order_refl assms(2)]
  have "axim_run (ins @ rest) axim_reset = axim_run rest ?x" by (simp add: axim_run_def)
  then show ?thesis using c assms
    by (cases "rest = []") (auto simp: axim_req_ready_def unat_eq_0 axim_run_def)
qed

definition prompt_back :: axi_back where
  "prompt_back = \<lparr>xb_awready = True, xb_wready = True, xb_bvalid = True, xb_bresp = 0, xb_arready = True,
     xb_rvalid = True, xb_rdata = 7, xb_rresp = 0\<rparr>"

lemma axim_cooldown_witness:
  "axim_req_ready (axim_run (replicate 3 (rd_req 0x40000000, prompt_back) @ replicate 8 (no_req, prompt_back)) axim_reset)"
proof -
  have "xm_rsp_valid (axim_run (replicate 3 (rd_req 0x40000000, prompt_back)) axim_reset)" by code_simp
  then show ?thesis
    using axim_cooldown[of "replicate 3 (rd_req 0x40000000, prompt_back)" "replicate 8 (no_req, prompt_back)"] by simp
qed

text \<open>
  C14. The external bus implements a memory and a console. From reset, and for any sequence of requests offered
  by the client, the responses are a prefix of what the accepted requests mean when they are performed
  one after the other: a DDR access reads or updates its word, a UartLite write may print a byte, any
  other address faults; and whenever the path is quiet again, all of them have been answered, and the
  memory and the console are as the accepted requests leave them.
\<close>
theorem axpath_refines_memory:
  "let p = axpath_step True r0 p0; acc = path_accepted rs p in
    prefix (path_responses rs p) (ext_answers acc (ext_abs p)) \<and>
    (path_quiet (axpath_run rs p) \<longrightarrow>
      path_responses rs p = ext_answers acc (ext_abs p) \<and> ext_abs (axpath_run rs p) = ext_final acc (ext_abs p))"
proof -
  have "path_quiet (axpath_step True r0 p0)" by (rule reset_quiet)
  from path_run_refines[OF this, of rs] show ?thesis by (auto simp: Let_def take_is_prefix)
qed

definition cold_ddr :: bram where
  "cold_ddr = \<lparr>br_mem = (\<lambda>_. 0), br_aw_hs = False, br_w_hs = False, br_awaddr = 0, br_wdata = 0, br_wstrb = 0,
     br_bvalid = False, br_ar_hs = False, br_rvalid = False, br_araddr = 0, br_rdata = 0\<rparr>"
definition cold_uart :: uartlite where
  "cold_uart = \<lparr>ul_aw_hs = False, ul_w_hs = False, ul_awaddr = 0, ul_wdata = 0, ul_wstrb = 0, ul_bvalid = False,
     ul_ctrl_ie = False, ul_ar_hs = False, ul_rvalid = False, ul_araddr = 0, ul_rdata = 0, ul_printed = []\<rparr>"
definition cold_path :: axpath where
  "cold_path = \<lparr>ap_axim = axim_reset, ap_rt = rt_reset, ap_ddr = cold_ddr, ap_uart = cold_uart\<rparr>"

lemma axpath_refines_memory_witness:
  "path_responses (replicate 4 (wr_req 0x40000010 9 1)) (axpath_step True no_req cold_path) = [(0, False)] \<and>
   em_mem (ext_abs (axpath_run (replicate 4 (wr_req 0x40000010 9 1)) (axpath_step True no_req cold_path))) 4 = 9"
proof -
  let ?p = "axpath_step True no_req cold_path" and ?r = "wr_req 0x40000010 9 1"
  have q: "path_quiet ?p" "rq_valid ?r" by (simp_all add: reset_quiet)
  have q3: "axim_req_ready (ap_axim ?p)"
    by (simp add: axpath_step_def Let_def axim_step_def axim_req_ready_def axim_reset_def)
  have acc: "path_accepted (replicate 4 ?r) ?p = [?r]" and fin: "path_quiet (axpath_run (replicate 4 ?r) ?p)"
    using transaction[OF q q3, of ?r ?r ?r] by (simp_all add: Let_def numeral_eq_Suc)
  have m: "em_mem (ext_abs ?p) = (\<lambda>_. 0)"
    by (simp add: ext_abs_def cold_path_def cold_ddr_def axpath_step_def Let_def axil_bram_big_def bram_step_def
        bram_write_step_def bram_read_step_def rt_lite_def)
  have v: "decode_linux 0x40000010 = 0" "bram_index 0x40000010 = 4" "apply_wmask 0 9 1 = 9" by code_simp+
  show ?thesis using axpath_refines_memory[where rs = "replicate 4 ?r" and ?r0.0 = no_req and ?p0.0 = cold_path] fin
    by (simp add: Let_def acc ext_final_def ext_data_def ext_fault_def ext_request_def v m)
qed

end
