(* ===== verification/Core_Decode.thy ===== *)
theory Core_Decode
  imports Arith Csr
begin

text \<open>
  The combinational part of the multi-cycle core \<open>rtl/core/core_multicycle.sv\<close>: instruction fields and
  classes, operand selection, illegal-instruction detection, targets and alignment, store lanes, load
  extension, atomic results and the exceptions of the execute state.
\<close>

unbundle bit_operations_syntax

section \<open>Opcodes and causes\<close>

definition OP_LUI :: "7 word" where "OP_LUI = 0x37"
definition OP_AUIPC :: "7 word" where "OP_AUIPC = 0x17"
definition OP_JAL :: "7 word" where "OP_JAL = 0x6F"
definition OP_JALR :: "7 word" where "OP_JALR = 0x67"
definition OP_BRANCH :: "7 word" where "OP_BRANCH = 0x63"
definition OP_LOAD :: "7 word" where "OP_LOAD = 0x03"
definition OP_STORE :: "7 word" where "OP_STORE = 0x23"
definition OP_OP_IMM :: "7 word" where "OP_OP_IMM = 0x13"
definition OP_OP :: "7 word" where "OP_OP = 0x33"
definition OP_AMO :: "7 word" where "OP_AMO = 0x2F"
definition OP_MISC_MEM :: "7 word" where "OP_MISC_MEM = 0x0F"
definition OP_SYSTEM :: "7 word" where "OP_SYSTEM = 0x73"

lemmas opcodes = OP_LUI_def OP_AUIPC_def OP_JAL_def OP_JALR_def OP_BRANCH_def OP_LOAD_def OP_STORE_def
  OP_OP_IMM_def OP_OP_def OP_AMO_def OP_MISC_MEM_def OP_SYSTEM_def

definition CAUSE_INSN_ADDR_MISALIGNED :: u32 where "CAUSE_INSN_ADDR_MISALIGNED = 0"
definition CAUSE_INSN_ACCESS_FAULT :: u32 where "CAUSE_INSN_ACCESS_FAULT = 1"
definition CAUSE_ILLEGAL_INSN :: u32 where "CAUSE_ILLEGAL_INSN = 2"
definition CAUSE_BREAKPOINT :: u32 where "CAUSE_BREAKPOINT = 3"
definition CAUSE_LOAD_ADDR_MISALIGNED :: u32 where "CAUSE_LOAD_ADDR_MISALIGNED = 4"
definition CAUSE_LOAD_ACCESS_FAULT :: u32 where "CAUSE_LOAD_ACCESS_FAULT = 5"
definition CAUSE_STORE_ADDR_MISALIGNED :: u32 where "CAUSE_STORE_ADDR_MISALIGNED = 6"
definition CAUSE_STORE_ACCESS_FAULT :: u32 where "CAUSE_STORE_ACCESS_FAULT = 7"
definition CAUSE_ECALL_FROM_U :: u32 where "CAUSE_ECALL_FROM_U = 8"
definition CAUSE_ECALL_FROM_S :: u32 where "CAUSE_ECALL_FROM_S = 9"
definition CAUSE_ECALL_FROM_M :: u32 where "CAUSE_ECALL_FROM_M = 11"
definition CAUSE_INSN_PAGE_FAULT :: u32 where "CAUSE_INSN_PAGE_FAULT = 12"
definition CAUSE_LOAD_PAGE_FAULT :: u32 where "CAUSE_LOAD_PAGE_FAULT = 13"
definition CAUSE_STORE_PAGE_FAULT :: u32 where "CAUSE_STORE_PAGE_FAULT = 15"

section \<open>Fields and classes\<close>

definition opcode :: "u32 \<Rightarrow> 7 word" where "opcode w = fld 0 w"
definition funct3 :: "u32 \<Rightarrow> 3 word" where "funct3 w = fld 12 w"
definition funct7 :: "u32 \<Rightarrow> 7 word" where "funct7 w = fld 25 w"
definition rd_i :: "u32 \<Rightarrow> 5 word" where "rd_i w = fld 7 w"
definition rs1_i :: "u32 \<Rightarrow> 5 word" where "rs1_i w = fld 15 w"
definition rs2_i :: "u32 \<Rightarrow> 5 word" where "rs2_i w = fld 20 w"
definition funct12 :: "u32 \<Rightarrow> 12 word" where "funct12 w = fld 20 w"
definition amo_funct5 :: "u32 \<Rightarrow> 5 word" where "amo_funct5 w = fld 27 w"

definition is_lui :: "u32 \<Rightarrow> bool" where "is_lui w = (opcode w = OP_LUI)"
definition is_auipc :: "u32 \<Rightarrow> bool" where "is_auipc w = (opcode w = OP_AUIPC)"
definition is_jal :: "u32 \<Rightarrow> bool" where "is_jal w = (opcode w = OP_JAL)"
definition is_jalr :: "u32 \<Rightarrow> bool" where "is_jalr w = (opcode w = OP_JALR)"
definition is_branch :: "u32 \<Rightarrow> bool" where "is_branch w = (opcode w = OP_BRANCH)"
definition is_load :: "u32 \<Rightarrow> bool" where "is_load w = (opcode w = OP_LOAD)"
definition is_store :: "u32 \<Rightarrow> bool" where "is_store w = (opcode w = OP_STORE)"
definition is_op_imm :: "u32 \<Rightarrow> bool" where "is_op_imm w = (opcode w = OP_OP_IMM)"
definition is_op :: "u32 \<Rightarrow> bool" where "is_op w = (opcode w = OP_OP)"
definition is_system :: "u32 \<Rightarrow> bool" where "is_system w = (opcode w = OP_SYSTEM)"
definition is_amo :: "u32 \<Rightarrow> bool" where "is_amo w = (opcode w = OP_AMO \<and> funct3 w = 2)"

definition is_lr :: "u32 \<Rightarrow> bool" where "is_lr w = (is_amo w \<and> amo_funct5 w = 0x02 \<and> rs2_i w = 0)"
definition is_sc :: "u32 \<Rightarrow> bool" where "is_sc w = (is_amo w \<and> amo_funct5 w = 0x03)"
definition is_amo_rmw :: "u32 \<Rightarrow> bool" where
  "is_amo_rmw w = (is_amo w \<and> \<not> is_lr w \<and> \<not> is_sc w \<and>
     amo_funct5 w \<in> {0x01, 0x00, 0x04, 0x0C, 0x08, 0x10, 0x14, 0x18, 0x1C})"

definition is_priv :: "u32 \<Rightarrow> 12 word \<Rightarrow> bool" where
  "is_priv w k = (is_system w \<and> funct3 w = 0 \<and> funct12 w = k)"
definition is_ecall :: "u32 \<Rightarrow> bool" where "is_ecall w = is_priv w 0x000"
definition is_ebreak :: "u32 \<Rightarrow> bool" where "is_ebreak w = is_priv w 0x001"
definition is_mret :: "u32 \<Rightarrow> bool" where "is_mret w = is_priv w 0x302"
definition is_sret :: "u32 \<Rightarrow> bool" where "is_sret w = is_priv w 0x102"
definition is_sfence :: "u32 \<Rightarrow> bool" where "is_sfence w = (is_system w \<and> funct3 w = 0 \<and> funct7 w = 0x09)"
definition is_csr :: "u32 \<Rightarrow> bool" where "is_csr w = (is_system w \<and> funct3 w \<noteq> 0)"

definition is_muldiv :: "u32 \<Rightarrow> bool" where "is_muldiv w = (is_op w \<and> funct7 w = 1)"
definition is_mul_variant :: "u32 \<Rightarrow> bool" where "is_mul_variant w = (is_muldiv w \<and> \<not> bit (funct3 w) 2)"
definition is_div_variant :: "u32 \<Rightarrow> bool" where "is_div_variant w = (is_muldiv w \<and> bit (funct3 w) 2)"

section \<open>Operands and results\<close>

text \<open>The funct3 table of OP-IMM and OP; \<open>alt\<close> is bit 5 of funct7.\<close>

definition alu_op_of :: "3 word \<Rightarrow> bool \<Rightarrow> bool \<Rightarrow> 4 word" where
  "alu_op_of f3 sub alt =
     (if f3 = 0 then (if sub then ALU_SUB else ALU_ADD)
      else if f3 = 1 then ALU_SLL
      else if f3 = 2 then ALU_SLT
      else if f3 = 3 then ALU_SLTU
      else if f3 = 4 then ALU_XOR
      else if f3 = 5 then (if alt then ALU_SRA else ALU_SRL)
      else if f3 = 6 then ALU_OR
      else ALU_AND)"

definition alu_sel :: "u32 \<Rightarrow> u32 \<Rightarrow> u32 \<Rightarrow> u32 \<Rightarrow> 4 word \<times> u32 \<times> u32" where
  "alu_sel w pc rs1 rs2 =
     (let alt = bit (funct7 w) 5 in
      if is_lui w then (ALU_COPY_B, 0, imm_u w)
      else if is_auipc w then (ALU_ADD, pc, imm_u w)
      else if is_jal w \<or> is_jalr w then (ALU_ADD, pc, 4)
      else if is_load w then (ALU_ADD, rs1, imm_i w)
      else if is_store w then (ALU_ADD, rs1, imm_s w)
      else if is_amo w then (ALU_ADD, rs1, 0)
      else if is_branch w then (ALU_SUB, rs1, rs2)
      else if is_op_imm w then (alu_op_of (funct3 w) False alt, rs1, imm_i w)
      else if is_op w then (alu_op_of (funct3 w) alt alt, rs1, rs2)
      else (ALU_ADD, rs1, rs2))"

definition alu_y :: "u32 \<Rightarrow> u32 \<Rightarrow> u32 \<Rightarrow> u32 \<Rightarrow> u32" where
  "alu_y w pc rs1 rs2 = (let (op, a, b) = alu_sel w pc rs1 rs2 in alu op a b)"

definition mul_result :: "u32 \<Rightarrow> u32 \<Rightarrow> u32 \<Rightarrow> u32" where
  "mul_result w rs1 rs2 =
     mul_unit rs1 rs2 (funct3 w = 1 \<or> funct3 w = 2) (funct3 w = 1) (funct3 w \<noteq> 0)"

definition arith_wb :: "u32 \<Rightarrow> u32 \<Rightarrow> u32 \<Rightarrow> u32 \<Rightarrow> u32 \<Rightarrow> u32" where
  "arith_wb w pc rs1 rs2 csr_rdata =
     (if is_mul_variant w then mul_result w rs1 rs2
      else if is_csr w then csr_rdata
      else if is_jal w \<or> is_jalr w then pc + 4
      else alu_y w pc rs1 rs2)"

section \<open>Illegal instructions\<close>

definition op_legal :: "7 word \<Rightarrow> 3 word \<Rightarrow> bool" where
  "op_legal f7 f3 = (f7 = 0 \<or> f7 = 1 \<or> (f7 = 0x20 \<and> (f3 = 0 \<or> f3 = 5)))"

definition sys_illegal :: "u32 \<Rightarrow> 2 word \<Rightarrow> bool \<Rightarrow> bool \<Rightarrow> bool" where
  "sys_illegal w priv tvm tsr =
     (if is_sfence w
      then rd_i w \<noteq> 0 \<or> priv = PRV_U \<or> (priv = PRV_S \<and> tvm)
      else funct12 w \<notin> {0x000, 0x001, 0x102, 0x302, 0x105} \<or> rd_i w \<noteq> 0 \<or> rs1_i w \<noteq> 0 \<or>
        (funct12 w = 0x302 \<and> priv \<noteq> PRV_M) \<or>
        (funct12 w = 0x102 \<and> (priv = PRV_U \<or> (priv = PRV_S \<and> tsr))))"

definition illegal_opcode :: "u32 \<Rightarrow> 2 word \<Rightarrow> bool \<Rightarrow> bool \<Rightarrow> bool" where
  "illegal_opcode w priv tvm tsr =
     (opcode w \<notin> {OP_LUI, OP_AUIPC, OP_JAL, OP_JALR, OP_BRANCH, OP_LOAD, OP_STORE, OP_OP_IMM, OP_OP,
        OP_MISC_MEM, OP_SYSTEM, OP_AMO} \<or>
      (opcode w = OP_AMO \<and> (funct3 w \<noteq> 2 \<or> \<not> (is_lr w \<or> is_sc w \<or> is_amo_rmw w))) \<or>
      (is_op_imm w \<and> funct3 w = 1 \<and> funct7 w \<noteq> 0) \<or>
      (is_op_imm w \<and> funct3 w = 5 \<and> funct7 w \<noteq> 0 \<and> funct7 w \<noteq> 0x20) \<or>
      (is_op w \<and> \<not> op_legal (funct7 w) (funct3 w)) \<or>
      (is_system w \<and> funct3 w = 0 \<and> sys_illegal w priv tvm tsr))"

section \<open>Targets and alignment\<close>

definition branch_taken :: "u32 \<Rightarrow> u32 \<Rightarrow> u32 \<Rightarrow> bool" where
  "branch_taken w rs1 rs2 =
     (let f = funct3 w in
      if f = 0 then alu_eq rs1 rs2 else if f = 1 then \<not> alu_eq rs1 rs2
      else if f = 4 then alu_lt rs1 rs2 else if f = 5 then \<not> alu_lt rs1 rs2
      else if f = 6 then alu_ltu rs1 rs2 else if f = 7 then \<not> alu_ltu rs1 rs2
      else False)"

definition jal_target :: "u32 \<Rightarrow> u32 \<Rightarrow> u32" where "jal_target w pc = pc + imm_j w"
definition jalr_target :: "u32 \<Rightarrow> u32 \<Rightarrow> u32" where "jalr_target w rs1 = (rs1 + imm_i w) AND NOT 1"
definition branch_target :: "u32 \<Rightarrow> u32 \<Rightarrow> u32" where "branch_target w pc = pc + imm_b w"

definition low2 :: "u32 \<Rightarrow> 2 word" where "low2 a = fld 0 a"

text \<open>The misaligned jump or branch target, if there is one.\<close>

definition target_misaligned :: "u32 \<Rightarrow> u32 \<Rightarrow> u32 \<Rightarrow> u32 \<Rightarrow> u32 option" where
  "target_misaligned w pc rs1 rs2 =
     (if is_branch w \<and> branch_taken w rs1 rs2 \<and> low2 (branch_target w pc) \<noteq> 0 then Some (branch_target w pc)
      else if is_jalr w \<and> low2 (jalr_target w rs1) \<noteq> 0 then Some (jalr_target w rs1)
      else if is_jal w \<and> low2 (jal_target w pc) \<noteq> 0 then Some (jal_target w pc)
      else None)"

definition ls_misaligned :: "u32 \<Rightarrow> u32 \<Rightarrow> bool" where
  "ls_misaligned w a =
     (if funct3 w = 1 \<or> funct3 w = 5 then bit a 0
      else if funct3 w = 2 then low2 a \<noteq> 0
      else False)"

definition amo_misaligned :: "u32 \<Rightarrow> u32 \<Rightarrow> bool" where
  "amo_misaligned w a = (is_amo w \<and> low2 a \<noteq> 0)"

section \<open>Memory lanes\<close>

definition store_lanes :: "u32 \<Rightarrow> u32 \<Rightarrow> u32 \<Rightarrow> u32 \<times> 4 word" where
  "store_lanes w a rs2 =
     (if funct3 w = 0
      then (let b = fld 0 rs2 :: u8 in
            if low2 a = 0 then (word_cat (0 :: 24 word) b, 1)
            else if low2 a = 1 then (word_cat (0 :: 16 word) (word_cat b (0 :: 8 word) :: 16 word), 2)
            else if low2 a = 2 then (word_cat (0 :: 8 word) (word_cat b (0 :: 16 word) :: 24 word), 4)
            else (word_cat b (0 :: 24 word), 8))
      else if funct3 w = 1
      then (let h = fld 0 rs2 :: 16 word in
            if \<not> bit a 1 then (word_cat (0 :: 16 word) h, 3) else (word_cat h (0 :: 16 word), 12))
      else (rs2, 15))"

definition load_result :: "3 word \<Rightarrow> u32 \<Rightarrow> u32 \<Rightarrow> u32" where
  "load_result f3 a d =
     (let b = (if low2 a = 0 then fld 0 d else if low2 a = 1 then fld 8 d else if low2 a = 2 then fld 16 d
               else fld 24 d) :: u8;
          h = (if bit a 1 then fld 16 d else fld 0 d) :: 16 word in
      if f3 = 0 then word_cat (rep (bit b 7) :: 24 word) b
      else if f3 = 4 then word_cat (0 :: 24 word) b
      else if f3 = 1 then word_cat (rep (bit h 15) :: 16 word) h
      else if f3 = 5 then word_cat (0 :: 16 word) h
      else d)"

definition amo_result :: "u32 \<Rightarrow> u32 \<Rightarrow> u32 \<Rightarrow> u32" where
  "amo_result w old rs2 =
     (let f = amo_funct5 w in
      if f = 0x01 then rs2
      else if f = 0x00 then old + rs2
      else if f = 0x04 then old XOR rs2
      else if f = 0x0C then old AND rs2
      else if f = 0x08 then old OR rs2
      else if f = 0x10 then (if sint old < sint rs2 then old else rs2)
      else if f = 0x14 then (if sint old < sint rs2 then rs2 else old)
      else if f = 0x18 then (if old < rs2 then old else rs2)
      else if f = 0x1C then (if old < rs2 then rs2 else old)
      else 0)"

section \<open>Exceptions of the execute state\<close>

text \<open>Cause and trap value; \<open>ill\<close> is the verdict of the CSR file on a CSR instruction.\<close>

definition exec_trap :: "u32 \<Rightarrow> u32 \<Rightarrow> u32 \<Rightarrow> u32 \<Rightarrow> csrs \<Rightarrow> bool \<Rightarrow> (u32 \<times> u32) option" where
  "exec_trap w pc rs1 rs2 c ill =
     (let a = alu_y w pc rs1 rs2; tgt = target_misaligned w pc rs1 rs2 in
      if is_ecall w
      then Some (if priv_mode c = PRV_U then CAUSE_ECALL_FROM_U
                 else if priv_mode c = PRV_S then CAUSE_ECALL_FROM_S else CAUSE_ECALL_FROM_M, 0)
      else if is_ebreak w then Some (CAUSE_BREAKPOINT, 0)
      else if illegal_opcode w (priv_mode c) (bit (mstatus c) 20) (bit (mstatus c) 22) \<or> (is_csr w \<and> ill)
      then Some (CAUSE_ILLEGAL_INSN, w)
      else if tgt \<noteq> None then Some (CAUSE_INSN_ADDR_MISALIGNED, the tgt)
      else if is_load w \<and> ls_misaligned w a then Some (CAUSE_LOAD_ADDR_MISALIGNED, a)
      else if is_store w \<and> ls_misaligned w a then Some (CAUSE_STORE_ADDR_MISALIGNED, a)
      else if is_lr w \<and> amo_misaligned w a then Some (CAUSE_LOAD_ADDR_MISALIGNED, a)
      else if (is_sc w \<or> is_amo_rmw w) \<and> amo_misaligned w a then Some (CAUSE_STORE_ADDR_MISALIGNED, a)
      else None)"

end
