(* ===== verification/Rv32_Spec.thy ===== *)
theory Rv32_Spec
  imports Core_Decode
begin

text \<open>
  RV32IMA with the privileged instructions, as the RISC-V manuals describe it: an abstract syntax, a
  decoder, and the meaning of an instruction as an interaction with memory. This is the reference the
  cores are compared with; none of it is translated from the source.
\<close>

unbundle bit_operations_syntax

section \<open>Instructions\<close>

datatype bcond = BEQ | BNE | BLT | BGE | BLTU | BGEU
datatype arith = ADD | SUB | SLL | SLT | SLTU | XORR | SRL | SRA | ORR | ANDR
datatype mulop = MUL | MULH | MULHSU | MULHU
datatype divop = DIVS | DIVU | REMS | REMU
datatype width = BYTE | HALF | WRD
datatype amoop = ASWAP | AADD | AXOR | AAND | AOR | AMIN | AMAX | AMINU | AMAXU

type_synonym reg = "5 word"

datatype rv =
    I_LUI reg u32
  | I_AUIPC reg u32
  | I_JAL reg u32
  | I_JALR reg reg u32
  | I_BRANCH bcond reg reg u32
  | I_LOAD width bool reg reg u32
  | I_STORE width reg reg u32
  | I_OPIMM arith reg reg u32
  | I_OP arith reg reg reg
  | I_MUL mulop reg reg reg
  | I_DIV divop reg reg reg
  | I_LR reg reg
  | I_SC reg reg reg
  | I_AMO amoop reg reg reg
  | I_FENCE
  | I_CSR reg
  | I_ECALL
  | I_EBREAK
  | I_MRET
  | I_SRET
  | I_WFI
  | I_SFENCE

section \<open>Decoding\<close>

definition dec_branch :: "3 word \<Rightarrow> bcond option" where
  "dec_branch f = map_of [(0, BEQ), (1, BNE), (4, BLT), (5, BGE), (6, BLTU), (7, BGEU)] f"

definition dec_load :: "3 word \<Rightarrow> (width \<times> bool) option" where
  "dec_load f = map_of [(0, BYTE, True), (1, HALF, True), (2, WRD, True), (4, BYTE, False), (5, HALF, False)] f"

definition dec_store :: "3 word \<Rightarrow> width option" where
  "dec_store f = map_of [(0, BYTE), (1, HALF), (2, WRD)] f"

definition dec_arith :: "7 word \<times> 3 word \<Rightarrow> arith option" where
  "dec_arith k = map_of [((0, 0), ADD), ((0x20, 0), SUB), ((0, 1), SLL), ((0, 2), SLT), ((0, 3), SLTU), ((0, 4), XORR),
     ((0, 5), SRL), ((0x20, 5), SRA), ((0, 6), ORR), ((0, 7), ANDR)] k"

text \<open>The immediate forms have a funct7 for the shifts only.\<close>

definition dec_arith_imm :: "7 word \<Rightarrow> 3 word \<Rightarrow> arith option" where
  "dec_arith_imm f7 f3 = (if f3 = 1 \<or> f3 = 5 then dec_arith (f7, f3) else dec_arith (0, f3))"

definition dec_mul :: "3 word \<Rightarrow> mulop option" where
  "dec_mul f = map_of [(0, MUL), (1, MULH), (2, MULHSU), (3, MULHU)] f"

definition dec_div :: "3 word \<Rightarrow> divop option" where
  "dec_div f = map_of [(4, DIVS), (5, DIVU), (6, REMS), (7, REMU)] f"

definition dec_amo :: "5 word \<Rightarrow> amoop option" where
  "dec_amo f = map_of [(0x01, ASWAP), (0x00, AADD), (0x04, AXOR), (0x0C, AAND), (0x08, AOR), (0x10, AMIN),
     (0x14, AMAX), (0x18, AMINU), (0x1C, AMAXU)] f"

definition dec_priv :: "u32 \<Rightarrow> rv option" where
  "dec_priv w =
     (if funct7 w = 0x09 \<and> rd_i w = 0 then Some I_SFENCE
      else if rd_i w \<noteq> 0 \<or> rs1_i w \<noteq> 0 then None
      else map_of [(0x000, I_ECALL), (0x001, I_EBREAK), (0x102, I_SRET), (0x302, I_MRET), (0x105, I_WFI)] (funct12 w))"

definition rv_decode :: "u32 \<Rightarrow> rv option" where
  "rv_decode w =
     (let op = opcode w; f3 = funct3 w; f7 = funct7 w; rd = rd_i w; rs1 = rs1_i w; rs2 = rs2_i w in
      if op = 0x37 then Some (I_LUI rd (imm_u w))
      else if op = 0x17 then Some (I_AUIPC rd (imm_u w))
      else if op = 0x6F then Some (I_JAL rd (imm_j w))
      else if op = 0x67 then (if f3 = 0 then Some (I_JALR rd rs1 (imm_i w)) else None)
      else if op = 0x63 then map_option (\<lambda>c. I_BRANCH c rs1 rs2 (imm_b w)) (dec_branch f3)
      else if op = 0x03 then map_option (\<lambda>(s, sx). I_LOAD s sx rd rs1 (imm_i w)) (dec_load f3)
      else if op = 0x23 then map_option (\<lambda>s. I_STORE s rs1 rs2 (imm_s w)) (dec_store f3)
      else if op = 0x13 then map_option (\<lambda>k. I_OPIMM k rd rs1 (imm_i w)) (dec_arith_imm f7 f3)
      else if op = 0x33
      then (if f7 = 1
            then (case dec_mul f3 of Some k \<Rightarrow> Some (I_MUL k rd rs1 rs2)
                  | None \<Rightarrow> map_option (\<lambda>k. I_DIV k rd rs1 rs2) (dec_div f3))
            else map_option (\<lambda>k. I_OP k rd rs1 rs2) (dec_arith (f7, f3)))
      else if op = 0x2F
      then (if f3 \<noteq> 2 then None
            else if amo_funct5 w = 0x02 then (if rs2 = 0 then Some (I_LR rd rs1) else None)
            else if amo_funct5 w = 0x03 then Some (I_SC rd rs1 rs2)
            else map_option (\<lambda>k. I_AMO k rd rs1 rs2) (dec_amo (amo_funct5 w)))
      else if op = 0x0F then (if f3 = 0 \<or> f3 = 1 then Some I_FENCE else None)
      else if op = 0x73 then (if f3 = 0 then dec_priv w else if f3 = 4 then None else Some (I_CSR rd))
      else None)"

section \<open>Meaning\<close>

text \<open>
  An instruction may compute for a while, ask for a memory access and wait for the word it returns; in the
  end it retires, with the register it writes, the next pc and the reservation, or it raises an exception with
  its trap value. A write is the function it applies to the word.
\<close>

datatype mem_op = Rd u32 | Wr u32 "u32 \<Rightarrow> u32"

datatype act =
    Retire "(reg \<times> u32) option" u32 "30 word option"
  | Raise u32 u32
  | Access mem_op act
  | Await bool u32 "u32 \<Rightarrow> act"
  | Compute act

text \<open>What an instruction reads: the state of the hart, and of its CSR file what matters here.\<close>

record ctx =
  cx_pc :: u32
  cx_reg :: "reg \<Rightarrow> u32"
  cx_resv :: "30 word option"
  cx_priv :: "2 word"
  cx_tvm :: bool
  cx_tsr :: bool
  cx_mepc :: u32
  cx_sepc :: u32
  cx_csr_ok :: bool
  cx_csr_val :: u32

definition arith_fn :: "arith \<Rightarrow> u32 \<Rightarrow> u32 \<Rightarrow> u32" where
  "arith_fn k a b =
     (let sh = nat (uint b mod 32) in
      case k of
        ADD \<Rightarrow> a + b
      | SUB \<Rightarrow> a - b
      | SLL \<Rightarrow> word_of_int (uint a * 2 ^ sh)
      | SLT \<Rightarrow> if sint a < sint b then 1 else 0
      | SLTU \<Rightarrow> if uint a < uint b then 1 else 0
      | XORR \<Rightarrow> a XOR b
      | SRL \<Rightarrow> word_of_int (uint a div 2 ^ sh)
      | SRA \<Rightarrow> word_of_int (sint a div 2 ^ sh)
      | ORR \<Rightarrow> a OR b
      | ANDR \<Rightarrow> a AND b)"

definition cond_fn :: "bcond \<Rightarrow> u32 \<Rightarrow> u32 \<Rightarrow> bool" where
  "cond_fn k a b =
     (case k of BEQ \<Rightarrow> a = b | BNE \<Rightarrow> a \<noteq> b | BLT \<Rightarrow> sint a < sint b | BGE \<Rightarrow> sint b \<le> sint a
      | BLTU \<Rightarrow> uint a < uint b | BGEU \<Rightarrow> uint b \<le> uint a)"

definition mul_fn :: "mulop \<Rightarrow> u32 \<Rightarrow> u32 \<Rightarrow> u32" where
  "mul_fn k a b =
     (case k of MUL \<Rightarrow> word_of_int (uint a * uint b)
      | MULH \<Rightarrow> word_of_int (sint a * sint b div 2 ^ 32)
      | MULHSU \<Rightarrow> word_of_int (sint a * uint b div 2 ^ 32)
      | MULHU \<Rightarrow> word_of_int (uint a * uint b div 2 ^ 32))"

definition div_fn :: "divop \<Rightarrow> u32 \<Rightarrow> u32 \<Rightarrow> u32" where
  "div_fn k a b =
     (case k of DIVS \<Rightarrow> rv_div True False a b | DIVU \<Rightarrow> rv_div False False a b
      | REMS \<Rightarrow> rv_div True True a b | REMU \<Rightarrow> rv_div False True a b)"

definition amo_fn :: "amoop \<Rightarrow> u32 \<Rightarrow> u32 \<Rightarrow> u32" where
  "amo_fn k old v =
     (case k of ASWAP \<Rightarrow> v | AADD \<Rightarrow> old + v | AXOR \<Rightarrow> old XOR v | AAND \<Rightarrow> old AND v | AOR \<Rightarrow> old OR v
      | AMIN \<Rightarrow> word_of_int (min (sint old) (sint v)) | AMAX \<Rightarrow> word_of_int (max (sint old) (sint v))
      | AMINU \<Rightarrow> word_of_int (min (uint old) (uint v)) | AMAXU \<Rightarrow> word_of_int (max (uint old) (uint v)))"

definition bytes_of :: "width \<Rightarrow> nat" where
  "bytes_of s = (case s of BYTE \<Rightarrow> 1 | HALF \<Rightarrow> 2 | WRD \<Rightarrow> 4)"

definition misaligned :: "width \<Rightarrow> u32 \<Rightarrow> bool" where
  "misaligned s a \<longleftrightarrow> unat a mod bytes_of s \<noteq> 0"

text \<open>The part of a memory word that an access at byte address \<open>a\<close> reads or replaces.\<close>

definition read_part :: "width \<Rightarrow> bool \<Rightarrow> u32 \<Rightarrow> u32 \<Rightarrow> u32" where
  "read_part s sx a d =
     (let k = 8 * (unat a mod 4) in
      case s of
        BYTE \<Rightarrow> if sx then scast (fld k d :: u8) else ucast (fld k d :: u8)
      | HALF \<Rightarrow> if sx then scast (fld k d :: 16 word) else ucast (fld k d :: 16 word)
      | WRD \<Rightarrow> d)"

definition write_part :: "width \<Rightarrow> u32 \<Rightarrow> u32 \<Rightarrow> u32 \<Rightarrow> u32" where
  "write_part s a v d =
     (let k = 8 * (unat a mod 4) in
      case s of BYTE \<Rightarrow> put_fld k (fld 0 v :: u8) d | HALF \<Rightarrow> put_fld k (fld 0 v :: 16 word) d | WRD \<Rightarrow> v)"

definition word_addr :: "u32 \<Rightarrow> u32" where "word_addr a = a - of_nat (unat a mod 4)"

definition jump :: "(reg \<times> u32) option \<Rightarrow> u32 \<Rightarrow> ctx \<Rightarrow> act" where
  "jump wr t c = (if unat t mod 4 \<noteq> 0 then Raise 0 t else Retire wr t (cx_resv c))"

definition retire :: "(reg \<times> u32) option \<Rightarrow> ctx \<Rightarrow> act" where
  "retire wr c = Retire wr (cx_pc c + 4) (cx_resv c)"

definition illegal :: "u32 \<Rightarrow> act" where "illegal w = Raise 2 w"

definition rv_load :: "u32 \<Rightarrow> width \<Rightarrow> bool \<Rightarrow> reg \<Rightarrow> ctx \<Rightarrow> act" where
  "rv_load a s sx rd c =
     (if misaligned s a then Raise 4 a
      else Access (Rd (word_addr a)) (Await False a (\<lambda>d. retire (Some (rd, read_part s sx a d)) c)))"

definition rv_store :: "u32 \<Rightarrow> width \<Rightarrow> u32 \<Rightarrow> ctx \<Rightarrow> act" where
  "rv_store a s v c =
     (if misaligned s a then Raise 6 a
      else Access (Wr (word_addr a) (write_part s a v)) (Await True a (\<lambda>_. retire None c)))"

definition rv_lr :: "u32 \<Rightarrow> reg \<Rightarrow> ctx \<Rightarrow> act" where
  "rv_lr a rd c =
     (if misaligned WRD a then Raise 4 a
      else Access (Rd (word_addr a)) (Await False a (\<lambda>d. retire (Some (rd, d)) (c\<lparr>cx_resv := Some (fld 2 a)\<rparr>))))"

definition rv_sc :: "u32 \<Rightarrow> reg \<Rightarrow> u32 \<Rightarrow> ctx \<Rightarrow> act" where
  "rv_sc a rd v c =
     (let c' = c\<lparr>cx_resv := None\<rparr> in
      if misaligned WRD a then Raise 6 a
      else if cx_resv c = Some (fld 2 a)
      then Access (Wr (word_addr a) (\<lambda>_. v)) (Await True a (\<lambda>_. retire (Some (rd, 0)) c'))
      else retire (Some (rd, 1)) c')"

definition rv_amo :: "amoop \<Rightarrow> u32 \<Rightarrow> reg \<Rightarrow> u32 \<Rightarrow> ctx \<Rightarrow> act" where
  "rv_amo k a rd v c =
     (if misaligned WRD a then Raise 6 a
      else Access (Rd (word_addr a)) (Await True a (\<lambda>old.
             Access (Wr (word_addr a) (\<lambda>_. amo_fn k old v)) (Await True a (\<lambda>_.
               retire (Some (rd, old)) (c\<lparr>cx_resv := None\<rparr>))))))"

fun rv_act :: "u32 \<Rightarrow> ctx \<Rightarrow> rv \<Rightarrow> act" where
  "rv_act w c (I_LUI rd k) = retire (Some (rd, k)) c"
| "rv_act w c (I_AUIPC rd k) = retire (Some (rd, cx_pc c + k)) c"
| "rv_act w c (I_JAL rd k) = jump (Some (rd, cx_pc c + 4)) (cx_pc c + k) c"
| "rv_act w c (I_JALR rd rs k) = jump (Some (rd, cx_pc c + 4)) (put_bit 0 False (cx_reg c rs + k)) c"
| "rv_act w c (I_BRANCH b r1 r2 k) =
     (if cond_fn b (cx_reg c r1) (cx_reg c r2) then jump None (cx_pc c + k) c else retire None c)"
| "rv_act w c (I_LOAD s sx rd rs k) = rv_load (cx_reg c rs + k) s sx rd c"
| "rv_act w c (I_STORE s r1 r2 k) = rv_store (cx_reg c r1 + k) s (cx_reg c r2) c"
| "rv_act w c (I_OPIMM f rd rs k) = retire (Some (rd, arith_fn f (cx_reg c rs) k)) c"
| "rv_act w c (I_OP f rd r1 r2) = retire (Some (rd, arith_fn f (cx_reg c r1) (cx_reg c r2))) c"
| "rv_act w c (I_MUL f rd r1 r2) = retire (Some (rd, mul_fn f (cx_reg c r1) (cx_reg c r2))) c"
| "rv_act w c (I_DIV f rd r1 r2) = Compute (retire (Some (rd, div_fn f (cx_reg c r1) (cx_reg c r2))) c)"
| "rv_act w c (I_LR rd rs) = rv_lr (cx_reg c rs) rd c"
| "rv_act w c (I_SC rd r1 r2) = rv_sc (cx_reg c r1) rd (cx_reg c r2) c"
| "rv_act w c (I_AMO f rd r1 r2) = rv_amo f (cx_reg c r1) rd (cx_reg c r2) c"
| "rv_act w c I_FENCE = retire None c"
| "rv_act w c (I_CSR rd) = (if cx_csr_ok c then retire (Some (rd, cx_csr_val c)) c else illegal w)"
| "rv_act w c I_ECALL = Raise (if cx_priv c = PRV_U then 8 else if cx_priv c = PRV_S then 9 else 11) 0"
| "rv_act w c I_EBREAK = Raise 3 0"
| "rv_act w c I_MRET = (if cx_priv c = PRV_M then Retire None (cx_mepc c) (cx_resv c) else illegal w)"
| "rv_act w c I_SRET =
     (if cx_priv c = PRV_U \<or> (cx_priv c = PRV_S \<and> cx_tsr c) then illegal w else Retire None (cx_sepc c) (cx_resv c))"
| "rv_act w c I_WFI = retire None c"
| "rv_act w c I_SFENCE =
     (if cx_priv c = PRV_U \<or> (cx_priv c = PRV_S \<and> cx_tvm c) then illegal w else retire None c)"

definition isa_act :: "u32 \<Rightarrow> ctx \<Rightarrow> act" where
  "isa_act w c = (case rv_decode w of None \<Rightarrow> illegal w | Some r \<Rightarrow> rv_act w c r)"

text \<open>Reserved encodings that the manuals leave open, and the core executes instead of trapping.\<close>

definition reserved :: "u32 \<Rightarrow> bool" where
  "reserved w \<longleftrightarrow>
     opcode w = 0x67 \<and> funct3 w \<noteq> 0 \<or> opcode w = 0x63 \<and> dec_branch (funct3 w) = None \<or>
     opcode w = 0x03 \<and> dec_load (funct3 w) = None \<or> opcode w = 0x23 \<and> dec_store (funct3 w) = None \<or>
     opcode w = 0x0F \<and> funct3 w \<noteq> 0 \<and> funct3 w \<noteq> 1 \<or> opcode w = 0x73 \<and> funct3 w = 4 \<or>
     opcode w = 0x73 \<and> funct3 w = 0 \<and> funct12 w \<in> {0, 1} \<and> (rd_i w \<noteq> 0 \<or> rs1_i w \<noteq> 0)"

end
