(* ===== verification/Rv32_Datapath.thy ===== *)
theory Rv32_Datapath
  imports Rv32_Spec
begin

text \<open>
  The datapath of the core against the RISC-V reference: the ALU, the multiplier, branch conditions, atomic
  results, alignment checks, store lanes and load extension.
\<close>

unbundle bit_operations_syntax

section \<open>Datapath\<close>

lemma shamt: "unat (fld 0 b :: 5 word) = nat (uint (b :: u32) mod 32)"
  by (simp add: unat_fld nat_mod_distrib)

lemma push_int: "push_bit n a = (word_of_int (uint a * 2 ^ n) :: u32)"
  by (rule bit_word_eqI) (auto simp: bit_push_bit_iff bit_word_of_int_iff bit_uint_iff dest: bit_imp_le_length simp flip: push_bit_eq_mult)

lemma drop_int: "drop_bit n a = (word_of_int (uint a div 2 ^ n) :: u32)"
  by (rule bit_word_eqI) (auto simp: bit_drop_bit_eq bit_word_of_int_iff bit_uint_iff dest: bit_imp_le_length simp flip: drop_bit_eq_div)

lemma sdrop_int: "signed_drop_bit n a = (word_of_int (sint a div 2 ^ n) :: u32)"
  by (rule bit_word_eqI) (auto simp: bit_signed_drop_bit_iff bit_word_of_int_iff bit_drop_bit_eq bit_sint_iff dest: bit_imp_le_length simp flip: drop_bit_eq_div)

lemma alu_arith:
  assumes "dec_arith (f7, f3) = Some k"
  shows "alu (alu_op_of f3 (bit f7 5) (bit f7 5)) a b = arith_fn k a b"
proof -
  have b: "bit (0x20 :: 7 word) 5" by code_simp
  show ?thesis using assms
    by (auto simp: dec_arith_def alu_op_of_def alu_def alu_ops arith_fn_def shamt push_int drop_int sdrop_int b
        alu_lt_def alu_ltu_def bw_def word_less_def Let_def split: if_splits)
qed


lemma alu_arith_imm:
  assumes "dec_arith_imm f7 f3 = Some k"
  shows "alu (alu_op_of f3 False (bit f7 5)) a b = arith_fn k a b"
proof -
  have b: "bit (0x20 :: 7 word) 5" by code_simp
  show ?thesis using assms
    by (auto simp: dec_arith_imm_def dec_arith_def alu_op_of_def alu_def alu_ops arith_fn_def shamt push_int drop_int sdrop_int b
        alu_lt_def alu_ltu_def bw_def word_less_def Let_def split: if_splits)
qed

lemma branch_cond:
  assumes "dec_branch (funct3 w) = Some k"
  shows "branch_taken w a b = cond_fn k a b"
  using assms
  by (auto simp: dec_branch_def branch_taken_def cond_fn_def alu_eq_def alu_lt_def alu_ltu_def word_less_def Let_def split: if_splits)

lemma mul_exact:
  "mul_unit a b sa sb hi =
     word_of_int (if hi then operand sa a * operand sb b div 2 ^ 32 else operand sa a * operand sb b)"
proof -
  have "fld 32 (word_of_int P :: 66 word) = (word_of_int (drop_bit 32 P) :: u32)"
    and "fld 0 (word_of_int P :: 66 word) = (word_of_int P :: u32)" for P
    by (auto intro!: bit_word_eqI simp: bit_fld bit_word_of_int_iff bit_drop_bit_eq)
  then show ?thesis unfolding mul_unit_def mul_product Let_def by (simp only: drop_bit_eq_div split: if_split) simp
qed

lemma mul_meaning:
  assumes "dec_mul (funct3 w) = Some k"
  shows "mul_result w a b = mul_fn k a b"
  using assms
  by (auto simp: dec_mul_def mul_result_def mul_exact mul_fn_def operand_def split: if_splits)

lemma amo_meaning:
  assumes "dec_amo (amo_funct5 w) = Some k"
  shows "amo_result w old v = amo_fn k old v"
  using assms
  by (auto simp: dec_amo_def amo_result_def amo_fn_def word_less_def min_def max_def Let_def split: if_splits)

section \<open>Alignment and lanes\<close>

lemma low2_unat: "unat (low2 a) = unat a mod 4"
  by (simp add: low2_def unat_fld)

lemma low2_zero: "low2 a = 0 \<longleftrightarrow> unat a mod 4 = 0"
  by (simp add: word_unat_eq_iff low2_unat)

lemma low2_cases: "low2 a = of_nat (unat a mod 4)"
  by (simp add: word_unat_eq_iff low2_unat unat_of_nat)

lemma bit0_mod: "bit a 0 \<longleftrightarrow> unat (a :: u32) mod 2 \<noteq> 0"
  by (simp add: u32_bits odd_iff_mod_2_eq_one)

lemma bit1_mod: "bit a 1 \<longleftrightarrow> 2 \<le> unat (a :: u32) mod 4"
proof -
  have "unat a div 2 mod 2 = unat a mod 4 div 2" by presburger
  then show ?thesis by (simp add: u32_bits odd_iff_mod_2_eq_one) presburger
qed

lemma word_addr_align: "word_cat (fld 2 a :: 30 word) (0 :: 2 word) = word_addr a"
proof -
  have "unat (word_cat (fld 2 a :: 30 word) (0 :: 2 word) :: u32) = unat a div 4 * 4"
  proof -
    have "unat a div 4 < 1073741824" using unat_u32_less[of a] by (simp add: div_less_iff_less_mult)
    then show ?thesis
      by (simp add: word_cat_eq push_bit_eq_mult unat_word_ariths unat_fld unsigned_ucast_eq take_bit_eq_mod)
  qed
  moreover have "unat (word_addr a) = unat a - unat a mod 4"
    by (simp add: word_addr_def unat_sub_if_size unat_of_nat)
  moreover have "unat a div 4 * 4 = unat a - unat a mod 4" by (simp add: minus_mod_eq_div_mult)
  ultimately show ?thesis by (simp add: word_unat_eq_iff)
qed


lemma mod4_cases:
  obtains "unat (a :: u32) mod 4 = 0" | "unat a mod 4 = 1" | "unat a mod 4 = 2" | "unat a mod 4 = 3"
proof -
  have "unat a mod 4 < 4" by simp
  then show thesis using that by (auto simp: less_4_cases)
qed

lemma low2_eqs:
  "unat a mod 4 = 0 \<Longrightarrow> low2 a = 0" "unat a mod 4 = 1 \<Longrightarrow> low2 a = 1"
  "unat a mod 4 = 2 \<Longrightarrow> low2 a = 2" "unat a mod 4 = 3 \<Longrightarrow> low2 a = 3"
  by (simp_all add: low2_cases)

lemma ls_aligned_load:
  assumes "dec_load (funct3 w) = Some (s, sx)"
  shows "ls_misaligned w a = misaligned s a"
proof -
  have "unat a mod 2 \<noteq> 0 \<longleftrightarrow> bit a 0" by (simp add: bit0_mod)
  then show ?thesis using assms
    by (auto simp: dec_load_def ls_misaligned_def misaligned_def bytes_of_def low2_zero split: if_splits)
qed

lemma ls_aligned_store:
  assumes "dec_store (funct3 w) = Some s"
  shows "ls_misaligned w a = misaligned s a"
proof -
  have "unat a mod 2 \<noteq> 0 \<longleftrightarrow> bit a 0" by (simp add: bit0_mod)
  then show ?thesis using assms
    by (auto simp: dec_store_def ls_misaligned_def misaligned_def bytes_of_def low2_zero split: if_splits)
qed

lemma amo_aligned: "is_amo w \<Longrightarrow> amo_misaligned w a = misaligned WRD a"
  by (simp add: amo_misaligned_def misaligned_def bytes_of_def low2_zero)

lemma bit1_eqs:
  "unat (a :: u32) mod 4 = 0 \<Longrightarrow> \<not> bit a (Suc 0)" "unat a mod 4 = 1 \<Longrightarrow> \<not> bit a (Suc 0)"
  "unat a mod 4 = 2 \<Longrightarrow> bit a (Suc 0)" "unat a mod 4 = 3 \<Longrightarrow> bit a (Suc 0)"
  using bit1_mod[of a] by simp_all

lemma nat_7: "7 \<le> n \<Longrightarrow> n < 8 \<Longrightarrow> n = (7 :: nat)" and nat_15: "15 \<le> n \<Longrightarrow> n < 16 \<Longrightarrow> n = (15 :: nat)"
  by simp_all

lemma ext_byte: "word_cat (rep (bit b 7) :: 24 word) (b :: u8) = (scast b :: u32)"
  "word_cat (0 :: 24 word) (b :: u8) = (ucast b :: u32)"
  by (rule bit_word_eqI, auto simp: bit_word_cat_iff bit_rep bit_signed_iff bit_ucast_iff min_def dest: bit_imp_le_length nat_7)+

lemma ext_half: "word_cat (rep (bit h 15) :: 16 word) (h :: 16 word) = (scast h :: u32)"
  "word_cat (0 :: 16 word) (h :: 16 word) = (ucast h :: u32)"
  by (rule bit_word_eqI, auto simp: bit_word_cat_iff bit_rep bit_signed_iff bit_ucast_iff min_def dest: bit_imp_le_length nat_15)+

lemma load_meaning:
  assumes "dec_load f = Some (s, sx)" "\<not> misaligned s a"
  shows "load_result f a d = read_part s sx a d"
proof -
  have half: "unat a mod 2 = 0 \<Longrightarrow> unat a mod 4 = 0 \<or> unat a mod 4 = 2" by presburger
  show ?thesis
    using mod4_cases[of a] assms half
    by (cases rule: mod4_cases[of a])
      (auto simp: dec_load_def load_result_def read_part_def misaligned_def bytes_of_def low2_eqs bit1_eqs ext_byte ext_half
        Let_def split: if_splits)
qed

lemma bit_mask4: "bit (1 :: 4 word) k \<longleftrightarrow> k = 0" "bit (2 :: 4 word) k \<longleftrightarrow> k = 1" "bit (4 :: 4 word) k \<longleftrightarrow> k = 2"
  "bit (8 :: 4 word) k \<longleftrightarrow> k = 3" "bit (3 :: 4 word) k \<longleftrightarrow> k = 0 \<or> k = 1" "bit (12 :: 4 word) k \<longleftrightarrow> k = 2 \<or> k = 3"
proof -
  have b: "bit (w :: 4 word) k \<longleftrightarrow> k < 4 \<and> odd (unat w div 2 ^ k)" for w
    using bit_iff_odd[of "unat w" k] bit_unsigned_iff[of w k, where 'a = nat] by (auto dest: bit_imp_le_length)
  show "bit (1 :: 4 word) k \<longleftrightarrow> k = 0" "bit (2 :: 4 word) k \<longleftrightarrow> k = 1" "bit (4 :: 4 word) k \<longleftrightarrow> k = 2"
    "bit (8 :: 4 word) k \<longleftrightarrow> k = 3" "bit (3 :: 4 word) k \<longleftrightarrow> k = 0 \<or> k = 1" "bit (12 :: 4 word) k \<longleftrightarrow> k = 2 \<or> k = 3"
    unfolding b by (auto simp: less_4_cases)
qed

lemma store_meaning:
  assumes "dec_store (funct3 w) = Some s" "\<not> misaligned s a" "store_lanes w a v = (d, m)"
  shows "apply_wmask old d m = write_part s a v old"
proof -
  have half: "unat a mod 2 = 0 \<Longrightarrow> unat a mod 4 = 0 \<or> unat a mod 4 = 2" by presburger
  show ?thesis
  proof (cases s)
    case BYTE
    then have f: "funct3 w = 0" using assms(1) by (auto simp: dec_store_def split: if_splits)
    show ?thesis using assms(3) f BYTE
      by (cases rule: mod4_cases[of a]; intro word_eq_lanesI)
        (auto simp: store_lanes_def low2_eqs write_part_def Let_def less_4_cases byte_of_apply_wmask bit_mask4
          intro!: bit_word_eqI simp: bit_byte_of bit_word_cat_iff bit_put_fld bit_fld bit_ucast_iff)
  next
    case HALF
    then have f: "funct3 w = 1" using assms(1) by (auto simp: dec_store_def split: if_splits)
    show ?thesis using assms(2,3) f HALF half
      by (cases rule: mod4_cases[of a]; intro word_eq_lanesI)
        (auto simp: store_lanes_def misaligned_def bytes_of_def bit1_eqs write_part_def Let_def less_4_cases byte_of_apply_wmask bit_mask4
          intro!: bit_word_eqI simp: bit_byte_of bit_word_cat_iff bit_put_fld bit_fld bit_ucast_iff)
  next
    case WRD
    then have f: "funct3 w = 2" using assms(1) by (auto simp: dec_store_def split: if_splits)
    then show ?thesis using assms(3) WRD by (simp add: store_lanes_def write_part_def)
  qed
qed

end
