(* ===== verification/Core_Mc.thy ===== *)
theory Core_Mc
  imports Core_Decode Bus
begin

text \<open>
  The multi-cycle RV32IMA core, \<open>rtl/core/core_multicycle.sv\<close>: its state machine around the register
  file, the CSR file and the divider. One \<open>mc_step\<close> is one clock cycle. The simulation-only traces and
  the wires that only copy CSR fields to the MMU are left out.
\<close>

unbundle bit_operations_syntax

section \<open>State, inputs and outputs\<close>

datatype mc_fsm = MC_FETCH | MC_EXEC | MC_MEM | MC_DIV | MC_AMO_STORE | MC_AMO_WAIT

record mc =
  mc_state :: mc_fsm
  mc_pc :: u32
  mc_instr :: u32
  mc_inflight :: bool
  mc_squash :: bool
  mc_mem_addr :: u32
  mc_funct3 :: "3 word"
  mc_rd :: "5 word"
  mc_pc_of_mem :: u32
  mc_instr_of_mem :: u32
  mc_is_load :: bool
  mc_is_lr :: bool
  mc_is_sc :: bool
  mc_is_rmw :: bool
  mc_amo_old :: u32
  mc_resv_valid :: bool
  mc_resv_addr :: "30 word"
  mc_rf :: regs
  mc_csr :: csrs
  mc_div :: div_unit

record mc_in =
  ni_if_ready :: bool
  ni_if_rsp :: bool
  ni_if_data :: u32
  ni_if_fault :: bool
  ni_if_pagefault :: bool
  ni_dm_ready :: bool
  ni_dm_rsp :: bool
  ni_dm_rdata :: u32
  ni_dm_fault :: bool
  ni_dm_pagefault :: bool
  ni_mti :: bool
  ni_msi :: bool
  ni_mei :: bool
  ni_sei :: bool
  ni_mtime :: u64

text \<open>An instruction leaving the core.\<close>

record commit =
  cm_pc :: u32
  cm_insn :: u32
  cm_rd_wen :: bool
  cm_rd_addr :: "5 word"
  cm_rd_data :: u32
  cm_trap :: bool
  cm_cause :: u32

record mc_out =
  no_if_req :: bool
  no_if_addr :: u32
  no_dm :: bus_req
  no_dm_size :: "2 word"
  no_csr_en :: bool
  no_div_start :: bool
  no_irq_trap :: bool
  no_commit :: "commit option"

section \<open>The sub-blocks as the core sees them\<close>

definition rs1_data :: "mc \<Rightarrow> u32" where "rs1_data x = rf_read (mc_rf x) (rs1_i (mc_instr x))"
definition rs2_data :: "mc \<Rightarrow> u32" where "rs2_data x = rf_read (mc_rf x) (rs2_i (mc_instr x))"

definition mc_alu_y :: "mc \<Rightarrow> u32" where
  "mc_alu_y x = alu_y (mc_instr x) (mc_pc x) (rs1_data x) (rs2_data x)"

text \<open>The CSR ports that depend on the instruction and the interrupt lines only.\<close>

definition csr_query :: "mc_in \<Rightarrow> mc \<Rightarrow> csr_in" where
  "csr_query i x =
     (let w = mc_instr x in
      \<lparr>ci_en = False, ci_op = funct3 w, ci_addr = funct12 w, ci_rs1_or_imm = rs1_i w,
       ci_wdata = (if bit (funct3 w) 2 then ucast (rs1_i w) else rs1_data x),
       ci_trap = False, ci_trap_pc = 0, ci_trap_cause = 0, ci_trap_tval = 0, ci_mret = False, ci_sret = False,
       ci_retire = False, ci_mti = ni_mti i, ci_msi = ni_msi i, ci_mei = ni_mei i, ci_sei = ni_sei i,
       ci_mtime = ni_mtime i\<rparr>)"

definition mc_exec_trap :: "mc_in \<Rightarrow> mc \<Rightarrow> (u32 \<times> u32) option" where
  "mc_exec_trap i x =
     exec_trap (mc_instr x) (mc_pc x) (rs1_data x) (rs2_data x) (mc_csr x) (csr_illegal (csr_query i x) (mc_csr x))"

definition trap_tvec :: "mc_in \<Rightarrow> mc \<Rightarrow> u32 \<Rightarrow> u32" where
  "trap_tvec i x cause =
     (if trap_to_s ((csr_query i x)\<lparr>ci_trap := True, ci_trap_cause := cause\<rparr>) (mc_csr x)
      then stvec (mc_csr x) else mtvec (mc_csr x))"

definition vec_base :: "u32 \<Rightarrow> u32" where "vec_base v = put_fld 0 (0 :: 2 word) v"

definition irq_vector :: "u32 \<Rightarrow> u32 \<Rightarrow> u32" where
  "irq_vector v cause =
     (if bit v 0 then vec_base v + word_cat (0 :: 26 word) (word_cat (fld 0 cause :: 4 word) (0 :: 2 word) :: 6 word)
      else vec_base v)"

definition sc_hit :: "mc \<Rightarrow> bool" where
  "sc_hit x = (mc_resv_valid x \<and> mc_resv_addr x = fld 2 (mc_alu_y x))"

definition div_input :: "bool \<Rightarrow> mc \<Rightarrow> div_in" where
  "div_input start x =
     \<lparr>di_start = start, di_signed = (\<not> bit (funct3 (mc_instr x)) 0), di_want_rem = bit (funct3 (mc_instr x)) 1,
      di_dividend = rs1_data x, di_divisor = rs2_data x\<rparr>"

section \<open>The state machine\<close>

text \<open>What every state starts from.\<close>

definition quiet_out :: "mc \<Rightarrow> mc_out" where
  "quiet_out x =
     \<lparr>no_if_req = False, no_if_addr = mc_pc x, no_dm = no_req, no_dm_size = 2, no_csr_en = False,
      no_div_start = False, no_irq_trap = False, no_commit = None\<rparr>"

definition commit_rd :: "u32 \<Rightarrow> u32 \<Rightarrow> bool \<Rightarrow> 5 word \<Rightarrow> u32 \<Rightarrow> commit" where
  "commit_rd pc w en rd v =
     \<lparr>cm_pc = pc, cm_insn = w, cm_rd_wen = (en \<and> rd \<noteq> 0), cm_rd_addr = rd, cm_rd_data = v, cm_trap = False, cm_cause = 0\<rparr>"

definition commit_plain :: "u32 \<Rightarrow> u32 \<Rightarrow> commit" where
  "commit_plain pc w =
     \<lparr>cm_pc = pc, cm_insn = w, cm_rd_wen = False, cm_rd_addr = 0, cm_rd_data = 0, cm_trap = False, cm_cause = 0\<rparr>"

definition commit_trap :: "u32 \<Rightarrow> u32 \<Rightarrow> u32 \<Rightarrow> commit" where
  "commit_trap pc w cause =
     \<lparr>cm_pc = pc, cm_insn = w, cm_rd_wen = False, cm_rd_addr = 0, cm_rd_data = 0, cm_trap = True, cm_cause = cause\<rparr>"

definition dm_req :: "u32 \<Rightarrow> bool \<Rightarrow> u32 \<Rightarrow> 4 word \<Rightarrow> bus_req" where
  "dm_req a wen d m =
     \<lparr>rq_valid = True, rq_addr = word_cat (fld 2 a :: 30 word) (0 :: 2 word), rq_wen = wen, rq_wdata = d, rq_wmask = m\<rparr>"

text \<open>A response clears the in-flight and squash flags.\<close>

definition fetch_default :: "mc_in \<Rightarrow> mc \<Rightarrow> mc" where
  "fetch_default i x = (if mc_inflight x \<and> ni_if_rsp i then x\<lparr>mc_inflight := False, mc_squash := False\<rparr> else x)"

definition mc_fetch :: "mc_in \<Rightarrow> mc \<Rightarrow> mc \<times> mc_out" where
  "mc_fetch i x =
     (let y = fetch_default i x; o0 = quiet_out x; q = csr_query i x in
      if irq_pending q (mc_csr x)
      then (let cause = irq_cause q (mc_csr x) in
            (y\<lparr>mc_pc := irq_vector (trap_tvec i x cause) cause,
               mc_squash := (if mc_inflight x \<and> \<not> ni_if_rsp i then True else mc_squash y)\<rparr>,
             o0\<lparr>no_irq_trap := True, no_commit := Some (commit_trap (mc_pc x) 0 cause)\<rparr>))
      else
        (let o1 = o0\<lparr>no_if_req := True\<rparr>;
             z = (if ni_if_ready i \<and> \<not> mc_inflight x then y\<lparr>mc_inflight := True\<rparr> else y) in
         if ni_if_rsp i \<and> mc_inflight x \<and> \<not> mc_squash x
         then (if ni_if_fault i \<or> ni_if_pagefault i
               then (let cause = (if ni_if_pagefault i then CAUSE_INSN_PAGE_FAULT else CAUSE_INSN_ACCESS_FAULT) in
                     (z\<lparr>mc_pc := vec_base (trap_tvec i x cause)\<rparr>,
                      o1\<lparr>no_commit := Some (commit_trap (mc_pc x) 0 cause)\<rparr>))
               else (z\<lparr>mc_instr := ni_if_data i, mc_state := MC_EXEC\<rparr>, o1))
         else (z, o1)))"

text \<open>A memory access leaves the execute state when the request is accepted.\<close>

definition mc_issue :: "mc_in \<Rightarrow> mc \<Rightarrow> bus_req \<Rightarrow> 2 word \<Rightarrow> 3 word \<Rightarrow> bool \<times> bool \<times> bool \<times> bool \<Rightarrow> mc \<Rightarrow> mc \<times> mc_out" where
  "mc_issue i x r sz f3 kind y =
     (let (ld, lr, sc, rmw) = kind in
      (if ni_dm_ready i
       then y\<lparr>mc_mem_addr := mc_alu_y x, mc_funct3 := f3, mc_rd := rd_i (mc_instr x), mc_pc_of_mem := mc_pc x,
              mc_instr_of_mem := mc_instr x, mc_is_load := ld, mc_is_lr := lr, mc_is_sc := sc, mc_is_rmw := rmw,
              mc_resv_valid := mc_resv_valid x \<and> \<not> sc, mc_state := MC_MEM\<rparr>
       else y,
       (quiet_out x)\<lparr>no_dm := r, no_dm_size := sz\<rparr>))"

definition ls_wmask :: "u32 \<Rightarrow> u32 \<Rightarrow> u32 \<Rightarrow> 4 word" where
  "ls_wmask w a rs2 =
     (if is_store w then snd (store_lanes w a rs2)
      else if funct3 w = 0 \<or> funct3 w = 4 then 1 else if funct3 w = 1 \<or> funct3 w = 5 then 3 else 15)"

definition ls_size :: "u32 \<Rightarrow> 2 word" where
  "ls_size w = (if funct3 w = 0 \<or> funct3 w = 4 then 0 else if funct3 w = 1 \<or> funct3 w = 5 then 1 else 2)"

definition next_pc :: "u32 \<Rightarrow> u32 \<Rightarrow> u32 \<Rightarrow> u32 \<Rightarrow> u32" where
  "next_pc w pc rs1 rs2 =
     (if is_jal w then jal_target w pc
      else if is_jalr w then jalr_target w rs1
      else if is_branch w \<and> branch_taken w rs1 rs2 then branch_target w pc
      else pc + 4)"

definition wb_en :: "u32 \<Rightarrow> bool" where
  "wb_en w = (is_lui w \<or> is_auipc w \<or> is_jal w \<or> is_jalr w \<or> is_op_imm w \<or> is_op w \<or> is_csr w)"

definition mc_exec :: "mc_in \<Rightarrow> mc \<Rightarrow> mc \<times> mc_out" where
  "mc_exec i x =
     (let y = fetch_default i x; w = mc_instr x; pc = mc_pc x; rs1 = rs1_data x; rs2 = rs2_data x; a = mc_alu_y x;
          o0 = (quiet_out x)\<lparr>no_csr_en := is_csr w \<and> mc_exec_trap i x = None\<rparr> in
      case mc_exec_trap i x of
        Some (cause, tval) \<Rightarrow>
          (y\<lparr>mc_pc := vec_base (trap_tvec i x cause), mc_resv_valid := False, mc_state := MC_FETCH\<rparr>,
           o0\<lparr>no_commit := Some (commit_trap pc w cause)\<rparr>)
      | None \<Rightarrow>
          if is_mret w
          then (y\<lparr>mc_pc := mepc (mc_csr x), mc_state := MC_FETCH\<rparr>, o0\<lparr>no_commit := Some (commit_plain pc w)\<rparr>)
          else if is_sret w
          then (y\<lparr>mc_pc := sepc (mc_csr x), mc_state := MC_FETCH\<rparr>, o0\<lparr>no_commit := Some (commit_plain pc w)\<rparr>)
          else if is_load w \<or> is_store w
          then mc_issue i x (dm_req a (is_store w) (fst (store_lanes w a rs2)) (ls_wmask w a rs2)) (ls_size w)
                 (funct3 w) (is_load w, False, False, False) y
          else if is_lr w
          then mc_issue i x (dm_req a False 0 15) 2 2 (True, True, False, False) y
          else if is_sc w
          then (if sc_hit x then mc_issue i x (dm_req a True rs2 15) 2 2 (False, False, True, False) y
                else (y\<lparr>mc_pc := pc + 4, mc_resv_valid := False, mc_state := MC_FETCH\<rparr>,
                      o0\<lparr>no_commit := Some (commit_rd pc w True (rd_i w) 1)\<rparr>))
          else if is_amo_rmw w
          then mc_issue i x (dm_req a False 0 15) 2 2 (True, False, False, True) y
          else if is_div_variant w
          then (y\<lparr>mc_rd := rd_i w, mc_pc_of_mem := pc, mc_instr_of_mem := w, mc_state := MC_DIV\<rparr>,
                o0\<lparr>no_div_start := True\<rparr>)
          else (y\<lparr>mc_pc := next_pc w pc rs1 rs2, mc_state := MC_FETCH\<rparr>,
                o0\<lparr>no_commit := Some (commit_rd pc w (wb_en w) (rd_i w)
                     (arith_wb w pc rs1 rs2 (read_value (csr_query i x) (mc_csr x))))\<rparr>))"

definition mem_cause :: "mc_in \<Rightarrow> bool \<Rightarrow> u32" where
  "mem_cause i store =
     (if ni_dm_pagefault i then (if store then CAUSE_STORE_PAGE_FAULT else CAUSE_LOAD_PAGE_FAULT)
      else (if store then CAUSE_STORE_ACCESS_FAULT else CAUSE_LOAD_ACCESS_FAULT))"

definition mc_mem :: "mc_in \<Rightarrow> mc \<Rightarrow> mc \<times> mc_out" where
  "mc_mem i x =
     (let y = fetch_default i x; o0 = quiet_out x; pc = mc_pc_of_mem x; w = mc_instr_of_mem x in
      if \<not> ni_dm_rsp i then (y, o0)
      else if ni_dm_fault i \<or> ni_dm_pagefault i
      then (let cause = mem_cause i (mc_is_sc x \<or> mc_is_rmw x \<or> \<not> mc_is_load x) in
            (y\<lparr>mc_pc := vec_base (trap_tvec i x cause), mc_resv_valid := False, mc_is_lr := False, mc_is_sc := False,
               mc_is_rmw := False, mc_state := MC_FETCH\<rparr>,
             o0\<lparr>no_commit := Some (commit_trap pc w cause)\<rparr>))
      else if mc_is_rmw x
      then (y\<lparr>mc_amo_old := ni_dm_rdata i, mc_state := MC_AMO_STORE\<rparr>, o0)
      else
        (let en = mc_is_sc x \<or> mc_is_load x;
             v = (if mc_is_sc x then 0 else load_result (mc_funct3 x) (mc_mem_addr x) (ni_dm_rdata i)) in
         (y\<lparr>mc_resv_valid := mc_resv_valid x \<or> mc_is_lr x,
            mc_resv_addr := (if mc_is_lr x then fld 2 (mc_mem_addr x) else mc_resv_addr x),
            mc_is_lr := False, mc_is_sc := False, mc_pc := pc + 4, mc_state := MC_FETCH\<rparr>,
          o0\<lparr>no_commit := Some (commit_rd pc w en (mc_rd x) v)\<rparr>)))"

definition mc_amo_store :: "mc_in \<Rightarrow> mc \<Rightarrow> mc \<times> mc_out" where
  "mc_amo_store i x =
     (let y = fetch_default i x in
      (if ni_dm_ready i then y\<lparr>mc_state := MC_AMO_WAIT\<rparr> else y,
       (quiet_out x)\<lparr>no_dm := dm_req (mc_mem_addr x) True (amo_result (mc_instr x) (mc_amo_old x) (rs2_data x)) 15\<rparr>))"

definition mc_amo_wait :: "mc_in \<Rightarrow> mc \<Rightarrow> mc \<times> mc_out" where
  "mc_amo_wait i x =
     (let y = fetch_default i x; o0 = quiet_out x; pc = mc_pc_of_mem x; w = mc_instr_of_mem x in
      if \<not> ni_dm_rsp i then (y, o0)
      else if ni_dm_fault i \<or> ni_dm_pagefault i
      then (let cause = mem_cause i True in
            (y\<lparr>mc_pc := vec_base (trap_tvec i x cause), mc_resv_valid := False, mc_is_rmw := False, mc_state := MC_FETCH\<rparr>,
             o0\<lparr>no_commit := Some (commit_trap pc w cause)\<rparr>))
      else (y\<lparr>mc_resv_valid := False, mc_is_rmw := False, mc_pc := pc + 4, mc_state := MC_FETCH\<rparr>,
            o0\<lparr>no_commit := Some (commit_rd pc w True (mc_rd x) (mc_amo_old x))\<rparr>))"

definition mc_wait_div :: "mc_in \<Rightarrow> mc \<Rightarrow> mc \<times> mc_out" where
  "mc_wait_div i x =
     (let y = fetch_default i x; o0 = quiet_out x; pc = mc_pc_of_mem x in
      if dv_done (mc_div x)
      then (y\<lparr>mc_pc := pc + 4, mc_state := MC_FETCH\<rparr>,
            o0\<lparr>no_commit := Some (commit_rd pc (mc_instr_of_mem x) True (mc_rd x) (dv_result (mc_div x)))\<rparr>)
      else (y, o0))"

definition mc_comb :: "mc_in \<Rightarrow> mc \<Rightarrow> mc \<times> mc_out" where
  "mc_comb i x =
     (case mc_state x of
        MC_FETCH \<Rightarrow> mc_fetch i x
      | MC_EXEC \<Rightarrow> mc_exec i x
      | MC_MEM \<Rightarrow> mc_mem i x
      | MC_DIV \<Rightarrow> mc_wait_div i x
      | MC_AMO_STORE \<Rightarrow> mc_amo_store i x
      | MC_AMO_WAIT \<Rightarrow> mc_amo_wait i x)"

definition mc_dm_rsp_ready :: "mc \<Rightarrow> bool" where
  "mc_dm_rsp_ready x = (mc_state x = MC_MEM \<or> mc_state x = MC_AMO_WAIT)"

section \<open>The clock edge\<close>

text \<open>The CSR port, with the trap and return wires.\<close>

definition mc_csr_in :: "mc_in \<Rightarrow> mc \<Rightarrow> mc_out \<Rightarrow> csr_in" where
  "mc_csr_in i x out =
     (let tr = mc_exec_trap i x; in_mem = mc_state x = MC_MEM \<or> mc_state x = MC_AMO_WAIT;
          trap = (case no_commit out of Some c \<Rightarrow> cm_trap c | None \<Rightarrow> False) in
      (csr_query i x)\<lparr>ci_en := no_csr_en out,
        ci_trap := trap, ci_trap_pc := (if in_mem then mc_pc_of_mem x else mc_pc x),
        ci_trap_cause := (case no_commit out of Some c \<Rightarrow> cm_cause c | None \<Rightarrow> 0),
        ci_trap_tval :=
          (if mc_state x = MC_EXEC then (case tr of Some (_, t) \<Rightarrow> t | None \<Rightarrow> 0)
           else if in_mem then mc_mem_addr x
           else if mc_state x = MC_FETCH \<and> no_irq_trap out then 0
           else mc_pc x),
        ci_mret := (mc_state x = MC_EXEC \<and> is_mret (mc_instr x) \<and> tr = None),
        ci_sret := (mc_state x = MC_EXEC \<and> is_sret (mc_instr x) \<and> tr = None),
        ci_retire := (case no_commit out of Some c \<Rightarrow> \<not> cm_trap c | None \<Rightarrow> False)\<rparr>)"

text \<open>SFENCE.VMA as the MMU sees it.\<close>

definition mc_sfence :: "mc \<Rightarrow> mc_out \<Rightarrow> bool" where
  "mc_sfence x out =
     (is_sfence (mc_instr x) \<and> (case no_commit out of Some c \<Rightarrow> \<not> cm_trap c | None \<Rightarrow> False))"

text \<open>The write port of the register file carries what the commit shows.\<close>

definition mc_rf_next :: "mc_out \<Rightarrow> regs \<Rightarrow> regs" where
  "mc_rf_next out rf =
     (case no_commit out of Some c \<Rightarrow> rf_step (cm_rd_wen c) (cm_rd_addr c) (cm_rd_data c) rf | None \<Rightarrow> rf)"

definition mc_reset :: "u32 \<Rightarrow> mc \<Rightarrow> mc" where
  "mc_reset RESET_PC x =
     x\<lparr>mc_state := MC_FETCH, mc_pc := RESET_PC, mc_instr := 0x13, mc_inflight := False, mc_squash := False,
       mc_mem_addr := 0, mc_funct3 := 0, mc_rd := 0, mc_pc_of_mem := 0, mc_instr_of_mem := 0x13, mc_is_load := False,
       mc_is_lr := False, mc_is_sc := False, mc_is_rmw := False, mc_amo_old := 0, mc_resv_valid := False,
       mc_resv_addr := 0\<rparr>"

definition mc_step :: "u32 \<Rightarrow> bool \<Rightarrow> mc_in \<Rightarrow> mc \<Rightarrow> mc" where
  "mc_step RESET_PC rst i x =
     (let (y, out) = mc_comb i x; z = (if rst then mc_reset RESET_PC x else y) in
      z\<lparr>mc_rf := mc_rf_next out (mc_rf x), mc_csr := csr_step rst (mc_csr_in i x out) (mc_csr x),
        mc_div := div_step rst (div_input (no_div_start out) x) (mc_div x)\<rparr>)"

end
