(* ===== verification/Core_Isa.thy ===== *)
theory Core_Isa
  imports Rv32_Datapath Core_Mc
begin

text \<open>
  The multi-cycle core executes RV32IMA: the execute cycle does what the reference meaning of the latched
  instruction begins with (\<open>exec_meaning\<close>), the waiting states finish it (\<open>wait_meaning\<close>), and the
  CSR and fence wires follow the decoder (\<open>exec_csr_port\<close>). One lemma per class of instructions.
\<close>

unbundle bit_operations_syntax

section \<open>Decoding agrees\<close>

lemmas class_defs = is_lui_def is_auipc_def is_jal_def is_jalr_def is_branch_def is_load_def is_store_def is_op_imm_def
  is_op_def is_system_def is_amo_def is_lr_def is_sc_def is_amo_rmw_def is_priv_def is_ecall_def is_ebreak_def
  is_mret_def is_sret_def is_sfence_def is_csr_def is_muldiv_def is_mul_variant_def is_div_variant_def opcodes

lemma three_cases: "(f3 :: 3 word) = 0 \<or> f3 = 1 \<or> f3 = 2 \<or> f3 = 3 \<or> f3 = 4 \<or> f3 = 5 \<or> f3 = 6 \<or> f3 = 7"
proof -
  have "unat f3 < 8" using unsigned_less[of f3, where 'a = nat] by simp
  then show ?thesis unfolding word_unat_eq_iff by simp presburger
qed

lemma op_legal_dec: "f7 \<noteq> 1 \<Longrightarrow> op_legal f7 f3 = (dec_arith (f7, f3) \<noteq> None)"
proof -
  note three_cases[of f3]
  moreover assume "f7 \<noteq> 1"
  ultimately show ?thesis by (elim disjE) (auto simp: op_legal_def dec_arith_def split: if_splits)
qed

lemma amo_dec: "amo_funct5 w \<in> {0x01, 0x00, 0x04, 0x0C, 0x08, 0x10, 0x14, 0x18, 0x1C} \<longleftrightarrow> dec_amo (amo_funct5 w) \<noteq> None"
  by (auto simp: dec_amo_def split: if_splits)

lemma three_bits: "bit (f3 :: 3 word) 2 \<longleftrightarrow> f3 = 4 \<or> f3 = 5 \<or> f3 = 6 \<or> f3 = 7"
proof -
  have "unat f3 < 8" using unsigned_less[of f3, where 'a = nat] by simp
  moreover have "bit f3 2 \<longleftrightarrow> odd (unat f3 div 4)"
    using bit_iff_odd[of "unat f3" 2] bit_unsigned_iff[of f3 2, where 'a = nat] by simp
  ultimately show ?thesis unfolding word_unat_eq_iff by simp presburger
qed

lemma muldiv_dec:
  "(dec_mul f3 \<noteq> None) = (\<not> bit f3 2)" "(dec_div f3 \<noteq> None) = bit f3 2"
proof -
  show "(dec_mul f3 \<noteq> None) = (\<not> bit f3 2)" "(dec_div f3 \<noteq> None) = bit f3 2"
    unfolding three_bits using three_cases[of f3] by (auto simp: dec_mul_def dec_div_def)
qed

section \<open>The state of the hart, and what it is doing\<close>

definition resv_of :: "mc \<Rightarrow> 30 word option" where
  "resv_of x = (if mc_resv_valid x then Some (mc_resv_addr x) else None)"

definition mc_ctx :: "mc_in \<Rightarrow> mc \<Rightarrow> ctx" where
  "mc_ctx i x =
     \<lparr>cx_pc = mc_pc x, cx_reg = rf_read (mc_rf x), cx_resv = resv_of x, cx_priv = priv_mode (mc_csr x),
      cx_tvm = bit (mstatus (mc_csr x)) 20, cx_tsr = bit (mstatus (mc_csr x)) 22, cx_mepc = mepc (mc_csr x),
      cx_sepc = sepc (mc_csr x), cx_csr_ok = (\<not> csr_illegal (csr_query i x) (mc_csr x)),
      cx_csr_val = read_value (csr_query i x) (mc_csr x)\<rparr>"

definition div_goal :: "div_unit \<Rightarrow> u32 \<Rightarrow> bool" where
  "div_goal d r \<longleftrightarrow> (\<exists>d0 j js. dv_state d0 = S_IDLE \<and> di_start j \<and> length js \<le> div_latency j \<and>
     d = div_run js (div_step False j d0) \<and> r = rv_div (di_signed j) (di_want_rem j) (di_dividend j) (di_divisor j))"

definition amo_wait_act :: "mc \<Rightarrow> u32 \<Rightarrow> act" where
  "amo_wait_act x old =
     Await True (mc_mem_addr x) (\<lambda>_. Retire (Some (mc_rd x, old)) (mc_pc_of_mem x + 4) None)"

definition amo_store_act :: "mc \<Rightarrow> u32 \<Rightarrow> act" where
  "amo_store_act x old =
     Access (Wr (word_addr (mc_mem_addr x)) (\<lambda>_. amo_result (mc_instr x) old (rs2_data x))) (amo_wait_act x old)"

definition mem_act :: "mc \<Rightarrow> act" where
  "mem_act x =
     Await (mc_is_sc x \<or> mc_is_rmw x \<or> \<not> mc_is_load x) (mc_mem_addr x) (\<lambda>d.
       if mc_is_rmw x then amo_store_act x d
       else Retire
         (if mc_is_sc x then Some (mc_rd x, 0)
          else if mc_is_load x then Some (mc_rd x, load_result (mc_funct3 x) (mc_mem_addr x) d) else None)
         (mc_pc_of_mem x + 4) (if mc_is_lr x then Some (fld 2 (mc_mem_addr x)) else resv_of x))"

text \<open>What is left of the instruction in a state after the execute cycle.\<close>

definition mc_doing :: "mc \<Rightarrow> act \<Rightarrow> bool" where
  "mc_doing x a \<longleftrightarrow> mc_pc_of_mem x = mc_pc x \<and> mc_instr_of_mem x = mc_instr x \<and>
     (case mc_state x of
        MC_MEM \<Rightarrow> a = mem_act x
      | MC_AMO_STORE \<Rightarrow> mc_is_rmw x \<and> a = amo_store_act x (mc_amo_old x)
      | MC_AMO_WAIT \<Rightarrow> mc_is_rmw x \<and> a = amo_wait_act x (mc_amo_old x)
      | MC_DIV \<Rightarrow> \<exists>r. div_goal (mc_div x) r \<and> a = Compute (Retire (Some (mc_rd x, r)) (mc_pc_of_mem x + 4) (resv_of x))
      | _ \<Rightarrow> False)"

fun op_matches :: "mem_op \<Rightarrow> bus_req \<Rightarrow> bool" where
  "op_matches (Rd a) r \<longleftrightarrow> rq_valid r \<and> \<not> rq_wen r \<and> rq_addr r = a"
| "op_matches (Wr a f) r \<longleftrightarrow> rq_valid r \<and> rq_wen r \<and> rq_addr r = a \<and>
     (\<forall>old. apply_wmask old (rq_wdata r) (rq_wmask r) = f old)"

definition write_reg :: "(reg \<times> u32) option \<Rightarrow> regs \<Rightarrow> regs" where
  "write_reg wr rf = (case wr of None \<Rightarrow> rf | Some (rd, v) \<Rightarrow> rf_step True rd v rf)"

text \<open>The cycle performs the end of an instruction: retirement, or a precise exception.\<close>

definition retires :: "u32 \<Rightarrow> mc_in \<Rightarrow> mc \<Rightarrow> (reg \<times> u32) option \<Rightarrow> u32 \<Rightarrow> 30 word option \<Rightarrow> bool" where
  "retires P i x wr npc rv \<longleftrightarrow> (let y = mc_step P False i x; out = snd (mc_comb i x); c = mc_csr_in i x out in
     mc_state y = MC_FETCH \<and> mc_pc y = npc \<and> resv_of y = rv \<and> mc_rf y = write_reg wr (mc_rf x) \<and>
     \<not> rq_valid (no_dm out) \<and> ci_retire c \<and> \<not> ci_trap c \<and>
     (\<exists>k. no_commit out = Some k \<and> \<not> cm_trap k \<and> cm_pc k = mc_pc x \<and> cm_insn k = mc_instr x))"

definition raises :: "u32 \<Rightarrow> mc_in \<Rightarrow> mc \<Rightarrow> u32 \<Rightarrow> u32 \<Rightarrow> bool" where
  "raises P i x cause tval \<longleftrightarrow> (let y = mc_step P False i x; out = snd (mc_comb i x); c = mc_csr_in i x out in
     mc_state y = MC_FETCH \<and> mc_pc y = vec_base (trap_tvec i x cause) \<and> resv_of y = None \<and> mc_rf y = mc_rf x \<and>
     \<not> rq_valid (no_dm out) \<and> no_commit out = Some (commit_trap (mc_pc x) (mc_instr x) cause) \<and>
     \<not> ci_retire c \<and> ci_trap c \<and> ci_trap_pc c = mc_pc x \<and> ci_trap_cause c = cause \<and> ci_trap_tval c = tval)"

text \<open>The cycle leaves the instruction in flight: no commit, no CSR access.\<close>

definition silent :: "mc_in \<Rightarrow> mc \<Rightarrow> bool" where
  "silent i x \<longleftrightarrow> (let out = snd (mc_comb i x); c = mc_csr_in i x out in
     no_commit out = None \<and> \<not> ci_en c \<and> \<not> ci_trap c \<and> \<not> ci_retire c \<and> \<not> ci_mret c \<and> \<not> ci_sret c)"


definition same_hart :: "mc \<Rightarrow> mc \<Rightarrow> bool" where
  "same_hart y x \<longleftrightarrow> mc_state y = mc_state x \<and> mc_pc y = mc_pc x \<and> mc_instr y = mc_instr x \<and>
     mc_rf y = mc_rf x \<and> resv_of y = resv_of x"

text \<open>An execute cycle does what \<open>a\<close> begins with.\<close>

definition exec_agrees :: "u32 \<Rightarrow> mc_in \<Rightarrow> mc \<Rightarrow> act \<Rightarrow> bool" where
  "exec_agrees P i x a \<longleftrightarrow> (let y = mc_step P False i x; out = snd (mc_comb i x) in
     case a of
       Retire wr npc rv \<Rightarrow> retires P i x wr npc rv
     | Raise c t \<Rightarrow> raises P i x c t
     | Access op k \<Rightarrow> silent i x \<and> op_matches op (no_dm out) \<and> (if ni_dm_ready i then mc_doing y k else same_hart y x)
     | Compute k \<Rightarrow> silent i x \<and> \<not> rq_valid (no_dm out) \<and> mc_doing y (Compute k)
     | Await s t k \<Rightarrow> False)"

section \<open>The execute cycle\<close>

lemma fetch_default_keeps:
  "mc_state (fetch_default i x) = mc_state x" "mc_pc (fetch_default i x) = mc_pc x"
  "mc_instr (fetch_default i x) = mc_instr x" "mc_mem_addr (fetch_default i x) = mc_mem_addr x"
  "mc_funct3 (fetch_default i x) = mc_funct3 x" "mc_rd (fetch_default i x) = mc_rd x"
  "mc_pc_of_mem (fetch_default i x) = mc_pc_of_mem x" "mc_instr_of_mem (fetch_default i x) = mc_instr_of_mem x"
  "mc_is_load (fetch_default i x) = mc_is_load x" "mc_is_lr (fetch_default i x) = mc_is_lr x"
  "mc_is_sc (fetch_default i x) = mc_is_sc x" "mc_is_rmw (fetch_default i x) = mc_is_rmw x"
  "mc_amo_old (fetch_default i x) = mc_amo_old x" "mc_resv_valid (fetch_default i x) = mc_resv_valid x"
  "mc_resv_addr (fetch_default i x) = mc_resv_addr x" "mc_rf (fetch_default i x) = mc_rf x"
  "mc_csr (fetch_default i x) = mc_csr x" "mc_div (fetch_default i x) = mc_div x"
  by (simp_all add: fetch_default_def)

lemma step_fields:
  "mc_step P False i x = (let (y, out) = mc_comb i x in
     y\<lparr>mc_rf := mc_rf_next out (mc_rf x), mc_csr := csr_step False (mc_csr_in i x out) (mc_csr x),
       mc_div := div_step False (div_input (no_div_start out) x) (mc_div x)\<rparr>)"
  by (simp add: mc_step_def)

lemmas commit_defs = commit_rd_def commit_plain_def commit_trap_def

lemma exec_raise:
  assumes "mc_state x = MC_EXEC" "mc_exec_trap i x = Some (c, t)"
  shows "raises P i x c t"
  using assms
  by (simp add: raises_def step_fields mc_comb_def mc_exec_def fetch_default_keeps Let_def resv_of_def mc_rf_next_def
      commit_defs rf_step_def quiet_out_def no_req_def mc_csr_in_def)

lemma exec_single:
  fixes x :: mc
  defines "w \<equiv> mc_instr x"
  assumes "mc_state x = MC_EXEC" "mc_exec_trap i x = None" "\<not> is_mret w" "\<not> is_sret w" "\<not> is_load w" "\<not> is_store w"
    "\<not> is_amo w" "\<not> is_div_variant w"
  shows "retires P i x (if wb_en w then Some (rd_i w, arith_wb w (mc_pc x) (rs1_data x) (rs2_data x)
      (read_value (csr_query i x) (mc_csr x))) else None) (next_pc w (mc_pc x) (rs1_data x) (rs2_data x)) (resv_of x)"
  using assms
  by (simp add: retires_def step_fields mc_comb_def mc_exec_def fetch_default_keeps Let_def resv_of_def mc_rf_next_def
      commit_defs rf_step_def quiet_out_def no_req_def mc_csr_in_def is_lr_def is_sc_def is_amo_rmw_def write_reg_def)

lemma exec_mret:
  assumes "mc_state x = MC_EXEC" "mc_exec_trap i x = None" "is_mret (mc_instr x)"
  shows "retires P i x None (mepc (mc_csr x)) (resv_of x)"
  using assms
  by (simp add: retires_def step_fields mc_comb_def mc_exec_def fetch_default_keeps Let_def resv_of_def mc_rf_next_def
      commit_defs rf_step_def quiet_out_def no_req_def mc_csr_in_def write_reg_def)

lemma exec_sret:
  assumes "mc_state x = MC_EXEC" "mc_exec_trap i x = None" "\<not> is_mret (mc_instr x)" "is_sret (mc_instr x)"
  shows "retires P i x None (sepc (mc_csr x)) (resv_of x)"
  using assms
  by (simp add: retires_def step_fields mc_comb_def mc_exec_def fetch_default_keeps Let_def resv_of_def mc_rf_next_def
      commit_defs rf_step_def quiet_out_def no_req_def mc_csr_in_def write_reg_def)

lemma exec_sc_fail:
  assumes "mc_state x = MC_EXEC" "mc_exec_trap i x = None" "is_sc (mc_instr x)" "\<not> sc_hit x"
  shows "retires P i x (Some (rd_i (mc_instr x), 1)) (mc_pc x + 4) None"
proof -
  have f: "\<not> is_lr (mc_instr x)" "\<not> is_mret (mc_instr x)" "\<not> is_sret (mc_instr x)" "\<not> is_load (mc_instr x)" "\<not> is_store (mc_instr x)"
    using assms(3) by (auto simp: class_defs)
  show ?thesis using assms f
    by (simp add: retires_def step_fields mc_comb_def mc_exec_def fetch_default_keeps Let_def resv_of_def mc_rf_next_def
        commit_defs rf_step_def quiet_out_def no_req_def mc_csr_in_def write_reg_def)
qed

definition issue_act :: "mc \<Rightarrow> 3 word \<Rightarrow> bool \<Rightarrow> bool \<Rightarrow> bool \<Rightarrow> bool \<Rightarrow> act" where
  "issue_act x f3 ld lr sc rmw =
     (let a = mc_alu_y x; rd = rd_i (mc_instr x); n = mc_pc x + 4 in
      Await (sc \<or> rmw \<or> \<not> ld) a (\<lambda>d.
        if rmw
        then Access (Wr (word_addr a) (\<lambda>_. amo_result (mc_instr x) d (rs2_data x))) (Await True a (\<lambda>_. Retire (Some (rd, d)) n None))
        else Retire (if sc then Some (rd, 0) else if ld then Some (rd, load_result f3 a d) else None) n
          (if lr then Some (fld 2 a) else if sc then None else resv_of x)))"

lemma exec_issue:
  fixes x :: mc and i :: mc_in
  assumes "mc_state x = MC_EXEC" "mc_exec_trap i x = None" "\<not> is_csr (mc_instr x)" "\<not> is_mret (mc_instr x)" "\<not> is_sret (mc_instr x)"
    and e: "mc_exec i x = mc_issue i x r sz f3 (ld, lr, sc, rmw) (fetch_default i x)" and m: "op_matches op r"
  shows "exec_agrees P i x (Access op (issue_act x f3 ld lr sc rmw))"
proof -
  let ?y = "mc_step P False i x"
  have s: "silent i x"
    using assms(1-5) e
    by (simp add: silent_def mc_comb_def mc_issue_def quiet_out_def mc_csr_in_def csr_query_def Let_def)
  have o: "no_dm (snd (mc_comb i x)) = r" using assms(1) e by (simp add: mc_comb_def mc_issue_def Let_def)
  have d: "mc_doing ?y (issue_act x f3 ld lr sc rmw)" if "ni_dm_ready i"
  proof -
    have y: "mc_state ?y = MC_MEM" "mc_mem_addr ?y = mc_alu_y x" "mc_funct3 ?y = f3" "mc_rd ?y = rd_i (mc_instr x)"
      "mc_pc_of_mem ?y = mc_pc x" "mc_instr_of_mem ?y = mc_instr x" "mc_pc ?y = mc_pc x" "mc_instr ?y = mc_instr x"
      "mc_is_load ?y = ld" "mc_is_lr ?y = lr" "mc_is_sc ?y = sc" "mc_is_rmw ?y = rmw" "mc_rf ?y = mc_rf x"
      "resv_of ?y = (if sc then None else resv_of x)"
      using that assms(1) e
      by (simp_all add: step_fields mc_comb_def mc_issue_def Let_def mc_rf_next_def quiet_out_def fetch_default_keeps resv_of_def)
    then have "rs2_data ?y = rs2_data x" by (simp add: rs2_data_def)
    then show ?thesis
      by (simp add: mc_doing_def mem_act_def amo_store_act_def amo_wait_act_def issue_act_def y Let_def cong: if_cong)
  qed
  have h: "same_hart ?y x" if "\<not> ni_dm_ready i"
    using that assms(1) e
    by (simp add: same_hart_def step_fields mc_comb_def mc_issue_def Let_def fetch_default_keeps mc_rf_next_def
        quiet_out_def resv_of_def)
  show ?thesis using s o m d h by (simp add: exec_agrees_def Let_def)
qed

lemma exec_div:
  fixes x :: mc
  defines "w \<equiv> mc_instr x"
  assumes "mc_state x = MC_EXEC" "mc_exec_trap i x = None" "is_div_variant w" "dv_state (mc_div x) = S_IDLE"
  shows "exec_agrees P i x (Compute (Retire (Some (rd_i w, rv_div (\<not> bit (funct3 w) 0) (bit (funct3 w) 1) (rs1_data x) (rs2_data x)))
    (mc_pc x + 4) (resv_of x)))"
proof -
  have f: "\<not> is_csr w" "\<not> is_mret w" "\<not> is_sret w" "\<not> is_load w" "\<not> is_store w" "\<not> is_amo w"
    using assms(4) by (auto simp: class_defs)
  have e: "mc_exec i x = (let y = fetch_default i x in
     (y\<lparr>mc_rd := rd_i w, mc_pc_of_mem := mc_pc x, mc_instr_of_mem := w, mc_state := MC_DIV\<rparr>, (quiet_out x)\<lparr>no_div_start := True\<rparr>))"
    using assms(3,4) f unfolding w_def
    by (simp add: mc_exec_def Let_def is_lr_def is_sc_def is_amo_rmw_def quiet_out_def)
  have g: "div_goal (div_step False (div_input True x) (mc_div x))
      (rv_div (\<not> bit (funct3 w) 0) (bit (funct3 w) 1) (rs1_data x) (rs2_data x))"
    unfolding div_goal_def using assms(5)
    by (intro exI[of _ "mc_div x"] exI[of _ "div_input True x"] exI[of _ "[]"]) (simp add: div_input_def w_def)
  have s: "silent i x"
    using assms(2) f e
    by (simp add: silent_def mc_comb_def quiet_out_def mc_csr_in_def csr_query_def Let_def w_def)
  show ?thesis using s assms(2) e g
    by (simp add: exec_agrees_def mc_doing_def step_fields mc_comb_def Let_def fetch_default_keeps quiet_out_def no_req_def
        resv_of_def w_def)
qed


lemma agrees_simps:
  "exec_agrees P i x (Retire wr npc rv) = retires P i x wr npc rv"
  "exec_agrees P i x (Raise c t) = raises P i x c t"
  by (simp_all add: exec_agrees_def)

lemma ctx_simps:
  "cx_pc (mc_ctx i x) = mc_pc x" "cx_reg (mc_ctx i x) = rf_read (mc_rf x)" "cx_resv (mc_ctx i x) = resv_of x"
  "cx_priv (mc_ctx i x) = priv_mode (mc_csr x)" "cx_tvm (mc_ctx i x) = bit (mstatus (mc_csr x)) 20"
  "cx_tsr (mc_ctx i x) = bit (mstatus (mc_csr x)) 22" "cx_mepc (mc_ctx i x) = mepc (mc_csr x)"
  "cx_sepc (mc_ctx i x) = sepc (mc_csr x)" "cx_csr_ok (mc_ctx i x) = (\<not> csr_illegal (csr_query i x) (mc_csr x))"
  "cx_csr_val (mc_ctx i x) = read_value (csr_query i x) (mc_csr x)"
  by (simp_all add: mc_ctx_def)

lemma alu_add: "alu 0 a b = a + b" "alu 10 a b = b"
  by (simp_all add: alu_def alu_ops)

lemmas trap_defs = mc_exec_trap_def exec_trap_def illegal_opcode_def target_misaligned_def class_defs
lemmas single_defs = wb_en_def next_pc_def arith_wb_def alu_y_def alu_sel_def class_defs alu_add ALU_ADD_def ALU_COPY_B_def
lemmas dec_defs = isa_act_def rv_decode_def retire_def ctx_simps rs1_data_def rs2_data_def illegal_def

lemma not_amo_div:
  "opcode w \<noteq> OP_AMO \<Longrightarrow> \<not> is_amo w" "opcode w \<noteq> OP_OP \<Longrightarrow> \<not> is_div_variant w"
  "opcode w \<noteq> OP_LOAD \<Longrightarrow> \<not> is_load w" "opcode w \<noteq> OP_STORE \<Longrightarrow> \<not> is_store w"
  "opcode w \<noteq> OP_SYSTEM \<Longrightarrow> \<not> is_mret w \<and> \<not> is_sret w \<and> \<not> is_csr w"
  by (simp_all add: class_defs)

lemma exec_simple:
  assumes "mc_state x = MC_EXEC" "mc_exec_trap i x = None" "opcode (mc_instr x) \<notin> {OP_LOAD, OP_STORE, OP_AMO, OP_SYSTEM}"
    "\<not> is_div_variant (mc_instr x)"
  shows "retires P i x (if wb_en (mc_instr x) then Some (rd_i (mc_instr x), arith_wb (mc_instr x) (mc_pc x) (rs1_data x) (rs2_data x)
      (read_value (csr_query i x) (mc_csr x))) else None) (next_pc (mc_instr x) (mc_pc x) (rs1_data x) (rs2_data x)) (resv_of x)"
  using assms not_amo_div by (intro exec_single) auto

lemma class_lui_auipc:
  assumes "mc_state x = MC_EXEC" "opcode (mc_instr x) = 0x37 \<or> opcode (mc_instr x) = 0x17"
  shows "exec_agrees P i x (isa_act (mc_instr x) (mc_ctx i x))"
proof -
  have t: "mc_exec_trap i x = None" using assms(2) by (elim disjE) (simp_all add: trap_defs)
  have "opcode (mc_instr x) \<notin> {OP_LOAD, OP_STORE, OP_AMO, OP_SYSTEM}" "\<not> is_div_variant (mc_instr x)"
    using assms(2) by (auto simp: class_defs)
  note r = exec_simple[OF assms(1) t this, of P]
  show ?thesis using assms(2) r by (elim disjE) (simp_all add: dec_defs single_defs agrees_simps)
qed

lemma class_jumps:
  assumes "mc_state x = MC_EXEC" "opcode (mc_instr x) = 0x6F \<or> opcode (mc_instr x) = 0x67" "\<not> reserved (mc_instr x)"
  shows "exec_agrees P i x (isa_act (mc_instr x) (mc_ctx i x))"
proof -
  let ?t = "if opcode (mc_instr x) = 0x6F then jal_target (mc_instr x) (mc_pc x) else jalr_target (mc_instr x) (rs1_data x)"
  have j: "jalr_target (mc_instr x) (rs1_data x) = put_bit 0 False (rs1_data x + imm_i (mc_instr x))"
    by (rule bit_word_eqI) (auto simp: jalr_target_def bit_put_bit bit_and_iff bit_not_iff bit_1_iff)
  have a: "isa_act (mc_instr x) (mc_ctx i x) = jump (Some (rd_i (mc_instr x), mc_pc x + 4)) ?t (mc_ctx i x)"
    using assms(2,3) by (elim disjE) (simp_all add: dec_defs reserved_def jal_target_def j[unfolded rs1_data_def])
  show ?thesis
  proof (cases "low2 ?t = 0")
    case True
    then have t: "mc_exec_trap i x = None" using assms(2) by (elim disjE) (simp_all add: trap_defs)
    have "opcode (mc_instr x) \<notin> {OP_LOAD, OP_STORE, OP_AMO, OP_SYSTEM}" "\<not> is_div_variant (mc_instr x)"
      using assms(2) by (auto simp: class_defs)
    note r = exec_simple[OF assms(1) t this, of P]
    show ?thesis using True r assms(2) unfolding a jump_def
      by (elim disjE) (simp_all add: low2_zero single_defs agrees_simps ctx_simps)
  next
    case False
    then have "mc_exec_trap i x = Some (0, ?t)"
      using assms(2) by (elim disjE) (simp_all add: trap_defs CAUSE_INSN_ADDR_MISALIGNED_def)
    then show ?thesis using False exec_raise[OF assms(1)] unfolding a jump_def by (simp add: low2_zero agrees_simps)
  qed
qed

lemma class_branch:
  assumes "mc_state x = MC_EXEC" "opcode (mc_instr x) = 0x63" "\<not> reserved (mc_instr x)"
  shows "exec_agrees P i x (isa_act (mc_instr x) (mc_ctx i x))"
proof -
  let ?w = "mc_instr x" let ?t = "branch_target ?w (mc_pc x)" let ?b = "branch_taken ?w (rs1_data x) (rs2_data x)"
  obtain k where k: "dec_branch (funct3 ?w) = Some k" using assms(2,3) by (auto simp: reserved_def)
  have a: "isa_act ?w (mc_ctx i x) = (if ?b then jump None ?t (mc_ctx i x) else retire None (mc_ctx i x))"
    using assms(2) by (simp add: dec_defs k branch_cond[OF k] branch_target_def)
  have o: "?w \<noteq> ?w \<or> opcode ?w \<notin> {OP_LOAD, OP_STORE, OP_AMO, OP_SYSTEM}" "\<not> is_div_variant ?w"
    using assms(2) by (auto simp: class_defs)
  show ?thesis
  proof (cases "?b \<and> low2 ?t \<noteq> 0")
    case False
    then have t: "mc_exec_trap i x = None" using assms(2) by (auto simp: trap_defs)
    note r = exec_simple[OF assms(1) t, of P]
    show ?thesis using False r o assms(2) unfolding a jump_def retire_def
      by (auto simp: low2_zero single_defs agrees_simps ctx_simps)
  next
    case True
    then have "mc_exec_trap i x = Some (0, ?t)"
      using assms(2) by (simp add: trap_defs CAUSE_INSN_ADDR_MISALIGNED_def)
    then show ?thesis using True exec_raise[OF assms(1)] unfolding a jump_def by (simp add: low2_zero agrees_simps)
  qed
qed


lemma class_arith:
  assumes "mc_state x = MC_EXEC" "opcode (mc_instr x) = 0x13 \<or> opcode (mc_instr x) = 0x33 \<and> funct7 (mc_instr x) \<noteq> 1"
  shows "exec_agrees P i x (isa_act (mc_instr x) (mc_ctx i x))"
proof -
  let ?w = "mc_instr x"
  let ?k = "if opcode ?w = 0x13 then dec_arith_imm (funct7 ?w) (funct3 ?w) else dec_arith (funct7 ?w, funct3 ?w)"
  have f: "funct3 ?w = 0 \<or> funct3 ?w = 1 \<or> funct3 ?w = 2 \<or> funct3 ?w = 3 \<or> funct3 ?w = 4 \<or> funct3 ?w = 5 \<or> funct3 ?w = 6 \<or> funct3 ?w = 7"
    by (rule three_cases)
  have imm: "(dec_arith_imm (funct7 ?w) (funct3 ?w) = None) \<longleftrightarrow>
      funct3 ?w = 1 \<and> funct7 ?w \<noteq> 0 \<or> funct3 ?w = 5 \<and> funct7 ?w \<noteq> 0 \<and> funct7 ?w \<noteq> 0x20"
    using f by (elim disjE) (auto simp: dec_arith_imm_def dec_arith_def)
  show ?thesis
  proof (cases ?k)
    case None
    have "mc_exec_trap i x = Some (2, ?w)"
      using None assms(2) imm op_legal_dec[of "funct7 ?w" "funct3 ?w"]
      by (auto simp: trap_defs CAUSE_ILLEGAL_INSN_def split: if_splits)
    moreover have "isa_act ?w (mc_ctx i x) = Raise 2 ?w"
      using None assms(2) by (auto simp: dec_defs split: if_splits)
    ultimately show ?thesis using exec_raise[OF assms(1)] by (simp add: agrees_simps)
  next
    case (Some k)
    then have t: "mc_exec_trap i x = None"
      using assms(2) imm op_legal_dec[of "funct7 ?w" "funct3 ?w"] by (auto simp: trap_defs split: if_splits)
    have o: "opcode ?w \<notin> {OP_LOAD, OP_STORE, OP_AMO, OP_SYSTEM}" "\<not> is_div_variant ?w"
      using assms(2) by (auto simp: class_defs)
    note r = exec_simple[OF assms(1) t o, of P]
    show ?thesis using assms(2)
    proof
      assume op: "opcode ?w = 0x13"
      then have "dec_arith_imm (funct7 ?w) (funct3 ?w) = Some k" using Some by simp
      from alu_arith_imm[OF this, of "rs1_data x" "imm_i ?w"] show ?thesis
        using r op Some by (simp add: dec_defs wb_en_def next_pc_def arith_wb_def alu_y_def alu_sel_def class_defs agrees_simps)
    next
      assume op: "opcode ?w = 0x33 \<and> funct7 ?w \<noteq> 1"
      then have "dec_arith (funct7 ?w, funct3 ?w) = Some k" using Some by simp
      from alu_arith[OF this, of "rs1_data x" "rs2_data x"] show ?thesis
        using r op Some by (simp add: dec_defs wb_en_def next_pc_def arith_wb_def alu_y_def alu_sel_def class_defs agrees_simps Let_def)
    qed
  qed
qed

lemma div_meaning:
  assumes "dec_div (funct3 w) = Some k"
  shows "rv_div (\<not> bit (funct3 w) 0) (bit (funct3 w) 1) a b = div_fn k a b"
proof -
  have "\<not> bit (4 :: 3 word) 0" "\<not> bit (4 :: 3 word) 1" "bit (5 :: 3 word) 0" "\<not> bit (5 :: 3 word) 1"
    "\<not> bit (6 :: 3 word) 0" "bit (6 :: 3 word) 1" "bit (7 :: 3 word) 0" "bit (7 :: 3 word) 1" by code_simp+
  then show ?thesis using assms by (auto simp: dec_div_def div_fn_def split: if_splits simp del: bit_0)
qed

lemma class_muldiv:
  assumes "mc_state x = MC_EXEC" "opcode (mc_instr x) = 0x33" "funct7 (mc_instr x) = 1" "dv_state (mc_div x) = S_IDLE"
  shows "exec_agrees P i x (isa_act (mc_instr x) (mc_ctx i x))"
proof -
  let ?w = "mc_instr x"
  have t: "mc_exec_trap i x = None" using assms(2,3) by (simp add: trap_defs op_legal_def)
  show ?thesis
  proof (cases "bit (funct3 ?w) 2")
    case False
    then obtain k where k: "dec_mul (funct3 ?w) = Some k" using muldiv_dec(1)[of "funct3 ?w"] by auto
    have o: "opcode ?w \<notin> {OP_LOAD, OP_STORE, OP_AMO, OP_SYSTEM}" "\<not> is_div_variant ?w"
      using assms(2) False by (auto simp: class_defs)
    show ?thesis using exec_simple[OF assms(1) t o, of P] assms(2,3) False k mul_meaning[OF k, of "rs1_data x" "rs2_data x"]
      by (simp add: dec_defs wb_en_def next_pc_def arith_wb_def class_defs agrees_simps)
  next
    case True
    then obtain k where k: "dec_div (funct3 ?w) = Some k" using muldiv_dec(2)[of "funct3 ?w"] by auto
    have "dec_mul (funct3 ?w) = None" using True muldiv_dec(1)[of "funct3 ?w"] by auto
    moreover have "is_div_variant ?w" using assms(2,3) True by (simp add: class_defs)
    ultimately show ?thesis using exec_div[OF assms(1) t _ assms(4), of P] assms(2,3) k
      by (simp add: dec_defs div_meaning[OF k, simplified])
  qed
qed

lemma alu_addr:
  "is_load (mc_instr x) \<Longrightarrow> mc_alu_y x = rs1_data x + imm_i (mc_instr x)"
  "is_store (mc_instr x) \<Longrightarrow> mc_alu_y x = rs1_data x + imm_s (mc_instr x)"
  "is_amo (mc_instr x) \<Longrightarrow> mc_alu_y x = rs1_data x"
  by (simp_all add: mc_alu_y_def alu_y_def alu_sel_def class_defs ALU_ADD_def alu_add)

lemma class_load:
  assumes "mc_state x = MC_EXEC" "opcode (mc_instr x) = 0x03" "\<not> reserved (mc_instr x)"
  shows "exec_agrees P i x (isa_act (mc_instr x) (mc_ctx i x))"
proof -
  let ?w = "mc_instr x" let ?a = "mc_alu_y x"
  obtain s sx where k: "dec_load (funct3 ?w) = Some (s, sx)" using assms(2,3) by (auto simp: reserved_def)
  have c: "is_load ?w" "\<not> is_csr ?w" "\<not> is_mret ?w" "\<not> is_sret ?w" "\<not> is_store ?w" using assms(2) by (simp_all add: class_defs)
  have a: "isa_act ?w (mc_ctx i x) = rv_load ?a s sx (rd_i ?w) (mc_ctx i x)"
    using assms(2) k by (simp add: dec_defs alu_addr(1)[OF c(1)])
  show ?thesis
  proof (cases "misaligned s ?a")
    case True
    then have "mc_exec_trap i x = Some (4, ?a)"
      using assms(2) ls_aligned_load[OF k, of ?a] by (simp add: trap_defs CAUSE_LOAD_ADDR_MISALIGNED_def mc_alu_y_def[symmetric])
    then show ?thesis using True exec_raise[OF assms(1)] unfolding a rv_load_def by (simp add: agrees_simps)
  next
    case False
    then have t: "mc_exec_trap i x = None"
      using assms(2) ls_aligned_load[OF k, of ?a] by (simp add: trap_defs mc_alu_y_def[symmetric])
    let ?r = "dm_req ?a False (fst (store_lanes ?w ?a (rs2_data x))) (ls_wmask ?w ?a (rs2_data x))"
    have e: "mc_exec i x = mc_issue i x ?r (ls_size ?w) (funct3 ?w) (True, False, False, False) (fetch_default i x)"
      using t c by (simp add: mc_exec_def Let_def)
    have m: "op_matches (Rd (word_addr ?a)) ?r" by (simp add: dm_req_def word_addr_align)
    have "exec_agrees P i x (Access (Rd (word_addr ?a)) (issue_act x (funct3 ?w) True False False False))"
      by (rule exec_issue[OF assms(1) t c(2-4) e m])
    moreover have "issue_act x (funct3 ?w) True False False False =
        Await False ?a (\<lambda>d. retire (Some (rd_i ?w, read_part s sx ?a d)) (mc_ctx i x))"
      by (simp add: issue_act_def Let_def load_meaning[OF k False] retire_def ctx_simps)
    ultimately show ?thesis using False unfolding a rv_load_def by simp
  qed
qed

lemma class_store:
  assumes "mc_state x = MC_EXEC" "opcode (mc_instr x) = 0x23" "\<not> reserved (mc_instr x)"
  shows "exec_agrees P i x (isa_act (mc_instr x) (mc_ctx i x))"
proof -
  let ?w = "mc_instr x" let ?a = "mc_alu_y x"
  obtain s where k: "dec_store (funct3 ?w) = Some s" using assms(2,3) by (auto simp: reserved_def)
  have c: "is_store ?w" "\<not> is_csr ?w" "\<not> is_mret ?w" "\<not> is_sret ?w" "\<not> is_load ?w" using assms(2) by (simp_all add: class_defs)
  have a: "isa_act ?w (mc_ctx i x) = rv_store ?a s (rs2_data x) (mc_ctx i x)"
    using assms(2) k by (simp add: dec_defs alu_addr(2)[OF c(1)])
  show ?thesis
  proof (cases "misaligned s ?a")
    case True
    then have "mc_exec_trap i x = Some (6, ?a)"
      using assms(2) ls_aligned_store[OF k, of ?a] by (simp add: trap_defs CAUSE_STORE_ADDR_MISALIGNED_def mc_alu_y_def[symmetric])
    then show ?thesis using True exec_raise[OF assms(1)] unfolding a rv_store_def by (simp add: agrees_simps)
  next
    case False
    then have t: "mc_exec_trap i x = None"
      using assms(2) ls_aligned_store[OF k, of ?a] by (simp add: trap_defs mc_alu_y_def[symmetric])
    let ?r = "dm_req ?a True (fst (store_lanes ?w ?a (rs2_data x))) (ls_wmask ?w ?a (rs2_data x))"
    have e: "mc_exec i x = mc_issue i x ?r (ls_size ?w) (funct3 ?w) (False, False, False, False) (fetch_default i x)"
      using t c by (simp add: mc_exec_def Let_def)
    have m: "op_matches (Wr (word_addr ?a) (write_part s ?a (rs2_data x))) ?r"
      using store_meaning[OF k False, of "rs2_data x" "fst (store_lanes ?w ?a (rs2_data x))" "snd (store_lanes ?w ?a (rs2_data x))"] c(1)
      by (simp add: dm_req_def word_addr_align ls_wmask_def)
    have "exec_agrees P i x (Access (Wr (word_addr ?a) (write_part s ?a (rs2_data x))) (issue_act x (funct3 ?w) False False False False))"
      by (rule exec_issue[OF assms(1) t c(2-4) e m])
    moreover have "issue_act x (funct3 ?w) False False False False = Await True ?a (\<lambda>_. retire None (mc_ctx i x))"
      by (simp add: issue_act_def Let_def retire_def ctx_simps)
    ultimately show ?thesis using False unfolding a rv_store_def by simp
  qed
qed


lemma amo_acts:
  "is_lr w \<Longrightarrow> isa_act w c = rv_lr (cx_reg c (rs1_i w)) (rd_i w) c"
  "is_sc w \<Longrightarrow> isa_act w c = rv_sc (cx_reg c (rs1_i w)) (rd_i w) (cx_reg c (rs2_i w)) c"
  "is_amo_rmw w \<Longrightarrow> dec_amo (amo_funct5 w) = Some k \<Longrightarrow>
     isa_act w c = rv_amo k (cx_reg c (rs1_i w)) (rd_i w) (cx_reg c (rs2_i w)) c"
  "opcode w = 0x2F \<Longrightarrow> \<not> is_lr w \<Longrightarrow> \<not> is_sc w \<Longrightarrow> \<not> is_amo_rmw w \<Longrightarrow> isa_act w c = Raise 2 w"
proof -
  show "is_lr w \<Longrightarrow> isa_act w c = rv_lr (cx_reg c (rs1_i w)) (rd_i w) c"
    by (simp add: isa_act_def rv_decode_def is_lr_def is_amo_def OP_AMO_def)
  show "is_sc w \<Longrightarrow> isa_act w c = rv_sc (cx_reg c (rs1_i w)) (rd_i w) (cx_reg c (rs2_i w)) c"
    by (simp add: isa_act_def rv_decode_def is_sc_def is_amo_def OP_AMO_def)
  show "is_amo_rmw w \<Longrightarrow> dec_amo (amo_funct5 w) = Some k \<Longrightarrow>
      isa_act w c = rv_amo k (cx_reg c (rs1_i w)) (rd_i w) (cx_reg c (rs2_i w)) c"
    by (auto simp: isa_act_def rv_decode_def is_amo_rmw_def is_amo_def OP_AMO_def)
  assume n: "opcode w = 0x2F" "\<not> is_lr w" "\<not> is_sc w" "\<not> is_amo_rmw w"
  then have "funct3 w \<noteq> 2 \<or> amo_funct5 w = 2 \<and> rs2_i w \<noteq> 0 \<or>
      amo_funct5 w \<noteq> 2 \<and> amo_funct5 w \<noteq> 3 \<and> dec_amo (amo_funct5 w) = None"
    using amo_dec[of w] by (auto simp: is_lr_def is_sc_def is_amo_rmw_def is_amo_def OP_AMO_def)
  then show "isa_act w c = Raise 2 w"
    using n(1) by (elim disjE) (simp_all add: isa_act_def rv_decode_def illegal_def Let_def)
qed

lemma amo_traps:
  assumes "opcode (mc_instr x) = 0x2F" "is_lr (mc_instr x) \<or> is_sc (mc_instr x) \<or> is_amo_rmw (mc_instr x)"
  shows "mc_exec_trap i x = (if misaligned WRD (mc_alu_y x)
           then Some (if is_lr (mc_instr x) then 4 else 6, mc_alu_y x) else None)"
proof -
  have amo: "is_amo (mc_instr x)" using assms(2) by (auto simp: is_lr_def is_sc_def is_amo_rmw_def)
  have nt: "target_misaligned (mc_instr x) p a b = None" for p a b
    using assms(1) by (simp add: target_misaligned_def class_defs)
  have f: "funct3 (mc_instr x) = 2" "\<not> is_ecall (mc_instr x)" "\<not> is_ebreak (mc_instr x)" "\<not> is_csr (mc_instr x)"
    "\<not> is_load (mc_instr x)" "\<not> is_store (mc_instr x)" "\<not> is_op_imm (mc_instr x)" "\<not> is_op (mc_instr x)" "\<not> is_system (mc_instr x)"
    using amo by (simp_all add: class_defs)
  have il: "\<not> illegal_opcode (mc_instr x) p a b" for p a b
    using assms f by (auto simp: illegal_opcode_def opcodes)
  show ?thesis
    using assms(2) amo_aligned[OF amo, of "mc_alu_y x"] f il
    by (auto simp: mc_exec_trap_def exec_trap_def nt mc_alu_y_def[symmetric] CAUSE_LOAD_ADDR_MISALIGNED_def
        CAUSE_STORE_ADDR_MISALIGNED_def)
qed

lemma amo_issues:
  assumes "mc_exec_trap i x = None"
  shows "is_lr (mc_instr x) \<Longrightarrow> mc_exec i x =
      mc_issue i x (dm_req (mc_alu_y x) False 0 15) 2 2 (True, True, False, False) (fetch_default i x)"
    "is_sc (mc_instr x) \<Longrightarrow> sc_hit x \<Longrightarrow> mc_exec i x =
      mc_issue i x (dm_req (mc_alu_y x) True (rs2_data x) 15) 2 2 (False, False, True, False) (fetch_default i x)"
    "is_amo_rmw (mc_instr x) \<Longrightarrow> mc_exec i x =
      mc_issue i x (dm_req (mc_alu_y x) False 0 15) 2 2 (True, False, False, True) (fetch_default i x)"
proof -
  have n: "is_amo (mc_instr x) \<Longrightarrow> \<not> is_mret (mc_instr x) \<and> \<not> is_sret (mc_instr x) \<and> \<not> is_load (mc_instr x) \<and> \<not> is_store (mc_instr x)"
    by (auto simp: class_defs)
  note d = mc_exec_def assms Let_def
  show "is_lr (mc_instr x) \<Longrightarrow> mc_exec i x =
      mc_issue i x (dm_req (mc_alu_y x) False 0 15) 2 2 (True, True, False, False) (fetch_default i x)"
    using n by (simp add: d is_lr_def)
  show "is_sc (mc_instr x) \<Longrightarrow> sc_hit x \<Longrightarrow> mc_exec i x =
      mc_issue i x (dm_req (mc_alu_y x) True (rs2_data x) 15) 2 2 (False, False, True, False) (fetch_default i x)"
    using n by (auto simp: d is_sc_def is_lr_def)
  show "is_amo_rmw (mc_instr x) \<Longrightarrow> mc_exec i x =
      mc_issue i x (dm_req (mc_alu_y x) False 0 15) 2 2 (True, False, False, True) (fetch_default i x)"
    using n by (auto simp: d is_amo_rmw_def)
qed

lemma word_ops:
  "op_matches (Rd (word_addr a)) (dm_req a False d m)"
  "op_matches (Wr (word_addr a) (\<lambda>_. v)) (dm_req a True v 15)"
  by (simp_all add: dm_req_def word_addr_align)

lemma class_amo:
  assumes "mc_state x = MC_EXEC" "opcode (mc_instr x) = 0x2F"
  shows "exec_agrees P i x (isa_act (mc_instr x) (mc_ctx i x))"
proof -
  let ?w = "mc_instr x" let ?a = "mc_alu_y x" let ?c = "mc_ctx i x"
  have n: "\<not> is_csr ?w" "\<not> is_mret ?w" "\<not> is_sret ?w" "\<not> is_load ?w" "\<not> is_store ?w"
    using assms(2) by (simp_all add: class_defs)
  have r: "cx_reg ?c (rs2_i ?w) = rs2_data x" by (simp add: ctx_simps rs2_data_def)
  note r' = r[unfolded ctx_simps]
  show ?thesis
  proof (cases "is_lr ?w \<or> is_sc ?w \<or> is_amo_rmw ?w")
    case False
    then have "mc_exec_trap i x = Some (2, ?w)"
      using assms(2) by (simp add: mc_exec_trap_def exec_trap_def illegal_opcode_def CAUSE_ILLEGAL_INSN_def is_ecall_def
          is_ebreak_def is_priv_def is_system_def opcodes)
    then show ?thesis using False assms(2) exec_raise[OF assms(1)] by (simp add: agrees_simps amo_acts(4))
  next
    case True
    then have f3: "funct3 ?w = 2" and amo: "is_amo ?w" by (auto simp: is_lr_def is_sc_def is_amo_rmw_def is_amo_def)
    have a: "cx_reg ?c (rs1_i ?w) = ?a" using alu_addr(3)[OF amo] by (simp add: ctx_simps rs1_data_def)
    note b = a[unfolded ctx_simps]
    note tr = amo_traps[OF assms(2) True, of i] and iss = exec_issue[OF assms(1) _ n(1-3)]
    consider "is_lr ?w" "\<not> is_sc ?w" "\<not> is_amo_rmw ?w" | "is_sc ?w" "\<not> is_lr ?w" "\<not> is_amo_rmw ?w"
      | k where "is_amo_rmw ?w" "\<not> is_lr ?w" "\<not> is_sc ?w" "dec_amo (amo_funct5 ?w) = Some k"
      using True amo_dec[of ?w] by (auto simp: is_lr_def is_sc_def is_amo_rmw_def)
    then show ?thesis
    proof cases
      case 1
      show ?thesis
      proof (cases "misaligned WRD ?a")
        case m: True
        then show ?thesis using 1 tr exec_raise[OF assms(1)] by (simp add: amo_acts(1) rv_lr_def a agrees_simps)
      next
        case m: False
        then have t: "mc_exec_trap i x = None" using tr by simp
        have "isa_act ?w ?c = Access (Rd (word_addr ?a)) (issue_act x 2 True True False False)"
          using m 1(1) by (simp add: amo_acts(1) rv_lr_def a b issue_act_def retire_def ctx_simps Let_def
              load_meaning[of 2 WRD True] dec_load_def read_part_def)
        then show ?thesis using iss[OF t amo_issues(1)[OF t 1(1)] word_ops(1)] by simp
      qed
    next
      case 2
      show ?thesis
      proof (cases "misaligned WRD ?a")
        case m: True
        then show ?thesis using 2 tr exec_raise[OF assms(1)] by (simp add: amo_acts(2) rv_sc_def a agrees_simps)
      next
        case m: False
        then have t: "mc_exec_trap i x = None" using tr by simp
        have h: "sc_hit x \<longleftrightarrow> cx_resv ?c = Some (fld 2 ?a)" by (auto simp: sc_hit_def ctx_simps resv_of_def)
        show ?thesis
        proof (cases "sc_hit x")
          case True
          then have "isa_act ?w ?c = Access (Wr (word_addr ?a) (\<lambda>_. rs2_data x)) (issue_act x 2 False False True False)"
            using m 2(1) h by (simp add: amo_acts(2) rv_sc_def a b r r' issue_act_def retire_def Let_def ctx_simps)
          then show ?thesis using iss[OF t amo_issues(2)[OF t 2(1) True] word_ops(2)] by simp
        next
          case False
          then have "isa_act ?w ?c = Retire (Some (rd_i ?w, 1)) (mc_pc x + 4) None"
            using m 2(1) h by (simp add: amo_acts(2) rv_sc_def a b retire_def Let_def ctx_simps)
          then show ?thesis using exec_sc_fail[OF assms(1) t 2(1) False, of P] by (simp add: agrees_simps)
        qed
      qed
    next
      case 3
      show ?thesis
      proof (cases "misaligned WRD ?a")
        case m: True
        then show ?thesis using 3 tr exec_raise[OF assms(1)] by (simp add: amo_acts(3) rv_amo_def a agrees_simps)
      next
        case m: False
        then have t: "mc_exec_trap i x = None" using tr by simp
        have "isa_act ?w ?c = Access (Rd (word_addr ?a)) (issue_act x 2 True False False True)"
          using m 3(1,4) by (simp add: amo_acts(3) rv_amo_def a b r r' issue_act_def retire_def Let_def ctx_simps amo_meaning)
        then show ?thesis using iss[OF t amo_issues(3)[OF t 3(1)] word_ops(1)] by simp
      qed
    qed
  qed
qed

lemma class_fence:
  assumes "mc_state x = MC_EXEC" "opcode (mc_instr x) = 0x0F" "\<not> reserved (mc_instr x)"
  shows "exec_agrees P i x (isa_act (mc_instr x) (mc_ctx i x))"
proof -
  let ?w = "mc_instr x"
  have t: "mc_exec_trap i x = None" using assms(2) by (simp add: trap_defs)
  have "opcode ?w \<notin> {OP_LOAD, OP_STORE, OP_AMO, OP_SYSTEM}" "\<not> is_div_variant ?w"
    using assms(2) by (auto simp: class_defs)
  note r = exec_simple[OF assms(1) t this, of P]
  have "isa_act ?w (mc_ctx i x) = Retire None (mc_pc x + 4) (resv_of x)"
    using assms(2,3) by (auto simp: dec_defs reserved_def)
  then show ?thesis using r assms(2) by (simp add: single_defs agrees_simps)
qed

lemma class_other:
  assumes "mc_state x = MC_EXEC" "opcode (mc_instr x) \<notin> {0x37, 0x17, 0x6F, 0x67, 0x63, 0x03, 0x23, 0x13, 0x33, 0x2F, 0x0F, 0x73}"
  shows "exec_agrees P i x (isa_act (mc_instr x) (mc_ctx i x))"
proof -
  have "mc_exec_trap i x = Some (2, mc_instr x)" using assms(2) by (simp add: trap_defs CAUSE_ILLEGAL_INSN_def)
  moreover have "isa_act (mc_instr x) (mc_ctx i x) = Raise 2 (mc_instr x)" using assms(2) by (simp add: dec_defs)
  ultimately show ?thesis using exec_raise[OF assms(1)] by (simp add: agrees_simps)
qed

lemma class_csr:
  assumes "mc_state x = MC_EXEC" "opcode (mc_instr x) = 0x73" "funct3 (mc_instr x) \<noteq> 0" "\<not> reserved (mc_instr x)"
  shows "exec_agrees P i x (isa_act (mc_instr x) (mc_ctx i x))"
proof -
  let ?w = "mc_instr x"
  have c: "is_csr ?w" using assms(2,3) by (simp add: class_defs)
  have a: "isa_act ?w (mc_ctx i x) = (if csr_illegal (csr_query i x) (mc_csr x) then Raise 2 ?w
      else Retire (Some (rd_i ?w, read_value (csr_query i x) (mc_csr x))) (mc_pc x + 4) (resv_of x))"
    using assms(2-4) by (auto simp: dec_defs reserved_def)
  show ?thesis
  proof (cases "csr_illegal (csr_query i x) (mc_csr x)")
    case True
    then have "mc_exec_trap i x = Some (2, ?w)" using assms(2,3) by (simp add: trap_defs CAUSE_ILLEGAL_INSN_def)
    then show ?thesis using True exec_raise[OF assms(1)] by (simp add: a agrees_simps)
  next
    case False
    then have t: "mc_exec_trap i x = None" using assms(2,3) by (simp add: trap_defs)
    have "\<not> is_mret ?w" "\<not> is_sret ?w" "\<not> is_load ?w" "\<not> is_store ?w" "\<not> is_amo ?w" "\<not> is_div_variant ?w"
      using assms(2,3) by (simp_all add: class_defs)
    note r = exec_single[OF assms(1) t this, of P]
    show ?thesis using False r assms(2,3) by (simp add: a agrees_simps single_defs)
  qed
qed

lemma priv_traps:
  assumes "opcode (mc_instr x) = 0x73" "funct3 (mc_instr x) = 0"
  shows "mc_exec_trap i x =
      (if funct12 (mc_instr x) = 0
       then Some (if priv_mode (mc_csr x) = PRV_U then 8 else if priv_mode (mc_csr x) = PRV_S then 9 else 11, 0)
       else if funct12 (mc_instr x) = 1 then Some (3, 0)
       else if sys_illegal (mc_instr x) (priv_mode (mc_csr x)) (bit (mstatus (mc_csr x)) 20) (bit (mstatus (mc_csr x)) 22)
       then Some (2, mc_instr x)
       else None)"
proof -
  let ?w = "mc_instr x"
  have n: "\<not> is_load ?w" "\<not> is_store ?w" "\<not> is_amo ?w" "\<not> is_csr ?w" using assms by (simp_all add: class_defs)
  have nt: "target_misaligned ?w p a b = None" for p a b
    using assms(1) by (simp add: target_misaligned_def class_defs)
  have ifs: "illegal_opcode ?w p v s \<longleftrightarrow> sys_illegal ?w p v s" for p v s
    using assms by (simp add: illegal_opcode_def is_op_imm_def is_op_def is_system_def opcodes)
  show ?thesis
    using n assms by (simp add: mc_exec_trap_def exec_trap_def ifs nt is_ecall_def is_ebreak_def is_priv_def is_system_def
        CAUSE_ECALL_FROM_U_def CAUSE_ECALL_FROM_S_def CAUSE_ECALL_FROM_M_def CAUSE_BREAKPOINT_def CAUSE_ILLEGAL_INSN_def
        OP_SYSTEM_def is_lr_def is_sc_def is_amo_rmw_def)
qed

text \<open>The five fixed privileged instructions are not SFENCE.VMA.\<close>

lemma priv_funct7:
  assumes "funct12 w \<in> {0x000, 0x001, 0x102, 0x302, 0x105}"
  shows "funct7 w \<noteq> 9"
proof -
  have "funct7 w = fld 5 (funct12 w)"
    by (rule bit_word_eqI) (simp add: funct7_def funct12_def bit_fld)
  moreover have "fld 5 (0x000 :: 12 word) \<noteq> (9 :: 7 word)" "fld 5 (0x001 :: 12 word) \<noteq> (9 :: 7 word)"
    "fld 5 (0x102 :: 12 word) \<noteq> (9 :: 7 word)" "fld 5 (0x302 :: 12 word) \<noteq> (9 :: 7 word)"
    "fld 5 (0x105 :: 12 word) \<noteq> (9 :: 7 word)" by code_simp+
  ultimately show ?thesis using assms by auto
qed

lemma class_priv:
  assumes "mc_state x = MC_EXEC" "opcode (mc_instr x) = 0x73" "funct3 (mc_instr x) = 0" "\<not> reserved (mc_instr x)"
  shows "exec_agrees P i x (isa_act (mc_instr x) (mc_ctx i x))"
proof -
  let ?w = "mc_instr x"
  have n: "\<not> is_load ?w" "\<not> is_store ?w" "\<not> is_amo ?w" "\<not> is_div_variant ?w" "\<not> is_csr ?w"
    using assms(2,3) by (simp_all add: class_defs)
  have d: "isa_act ?w (mc_ctx i x) = (case dec_priv ?w of None \<Rightarrow> illegal ?w | Some r \<Rightarrow> rv_act ?w (mc_ctx i x) r)"
    using assms(2,3) by (simp add: isa_act_def rv_decode_def)
  have k: "rd_i ?w = 0 \<and> rs1_i ?w = 0 \<or> funct12 ?w \<noteq> 0 \<and> funct12 ?w \<noteq> 1" using assms(2-4) by (auto simp: reserved_def)
  have sf: "is_sfence ?w \<longleftrightarrow> funct7 ?w = 9" using assms(2,3) by (simp add: is_sfence_def is_system_def OP_SYSTEM_def)
  note tr = priv_traps[OF assms(2,3), of i] and no = priv_funct7[of ?w]
  have kinds: "is_mret ?w \<longleftrightarrow> funct12 ?w = 0x302" "is_sret ?w \<longleftrightarrow> funct12 ?w = 0x102"
    using assms(2,3) by (simp_all add: is_mret_def is_sret_def is_priv_def is_system_def OP_SYSTEM_def)
  have fin: "exec_agrees P i x (Raise c t)" if "mc_exec_trap i x = Some (c, t)" for c t
    using exec_raise[OF assms(1) that] by (simp add: agrees_simps)
  have pl: "exec_agrees P i x (Retire None (mc_pc x + 4) (resv_of x))"
    if "mc_exec_trap i x = None" "funct12 ?w \<noteq> 0x302" "funct12 ?w \<noteq> 0x102"
    using exec_single[OF assms(1) that(1) _ _ n(1-4), of P] kinds that n(5) assms(2)
    by (simp add: agrees_simps wb_en_def next_pc_def is_lui_def is_auipc_def is_jal_def is_jalr_def is_op_imm_def is_op_def
        is_branch_def opcodes)
  show ?thesis
  proof (cases "funct12 ?w \<in> {0x000, 0x001, 0x102, 0x302, 0x105}")
    case True
    note nsf = no[OF True]
    show ?thesis
    proof (cases "rd_i ?w = 0 \<and> rs1_i ?w = 0")
      case z: True
      consider "funct12 ?w = 0" | "funct12 ?w = 1" | "funct12 ?w = 0x102" | "funct12 ?w = 0x302" | "funct12 ?w = 0x105"
        using True by blast
      then show ?thesis
      proof cases
        case 1
        then show ?thesis using z nsf tr fin by (auto simp: d dec_priv_def ctx_simps)
      next
        case 2
        then show ?thesis using z nsf tr fin by (auto simp: d dec_priv_def)
      next
        case 3
        have "isa_act ?w (mc_ctx i x) = (if mc_exec_trap i x = None then Retire None (sepc (mc_csr x)) (resv_of x) else Raise 2 ?w)"
          "mc_exec_trap i x = None \<or> mc_exec_trap i x = Some (2, ?w)"
          using 3 z nsf sf tr by (auto simp: d dec_priv_def ctx_simps sys_illegal_def illegal_def)
        then show ?thesis using fin exec_sret[OF assms(1), of i P] kinds 3 by (auto simp: agrees_simps)
      next
        case 4
        have "isa_act ?w (mc_ctx i x) = (if mc_exec_trap i x = None then Retire None (mepc (mc_csr x)) (resv_of x) else Raise 2 ?w)"
          "mc_exec_trap i x = None \<or> mc_exec_trap i x = Some (2, ?w)"
          using 4 z nsf sf tr by (auto simp: d dec_priv_def ctx_simps sys_illegal_def illegal_def)
        then show ?thesis using fin exec_mret[OF assms(1), of i P] kinds 4 by (auto simp: agrees_simps)
      next
        case 5
        have "mc_exec_trap i x = None" using 5 z nsf sf tr by (simp add: sys_illegal_def)
        then show ?thesis using 5 z nsf pl by (simp add: d dec_priv_def retire_def ctx_simps)
      qed
    next
      case z: False
      then show ?thesis using True nsf k sf tr fin by (auto simp: d dec_priv_def sys_illegal_def illegal_def)
    qed
  next
    case False
    then have nz: "funct12 ?w \<noteq> 0" "funct12 ?w \<noteq> 1" "funct12 ?w \<noteq> 0x302" "funct12 ?w \<noteq> 0x102" by auto
    let ?il = "rd_i ?w \<noteq> 0 \<or> funct7 ?w \<noteq> 9 \<or> priv_mode (mc_csr x) = PRV_U \<or>
      (priv_mode (mc_csr x) = PRV_S \<and> bit (mstatus (mc_csr x)) 20)"
    have t: "mc_exec_trap i x = (if ?il then Some (2, ?w) else None)"
      using False nz sf tr by (auto simp: sys_illegal_def)
    have "isa_act ?w (mc_ctx i x) = (if ?il then Raise 2 ?w else Retire None (mc_pc x + 4) (resv_of x))"
      using False by (auto simp: d dec_priv_def ctx_simps retire_def illegal_def)
    then show ?thesis using t fin pl[OF _ nz(3,4)] by auto
  qed
qed

text \<open>What the privileged instructions do to the CSR file and the MMU, and that no other instruction does it.\<close>

lemma exec_drives:
  fixes x :: mc and i :: mc_in
  assumes "mc_state x = MC_EXEC"
  defines "c \<equiv> mc_csr_in i x (snd (mc_comb i x))"
  shows "ci_en c \<longleftrightarrow> is_csr (mc_instr x) \<and> mc_exec_trap i x = None"
    "ci_mret c \<longleftrightarrow> is_mret (mc_instr x) \<and> mc_exec_trap i x = None"
    "ci_sret c \<longleftrightarrow> is_sret (mc_instr x) \<and> mc_exec_trap i x = None"
    "is_sfence (mc_instr x) \<Longrightarrow> mc_sfence x (snd (mc_comb i x)) \<longleftrightarrow> mc_exec_trap i x = None"
proof -
  have cs: "is_csr (mc_instr x) \<Longrightarrow> \<not> is_load (mc_instr x) \<and> \<not> is_store (mc_instr x) \<and> \<not> is_amo (mc_instr x) \<and> \<not> is_div_variant (mc_instr x)"
    "is_sfence (mc_instr x) \<Longrightarrow> \<not> is_load (mc_instr x) \<and> \<not> is_store (mc_instr x) \<and> \<not> is_amo (mc_instr x) \<and> \<not> is_div_variant (mc_instr x)"
    "is_csr (mc_instr x) \<Longrightarrow> \<not> is_mret (mc_instr x) \<and> \<not> is_sret (mc_instr x)"
    by (auto simp: class_defs)
  note d = c_def mc_csr_in_def csr_query_def mc_comb_def assms(1) Let_def
  show "ci_en c \<longleftrightarrow> is_csr (mc_instr x) \<and> mc_exec_trap i x = None"
    by (cases "mc_exec_trap i x") (auto simp: d mc_exec_def mc_issue_def quiet_out_def is_lr_def is_sc_def is_amo_rmw_def dest: cs)
  show "ci_mret c \<longleftrightarrow> is_mret (mc_instr x) \<and> mc_exec_trap i x = None"
    "ci_sret c \<longleftrightarrow> is_sret (mc_instr x) \<and> mc_exec_trap i x = None"
    by (simp_all add: d)
  show "is_sfence (mc_instr x) \<Longrightarrow> mc_sfence x (snd (mc_comb i x)) \<longleftrightarrow> mc_exec_trap i x = None"
    using cs(2) by (cases "mc_exec_trap i x")
      (simp_all add: mc_sfence_def d mc_exec_def quiet_out_def commit_defs is_lr_def is_sc_def is_amo_rmw_def split: prod.split)
qed

lemma exec_csr_port:
  fixes x :: mc and i :: mc_in
  assumes "mc_state x = MC_EXEC" "\<not> reserved (mc_instr x)"
  defines "out \<equiv> snd (mc_comb i x)" and "d \<equiv> rv_decode (mc_instr x)" and "m \<equiv> priv_mode (mc_csr x)"
  shows "(ci_en (mc_csr_in i x out) \<longleftrightarrow> (\<exists>rd. d = Some (I_CSR rd)) \<and> \<not> csr_illegal (csr_query i x) (mc_csr x)) \<and>
    (ci_mret (mc_csr_in i x out) \<longleftrightarrow> d = Some I_MRET \<and> m = PRV_M) \<and>
    (ci_sret (mc_csr_in i x out) \<longleftrightarrow> d = Some I_SRET \<and> m \<noteq> PRV_U \<and> \<not> (m = PRV_S \<and> bit (mstatus (mc_csr x)) 22)) \<and>
    (mc_sfence x out \<longleftrightarrow> d = Some I_SFENCE \<and> m \<noteq> PRV_U \<and> \<not> (m = PRV_S \<and> bit (mstatus (mc_csr x)) 20))"
proof -
  let ?w = "mc_instr x"
  note e = exec_drives[OF assms(1), of i]
  consider "opcode ?w \<noteq> 0x73" | "opcode ?w = 0x73" "funct3 ?w \<noteq> 0" | "opcode ?w = 0x73" "funct3 ?w = 0" by blast
  then show ?thesis
  proof cases
    case 1
    have "d \<noteq> Some (I_CSR rd) \<and> d \<noteq> Some I_MRET \<and> d \<noteq> Some I_SRET \<and> d \<noteq> Some I_SFENCE" for rd
      using 1 by (auto simp: d_def rv_decode_def Let_def split: if_splits option.splits)
    moreover have "\<not> is_csr ?w" "\<not> is_mret ?w" "\<not> is_sret ?w" "\<not> is_sfence ?w" using 1 by (simp_all add: class_defs)
    ultimately show ?thesis using e by (simp add: out_def mc_sfence_def)
  next
    case 2
    have "d = (if funct3 ?w = 4 then None else Some (I_CSR (rd_i ?w)))" using 2 by (simp add: d_def rv_decode_def)
    moreover have "funct3 ?w \<noteq> 4" using 2 assms(2) by (simp add: reserved_def)
    moreover have "is_csr ?w" "\<not> is_mret ?w" "\<not> is_sret ?w" "\<not> is_sfence ?w" using 2 by (simp_all add: class_defs)
    moreover have "mc_exec_trap i x = None \<longleftrightarrow> \<not> csr_illegal (csr_query i x) (mc_csr x)"
      using 2 by (cases "csr_illegal (csr_query i x) (mc_csr x)") (simp_all add: trap_defs)
    ultimately show ?thesis using e by (simp add: out_def mc_sfence_def)
  next
    case 3
    have d: "d = dec_priv ?w" using 3 by (simp add: d_def rv_decode_def)
    have k: "\<not> is_csr ?w" "is_mret ?w \<longleftrightarrow> funct12 ?w = 0x302" "is_sret ?w \<longleftrightarrow> funct12 ?w = 0x102" "is_sfence ?w \<longleftrightarrow> funct7 ?w = 9"
      using 3 by (simp_all add: class_defs)
    have "(is_mret ?w \<and> mc_exec_trap i x = None) = (d = Some I_MRET \<and> m = PRV_M)"
      "(is_sret ?w \<and> mc_exec_trap i x = None) =
         (d = Some I_SRET \<and> m \<noteq> PRV_U \<and> \<not> (m = PRV_S \<and> bit (mstatus (mc_csr x)) 22))"
      "(is_sfence ?w \<and> mc_exec_trap i x = None) =
         (d = Some I_SFENCE \<and> m \<noteq> PRV_U \<and> \<not> (m = PRV_S \<and> bit (mstatus (mc_csr x)) 20))"
      using priv_traps[OF 3, of i] priv_funct7[of ?w] k
      by (auto simp: d dec_priv_def sys_illegal_def m_def split: if_splits)
    moreover have "d \<noteq> Some (I_CSR rd)" for rd by (auto simp: d dec_priv_def split: if_splits)
    moreover have "mc_sfence x out \<longleftrightarrow> is_sfence ?w \<and> mc_exec_trap i x = None"
      using e(4) by (auto simp: out_def mc_sfence_def)
    ultimately show ?thesis using e(1-3) k(1) by (simp add: out_def)
  qed
qed

lemma exec_meaning:
  assumes "mc_state x = MC_EXEC" "\<not> reserved (mc_instr x)" "dv_state (mc_div x) = S_IDLE"
  shows "exec_agrees P i x (isa_act (mc_instr x) (mc_ctx i x))"
proof -
  note s = assms(1) and r = assms(2) and op = opcode_def
  let ?o = "opcode (mc_instr x)"
  consider "?o = 0x37 \<or> ?o = 0x17" | "?o = 0x6F \<or> ?o = 0x67" | "?o = 0x63" | "?o = 0x03" | "?o = 0x23"
    | "?o = 0x13 \<or> ?o = 0x33 \<and> funct7 (mc_instr x) \<noteq> 1" | "?o = 0x33" "funct7 (mc_instr x) = 1" | "?o = 0x2F" | "?o = 0x0F"
    | "?o = 0x73" "funct3 (mc_instr x) = 0" | "?o = 0x73" "funct3 (mc_instr x) \<noteq> 0"
    | "?o \<notin> {0x37, 0x17, 0x6F, 0x67, 0x63, 0x03, 0x23, 0x13, 0x33, 0x2F, 0x0F, 0x73}"
    by blast
  then show ?thesis
  proof cases
    case 1 then show ?thesis by (rule class_lui_auipc[OF s])
  next
    case 2 then show ?thesis by (rule class_jumps[OF s _ r])
  next
    case 3 then show ?thesis by (rule class_branch[OF s _ r])
  next
    case 4 then show ?thesis by (rule class_load[OF s _ r])
  next
    case 5 then show ?thesis by (rule class_store[OF s _ r])
  next
    case 6 then show ?thesis by (rule class_arith[OF s])
  next
    case 7 then show ?thesis by (rule class_muldiv[OF s _ _ assms(3)])
  next
    case 8 then show ?thesis by (rule class_amo[OF s])
  next
    case 9 then show ?thesis by (rule class_fence[OF s _ r])
  next
    case 10 then show ?thesis by (rule class_priv[OF s _ _ r])
  next
    case 11 then show ?thesis by (rule class_csr[OF s _ _ r])
  next
    case 12 then show ?thesis by (rule class_other[OF s])
  qed
qed

section \<open>The waiting states\<close>

lemma div_goal_step:
  assumes "div_goal d r"
  shows "if dv_done d then dv_result d = r \<and> dv_state d = S_IDLE else div_goal (div_step False j d) r"
proof -
  obtain d0 i js where d0: "dv_state d0 = S_IDLE" "di_start i" "length js \<le> div_latency i"
    and d: "d = div_run js (div_step False i d0)" "r = rv_div (di_signed i) (di_want_rem i) (di_dividend i) (di_divisor i)"
    using assms by (auto simp: div_goal_def)
  note u = div_unit_run[OF d0]
  show ?thesis
  proof (cases "dv_done d")
    case True
    then have "\<not> length js < div_latency i" using u d by (auto simp: Let_def)
    then show ?thesis using u d True by (simp add: Let_def dv_busy_def)
  next
    case False
    then have "length (js @ [j]) \<le> div_latency i" using u d by (auto simp: Let_def split: if_splits)
    moreover have "div_step False j d = div_run (js @ [j]) (div_step False i d0)" by (simp add: d div_run_append)
    ultimately have "div_goal (div_step False j d) r" unfolding div_goal_def using d0 d(2) by blast
    then show ?thesis using False by simp
  qed
qed

text \<open>A response cycle: the access ends, with its fault or its data.\<close>

definition ends_with :: "u32 \<Rightarrow> mc_in \<Rightarrow> mc \<Rightarrow> act \<Rightarrow> bool" where
  "ends_with P i x a \<longleftrightarrow> (case a of
       Retire wr npc rv \<Rightarrow> retires P i x wr npc rv
     | Raise c t \<Rightarrow> raises P i x c t
     | _ \<Rightarrow> silent i x \<and> \<not> rq_valid (no_dm (snd (mc_comb i x))) \<and> mc_doing (mc_step P False i x) a)"

definition wait_agrees :: "u32 \<Rightarrow> mc_in \<Rightarrow> mc \<Rightarrow> act \<Rightarrow> bool" where
  "wait_agrees P i x a \<longleftrightarrow> (let y = mc_step P False i x; r = no_dm (snd (mc_comb i x)) in
     case a of
       Await s t f \<Rightarrow> mc_dm_rsp_ready x \<and>
         ends_with P i x (if \<not> ni_dm_rsp i then a
           else if ni_dm_fault i \<or> ni_dm_pagefault i then Raise (mem_cause i s) t else f (ni_dm_rdata i))
     | Access op k \<Rightarrow> silent i x \<and> op_matches op r \<and> mc_doing y (if ni_dm_ready i then k else a)
     | Compute k \<Rightarrow> ends_with P i x (if dv_done (mc_div x) then k else a)
     | _ \<Rightarrow> False)"

lemmas cycle_defs = step_fields mc_comb_def mc_mem_def mc_amo_store_def mc_amo_wait_def mc_wait_div_def fetch_default_keeps
  Let_def resv_of_def mc_rf_next_def commit_defs rf_step_def quiet_out_def no_req_def mc_csr_in_def csr_query_def

lemma act_cong:
  assumes "mc_is_sc y = mc_is_sc x" "mc_is_rmw y = mc_is_rmw x" "mc_is_load y = mc_is_load x" "mc_is_lr y = mc_is_lr x"
    "mc_mem_addr y = mc_mem_addr x" "mc_rd y = mc_rd x" "mc_funct3 y = mc_funct3 x" "mc_pc_of_mem y = mc_pc_of_mem x"
    "mc_instr y = mc_instr x" "rs2_data y = rs2_data x" "resv_of y = resv_of x"
  shows "mem_act y = mem_act x" "amo_store_act y old = amo_store_act x old" "amo_wait_act y old = amo_wait_act x old"
proof -
  show w: "amo_wait_act y old = amo_wait_act x old" for old using assms by (simp add: amo_wait_act_def)
  show t: "amo_store_act y old = amo_store_act x old" for old using assms by (simp add: amo_store_act_def w)
  show "mem_act y = mem_act x" unfolding mem_act_def t by (simp only: assms)
qed

lemma holding:
  assumes "mc_doing x a" "mc_state x \<noteq> MC_DIV" "mc_comb i x = (fetch_default i x, out)" "no_commit out = None"
  shows "mc_doing (mc_step P False i x) a"
proof -
  let ?y = "mc_step P False i x"
  have y: "mc_is_sc ?y = mc_is_sc x" "mc_is_rmw ?y = mc_is_rmw x" "mc_is_load ?y = mc_is_load x" "mc_is_lr ?y = mc_is_lr x"
    "mc_mem_addr ?y = mc_mem_addr x" "mc_rd ?y = mc_rd x" "mc_funct3 ?y = mc_funct3 x" "mc_pc_of_mem ?y = mc_pc_of_mem x"
    "mc_instr ?y = mc_instr x" "rs2_data ?y = rs2_data x" "resv_of ?y = resv_of x"
    and z: "mc_state ?y = mc_state x" "mc_pc ?y = mc_pc x" "mc_instr_of_mem ?y = mc_instr_of_mem x" "mc_amo_old ?y = mc_amo_old x"
    using assms(3,4) by (simp_all add: step_fields fetch_default_keeps mc_rf_next_def resv_of_def rs2_data_def)
  show ?thesis using assms(1,2)
    by (cases "mc_state x") (simp_all add: mc_doing_def act_cong[OF y] y z)
qed

lemma quiet_none: "no_commit (quiet_out x) = None"
  by (simp add: quiet_out_def)

lemma wait_mem:
  assumes "mc_state x = MC_MEM" "mc_pc_of_mem x = mc_pc x" "mc_instr_of_mem x = mc_instr x"
  shows "wait_agrees P i x (mem_act x)"
proof -
  have doing: "mc_doing x (mem_act x)" using assms by (simp add: mc_doing_def)
  have rdy: "mc_dm_rsp_ready x" using assms(1) by (simp add: mc_dm_rsp_ready_def)
  let ?f = "ni_dm_fault i \<or> ni_dm_pagefault i"
  consider "\<not> ni_dm_rsp i" | "ni_dm_rsp i" ?f | "ni_dm_rsp i" "\<not> ?f" "mc_is_rmw x" | "ni_dm_rsp i" "\<not> ?f" "\<not> mc_is_rmw x"
    by blast
  then show ?thesis
  proof cases
    case 1
    then have "mc_comb i x = (fetch_default i x, quiet_out x)" using assms by (simp add: mc_comb_def mc_mem_def Let_def)
    then have "mc_doing (mc_step P False i x) (mem_act x)"
      using holding[OF doing] assms(1) quiet_none by simp
    then show ?thesis using 1 assms rdy
      by (simp add: wait_agrees_def mem_act_def ends_with_def silent_def cycle_defs)
  next
    case 2
    then show ?thesis using assms rdy
      by (simp add: wait_agrees_def mem_act_def ends_with_def raises_def cycle_defs)
  next
    case 3
    then have "mc_doing (mc_step P False i x) (amo_store_act x (ni_dm_rdata i))"
      using assms by (simp add: mc_doing_def amo_store_act_def amo_wait_act_def rs2_data_def cycle_defs)
    then show ?thesis using 3 assms rdy
      by (simp add: wait_agrees_def mem_act_def ends_with_def silent_def amo_store_act_def cycle_defs)
  next
    case 4
    then show ?thesis using assms rdy
      by (auto simp: wait_agrees_def mem_act_def ends_with_def retires_def write_reg_def cycle_defs)
  qed
qed

lemma wait_amo_store:
  assumes "mc_state x = MC_AMO_STORE" "mc_doing x a"
  shows "wait_agrees P i x a"
proof -
  let ?w = "amo_wait_act x (mc_amo_old x)"
  have a: "a = amo_store_act x (mc_amo_old x)" "mc_is_rmw x" "mc_pc_of_mem x = mc_pc x" "mc_instr_of_mem x = mc_instr x"
    using assms by (simp_all add: mc_doing_def)
  have "op_matches (Wr (word_addr (mc_mem_addr x)) (\<lambda>_. amo_result (mc_instr x) (mc_amo_old x) (rs2_data x)))
      (no_dm (snd (mc_comb i x)))"
    using assms(1) word_ops(2) by (simp add: mc_comb_def mc_amo_store_def Let_def)
  moreover have "silent i x" using assms(1) by (simp add: silent_def cycle_defs)
  moreover have "mc_doing (mc_step P False i x) (if ni_dm_ready i then ?w else a)"
    using assms(1) a by (simp add: mc_doing_def amo_wait_act_def amo_store_act_def rs2_data_def cycle_defs)
  ultimately show ?thesis unfolding a(1) by (cases "ni_dm_ready i") (simp_all add: wait_agrees_def amo_store_act_def Let_def)
qed

lemma wait_amo_wait:
  assumes "mc_state x = MC_AMO_WAIT" "mc_doing x a"
  shows "wait_agrees P i x a"
proof -
  have a: "a = amo_wait_act x (mc_amo_old x)" "mc_is_rmw x" "mc_pc_of_mem x = mc_pc x" "mc_instr_of_mem x = mc_instr x"
    using assms by (simp_all add: mc_doing_def)
  have rdy: "mc_dm_rsp_ready x" using assms(1) by (simp add: mc_dm_rsp_ready_def)
  let ?f = "ni_dm_fault i \<or> ni_dm_pagefault i"
  consider "\<not> ni_dm_rsp i" | "ni_dm_rsp i" ?f | "ni_dm_rsp i" "\<not> ?f" by blast
  then show ?thesis
  proof cases
    case 1
    then have "mc_comb i x = (fetch_default i x, quiet_out x)" using assms by (simp add: mc_comb_def mc_amo_wait_def Let_def)
    then have "mc_doing (mc_step P False i x) a"
      using holding[OF assms(2)] assms(1) quiet_none by simp
    then show ?thesis using 1 assms(1) rdy unfolding a
      by (simp add: wait_agrees_def amo_wait_act_def ends_with_def silent_def cycle_defs)
  next
    case 2
    then show ?thesis using assms(1) rdy a
      by (simp add: wait_agrees_def amo_wait_act_def ends_with_def raises_def cycle_defs)
  next
    case 3
    then show ?thesis using assms(1) rdy a
      by (auto simp: wait_agrees_def amo_wait_act_def ends_with_def retires_def write_reg_def cycle_defs)
  qed
qed

lemma wait_div:
  assumes "mc_state x = MC_DIV" "mc_doing x a"
  shows "wait_agrees P i x a"
proof -
  obtain r where r: "div_goal (mc_div x) r" "a = Compute (Retire (Some (mc_rd x, r)) (mc_pc_of_mem x + 4) (resv_of x))"
    and m: "mc_pc_of_mem x = mc_pc x" "mc_instr_of_mem x = mc_instr x"
    using assms by (auto simp: mc_doing_def)
  note g = div_goal_step[OF r(1)]
  show ?thesis
  proof (cases "dv_done (mc_div x)")
    case True
    then show ?thesis using assms(1) g m
      by (auto simp: r(2) wait_agrees_def ends_with_def retires_def write_reg_def cycle_defs)
  next
    case False
    then have "div_goal (mc_div (mc_step P False i x)) r"
      using assms(1) g by (simp add: cycle_defs)
    then have "mc_doing (mc_step P False i x) a"
      using False assms(1) m by (auto simp: mc_doing_def r(2) cycle_defs)
    then show ?thesis using False assms(1) by (simp add: r(2) wait_agrees_def ends_with_def silent_def cycle_defs)
  qed
qed

lemma wait_meaning:
  assumes "mc_doing x a"
  shows "wait_agrees P i x a"
proof (cases "mc_state x")
  case MC_MEM
  then have "a = mem_act x" "mc_pc_of_mem x = mc_pc x" "mc_instr_of_mem x = mc_instr x"
    using assms by (simp_all add: mc_doing_def)
  then show ?thesis using wait_mem[OF MC_MEM] by simp
qed (use assms wait_amo_store wait_amo_wait wait_div in \<open>simp_all add: mc_doing_def\<close>)

end
