(* ===== verification/Core_Run.thy ===== *)
theory Core_Run
  imports Core_Isa
begin

text \<open>
  Runs of the multi-cycle core: the well-formedness invariant of its reachable states, fetching over an
  instruction memory with one request outstanding, and the properties of the core.
\<close>

unbundle bit_operations_syntax

section \<open>Alignment\<close>

definition aligned :: "u32 \<Rightarrow> bool" where "aligned a \<longleftrightarrow> low2 a = 0"

lemma aligned_bits: "aligned a \<longleftrightarrow> \<not> bit a 0 \<and> \<not> bit a 1"
proof -
  have "bit (low2 a) 0 = bit a 0" "bit (low2 a) 1 = bit a 1" by (simp_all add: low2_def bit_fld del: bit_0)
  moreover have "low2 a = 0 \<longleftrightarrow> \<not> bit (low2 a) 0 \<and> \<not> bit (low2 a) 1"
  proof
    assume "\<not> bit (low2 a) 0 \<and> \<not> bit (low2 a) 1"
    then show "low2 a = 0" by (intro bit_word_eqI) (auto simp: less_2_cases_iff simp del: bit_0)
  qed simp
  ultimately show ?thesis by (simp add: aligned_def)
qed

lemma aligned_mod: "aligned a \<longleftrightarrow> unat a mod 4 = 0"
  by (simp add: aligned_def low2_zero)

lemma aligned_add: "aligned a \<Longrightarrow> aligned b \<Longrightarrow> aligned (a + b)"
proof -
  assume "aligned a" "aligned b"
  then have s: "(unat a + unat b) mod 4 = 0" unfolding aligned_mod by presburger
  have "n mod 4294967296 mod 4 = n mod (4 :: nat)" for n by (rule mod_mod_cancel) simp
  then show ?thesis using s unfolding aligned_mod by (simp only: unat_word_ariths) simp
qed

lemma aligned_base:
  "aligned 0" "aligned 4" "aligned (vec_base v)" "aligned (epc_legal v)" "aligned (word_cat (b :: 30 word) (0 :: 2 word))"
  by (code_simp, code_simp) (simp_all add: aligned_bits vec_base_def epc_legal_def bit_put_fld bit_word_cat_iff del: bit_0)

lemma aligned_irq: "aligned (irq_vector v c)"
proof -
  have "aligned (word_cat (0 :: 26 word) (word_cat (k :: 4 word) (0 :: 2 word) :: 6 word))" for k
    by (simp add: aligned_bits bit_word_cat_iff bit_unsigned_iff del: bit_0)
  then show ?thesis by (simp add: irq_vector_def aligned_add aligned_base)
qed

lemma next_pc_aligned:
  assumes "aligned (mc_pc x)" "mc_exec_trap i x = None"
  shows "aligned (next_pc (mc_instr x) (mc_pc x) (rs1_data x) (rs2_data x))"
proof -
  have "target_misaligned (mc_instr x) (mc_pc x) (rs1_data x) (rs2_data x) = None"
    using assms(2) by (auto simp: mc_exec_trap_def exec_trap_def Let_def split: if_splits)
  then show ?thesis
    using assms(1) aligned_add[OF _ aligned_base(2)]
    by (auto simp: next_pc_def target_misaligned_def aligned_def split: if_splits)
qed

text \<open>The exception pcs change by writes, which clear the low bits, and by traps.\<close>

lemma csr_write_epc:
  "mepc (csr_write a v s) = (if a = 0x341 then epc_legal v else mepc s)"
  "sepc (csr_write a v s) = (if a = 0x141 then epc_legal v else sepc s)"
  by (simp_all add: csr_write_def)

lemma csr_step_epc:
  assumes "aligned (mepc s)" "aligned (sepc s)" "ci_trap i \<Longrightarrow> aligned (ci_trap_pc i)"
  shows "aligned (mepc (csr_step r i s))" "aligned (sepc (csr_step r i s))"
proof -
  have t: "mepc (csr_tick i s) = mepc s" "sepc (csr_tick i s) = sepc s" by (simp_all add: csr_tick_def)
  show "aligned (mepc (csr_step r i s))" "aligned (sepc (csr_step r i s))"
    using assms by (auto simp: csr_step_def csr_reset_def trap_s_def trap_m_def do_mret_def do_sret_def csr_write_epc t
        aligned_base Let_def)
qed

section \<open>Reachable states\<close>

inductive mc_reach :: "u32 \<Rightarrow> mc \<Rightarrow> bool" for P where
  reset: "mc_reach P (mc_step P True i x)"
| cycle: "mc_reach P x \<Longrightarrow> mc_reach P (mc_step P False i x)"

definition mc_wf :: "mc \<Rightarrow> bool" where
  "mc_wf x \<longleftrightarrow> aligned (mc_pc x) \<and> aligned (mepc (mc_csr x)) \<and> aligned (sepc (mc_csr x)) \<and>
     (mc_state x \<in> {MC_MEM, MC_DIV, MC_AMO_STORE, MC_AMO_WAIT} \<longrightarrow> (\<exists>a. mc_doing x a)) \<and>
     (mc_state x \<noteq> MC_DIV \<longrightarrow> dv_state (mc_div x) = S_IDLE)"

lemma doing_ex:
  "(\<exists>a. mc_doing x a) \<longleftrightarrow> mc_pc_of_mem x = mc_pc x \<and> mc_instr_of_mem x = mc_instr x \<and>
     (case mc_state x of MC_MEM \<Rightarrow> True | MC_AMO_STORE \<Rightarrow> mc_is_rmw x | MC_AMO_WAIT \<Rightarrow> mc_is_rmw x
      | MC_DIV \<Rightarrow> \<exists>r. div_goal (mc_div x) r | _ \<Rightarrow> False)"
  by (auto simp: mc_doing_def split: mc_fsm.splits)

lemma div_goal_start:
  assumes "dv_state d = S_IDLE" "di_start j"
  shows "div_goal (div_step False j d) (rv_div (di_signed j) (di_want_rem j) (di_dividend j) (di_divisor j))"
  unfolding div_goal_def using assms by (intro exI[of _ d] exI[of _ j] exI[of _ "[]"]) simp

lemma idle_stays: "dv_state d = S_IDLE \<Longrightarrow> \<not> di_start j \<Longrightarrow> dv_state (div_step False j d) = S_IDLE"
  by (simp add: div_step_def Let_def)

lemma reset_wf: "aligned P \<Longrightarrow> mc_wf (mc_step P True i x)"
  by (simp add: mc_wf_def mc_step_def mc_reset_def csr_step_def csr_reset_def div_step_def div_reset_def aligned_base
      split_beta Let_def)


lemma mc_step_sel:
  "mc_state (mc_step P False i x) = mc_state (fst (mc_comb i x))" "mc_pc (mc_step P False i x) = mc_pc (fst (mc_comb i x))"
  "mc_csr (mc_step P False i x) = csr_step False (mc_csr_in i x (snd (mc_comb i x))) (mc_csr x)"
  "mc_div (mc_step P False i x) = div_step False (div_input (no_div_start (snd (mc_comb i x))) x) (mc_div x)"
  "mc_pc_of_mem (mc_step P False i x) = mc_pc_of_mem (fst (mc_comb i x))"
  "mc_instr (mc_step P False i x) = mc_instr (fst (mc_comb i x))"
  "mc_instr_of_mem (mc_step P False i x) = mc_instr_of_mem (fst (mc_comb i x))"
  "mc_is_rmw (mc_step P False i x) = mc_is_rmw (fst (mc_comb i x))"
  "mc_inflight (mc_step P False i x) = mc_inflight (fst (mc_comb i x))"
  "mc_squash (mc_step P False i x) = mc_squash (fst (mc_comb i x))"
  by (simp_all add: step_fields split_beta Let_def)

text \<open>What a cycle leaves behind, with the divider told to start or not.\<close>

definition lands :: "mc \<Rightarrow> bool \<Rightarrow> mc \<Rightarrow> bool" where
  "lands x start y \<longleftrightarrow> aligned (mc_pc y) \<and> (start \<longrightarrow> mc_state y = MC_DIV) \<and> (mc_state x \<noteq> MC_DIV \<and> \<not> start \<longrightarrow> mc_state y \<noteq> MC_DIV) \<and>
     (mc_state y \<in> {MC_MEM, MC_DIV, MC_AMO_STORE, MC_AMO_WAIT} \<longrightarrow> mc_pc_of_mem y = mc_pc y \<and> mc_instr_of_mem y = mc_instr y) \<and>
     (mc_state y \<in> {MC_AMO_STORE, MC_AMO_WAIT} \<longrightarrow> mc_is_rmw y) \<and>
     (mc_state x = MC_DIV \<longrightarrow> \<not> start \<and> (mc_state y = MC_DIV \<longleftrightarrow> \<not> dv_done (mc_div x)))"

lemma exec_lands:
  assumes "mc_state x = MC_EXEC" "aligned (mc_pc x)" "aligned (mepc (mc_csr x))" "aligned (sepc (mc_csr x))"
  shows "lands x (no_div_start (snd (mc_exec i x))) (fst (mc_exec i x))"
proof (cases "mc_exec_trap i x")
  case None
  then show ?thesis
    using assms next_pc_aligned[OF assms(2) None] aligned_add[OF assms(2) aligned_base(2)]
    by (auto simp: lands_def mc_exec_def mc_issue_def quiet_out_def fetch_default_keeps Let_def)
next
  case (Some t)
  then show ?thesis using assms
    by (auto simp: lands_def mc_exec_def quiet_out_def fetch_default_keeps Let_def aligned_base split: prod.splits)
qed

lemma fetch_lands:
  assumes "mc_state x = MC_FETCH" "aligned (mc_pc x)"
  shows "lands x (no_div_start (snd (mc_fetch i x))) (fst (mc_fetch i x))"
  using assms by (auto simp: lands_def mc_fetch_def quiet_out_def fetch_default_keeps Let_def aligned_base aligned_irq)

lemma wait_lands:
  assumes "mc_doing x a" "aligned (mc_pc x)"
  shows "lands x (no_div_start (snd (mc_comb i x))) (fst (mc_comb i x))"
  using assms aligned_add[OF assms(2) aligned_base(2)]
  by (cases "mc_state x")
    (auto simp: mc_doing_def lands_def mc_comb_def mc_mem_def mc_amo_store_def mc_amo_wait_def mc_wait_div_def quiet_out_def
      fetch_default_keeps Let_def aligned_base)

lemma step_wf:
  assumes "mc_wf x"
  shows "mc_wf (mc_step P False i x)"
proof -
  let ?y = "fst (mc_comb i x)" and ?o = "snd (mc_comb i x)"
  let ?st = "no_div_start ?o"
  have al: "aligned (mc_pc x)" "aligned (mepc (mc_csr x))" "aligned (sepc (mc_csr x))" using assms by (simp_all add: mc_wf_def)
  have l: "lands x ?st ?y"
  proof (cases "mc_state x \<in> {MC_FETCH, MC_EXEC}")
    case True
    then show ?thesis using exec_lands[OF _ al] fetch_lands[OF _ al(1)] by (auto simp: mc_comb_def)
  next
    case False
    then obtain a where "mc_doing x a" using assms by (cases "mc_state x") (auto simp: mc_wf_def)
    then show ?thesis using wait_lands al(1) by blast
  qed
  have "aligned (ci_trap_pc (mc_csr_in i x ?o))"
  proof (cases "mc_state x \<in> {MC_MEM, MC_AMO_WAIT}")
    case True
    then have "mc_pc_of_mem x = mc_pc x" using assms doing_ex[of x] by (auto simp: mc_wf_def)
    then show ?thesis using al(1) by (simp add: mc_csr_in_def Let_def csr_query_def)
  qed (use al(1) in \<open>auto simp: mc_csr_in_def Let_def csr_query_def\<close>)
  note epc = csr_step_epc[OF al(2,3), of "mc_csr_in i x ?o" False, OF this]
  have d: "if mc_state ?y = MC_DIV then \<exists>r. div_goal (div_step False (div_input ?st x) (mc_div x)) r
    else dv_state (div_step False (div_input ?st x) (mc_div x)) = S_IDLE"
  proof (cases "mc_state x = MC_DIV")
    case True
    then obtain r where "div_goal (mc_div x) r" using assms doing_ex[of x] by (auto simp: mc_wf_def)
    note g = div_goal_step[OF this, of "div_input ?st x"]
    have n: "\<not> di_start (div_input ?st x)" "mc_state ?y = MC_DIV \<longleftrightarrow> \<not> dv_done (mc_div x)"
      using l True by (simp_all add: lands_def div_input_def)
    show ?thesis
    proof (cases "dv_done (mc_div x)")
      case True
      then show ?thesis using g n idle_stays[of "mc_div x"] by simp
    next
      case False
      then have "div_goal (div_step False (div_input ?st x) (mc_div x)) r" using g by simp
      then show ?thesis using n False by auto
    qed
  next
    case False
    then have "dv_state (mc_div x) = S_IDLE" using assms by (simp add: mc_wf_def)
    then show ?thesis using l False idle_stays[of "mc_div x" "div_input ?st x"] div_goal_start[of "mc_div x" "div_input ?st x"]
      by (cases ?st) (auto simp: lands_def div_input_def)
  qed
  show ?thesis using l epc d unfolding mc_wf_def doing_ex mc_step_sel
    by (cases "mc_state ?y") (auto simp: lands_def)
qed

theorem mc_reach_wf:
  assumes "mc_reach P x" "aligned P"
  shows "mc_wf x"
  using assms
  by (induction rule: mc_reach.induct[consumes 1, case_names reset cycle]) (auto intro: reset_wf step_wf)

section \<open>Fetching\<close>

text \<open>
  An instruction memory with at most one request outstanding: it answers only a pending request, and takes
  another in the cycle of the answer at the earliest. \<open>ok a w\<close> says that it may serve \<open>w\<close> for address \<open>a\<close>.
\<close>

definition fetch_answers :: "(u32 \<Rightarrow> u32 \<Rightarrow> bool) \<Rightarrow> mc_in \<Rightarrow> u32 option \<Rightarrow> bool" where
  "fetch_answers ok i p \<longleftrightarrow>
     (ni_if_rsp i \<longrightarrow> (\<exists>a. p = Some a \<and> (\<not> ni_if_fault i \<and> \<not> ni_if_pagefault i \<longrightarrow> ok a (ni_if_data i)))) \<and>
     (ni_if_ready i \<longrightarrow> p = None \<or> ni_if_rsp i)"

definition fetch_pending :: "mc_in \<Rightarrow> mc_out \<Rightarrow> u32 option \<Rightarrow> u32 option" where
  "fetch_pending i out p =
     (if no_if_req out \<and> ni_if_ready i then Some (no_if_addr out) else if ni_if_rsp i then None else p)"

inductive fetch_run :: "u32 \<Rightarrow> (u32 \<Rightarrow> u32 \<Rightarrow> bool) \<Rightarrow> mc \<Rightarrow> u32 option \<Rightarrow> bool" for P ok where
  reset: "fetch_run P ok (mc_step P True i x) None"
| cycle: "fetch_run P ok x p \<Longrightarrow> fetch_answers ok i p \<Longrightarrow>
    fetch_run P ok (mc_step P False i x) (fetch_pending i (snd (mc_comb i x)) p)"

definition fetch_inv :: "(u32 \<Rightarrow> u32 \<Rightarrow> bool) \<Rightarrow> mc \<Rightarrow> u32 option \<Rightarrow> bool" where
  "fetch_inv ok x p \<longleftrightarrow> (mc_inflight x \<longrightarrow> p \<noteq> None) \<and> (mc_squash x \<longrightarrow> mc_inflight x) \<and>
     (mc_inflight x \<longrightarrow> mc_state x = MC_FETCH) \<and>
     (mc_inflight x \<and> \<not> mc_squash x \<longrightarrow> p = Some (mc_pc x)) \<and>
     (mc_state x \<noteq> MC_FETCH \<longrightarrow> ok (mc_pc x) (mc_instr x))"

lemma comb_keeps:
  assumes "mc_state x \<noteq> MC_FETCH"
  shows "mc_inflight (fst (mc_comb i x)) = mc_inflight (fetch_default i x)"
    "mc_squash (fst (mc_comb i x)) = mc_squash (fetch_default i x)"
    "\<not> no_if_req (snd (mc_comb i x))" "mc_instr (fst (mc_comb i x)) = mc_instr x"
    "mc_state (fst (mc_comb i x)) \<noteq> MC_FETCH \<Longrightarrow> mc_pc (fst (mc_comb i x)) = mc_pc x"
proof -
  have e: "mc_inflight (fst (mc_exec i x)) = mc_inflight (fetch_default i x) \<and>
      mc_squash (fst (mc_exec i x)) = mc_squash (fetch_default i x) \<and> \<not> no_if_req (snd (mc_exec i x)) \<and>
      mc_instr (fst (mc_exec i x)) = mc_instr x \<and>
      (mc_state (fst (mc_exec i x)) \<noteq> MC_FETCH \<longrightarrow> mc_pc (fst (mc_exec i x)) = mc_pc x)"
    by (simp add: mc_exec_def mc_issue_def Let_def quiet_out_def fetch_default_keeps split: option.split)
  note w = mc_comb_def mc_mem_def mc_amo_store_def mc_amo_wait_def mc_wait_div_def Let_def quiet_out_def fetch_default_keeps
  show "mc_inflight (fst (mc_comb i x)) = mc_inflight (fetch_default i x)"
    "mc_squash (fst (mc_comb i x)) = mc_squash (fetch_default i x)"
    "\<not> no_if_req (snd (mc_comb i x))" "mc_instr (fst (mc_comb i x)) = mc_instr x"
    "mc_state (fst (mc_comb i x)) \<noteq> MC_FETCH \<Longrightarrow> mc_pc (fst (mc_comb i x)) = mc_pc x"
    using assms e by (cases "mc_state x", simp_all add: w split: if_splits)+
qed

lemma fetch_inv_step:
  assumes "fetch_inv ok x p" "fetch_answers ok i p"
  shows "fetch_inv ok (mc_step P False i x) (fetch_pending i (snd (mc_comb i x)) p)"
proof (cases "mc_state x = MC_FETCH")
  case True
  then show ?thesis using assms
    by (auto simp: fetch_inv_def fetch_answers_def fetch_pending_def mc_step_sel mc_comb_def mc_fetch_def fetch_default_def
        quiet_out_def Let_def)
next
  case False
  then have "\<not> mc_inflight (fetch_default i x)" "\<not> mc_squash (fetch_default i x)" "ok (mc_pc x) (mc_instr x)"
    using assms(1) by (auto simp: fetch_inv_def fetch_default_def)
  then show ?thesis using comb_keeps[OF False] by (simp add: fetch_inv_def mc_step_sel)
qed

lemma fetches_pc:
  assumes "fetch_run P ok x p" "mc_state x \<noteq> MC_FETCH"
  shows "ok (mc_pc x) (mc_instr x)"
proof -
  have "fetch_inv ok x p" using assms(1)
  proof induction
    case (reset i x)
    then show ?case by (simp add: fetch_inv_def mc_step_def mc_reset_def split_beta Let_def)
  qed (rule fetch_inv_step)
  then show ?thesis using assms(2) by (simp add: fetch_inv_def)
qed


text \<open>Two cycles after reset any word the memory serves can be executing.\<close>

lemma reach_exec:
  assumes "ok P w"
  shows "\<exists>x p. fetch_run P ok x p \<and> mc_reach P x \<and> mc_state x = MC_EXEC \<and> mc_instr x = w \<and> mc_pc x = P"
proof -
  fix x0 :: mc and i0 :: mc_in
  let ?i1 = "i0\<lparr>ni_if_ready := True, ni_if_rsp := False\<rparr>"
  let ?i2 = "i0\<lparr>ni_if_ready := False, ni_if_rsp := True, ni_if_data := w, ni_if_fault := False, ni_if_pagefault := False\<rparr>"
  let ?a = "mc_step P True i0 x0" let ?b = "mc_step P False ?i1 ?a" let ?c = "mc_step P False ?i2 ?b"
  have irq: "\<not> irq_pending q s" if "mie s = 0" for q s
    using that by (simp add: irq_pending_def m_irq_live_def s_irq_live_def mip_m_enabled_def mip_s_enabled_def)
  have a: "mc_state ?a = MC_FETCH" "mc_pc ?a = P" "\<not> mc_inflight ?a" "\<not> mc_squash ?a" "mie (mc_csr ?a) = 0"
    by (simp_all add: mc_step_def mc_reset_def csr_step_def csr_reset_def split_beta Let_def)
  have ca: "fst (mc_comb ?i1 ?a) = ?a\<lparr>mc_inflight := True\<rparr>" "no_if_req (snd (mc_comb ?i1 ?a))"
    "no_if_addr (snd (mc_comb ?i1 ?a)) = P" "no_commit (snd (mc_comb ?i1 ?a)) = None" "\<not> no_csr_en (snd (mc_comb ?i1 ?a))"
    using a irq[OF a(5)] by (simp_all add: mc_comb_def mc_fetch_def quiet_out_def fetch_default_def Let_def)
  have b: "mc_state ?b = MC_FETCH" "mc_pc ?b = P" "mc_inflight ?b" "\<not> mc_squash ?b" "mie (mc_csr ?b) = 0"
    using a ca
    by (simp_all add: mc_step_sel csr_step_def mc_csr_in_def csr_query_def do_write_def csr_tick_def Let_def)
  have cb: "fst (mc_comb ?i2 ?b) = ?b\<lparr>mc_inflight := False, mc_squash := False, mc_instr := w, mc_state := MC_EXEC\<rparr>"
    using b irq[OF b(5)] by (simp add: mc_comb_def mc_fetch_def quiet_out_def fetch_default_def Let_def)
  have "fetch_run P ok ?b (fetch_pending ?i1 (snd (mc_comb ?i1 ?a)) None)"
    by (rule fetch_run.cycle[OF fetch_run.reset]) (simp add: fetch_answers_def)
  then have rb: "fetch_run P ok ?b (Some P)" using ca by (simp add: fetch_pending_def)
  have "fetch_run P ok ?c (fetch_pending ?i2 (snd (mc_comb ?i2 ?b)) (Some P))"
    by (rule fetch_run.cycle[OF rb]) (simp add: fetch_answers_def assms)
  moreover have "mc_reach P ?c" by (intro mc_reach.intros)
  moreover have "mc_state ?c = MC_EXEC" "mc_instr ?c = w" "mc_pc ?c = P" using cb b by (simp_all add: mc_step_sel)
  ultimately show ?thesis by blast
qed


section \<open>Properties\<close>

text \<open>
  C2. In every reachable state that executes an instruction other than a reserved encoding, the cycle does
  what the RV32IMA meaning of the instruction begins with: it retires (register, next pc, reservation), raises
  a precise exception with its cause and trap value, drives the memory request, or starts the divider.
\<close>

theorem mc_exec_refines:
  assumes "mc_reach P x" "aligned P" "mc_state x = MC_EXEC" "\<not> reserved (mc_instr x)"
  shows "exec_agrees P i x (isa_act (mc_instr x) (mc_ctx i x))"
  using exec_meaning[OF assms(3,4)] mc_reach_wf[OF assms(1,2)] assms(3) by (simp add: mc_wf_def)

theorem mc_exec_refines_witness:
  "\<exists>x. mc_reach 0x80000000 x \<and> mc_instr x = 0x00A00093 \<and>
     (\<forall>i. retires 0x80000000 i x (Some (1, 10)) 0x80000004 (resv_of x))"
proof -
  let ?w = "0x00A00093 :: u32"
  obtain x where x: "mc_reach 0x80000000 x" "mc_state x = MC_EXEC" "mc_instr x = ?w" "mc_pc x = 0x80000000"
    using reach_exec[of "\<lambda>_ _. True" "0x80000000" ?w] by auto
  have f: "opcode ?w = 0x13" "funct3 ?w = 0" "funct7 ?w = 0" "rd_i ?w = 1" "rs1_i ?w = 0" "imm_i ?w = 10" "aligned 0x80000000"
    by code_simp+
  have r: "\<not> reserved ?w" using f by (simp add: reserved_def)
  have a: "isa_act ?w (mc_ctx i x) = Retire (Some (1, 10)) 0x80000004 (resv_of x)" for i
    using x f by (simp add: dec_defs dec_arith_imm_def dec_arith_def arith_fn_def rf_read_def)
  have "exec_agrees 0x80000000 i x (isa_act ?w (mc_ctx i x))" for i
    using mc_exec_refines[OF x(1) f(7) x(2), of i] x(3) r by simp
  then show ?thesis using x unfolding a agrees_simps by blast
qed

text \<open>
  C3. The states after the execute cycle finish the instruction: they present its memory access until it is
  taken, pass the word that comes back to the rest of its meaning, raise the access or page fault of the
  response with the address as trap value, and wait for the divider; no cycle before the last has an effect.
\<close>

theorem mc_wait_refines:
  assumes "mc_doing x a"
  shows "wait_agrees P i x a"
  using assms by (rule wait_meaning)

theorem mc_wait_refines_witness:
  "\<exists>x :: mc. mc_doing x (mem_act x) \<and> (\<forall>P i. wait_agrees P i x (mem_act x))"
proof -
  fix x0 :: mc
  let ?x = "x0\<lparr>mc_state := MC_MEM, mc_pc_of_mem := mc_pc x0, mc_instr_of_mem := mc_instr x0\<rparr>"
  have "mc_doing ?x (mem_act ?x)" by (simp add: mc_doing_def)
  then show ?thesis using mc_wait_refines by blast
qed

text \<open>
  C21. For such an instruction the CSR file is accessed exactly by CSR instructions that it accepts, left by
  MRET in machine mode and by SRET where \<open>mstatus.TSR\<close> allows, and the address translations are flushed
  exactly by an SFENCE.VMA that the privilege mode and \<open>mstatus.TVM\<close> allow.
\<close>

theorem mc_exec_drives_csr:
  fixes x :: mc and i :: mc_in
  assumes "mc_state x = MC_EXEC" "\<not> reserved (mc_instr x)"
  defines "out \<equiv> snd (mc_comb i x)" and "d \<equiv> rv_decode (mc_instr x)" and "m \<equiv> priv_mode (mc_csr x)"
  shows "(ci_en (mc_csr_in i x out) \<longleftrightarrow> (\<exists>rd. d = Some (I_CSR rd)) \<and> \<not> csr_illegal (csr_query i x) (mc_csr x)) \<and>
    (ci_mret (mc_csr_in i x out) \<longleftrightarrow> d = Some I_MRET \<and> m = PRV_M) \<and>
    (ci_sret (mc_csr_in i x out) \<longleftrightarrow> d = Some I_SRET \<and> m \<noteq> PRV_U \<and> \<not> (m = PRV_S \<and> bit (mstatus (mc_csr x)) 22)) \<and>
    (mc_sfence x out \<longleftrightarrow> d = Some I_SFENCE \<and> m \<noteq> PRV_U \<and> \<not> (m = PRV_S \<and> bit (mstatus (mc_csr x)) 20))"
  unfolding out_def d_def m_def by (rule exec_csr_port[OF assms(1,2)])

theorem mc_exec_drives_csr_witness:
  "\<exists>x. mc_reach 0 x \<and> mc_instr x = 0x30200073 \<and>
     (\<forall>i. ci_mret (mc_csr_in i x (snd (mc_comb i x))) \<longleftrightarrow> priv_mode (mc_csr x) = PRV_M)"
proof -
  let ?w = "0x30200073 :: u32"
  obtain x where x: "mc_reach 0 x" "mc_state x = MC_EXEC" "mc_instr x = ?w"
    using reach_exec[of "\<lambda>_ _. True" 0 ?w] by auto
  have f: "opcode ?w = 0x73" "funct3 ?w = 0" "funct12 ?w = 0x302" "rd_i ?w = 0" "rs1_i ?w = 0" "funct7 ?w = 0x18"
    by code_simp+
  have "rv_decode ?w = Some I_MRET" using f by (simp add: rv_decode_def dec_priv_def)
  moreover have "\<not> reserved ?w" using f by (simp add: reserved_def)
  ultimately show ?thesis using x mc_exec_drives_csr[OF x(2)] by (intro exI[of _ x]) simp
qed

text \<open>
  C24. Every reachable state is well formed when the reset address is aligned: pc and the exception pcs are
  multiples of four, a waiting state holds an instruction in flight, and the divider is busy only in its state.
\<close>

theorem mc_reach_well_formed:
  assumes "mc_reach P x" "aligned P"
  shows "mc_wf x"
  using assms by (rule mc_reach_wf)

theorem mc_reach_well_formed_witness: "\<exists>x. mc_reach 0x80000000 x \<and> mc_wf x"
proof -
  have "aligned 0x80000000" by code_simp
  then show ?thesis using mc_reach_well_formed[OF mc_reach.reset] mc_reach.reset by blast
qed

text \<open>
  Over any instruction memory with one request outstanding, fixed or changing, the word being executed is
  one that was served for its pc: answers to fetches made stale by an interrupt or trap are dropped.
\<close>

theorem mc_fetches_pc:
  assumes "fetch_run P ok x p" "mc_state x \<noteq> MC_FETCH"
  shows "ok (mc_pc x) (mc_instr x)"
  using assms by (rule fetches_pc)

theorem mc_fetches_pc_witness:
  "\<exists>x p. fetch_run 0x80000000 (\<lambda>a w. w = a + 0x13) x p \<and> mc_state x = MC_EXEC \<and> mc_instr x = mc_pc x + 0x13"
  using reach_exec[of "\<lambda>a w. w = a + 0x13" "0x80000000" "0x80000013"] mc_fetches_pc[of "0x80000000" "\<lambda>a w. w = a + 0x13"]
  by fastforce

end
