(* ===== verification/Soc_Bus.thy ===== *)
theory Soc_Bus
  imports Mmio_Uart Clint Plic Memories Axi
begin

text \<open>
  The interconnect of \<open>rtl/soc/soc_top.sv\<close>, in the configuration without caches: the address decoders of
  the data, fetch and page-table ports, the arbiter of SRAM port B, the arbiter in front of the AXI4 master,
  the responders for unmapped addresses, and the merge of the answers. One \<open>soc_step\<close> is one clock cycle of
  the SRAM, the MMIO block, the CLINT, the PLIC and the AXI4 master behind it.
\<close>

section \<open>Ports and registers\<close>

record soc_in =
  si_dm :: bus_req
  si_if_valid :: bool
  si_if_addr :: u32
  si_ptw_valid :: bool
  si_ptw_addr :: u32
  si_axi :: axi_back
  si_console_ready :: bool
  si_sources :: "4 word"

record soc =
  so_sram :: sram
  so_mmio :: mmio
  so_clint :: clint
  so_plic :: plic
  so_axim :: axim
  so_dm_bad :: bool
  so_if_bad :: bool
  so_ptw_bad :: bool
  so_last_ptw :: bool
  so_client :: "2 word"
  so_last_if :: bool

record answer =
  an_valid :: bool
  an_data :: u32
  an_fault :: bool

section \<open>Decoders\<close>

definition dm_is_clint :: "u32 \<Rightarrow> bool" where "dm_is_clint a = (fld 20 a = (0x020 :: 12 word))"
definition dm_is_plic :: "u32 \<Rightarrow> bool" where "dm_is_plic a = (fld 24 a = (0x0C :: 8 word))"
definition dm_is_sram :: "u32 \<Rightarrow> bool" where "dm_is_sram a = (fld 16 a = (0x8000 :: 16 word))"
definition dm_is_axi :: "u32 \<Rightarrow> bool" where
  "dm_is_axi a = (fld 28 a = (0x4 :: 4 word) \<or> fld 28 a = (0xC :: 4 word))"
definition dm_is_mmio :: "u32 \<Rightarrow> bool" where "dm_is_mmio a = (fld 16 a = (0xD058 :: 16 word))"

definition if_is_sram :: "u32 \<Rightarrow> bool" where "if_is_sram a = (fld 16 a = (0x8000 :: 16 word))"
definition if_is_axi :: "u32 \<Rightarrow> bool" where "if_is_axi a = (fld 28 a = (0x4 :: 4 word))"
definition ptw_is_sram :: "u32 \<Rightarrow> bool" where "ptw_is_sram a = (fld 16 a = (0x8000 :: 16 word))"
definition ptw_is_axi :: "u32 \<Rightarrow> bool" where "ptw_is_axi a = (fld 28 a = (0x4 :: 4 word))"

section \<open>Requests\<close>

definition gated :: "(u32 \<Rightarrow> bool) \<Rightarrow> bus_req \<Rightarrow> bus_req" where
  "gated sel r = r\<lparr>rq_valid := rq_valid r \<and> sel (rq_addr r)\<rparr>"

definition dm_bad :: "bus_req \<Rightarrow> bool" where
  "dm_bad r = (rq_valid r \<and> \<not> dm_is_sram (rq_addr r) \<and> \<not> dm_is_mmio (rq_addr r) \<and> \<not> dm_is_clint (rq_addr r) \<and>
     \<not> dm_is_plic (rq_addr r) \<and> \<not> dm_is_axi (rq_addr r))"

definition if_bad :: "soc_in \<Rightarrow> bool" where
  "if_bad i = (si_if_valid i \<and> \<not> if_is_sram (si_if_addr i) \<and> \<not> if_is_axi (si_if_addr i))"

definition ptw_bad :: "soc_in \<Rightarrow> bool" where
  "ptw_bad i = (si_ptw_valid i \<and> \<not> ptw_is_sram (si_ptw_addr i) \<and> \<not> ptw_is_axi (si_ptw_addr i))"

text \<open>SRAM port B: the page-table walker goes first.\<close>

definition arb_pick_ptw :: "soc_in \<Rightarrow> bool" where
  "arb_pick_ptw i = (si_ptw_valid i \<and> ptw_is_sram (si_ptw_addr i))"

definition sram_ports :: "soc_in \<Rightarrow> sram_in" where
  "sram_ports i =
     (let d = gated dm_is_sram (si_dm i); p = arb_pick_ptw i in
      \<lparr>sr_a_req_valid = si_if_valid i \<and> if_is_sram (si_if_addr i), sr_a_req_addr = si_if_addr i,
       sr_b_req_valid = p \<or> rq_valid d, sr_b_req_addr = (if p then si_ptw_addr i else rq_addr d),
       sr_b_req_wen = (\<not> p \<and> rq_wen d), sr_b_req_wmask = (if p then 15 else rq_wmask d),
       sr_b_req_wdata = (if p then 0 else rq_wdata d)\<rparr>)"

text \<open>The AXI4 master: the walker first, then fetches and data in turn.\<close>

definition arb_ptw_ax :: "soc_in \<Rightarrow> bool" where
  "arb_ptw_ax i = (si_ptw_valid i \<and> ptw_is_axi (si_ptw_addr i))"

definition if_ax :: "soc_in \<Rightarrow> bool" where "if_ax i = (si_if_valid i \<and> if_is_axi (si_if_addr i))"
definition dm_ax :: "soc_in \<Rightarrow> bool" where "dm_ax i = rq_valid (gated dm_is_axi (si_dm i))"

definition arb_if :: "soc \<Rightarrow> soc_in \<Rightarrow> bool" where
  "arb_if s i = (\<not> arb_ptw_ax i \<and> if_ax i \<and> (\<not> dm_ax i \<or> \<not> so_last_if s))"

definition arb_dm :: "soc \<Rightarrow> soc_in \<Rightarrow> bool" where
  "arb_dm s i = (\<not> arb_ptw_ax i \<and> \<not> arb_if s i \<and> dm_ax i)"

definition am_req :: "soc \<Rightarrow> soc_in \<Rightarrow> bus_req" where
  "am_req s i =
     (let v = arb_ptw_ax i \<or> if_ax i \<or> dm_ax i; d = si_dm i in
      if arb_ptw_ax i then (rd_req (si_ptw_addr i))\<lparr>rq_valid := v\<rparr>
      else if arb_if s i then (rd_req (si_if_addr i))\<lparr>rq_valid := v\<rparr>
      else d\<lparr>rq_valid := v\<rparr>)"

definition am_ready :: "soc \<Rightarrow> bool" where "am_ready s = axim_req_ready (so_axim s)"

section \<open>Answers\<close>

definition dm_ready :: "soc \<Rightarrow> soc_in \<Rightarrow> bool" where
  "dm_ready s i =
     (let a = rq_addr (si_dm i) in
      if dm_is_sram a then \<not> arb_pick_ptw i
      else if dm_is_mmio a then mmio_ready (si_console_ready i) (gated dm_is_mmio (si_dm i))
      else if dm_is_clint a then True
      else if dm_is_plic a then True
      else if dm_is_axi a then arb_dm s i \<and> am_ready s
      else True)"

definition dm_answer :: "soc \<Rightarrow> answer" where
  "dm_answer s =
     (let sv = sr_b_rsp_valid (so_sram s) \<and> \<not> so_last_ptw s; av = xm_rsp_valid (so_axim s) \<and> so_client s = 2 in
      \<lparr>an_valid = sv \<or> mm_rsp_valid (so_mmio s) \<or> cl_rsp_valid (so_clint s) \<or> pl_rsp_valid (so_plic s) \<or> av \<or> so_dm_bad s,
       an_data = (if sv then sr_b_rsp_rdata (so_sram s)
                  else if mm_rsp_valid (so_mmio s) then mm_rsp_rdata (so_mmio s)
                  else if cl_rsp_valid (so_clint s) then cl_rsp_rdata (so_clint s)
                  else if pl_rsp_valid (so_plic s) then pl_rsp_rdata (so_plic s)
                  else if av then xm_rsp_rdata (so_axim s) else 0),
       an_fault = (mm_rsp_fault (so_mmio s) \<or> cl_rsp_fault (so_clint s) \<or> pl_rsp_fault (so_plic s) \<or>
                   (xm_rsp_fault (so_axim s) \<and> so_client s = 2) \<or> so_dm_bad s)\<rparr>)"

definition if_ready :: "soc \<Rightarrow> soc_in \<Rightarrow> bool" where
  "if_ready s i =
     (if if_is_sram (si_if_addr i) then True
      else if if_is_axi (si_if_addr i) then arb_if s i \<and> am_ready s
      else True)"

definition if_answer :: "soc \<Rightarrow> answer" where
  "if_answer s =
     (let sv = sr_a_rsp_valid (so_sram s); av = xm_rsp_valid (so_axim s) \<and> so_client s = 1 in
      \<lparr>an_valid = sv \<or> av \<or> so_if_bad s,
       an_data = (if sv then sr_a_rsp_rdata (so_sram s) else if av then xm_rsp_rdata (so_axim s) else 0),
       an_fault = ((xm_rsp_fault (so_axim s) \<and> so_client s = 1) \<or> so_if_bad s)\<rparr>)"

definition ptw_ready :: "soc \<Rightarrow> soc_in \<Rightarrow> bool" where
  "ptw_ready s i =
     (if ptw_is_sram (si_ptw_addr i) then True
      else if ptw_is_axi (si_ptw_addr i) then arb_ptw_ax i \<and> am_ready s
      else True)"

definition ptw_answer :: "soc \<Rightarrow> answer" where
  "ptw_answer s =
     (let sv = sr_b_rsp_valid (so_sram s) \<and> so_last_ptw s; av = xm_rsp_valid (so_axim s) \<and> so_client s = 0 in
      \<lparr>an_valid = sv \<or> av \<or> so_ptw_bad s,
       an_data = (if sv then sr_b_rsp_rdata (so_sram s) else if av then xm_rsp_rdata (so_axim s) else 0),
       an_fault = ((xm_rsp_fault (so_axim s) \<and> so_client s = 0) \<or> so_ptw_bad s)\<rparr>)"

section \<open>The clock edge\<close>

definition arb_next :: "bool \<Rightarrow> soc_in \<Rightarrow> soc \<Rightarrow> soc" where
  "arb_next rst i s =
     (if rst then s\<lparr>so_client := 0, so_last_if := False\<rparr>
      else if rq_valid (am_req s i) \<and> am_ready s
      then s\<lparr>so_client := (if arb_ptw_ax i then 0 else if arb_if s i then 1 else 2),
             so_last_if := (if arb_if s i \<or> arb_dm s i then arb_if s i else so_last_if s)\<rparr>
      else s)"

definition soc_step :: "bool \<Rightarrow> soc_in \<Rightarrow> soc \<Rightarrow> soc" where
  "soc_step rst i s =
     (arb_next rst i s)\<lparr>so_sram := sram_step (so_sram s) (sram_ports i),
       so_mmio := mmio_step (si_console_ready i) rst (gated dm_is_mmio (si_dm i)) (so_mmio s),
       so_clint := clint_step rst (gated dm_is_clint (si_dm i)) (so_clint s),
       so_plic := plic_step rst (si_sources i) (gated dm_is_plic (si_dm i)) (so_plic s),
       so_axim := axim_step rst (am_req s i) (si_axi i) (so_axim s),
       so_dm_bad := \<not> rst \<and> dm_bad (si_dm i),
       so_if_bad := \<not> rst \<and> if_bad i \<and> \<not> so_if_bad s,
       so_ptw_bad := \<not> rst \<and> ptw_bad i,
       so_last_ptw := (if rst then False else if sr_b_req_valid (sram_ports i) then arb_pick_ptw i else so_last_ptw s)\<rparr>"


section \<open>The address map\<close>

datatype region = R_SRAM | R_MMIO | R_CLINT | R_PLIC | R_AXI | R_NONE

definition region :: "u32 \<Rightarrow> region" where
  "region a = (if dm_is_sram a then R_SRAM else if dm_is_mmio a then R_MMIO else if dm_is_clint a then R_CLINT
     else if dm_is_plic a then R_PLIC else if dm_is_axi a then R_AXI else R_NONE)"

lemma fld_of_top:
  "fld 28 a = (fld 12 (fld 16 (a :: u32) :: 16 word) :: 4 word)" "fld 24 a = (fld 8 (fld 16 a :: 16 word) :: 8 word)"
  "fld 20 a = (fld 4 (fld 16 a :: 16 word) :: 12 word)"
  by (rule bit_word_eqI, simp add: bit_fld)+

text \<open>The decoders exclude each other.\<close>

lemma dm_region:
  "dm_is_sram a \<longleftrightarrow> region a = R_SRAM" "dm_is_mmio a \<longleftrightarrow> region a = R_MMIO" "dm_is_clint a \<longleftrightarrow> region a = R_CLINT"
  "dm_is_plic a \<longleftrightarrow> region a = R_PLIC" "dm_is_axi a \<longleftrightarrow> region a = R_AXI"
proof -
  have t: "fld 24 a = (fld 4 (fld 20 a :: 12 word) :: 8 word)" "fld 28 a = (fld 8 (fld 20 a :: 12 word) :: 4 word)"
    "fld 28 a = (fld 4 (fld 24 a :: 8 word) :: 4 word)"
    by (rule bit_word_eqI, simp add: bit_fld)+
  have c: "fld 12 (0x8000 :: 16 word) = (8 :: 4 word)" "fld 8 (0x8000 :: 16 word) = (0x80 :: 8 word)"
    "fld 4 (0x8000 :: 16 word) = (0x800 :: 12 word)" "fld 12 (0xD058 :: 16 word) = (0xD :: 4 word)"
    "fld 8 (0xD058 :: 16 word) = (0xD0 :: 8 word)" "fld 4 (0xD058 :: 16 word) = (0xD05 :: 12 word)"
    "fld 4 (0x020 :: 12 word) = (2 :: 8 word)" "fld 8 (0x020 :: 12 word) = (0 :: 4 word)" "fld 4 (0x0C :: 8 word) = (0 :: 4 word)"
    by code_simp+
  have x: "\<not> (dm_is_sram a \<and> (dm_is_mmio a \<or> dm_is_clint a \<or> dm_is_plic a \<or> dm_is_axi a))"
    "\<not> (dm_is_mmio a \<and> (dm_is_clint a \<or> dm_is_plic a \<or> dm_is_axi a))"
    using c by (auto simp: dm_is_sram_def dm_is_mmio_def dm_is_clint_def dm_is_plic_def dm_is_axi_def fld_of_top)
  have y: "\<not> (dm_is_clint a \<and> (dm_is_plic a \<or> dm_is_axi a))" "\<not> (dm_is_plic a \<and> dm_is_axi a)"
    using c t by (auto simp: dm_is_clint_def dm_is_plic_def dm_is_axi_def)
  show "dm_is_sram a \<longleftrightarrow> region a = R_SRAM" "dm_is_mmio a \<longleftrightarrow> region a = R_MMIO" "dm_is_clint a \<longleftrightarrow> region a = R_CLINT"
    "dm_is_plic a \<longleftrightarrow> region a = R_PLIC" "dm_is_axi a \<longleftrightarrow> region a = R_AXI"
    using x y by (auto simp: region_def)
qed

lemma dm_bad_region: "dm_bad r \<longleftrightarrow> rq_valid r \<and> region (rq_addr r) = R_NONE"
  by (cases "region (rq_addr r)") (simp_all add: dm_bad_def dm_region)

lemma fetch_regions:
  "if_is_sram a \<longleftrightarrow> region a = R_SRAM" "if_is_axi a \<Longrightarrow> region a = R_AXI" "ptw_is_sram a \<longleftrightarrow> region a = R_SRAM"
  "ptw_is_axi a \<Longrightarrow> region a = R_AXI"
  using dm_region(1,5)[of a] by (simp_all add: if_is_sram_def ptw_is_sram_def if_is_axi_def ptw_is_axi_def dm_is_sram_def dm_is_axi_def)

section \<open>Who waits for what\<close>

text \<open>
  The data port and the walker have one request pending at most: they ask again in the cycle of the answer
  at the earliest. Fetches are not restricted; \<open>fa\<close> is the address of the fetch the AXI4 master holds.
\<close>

record waits =
  wt_dm :: "bus_req option"
  wt_ptw :: "u32 option"
  wt_fa :: "u32 option"

definition asks :: "soc_in \<Rightarrow> soc \<Rightarrow> waits \<Rightarrow> bool" where
  "asks i s w \<longleftrightarrow> (rq_valid (si_dm i) \<longrightarrow> wt_dm w = None \<or> an_valid (dm_answer s)) \<and>
     (si_ptw_valid i \<longrightarrow> wt_ptw w = None \<or> an_valid (ptw_answer s))"

definition waits_next :: "soc_in \<Rightarrow> soc \<Rightarrow> waits \<Rightarrow> waits" where
  "waits_next i s w =
     \<lparr>wt_dm = (if rq_valid (si_dm i) \<and> dm_ready s i then Some (si_dm i)
               else if an_valid (dm_answer s) then None else wt_dm w),
      wt_ptw = (if si_ptw_valid i \<and> ptw_ready s i then Some (si_ptw_addr i)
                else if an_valid (ptw_answer s) then None else wt_ptw w),
      wt_fa = (if arb_if s i \<and> am_ready s then Some (si_if_addr i)
               else if xm_rsp_valid (so_axim s) \<and> so_client s = 1 then None else wt_fa w)\<rparr>"

inductive soc_run :: "soc \<Rightarrow> waits \<Rightarrow> bool" where
  reset: "\<not> rq_valid (si_dm i) \<Longrightarrow> \<not> si_ptw_valid i \<Longrightarrow>
    soc_run (soc_step True i s) \<lparr>wt_dm = None, wt_ptw = None, wt_fa = None\<rparr>"
| cycle: "soc_run s w \<Longrightarrow> asks i s w \<Longrightarrow> soc_run (soc_step False i s) (waits_next i s w)"

text \<open>The AXI4 master works for a client, or shows it the answer.\<close>

definition serves :: "soc \<Rightarrow> 2 word \<Rightarrow> bool" where
  "serves s c \<longleftrightarrow> so_client s = c \<and> (xm_state (so_axim s) \<noteq> AX_IDLE \<or> xm_rsp_valid (so_axim s))"

text \<open>What the registers show when a port waits.\<close>

definition dm_inv :: "soc \<Rightarrow> bus_req option \<Rightarrow> bool" where
  "dm_inv s p \<longleftrightarrow> (let R = map_option (\<lambda>r. region (rq_addr r)) p in
     (sr_b_rsp_valid (so_sram s) \<and> \<not> so_last_ptw s \<longleftrightarrow> R = Some R_SRAM) \<and>
     (mm_rsp_valid (so_mmio s) \<longleftrightarrow> R = Some R_MMIO) \<and> (cl_rsp_valid (so_clint s) \<longleftrightarrow> R = Some R_CLINT) \<and>
     (pl_rsp_valid (so_plic s) \<longleftrightarrow> R = Some R_PLIC) \<and> (serves s 2 \<longleftrightarrow> R = Some R_AXI) \<and>
     (so_dm_bad s \<longleftrightarrow> R = Some R_NONE) \<and>
     (\<forall>r. p = Some r \<and> R = Some R_SRAM \<and> \<not> rq_wen r \<longrightarrow>
        sr_b_rsp_rdata (so_sram s) = sr_mem (so_sram s) (sram_index (rq_addr r))))"

definition ptw_inv :: "soc \<Rightarrow> u32 option \<Rightarrow> bool" where
  "ptw_inv s p \<longleftrightarrow>
     (sr_b_rsp_valid (so_sram s) \<and> so_last_ptw s \<longleftrightarrow> (\<exists>a. p = Some a \<and> ptw_is_sram a)) \<and>
     (serves s 0 \<longleftrightarrow> (\<exists>a. p = Some a \<and> ptw_is_axi a)) \<and>
     (so_ptw_bad s \<longleftrightarrow> (\<exists>a. p = Some a \<and> \<not> ptw_is_sram a \<and> \<not> ptw_is_axi a)) \<and>
     (\<forall>a. p = Some a \<and> ptw_is_sram a \<longrightarrow> sr_b_rsp_rdata (so_sram s) = sr_mem (so_sram s) (sram_index a))"

definition regs_inv :: "soc \<Rightarrow> bool" where
  "regs_inv s \<longleftrightarrow> (xm_rsp_valid (so_axim s) \<longrightarrow> xm_state (so_axim s) = AX_IDLE) \<and>
     (xm_rsp_fault (so_axim s) \<longrightarrow> xm_rsp_valid (so_axim s)) \<and>
     (mm_rsp_fault (so_mmio s) \<longrightarrow> mm_rsp_valid (so_mmio s)) \<and> (cl_rsp_fault (so_clint s) \<longrightarrow> cl_rsp_valid (so_clint s)) \<and>
     (pl_rsp_fault (so_plic s) \<longrightarrow> pl_rsp_valid (so_plic s))"

definition soc_inv :: "soc \<Rightarrow> waits \<Rightarrow> bool" where
  "soc_inv s w \<longleftrightarrow> regs_inv s \<and> dm_inv s (wt_dm w) \<and> ptw_inv s (wt_ptw w) \<and> (serves s 1 \<longleftrightarrow> wt_fa w \<noteq> None)"

end
