(* ===== verification/Soc_Serve.thy ===== *)
theory Soc_Serve
  imports Soc_Bus
begin

text \<open>
  Who is served: the invariant of the interconnect's runs (\<open>soc_run_inv\<close>), which ties the response registers of
  the devices to the requests pending at the data port, the page-table walker and the fetch port.
\<close>

section \<open>The devices, one cycle\<close>

lemma soc_sel:
  "so_sram (soc_step rst i s) = sram_step (so_sram s) (sram_ports i)"
  "so_mmio (soc_step rst i s) = mmio_step (si_console_ready i) rst (gated dm_is_mmio (si_dm i)) (so_mmio s)"
  "so_clint (soc_step rst i s) = clint_step rst (gated dm_is_clint (si_dm i)) (so_clint s)"
  "so_plic (soc_step rst i s) = plic_step rst (si_sources i) (gated dm_is_plic (si_dm i)) (so_plic s)"
  "so_axim (soc_step rst i s) = axim_step rst (am_req s i) (si_axi i) (so_axim s)"
  "so_dm_bad (soc_step rst i s) = (\<not> rst \<and> dm_bad (si_dm i))"
  "so_if_bad (soc_step rst i s) = (\<not> rst \<and> if_bad i \<and> \<not> so_if_bad s)"
  "so_ptw_bad (soc_step rst i s) = (\<not> rst \<and> ptw_bad i)"
  "so_last_ptw (soc_step rst i s) = (if rst then False else if sr_b_req_valid (sram_ports i) then arb_pick_ptw i else so_last_ptw s)"
  "so_client (soc_step False i s) = (if rq_valid (am_req s i) \<and> am_ready s then if arb_ptw_ax i then 0 else if arb_if s i then 1 else 2 else so_client s)"
  "so_last_if (soc_step False i s) = (if rq_valid (am_req s i) \<and> am_ready s \<and> (arb_if s i \<or> arb_dm s i) then arb_if s i else so_last_if s)"
  by (simp_all add: soc_step_def arb_next_def)

lemma device_faults:
  "mm_rsp_fault (mmio_step c False r m) \<Longrightarrow> mm_rsp_valid (mmio_step c False r m)"
  "cl_rsp_fault (clint_step False r k) \<Longrightarrow> cl_rsp_valid (clint_step False r k)"
  "pl_rsp_fault (plic_step False src r p) \<Longrightarrow> pl_rsp_valid (plic_step False src r p)"
  by (auto simp: mmio_step_def clint_step_def plic_step_def plic_access_valid Let_def split: if_splits)

definition axim_ok :: "axim \<Rightarrow> bool" where
  "axim_ok x \<longleftrightarrow> (xm_rsp_valid x \<longrightarrow> xm_state x = AX_IDLE) \<and> (xm_rsp_fault x \<longrightarrow> xm_rsp_valid x)"

lemma axim_ok_next:
  "axim_ok (axim_next r b x)"
  "(xm_state (axim_next r b x) \<noteq> AX_IDLE \<or> xm_rsp_valid (axim_next r b x)) \<longleftrightarrow>
     xm_state x \<noteq> AX_IDLE \<or> (rq_valid r \<and> axim_req_ready x)"
  by (cases "xm_state x"; simp add: axim_ok_def axim_next_def axim_respond_def axim_out_def axim_req_ready_def Let_def)+

lemma am_accept:
  "rq_valid (am_req s i) \<longleftrightarrow> arb_ptw_ax i \<or> arb_if s i \<or> arb_dm s i"
  by (auto simp: am_req_def arb_if_def arb_dm_def Let_def)

lemma serves_next:
  assumes "axim_ok (so_axim s)"
  shows "serves (soc_step False i s) c \<longleftrightarrow>
     (if rq_valid (am_req s i) \<and> am_ready s then c = (if arb_ptw_ax i then 0 else if arb_if s i then 1 else 2)
      else serves s c \<and> \<not> xm_rsp_valid (so_axim s))"
  using assms axim_ok_next(2)[of "am_req s i" "si_axi i" "so_axim s"]
  by (auto simp: serves_def soc_sel axim_step_def am_ready_def axim_ok_def)

section \<open>One cycle of each port\<close>

lemma dm_flags:
  fixes s :: soc and i :: soc_in
  defines "acc \<equiv> rq_valid (si_dm i) \<and> dm_ready s i" and "R \<equiv> region (rq_addr (si_dm i))" and "t \<equiv> soc_step False i s"
  shows "(sr_b_rsp_valid (so_sram t) \<and> \<not> so_last_ptw t) = (acc \<and> R = R_SRAM)"
    "mm_rsp_valid (so_mmio t) = (acc \<and> R = R_MMIO)" "cl_rsp_valid (so_clint t) = (acc \<and> R = R_CLINT)"
    "pl_rsp_valid (so_plic t) = (acc \<and> R = R_PLIC)" "so_dm_bad t = (acc \<and> R = R_NONE)"
    "(arb_dm s i \<and> am_ready s) = (acc \<and> R = R_AXI)"
proof -
  have g: "rq_valid (gated sel r) = (rq_valid r \<and> sel (rq_addr r))" "rq_addr (gated sel r) = rq_addr r" "rq_wen (gated sel r) = rq_wen r" for sel r
    by (simp_all add: gated_def)
  note d = acc_def R_def t_def dm_ready_def dm_region g Let_def
  show "(sr_b_rsp_valid (so_sram t) \<and> \<not> so_last_ptw t) = (acc \<and> R = R_SRAM)"
    by (auto simp: d soc_sel sram_step_def sram_ports_def)
  show "mm_rsp_valid (so_mmio t) = (acc \<and> R = R_MMIO)"
    by (auto simp: d soc_sel mmio_bus.answer_iff)
  show "cl_rsp_valid (so_clint t) = (acc \<and> R = R_CLINT)"
    by (auto simp: d soc_sel clint_bus.answer_iff)
  show "pl_rsp_valid (so_plic t) = (acc \<and> R = R_PLIC)"
    by (auto simp: d soc_sel plic_bus.answer_iff)
  show "so_dm_bad t = (acc \<and> R = R_NONE)"
    by (cases "region (rq_addr (si_dm i))") (simp_all add: d soc_sel dm_bad_region)
  show "(arb_dm s i \<and> am_ready s) = (acc \<and> R = R_AXI)"
    by (auto simp: d arb_dm_def dm_ax_def)
qed

lemma ptw_flags:
  fixes s :: soc and i :: soc_in
  defines "acc \<equiv> si_ptw_valid i \<and> ptw_ready s i" and "a \<equiv> si_ptw_addr i" and "t \<equiv> soc_step False i s"
  shows "(sr_b_rsp_valid (so_sram t) \<and> so_last_ptw t) = (acc \<and> ptw_is_sram a)"
    "so_ptw_bad t = (acc \<and> \<not> ptw_is_sram a \<and> \<not> ptw_is_axi a)" "(arb_ptw_ax i \<and> am_ready s) = (acc \<and> ptw_is_axi a)"
  using fetch_regions(3,4)[of a]
  by (auto simp: acc_def a_def t_def ptw_ready_def soc_sel sram_step_def sram_ports_def arb_pick_ptw_def ptw_bad_def arb_ptw_ax_def Let_def)

text \<open>A read of SRAM port B returns the word that is still in the memory in the next cycle.\<close>

lemma port_b_data:
  "arb_pick_ptw i \<Longrightarrow> sr_b_rsp_rdata (so_sram (soc_step False i s)) = sr_mem (so_sram (soc_step False i s)) (sram_index (si_ptw_addr i))"
  "rq_valid (si_dm i) \<Longrightarrow> dm_ready s i \<Longrightarrow> region (rq_addr (si_dm i)) = R_SRAM \<Longrightarrow> \<not> rq_wen (si_dm i) \<Longrightarrow>
     sr_b_rsp_rdata (so_sram (soc_step False i s)) = sr_mem (so_sram (soc_step False i s)) (sram_index (rq_addr (si_dm i)))"
  by (simp_all add: soc_sel sram_step_def sram_ports_def gated_def dm_ready_def dm_region Let_def)


section \<open>The invariant\<close>

lemma answered_iff:
  assumes "regs_inv s" "dm_inv s p"
  shows "an_valid (dm_answer s) \<longleftrightarrow> (\<exists>r. p = Some r \<and> (region (rq_addr r) \<noteq> R_AXI \<or> xm_rsp_valid (so_axim s)))"
proof (cases p)
  case None
  then show ?thesis using assms by (auto simp: dm_inv_def dm_answer_def serves_def Let_def)
next
  case (Some r)
  then show ?thesis using assms
    by (cases "region (rq_addr r)") (auto simp: dm_inv_def dm_answer_def serves_def Let_def)
qed

lemma ptw_answered_iff:
  assumes "regs_inv s" "ptw_inv s p"
  shows "an_valid (ptw_answer s) \<longleftrightarrow> (\<exists>a. p = Some a \<and> (\<not> ptw_is_axi a \<or> xm_rsp_valid (so_axim s)))"
  using assms fetch_regions(3,4) by (fastforce simp: ptw_inv_def ptw_answer_def serves_def Let_def)

lemma regs_inv_step: "regs_inv (soc_step False i s)"
proof -
  have "axim_ok (axim_next (am_req s i) (si_axi i) (so_axim s))" by (rule axim_ok_next)
  then show ?thesis using device_faults by (auto simp: regs_inv_def soc_sel axim_step_def axim_ok_def)
qed

lemma regs_axim: "regs_inv s \<Longrightarrow> axim_ok (so_axim s)"
  by (simp add: regs_inv_def axim_ok_def)

lemma dm_inv_step:
  assumes inv: "regs_inv s" "dm_inv s p" and ask: "rq_valid (si_dm i) \<longrightarrow> p = None \<or> an_valid (dm_answer s)"
  shows "dm_inv (soc_step False i s)
    (if rq_valid (si_dm i) \<and> dm_ready s i then Some (si_dm i) else if an_valid (dm_answer s) then None else p)"
proof -
  let ?t = "soc_step False i s" let ?acc = "rq_valid (si_dm i) \<and> dm_ready s i" let ?R = "region (rq_addr (si_dm i))"
  note f = dm_flags[where s = s and i = i] and an = answered_iff[OF inv]
  have busy: "serves s 2 \<longleftrightarrow> (\<exists>r. p = Some r \<and> region (rq_addr r) = R_AXI)" using inv(2) by (auto simp: dm_inv_def Let_def)
  have ax: "serves ?t 2 \<longleftrightarrow> ?acc \<and> ?R = R_AXI \<or> (serves s 2 \<and> \<not> xm_rsp_valid (so_axim s))"
  proof -
    have "am_ready s \<Longrightarrow> \<not> serves s 2" by (simp add: am_ready_def axim_req_ready_def serves_def)
    then show ?thesis
      unfolding serves_next[OF regs_axim[OF inv(1)]] using f(6) am_accept[of s i]
      by (auto simp: arb_dm_def arb_if_def)
  qed
  show ?thesis
  proof (cases ?acc)
    case True
    then have "serves ?t 2 \<longleftrightarrow> ?R = R_AXI" using ax busy ask an by auto
    then show ?thesis using True f port_b_data(2) by (auto simp: dm_inv_def Let_def)
  next
    case False
    show ?thesis
    proof (cases "an_valid (dm_answer s)")
      case True
      then have "\<not> serves ?t 2" using False ax busy an by auto
      then show ?thesis using False True f by (auto simp: dm_inv_def Let_def)
    next
      case n: False
      have acc: "?acc = False" using False by (rule iffD2[OF eq_False])
      show ?thesis
      proof (cases p)
        case None
        then have "\<not> serves ?t 2" using False ax busy by auto
        then show ?thesis unfolding acc if_False using n None f[unfolded acc] by (simp add: dm_inv_def)
      next
        case (Some r)
        then have r: "region (rq_addr r) = R_AXI" "\<not> xm_rsp_valid (so_axim s)" using n an by auto
        then have "serves ?t 2" using ax busy Some by blast
        then show ?thesis unfolding acc if_False using n Some r f[unfolded acc] by (simp add: dm_inv_def)
      qed
    qed
  qed
qed

lemma ptw_inv_step:
  assumes inv: "regs_inv s" "ptw_inv s p" and ask: "si_ptw_valid i \<longrightarrow> p = None \<or> an_valid (ptw_answer s)"
  shows "ptw_inv (soc_step False i s)
    (if si_ptw_valid i \<and> ptw_ready s i then Some (si_ptw_addr i) else if an_valid (ptw_answer s) then None else p)"
proof -
  let ?t = "soc_step False i s" let ?acc = "si_ptw_valid i \<and> ptw_ready s i" let ?a = "si_ptw_addr i"
  note f = ptw_flags[where s = s and i = i] and an = ptw_answered_iff[OF inv]
  have busy: "serves s 0 \<longleftrightarrow> (\<exists>a. p = Some a \<and> ptw_is_axi a)" using inv(2) by (auto simp: ptw_inv_def)
  have ax: "serves ?t 0 \<longleftrightarrow> ?acc \<and> ptw_is_axi ?a \<or> (serves s 0 \<and> \<not> xm_rsp_valid (so_axim s))"
  proof -
    have "am_ready s \<Longrightarrow> \<not> serves s 0" by (simp add: am_ready_def axim_req_ready_def serves_def)
    then show ?thesis
      unfolding serves_next[OF regs_axim[OF inv(1)]] using f(3) am_accept[of s i] by auto
  qed
  have pk: "?acc \<Longrightarrow> ptw_is_sram ?a \<Longrightarrow> arb_pick_ptw i" by (simp add: arb_pick_ptw_def)
  show ?thesis
  proof (cases ?acc)
    case True
    then have "serves ?t 0 \<longleftrightarrow> ptw_is_axi ?a" using ax busy ask an by auto
    then show ?thesis using True f pk port_b_data(1) by (auto simp: ptw_inv_def)
  next
    case False
    show ?thesis
    proof (cases "an_valid (ptw_answer s)")
      case True
      then have "\<not> serves ?t 0" using False ax busy an by auto
      then show ?thesis using False True f by (auto simp: ptw_inv_def)
    next
      case n: False
      have acc: "?acc = False" using False by (rule iffD2[OF eq_False])
      show ?thesis
      proof (cases p)
        case None
        then have "\<not> serves ?t 0" using False ax busy by auto
        then show ?thesis unfolding acc if_False using n None f[unfolded acc] by (simp add: ptw_inv_def)
      next
        case (Some a)
        then have r: "ptw_is_axi a" "\<not> xm_rsp_valid (so_axim s)" using n an by auto
        then have "serves ?t 0" "\<not> ptw_is_sram a" using ax busy Some fetch_regions(3,4)[of a] by auto
        then show ?thesis unfolding acc if_False using n Some r f[unfolded acc] by (simp add: ptw_inv_def)
      qed
    qed
  qed
qed

lemma fa_step:
  assumes "regs_inv s" "serves s 1 \<longleftrightarrow> p \<noteq> None"
  shows "serves (soc_step False i s) 1 \<longleftrightarrow>
    (if arb_if s i \<and> am_ready s then Some (si_if_addr i) else if xm_rsp_valid (so_axim s) \<and> so_client s = 1 then None else p) \<noteq> None"
proof -
  have "am_ready s \<Longrightarrow> \<not> serves s c" for c by (simp add: am_ready_def axim_req_ready_def serves_def)
  then show ?thesis unfolding serves_next[OF regs_axim[OF assms(1)]] using assms(2) am_accept[of s i]
    by (auto simp: arb_if_def serves_def)
qed

lemma soc_run_inv: "soc_run s w \<Longrightarrow> soc_inv s w"
proof (induction rule: soc_run.induct)
  case (reset i s)
  have "\<not> sr_b_rsp_valid (so_sram (soc_step True i s))"
    using reset by (simp add: soc_sel sram_step_def sram_ports_def gated_def arb_pick_ptw_def Let_def)
  then show ?case
    by (simp add: soc_inv_def regs_inv_def dm_inv_def ptw_inv_def serves_def soc_sel axim_step_def axim_reset_def
        mmio_step_def mmio_reset_def clint_step_def clint_reset_def plic_step_def plic_reset_def)
next
  case (cycle s w i)
  then show ?case
    using regs_inv_step dm_inv_step[of s "wt_dm w" i] ptw_inv_step[of s "wt_ptw w" i] fa_step[of s "wt_fa w" i]
    by (simp add: soc_inv_def waits_next_def asks_def)
qed

section \<open>The answers\<close>

text \<open>What the device that a data request addresses shows, and what the one that a walk addresses shows.\<close>

definition reply :: "soc \<Rightarrow> bus_req \<Rightarrow> u32 \<times> bool" where
  "reply s r = (case region (rq_addr r) of
     R_SRAM \<Rightarrow> (if rq_wen r then sr_b_rsp_rdata (so_sram s) else sr_mem (so_sram s) (sram_index (rq_addr r)), False)
   | R_MMIO \<Rightarrow> (mm_rsp_rdata (so_mmio s), mm_rsp_fault (so_mmio s))
   | R_CLINT \<Rightarrow> (cl_rsp_rdata (so_clint s), cl_rsp_fault (so_clint s))
   | R_PLIC \<Rightarrow> (pl_rsp_rdata (so_plic s), pl_rsp_fault (so_plic s))
   | R_AXI \<Rightarrow> (xm_rsp_rdata (so_axim s), xm_rsp_fault (so_axim s))
   | R_NONE \<Rightarrow> (0, True))"

definition walk_reply :: "soc \<Rightarrow> u32 \<Rightarrow> u32 \<times> bool" where
  "walk_reply s a =
     (if ptw_is_sram a then (sr_mem (so_sram s) (sram_index a), False)
      else if ptw_is_axi a then (xm_rsp_rdata (so_axim s), xm_rsp_fault (so_axim s)) else (0, True))"

lemma dm_reply:
  assumes "regs_inv s" "dm_inv s (Some r)" "an_valid (dm_answer s)"
  shows "(an_data (dm_answer s), an_fault (dm_answer s)) = reply s r"
proof -
  have c: "so_client s \<noteq> 2 \<Longrightarrow> \<not> serves s 2" "\<not> serves s 2 \<Longrightarrow> so_client s \<noteq> 2 \<or> \<not> xm_rsp_valid (so_axim s)"
    by (auto simp: serves_def)
  have q: "\<not> xm_rsp_valid (so_axim s) \<Longrightarrow> \<not> xm_rsp_fault (so_axim s)" "\<not> mm_rsp_valid (so_mmio s) \<Longrightarrow> \<not> mm_rsp_fault (so_mmio s)"
    "\<not> cl_rsp_valid (so_clint s) \<Longrightarrow> \<not> cl_rsp_fault (so_clint s)" "\<not> pl_rsp_valid (so_plic s) \<Longrightarrow> \<not> pl_rsp_fault (so_plic s)"
    using assms(1) by (auto simp: regs_inv_def)
  show ?thesis
    using assms(2,3) c q answered_iff[OF assms(1,2)] unfolding dm_inv_def
    by (cases "region (rq_addr r)") (auto simp: reply_def dm_answer_def Let_def)
qed

lemma ptw_reply:
  assumes "regs_inv s" "ptw_inv s (Some a)" "an_valid (ptw_answer s)"
  shows "(an_data (ptw_answer s), an_fault (ptw_answer s)) = walk_reply s a"
proof -
  have c: "so_client s \<noteq> 0 \<Longrightarrow> \<not> serves s 0" "\<not> serves s 0 \<Longrightarrow> so_client s \<noteq> 0 \<or> \<not> xm_rsp_valid (so_axim s)"
    by (auto simp: serves_def)
  have q: "\<not> xm_rsp_valid (so_axim s) \<Longrightarrow> \<not> xm_rsp_fault (so_axim s)"
    using assms(1) by (auto simp: regs_inv_def)
  show ?thesis
    using assms(2,3) c q answered_iff[OF assms(1)] fetch_regions(3,4)[of a] ptw_answered_iff[OF assms(1,2)] unfolding ptw_inv_def
    by (cases "ptw_is_sram a"; cases "ptw_is_axi a") (auto simp: walk_reply_def ptw_answer_def Let_def)
qed

section \<open>Properties\<close>

text \<open>
  C17. The interconnect answers exactly the port that asked: in every run, the data port sees an answer exactly
  when its request is pending and, for the AXI side, the master has finished, the answer is the one of the
  device its address selects (the word in the SRAM, zero with a fault where nothing is mapped), and the same
  holds of the page-table walker, whatever fetches and the other port do meanwhile.
\<close>

theorem soc_answers_requester:
  assumes "soc_run s w"
  shows "(an_valid (dm_answer s) \<longleftrightarrow> (\<exists>r. wt_dm w = Some r \<and> (region (rq_addr r) = R_AXI \<longrightarrow> xm_rsp_valid (so_axim s)))) \<and>
    (an_valid (ptw_answer s) \<longleftrightarrow> (\<exists>a. wt_ptw w = Some a \<and> (ptw_is_axi a \<longrightarrow> xm_rsp_valid (so_axim s)))) \<and>
    (\<forall>r. wt_dm w = Some r \<and> an_valid (dm_answer s) \<longrightarrow> (an_data (dm_answer s), an_fault (dm_answer s)) = reply s r) \<and>
    (\<forall>a. wt_ptw w = Some a \<and> an_valid (ptw_answer s) \<longrightarrow> (an_data (ptw_answer s), an_fault (ptw_answer s)) = walk_reply s a)"
proof -
  have inv: "regs_inv s" "dm_inv s (wt_dm w)" "ptw_inv s (wt_ptw w)" using soc_run_inv[OF assms] by (simp_all add: soc_inv_def)
  show ?thesis
    using answered_iff[OF inv(1,2)] ptw_answered_iff[OF inv(1,3)] dm_reply[OF inv(1)] ptw_reply[OF inv(1)] inv(2,3) by auto
qed

lemma write_accepted:
  fixes s0 :: soc and i0 :: soc_in
  defines "i \<equiv> i0\<lparr>si_dm := \<lparr>rq_valid = True, rq_addr = 0x80000010, rq_wen = True, rq_wdata = 7, rq_wmask = 15\<rparr>,
      si_if_valid := False, si_ptw_valid := False\<rparr>"
    and "j \<equiv> i0\<lparr>si_dm := no_req, si_if_valid := False, si_ptw_valid := False\<rparr>"
  shows "\<exists>w. soc_run (soc_step False i (soc_step True j s0)) w \<and> wt_dm w = Some (si_dm i)"
proof -
  have m: "dm_is_sram 0x80000010" by code_simp
  have "soc_run (soc_step True j s0) \<lparr>wt_dm = None, wt_ptw = None, wt_fa = None\<rparr>" (is "soc_run ?s ?w")
    by (rule soc_run.reset) (simp_all add: j_def no_req_def)
  moreover have "asks i ?s ?w" by (simp add: asks_def)
  ultimately have "soc_run (soc_step False i ?s) (waits_next i ?s ?w)" by (rule soc_run.cycle)
  moreover have "wt_dm (waits_next i ?s ?w) = Some (si_dm i)"
    using m by (simp add: waits_next_def i_def dm_ready_def arb_pick_ptw_def)
  ultimately show ?thesis by blast
qed

theorem soc_answers_requester_witness:
  "\<exists>s w. soc_run s w \<and> wt_dm w = Some \<lparr>rq_valid = True, rq_addr = 0x80000010, rq_wen = True, rq_wdata = 7, rq_wmask = 15\<rparr> \<and>
     an_valid (dm_answer s) \<and> \<not> an_fault (dm_answer s)"
proof -
  have m: "region 0x80000010 = R_SRAM" by code_simp
  fix s0 :: soc and i0 :: soc_in
  obtain s w where r: "soc_run s w"
      "wt_dm w = Some \<lparr>rq_valid = True, rq_addr = 0x80000010, rq_wen = True, rq_wdata = 7, rq_wmask = 15\<rparr>"
    using write_accepted[of i0 s0] by auto
  then show ?thesis using soc_answers_requester[OF r(1)] m by (intro exI[of _ s] exI[of _ w]) (auto simp: reply_def)
qed

end
