(* ===== verification/Soc_Top.thy ===== *)
theory Soc_Top
  imports Soc_Serve Core_Run Mmu_Tlb
begin

text \<open>
  The whole of \<open>rtl/soc/soc_top.sv\<close> without caches and with the multi-cycle core: core, request pipeline
  register, MMU and interconnect as one state, wired as the source wires them. While no translation and no
  protection entry is active the MMU passes requests and answers through (\<open>bare_ports\<close>).
\<close>

section \<open>The parts\<close>

record dm_pipe =
  dp_req :: bus_req
  dp_size :: "2 word"

record board =
  bd_core :: mc
  bd_pipe :: dm_pipe
  bd_mmu :: mmu
  bd_soc :: soc

definition mmu_csr_of :: "csrs \<Rightarrow> mmu_csr" where
  "mmu_csr_of c =
     \<lparr>mc_satp = satp c, mc_priv = priv_mode c, mc_mprv = bit (mstatus c) 17, mc_mpp = fld 11 (mstatus c),
      mc_sum = bit (mstatus c) 18, mc_mxr = bit (mstatus c) 19,
      mc_pmpcfg = (\<lambda>i. fld (8 * (i mod 4)) (pmpcfg c (i div 4))), mc_pmpaddr = pmpaddr c\<rparr>"

definition sfence_of :: "mc \<Rightarrow> mc_out \<Rightarrow> sfence" where
  "sfence_of x out =
     \<lparr>sf_valid = mc_sfence x out, sf_rs1_nz = (rs1_i (mc_instr x) \<noteq> 0), sf_rs1_va = rs1_data x,
      sf_rs2_nz = (rs2_i (mc_instr x) \<noteq> 0), sf_rs2_asid = fld 0 (rs2_data x)\<rparr>"

text \<open>The data request register: empty, or its request taken downstream in this cycle.\<close>

definition pipe_ready :: "bool \<Rightarrow> dm_pipe \<Rightarrow> bool" where
  "pipe_ready dn_ready q = (\<not> rq_valid (dp_req q) \<or> dn_ready)"

definition pipe_step :: "bool \<Rightarrow> mc_out \<Rightarrow> bool \<Rightarrow> dm_pipe \<Rightarrow> dm_pipe" where
  "pipe_step rst out dn_ready q =
     (if rst then q\<lparr>dp_req := (dp_req q)\<lparr>rq_valid := False\<rparr>\<rparr>
      else if rq_valid (no_dm out) \<and> pipe_ready dn_ready q then \<lparr>dp_req = no_dm out, dp_size = no_dm_size out\<rparr>
      else if rq_valid (dp_req q) \<and> dn_ready then q\<lparr>dp_req := (dp_req q)\<lparr>rq_valid := False\<rparr>\<rparr>
      else q)"

section \<open>The wires\<close>

definition if_port :: "mc_out \<Rightarrow> soc_in \<Rightarrow> soc \<Rightarrow> port_in" where
  "if_port out i s =
     \<lparr>pi_valid = no_if_req out, pi_addr = no_if_addr out, pi_wen = False, pi_wdata = 0, pi_wmask = 0, pi_size = 0,
      pi_rsp_ready = True, pi_ds_req_ready = if_ready s i, pi_ds_rsp_valid = an_valid (if_answer s),
      pi_ds_rsp_data = an_data (if_answer s), pi_ds_rsp_fault = an_fault (if_answer s)\<rparr>"

definition dm_port :: "mc \<Rightarrow> dm_pipe \<Rightarrow> soc_in \<Rightarrow> soc \<Rightarrow> port_in" where
  "dm_port x q i s =
     \<lparr>pi_valid = rq_valid (dp_req q), pi_addr = rq_addr (dp_req q), pi_wen = rq_wen (dp_req q),
      pi_wdata = rq_wdata (dp_req q), pi_wmask = rq_wmask (dp_req q), pi_size = dp_size q,
      pi_rsp_ready = mc_dm_rsp_ready x, pi_ds_req_ready = dm_ready s i, pi_ds_rsp_valid = an_valid (dm_answer s),
      pi_ds_rsp_data = an_data (dm_answer s), pi_ds_rsp_fault = an_fault (dm_answer s)\<rparr>"

definition ptw_port :: "soc_in \<Rightarrow> soc \<Rightarrow> ptw_in" where
  "ptw_port i s =
     \<lparr>pw_req_ready = ptw_ready s i, pw_rsp_valid = an_valid (ptw_answer s), pw_rdata = an_data (ptw_answer s),
      pw_fault = an_fault (ptw_answer s)\<rparr>"

definition if_side :: "mc_out \<Rightarrow> soc_in \<Rightarrow> board \<Rightarrow> port_out" where
  "if_side out i b = side_out (mmu_csr_of (mc_csr (bd_core b))) True (if_port out i (bd_soc b)) (mm_if (bd_mmu b))"

definition dm_side :: "soc_in \<Rightarrow> board \<Rightarrow> port_out" where
  "dm_side i b = side_out (mmu_csr_of (mc_csr (bd_core b))) False (dm_port (bd_core b) (bd_pipe b) i (bd_soc b)) (mm_dm (bd_mmu b))"

text \<open>One cycle of the combinational network: the inputs of the core and of the interconnect.\<close>

definition wires :: "mc_in \<Rightarrow> soc_in \<Rightarrow> board \<Rightarrow> bool" where
  "wires n i b \<longleftrightarrow>
     (let x = bd_core b; s = bd_soc b; out = snd (mc_comb n x); f = if_side out i b; d = dm_side i b;
          w = ptw_req (mmu_csr_of (mc_csr x)) (mm_ptw (bd_mmu b)) in
      ni_if_ready n = po_req_ready f \<and> ni_if_rsp n = po_rsp_valid f \<and> ni_if_data n = po_rsp_data f \<and>
      ni_if_fault n = po_rsp_fault f \<and> ni_if_pagefault n = po_rsp_pagefault f \<and>
      ni_dm_ready n = pipe_ready (po_req_ready d) (bd_pipe b) \<and> ni_dm_rsp n = po_rsp_valid d \<and> ni_dm_rdata n = po_rsp_data d \<and>
      ni_dm_fault n = po_rsp_fault d \<and> ni_dm_pagefault n = po_rsp_pagefault d \<and>
      ni_mti n = mti (so_clint s) \<and> ni_msi n = msi (so_clint s) \<and> ni_mtime n = mtime (so_clint s) \<and>
      ni_mei n = irq_o (so_plic s) 0 \<and> ni_sei n = irq_o (so_plic s) 1 \<and>
      si_if_valid i = po_ds_valid f \<and> si_if_addr i = po_ds_addr f \<and>
      si_dm i = \<lparr>rq_valid = po_ds_valid d, rq_addr = po_ds_addr d, rq_wen = po_ds_wen d, rq_wdata = po_ds_wdata d,
                 rq_wmask = po_ds_wmask d\<rparr> \<and>
      si_ptw_valid i = fst w \<and> si_ptw_addr i = snd w)"

definition board_step :: "u32 \<Rightarrow> bool \<Rightarrow> mc_in \<Rightarrow> soc_in \<Rightarrow> board \<Rightarrow> board" where
  "board_step RESET_PC rst n i b =
     (let x = bd_core b; s = bd_soc b; out = snd (mc_comb n x) in
      \<lparr>bd_core = mc_step RESET_PC rst n x,
       bd_pipe = pipe_step rst out (po_req_ready (dm_side i b)) (bd_pipe b),
       bd_mmu = mmu_step rst (mmu_csr_of (mc_csr x)) (sfence_of x out) (if_port out i s) (dm_port x (bd_pipe b) i s)
                  (ptw_port i s) (bd_mmu b),
       bd_soc = soc_step rst i s\<rparr>)"

section \<open>Bare mode\<close>

definition bare :: "board \<Rightarrow> bool" where
  "bare b \<longleftrightarrow> \<not> bit (satp (mc_csr (bd_core b))) 31 \<and> \<not> any_active (mc_pmpcfg (mmu_csr_of (mc_csr (bd_core b))))"

definition mmu_quiet :: "mmu \<Rightarrow> bool" where
  "mmu_quiet u \<longleftrightarrow> pt_state (mm_ptw u) = PTW_IDLE \<and> \<not> xs_pmp_pending (mm_if u) \<and> \<not> xs_pmp_pending (mm_dm u)"

lemma bare_xlate: "bare b \<Longrightarrow> \<not> xlate (mmu_csr_of (mc_csr (bd_core b))) f"
  by (simp add: bare_def xlate_def satp_on_def mmu_csr_of_def)

lemma bare_no_kill: "bare b \<Longrightarrow> \<not> pmp_kill_comb (mmu_csr_of (mc_csr (bd_core b))) f p x"
  by (simp add: pmp_kill_comb_def pmp_fault_def bare_def split: prod.split)

lemma bare_side:
  "bare b \<Longrightarrow> \<not> xs_pmp_pending x \<Longrightarrow> side_out (mmu_csr_of (mc_csr (bd_core b))) f p x = pass_through p (pi_addr p)"
  by (simp add: side_out_def pmp_kill_def bare_no_kill raw_out_def bare_xlate)

lemma quiet_step:
  assumes "bare b" "mmu_quiet (bd_mmu b)"
  shows "mmu_quiet (bd_mmu (board_step P False n i b))"
  using assms bare_xlate[OF assms(1)] bare_no_kill[OF assms(1)]
  by (simp add: board_step_def mmu_quiet_def mmu_step_def side_step_def pmp_latch_def needs_walk_def ptw_launch_def Let_def)

text \<open>The wires in bare mode, one cycle of core and interconnect with the request register between them.\<close>

definition wired :: "mc_in \<Rightarrow> soc_in \<Rightarrow> mc \<Rightarrow> bus_req \<Rightarrow> soc \<Rightarrow> bool" where
  "wired n i x q s \<longleftrightarrow> (let out = snd (mc_comb n x) in
     si_dm i = q \<and> si_if_valid i = no_if_req out \<and> si_if_addr i = no_if_addr out \<and> \<not> si_ptw_valid i \<and>
     ni_if_ready n = if_ready s i \<and> ni_if_rsp n = an_valid (if_answer s) \<and> ni_if_data n = an_data (if_answer s) \<and>
     ni_if_fault n = an_fault (if_answer s) \<and> \<not> ni_if_pagefault n \<and>
     ni_dm_ready n = (\<not> rq_valid q \<or> dm_ready s i) \<and> ni_dm_rsp n = an_valid (dm_answer s) \<and>
     ni_dm_rdata n = an_data (dm_answer s) \<and> ni_dm_fault n = an_fault (dm_answer s) \<and> \<not> ni_dm_pagefault n)"

lemma bare_wires:
  assumes "bare b" "mmu_quiet (bd_mmu b)" "wires n i b"
  shows "wired n i (bd_core b) (dp_req (bd_pipe b)) (bd_soc b)"
proof -
  have q: "r = \<lparr>rq_valid = rq_valid r, rq_addr = rq_addr r, rq_wen = rq_wen r, rq_wdata = rq_wdata r, rq_wmask = rq_wmask r\<rparr>"
    for r :: bus_req by simp
  have p: "\<not> xs_pmp_pending (mm_if (bd_mmu b))" "\<not> xs_pmp_pending (mm_dm (bd_mmu b))" "pt_state (mm_ptw (bd_mmu b)) = PTW_IDLE"
    using assms(2) by (simp_all add: mmu_quiet_def)
  note s = bare_side[OF assms(1) p(1)] bare_side[OF assms(1) p(2)]
  show ?thesis using assms(3) p(3)
    by (simp add: wires_def wired_def if_side_def dm_side_def s pass_through_def if_port_def dm_port_def ptw_req_def pipe_ready_def Let_def)
qed

section \<open>The network settles\<close>

text \<open>What the core drives does not depend on the ready signals, so the ready paths close no loop.\<close>

lemma out_ready_free: "snd (mc_comb (n\<lparr>ni_if_ready := u, ni_dm_ready := v\<rparr>) x) = snd (mc_comb n x)"
proof -
  let ?n = "n\<lparr>ni_if_ready := u, ni_dm_ready := v\<rparr>"
  have q: "csr_query ?n x = csr_query n x" by (simp add: csr_query_def)
  then have t: "mc_exec_trap ?n x = mc_exec_trap n x" "trap_tvec ?n x c = trap_tvec n x c" for c
    by (simp_all add: mc_exec_trap_def trap_tvec_def)
  have i: "snd (mc_issue j x r sz f3 k y) = (quiet_out x)\<lparr>no_dm := r, no_dm_size := sz\<rparr>" for j r sz f3 k y
    by (simp add: mc_issue_def split: prod.split)
  have m: "mem_cause ?n st = mem_cause n st" for st by (simp add: mem_cause_def)
  have d: "fetch_default ?n x = fetch_default n x" by (simp add: fetch_default_def)
  have e: "snd (mc_exec ?n x) = snd (mc_exec n x)" unfolding mc_exec_def Let_def d t q
    by (cases "mc_exec_trap n x") (simp_all add: i if_distrib[of snd] split_beta del: if_split cong: if_cong)
  show ?thesis
    by (cases "mc_state x") (simp_all add: mc_comb_def mc_fetch_def e mc_mem_def mc_amo_store_def mc_amo_wait_def
        mc_wait_div_def m Let_def q t d)
qed

lemma wires_exist:
  assumes "bare b" "mmu_quiet (bd_mmu b)"
  shows "\<exists>n i. wires n i b"
proof -
  fix n0 :: mc_in and i0 :: soc_in
  define x s q where "x = bd_core b" "s = bd_soc b" "q = dp_req (bd_pipe b)"
  define n where "n = n0\<lparr>ni_if_rsp := an_valid (if_answer s), ni_if_data := an_data (if_answer s), ni_if_fault := an_fault (if_answer s),
      ni_if_pagefault := False, ni_dm_rsp := an_valid (dm_answer s), ni_dm_rdata := an_data (dm_answer s),
      ni_dm_fault := an_fault (dm_answer s), ni_dm_pagefault := False, ni_mti := mti (so_clint s), ni_msi := msi (so_clint s),
      ni_mtime := mtime (so_clint s), ni_mei := irq_o (so_plic s) 0, ni_sei := irq_o (so_plic s) 1\<rparr>"
  define out where "out = snd (mc_comb n x)"
  define i where "i = i0\<lparr>si_if_valid := no_if_req out, si_if_addr := no_if_addr out, si_dm := q, si_ptw_valid := False, si_ptw_addr := 0\<rparr>"
  let ?n = "n\<lparr>ni_if_ready := if_ready s i, ni_dm_ready := pipe_ready (dm_ready s i) (bd_pipe b)\<rparr>"
  have o: "snd (mc_comb ?n x) = out" unfolding out_def by (rule out_ready_free)
  have p: "\<not> xs_pmp_pending (mm_if (bd_mmu b))" "\<not> xs_pmp_pending (mm_dm (bd_mmu b))" "pt_state (mm_ptw (bd_mmu b)) = PTW_IDLE"
    using assms(2) by (simp_all add: mmu_quiet_def)
  have f: "if_side out i b = pass_through (if_port out i s) (no_if_addr out)" "dm_side i b = pass_through (dm_port x (bd_pipe b) i s) (rq_addr q)"
    using bare_side[OF assms(1)] p by (simp_all add: if_side_def dm_side_def x_s_q_def if_port_def dm_port_def)
  have "wires ?n i b" unfolding wires_def x_s_q_def(1,2)[symmetric] Let_def o f
    using p(3) by (simp add: pass_through_def if_port_def dm_port_def ptw_req_def n_def i_def x_s_q_def(3))
  then show ?thesis by blast
qed

text \<open>The request register in bare mode.\<close>

lemma bare_pipe:
  assumes "bare b" "mmu_quiet (bd_mmu b)" "wires n i b"
  shows "dp_req (bd_pipe (board_step P False n i b)) =
    (let r = no_dm (snd (mc_comb n (bd_core b))) in
     if rq_valid r \<and> ni_dm_ready n then r
     else if rq_valid (dp_req (bd_pipe b)) \<and> dm_ready (bd_soc b) i then (dp_req (bd_pipe b))\<lparr>rq_valid := False\<rparr>
     else dp_req (bd_pipe b))"
proof -
  have "po_req_ready (dm_side i b) = dm_ready (bd_soc b) i"
    using assms(1,2) by (simp add: dm_side_def mmu_quiet_def bare_side pass_through_def dm_port_def)
  then show ?thesis using bare_wires[OF assms]
    by (simp add: board_step_def pipe_step_def pipe_ready_def wired_def Let_def)
qed

lemma board_sel:
  "bd_core (board_step P rst n i b) = mc_step P rst n (bd_core b)" "bd_soc (board_step P rst n i b) = soc_step rst i (bd_soc b)"
  by (simp_all add: board_step_def Let_def)

text \<open>\<open>ok a w\<close>: the word \<open>w\<close> may be stored at \<open>a\<close>, now for the SRAM, and as the AXI side answers.\<close>

definition holds :: "(u32 \<Rightarrow> u32 \<Rightarrow> bool) \<Rightarrow> soc \<Rightarrow> waits \<Rightarrow> bool" where
  "holds ok s w \<longleftrightarrow> (\<forall>a. if_is_sram a \<longrightarrow> ok a (sr_mem (so_sram s) (sram_index a))) \<and>
     (\<forall>a. wt_fa w = Some a \<and> xm_rsp_valid (so_axim s) \<and> \<not> xm_rsp_fault (so_axim s) \<longrightarrow> ok a (xm_rsp_rdata (so_axim s)))"

definition port_a :: "soc_in \<Rightarrow> u32 option" where
  "port_a i = (if si_if_valid i \<and> if_is_sram (si_if_addr i) then Some (si_if_addr i) else None)"

text \<open>Runs of the SoC from reset, in bare mode.\<close>

inductive soc_top_run :: "u32 \<Rightarrow> (u32 \<Rightarrow> u32 \<Rightarrow> bool) \<Rightarrow> board \<Rightarrow> waits \<Rightarrow> u32 option \<Rightarrow> bool" for P ok where
  reset: "\<not> rq_valid (si_dm i) \<Longrightarrow> \<not> si_ptw_valid i \<Longrightarrow> holds ok (bd_soc b) w0 \<Longrightarrow>
    soc_top_run P ok (board_step P True n i b) \<lparr>wt_dm = None, wt_ptw = None, wt_fa = None\<rparr> (port_a i)"
| cycle: "soc_top_run P ok b w p \<Longrightarrow> wires n i b \<Longrightarrow> bare b \<Longrightarrow> holds ok (bd_soc b) w \<Longrightarrow>
    soc_top_run P ok (board_step P False n i b) (waits_next i (bd_soc b) w) (port_a i)"

end
