(* ===== verification/Soc_Core.thy ===== *)
theory Soc_Core
  imports Soc_Top
begin

text \<open>
  The core on the interconnect: in every run of the SoC in bare mode the fetch paths deliver the word stored at
  the pc, and loads, stores and atomic accesses to the SRAM do to its words what the instruction means.
\<close>

section \<open>Invariants\<close>

definition fetch_ok :: "(u32 \<Rightarrow> u32 \<Rightarrow> bool) \<Rightarrow> mc \<Rightarrow> soc \<Rightarrow> waits \<Rightarrow> u32 option \<Rightarrow> bool" where
  "fetch_ok ok x s w p \<longleftrightarrow>
     (mc_inflight x \<longrightarrow> mc_state x = MC_FETCH) \<and> (mc_squash x \<longrightarrow> mc_inflight x) \<and>
     (sr_a_rsp_valid (so_sram s) \<longleftrightarrow> p \<noteq> None) \<and> (\<forall>a. p = Some a \<longrightarrow> if_is_sram a \<and> ok a (sr_a_rsp_rdata (so_sram s))) \<and>
     (mc_inflight x \<and> p \<noteq> None \<longrightarrow> p = Some (mc_pc x)) \<and>
     (\<not> mc_inflight x \<and> so_if_bad s \<longrightarrow> wt_fa w = None) \<and>
     (mc_inflight x \<and> \<not> mc_squash x \<longrightarrow>
        (if if_is_sram (mc_pc x) then p = Some (mc_pc x)
         else if if_is_axi (mc_pc x) then wt_fa w = Some (mc_pc x) \<and> \<not> so_if_bad s
         else so_if_bad s \<or> wt_fa w = None)) \<and>
     (mc_state x \<noteq> MC_FETCH \<longrightarrow> ok (mc_pc x) (mc_instr x))"

text \<open>The request of a waiting core is in the request register, or with the device it addresses.\<close>

definition in_mem :: "mc \<Rightarrow> bool" where
  "in_mem x \<longleftrightarrow> mc_state x = MC_MEM \<or> mc_state x = MC_AMO_WAIT"

definition data_ok :: "mc \<Rightarrow> bus_req \<Rightarrow> waits \<Rightarrow> bool" where
  "data_ok x q w \<longleftrightarrow>
     (if in_mem x then (rq_valid q \<longleftrightarrow> wt_dm w = None) \<and>
        (\<forall>r. r = (if rq_valid q then q else the (wt_dm w)) \<longrightarrow> rq_addr r = word_addr (mc_mem_addr x) \<and>
          (rq_wen r \<longleftrightarrow> mc_state x = MC_AMO_WAIT \<or> mc_is_sc x \<or> \<not> mc_is_load x))
      else \<not> rq_valid q \<and> wt_dm w = None)"

section \<open>Fetching\<close>

text \<open>What a fetch cycle does to the fetch registers: interrupt, end of a fetch, or waiting and asking.\<close>

lemma fetch_moves:
  fixes x :: mc and n :: mc_in and P :: u32
  assumes "mc_state x = MC_FETCH" "mc_squash x \<longrightarrow> mc_inflight x"
  defines "y \<equiv> mc_step P False n x" and "rq \<equiv> no_if_req (snd (mc_comb n x))" and "rsp \<equiv> ni_if_rsp n"
  shows "no_if_addr (snd (mc_comb n x)) = mc_pc x"
    "(\<not> rq \<and> mc_state y = MC_FETCH \<and> mc_inflight y = (mc_inflight x \<and> \<not> rsp) \<and> mc_squash y = (mc_inflight x \<and> \<not> rsp)) \<or>
     (rq \<and> mc_inflight x \<and> rsp \<and> \<not> mc_squash x \<and> \<not> mc_inflight y \<and> \<not> mc_squash y \<and>
        (mc_state y = MC_FETCH \<or> \<not> ni_if_fault n \<and> mc_pc y = mc_pc x \<and> mc_instr y = ni_if_data n)) \<or>
     (rq \<and> mc_state y = MC_FETCH \<and> mc_pc y = mc_pc x \<and> (rsp \<longrightarrow> \<not> mc_inflight x \<or> mc_squash x) \<and>
        mc_inflight y = (if mc_inflight x then \<not> rsp else ni_if_ready n) \<and> mc_squash y = (mc_squash x \<and> \<not> rsp))"
  using assms(1,2) unfolding y_def rq_def rsp_def
  by (auto simp: mc_step_sel mc_comb_def mc_fetch_def fetch_default_def quiet_out_def Let_def)

text \<open>The fetch port, one cycle: what the core sees, and what the interconnect holds next.\<close>

lemma fetch_port:
  fixes n :: mc_in and i :: soc_in and x :: mc and q :: bus_req and s :: soc and w :: waits
  defines "rq \<equiv> no_if_req (snd (mc_comb n x))" and "pc \<equiv> no_if_addr (snd (mc_comb n x))"
    and "av \<equiv> xm_rsp_valid (so_axim s) \<and> so_client s = 1" and "t \<equiv> soc_step False i s"
  assumes "wired n i x q s"
  shows "ni_if_rsp n = (sr_a_rsp_valid (so_sram s) \<or> av \<or> so_if_bad s)"
    "ni_if_fault n = (xm_rsp_fault (so_axim s) \<and> so_client s = 1 \<or> so_if_bad s)"
    "ni_if_data n = (if sr_a_rsp_valid (so_sram s) then sr_a_rsp_rdata (so_sram s) else if av then xm_rsp_rdata (so_axim s) else 0)"
    "\<not> if_is_axi pc \<Longrightarrow> ni_if_ready n"
    "port_a i = (if rq \<and> if_is_sram pc then Some pc else None)"
    "sr_a_rsp_valid (so_sram t) = (port_a i \<noteq> None)"
    "port_a i = Some a \<Longrightarrow> sr_a_rsp_rdata (so_sram t) = sr_mem (so_sram s) (sram_index a)"
    "so_if_bad t = (rq \<and> \<not> if_is_sram pc \<and> \<not> if_is_axi pc \<and> \<not> so_if_bad s)"
    "wt_fa (waits_next i s w) = (if rq \<and> if_is_axi pc \<and> ni_if_ready n then Some pc else if av then None else wt_fa w)"
proof -
  have i: "si_if_valid i = rq" "si_if_addr i = pc" "ni_if_ready n = if_ready s i" "ni_if_rsp n = an_valid (if_answer s)"
    "ni_if_data n = an_data (if_answer s)" "ni_if_fault n = an_fault (if_answer s)"
    using assms by (simp_all add: wired_def Let_def)
  have d: "if_is_axi pc \<Longrightarrow> \<not> if_is_sram pc" using fetch_regions[of pc] by auto
  show "ni_if_rsp n = (sr_a_rsp_valid (so_sram s) \<or> av \<or> so_if_bad s)"
    "ni_if_fault n = (xm_rsp_fault (so_axim s) \<and> so_client s = 1 \<or> so_if_bad s)"
    "ni_if_data n = (if sr_a_rsp_valid (so_sram s) then sr_a_rsp_rdata (so_sram s) else if av then xm_rsp_rdata (so_axim s) else 0)"
    by (simp_all add: i if_answer_def av_def Let_def)
  show "\<not> if_is_axi pc \<Longrightarrow> ni_if_ready n" by (simp add: i if_ready_def)
  show "port_a i = (if rq \<and> if_is_sram pc then Some pc else None)" "sr_a_rsp_valid (so_sram t) = (port_a i \<noteq> None)"
    "port_a i = Some a \<Longrightarrow> sr_a_rsp_rdata (so_sram t) = sr_mem (so_sram s) (sram_index a)"
    by (auto simp: port_a_def i t_def soc_sel sram_step_def sram_ports_def Let_def split: if_splits)
  show "so_if_bad t = (rq \<and> \<not> if_is_sram pc \<and> \<not> if_is_axi pc \<and> \<not> so_if_bad s)"
    by (auto simp: t_def soc_sel if_bad_def i)
  have "arb_if s i \<and> am_ready s \<longleftrightarrow> rq \<and> if_is_axi pc \<and> ni_if_ready n"
    using d by (auto simp: arb_if_def if_ax_def if_ready_def i)
  then show "wt_fa (waits_next i s w) = (if rq \<and> if_is_axi pc \<and> ni_if_ready n then Some pc else if av then None else wt_fa w)"
    by (simp add: waits_next_def i av_def)
qed

lemma fetch_ok_step:
  assumes inv: "fetch_ok ok x s w p" "soc_inv s w" and n: "wired n i x q s" "holds ok s w"
  shows "fetch_ok ok (mc_step P False n x) (soc_step False i s) (waits_next i s w) (port_a i)"
proof -
  let ?y = "mc_step P False n x" let ?rq = "no_if_req (snd (mc_comb n x))" let ?pc = "mc_pc x"
  let ?av = "xm_rsp_valid (so_axim s) \<and> so_client s = 1"
  note port = fetch_port[OF n(1)]
  have d: "if_is_axi a \<Longrightarrow> \<not> if_is_sram a" for a using fetch_regions[of a] by auto
  have av: "?av \<Longrightarrow> wt_fa w \<noteq> None" "xm_rsp_fault (so_axim s) \<Longrightarrow> xm_rsp_valid (so_axim s)" "wt_fa w \<noteq> None \<Longrightarrow> so_client s = 1"
    using inv(2) by (auto simp: soc_inv_def serves_def regs_inv_def)
  have sram: "if_is_sram a \<and> ok a (sr_a_rsp_rdata (so_sram (soc_step False i s)))" if "port_a i = Some a" for a
    using that n(2) port(5,7) by (auto simp: holds_def split: if_splits)
  have base: "sr_a_rsp_valid (so_sram (soc_step False i s)) \<longleftrightarrow> port_a i \<noteq> None" by (rule port(6))
  show ?thesis
  proof (cases "mc_state x = MC_FETCH")
    case True
    have sq: "mc_squash x \<longrightarrow> mc_inflight x" using inv(1) by (simp add: fetch_ok_def)
    note mv = fetch_moves[OF True sq, of n]
    note pr = port[unfolded mv(1)]
    from mv(2)[of P] consider
      (irq) "\<not> ?rq" "mc_state ?y = MC_FETCH" "mc_inflight ?y = (mc_inflight x \<and> \<not> ni_if_rsp n)" "mc_squash ?y = (mc_inflight x \<and> \<not> ni_if_rsp n)"
    | (taken) "?rq" "mc_inflight x" "ni_if_rsp n" "\<not> mc_squash x" "\<not> mc_inflight ?y" "\<not> mc_squash ?y"
        "mc_state ?y = MC_FETCH \<or> \<not> ni_if_fault n \<and> mc_pc ?y = mc_pc x \<and> mc_instr ?y = ni_if_data n"
    | (waits) "?rq" "mc_state ?y = MC_FETCH" "mc_pc ?y = mc_pc x" "ni_if_rsp n \<longrightarrow> \<not> mc_inflight x \<or> mc_squash x"
        "mc_inflight ?y = (if mc_inflight x then \<not> ni_if_rsp n else ni_if_ready n)" "mc_squash ?y = (mc_squash x \<and> \<not> ni_if_rsp n)"
      by blast
    then show ?thesis
    proof cases
      case irq
      then have "port_a i = None" "\<not> so_if_bad (soc_step False i s)" using pr(5,8) by auto
      then show ?thesis using irq base by (auto simp: fetch_ok_def)
    next
      case taken
      have "ok ?pc (mc_instr ?y)" if "mc_state ?y \<noteq> MC_FETCH"
      proof -
        have g: "\<not> so_if_bad s" "\<not> (xm_rsp_fault (so_axim s) \<and> so_client s = 1)" "mc_instr ?y = ni_if_data n"
          using taken that pr(2) by auto
        show ?thesis
        proof (cases p)
          case None
          then have "\<not> sr_a_rsp_valid (so_sram s)" using inv(1) by (simp add: fetch_ok_def)
          then have v: "?av" "ni_if_data n = xm_rsp_rdata (so_axim s)" using taken(3) pr(1,3) g by auto
          then have "wt_fa w = Some ?pc"
            using inv(1) taken av g None by (auto simp: fetch_ok_def split: if_splits)
          then show ?thesis using n(2) v g by (auto simp: holds_def)
        next
          case (Some a)
          then have "sr_a_rsp_valid (so_sram s)" "a = ?pc" "ok a (sr_a_rsp_rdata (so_sram s))"
            using inv(1) taken by (auto simp: fetch_ok_def)
          then show ?thesis using pr(3) g by simp
        qed
      qed
      moreover have "wt_fa (waits_next i s w) = None" if "so_if_bad (soc_step False i s)"
      proof -
        have b: "\<not> if_is_sram ?pc" "\<not> if_is_axi ?pc" "\<not> so_if_bad s" using that pr(8) by auto
        then have "wt_fa w = None" using inv(1) taken by (auto simp: fetch_ok_def)
        then show ?thesis using pr(9) b by auto
      qed
      ultimately show ?thesis using taken sram base by (auto simp: fetch_ok_def)
    next
      case waits
      have pa: "port_a i = (if if_is_sram ?pc then Some ?pc else None)" using waits(1) pr(5) by simp
      have J: "wt_fa (waits_next i s w) = None" if "\<not> mc_inflight ?y" "so_if_bad (soc_step False i s)"
      proof -
        have b: "\<not> if_is_sram ?pc" "\<not> if_is_axi ?pc" "\<not> so_if_bad s" using that(2) pr(8) by auto
        then have r: "mc_inflight x" "ni_if_rsp n" using that(1) waits(5) pr(4) by (auto split: if_splits)
        then have "p = None" using inv(1) b by (auto simp: fetch_ok_def)
        then have "?av" using r inv(1) b pr(1) by (auto simp: fetch_ok_def)
        then show ?thesis using pr(9) b by simp
      qed
      have K: "if if_is_sram ?pc then port_a i = Some ?pc
          else if if_is_axi ?pc then wt_fa (waits_next i s w) = Some ?pc \<and> \<not> so_if_bad (soc_step False i s)
          else so_if_bad (soc_step False i s) \<or> wt_fa (waits_next i s w) = None"
        if "mc_inflight ?y" "\<not> mc_squash ?y"
      proof (cases "mc_inflight x")
        case True
        then have r: "\<not> ni_if_rsp n" "\<not> mc_squash x" using that waits by auto
        have nb: "\<not> so_if_bad s" "\<not> ?av" using r(1) pr(1) by auto
        have "if_is_axi ?pc \<Longrightarrow> wt_fa w = Some ?pc" using inv(1) True r(2) d[of ?pc] by (auto simp: fetch_ok_def)
        then show ?thesis using pa nb pr(8,9) waits(1) d by auto
      next
        case False
        then have r: "ni_if_ready n" using that waits by auto
        have "so_if_bad s \<Longrightarrow> wt_fa w = None" using inv(1) False by (auto simp: fetch_ok_def)
        then show ?thesis using pa r pr(8,9) waits(1) d by auto
      qed
      have sq': "mc_squash ?y \<longrightarrow> mc_inflight ?y" using sq waits(5,6) by auto
      have pq: "mc_inflight ?y \<and> port_a i \<noteq> None \<longrightarrow> port_a i = Some ?pc" using pa by simp
      show ?thesis unfolding fetch_ok_def waits(3) using waits(2) sq' base sram pq J K by blast
    qed
  next
    case False
    then have f: "\<not> mc_inflight (fetch_default n x)" "\<not> mc_squash (fetch_default n x)" "ok ?pc (mc_instr x)"
      using inv(1) by (auto simp: fetch_ok_def fetch_default_def)
    have rq: "\<not> ?rq" by (rule comb_keeps(3)[OF False])
    then have "port_a i = None" "\<not> so_if_bad (soc_step False i s)" using port(5,8) by auto
    then show ?thesis using f comb_keeps[OF False, of n] base by (auto simp: fetch_ok_def mc_step_sel)
  qed
qed

section \<open>Data accesses\<close>

text \<open>A cycle outside the memory states asks for nothing, or enters one as its request is taken.\<close>

definition begins :: "bool \<Rightarrow> mc \<times> mc_out \<Rightarrow> bool" where
  "begins rdy yo \<longleftrightarrow> (let y = fst yo; r = no_dm (snd yo) in
     if rq_valid r \<and> rdy
     then in_mem y \<and> rq_addr r = word_addr (mc_mem_addr y) \<and> (rq_wen r \<longleftrightarrow> mc_state y = MC_AMO_WAIT \<or> mc_is_sc y \<or> \<not> mc_is_load y)
     else \<not> in_mem y)"

lemma issue_begins:
  assumes "\<not> in_mem y" "wen \<longleftrightarrow> sc \<or> \<not> ld"
  shows "begins (ni_dm_ready n) (mc_issue n x (dm_req (mc_alu_y x) wen d m) sz f3 (ld, lr, sc, rmw) y)"
  using assms by (simp add: begins_def mc_issue_def in_mem_def dm_req_def word_addr_align quiet_out_def Let_def)

lemma quiet_begins: "\<not> in_mem y \<Longrightarrow> \<not> rq_valid (no_dm o0) \<Longrightarrow> begins r (y, o0)"
  by (simp add: begins_def Let_def)

lemma exec_begins:
  assumes "mc_state x = MC_EXEC"
  shows "begins (ni_dm_ready n) (mc_exec n x)"
proof -
  have s: "is_load w \<longrightarrow> \<not> Core_Decode.is_store w" for w by (simp add: class_defs)
  show ?thesis unfolding mc_exec_def Let_def
    using assms s[of "mc_instr x"]
    by (auto simp: issue_begins quiet_begins in_mem_def fetch_default_keeps quiet_out_def no_req_def split: option.split)
qed

lemma comb_begins:
  assumes "\<not> in_mem x"
  shows "begins (ni_dm_ready n) (mc_comb n x)"
proof (cases "mc_state x")
  case MC_FETCH
  then show ?thesis by (simp add: mc_comb_def mc_fetch_def quiet_begins in_mem_def quiet_out_def no_req_def fetch_default_keeps Let_def)
next
  case MC_EXEC
  then show ?thesis by (simp add: mc_comb_def exec_begins)
next
  case MC_DIV
  then show ?thesis by (simp add: mc_comb_def mc_wait_div_def quiet_begins in_mem_def quiet_out_def no_req_def fetch_default_keeps Let_def)
next
  case MC_AMO_STORE
  then show ?thesis by (simp add: mc_comb_def mc_amo_store_def begins_def in_mem_def dm_req_def word_addr_align quiet_out_def fetch_default_keeps Let_def)
qed (use assms in \<open>simp_all add: in_mem_def\<close>)

text \<open>The memory states ask for nothing and stay until the answer.\<close>

lemma comb_waits:
  assumes "in_mem x"
  shows "\<not> rq_valid (no_dm (snd (mc_comb n x)))" "ni_dm_rsp n \<Longrightarrow> \<not> in_mem (fst (mc_comb n x))"
    "\<not> ni_dm_rsp n \<Longrightarrow> fst (mc_comb n x) = fetch_default n x"
proof -
  have m: "mc_state x = MC_MEM \<or> mc_state x = MC_AMO_WAIT" using assms by (simp add: in_mem_def)
  then show "\<not> rq_valid (no_dm (snd (mc_comb n x)))" "ni_dm_rsp n \<Longrightarrow> \<not> in_mem (fst (mc_comb n x))"
    "\<not> ni_dm_rsp n \<Longrightarrow> fst (mc_comb n x) = fetch_default n x"
    by (elim disjE; simp add: in_mem_def mc_comb_def mc_mem_def mc_amo_wait_def quiet_out_def no_req_def fetch_default_keeps Let_def)+
qed

lemma step_mem:
  "in_mem (mc_step P False n x) = in_mem (fst (mc_comb n x))" "mc_mem_addr (mc_step P False n x) = mc_mem_addr (fst (mc_comb n x))"
  "mc_is_sc (mc_step P False n x) = mc_is_sc (fst (mc_comb n x))" "mc_is_load (mc_step P False n x) = mc_is_load (fst (mc_comb n x))"
  by (simp_all add: in_mem_def step_fields split_beta Let_def)

lemma data_ok_step:
  fixes q q' :: bus_req
  assumes "data_ok x q w" "soc_inv s w" "wired n i x q s"
    and q': "q' = (let r = no_dm (snd (mc_comb n x)) in
      if rq_valid r \<and> ni_dm_ready n then r else if rq_valid q \<and> dm_ready s i then q\<lparr>rq_valid := False\<rparr> else q)"
  shows "data_ok (mc_step P False n x) q' (waits_next i s w)" "asks i s w"
proof -
  let ?r = "no_dm (snd (mc_comb n x))"
  have i: "si_dm i = q" "\<not> si_ptw_valid i" "ni_dm_ready n = (\<not> rq_valid q \<or> dm_ready s i)" "ni_dm_rsp n = an_valid (dm_answer s)"
    using assms(3) by (simp_all add: wired_def Let_def)
  have w: "wt_dm (waits_next i s w) = (if rq_valid q \<and> dm_ready s i then Some q else if ni_dm_rsp n then None else wt_dm w)"
    by (simp add: waits_next_def i)
  have an: "ni_dm_rsp n \<Longrightarrow> wt_dm w \<noteq> None"
    using answered_iff[of s "wt_dm w"] assms(2) i(4) by (auto simp: soc_inv_def)
  show "asks i s w" using assms(1) i(1,2) by (simp add: asks_def data_ok_def split: if_splits)
  show "data_ok (mc_step P False n x) q' (waits_next i s w)"
  proof (cases "in_mem x")
    case True
    note c = comb_waits[OF True, of n]
    have d: "rq_valid q \<longleftrightarrow> wt_dm w = None" using assms(1) True by (simp add: data_ok_def)
    show ?thesis
    proof (cases "ni_dm_rsp n")
      case r: True
      then have "\<not> rq_valid q" using an d by auto
      then show ?thesis using c r by (simp add: data_ok_def w step_mem q')
    next
      case False
      then have "in_mem (mc_step P False n x)" "mc_state (mc_step P False n x) = mc_state x"
        using True c(3) by (simp_all add: step_mem in_mem_def fetch_default_keeps mc_step_sel)
      then show ?thesis using False c assms(1) True d
        by (cases "wt_dm w"; cases "dm_ready s i") (simp_all add: data_ok_def w step_mem fetch_default_keeps q' Let_def)
    qed
  next
    case False
    then have n: "wt_dm w = None" "\<not> rq_valid q" using assms(1) by (simp_all add: data_ok_def)
    then have m: "\<not> ni_dm_rsp n" "ni_dm_ready n" using an i(3) by auto
    note b = comb_begins[OF False, of n]
    show ?thesis
    proof (cases "rq_valid ?r")
      case True
      then show ?thesis using b n m by (simp add: data_ok_def w step_mem begins_def mc_step_sel q' Let_def)
    next
      case rv: False
      then show ?thesis using b n m by (simp add: data_ok_def w step_mem begins_def q' Let_def)
    qed
  qed
qed

section \<open>Runs of the SoC\<close>

definition board_ok :: "u32 \<Rightarrow> (u32 \<Rightarrow> u32 \<Rightarrow> bool) \<Rightarrow> board \<Rightarrow> waits \<Rightarrow> u32 option \<Rightarrow> bool" where
  "board_ok P ok b w p \<longleftrightarrow> mc_reach P (bd_core b) \<and> soc_run (bd_soc b) w \<and> mmu_quiet (bd_mmu b) \<and>
     data_ok (bd_core b) (dp_req (bd_pipe b)) w \<and> fetch_ok ok (bd_core b) (bd_soc b) w p"

lemma board_inv: "soc_top_run P ok b w p \<Longrightarrow> board_ok P ok b w p"
proof (induction rule: soc_top_run.induct)
  case (reset i b w0 n)
  let ?x = "mc_step P True n (bd_core b)"
  have m: "mc_state ?x = MC_FETCH" "\<not> mc_inflight ?x" "\<not> mc_squash ?x"
    by (simp_all add: mc_step_def mc_reset_def split_beta Let_def)
  have q: "mmu_quiet (bd_mmu (board_step P True n i b))" "\<not> rq_valid (dp_req (bd_pipe (board_step P True n i b)))"
    by (simp_all add: board_step_def mmu_step_def mmu_reset_def mmu_quiet_def xside_reset_def pipe_step_def Let_def)
  have "sr_a_rsp_valid (so_sram (soc_step True i s)) = (port_a i \<noteq> None)" "\<not> so_if_bad (soc_step True i s)"
    "port_a i = Some a \<Longrightarrow> if_is_sram a \<and> sr_a_rsp_rdata (so_sram (soc_step True i s)) = sr_mem (so_sram s) (sram_index a)" for a s
    by (auto simp: port_a_def soc_sel sram_step_def sram_ports_def Let_def split: if_splits)
  then show ?case using reset m q soc_run.reset[of i "bd_soc b"]
    by (auto simp: board_ok_def board_sel mc_reach.reset data_ok_def in_mem_def fetch_ok_def holds_def)
next
  case (cycle b w p n i)
  then have ok: "mc_reach P (bd_core b)" "soc_run (bd_soc b) w" "mmu_quiet (bd_mmu b)"
      "data_ok (bd_core b) (dp_req (bd_pipe b)) w" "fetch_ok ok (bd_core b) (bd_soc b) w p"
    by (simp_all add: board_ok_def)
  have inv: "soc_inv (bd_soc b) w" by (rule soc_run_inv[OF ok(2)])
  have wd: "wired n i (bd_core b) (dp_req (bd_pipe b)) (bd_soc b)" by (rule bare_wires[OF cycle(3) ok(3) cycle(2)])
  note d = data_ok_step[OF ok(4) inv wd bare_pipe[OF cycle(3) ok(3) cycle(2), of P]]
  show ?case
    using d(1) fetch_ok_step[OF ok(5) inv wd cycle(4)] soc_run.cycle[OF ok(2) d(2)] mc_reach.cycle[OF ok(1)] quiet_step[OF cycle(3) ok(3)]
    by (simp add: board_ok_def board_sel)
qed

end
