(* ===== verification/Soc_Exec.thy ===== *)
theory Soc_Exec
  imports Soc_Core
begin

text \<open>
  Instructions on the composed SoC: fetching and memory accesses of the core, through the request register and
  the MMU, over the interconnect to the SRAM.
\<close>

section \<open>Memory accesses to the SRAM\<close>

fun op_addr :: "mem_op \<Rightarrow> u32" where
  "op_addr (Rd a) = a"
| "op_addr (Wr a f) = a"

text \<open>Specification: the effect of a memory operation on the words of the SRAM, and the word it returns.\<close>

fun sram_apply :: "mem_op \<Rightarrow> memory \<Rightarrow> memory" where
  "sram_apply (Rd a) m = m"
| "sram_apply (Wr a f) m = m(sram_index a := f (m (sram_index a)))"

text \<open>What the core is doing: the whole instruction in the execute state, the rest of it later.\<close>

definition at_act :: "mc_in \<Rightarrow> mc \<Rightarrow> act \<Rightarrow> bool" where
  "at_act n x a \<longleftrightarrow> (mc_state x = MC_EXEC \<and> \<not> reserved (mc_instr x) \<and> a = isa_act (mc_instr x) (mc_ctx n x)) \<or> mc_doing x a"

lemma access_cycle:
  assumes "mc_wf x" "at_act n x (Access op k)"
  shows "op_matches op (no_dm (snd (mc_comb n x)))" "silent n x" "ni_dm_ready n \<Longrightarrow> mc_doing (mc_step P False n x) k"
proof -
  consider (exec) "mc_state x = MC_EXEC" "\<not> reserved (mc_instr x)" "isa_act (mc_instr x) (mc_ctx n x) = Access op k"
    | (doing) "mc_doing x (Access op k)" using assms(2) by (auto simp: at_act_def)
  then have "op_matches op (no_dm (snd (mc_comb n x))) \<and> silent n x \<and> (ni_dm_ready n \<longrightarrow> mc_doing (mc_step P False n x) k)"
  proof cases
    case exec
    then show ?thesis using exec_meaning[OF exec(1,2), of P n] assms(1) by (simp add: exec_agrees_def mc_wf_def Let_def)
  next
    case doing
    then show ?thesis using wait_meaning[OF doing, of P n]
      by (cases "ni_dm_ready n") (simp_all add: wait_agrees_def Let_def)
  qed
  then show "op_matches op (no_dm (snd (mc_comb n x)))" "silent n x" "ni_dm_ready n \<Longrightarrow> mc_doing (mc_step P False n x) k" by auto
qed

lemma matches_addr: "op_matches op r \<Longrightarrow> rq_valid r \<and> rq_addr r = op_addr op \<and> (rq_wen r \<longleftrightarrow> (\<exists>a f. op = Wr a f))"
  by (cases op) auto

text \<open>The SRAM changes by accepted writes only.\<close>

lemma sram_next:
  assumes "\<not> si_ptw_valid i"
  shows "sr_mem (so_sram (soc_step rst i s)) =
    (let r = si_dm i; k = sram_index (rq_addr r); m = sr_mem (so_sram s) in
     if rq_valid r \<and> rq_wen r \<and> dm_is_sram (rq_addr r) then m(k := apply_wmask (m k) (rq_wdata r) (rq_wmask r)) else m)"
  using assms by (simp add: soc_sel sram_step_def sram_ports_def arb_pick_ptw_def gated_def Let_def)

definition sram_of :: "board \<Rightarrow> memory" where
  "sram_of b = sr_mem (so_sram (bd_soc b))"

text \<open>One cycle of the SoC in bare mode.\<close>

definition soc_cycle :: "(u32 \<Rightarrow> u32 \<Rightarrow> bool) \<Rightarrow> mc_in \<Rightarrow> soc_in \<Rightarrow> board \<Rightarrow> waits \<Rightarrow> bool" where
  "soc_cycle ok n i b w \<longleftrightarrow> wires n i b \<and> bare b \<and> holds ok (bd_soc b) w"

lemma cycle_facts:
  assumes "soc_top_run P ok b w p" "aligned P" "soc_cycle ok n i b w"
  defines "x \<equiv> bd_core b" and "q \<equiv> dp_req (bd_pipe b)" and "b' \<equiv> board_step P False n i b"
  shows "soc_top_run P ok b' (waits_next i (bd_soc b) w) (port_a i)" "wired n i x q (bd_soc b)" "mc_wf x" "data_ok x q w"
    "soc_inv (bd_soc b) w" "bd_core b' = mc_step P False n x"
    "dp_req (bd_pipe b') = (let r = no_dm (snd (mc_comb n x)) in
       if rq_valid r \<and> ni_dm_ready n then r else if rq_valid q \<and> dm_ready (bd_soc b) i then q\<lparr>rq_valid := False\<rparr> else q)"
    "sram_of b' = (let k = sram_index (rq_addr q); m = sram_of b in
       if rq_valid q \<and> rq_wen q \<and> dm_is_sram (rq_addr q) then m(k := apply_wmask (m k) (rq_wdata q) (rq_wmask q)) else m)"
    "wt_dm (waits_next i (bd_soc b) w) = (if rq_valid q \<and> dm_ready (bd_soc b) i then Some q else if ni_dm_rsp n then None else wt_dm w)"
proof -
  have c: "wires n i b" "bare b" "holds ok (bd_soc b) w" using assms(3) by (simp_all add: soc_cycle_def)
  have ok: "board_ok P ok b w p" by (rule board_inv[OF assms(1)])
  then have quiet: "mmu_quiet (bd_mmu b)" by (simp add: board_ok_def)
  show w: "wired n i x q (bd_soc b)" unfolding x_def q_def by (rule bare_wires[OF c(2) quiet c(1)])
  then have i: "si_dm i = q" "\<not> si_ptw_valid i" "ni_dm_rsp n = an_valid (dm_answer (bd_soc b))" by (simp_all add: wired_def Let_def)
  show "soc_top_run P ok b' (waits_next i (bd_soc b) w) (port_a i)" unfolding b'_def by (rule soc_top_run.cycle[OF assms(1) c])
  show "mc_wf x" "data_ok x q w" "soc_inv (bd_soc b) w"
    using ok mc_reach_wf[OF _ assms(2)] soc_run_inv by (auto simp: board_ok_def x_def q_def)
  show "bd_core b' = mc_step P False n x" by (simp add: b'_def x_def board_sel)
  show "dp_req (bd_pipe b') = (let r = no_dm (snd (mc_comb n x)) in
       if rq_valid r \<and> ni_dm_ready n then r else if rq_valid q \<and> dm_ready (bd_soc b) i then q\<lparr>rq_valid := False\<rparr> else q)"
    unfolding b'_def x_def q_def by (rule bare_pipe[OF c(2) quiet c(1)])
  show "sram_of b' = (let k = sram_index (rq_addr q); m = sram_of b in
       if rq_valid q \<and> rq_wen q \<and> dm_is_sram (rq_addr q) then m(k := apply_wmask (m k) (rq_wdata q) (rq_wmask q)) else m)"
    using sram_next[OF i(2), of False "bd_soc b"] by (simp add: b'_def sram_of_def board_sel i(1) Let_def)
  show "wt_dm (waits_next i (bd_soc b) w) = (if rq_valid q \<and> dm_ready (bd_soc b) i then Some q else if ni_dm_rsp n then None else wt_dm w)"
    by (simp add: waits_next_def i)
qed

text \<open>The SRAM is left alone while the core does not wait for memory.\<close>

lemma sram_frame:
  assumes "soc_top_run P ok b w p" "aligned P" "soc_cycle ok n i b w" "\<not> in_mem (bd_core b)"
  shows "sram_of (board_step P False n i b) = sram_of b"
  using cycle_facts(4,8)[OF assms(1-3)] assms(4) by (simp add: data_ok_def Let_def)

text \<open>First cycle: the request register takes the request.\<close>

lemma access_taken:
  assumes "soc_top_run P ok b w p" "aligned P" "soc_cycle ok n i b w" "at_act n (bd_core b) (Access op k)"
  defines "b1 \<equiv> board_step P False n i b"
  shows "mc_doing (bd_core b1) k" "silent n (bd_core b)" "op_matches op (dp_req (bd_pipe b1))" "sram_of b1 = sram_of b"
proof -
  note f = cycle_facts[OF assms(1-3)]
  have "\<not> in_mem (bd_core b)"
    using assms(4) by (auto simp: at_act_def in_mem_def mc_doing_def mem_act_def amo_wait_act_def)
  then have q: "\<not> rq_valid (dp_req (bd_pipe b))" using f(4) by (simp add: data_ok_def)
  then have rdy: "ni_dm_ready n" using f(2) by (simp add: wired_def Let_def)
  note a = access_cycle[OF f(3) assms(4)]
  show "mc_doing (bd_core b1) k" "silent n (bd_core b)" using a(2,3) rdy f(6) by (simp_all add: b1_def)
  show "op_matches op (dp_req (bd_pipe b1))" using a(1) matches_addr[OF a(1)] rdy f(7) by (simp add: b1_def Let_def)
  show "sram_of b1 = sram_of b" using f(8) q by (simp add: b1_def Let_def)
qed

text \<open>Second cycle: the SRAM takes it, the core waits.\<close>

lemma access_done:
  assumes "soc_top_run P ok b w p" "aligned P" "soc_cycle ok n i b w" "mc_doing (bd_core b) (Await st tv f)"
    "op_matches op (dp_req (bd_pipe b))" "dm_is_sram (op_addr op)"
  defines "b1 \<equiv> board_step P False n i b"
  shows "mc_doing (bd_core b1) (Await st tv f)" "silent n (bd_core b)" "sram_of b1 = sram_apply op (sram_of b)"
    "wt_dm (waits_next i (bd_soc b) w) = Some (dp_req (bd_pipe b))" "\<not> rq_valid (dp_req (bd_pipe b1))"
proof -
  note c = cycle_facts[OF assms(1-3)] and m = matches_addr[OF assms(5)]
  have im: "in_mem (bd_core b)" using assms(4) by (auto simp: mc_doing_def in_mem_def amo_store_act_def split: mc_fsm.splits)
  then have "wt_dm w = None" using c(4) m by (simp add: data_ok_def)
  then have rsp: "\<not> ni_dm_rsp n"
    using answered_iff[of "bd_soc b" "wt_dm w"] c(2,5) by (simp add: soc_inv_def wired_def Let_def)
  have i: "si_dm i = dp_req (bd_pipe b)" "\<not> si_ptw_valid i" using c(2) by (simp_all add: wired_def Let_def)
  have rdy: "dm_ready (bd_soc b) i" using i m assms(6) by (simp add: dm_ready_def arb_pick_ptw_def)
  show "mc_doing (bd_core b1) (Await st tv f)" "silent n (bd_core b)"
    using wait_meaning[OF assms(4), of P n] rsp c(6) by (simp_all add: b1_def wait_agrees_def ends_with_def Let_def)
  show "sram_of b1 = sram_apply op (sram_of b)"
    using c(8) assms(5,6) m by (cases op) (simp_all add: b1_def Let_def)
  show "wt_dm (waits_next i (bd_soc b) w) = Some (dp_req (bd_pipe b))" using c(9) m rdy by simp
  show "\<not> rq_valid (dp_req (bd_pipe b1))" using c(7) m rdy comb_waits(1)[OF im, of n] by (simp add: b1_def Let_def)
qed

text \<open>Third cycle: the answer.\<close>

lemma access_answered:
  assumes "soc_top_run P ok b w p" "aligned P" "soc_cycle ok n i b w" "mc_doing (bd_core b) (Await st tv f)"
    "wt_dm w = Some r" "op_matches op r" "dm_is_sram (op_addr op)"
  shows "\<exists>d. ends_with P n (bd_core b) (f d) \<and> (op = Rd (op_addr op) \<longrightarrow> d = sram_of b (sram_index (op_addr op)))"
proof -
  note c = cycle_facts[OF assms(1-3)] and m = matches_addr[OF assms(6)]
  have inv: "regs_inv (bd_soc b)" "dm_inv (bd_soc b) (Some r)" using c(5) assms(5) by (simp_all add: soc_inv_def)
  have reg: "region (rq_addr r) = R_SRAM" using m assms(7) by (simp add: dm_region)
  then have v: "an_valid (dm_answer (bd_soc b))" using answered_iff[OF inv] by simp
  note a = dm_reply[OF inv v]
  have nn: "ni_dm_rsp n" "\<not> ni_dm_fault n" "\<not> ni_dm_pagefault n" "ni_dm_rdata n = fst (reply (bd_soc b) r)"
    using c(2) v a reg by (simp_all add: wired_def reply_def Let_def)
  have "ends_with P n (bd_core b) (f (ni_dm_rdata n))"
    using wait_meaning[OF assms(4), of P n] nn by (simp add: wait_agrees_def Let_def)
  moreover have "ni_dm_rdata n = sram_of b (sram_index (op_addr op))" if "op = Rd (op_addr op)"
  proof -
    have "\<not> rq_wen r" using that m by (metis mem_op.distinct(1))
    then show ?thesis using nn(4) reg m by (simp add: reply_def sram_of_def)
  qed
  ultimately show ?thesis by blast
qed

lemma exec_begins_addr: "mc_state x = MC_EXEC \<Longrightarrow> no_if_addr (snd (mc_comb n x)) = mc_pc x"
  by (simp add: mc_comb_def mc_exec_def mc_issue_def Let_def quiet_out_def split: option.split)

section \<open>A run\<close>

text \<open>Cycles without a commit leave the translation and protection registers alone.\<close>

definition plain_csr :: "csrs \<Rightarrow> bool" where
  "plain_csr c \<longleftrightarrow> mie c = 0 \<and> satp c = 0 \<and> pmpcfg c = (\<lambda>_. 0)"

lemma plain_bare: "plain_csr (mc_csr (bd_core b)) \<Longrightarrow> bare b"
proof -
  have "pmp_mode (fld k (0 :: u32)) = A_OFF" for k by (rule bit_word_eqI) (simp add: pmp_mode_def bit_fld A_OFF_def)
  then show "plain_csr (mc_csr (bd_core b)) \<Longrightarrow> bare b"
    by (simp add: plain_csr_def bare_def any_active_def mmu_csr_of_def list_ex_iff)
qed

lemma plain_no_irq: "plain_csr c \<Longrightarrow> \<not> irq_pending q c"
  by (simp add: plain_csr_def irq_pending_def m_irq_live_def s_irq_live_def mip_m_enabled_def mip_s_enabled_def)

lemma silent_plain:
  assumes "plain_csr (mc_csr x)" "silent n x"
  shows "plain_csr (mc_csr (mc_step P False n x))"
  using assms by (simp add: plain_csr_def silent_def mc_step_sel csr_step_def csr_tick_def do_write_def Let_def)

lemma cycle_exists:
  assumes "board_ok P ok b w p" "plain_csr (mc_csr (bd_core b))" "holds ok (bd_soc b) w"
  shows "\<exists>n i. soc_cycle ok n i b w"
  using wires_exist[OF plain_bare] assms plain_bare by (auto simp: soc_cycle_def board_ok_def)

text \<open>Two cycles after reset the word at the reset address is executing, the SRAM holding any words.\<close>

lemma uncommitted_step:
  assumes "no_commit (snd (mc_comb n x)) = None" "fst (mc_comb n x) = y" "mc_rf y = mc_rf x"
  shows "\<exists>c d. mc_step P False n x = y\<lparr>mc_csr := c, mc_div := d\<rparr>"
  using assms
  by (intro exI[of _ "mc_csr (mc_step P False n x)"] exI[of _ "mc_div (mc_step P False n x)"])
    (simp add: step_fields split_beta mc_rf_next_def)

lemma fetch_request:
  assumes "mc_state x = MC_FETCH" "plain_csr (mc_csr x)" "\<not> mc_inflight x"
  shows "no_if_req (snd (mc_comb n x))" "silent n x"
    "\<exists>c d. mc_step P False n x = x\<lparr>mc_inflight := ni_if_ready n, mc_csr := c, mc_div := d\<rparr>"
proof -
  have c: "fst (mc_comb n x) = x\<lparr>mc_inflight := ni_if_ready n\<rparr>" "no_commit (snd (mc_comb n x)) = None"
    "no_if_req (snd (mc_comb n x))" "\<not> no_csr_en (snd (mc_comb n x))"
    using assms plain_no_irq[OF assms(2)]
    by (simp_all add: mc_comb_def mc_fetch_def fetch_default_def quiet_out_def Let_def)
  then show "no_if_req (snd (mc_comb n x))" "silent n x"
    using assms(1) by (simp_all add: silent_def mc_csr_in_def csr_query_def Let_def)
  show "\<exists>c d. mc_step P False n x = x\<lparr>mc_inflight := ni_if_ready n, mc_csr := c, mc_div := d\<rparr>"
    using uncommitted_step[OF c(2,1)] by simp
qed

lemma fetch_answer:
  assumes "mc_state x = MC_FETCH" "plain_csr (mc_csr x)" "mc_inflight x" "\<not> mc_squash x" "ni_if_rsp n" "\<not> ni_if_fault n" "\<not> ni_if_pagefault n"
  shows "silent n x"
    "\<exists>c d. mc_step P False n x = x\<lparr>mc_inflight := False, mc_squash := False, mc_instr := ni_if_data n, mc_state := MC_EXEC, mc_csr := c, mc_div := d\<rparr>"
proof -
  have c: "fst (mc_comb n x) = x\<lparr>mc_inflight := False, mc_squash := False, mc_instr := ni_if_data n, mc_state := MC_EXEC\<rparr>"
    "no_commit (snd (mc_comb n x)) = None" "\<not> no_csr_en (snd (mc_comb n x))"
    using assms plain_no_irq[OF assms(2)]
    by (simp_all add: mc_comb_def mc_fetch_def fetch_default_def quiet_out_def Let_def)
  then show "silent n x" using assms(1) by (simp add: silent_def mc_csr_in_def csr_query_def Let_def)
  show "\<exists>c d. mc_step P False n x = x\<lparr>mc_inflight := False, mc_squash := False, mc_instr := ni_if_data n, mc_state := MC_EXEC, mc_csr := c, mc_div := d\<rparr>"
    using uncommitted_step[OF c(2,1)] by simp
qed

lemma soc_exec_run:
  fixes M :: memory and R :: regs
  assumes ok: "\<And>a. if_is_sram a \<Longrightarrow> ok a (M (sram_index a))" and P: "if_is_sram P"
  shows "\<exists>b w p. soc_top_run P ok b w p \<and> holds ok (bd_soc b) w \<and> mc_state (bd_core b) = MC_EXEC \<and> mc_pc (bd_core b) = P \<and>
    mc_instr (bd_core b) = M (sram_index P) \<and> mc_rf (bd_core b) = R \<and> sram_of b = M \<and> plain_csr (mc_csr (bd_core b))"
proof -
  fix n0 :: mc_in and b0 :: board and i0 :: soc_in
  let ?none = "\<lparr>wt_dm = None, wt_ptw = None, wt_fa = None\<rparr>"
  define r0 where "r0 = n0\<lparr>ni_dm_rsp := False\<rparr>"
  define j0 where "j0 = i0\<lparr>si_dm := no_req, si_if_valid := False, si_ptw_valid := False\<rparr>"
  define z0 where "z0 = b0\<lparr>bd_core := (bd_core b0)\<lparr>mc_state := MC_MEM, mc_rf := R\<rparr>,
    bd_soc := (bd_soc b0)\<lparr>so_sram := (so_sram (bd_soc b0))\<lparr>sr_mem := M\<rparr>\<rparr>\<rparr>"
  define b1 where "b1 = board_step P True r0 j0 z0"
  have nax: "\<not> if_is_axi P" using fetch_regions[of P] P by auto
  have H: "holds ok (bd_soc b) w" if "sram_of b = M" "wt_fa w = None" for b w
    using ok that by (simp add: holds_def sram_of_def)
  have r1: "soc_top_run P ok b1 ?none (port_a j0)" unfolding b1_def
    using H[of z0 ?none]
    by (intro soc_top_run.reset[where ?w0.0 = ?none]) (simp_all add: j0_def no_req_def z0_def sram_of_def)
  have x1: "mc_state (bd_core b1) = MC_FETCH" "mc_pc (bd_core b1) = P" "\<not> mc_inflight (bd_core b1)" "\<not> mc_squash (bd_core b1)"
    "plain_csr (mc_csr (bd_core b1))" "mc_rf (bd_core b1) = R"
    by (simp_all add: b1_def z0_def r0_def board_sel mc_step_def mc_reset_def mc_comb_def mc_mem_def mc_rf_next_def quiet_out_def
        fetch_default_keeps csr_step_def csr_reset_def plain_csr_def split_beta Let_def)
  have s1: "sram_of b1 = M"
    using sram_next[of j0 True] by (simp add: b1_def sram_of_def board_sel z0_def j0_def no_req_def Let_def)
  obtain n1 i1 where c1: "soc_cycle ok n1 i1 b1 ?none" using cycle_exists[OF board_inv[OF r1] x1(5) H[OF s1]] by auto
  define b2 where "b2 = board_step P False n1 i1 b1"
  define w2 where "w2 = waits_next i1 (bd_soc b1) ?none"
  note ok1 = board_inv[OF r1]
  have wd1: "wired n1 i1 (bd_core b1) (dp_req (bd_pipe b1)) (bd_soc b1)"
    using bare_wires ok1 c1 by (auto simp: board_ok_def soc_cycle_def)
  note p1 = fetch_port[OF wd1]
  have ad: "no_if_addr (snd (mc_comb n1 (bd_core b1))) = P" using fetch_moves(1)[OF x1(1)] x1(2,4) by simp
  have rd1: "ni_if_ready n1" using p1(4) ad nax by simp
  note q1 = fetch_request[OF x1(1,5,3), where n = n1]
  have x2: "mc_state (bd_core b2) = MC_FETCH" "mc_pc (bd_core b2) = P" "mc_inflight (bd_core b2)" "\<not> mc_squash (bd_core b2)"
    "plain_csr (mc_csr (bd_core b2))" "mc_rf (bd_core b2) = R"
    using q1(3)[of P] x1 rd1 silent_plain[OF x1(5) q1(2), of P] by (auto simp: b2_def board_sel)
  have r2: "soc_top_run P ok b2 w2 (port_a i1)"
    unfolding b2_def w2_def using c1 by (intro soc_top_run.cycle[OF r1]) (auto simp: soc_cycle_def)
  have f2: "wt_fa w2 = None" "port_a i1 = Some P" using p1(5,9) q1(1) x1(3) ad P nax by (simp_all add: w2_def)
  have keep: "sram_of (board_step P False n i b) = sram_of b" if "wired n i (bd_core b) q s" "\<not> rq_valid q" "s = bd_soc b" for n i b q s
    using sram_next[of i False "bd_soc b"] that by (simp add: sram_of_def board_sel wired_def Let_def)
  have nq: "\<not> rq_valid (dp_req (bd_pipe b))" if "board_ok P ok b w p" "mc_state (bd_core b) = MC_FETCH" for b w p
    using that by (simp add: board_ok_def data_ok_def in_mem_def)
  have s2: "sram_of b2 = M" "\<not> so_if_bad (bd_soc b2)" "sr_a_rsp_valid (so_sram (bd_soc b2))"
      "sr_a_rsp_rdata (so_sram (bd_soc b2)) = M (sram_index P)"
    using keep[OF wd1 nq[OF ok1 x1(1)]] p1(6,7,8) f2 ad P s1 by (simp_all add: b2_def board_sel sram_of_def)
  note ok2 = board_inv[OF r2]
  obtain n2 i2 where c2: "soc_cycle ok n2 i2 b2 w2" using cycle_exists[OF ok2 x2(5) H[OF s2(1) f2(1)]] by auto
  have wd2: "wired n2 i2 (bd_core b2) (dp_req (bd_pipe b2)) (bd_soc b2)"
    using bare_wires ok2 c2 by (auto simp: board_ok_def soc_cycle_def)
  note p2 = fetch_port[OF wd2]
  have nf: "\<not> (xm_rsp_fault (so_axim (bd_soc b2)) \<and> so_client (bd_soc b2) = 1)"
    using soc_run_inv[of "bd_soc b2" w2] ok2 f2(1) by (auto simp: board_ok_def soc_inv_def serves_def regs_inv_def)
  have n2: "ni_if_rsp n2" "\<not> ni_if_fault n2" "\<not> ni_if_pagefault n2" "ni_if_data n2 = M (sram_index P)"
    using p2(1,2,3) s2 nf wd2 by (simp_all add: wired_def Let_def)
  note q2 = fetch_answer[OF x2(1,5,3,4) n2(1,2,3)]
  define b3 where "b3 = board_step P False n2 i2 b2"
  define w3 where "w3 = waits_next i2 (bd_soc b2) w2"
  have x3: "mc_state (bd_core b3) = MC_EXEC" "mc_pc (bd_core b3) = P" "mc_instr (bd_core b3) = M (sram_index P)"
    "plain_csr (mc_csr (bd_core b3))" "mc_rf (bd_core b3) = R"
    using q2(2)[of P] x2 n2(4) silent_plain[OF x2(5) q2(1), of P] by (auto simp: b3_def board_sel)
  have "soc_top_run P ok b3 w3 (port_a i2)"
    unfolding b3_def w3_def using c2 by (intro soc_top_run.cycle[OF r2]) (auto simp: soc_cycle_def)
  moreover have "no_if_addr (snd (mc_comb n2 (bd_core b2))) = P" using fetch_moves(1)[OF x2(1)] x2(2,4) by simp
  then have "wt_fa w3 = None" using p2(9)[of w2] f2(1) nax by (simp add: w3_def)
  moreover have "sram_of b3 = M" using keep[OF wd2 nq[OF ok2 x2(1)]] s2(1) by (simp add: b3_def)
  ultimately show ?thesis using x3 H by blast
qed

section \<open>Properties\<close>

text \<open>
  C18. The core on the interconnect executes what is stored at its pc: with the SRAM, AXI and unmapped fetch
  paths of the SoC, every word being executed was in the SRAM, or answered by the AXI side, for the pc of the
  instruction, although the core keeps its fetch request up and drops stale answers.
\<close>

theorem soc_fetches_pc:
  assumes "soc_top_run P ok b w p" "mc_state (bd_core b) \<noteq> MC_FETCH"
  shows "ok (mc_pc (bd_core b)) (mc_instr (bd_core b))"
  using board_inv[OF assms(1)] assms(2) by (simp add: board_ok_def fetch_ok_def)

theorem soc_fetches_pc_witness:
  "\<exists>b w p. soc_top_run 0x80000000 (\<lambda>_ v. v = 0x13) b w p \<and> mc_state (bd_core b) = MC_EXEC \<and> mc_instr (bd_core b) = 0x13"
proof -
  have "if_is_sram 0x80000000" by code_simp
  then obtain b w p where "soc_top_run 0x80000000 (\<lambda>_ v. v = 0x13) b w p" "mc_state (bd_core b) = MC_EXEC"
    using soc_exec_run[where ok = "\<lambda>_ v. v = 0x13" and M = "\<lambda>_. 0x13" and P = "0x80000000" and R = "\<lambda>_. 0"] by auto
  then show ?thesis using soc_fetches_pc[of "0x80000000" "\<lambda>_ v. v = 0x13" b w p] by auto
qed

text \<open>
  C4. Loads, stores and atomic accesses to the SRAM take three cycles: in the first the request register takes
  the request, in the second the SRAM changes as the instruction means it, in the third the instruction goes on
  with the word of the SRAM and without a fault, and nothing else of the SRAM or the hart changes meanwhile.
\<close>

theorem soc_sram_access:
  fixes b :: board and P :: u32 and n n1 n2 :: mc_in and i i1 i2 :: soc_in and w :: waits
  assumes "soc_top_run P ok b w p" "aligned P"
    and "at_act n (bd_core b) (Access op (Await st tv f))" "dm_is_sram (op_addr op)"
  defines "b1 \<equiv> board_step P False n i b" and "w1 \<equiv> waits_next i (bd_soc b) w"
  defines "b2 \<equiv> board_step P False n1 i1 b1" and "w2 \<equiv> waits_next i1 (bd_soc b1) w1"
  assumes "soc_cycle ok n i b w" "soc_cycle ok n1 i1 b1 w1" "soc_cycle ok n2 i2 b2 w2"
  shows "silent n (bd_core b) \<and> sram_of b1 = sram_of b \<and>
    silent n1 (bd_core b1) \<and> sram_of b2 = sram_apply op (sram_of b) \<and>
    (\<exists>d. ends_with P n2 (bd_core b2) (f d) \<and> (op = Rd (op_addr op) \<longrightarrow> d = sram_of b (sram_index (op_addr op)))) \<and>
    sram_of (board_step P False n2 i2 b2) = sram_of b2"
proof -
  note one = access_taken[OF assms(1,2,9,3), folded b1_def]
  have r1: "soc_top_run P ok b1 w1 (port_a i)" using cycle_facts(1)[OF assms(1,2,9)] by (simp add: b1_def w1_def)
  note two = access_done[OF r1 assms(2,10) one(1,3) assms(4), folded b2_def w2_def]
  have r2: "soc_top_run P ok b2 w2 (port_a i1)" using cycle_facts(1)[OF r1 assms(2,10)] by (simp add: b2_def w2_def)
  have "sram_of (board_step P False n2 i2 b2) = sram_of b2" using cycle_facts(8)[OF r2 assms(2,11)] two(5) by (simp add: Let_def)
  moreover have "\<exists>d. ends_with P n2 (bd_core b2) (f d) \<and> (op = Rd (op_addr op) \<longrightarrow> d = sram_of b (sram_index (op_addr op)))"
    using access_answered[OF r2 assms(2,11) two(1,4) one(3) assms(4)] two(3) one(4) by (cases op) auto
  ultimately show ?thesis using one two by simp
qed

theorem soc_sram_access_witness:
  "\<exists>b w p n i n1 i1. soc_top_run 0x80000000 (\<lambda>_ _. True) b w p \<and> mc_instr (bd_core b) = 0x0020A023 \<and>
     sram_of b (sram_index 0x80000010) = 0x0020A023 \<and>
     sram_of (board_step 0x80000000 False n1 i1 (board_step 0x80000000 False n i b)) (sram_index 0x80000010) = 7"
proof -
  let ?w = "0x0020A023 :: u32" and ?P = "0x80000000 :: u32" and ?A = "0x80000010 :: u32" and ?ok = "\<lambda>(_::u32) (_::u32). True"
  let ?R = "\<lambda>r :: 5 word. if r = 1 then ?A else 7" and ?op = "Wr 0x80000010 (write_part WRD 0x80000010 7)"
  have P: "if_is_sram ?P" "aligned ?P" "dm_is_sram (op_addr ?op)" by (code_simp, code_simp) (simp, code_simp)
  have al: "word_addr ?A = ?A" "\<not> misaligned WRD ?A" by (simp_all add: word_addr_def misaligned_def bytes_of_def)
  have f: "opcode ?w = 0x23" "funct3 ?w = 2" "rs1_i ?w = 1" "rs2_i ?w = 2" "imm_s ?w = 0" by code_simp+
  have d: "rv_decode ?w = Some (I_STORE WRD 1 2 0)" "\<not> reserved ?w"
    by (simp_all add: rv_decode_def reserved_def dec_store_def f)
  have H: "holds ?ok s w" for s w by (simp add: holds_def)
  obtain b w p where b: "soc_top_run ?P ?ok b w p" "mc_state (bd_core b) = MC_EXEC" "mc_instr (bd_core b) = ?w"
      "mc_rf (bd_core b) = ?R" "sram_of b = (\<lambda>_. ?w)" "plain_csr (mc_csr (bd_core b))"
    using soc_exec_run[where ok = ?ok and M = "\<lambda>_. ?w" and P = ?P and R = ?R] P(1) by auto
  obtain n i where c: "soc_cycle ?ok n i b w" using cycle_exists[OF board_inv[OF b(1)] b(6) H] by auto
  obtain f where a: "isa_act ?w (mc_ctx n (bd_core b)) = Access ?op (Await True ?A f)"
    using d al by (simp add: isa_act_def rv_store_def ctx_simps b(4) rf_read_def)
  then have at: "at_act n (bd_core b) (Access ?op (Await True ?A f))" using d(2) b(2,3) by (simp add: at_act_def)
  define b1 where "b1 = board_step ?P False n i b"
  define w1 where "w1 = waits_next i (bd_soc b) w"
  note one = access_taken[OF b(1) P(2) c at, folded b1_def]
  have r1: "soc_top_run ?P ?ok b1 w1 (port_a i)" using cycle_facts(1)[OF b(1) P(2) c] by (simp add: b1_def w1_def)
  have pl1: "plain_csr (mc_csr (bd_core b1))" using silent_plain[OF b(6) one(2)] by (simp add: b1_def board_sel)
  obtain n1 i1 where c1: "soc_cycle ?ok n1 i1 b1 w1" using cycle_exists[OF board_inv[OF r1] pl1 H] by auto
  define b2 where "b2 = board_step ?P False n1 i1 b1"
  define w2 where "w2 = waits_next i1 (bd_soc b1) w1"
  note two = access_done[OF r1 P(2) c1 one(1,3) P(3), folded b2_def w2_def]
  have r2: "soc_top_run ?P ?ok b2 w2 (port_a i1)" using cycle_facts(1)[OF r1 P(2) c1] by (simp add: b2_def w2_def)
  have pl2: "plain_csr (mc_csr (bd_core b2))" using silent_plain[OF pl1 two(2)] by (simp add: b2_def board_sel)
  obtain n2 i2 where c2: "soc_cycle ?ok n2 i2 b2 w2" using cycle_exists[OF board_inv[OF r2] pl2 H] by auto
  have "sram_of b2 = sram_apply ?op (sram_of b)"
    using soc_sram_access[OF b(1) P(2) at P(3) c c1[unfolded b1_def w1_def] c2[unfolded b2_def w2_def b1_def w1_def]]
    by (simp add: b2_def b1_def)
  then have "sram_of (board_step ?P False n1 i1 (board_step ?P False n i b)) (sram_index ?A) = 7"
    by (simp add: b2_def b1_def write_part_def Let_def)
  then show ?thesis using b by (intro exI[of _ b] exI[of _ w] exI[of _ p] exI[of _ n] exI[of _ i] exI[of _ n1] exI[of _ i1]) simp
qed

end
