(* ===== verification/Pipe_Core.thy ===== *)
theory Pipe_Core
  imports Core_Mc
begin

text \<open>
  The pipelined core, \<open>rtl/core/core_pipeline.sv\<close>: IF, ID, EX, MEM and WB around the register file, the CSR file
  and the divider. One \<open>pl_step\<close> is one clock cycle. Registers that nothing reads (the class flags of LUI, AUIPC
  and WFI and the operand-used flags in EX), the debug traces and the formal tap are left out. The inputs are those
  of the multi-cycle core.
\<close>

unbundle bit_operations_syntax

section \<open>Pipeline registers\<close>

record id_reg =
  id_valid :: bool
  id_pc :: u32
  id_instr :: u32
  id_fault :: bool
  id_pagefault :: bool
  id_irq :: bool
  id_irq_cause :: u32

text \<open>What ID decodes: control flags, which a bubble clears, and data fields, which it keeps.\<close>

record ctl =
  ct_rd_wen :: bool
  ct_jal :: bool
  ct_jalr :: bool
  ct_branch :: bool
  ct_load :: bool
  ct_store :: bool
  ct_csr :: bool
  ct_ecall :: bool
  ct_ebreak :: bool
  ct_mret :: bool
  ct_sret :: bool
  ct_mul :: bool
  ct_div :: bool
  ct_lr :: bool
  ct_sc :: bool
  ct_amo_rmw :: bool
  ct_serial :: bool

record fields =
  fi_imm :: u32
  fi_alu_op :: "4 word"
  fi_a_sel :: "2 word"
  fi_b_sel :: "2 word"
  fi_rd :: "5 word"
  fi_rs1 :: "5 word"
  fi_rs2 :: "5 word"
  fi_funct3 :: "3 word"
  fi_csr_addr :: "12 word"
  fi_amo_funct5 :: "5 word"

record ex_reg =
  ex_valid :: bool
  ex_pc :: u32
  ex_instr :: u32
  ex_rs1_data :: u32
  ex_rs2_data :: u32
  ex_fields :: fields
  ex_ctl :: ctl
  ex_fetch_fault :: bool
  ex_fetch_pagefault :: bool
  ex_illegal :: bool
  ex_irq :: bool
  ex_irq_cause :: u32

record mem_reg =
  me_valid :: bool
  me_pc :: u32
  me_instr :: u32
  me_alu_y :: u32
  me_has_result :: bool
  me_result :: u32
  me_store_wdata :: u32
  me_store_wmask :: "4 word"
  me_funct3 :: "3 word"
  me_rd :: "5 word"
  me_rd_wen :: bool
  me_is_load :: bool
  me_is_store :: bool
  me_is_csr :: bool
  me_is_mret :: bool
  me_is_sret :: bool
  me_is_serial :: bool
  me_is_lr :: bool
  me_is_sc :: bool
  me_is_amo_rmw :: bool
  me_amo_funct5 :: "5 word"
  me_amo_rs2 :: u32
  me_amo_phase :: bool
  me_csr_addr :: "12 word"
  me_csr_wdata :: u32
  me_csr_op :: "3 word"
  me_csr_rs1imm :: "5 word"
  me_sfence_rs1 :: u32
  me_sfence_rs2 :: u32
  me_trap :: bool
  me_cause :: u32
  me_tval :: u32
  me_ls_pending :: bool

text \<open>The latches beside the MEM registers.\<close>

record mem_latch =
  ml_req_fired :: bool
  ml_bus_fault :: bool
  ml_bus_pagefault :: bool
  ml_load_data :: u32
  ml_amo_old :: u32

record wb_reg =
  wb_valid :: bool
  wb_pc :: u32
  wb_instr :: u32
  wb_rd :: "5 word"
  wb_rd_wen :: bool
  wb_result :: u32
  wb_trap :: bool
  wb_cause :: u32
  wb_tval :: u32
  wb_is_mret :: bool
  wb_is_sret :: bool
  wb_is_csr :: bool
  wb_is_serial :: bool
  wb_csr_addr :: "12 word"
  wb_csr_wdata :: u32
  wb_csr_op :: "3 word"
  wb_csr_rs1imm :: "5 word"
  wb_sfence_rs1 :: u32
  wb_sfence_rs2 :: u32

record pl =
  pl_pc :: u32
  pl_if_inflight :: bool
  pl_if_pc :: u32
  pl_squash :: bool
  pl_id :: id_reg
  pl_ex :: ex_reg
  pl_mem :: mem_reg
  pl_latch :: mem_latch
  pl_wb :: wb_reg
  pl_div_started :: bool
  pl_div_done :: bool
  pl_div_result :: u32
  pl_trap_pending :: bool
  pl_resv_valid :: bool
  pl_resv_addr :: "30 word"
  pl_rf :: regs
  pl_csr :: csrs
  pl_div :: div_unit

section \<open>ID: decode\<close>

definition id_serial :: "u32 \<Rightarrow> bool" where
  "id_serial w = (is_csr w \<or> is_mret w \<or> is_sret w \<or> is_ecall w \<or> is_ebreak w \<or> is_priv w 0x105 \<or> opcode w = OP_MISC_MEM \<or>
     is_lr w \<or> is_sc w \<or> is_amo_rmw w \<or> is_sfence w)"

definition id_rs1_used :: "u32 \<Rightarrow> bool" where
  "id_rs1_used w = (is_jalr w \<or> is_branch w \<or> is_load w \<or> is_store w \<or> is_op_imm w \<or> is_op w \<or>
     is_lr w \<or> is_sc w \<or> is_amo_rmw w \<or> (is_csr w \<and> \<not> bit (funct3 w) 2))"

definition id_rs2_used :: "u32 \<Rightarrow> bool" where
  "id_rs2_used w = (is_branch w \<or> is_store w \<or> is_op w \<or> is_sc w \<or> is_amo_rmw w)"

definition id_writes_rd :: "u32 \<Rightarrow> bool" where
  "id_writes_rd w = ((is_lui w \<or> is_auipc w \<or> is_jal w \<or> is_jalr w \<or> is_load w \<or> is_op_imm w \<or> is_op w \<or> is_csr w \<or>
     is_lr w \<or> is_sc w \<or> is_amo_rmw w) \<and> rd_i w \<noteq> 0)"

definition id_ctl :: "u32 \<Rightarrow> ctl" where
  "id_ctl w =
     \<lparr>ct_rd_wen = id_writes_rd w, ct_jal = is_jal w, ct_jalr = is_jalr w, ct_branch = is_branch w, ct_load = is_load w,
      ct_store = is_store w, ct_csr = is_csr w, ct_ecall = is_ecall w, ct_ebreak = is_ebreak w, ct_mret = is_mret w,
      ct_sret = is_sret w, ct_mul = is_mul_variant w, ct_div = is_div_variant w, ct_lr = is_lr w, ct_sc = is_sc w,
      ct_amo_rmw = is_amo_rmw w, ct_serial = id_serial w\<rparr>"

definition no_ctl :: ctl where
  "no_ctl =
     \<lparr>ct_rd_wen = False, ct_jal = False, ct_jalr = False, ct_branch = False, ct_load = False, ct_store = False,
      ct_csr = False, ct_ecall = False, ct_ebreak = False, ct_mret = False, ct_sret = False, ct_mul = False,
      ct_div = False, ct_lr = False, ct_sc = False, ct_amo_rmw = False, ct_serial = False\<rparr>"

definition id_imm :: "u32 \<Rightarrow> u32" where
  "id_imm w =
     (if is_lui w \<or> is_auipc w then imm_u w
      else if is_jal w then imm_j w
      else if is_store w then imm_s w
      else if is_branch w then imm_b w
      else imm_i w)"

text \<open>ALU operation and operand selectors.\<close>

definition id_alu :: "u32 \<Rightarrow> 4 word \<times> 2 word \<times> 2 word" where
  "id_alu w =
     (let alt = bit (funct7 w) 5 in
      if is_lui w then (10, 2, 1)
      else if is_auipc w then (0, 1, 1)
      else if is_jal w \<or> is_jalr w then (0, 1, 2)
      else if is_load w then (0, 0, 1)
      else if is_store w then (0, 0, 1)
      else if is_branch w then (1, 0, 0)
      else if is_op_imm w then (alu_op_of (funct3 w) False alt, 0, 1)
      else if is_op w then (alu_op_of (funct3 w) alt alt, 0, 0)
      else (0, 0, 0))"

definition id_fields :: "u32 \<Rightarrow> fields" where
  "id_fields w =
     \<lparr>fi_imm = id_imm w, fi_alu_op = fst (id_alu w), fi_a_sel = fst (snd (id_alu w)), fi_b_sel = snd (snd (id_alu w)),
      fi_rd = rd_i w, fi_rs1 = rs1_i w, fi_rs2 = rs2_i w, fi_funct3 = funct3 w, fi_csr_addr = funct12 w,
      fi_amo_funct5 = amo_funct5 w\<rparr>"

text \<open>The CSRs the decoder accepts.\<close>

definition id_csr_known :: "12 word \<Rightarrow> bool" where
  "id_csr_known a =
     (a \<in> {0x300, 0x301, 0x304, 0x344, 0x302, 0x303, 0x305, 0x340, 0x341, 0x342, 0x343, 0xB00, 0xB80, 0xB02, 0xB82,
        0xC00, 0xC80, 0xC02, 0xC82, 0xF14, 0xF11, 0xF12, 0xF13, 0x100, 0x104, 0x144, 0x105, 0x106, 0x140, 0x141, 0x142,
        0x143, 0x180} \<or> (0x3A0 \<le> a \<and> a \<le> 0x3A3) \<or> (0x3B0 \<le> a \<and> a \<le> 0x3BF))"

definition id_csr_illegal :: "u32 \<Rightarrow> csrs \<Rightarrow> bool" where
  "id_csr_illegal w c =
     (let a = funct12 w; f = funct3 w;
          writes = (if f = 1 \<or> f = 5 then True else if f = 2 \<or> f = 3 \<or> f = 6 \<or> f = 7 then rs1_i w \<noteq> 0 else False) in
      ((fld 10 a :: 2 word) = 3 \<and> writes) \<or> \<not> (fld 8 a :: 2 word) \<le> priv_mode c \<or> \<not> id_csr_known a \<or>
      (a = 0x180 \<and> priv_mode c = PRV_S \<and> bit (mstatus c) 20))"

definition id_illegal :: "u32 \<Rightarrow> csrs \<Rightarrow> bool" where
  "id_illegal w c =
     (opcode w \<notin> {OP_LUI, OP_AUIPC, OP_JAL, OP_JALR, OP_BRANCH, OP_LOAD, OP_STORE, OP_OP_IMM, OP_OP, OP_MISC_MEM,
        OP_SYSTEM, OP_AMO} \<or>
      (opcode w = OP_AMO \<and> (funct3 w \<noteq> 2 \<or> \<not> (is_lr w \<or> is_sc w \<or> is_amo_rmw w))) \<or>
      (is_op_imm w \<and> funct3 w = 1 \<and> funct7 w \<noteq> 0) \<or>
      (is_op_imm w \<and> funct3 w = 5 \<and> funct7 w \<noteq> 0 \<and> funct7 w \<noteq> 0x20) \<or>
      (is_op w \<and> \<not> op_legal (funct7 w) (funct3 w)) \<or>
      (is_system w \<and> funct3 w = 0 \<and>
        (if is_sfence w
         then rd_i w \<noteq> 0 \<or> priv_mode c = PRV_U \<or> (priv_mode c = PRV_S \<and> bit (mstatus c) 20)
         else funct12 w \<notin> {0x000, 0x001, 0x302, 0x102, 0x105} \<or> rd_i w \<noteq> 0 \<or> rs1_i w \<noteq> 0 \<or>
           (is_sret w \<and> priv_mode c = PRV_U) \<or> (is_sret w \<and> priv_mode c = PRV_S \<and> bit (mstatus c) 22) \<or>
           (is_mret w \<and> priv_mode c \<noteq> PRV_M))) \<or>
      (is_csr w \<and> id_csr_illegal w c))"


section \<open>WB: the CSR port, the register file and the redirects\<close>

definition wb_csr_port :: "mc_in \<Rightarrow> pl \<Rightarrow> csr_in" where
  "wb_csr_port i x =
     (let b = pl_wb x in
      \<lparr>ci_en = wb_valid b \<and> wb_is_csr b \<and> \<not> wb_trap b, ci_op = wb_csr_op b, ci_addr = wb_csr_addr b,
       ci_rs1_or_imm = wb_csr_rs1imm b, ci_wdata = wb_csr_wdata b,
       ci_trap = wb_valid b \<and> wb_trap b, ci_trap_pc = wb_pc b, ci_trap_cause = wb_cause b, ci_trap_tval = wb_tval b,
       ci_mret = wb_valid b \<and> wb_is_mret b \<and> \<not> wb_trap b, ci_sret = wb_valid b \<and> wb_is_sret b \<and> \<not> wb_trap b,
       ci_retire = wb_valid b \<and> \<not> wb_trap b,
       ci_mti = ni_mti i, ci_msi = ni_msi i, ci_mei = ni_mei i, ci_sei = ni_sei i, ci_mtime = ni_mtime i\<rparr>)"

definition wb_rd_data :: "mc_in \<Rightarrow> pl \<Rightarrow> u32" where
  "wb_rd_data i x = (if wb_is_csr (pl_wb x) then read_value (wb_csr_port i x) (pl_csr x) else wb_result (pl_wb x))"

definition rf_wen :: "pl \<Rightarrow> bool" where
  "rf_wen x = (wb_valid (pl_wb x) \<and> wb_rd_wen (pl_wb x) \<and> \<not> wb_trap (pl_wb x) \<and> wb_rd (pl_wb x) \<noteq> 0)"

text \<open>FENCE.I, SFENCE.VMA and accesses to satp are found from the instruction bits.\<close>

definition wb_fence_i :: "pl \<Rightarrow> bool" where
  "wb_fence_i x = (wb_valid (pl_wb x) \<and> \<not> wb_trap (pl_wb x) \<and> opcode (wb_instr (pl_wb x)) = OP_MISC_MEM \<and>
     funct3 (wb_instr (pl_wb x)) = 1)"

definition wb_sfence :: "pl \<Rightarrow> bool" where
  "wb_sfence x = (wb_valid (pl_wb x) \<and> \<not> wb_trap (pl_wb x) \<and> is_sfence (wb_instr (pl_wb x)))"

definition wb_csrw_satp :: "pl \<Rightarrow> bool" where
  "wb_csrw_satp x = (wb_valid (pl_wb x) \<and> \<not> wb_trap (pl_wb x) \<and> is_csr (wb_instr (pl_wb x)) \<and>
     funct12 (wb_instr (pl_wb x)) = 0x180)"

definition wb_redirect :: "pl \<Rightarrow> bool" where
  "wb_redirect x = (wb_valid (pl_wb x) \<and> (wb_trap (pl_wb x) \<or> wb_is_mret (pl_wb x) \<or> wb_is_sret (pl_wb x) \<or>
     wb_fence_i x \<or> wb_sfence x \<or> wb_csrw_satp x))"

definition wb_redirect_pc :: "mc_in \<Rightarrow> pl \<Rightarrow> u32" where
  "wb_redirect_pc i x =
     (let b = pl_wb x; c = pl_csr x; to_s = trap_to_s (wb_csr_port i x) c;
          vectored = (\<lambda>v. vec_base v + word_cat (0 :: 26 word) (word_cat (fld 0 (wb_cause b) :: 4 word) (0 :: 2 word) :: 6 word)) in
      if wb_is_mret b \<and> \<not> wb_trap b then mepc c
      else if wb_is_sret b \<and> \<not> wb_trap b then sepc c
      else if wb_fence_i x \<or> wb_sfence x \<or> wb_csrw_satp x then wb_pc b + 4
      else if wb_trap b \<and> to_s
      then (if bit (stvec c) 0 \<and> bit (wb_cause b) 31 then vectored (stvec c) else vec_base (stvec c))
      else if wb_trap b \<and> bit (mtvec c) 0 \<and> bit (wb_cause b) 31 then vectored (mtvec c)
      else vec_base (mtvec c))"

text \<open>What the core shows of a retirement.\<close>

definition pl_commit :: "mc_in \<Rightarrow> pl \<Rightarrow> commit option" where
  "pl_commit i x =
     (if wb_valid (pl_wb x)
      then Some \<lparr>cm_pc = wb_pc (pl_wb x), cm_insn = wb_instr (pl_wb x), cm_rd_wen = rf_wen x, cm_rd_addr = wb_rd (pl_wb x),
        cm_rd_data = wb_rd_data i x, cm_trap = wb_trap (pl_wb x), cm_cause = wb_cause (pl_wb x)\<rparr>
      else None)"

definition id_operand :: "mc_in \<Rightarrow> pl \<Rightarrow> 5 word \<Rightarrow> u32" where
  "id_operand i x rs =
     (if rf_wen x \<and> wb_rd (pl_wb x) = rs \<and> rs \<noteq> 0 then wb_rd_data i x else rf_read (pl_rf x) rs)"

section \<open>Hazards\<close>

definition load_use_hazard :: "pl \<Rightarrow> bool" where
  "load_use_hazard x =
     (let m = pl_mem x; d = pl_id x in
      me_valid m \<and> me_is_load m \<and> me_rd_wen m \<and> me_rd m \<noteq> 0 \<and> id_valid d \<and>
      ((id_rs1_used (id_instr d) \<and> me_rd m = rs1_i (id_instr d)) \<or>
       (id_rs2_used (id_instr d) \<and> me_rd m = rs2_i (id_instr d))))"

definition serial_inflight :: "pl \<Rightarrow> bool" where
  "serial_inflight x = ((ex_valid (pl_ex x) \<and> ct_serial (ex_ctl (pl_ex x))) \<or> (me_valid (pl_mem x) \<and> me_is_serial (pl_mem x)) \<or>
     (wb_valid (pl_wb x) \<and> wb_is_serial (pl_wb x)))"

definition pipe_busy :: "pl \<Rightarrow> bool" where
  "pipe_busy x = (ex_valid (pl_ex x) \<or> me_valid (pl_mem x) \<or> wb_valid (pl_wb x))"

definition ex_div_stall :: "pl \<Rightarrow> bool" where
  "ex_div_stall x = (ex_valid (pl_ex x) \<and> ct_div (ex_ctl (pl_ex x)) \<and> \<not> pl_div_done x)"

definition mem_csrw_satp :: "pl \<Rightarrow> bool" where
  "mem_csrw_satp x = (me_valid (pl_mem x) \<and> \<not> me_trap (pl_mem x) \<and> is_csr (me_instr (pl_mem x)) \<and>
     funct12 (me_instr (pl_mem x)) = 0x180)"

definition stall_mem :: "pl \<Rightarrow> bool" where
  "stall_mem x = ((me_valid (pl_mem x) \<and> me_ls_pending (pl_mem x)) \<or> (mem_csrw_satp x \<and> pl_if_inflight x))"

definition stall_ex :: "pl \<Rightarrow> bool" where "stall_ex x = (stall_mem x \<or> ex_div_stall x)"

definition stall_id :: "pl \<Rightarrow> bool" where
  "stall_id x = (stall_ex x \<or> load_use_hazard x \<or>
     (id_valid (pl_id x) \<and> id_serial (id_instr (pl_id x)) \<and> pipe_busy x) \<or>
     (id_valid (pl_id x) \<and> serial_inflight x \<and> \<not> id_serial (id_instr (pl_id x))))"

section \<open>EX\<close>

text \<open>Operand forwarding from MEM, then WB.\<close>

definition ex_fwd :: "pl \<Rightarrow> 5 word \<Rightarrow> u32 \<Rightarrow> u32" where
  "ex_fwd x rs v =
     (if me_valid (pl_mem x) \<and> me_has_result (pl_mem x) \<and> me_rd_wen (pl_mem x) \<and> me_rd (pl_mem x) \<noteq> 0 \<and> me_rd (pl_mem x) = rs
      then me_result (pl_mem x)
      else if wb_valid (pl_wb x) \<and> wb_rd_wen (pl_wb x) \<and> wb_rd (pl_wb x) \<noteq> 0 \<and> wb_rd (pl_wb x) = rs
      then wb_result (pl_wb x)
      else v)"

definition ex_rs1 :: "pl \<Rightarrow> u32" where "ex_rs1 x = ex_fwd x (fi_rs1 (ex_fields (pl_ex x))) (ex_rs1_data (pl_ex x))"
definition ex_rs2 :: "pl \<Rightarrow> u32" where "ex_rs2 x = ex_fwd x (fi_rs2 (ex_fields (pl_ex x))) (ex_rs2_data (pl_ex x))"

definition ex_alu_a :: "pl \<Rightarrow> u32" where
  "ex_alu_a x = (let s = fi_a_sel (ex_fields (pl_ex x)) in
     if s = 1 then ex_pc (pl_ex x) else if s = 2 then 0 else ex_rs1 x)"

definition ex_alu_b :: "pl \<Rightarrow> u32" where
  "ex_alu_b x = (let s = fi_b_sel (ex_fields (pl_ex x)) in
     if s = 1 then fi_imm (ex_fields (pl_ex x)) else if s = 2 then 4 else ex_rs2 x)"

definition ex_branch_taken :: "pl \<Rightarrow> bool" where
  "ex_branch_taken x =
     (let f = fi_funct3 (ex_fields (pl_ex x)); a = ex_alu_a x; b = ex_alu_b x in
      if f = 0 then alu_eq a b else if f = 1 then \<not> alu_eq a b
      else if f = 4 then alu_lt a b else if f = 5 then \<not> alu_lt a b
      else if f = 6 then alu_ltu a b else if f = 7 then \<not> alu_ltu a b
      else False)"

definition ex_jal_target :: "pl \<Rightarrow> u32" where "ex_jal_target x = ex_pc (pl_ex x) + fi_imm (ex_fields (pl_ex x))"
definition ex_jalr_target :: "pl \<Rightarrow> u32" where "ex_jalr_target x = (ex_rs1 x + fi_imm (ex_fields (pl_ex x))) AND NOT 1"
definition ex_branch_target :: "pl \<Rightarrow> u32" where "ex_branch_target x = ex_pc (pl_ex x) + fi_imm (ex_fields (pl_ex x))"

definition ct_atomic :: "ctl \<Rightarrow> bool" where "ct_atomic c = (ct_lr c \<or> ct_sc c \<or> ct_amo_rmw c)"

definition ls_addr :: "pl \<Rightarrow> u32" where
  "ls_addr x = (if ct_atomic (ex_ctl (pl_ex x)) then ex_rs1 x else ex_rs1 x + fi_imm (ex_fields (pl_ex x)))"

definition ex_take_branch :: "pl \<Rightarrow> bool" where
  "ex_take_branch x = (ex_valid (pl_ex x) \<and> ct_branch (ex_ctl (pl_ex x)) \<and> ex_branch_taken x)"
definition ex_take_jal :: "pl \<Rightarrow> bool" where "ex_take_jal x = (ex_valid (pl_ex x) \<and> ct_jal (ex_ctl (pl_ex x)))"
definition ex_take_jalr :: "pl \<Rightarrow> bool" where "ex_take_jalr x = (ex_valid (pl_ex x) \<and> ct_jalr (ex_ctl (pl_ex x)))"

text \<open>The last of the three assignments wins.\<close>

definition ex_misaligned_target :: "pl \<Rightarrow> u32 option" where
  "ex_misaligned_target x =
     (if ex_take_branch x \<and> low2 (ex_branch_target x) \<noteq> 0 then Some (ex_branch_target x)
      else if ex_take_jalr x \<and> low2 (ex_jalr_target x) \<noteq> 0 then Some (ex_jalr_target x)
      else if ex_take_jal x \<and> low2 (ex_jal_target x) \<noteq> 0 then Some (ex_jal_target x)
      else None)"

definition ex_ls_misaligned :: "pl \<Rightarrow> bool" where
  "ex_ls_misaligned x =
     (let c = ex_ctl (pl_ex x); f = fi_funct3 (ex_fields (pl_ex x)); a = ls_addr x in
      if ex_valid (pl_ex x) \<and> ct_atomic c then low2 a \<noteq> 0
      else if ex_valid (pl_ex x) \<and> (ct_load c \<or> ct_store c)
      then (if f = 1 \<or> f = 5 then bit a 0 else if f = 2 then low2 a \<noteq> 0 else False)
      else False)"

definition ex_mul_result :: "pl \<Rightarrow> u32" where
  "ex_mul_result x = (let f = fi_funct3 (ex_fields (pl_ex x)) in
     mul_unit (ex_rs1 x) (ex_rs2 x) (f = 1 \<or> f = 2) (f = 1) (f \<noteq> 0))"

definition ex_arith_wb :: "pl \<Rightarrow> u32" where
  "ex_arith_wb x =
     (let c = ex_ctl (pl_ex x) in
      if ct_div c then pl_div_result x
      else if ct_mul c then ex_mul_result x
      else if ct_jal c \<or> ct_jalr c then ex_pc (pl_ex x) + 4
      else alu (fi_alu_op (ex_fields (pl_ex x))) (ex_alu_a x) (ex_alu_b x))"

definition ex_trap :: "pl \<Rightarrow> (u32 \<times> u32) option" where
  "ex_trap x =
     (let e = pl_ex x; c = ex_ctl e; p = priv_mode (pl_csr x) in
      if \<not> ex_valid e then None
      else if ex_irq e then Some (ex_irq_cause e, 0)
      else if ex_fetch_pagefault e then Some (CAUSE_INSN_PAGE_FAULT, ex_pc e)
      else if ex_fetch_fault e then Some (CAUSE_INSN_ACCESS_FAULT, ex_pc e)
      else if ex_illegal e then Some (CAUSE_ILLEGAL_INSN, ex_instr e)
      else if ct_ecall c
      then Some (if p = PRV_U then CAUSE_ECALL_FROM_U else if p = PRV_S then CAUSE_ECALL_FROM_S else CAUSE_ECALL_FROM_M, 0)
      else if ct_ebreak c then Some (CAUSE_BREAKPOINT, 0)
      else if ex_misaligned_target x \<noteq> None then Some (CAUSE_INSN_ADDR_MISALIGNED, the (ex_misaligned_target x))
      else if (ct_load c \<or> ct_lr c) \<and> ex_ls_misaligned x then Some (CAUSE_LOAD_ADDR_MISALIGNED, ls_addr x)
      else if (ct_store c \<or> ct_sc c \<or> ct_amo_rmw c) \<and> ex_ls_misaligned x then Some (CAUSE_STORE_ADDR_MISALIGNED, ls_addr x)
      else None)"

definition branch_redirect :: "pl \<Rightarrow> bool" where
  "branch_redirect x = ((ex_take_branch x \<or> ex_take_jal x \<or> ex_take_jalr x) \<and> ex_trap x = None \<and> \<not> stall_ex x)"

definition branch_redirect_pc :: "pl \<Rightarrow> u32" where
  "branch_redirect_pc x = (if ex_take_jalr x then ex_jalr_target x else if ex_take_jal x then ex_jal_target x else ex_branch_target x)"

definition ex_store_lanes :: "pl \<Rightarrow> u32 \<times> 4 word" where
  "ex_store_lanes x =
     (let f = fi_funct3 (ex_fields (pl_ex x)); a = ls_addr x; v = ex_rs2 x in
      if f = 0
      then (let b = fld 0 v :: u8 in
            if low2 a = 0 then (word_cat (0 :: 24 word) b, 1)
            else if low2 a = 1 then (word_cat (0 :: 16 word) (word_cat b (0 :: 8 word) :: 16 word), 2)
            else if low2 a = 2 then (word_cat (0 :: 8 word) (word_cat b (0 :: 16 word) :: 24 word), 4)
            else (word_cat b (0 :: 24 word), 8))
      else if f = 1
      then (let h = fld 0 v :: 16 word in
            if \<not> bit a 1 then (word_cat (0 :: 16 word) h, 3) else (word_cat h (0 :: 16 word), 12))
      else (v, 15))"

definition ex_sc_hit :: "pl \<Rightarrow> bool" where "ex_sc_hit x = (pl_resv_valid x \<and> pl_resv_addr x = fld 2 (ls_addr x))"

section \<open>The divider beside EX\<close>

definition ex_div_start :: "pl \<Rightarrow> bool" where
  "ex_div_start x = (ex_valid (pl_ex x) \<and> ct_div (ex_ctl (pl_ex x)) \<and> \<not> pl_div_started x \<and> \<not> pl_div_done x \<and>
     \<not> stall_mem x \<and> \<not> wb_redirect x)"

definition ex_div_input :: "pl \<Rightarrow> div_in" where
  "ex_div_input x =
     (let f = fi_funct3 (ex_fields (pl_ex x)) in
      \<lparr>di_start = ex_div_start x, di_signed = (\<not> bit f 0), di_want_rem = bit f 1, di_dividend = ex_rs1 x, di_divisor = ex_rs2 x\<rparr>)"

text \<open>A divide leaves EX in the cycle after its result was latched.\<close>

definition div_clear :: "pl \<Rightarrow> bool" where
  "div_clear x = ((\<not> stall_ex x \<and> ex_valid (pl_ex x) \<and> ct_div (ex_ctl (pl_ex x)) \<and> pl_div_done x) \<or> wb_redirect x)"

definition div_started_next :: "pl \<Rightarrow> bool" where
  "div_started_next x = ((pl_div_started x \<or> ex_div_start x) \<and> \<not> div_clear x)"
definition div_done_next :: "pl \<Rightarrow> bool" where
  "div_done_next x = ((pl_div_done x \<or> dv_done (pl_div x)) \<and> \<not> div_clear x)"
definition div_result_next :: "pl \<Rightarrow> u32" where
  "div_result_next x = (if dv_done (pl_div x) then dv_result (pl_div x) else pl_div_result x)"

section \<open>IF\<close>

definition irq_inject :: "mc_in \<Rightarrow> pl \<Rightarrow> bool" where
  "irq_inject i x = (irq_pending (wb_csr_port i x) (pl_csr x) \<and> \<not> pipe_busy x \<and> \<not> pl_if_inflight x \<and> \<not> pl_trap_pending x \<and>
     \<not> id_irq (pl_id x))"

definition if_can_issue :: "mc_in \<Rightarrow> pl \<Rightarrow> bool" where
  "if_can_issue i x = (\<not> pl_if_inflight x \<and> (\<not> id_valid (pl_id x) \<or> \<not> stall_id x) \<and> \<not> branch_redirect x \<and> \<not> wb_redirect x \<and>
     \<not> pl_trap_pending x \<and> \<not> irq_inject i x)"

definition if_req :: "bool \<Rightarrow> mc_in \<Rightarrow> pl \<Rightarrow> bool" where "if_req rst i x = (if_can_issue i x \<and> \<not> rst)"
definition if_fire :: "mc_in \<Rightarrow> pl \<Rightarrow> bool" where "if_fire i x = (if_can_issue i x \<and> ni_if_ready i)"
definition rsp_arriving :: "mc_in \<Rightarrow> pl \<Rightarrow> bool" where "rsp_arriving i x = (pl_if_inflight x \<and> ni_if_rsp i)"

definition pc_next :: "mc_in \<Rightarrow> pl \<Rightarrow> u32" where
  "pc_next i x =
     (if wb_redirect x then wb_redirect_pc i x
      else if branch_redirect x then branch_redirect_pc x
      else if if_fire i x then pl_pc x + 4
      else pl_pc x)"

definition inflight_next :: "mc_in \<Rightarrow> pl \<Rightarrow> bool" where
  "inflight_next i x = (if if_fire i x then True else if rsp_arriving i x then False else pl_if_inflight x)"

definition squash_next :: "mc_in \<Rightarrow> pl \<Rightarrow> bool" where
  "squash_next i x =
     (if (branch_redirect x \<or> wb_redirect x) \<and> inflight_next i x \<and> \<not> rsp_arriving i x then True
      else if if_fire i x \<or> rsp_arriving i x then False else pl_squash x)"

definition id_next :: "mc_in \<Rightarrow> pl \<Rightarrow> id_reg" where
  "id_next i x =
     (let d = pl_id x in
      if branch_redirect x \<or> wb_redirect x then d\<lparr>id_valid := False, id_irq := False\<rparr>
      else if \<not> id_valid d \<or> \<not> stall_id x
      then (if irq_inject i x
            then \<lparr>id_valid = True, id_pc = (if id_valid d then id_pc d else pl_pc x), id_instr = 0, id_fault = False,
                  id_pagefault = False, id_irq = True, id_irq_cause = irq_cause (wb_csr_port i x) (pl_csr x)\<rparr>
            else if rsp_arriving i x \<and> \<not> pl_squash x
            then \<lparr>id_valid = True, id_pc = pl_if_pc x, id_instr = ni_if_data i, id_fault = ni_if_fault i,
                  id_pagefault = ni_if_pagefault i, id_irq = False, id_irq_cause = 0\<rparr>
            else d\<lparr>id_valid := False, id_irq := False\<rparr>)
      else d)"

section \<open>ID to EX\<close>

definition id_will_bubble :: "mc_in \<Rightarrow> pl \<Rightarrow> bool" where
  "id_will_bubble i x = (wb_redirect x \<or> \<not> id_valid (pl_id x) \<or> stall_id x \<or>
     (irq_inject i x \<and> id_valid (pl_id x) \<and> \<not> id_irq (pl_id x)))"

definition ex_next :: "mc_in \<Rightarrow> pl \<Rightarrow> ex_reg" where
  "ex_next i x =
     (let d = pl_id x; w = id_instr d in
      if stall_ex x then pl_ex x
      else if id_will_bubble i x
      then (pl_ex x)\<lparr>ex_valid := False, ex_ctl := no_ctl, ex_fetch_fault := False, ex_fetch_pagefault := False,
             ex_illegal := False, ex_irq := False\<rparr>
      else \<lparr>ex_valid = True, ex_pc = id_pc d, ex_instr = w, ex_rs1_data = id_operand i x (rs1_i w),
            ex_rs2_data = id_operand i x (rs2_i w), ex_fields = id_fields w, ex_ctl = id_ctl w,
            ex_fetch_fault = id_fault d, ex_fetch_pagefault = id_pagefault d, ex_illegal = id_illegal w (pl_csr x),
            ex_irq = id_irq d, ex_irq_cause = id_irq_cause d\<rparr>)"


section \<open>EX to MEM\<close>

definition mem_bubble :: "mem_reg \<Rightarrow> mem_reg" where
  "mem_bubble m =
     m\<lparr>me_valid := False, me_is_load := False, me_is_store := False, me_is_csr := False, me_is_mret := False,
       me_is_sret := False, me_is_serial := False, me_is_lr := False, me_is_sc := False, me_is_amo_rmw := False,
       me_rd_wen := False, me_has_result := False, me_trap := False, me_ls_pending := False, me_amo_phase := False\<rparr>"

text \<open>What an instruction leaving EX takes along.\<close>

definition mem_enter :: "pl \<Rightarrow> mem_reg" where
  "mem_enter x =
     (let e = pl_ex x; f = ex_fields e; c = ex_ctl e; ok = (ex_trap x = None);
          sc_miss = (ct_sc c \<and> ok \<and> \<not> ex_sc_hit x) in
      \<lparr>me_valid = True, me_pc = ex_pc e, me_instr = ex_instr e,
       me_alu_y = (if ct_load c \<or> ct_store c \<or> ct_atomic c then ls_addr x else ex_arith_wb x),
       me_has_result = sc_miss \<or> (ct_rd_wen c \<and> \<not> ct_load c \<and> \<not> ct_csr c \<and> \<not> ct_lr c \<and> \<not> ct_sc c \<and> \<not> ct_amo_rmw c \<and> ok),
       me_result = (if sc_miss then 1 else ex_arith_wb x),
       me_store_wdata = fst (ex_store_lanes x), me_store_wmask = snd (ex_store_lanes x), me_funct3 = fi_funct3 f, me_rd = fi_rd f,
       me_rd_wen = ct_rd_wen c \<and> ok, me_is_load = ct_load c \<and> ok, me_is_store = ct_store c \<and> ok, me_is_csr = ct_csr c \<and> ok,
       me_is_mret = ct_mret c \<and> ok, me_is_sret = ct_sret c \<and> ok, me_is_serial = ct_serial c, me_is_lr = ct_lr c \<and> ok,
       me_is_sc = ct_sc c \<and> ok, me_is_amo_rmw = ct_amo_rmw c \<and> ok, me_amo_funct5 = fi_amo_funct5 f, me_amo_rs2 = ex_rs2 x,
       me_amo_phase = False, me_csr_addr = fi_csr_addr f,
       me_csr_wdata = (if bit (fi_funct3 f) 2 then ucast (fi_rs1 f) else ex_rs1 x), me_csr_op = fi_funct3 f, me_csr_rs1imm = fi_rs1 f,
       me_sfence_rs1 = ex_rs1 x, me_sfence_rs2 = ex_rs2 x,
       me_trap = \<not> ok, me_cause = (case ex_trap x of Some (k, _) \<Rightarrow> k | None \<Rightarrow> 0), me_tval = (case ex_trap x of Some (_, t) \<Rightarrow> t | None \<Rightarrow> 0),
       me_ls_pending = ok \<and> (ct_load c \<or> ct_store c \<or> ct_lr c \<or> ct_amo_rmw c \<or> (ct_sc c \<and> ex_sc_hit x))\<rparr>)"

definition mem_next :: "mc_in \<Rightarrow> pl \<Rightarrow> mem_reg" where
  "mem_next i x =
     (let m = pl_mem x;
          n = (if stall_mem x
               then (if me_valid m \<and> me_ls_pending m \<and> ni_dm_rsp i
                     then (if me_is_amo_rmw m \<and> \<not> me_amo_phase m \<and> \<not> ni_dm_fault i then m\<lparr>me_amo_phase := True\<rparr>
                           else m\<lparr>me_ls_pending := False\<rparr>)
                     else m)
               else if stall_ex x \<or> \<not> ex_valid (pl_ex x) then mem_bubble m
               else mem_enter x) in
      if wb_redirect x then mem_bubble n else n)"

section \<open>MEM: the data port\<close>

definition amo_store_data :: "pl \<Rightarrow> u32" where
  "amo_store_data x =
     (let f = me_amo_funct5 (pl_mem x); old = ml_amo_old (pl_latch x); v = me_amo_rs2 (pl_mem x) in
      if f = 0x01 then v
      else if f = 0x00 then old + v
      else if f = 0x04 then old XOR v
      else if f = 0x0C then old AND v
      else if f = 0x08 then old OR v
      else if f = 0x10 then (if sint old < sint v then old else v)
      else if f = 0x14 then (if sint old < sint v then v else old)
      else if f = 0x18 then (if old < v then old else v)
      else if f = 0x1C then (if old < v then v else old)
      else v)"

definition mem_store_beat :: "pl \<Rightarrow> bool" where
  "mem_store_beat x = (me_is_amo_rmw (pl_mem x) \<and> me_amo_phase (pl_mem x))"

definition mem_store_op :: "pl \<Rightarrow> bool" where
  "mem_store_op x = (me_is_store (pl_mem x) \<or> me_is_sc (pl_mem x) \<or> mem_store_beat x)"

definition mem_bus_op :: "pl \<Rightarrow> bool" where
  "mem_bus_op x = (me_is_load (pl_mem x) \<or> me_is_store (pl_mem x) \<or> me_is_lr (pl_mem x) \<or> me_is_sc (pl_mem x) \<or>
     me_is_amo_rmw (pl_mem x))"

definition pl_dm :: "pl \<Rightarrow> bus_req" where
  "pl_dm x =
     (let m = pl_mem x; f = me_funct3 m in
      \<lparr>rq_valid = me_valid m \<and> mem_bus_op x \<and> me_ls_pending m \<and> \<not> ml_req_fired (pl_latch x),
       rq_addr = word_cat (fld 2 (me_alu_y m) :: 30 word) (0 :: 2 word), rq_wen = mem_store_op x,
       rq_wdata = (if mem_store_beat x then amo_store_data x else me_store_wdata m),
       rq_wmask = (if mem_store_op x then (if me_is_store m \<and> \<not> me_is_sc m then me_store_wmask m else 15)
                   else if f = 0 \<or> f = 4 then 1 else if f = 1 \<or> f = 5 then 3 else 15)\<rparr>)"

definition pl_dm_size :: "pl \<Rightarrow> 2 word" where
  "pl_dm_size x =
     (let m = pl_mem x; f = me_funct3 m in
      if me_is_lr m \<or> me_is_sc m \<or> me_is_amo_rmw m then 2 else if f = 0 \<or> f = 4 then 0 else if f = 1 \<or> f = 5 then 1 else 2)"

text \<open>A response for the access in MEM.\<close>

definition mem_rsp :: "mc_in \<Rightarrow> pl \<Rightarrow> bool" where
  "mem_rsp i x = (me_valid (pl_mem x) \<and> me_ls_pending (pl_mem x) \<and> ni_dm_rsp i)"

definition latch_next :: "mc_in \<Rightarrow> pl \<Rightarrow> mem_latch" where
  "latch_next i x =
     (let l = pl_latch x; m = pl_mem x; rsp = mem_rsp i x; old = me_is_amo_rmw m \<and> \<not> me_amo_phase m;
          clear = (\<not> stall_mem x \<and> me_valid m \<and> mem_bus_op x) \<or> wb_redirect x in
      \<lparr>ml_req_fired = (if rsp \<or> wb_redirect x then False else if rq_valid (pl_dm x) \<and> ni_dm_ready i then True else ml_req_fired l),
       ml_bus_fault = (if clear then False else if rsp then ni_dm_fault i else ml_bus_fault l),
       ml_bus_pagefault = (if clear then False else if rsp then ni_dm_pagefault i else ml_bus_pagefault l),
       ml_load_data = (if clear then 0
                       else if rsp \<and> \<not> old
                       then (if me_is_lr m then ni_dm_rdata i else load_result (me_funct3 m) (me_alu_y m) (ni_dm_rdata i))
                       else ml_load_data l),
       ml_amo_old = (if clear then 0 else if rsp \<and> old then ni_dm_rdata i else ml_amo_old l)\<rparr>)"

text \<open>The reservation: validity and address.\<close>

definition resv_next :: "mc_in \<Rightarrow> pl \<Rightarrow> bool \<times> 30 word" where
  "resv_next i x =
     (let m = pl_mem x; arm = mem_rsp i x \<and> me_is_lr m \<and> \<not> ni_dm_fault i;
          clear = (\<not> stall_mem x \<and> me_valid m \<and> (me_is_sc m \<or> me_is_amo_rmw m)) \<or> wb_redirect x in
      (if clear then False else if arm then True else pl_resv_valid x, if arm then fld 2 (me_alu_y m) else pl_resv_addr x))"

section \<open>MEM to WB\<close>

definition wb_bus_cause :: "pl \<Rightarrow> u32" where
  "wb_bus_cause x =
     (let m = pl_mem x; st = me_is_store m \<or> me_is_sc m \<or> me_is_amo_rmw m in
      if ml_bus_pagefault (pl_latch x) then (if st then CAUSE_STORE_PAGE_FAULT else CAUSE_LOAD_PAGE_FAULT)
      else (if st then CAUSE_STORE_ACCESS_FAULT else CAUSE_LOAD_ACCESS_FAULT))"

definition wb_next :: "pl \<Rightarrow> wb_reg" where
  "wb_next x =
     (let m = pl_mem x; l = pl_latch x; go = me_valid m \<and> \<not> stall_mem x; keep = go \<and> \<not> wb_redirect x;
          bus = mem_bus_op x \<and> \<not> me_has_result m; flt = bus \<and> (ml_bus_pagefault l \<or> ml_bus_fault l) in
      \<lparr>wb_valid = keep, wb_pc = me_pc m, wb_instr = me_instr m, wb_rd = me_rd m,
       wb_rd_wen = keep \<and>
         (if flt then False
          else if bus then (if me_is_lr m \<or> me_is_sc m \<or> me_is_amo_rmw m then me_rd_wen m else me_is_load m \<and> me_rd_wen m)
          else me_rd_wen m),
       wb_result =
         (if \<not> go \<or> flt then 0
          else if bus
          then (if me_is_lr m then ml_load_data l else if me_is_sc m then 0 else if me_is_amo_rmw m then ml_amo_old l
                else ml_load_data l)
          else me_result m),
       wb_trap = keep \<and> (if flt then True else if bus then False else me_trap m),
       wb_cause = (if go \<and> flt then wb_bus_cause x else me_cause m),
       wb_tval = (if go \<and> flt then me_alu_y m else me_tval m),
       wb_is_mret = keep \<and> \<not> bus \<and> me_is_mret m \<and> \<not> me_trap m, wb_is_sret = keep \<and> \<not> bus \<and> me_is_sret m \<and> \<not> me_trap m,
       wb_is_csr = keep \<and> \<not> bus \<and> me_is_csr m \<and> \<not> me_trap m, wb_is_serial = keep \<and> me_is_serial m,
       wb_csr_addr = me_csr_addr m, wb_csr_wdata = me_csr_wdata m, wb_csr_op = me_csr_op m, wb_csr_rs1imm = me_csr_rs1imm m,
       wb_sfence_rs1 = me_sfence_rs1 m, wb_sfence_rs2 = me_sfence_rs2 m\<rparr>)"

definition trap_pending_next :: "pl \<Rightarrow> bool" where
  "trap_pending_next x = (\<not> wb_redirect x \<and> (pl_trap_pending x \<or> (ex_trap x \<noteq> None \<and> \<not> stall_ex x)))"

section \<open>The clock edge\<close>

definition id_reset :: id_reg where
  "id_reset = \<lparr>id_valid = False, id_pc = 0, id_instr = 0x13, id_fault = False, id_pagefault = False, id_irq = False,
     id_irq_cause = 0\<rparr>"

definition ex_reset :: ex_reg where
  "ex_reset = \<lparr>ex_valid = False, ex_pc = 0, ex_instr = 0x13, ex_rs1_data = 0, ex_rs2_data = 0,
     ex_fields = \<lparr>fi_imm = 0, fi_alu_op = 0, fi_a_sel = 0, fi_b_sel = 0, fi_rd = 0, fi_rs1 = 0, fi_rs2 = 0, fi_funct3 = 0,
       fi_csr_addr = 0, fi_amo_funct5 = 0\<rparr>,
     ex_ctl = no_ctl, ex_fetch_fault = False, ex_fetch_pagefault = False, ex_illegal = False, ex_irq = False,
     ex_irq_cause = 0\<rparr>"

definition mem_reset :: mem_reg where
  "mem_reset = \<lparr>me_valid = False, me_pc = 0, me_instr = 0x13, me_alu_y = 0, me_has_result = False, me_result = 0,
     me_store_wdata = 0, me_store_wmask = 0, me_funct3 = 0, me_rd = 0, me_rd_wen = False, me_is_load = False,
     me_is_store = False, me_is_csr = False, me_is_mret = False, me_is_sret = False, me_is_serial = False, me_is_lr = False,
     me_is_sc = False, me_is_amo_rmw = False, me_amo_funct5 = 0, me_amo_rs2 = 0, me_amo_phase = False, me_csr_addr = 0,
     me_csr_wdata = 0, me_csr_op = 0, me_csr_rs1imm = 0, me_sfence_rs1 = 0, me_sfence_rs2 = 0, me_trap = False, me_cause = 0,
     me_tval = 0, me_ls_pending = False\<rparr>"

definition wb_reset :: wb_reg where
  "wb_reset = \<lparr>wb_valid = False, wb_pc = 0, wb_instr = 0x13, wb_rd = 0, wb_rd_wen = False, wb_result = 0, wb_trap = False,
     wb_cause = 0, wb_tval = 0, wb_is_mret = False, wb_is_sret = False, wb_is_csr = False, wb_is_serial = False, wb_csr_addr = 0,
     wb_csr_wdata = 0, wb_csr_op = 0, wb_csr_rs1imm = 0, wb_sfence_rs1 = 0, wb_sfence_rs2 = 0\<rparr>"

definition pl_step :: "u32 \<Rightarrow> bool \<Rightarrow> mc_in \<Rightarrow> pl \<Rightarrow> pl" where
  "pl_step RESET_PC rst i x =
     \<lparr>pl_pc = (if rst then RESET_PC else pc_next i x),
      pl_if_inflight = (if rst then False else inflight_next i x),
      pl_if_pc = (if rst then 0 else if if_fire i x then pl_pc x else pl_if_pc x),
      pl_squash = (if rst then False else squash_next i x),
      pl_id = (if rst then id_reset else id_next i x),
      pl_ex = (if rst then ex_reset else ex_next i x),
      pl_mem = (if rst then mem_reset else mem_next i x),
      pl_latch = (if rst then \<lparr>ml_req_fired = False, ml_bus_fault = False, ml_bus_pagefault = False, ml_load_data = 0, ml_amo_old = 0\<rparr>
                  else latch_next i x),
      pl_wb = (if rst then wb_reset else wb_next x),
      pl_div_started = (if rst then False else div_started_next x),
      pl_div_done = (if rst then False else div_done_next x),
      pl_div_result = (if rst then 0 else div_result_next x),
      pl_trap_pending = (if rst then False else trap_pending_next x),
      pl_resv_valid = (if rst then False else fst (resv_next i x)),
      pl_resv_addr = (if rst then 0 else snd (resv_next i x)),
      pl_rf = rf_step (rf_wen x) (wb_rd (pl_wb x)) (wb_rd_data i x) (pl_rf x),
      pl_csr = csr_step rst (wb_csr_port i x) (pl_csr x),
      pl_div = div_step rst (ex_div_input x) (pl_div x)\<rparr>"

text \<open>The fence ports.\<close>

definition pl_icache_invalidate :: "pl \<Rightarrow> bool" where "pl_icache_invalidate x = wb_fence_i x"

definition pl_sfence :: "pl \<Rightarrow> bool \<times> bool \<times> u32 \<times> bool \<times> 9 word" where
  "pl_sfence x =
     (wb_sfence x, rs1_i (wb_instr (pl_wb x)) \<noteq> 0, wb_sfence_rs1 (pl_wb x), rs2_i (wb_instr (pl_wb x)) \<noteq> 0,
      fld 0 (wb_sfence_rs2 (pl_wb x)))"

end
