(* ===== verification/Pipe_Isa.thy ===== *)
theory Pipe_Isa
  imports Core_Isa Pipe_Core
begin

text \<open>
  The RV32IMA meaning of an instruction in terms of the datapath functions the cores share: \<open>dp_act\<close> is what
  an instruction with its operands does on the data port and what it retires with.
\<close>

unbundle bit_operations_syntax

section \<open>Meaning by datapath functions\<close>

text \<open>What an instruction depends on, with the CSR file as the decoder sees it; \<open>v\<close> is the value of the CSR.\<close>

definition hart_ctx :: "u32 \<Rightarrow> u32 \<Rightarrow> regs \<Rightarrow> 30 word option \<Rightarrow> csrs \<Rightarrow> u32 \<Rightarrow> ctx" where
  "hart_ctx w pc R rv c v =
     \<lparr>cx_pc = pc, cx_reg = rf_read R, cx_resv = rv, cx_priv = priv_mode c, cx_tvm = bit (mstatus c) 20,
      cx_tsr = bit (mstatus c) 22, cx_mepc = mepc c, cx_sepc = sepc c, cx_csr_ok = (\<not> id_csr_illegal w c), cx_csr_val = v\<rparr>"

lemma hart_sel:
  "cx_pc (hart_ctx w pc R rv c v) = pc" "cx_reg (hart_ctx w pc R rv c v) = rf_read R" "cx_resv (hart_ctx w pc R rv c v) = rv"
  "cx_priv (hart_ctx w pc R rv c v) = priv_mode c" "cx_tvm (hart_ctx w pc R rv c v) = bit (mstatus c) 20"
  "cx_tsr (hart_ctx w pc R rv c v) = bit (mstatus c) 22" "cx_mepc (hart_ctx w pc R rv c v) = mepc c"
  "cx_sepc (hart_ctx w pc R rv c v) = sepc c" "cx_csr_ok (hart_ctx w pc R rv c v) = (\<not> id_csr_illegal w c)"
  "cx_csr_val (hart_ctx w pc R rv c v) = v"
  by (simp_all add: hart_ctx_def)

definition writes_rd :: "u32 \<Rightarrow> bool" where
  "writes_rd w = (is_lui w \<or> is_auipc w \<or> is_jal w \<or> is_jalr w \<or> is_load w \<or> is_op_imm w \<or> is_op w \<or> is_csr w \<or>
     is_lr w \<or> is_sc w \<or> is_amo_rmw w)"

definition dp_trap :: "u32 \<Rightarrow> u32 \<Rightarrow> regs \<Rightarrow> csrs \<Rightarrow> (u32 \<times> u32) option" where
  "dp_trap w pc R c = exec_trap w pc (rf_read R (rs1_i w)) (rf_read R (rs2_i w)) c (id_csr_illegal w c)"

definition dp_npc :: "u32 \<Rightarrow> u32 \<Rightarrow> regs \<Rightarrow> csrs \<Rightarrow> u32" where
  "dp_npc w pc R c =
     (if is_mret w then mepc c else if is_sret w then sepc c
      else next_pc w pc (rf_read R (rs1_i w)) (rf_read R (rs2_i w)))"

definition dp_quot :: "u32 \<Rightarrow> regs \<Rightarrow> u32" where
  "dp_quot w R = rv_div (\<not> bit (funct3 w) 0) (bit (funct3 w) 1) (rf_read R (rs1_i w)) (rf_read R (rs2_i w))"

definition dp_val :: "u32 \<Rightarrow> u32 \<Rightarrow> regs \<Rightarrow> u32 \<Rightarrow> u32" where
  "dp_val w pc R v =
     (if is_csr w then v else if is_div_variant w then dp_quot w R
      else arith_wb w pc (rf_read R (rs1_i w)) (rf_read R (rs2_i w)) 0)"

definition dp_addr :: "u32 \<Rightarrow> u32 \<Rightarrow> regs \<Rightarrow> u32" where
  "dp_addr w pc R = alu_y w pc (rf_read R (rs1_i w)) (rf_read R (rs2_i w))"

text \<open>The wait for the answer of a memory instruction; \<open>old\<close> is the word an atomic operation has read before.\<close>

definition dp_wait :: "u32 \<Rightarrow> u32 \<Rightarrow> u32 \<Rightarrow> u32 \<Rightarrow> 30 word option \<Rightarrow> u32 option \<Rightarrow> act" where
  "dp_wait w pc a r2 rv old =
     (if is_load w then Await False a (\<lambda>d. Retire (Some (rd_i w, load_result (funct3 w) a d)) (pc + 4) rv)
      else if is_store w then Await True a (\<lambda>_. Retire None (pc + 4) rv)
      else if is_lr w then Await False a (\<lambda>d. Retire (Some (rd_i w, d)) (pc + 4) (Some (fld 2 a)))
      else if is_sc w then Await True a (\<lambda>_. Retire (Some (rd_i w, 0)) (pc + 4) None)
      else case old of
          None \<Rightarrow> Await True a (\<lambda>d. Access (Wr (word_addr a) (\<lambda>_. amo_result w d r2))
                    (Await True a (\<lambda>_. Retire (Some (rd_i w, d)) (pc + 4) None)))
        | Some d \<Rightarrow> Await True a (\<lambda>_. Retire (Some (rd_i w, d)) (pc + 4) None))"

definition dp_access :: "u32 \<Rightarrow> u32 \<Rightarrow> u32 \<Rightarrow> u32 \<Rightarrow> 30 word option \<Rightarrow> u32 option \<Rightarrow> act" where
  "dp_access w pc a r2 rv old =
     Access
       (if is_store w then Wr (word_addr a) (\<lambda>d. apply_wmask d (fst (store_lanes w a r2)) (snd (store_lanes w a r2)))
        else if is_sc w then Wr (word_addr a) (\<lambda>_. r2)
        else case old of None \<Rightarrow> Rd (word_addr a) | Some d \<Rightarrow> Wr (word_addr a) (\<lambda>_. amo_result w d r2))
       (dp_wait w pc a r2 rv old)"

definition mem_insn :: "u32 \<Rightarrow> bool" where
  "mem_insn w = (is_load w \<or> is_store w \<or> is_lr w \<or> is_sc w \<or> is_amo_rmw w)"

definition dp_act :: "u32 \<Rightarrow> u32 \<Rightarrow> regs \<Rightarrow> 30 word option \<Rightarrow> csrs \<Rightarrow> u32 \<Rightarrow> act" where
  "dp_act w pc R rv c v =
     (case dp_trap w pc R c of
        Some (k, t) \<Rightarrow> Raise k t
      | None \<Rightarrow>
          if is_sc w \<and> rv \<noteq> Some (fld 2 (dp_addr w pc R)) then Retire (Some (rd_i w, 1)) (pc + 4) None
          else if mem_insn w then dp_access w pc (dp_addr w pc R) (rf_read R (rs2_i w)) rv None
          else Retire (if writes_rd w then Some (rd_i w, dp_val w pc R v) else None) (dp_npc w pc R c) rv)"

section \<open>The classes of instructions\<close>

lemmas dpt = dp_trap_def exec_trap_def illegal_opcode_def target_misaligned_def class_defs
lemmas dpv = dp_act_def dp_val_def dp_npc_def next_pc_def arith_wb_def writes_rd_def alu_y_def alu_sel_def class_defs mem_insn_def
  alu_add ALU_ADD_def ALU_COPY_B_def
lemmas dpd = isa_act_def rv_decode_def retire_def illegal_def hart_sel

lemma dp_lui:
  assumes "opcode w = 0x37 \<or> opcode w = 0x17"
  shows "isa_act w (hart_ctx w pc R rv c v) = dp_act w pc R rv c v"
proof -
  have "dp_trap w pc R c = None" using assms by (elim disjE) (simp_all add: dpt)
  then show ?thesis using assms by (elim disjE) (simp_all add: dpd dpv)
qed

lemma dp_jumps:
  assumes "opcode w = 0x6F \<or> opcode w = 0x67" "\<not> reserved w"
  shows "isa_act w (hart_ctx w pc R rv c v) = dp_act w pc R rv c v"
proof -
  let ?r1 = "rf_read R (rs1_i w)"
  let ?t = "if opcode w = 0x6F then jal_target w pc else jalr_target w ?r1"
  have j: "jalr_target w ?r1 = put_bit 0 False (?r1 + imm_i w)"
    by (rule bit_word_eqI) (auto simp: jalr_target_def bit_put_bit bit_and_iff bit_not_iff bit_1_iff)
  have a: "isa_act w (hart_ctx w pc R rv c v) = jump (Some (rd_i w, pc + 4)) ?t (hart_ctx w pc R rv c v)"
    using assms by (elim disjE) (simp_all add: dpd reserved_def jal_target_def j)
  show ?thesis
  proof (cases "low2 ?t = 0")
    case True
    then have "dp_trap w pc R c = None" using assms(1) by (elim disjE) (simp_all add: dpt)
    then show ?thesis using True assms(1) unfolding a jump_def
      by (elim disjE) (simp_all add: low2_zero dpv hart_sel)
  next
    case False
    then have "dp_trap w pc R c = Some (0, ?t)"
      using assms(1) by (elim disjE) (simp_all add: dpt CAUSE_INSN_ADDR_MISALIGNED_def)
    then show ?thesis using False unfolding a jump_def by (simp add: low2_zero dp_act_def)
  qed
qed

lemma dp_branch:
  assumes "opcode w = 0x63" "\<not> reserved w"
  shows "isa_act w (hart_ctx w pc R rv c v) = dp_act w pc R rv c v"
proof -
  let ?t = "branch_target w pc" let ?b = "branch_taken w (rf_read R (rs1_i w)) (rf_read R (rs2_i w))"
  let ?c = "hart_ctx w pc R rv c v"
  obtain k where k: "dec_branch (funct3 w) = Some k" using assms by (auto simp: reserved_def)
  have a: "isa_act w ?c = (if ?b then jump None ?t ?c else retire None ?c)"
    using assms(1) by (simp add: dpd k branch_cond[OF k] branch_target_def)
  show ?thesis
  proof (cases "?b \<and> low2 ?t \<noteq> 0")
    case False
    then have "dp_trap w pc R c = None" using assms(1) by (auto simp: dpt)
    then show ?thesis using False assms(1) unfolding a jump_def retire_def
      by (auto simp: low2_zero dpv hart_sel)
  next
    case True
    then have "dp_trap w pc R c = Some (0, ?t)" using assms(1) by (simp add: dpt CAUSE_INSN_ADDR_MISALIGNED_def)
    then show ?thesis using True unfolding a jump_def by (simp add: low2_zero dp_act_def)
  qed
qed

lemma dp_arith:
  assumes "opcode w = 0x13 \<or> opcode w = 0x33 \<and> funct7 w \<noteq> 1"
  shows "isa_act w (hart_ctx w pc R rv c v) = dp_act w pc R rv c v"
proof -
  let ?k = "if opcode w = 0x13 then dec_arith_imm (funct7 w) (funct3 w) else dec_arith (funct7 w, funct3 w)"
  note f = three_cases[of "funct3 w"]
  have imm: "(dec_arith_imm (funct7 w) (funct3 w) = None) \<longleftrightarrow>
      funct3 w = 1 \<and> funct7 w \<noteq> 0 \<or> funct3 w = 5 \<and> funct7 w \<noteq> 0 \<and> funct7 w \<noteq> 0x20"
    using f by (elim disjE) (auto simp: dec_arith_imm_def dec_arith_def)
  show ?thesis
  proof (cases ?k)
    case None
    have "dp_trap w pc R c = Some (2, w)"
      using None assms imm op_legal_dec[of "funct7 w" "funct3 w"] by (auto simp: dpt CAUSE_ILLEGAL_INSN_def split: if_splits)
    moreover have "isa_act w (hart_ctx w pc R rv c v) = Raise 2 w"
      using None assms by (auto simp: dpd split: if_splits)
    ultimately show ?thesis by (simp add: dp_act_def)
  next
    case (Some k)
    then have t: "dp_trap w pc R c = None"
      using assms imm op_legal_dec[of "funct7 w" "funct3 w"] by (auto simp: dpt split: if_splits)
    show ?thesis using assms
    proof
      assume op: "opcode w = 0x13"
      then have "dec_arith_imm (funct7 w) (funct3 w) = Some k" using Some by simp
      from alu_arith_imm[OF this, of "rf_read R (rs1_i w)" "imm_i w"] show ?thesis
        using op Some t by (simp add: dpd dpv)
    next
      assume op: "opcode w = 0x33 \<and> funct7 w \<noteq> 1"
      then have "dec_arith (funct7 w, funct3 w) = Some k" using Some by simp
      from alu_arith[OF this, of "rf_read R (rs1_i w)" "rf_read R (rs2_i w)"] show ?thesis
        using op Some t by (simp add: dpd dpv Let_def)
    qed
  qed
qed

lemma dp_muldiv:
  assumes "opcode w = 0x33" "funct7 w = 1"
  shows "isa_act w (hart_ctx w pc R rv c v) =
    (if is_div_variant w then Compute (dp_act w pc R rv c v) else dp_act w pc R rv c v)"
proof -
  have t: "dp_trap w pc R c = None" using assms by (simp add: dpt op_legal_def)
  show ?thesis
  proof (cases "bit (funct3 w) 2")
    case False
    then obtain k where k: "dec_mul (funct3 w) = Some k" using muldiv_dec(1)[of "funct3 w"] by auto
    show ?thesis using t assms False k mul_meaning[OF k] by (simp add: dpd dpv)
  next
    case True
    then obtain k where k: "dec_div (funct3 w) = Some k" using muldiv_dec(2)[of "funct3 w"] by auto
    have "dec_mul (funct3 w) = None" using True muldiv_dec(1)[of "funct3 w"] by auto
    then show ?thesis using t assms True k by (simp add: dpd dpv dp_quot_def div_meaning[OF k, simplified])
  qed
qed


lemma dp_addr_of:
  "is_load w \<Longrightarrow> dp_addr w pc R = rf_read R (rs1_i w) + imm_i w"
  "is_store w \<Longrightarrow> dp_addr w pc R = rf_read R (rs1_i w) + imm_s w"
  "is_amo w \<Longrightarrow> dp_addr w pc R = rf_read R (rs1_i w)"
  by (simp_all add: dp_addr_def alu_y_def alu_sel_def class_defs ALU_ADD_def alu_add)

lemma dp_load:
  assumes "opcode w = 0x03" "\<not> reserved w"
  shows "isa_act w (hart_ctx w pc R rv c v) = dp_act w pc R rv c v"
proof -
  let ?a = "dp_addr w pc R"
  obtain s sx where k: "dec_load (funct3 w) = Some (s, sx)" using assms by (auto simp: reserved_def)
  have l: "is_load w" using assms(1) by (simp add: class_defs)
  have a: "isa_act w (hart_ctx w pc R rv c v) = rv_load ?a s sx (rd_i w) (hart_ctx w pc R rv c v)"
    using assms(1) k by (simp add: dpd dp_addr_of(1)[OF l])
  have t: "dp_trap w pc R c = (if misaligned s ?a then Some (4, ?a) else None)"
    using assms(1) ls_aligned_load[OF k, of ?a] by (simp add: dpt CAUSE_LOAD_ADDR_MISALIGNED_def dp_addr_def)
  show ?thesis
  proof (cases "misaligned s ?a")
    case True
    then show ?thesis using t by (simp add: a rv_load_def dp_act_def)
  next
    case False
    have "\<not> is_sc w" "\<not> is_store w" using assms(1) by (simp_all add: class_defs)
    then show ?thesis using False t l
      by (simp add: a rv_load_def dp_act_def dp_access_def dp_wait_def load_meaning[OF k False] retire_def hart_sel
          mem_insn_def)
  qed
qed

lemma dp_store:
  assumes "opcode w = 0x23" "\<not> reserved w"
  shows "isa_act w (hart_ctx w pc R rv c v) = dp_act w pc R rv c v"
proof -
  let ?a = "dp_addr w pc R"
  obtain s where k: "dec_store (funct3 w) = Some s" using assms by (auto simp: reserved_def)
  have l: "is_store w" using assms(1) by (simp add: class_defs)
  have a: "isa_act w (hart_ctx w pc R rv c v) = rv_store ?a s (rf_read R (rs2_i w)) (hart_ctx w pc R rv c v)"
    using assms(1) k by (simp add: dpd dp_addr_of(2)[OF l])
  have t: "dp_trap w pc R c = (if misaligned s ?a then Some (6, ?a) else None)"
    using assms(1) ls_aligned_store[OF k, of ?a] by (simp add: dpt CAUSE_STORE_ADDR_MISALIGNED_def dp_addr_def)
  show ?thesis
  proof (cases "misaligned s ?a")
    case True
    then show ?thesis using t by (simp add: a rv_store_def dp_act_def)
  next
    case False
    have n: "\<not> is_sc w" "\<not> is_load w" using assms(1) by (simp_all add: class_defs)
    have m: "(\<lambda>d. apply_wmask d (fst (store_lanes w ?a v)) (snd (store_lanes w ?a v))) = write_part s ?a v" for v
      using store_meaning[OF k False, of v] by (intro ext) simp
    show ?thesis using False t l n
      by (simp add: a rv_store_def dp_act_def dp_access_def dp_wait_def m retire_def hart_sel mem_insn_def)
  qed
qed

lemma dp_amo_trap:
  assumes "is_lr w \<or> is_sc w \<or> is_amo_rmw w"
  shows "dp_trap w pc R c = (if misaligned WRD (dp_addr w pc R) then Some (if is_lr w then 4 else 6, dp_addr w pc R) else None)"
proof -
  have amo: "is_amo w" "opcode w = 0x2F" using assms by (auto simp: is_lr_def is_sc_def is_amo_rmw_def is_amo_def OP_AMO_def)
  have nt: "target_misaligned w p a b = None" for p a b
    using amo(2) by (simp add: target_misaligned_def class_defs)
  have f: "funct3 w = 2" "\<not> is_ecall w" "\<not> is_ebreak w" "\<not> is_csr w" "\<not> is_load w" "\<not> is_store w" "\<not> is_op_imm w"
    "\<not> is_op w" "\<not> is_system w"
    using amo by (simp_all add: class_defs)
  have il: "\<not> illegal_opcode w p a b" for p a b
    using assms amo f by (auto simp: illegal_opcode_def opcodes)
  show ?thesis
    using assms amo_aligned[OF amo(1), of "dp_addr w pc R"] f il
    by (auto simp: dp_trap_def exec_trap_def nt dp_addr_def[symmetric] CAUSE_LOAD_ADDR_MISALIGNED_def
        CAUSE_STORE_ADDR_MISALIGNED_def)
qed

lemma dp_amo:
  assumes "opcode w = 0x2F"
  shows "isa_act w (hart_ctx w pc R rv c v) = dp_act w pc R rv c v"
proof -
  let ?a = "dp_addr w pc R" let ?c = "hart_ctx w pc R rv c v"
  have n: "\<not> is_csr w" "\<not> is_load w" "\<not> is_store w" using assms by (simp_all add: class_defs)
  show ?thesis
  proof (cases "is_lr w \<or> is_sc w \<or> is_amo_rmw w")
    case False
    then have "dp_trap w pc R c = Some (2, w)"
      using assms by (simp add: dp_trap_def exec_trap_def illegal_opcode_def CAUSE_ILLEGAL_INSN_def is_ecall_def
          is_ebreak_def is_priv_def is_system_def opcodes)
    then show ?thesis using False assms by (simp add: amo_acts(4) dp_act_def)
  next
    case True
    then have amo: "is_amo w" by (auto simp: is_lr_def is_sc_def is_amo_rmw_def)
    have a: "rf_read R (rs1_i w) = ?a" using dp_addr_of(3)[OF amo] by simp
    note t = dp_amo_trap[OF True, of pc R c]
    consider "is_lr w" "\<not> is_sc w" "\<not> is_amo_rmw w" | "is_sc w" "\<not> is_lr w" "\<not> is_amo_rmw w"
      | k where "is_amo_rmw w" "\<not> is_lr w" "\<not> is_sc w" "dec_amo (amo_funct5 w) = Some k"
      using True amo_dec[of w] by (auto simp: is_lr_def is_sc_def is_amo_rmw_def)
    then show ?thesis
    proof cases
      case 1
      then show ?thesis using t n a
        by (simp add: amo_acts(1) rv_lr_def dp_act_def mem_insn_def dp_access_def dp_wait_def retire_def hart_sel)
    next
      case 2
      then show ?thesis using t n a
        by (simp add: amo_acts(2) rv_sc_def dp_act_def mem_insn_def dp_access_def dp_wait_def retire_def hart_sel Let_def)
    next
      case 3
      then show ?thesis using t n a
        by (simp add: amo_acts(3) rv_amo_def dp_act_def mem_insn_def dp_access_def dp_wait_def retire_def hart_sel amo_meaning)
    qed
  qed
qed

lemma dp_fence:
  assumes "opcode w = 0x0F" "\<not> reserved w"
  shows "isa_act w (hart_ctx w pc R rv c v) = dp_act w pc R rv c v"
proof -
  have "dp_trap w pc R c = None" using assms(1) by (simp add: dpt)
  then show ?thesis using assms by (auto simp: dpd dpv reserved_def)
qed

lemma dp_other:
  assumes "opcode w \<notin> {0x37, 0x17, 0x6F, 0x67, 0x63, 0x03, 0x23, 0x13, 0x33, 0x2F, 0x0F, 0x73}"
  shows "isa_act w (hart_ctx w pc R rv c v) = dp_act w pc R rv c v"
proof -
  have "dp_trap w pc R c = Some (2, w)" using assms by (simp add: dpt CAUSE_ILLEGAL_INSN_def)
  then show ?thesis using assms by (simp add: dpd dp_act_def)
qed

lemma dp_csr:
  assumes "opcode w = 0x73" "funct3 w \<noteq> 0" "\<not> reserved w"
  shows "isa_act w (hart_ctx w pc R rv c v) = dp_act w pc R rv c v"
proof -
  have "dp_trap w pc R c = (if id_csr_illegal w c then Some (2, w) else None)"
    using assms(1,2) by (simp add: dpt CAUSE_ILLEGAL_INSN_def)
  then show ?thesis using assms by (auto simp: dpd dpv reserved_def)
qed

lemma dp_priv_trap:
  assumes "opcode w = 0x73" "funct3 w = 0"
  shows "dp_trap w pc R c =
      (if funct12 w = 0 then Some (if priv_mode c = PRV_U then 8 else if priv_mode c = PRV_S then 9 else 11, 0)
       else if funct12 w = 1 then Some (3, 0)
       else if sys_illegal w (priv_mode c) (bit (mstatus c) 20) (bit (mstatus c) 22) then Some (2, w)
       else None)"
proof -
  have n: "\<not> is_load w" "\<not> is_store w" "\<not> is_amo w" "\<not> is_csr w" using assms by (simp_all add: class_defs)
  have nt: "target_misaligned w p a b = None" for p a b
    using assms(1) by (simp add: target_misaligned_def class_defs)
  have ifs: "illegal_opcode w p v s \<longleftrightarrow> sys_illegal w p v s" for p v s
    using assms by (simp add: illegal_opcode_def is_op_imm_def is_op_def is_system_def opcodes)
  show ?thesis
    using n assms by (simp add: dp_trap_def exec_trap_def ifs nt is_ecall_def is_ebreak_def is_priv_def is_system_def
        CAUSE_ECALL_FROM_U_def CAUSE_ECALL_FROM_S_def CAUSE_ECALL_FROM_M_def CAUSE_BREAKPOINT_def CAUSE_ILLEGAL_INSN_def
        OP_SYSTEM_def is_lr_def is_sc_def is_amo_rmw_def)
qed

lemma dp_priv:
  assumes "opcode w = 0x73" "funct3 w = 0" "\<not> reserved w"
  shows "isa_act w (hart_ctx w pc R rv c v) = dp_act w pc R rv c v"
proof -
  let ?p = "priv_mode c" let ?tvm = "bit (mstatus c) 20" let ?tsr = "bit (mstatus c) 22"
  have d: "isa_act w (hart_ctx w pc R rv c v) =
      (case dec_priv w of None \<Rightarrow> illegal w | Some r \<Rightarrow> rv_act w (hart_ctx w pc R rv c v) r)"
    using assms(1,2) by (simp add: isa_act_def rv_decode_def)
  have k: "rd_i w = 0 \<and> rs1_i w = 0 \<or> funct12 w \<noteq> 0 \<and> funct12 w \<noteq> 1" using assms by (auto simp: reserved_def)
  have sf: "is_sfence w \<longleftrightarrow> funct7 w = 9" using assms by (simp add: is_sfence_def is_system_def OP_SYSTEM_def)
  have kinds: "is_mret w \<longleftrightarrow> funct12 w = 0x302" "is_sret w \<longleftrightarrow> funct12 w = 0x102"
    using assms by (simp_all add: is_mret_def is_sret_def is_priv_def is_system_def OP_SYSTEM_def)
  have nn: "\<not> mem_insn w" "\<not> writes_rd w" "\<not> is_sc w" "dp_npc w pc R c = (if is_mret w then mepc c else if is_sret w then sepc c else pc + 4)"
    using assms by (simp_all add: mem_insn_def writes_rd_def class_defs dp_npc_def next_pc_def)
  have act: "dp_act w pc R rv c v = (case dp_trap w pc R c of Some (k, t) \<Rightarrow> Raise k t
      | None \<Rightarrow> Retire None (if is_mret w then mepc c else if is_sret w then sepc c else pc + 4) rv)"
    using nn by (cases "dp_trap w pc R c") (simp_all add: dp_act_def)
  note tr = dp_priv_trap[OF assms(1,2), of pc R c] and no = priv_funct7[of w]
  show ?thesis
  proof (cases "funct12 w \<in> {0x000, 0x001, 0x102, 0x302, 0x105}")
    case True
    note nsf = no[OF True]
    show ?thesis
    proof (cases "rd_i w = 0 \<and> rs1_i w = 0")
      case z: True
      consider "funct12 w = 0" | "funct12 w = 1" | "funct12 w = 0x102" | "funct12 w = 0x302" | "funct12 w = 0x105"
        using True by blast
      then show ?thesis
        by cases (use z nsf sf kinds in \<open>simp_all add: d act tr dec_priv_def hart_sel sys_illegal_def illegal_def retire_def\<close>)
    next
      case z: False
      then have "sys_illegal w ?p ?tvm ?tsr" using nsf sf by (auto simp: sys_illegal_def)
      moreover have "dec_priv w = None" using z nsf by (auto simp: dec_priv_def)
      ultimately show ?thesis using z k by (auto simp: d act tr illegal_def)
    qed
  next
    case False
    then have nz: "funct12 w \<noteq> 0" "funct12 w \<noteq> 1" "funct12 w \<noteq> 0x302" "funct12 w \<noteq> 0x102" by auto
    let ?il = "rd_i w \<noteq> 0 \<or> funct7 w \<noteq> 9 \<or> ?p = PRV_U \<or> (?p = PRV_S \<and> ?tvm)"
    have t: "dp_trap w pc R c = (if ?il then Some (2, w) else None)"
      using False nz sf tr by (auto simp: sys_illegal_def)
    have "isa_act w (hart_ctx w pc R rv c v) = (if ?il then Raise 2 w else Retire None (pc + 4) rv)"
      using False by (auto simp: d dec_priv_def hart_sel retire_def illegal_def)
    then show ?thesis using t nz kinds by (simp add: act)
  qed
qed

text \<open>All of RV32IMA.\<close>

lemma dp_meaning:
  assumes "\<not> reserved w"
  shows "isa_act w (hart_ctx w pc R rv c v) =
    (if is_div_variant w then Compute (dp_act w pc R rv c v) else dp_act w pc R rv c v)"
proof -
  have nd: "opcode w \<noteq> 0x33 \<or> funct7 w \<noteq> 1 \<Longrightarrow> \<not> is_div_variant w" by (auto simp: class_defs)
  consider "opcode w = 0x37 \<or> opcode w = 0x17" | "opcode w = 0x6F \<or> opcode w = 0x67" | "opcode w = 0x63"
    | "opcode w = 0x03" | "opcode w = 0x23" | "opcode w = 0x13 \<or> opcode w = 0x33 \<and> funct7 w \<noteq> 1"
    | "opcode w = 0x33" "funct7 w = 1" | "opcode w = 0x2F" | "opcode w = 0x0F"
    | "opcode w = 0x73" "funct3 w = 0" | "opcode w = 0x73" "funct3 w \<noteq> 0"
    | "opcode w \<notin> {0x37, 0x17, 0x6F, 0x67, 0x63, 0x03, 0x23, 0x13, 0x33, 0x2F, 0x0F, 0x73}"
    by blast
  then show ?thesis
  proof cases
    case 6 then show ?thesis using nd dp_arith by auto
  next
    case 7 then show ?thesis by (rule dp_muldiv)
  qed (use assms in \<open>auto simp: nd dp_lui dp_jumps dp_branch dp_load dp_store dp_amo dp_fence dp_priv dp_csr dp_other\<close>)
qed


section \<open>The execute stage computes the datapath functions\<close>

text \<open>EX holds a decoded instruction whose forwarded operands are those of the registers \<open>R\<close>.\<close>

definition ex_has :: "pl \<Rightarrow> regs \<Rightarrow> bool" where
  "ex_has x R \<longleftrightarrow> (let e = pl_ex x; w = ex_instr e in
     ex_valid e \<and> ex_fields e = id_fields w \<and> ex_ctl e = id_ctl w \<and>
     ex_rs1 x = rf_read R (rs1_i w) \<and> ex_rs2 x = rf_read R (rs2_i w))"

lemma id_fields_sel [simp]:
  "fi_imm (id_fields w) = id_imm w" "fi_alu_op (id_fields w) = fst (id_alu w)" "fi_a_sel (id_fields w) = fst (snd (id_alu w))"
  "fi_b_sel (id_fields w) = snd (snd (id_alu w))" "fi_rd (id_fields w) = rd_i w" "fi_rs1 (id_fields w) = rs1_i w"
  "fi_rs2 (id_fields w) = rs2_i w" "fi_funct3 (id_fields w) = funct3 w" "fi_csr_addr (id_fields w) = funct12 w"
  "fi_amo_funct5 (id_fields w) = amo_funct5 w"
  by (simp_all add: id_fields_def)

lemma id_ctl_sel [simp]:
  "ct_rd_wen (id_ctl w) = id_writes_rd w" "ct_jal (id_ctl w) = is_jal w" "ct_jalr (id_ctl w) = is_jalr w"
  "ct_branch (id_ctl w) = is_branch w" "ct_load (id_ctl w) = is_load w" "ct_store (id_ctl w) = is_store w"
  "ct_csr (id_ctl w) = is_csr w" "ct_ecall (id_ctl w) = is_ecall w" "ct_ebreak (id_ctl w) = is_ebreak w"
  "ct_mret (id_ctl w) = is_mret w" "ct_sret (id_ctl w) = is_sret w" "ct_mul (id_ctl w) = is_mul_variant w"
  "ct_div (id_ctl w) = is_div_variant w" "ct_lr (id_ctl w) = is_lr w" "ct_sc (id_ctl w) = is_sc w"
  "ct_amo_rmw (id_ctl w) = is_amo_rmw w" "ct_serial (id_ctl w) = id_serial w"
  by (simp_all add: id_ctl_def)

lemma no_ctl_sel [simp]:
  "\<not> ct_rd_wen no_ctl" "\<not> ct_jal no_ctl" "\<not> ct_jalr no_ctl" "\<not> ct_branch no_ctl" "\<not> ct_load no_ctl" "\<not> ct_store no_ctl"
  "\<not> ct_csr no_ctl" "\<not> ct_ecall no_ctl" "\<not> ct_ebreak no_ctl" "\<not> ct_mret no_ctl" "\<not> ct_sret no_ctl" "\<not> ct_mul no_ctl"
  "\<not> ct_div no_ctl" "\<not> ct_lr no_ctl" "\<not> ct_sc no_ctl" "\<not> ct_amo_rmw no_ctl" "\<not> ct_serial no_ctl"
  by (simp_all add: no_ctl_def)

lemma id_writes_rd: "id_writes_rd w \<longleftrightarrow> writes_rd w \<and> rd_i w \<noteq> 0"
  by (simp add: id_writes_rd_def writes_rd_def)

lemma amo_classes:
  "is_lr w \<Longrightarrow> is_amo w" "is_sc w \<Longrightarrow> is_amo w" "is_amo_rmw w \<Longrightarrow> is_amo w" "is_lr w \<Longrightarrow> \<not> is_sc w"
  "is_amo_rmw w \<Longrightarrow> \<not> is_lr w \<and> \<not> is_sc w"
  by (auto simp: is_lr_def is_sc_def is_amo_rmw_def)

text \<open>The opcodes separate the classes.\<close>

lemma class_excl:
  "is_load w \<Longrightarrow> \<not> is_store w \<and> \<not> is_amo w \<and> \<not> is_branch w \<and> \<not> is_jal w \<and> \<not> is_jalr w \<and> \<not> is_system w \<and> \<not> is_op w \<and> \<not> is_op_imm w \<and> \<not> is_lui w \<and> \<not> is_auipc w"
  "is_store w \<Longrightarrow> \<not> is_load w \<and> \<not> is_amo w \<and> \<not> is_branch w \<and> \<not> is_jal w \<and> \<not> is_jalr w \<and> \<not> is_system w \<and> \<not> is_op w \<and> \<not> is_op_imm w \<and> \<not> is_lui w \<and> \<not> is_auipc w"
  "is_amo w \<Longrightarrow> \<not> is_load w \<and> \<not> is_store w \<and> \<not> is_branch w \<and> \<not> is_jal w \<and> \<not> is_jalr w \<and> \<not> is_system w \<and> \<not> is_op w \<and> \<not> is_op_imm w \<and> \<not> is_lui w \<and> \<not> is_auipc w"
  "is_branch w \<Longrightarrow> \<not> is_load w \<and> \<not> is_store w \<and> \<not> is_amo w \<and> \<not> is_jal w \<and> \<not> is_jalr w \<and> \<not> is_system w \<and> \<not> is_op w \<and> \<not> is_op_imm w \<and> \<not> is_lui w \<and> \<not> is_auipc w"
  "is_system w \<Longrightarrow> \<not> is_load w \<and> \<not> is_store w \<and> \<not> is_amo w \<and> \<not> is_branch w \<and> \<not> is_jal w \<and> \<not> is_jalr w \<and> \<not> is_op w \<and> \<not> is_op_imm w \<and> \<not> is_lui w \<and> \<not> is_auipc w"
  "is_op w \<Longrightarrow> \<not> is_load w \<and> \<not> is_store w \<and> \<not> is_amo w \<and> \<not> is_branch w \<and> \<not> is_jal w \<and> \<not> is_jalr w \<and> \<not> is_system w \<and> \<not> is_op_imm w \<and> \<not> is_lui w \<and> \<not> is_auipc w"
  "is_jal w \<Longrightarrow> \<not> is_jalr w \<and> \<not> is_lui w \<and> \<not> is_auipc w \<and> \<not> is_op_imm w" "is_jalr w \<Longrightarrow> \<not> is_lui w \<and> \<not> is_auipc w \<and> \<not> is_op_imm w"
  by (auto simp: class_defs)

lemma class_sub:
  "is_csr w \<Longrightarrow> is_system w" "is_priv w k \<Longrightarrow> is_system w" "is_sfence w \<Longrightarrow> is_system w" "is_mret w \<Longrightarrow> is_system w"
  "is_sret w \<Longrightarrow> is_system w" "is_ecall w \<Longrightarrow> is_system w" "is_ebreak w \<Longrightarrow> is_system w"
  "is_div_variant w \<Longrightarrow> is_op w" "is_mul_variant w \<Longrightarrow> is_op w"
  by (auto simp: class_defs)

lemma ex_addr:
  assumes "ex_has x R" "mem_insn (ex_instr (pl_ex x))"
  shows "ls_addr x = dp_addr (ex_instr (pl_ex x)) (ex_pc (pl_ex x)) R"
proof -
  let ?w = "ex_instr (pl_ex x)"
  consider "is_load ?w" | "is_store ?w" | "is_lr ?w \<or> is_sc ?w \<or> is_amo_rmw ?w" using assms(2) by (auto simp: mem_insn_def)
  then show ?thesis
  proof cases
    case 3
    then have "is_amo ?w" by (auto dest: amo_classes)
    then show ?thesis using 3 assms(1) by (simp add: ls_addr_def ct_atomic_def ex_has_def dp_addr_of Let_def)
  next
    case 1
    then have "\<not> is_amo ?w" by (auto dest: class_excl)
    then show ?thesis using 1 assms(1) amo_classes[of ?w] class_excl(1)[OF 1]
      by (auto simp: ls_addr_def ct_atomic_def ex_has_def dp_addr_of Let_def id_imm_def)
  next
    case 2
    then have "\<not> is_amo ?w" by (auto dest: class_excl)
    then show ?thesis using 2 assms(1) amo_classes[of ?w] class_excl(2)[OF 2]
      by (auto simp: ls_addr_def ct_atomic_def ex_has_def dp_addr_of Let_def id_imm_def)
  qed
qed

lemma ex_alu_operands:
  assumes "ex_has x R" and w: "w = ex_instr (pl_ex x)" and "\<not> is_amo w"
  shows "alu (fst (id_alu w)) (ex_alu_a x) (ex_alu_b x) = alu_y w (ex_pc (pl_ex x)) (rf_read R (rs1_i w)) (rf_read R (rs2_i w))"
proof -
  note d = w ex_alu_a_def ex_alu_b_def ex_has_def Let_def id_alu_def alu_y_def alu_sel_def id_imm_def ALU_ADD_def
    ALU_SUB_def ALU_COPY_B_def
  have h: "ex_has x R" and na: "\<not> is_amo (ex_instr (pl_ex x))" using assms by simp_all
  consider "is_lui w" | "is_auipc w" | "is_jal w" | "is_jalr w" | "is_load w" | "is_store w" | "is_branch w" | "is_op_imm w" | "is_op w"
    | "\<not> is_lui w" "\<not> is_auipc w" "\<not> is_jal w" "\<not> is_jalr w" "\<not> is_load w" "\<not> is_store w" "\<not> is_branch w"
      "\<not> is_op_imm w" "\<not> is_op w"
    by blast
  then show ?thesis
    by cases (insert h na, auto simp: d class_defs)
qed

lemma ex_branch:
  assumes "ex_has x R" and w: "w = ex_instr (pl_ex x)" and "is_branch w"
  shows "ex_branch_taken x = branch_taken w (rf_read R (rs1_i w)) (rf_read R (rs2_i w))"
proof -
  have "id_alu w = (1, 0, 0)" using assms(3) class_excl(4)[OF assms(3)] by (simp add: id_alu_def Let_def)
  then show ?thesis using assms(1)
    by (simp add: w ex_branch_taken_def ex_alu_a_def ex_alu_b_def ex_has_def branch_taken_def Let_def)
qed

lemma ex_targets:
  assumes "ex_has x R" and w: "w = ex_instr (pl_ex x)" and pc: "pc = ex_pc (pl_ex x)"
  shows "is_jal w \<Longrightarrow> ex_jal_target x = jal_target w pc"
    "is_jalr w \<Longrightarrow> ex_jalr_target x = jalr_target w (rf_read R (rs1_i w))"
    "is_branch w \<Longrightarrow> ex_branch_target x = branch_target w pc"
  using assms(1) class_excl[of w]
  by (auto simp: w pc ex_has_def Let_def ex_jal_target_def ex_jalr_target_def ex_branch_target_def id_imm_def jal_target_def
      jalr_target_def branch_target_def)

lemma ex_misaligned:
  assumes "ex_has x R" and w: "w = ex_instr (pl_ex x)"
  shows "ex_misaligned_target x = target_misaligned w (ex_pc (pl_ex x)) (rf_read R (rs1_i w)) (rf_read R (rs2_i w))"
proof -
  have c: "ex_valid (pl_ex x)" "ex_ctl (pl_ex x) = id_ctl w" using assms by (simp_all add: ex_has_def Let_def)
  show ?thesis
    using c ex_branch[OF assms] ex_targets[OF assms refl]
    by (simp add: ex_misaligned_target_def target_misaligned_def ex_take_branch_def ex_take_jal_def ex_take_jalr_def cong: conj_cong)
qed

lemma ex_lanes:
  assumes "ex_has x R" and w: "w = ex_instr (pl_ex x)"
  shows "ex_store_lanes x = store_lanes w (ls_addr x) (rf_read R (rs2_i w))"
  using assms by (simp add: ex_store_lanes_def store_lanes_def ex_has_def Let_def)

lemma ex_value:
  assumes "ex_has x R" and w: "w = ex_instr (pl_ex x)" and "\<not> is_csr w" "\<not> is_amo w"
    "is_div_variant w \<Longrightarrow> pl_div_result x = dp_quot w R"
  shows "ex_arith_wb x = dp_val w (ex_pc (pl_ex x)) R v"
proof -
  have c: "ex_ctl (pl_ex x) = id_ctl w" "ex_fields (pl_ex x) = id_fields w" using assms by (simp_all add: ex_has_def Let_def)
  have m: "ex_mul_result x = mul_result w (rf_read R (rs1_i w)) (rf_read R (rs2_i w))"
    using assms(1) by (simp add: ex_mul_result_def mul_result_def ex_has_def w Let_def)
  have "is_mul_variant w \<Longrightarrow> \<not> is_div_variant w" by (simp add: is_mul_variant_def is_div_variant_def)
  then show ?thesis using assms(3,5) c m ex_alu_operands[OF assms(1) w assms(4)]
    by (auto simp: ex_arith_wb_def dp_val_def arith_wb_def Let_def)
qed

text \<open>The decoder's verdict.\<close>

lemma id_illegal_opcode:
  "id_illegal w c \<longleftrightarrow> illegal_opcode w (priv_mode c) (bit (mstatus c) 20) (bit (mstatus c) 22) \<or> (is_csr w \<and> id_csr_illegal w c)"
proof -
  have "is_system w \<and> funct3 w = 0 \<Longrightarrow> (is_mret w \<longleftrightarrow> funct12 w = 0x302) \<and> (is_sret w \<longleftrightarrow> funct12 w = 0x102)"
    by (simp add: class_defs)
  then have "(is_system w \<and> funct3 w = 0 \<and>
      (if is_sfence w then rd_i w \<noteq> 0 \<or> priv_mode c = PRV_U \<or> (priv_mode c = PRV_S \<and> bit (mstatus c) 20)
       else funct12 w \<notin> {0x000, 0x001, 0x302, 0x102, 0x105} \<or> rd_i w \<noteq> 0 \<or> rs1_i w \<noteq> 0 \<or>
         (is_sret w \<and> priv_mode c = PRV_U) \<or> (is_sret w \<and> priv_mode c = PRV_S \<and> bit (mstatus c) 22) \<or>
         (is_mret w \<and> priv_mode c \<noteq> PRV_M))) =
      (is_system w \<and> funct3 w = 0 \<and> sys_illegal w (priv_mode c) (bit (mstatus c) 20) (bit (mstatus c) 22))"
    by (cases "is_sfence w"; simp add: sys_illegal_def cong: conj_cong; blast)
  then show ?thesis unfolding id_illegal_def illegal_opcode_def by (simp only: disj_assoc)
qed

lemma plain_trap_order:
  assumes "\<not> reserved w" "is_ecall w \<or> is_ebreak w"
  shows "\<not> id_illegal w c"
proof -
  have w: "opcode w = 0x73" "funct3 w = 0" "funct12 w = 0 \<or> funct12 w = 1" using assms(2) by (auto simp: class_defs)
  then have "rd_i w = 0" "rs1_i w = 0" using assms(1) by (auto simp: reserved_def)
  moreover have "\<not> is_sfence w" using priv_funct7[of w] w by (auto simp: is_sfence_def)
  ultimately show ?thesis using w
    by (auto simp: id_illegal_opcode illegal_opcode_def sys_illegal_def class_defs)
qed

lemma ex_trap_meaning:
  assumes "ex_has x R" and w: "w = ex_instr (pl_ex x)" and "\<not> reserved w"
    and "\<not> ex_irq (pl_ex x)" "\<not> ex_fetch_pagefault (pl_ex x)" "\<not> ex_fetch_fault (pl_ex x)"
    and "ex_illegal (pl_ex x) = id_illegal w (pl_csr x)"
  shows "ex_trap x = dp_trap w (ex_pc (pl_ex x)) R (pl_csr x)"
proof -
  have c: "ex_valid (pl_ex x)" "ex_ctl (pl_ex x) = id_ctl w" "ex_fields (pl_ex x) = id_fields w"
    using assms by (simp_all add: ex_has_def Let_def)
  let ?a = "dp_addr w (ex_pc (pl_ex x)) R"
  have mis: "ex_ls_misaligned x = (if is_lr w \<or> is_sc w \<or> is_amo_rmw w then amo_misaligned w ?a else ls_misaligned w ?a)" if "mem_insn w"
    using that c ex_addr[OF assms(1)] amo_classes[of w] class_excl(1,2)[of w]
    by (auto simp: w ex_ls_misaligned_def ct_atomic_def amo_misaligned_def ls_misaligned_def mem_insn_def Let_def)
  have mem: "is_load w \<Longrightarrow> mem_insn w" "is_store w \<Longrightarrow> mem_insn w" "is_lr w \<Longrightarrow> mem_insn w" "is_sc w \<Longrightarrow> mem_insn w" "is_amo_rmw w \<Longrightarrow> mem_insn w"
    by (simp_all add: mem_insn_def)
  note am = ex_addr[OF assms(1), folded w]
  have ld: "is_load w \<Longrightarrow> ex_ls_misaligned x = ls_misaligned w ?a" "is_store w \<Longrightarrow> ex_ls_misaligned x = ls_misaligned w ?a"
    "is_lr w \<Longrightarrow> ex_ls_misaligned x = amo_misaligned w ?a" "is_sc w \<Longrightarrow> ex_ls_misaligned x = amo_misaligned w ?a"
    "is_amo_rmw w \<Longrightarrow> ex_ls_misaligned x = amo_misaligned w ?a"
    using mis mem amo_classes[of w] class_excl(1,2)[of w] by auto
  have ill: "\<not> id_illegal w (pl_csr x)" if "is_ecall w \<or> is_ebreak w" using plain_trap_order[OF assms(3) that] .
  have excl: "is_load w \<Longrightarrow> \<not> is_store w \<and> \<not> is_lr w \<and> \<not> is_sc w \<and> \<not> is_amo_rmw w"
    "is_store w \<Longrightarrow> \<not> is_lr w \<and> \<not> is_sc w \<and> \<not> is_amo_rmw w"
    using class_excl(1,2)[of w] amo_classes[of w] by auto
  have tr: "ex_trap x =
     (if id_illegal w (pl_csr x) then Some (CAUSE_ILLEGAL_INSN, w)
      else if is_ecall w
      then Some (if priv_mode (pl_csr x) = PRV_U then CAUSE_ECALL_FROM_U
                 else if priv_mode (pl_csr x) = PRV_S then CAUSE_ECALL_FROM_S else CAUSE_ECALL_FROM_M, 0)
      else if is_ebreak w then Some (CAUSE_BREAKPOINT, 0)
      else if ex_misaligned_target x \<noteq> None then Some (CAUSE_INSN_ADDR_MISALIGNED, the (ex_misaligned_target x))
      else if (is_load w \<or> is_lr w) \<and> ex_ls_misaligned x then Some (CAUSE_LOAD_ADDR_MISALIGNED, ls_addr x)
      else if (is_store w \<or> is_sc w \<or> is_amo_rmw w) \<and> ex_ls_misaligned x then Some (CAUSE_STORE_ADDR_MISALIGNED, ls_addr x)
      else None)"
    using c assms(4-7) by (simp add: ex_trap_def Let_def w)
  have dp: "dp_trap w (ex_pc (pl_ex x)) R (pl_csr x) =
     (if id_illegal w (pl_csr x) then Some (CAUSE_ILLEGAL_INSN, w)
      else if is_ecall w
      then Some (if priv_mode (pl_csr x) = PRV_U then CAUSE_ECALL_FROM_U
                 else if priv_mode (pl_csr x) = PRV_S then CAUSE_ECALL_FROM_S else CAUSE_ECALL_FROM_M, 0)
      else if is_ebreak w then Some (CAUSE_BREAKPOINT, 0)
      else if ex_misaligned_target x \<noteq> None then Some (CAUSE_INSN_ADDR_MISALIGNED, the (ex_misaligned_target x))
      else if is_load w \<and> ls_misaligned w ?a then Some (CAUSE_LOAD_ADDR_MISALIGNED, ?a)
      else if is_store w \<and> ls_misaligned w ?a then Some (CAUSE_STORE_ADDR_MISALIGNED, ?a)
      else if is_lr w \<and> amo_misaligned w ?a then Some (CAUSE_LOAD_ADDR_MISALIGNED, ?a)
      else if (is_sc w \<or> is_amo_rmw w) \<and> amo_misaligned w ?a then Some (CAUSE_STORE_ADDR_MISALIGNED, ?a)
      else None)"
    unfolding dp_trap_def exec_trap_def Let_def dp_addr_def[symmetric] ex_misaligned[OF assms(1) w] id_illegal_opcode[symmetric]
    using ill by (cases "is_ecall w"; cases "is_ebreak w"; simp)
  consider "is_load w" | "is_store w" | "is_lr w" | "is_sc w" | "is_amo_rmw w" | "\<not> mem_insn w" by (auto simp: mem_insn_def)
  then show ?thesis
  proof cases
    case 1 then show ?thesis unfolding tr dp using ld(1) am mem(1) excl(1) by simp
  next
    case 2 then show ?thesis unfolding tr dp using ld(2) am mem(2) excl by auto
  next
    case 3 then show ?thesis unfolding tr dp using ld(3) am mem(3) excl amo_classes[of w] by auto
  next
    case 4 then show ?thesis unfolding tr dp using ld(4) am mem(4) excl amo_classes[of w] by auto
  next
    case 5 then show ?thesis unfolding tr dp using ld(5) am mem(5) excl amo_classes[of w] by auto
  next
    case 6 then show ?thesis unfolding tr dp by (simp add: mem_insn_def)
  qed
qed

end
