(* ===== verification/Pipe_Shape.thy ===== *)
theory Pipe_Shape
  imports Pipe_Isa
begin

text \<open>
  Which stages of the pipelined core can be occupied together, and what the stage registers keep of the
  instruction they hold. One fetch is outstanding at most, so neighbouring stages are full only around a divide.
\<close>

unbundle bit_operations_syntax

section \<open>The next state, register by register\<close>

lemma pl_sel [simp]:
  "pl_pc (pl_step P False i x) = pc_next i x" "pl_if_inflight (pl_step P False i x) = inflight_next i x"
  "pl_if_pc (pl_step P False i x) = (if if_fire i x then pl_pc x else pl_if_pc x)"
  "pl_squash (pl_step P False i x) = squash_next i x" "pl_id (pl_step P False i x) = id_next i x"
  "pl_ex (pl_step P False i x) = ex_next i x" "pl_mem (pl_step P False i x) = mem_next i x"
  "pl_latch (pl_step P False i x) = latch_next i x" "pl_wb (pl_step P False i x) = wb_next x"
  "pl_div_started (pl_step P False i x) = div_started_next x" "pl_div_done (pl_step P False i x) = div_done_next x"
  "pl_div_result (pl_step P False i x) = div_result_next x"
  "pl_resv_valid (pl_step P False i x) = fst (resv_next i x)" "pl_resv_addr (pl_step P False i x) = snd (resv_next i x)"
  "pl_rf (pl_step P False i x) = rf_step (rf_wen x) (wb_rd (pl_wb x)) (wb_rd_data i x) (pl_rf x)"
  "pl_csr (pl_step P False i x) = csr_step False (wb_csr_port i x) (pl_csr x)"
  "pl_div (pl_step P False i x) = div_step False (ex_div_input x) (pl_div x)"
  by (simp_all add: pl_step_def)

section \<open>What the stages hold\<close>

definition redirects :: "u32 \<Rightarrow> bool" where
  "redirects w = (is_mret w \<or> is_sret w \<or> (opcode w = OP_MISC_MEM \<and> funct3 w = 1) \<or> is_sfence w \<or> (is_csr w \<and> funct12 w = 0x180))"

definition id_shape :: "id_reg \<Rightarrow> bool" where
  "id_shape d \<longleftrightarrow> id_valid d \<and> (id_irq d \<or> id_fault d \<or> id_pagefault d) \<longrightarrow> \<not> is_div_variant (id_instr d)"

definition ex_shape :: "csrs \<Rightarrow> ex_reg \<Rightarrow> bool" where
  "ex_shape c e \<longleftrightarrow> (ex_valid e \<longrightarrow> (let w = ex_instr e in
     ex_ctl e = id_ctl w \<and> ex_fields e = id_fields w \<and> ex_illegal e = id_illegal w c \<and>
     (ex_irq e \<or> ex_fetch_fault e \<or> ex_fetch_pagefault e \<longrightarrow> \<not> is_div_variant w)))"

definition mem_shape :: "mem_reg \<Rightarrow> bool" where
  "mem_shape m \<longleftrightarrow> (me_valid m \<longrightarrow> (let w = me_instr m; ok = \<not> me_trap m in
     me_rd m = rd_i w \<and> me_funct3 m = funct3 w \<and> me_amo_funct5 m = amo_funct5 w \<and> me_csr_addr m = funct12 w \<and>
     me_csr_op m = funct3 w \<and> me_csr_rs1imm m = rs1_i w \<and>
     me_rd_wen m = (id_writes_rd w \<and> ok) \<and> me_is_load m = (is_load w \<and> ok) \<and> me_is_store m = (is_store w \<and> ok) \<and>
     me_is_csr m = (is_csr w \<and> ok) \<and> me_is_mret m = (is_mret w \<and> ok) \<and> me_is_sret m = (is_sret w \<and> ok) \<and>
     me_is_lr m = (is_lr w \<and> ok) \<and> me_is_sc m = (is_sc w \<and> ok) \<and> me_is_amo_rmw m = (is_amo_rmw w \<and> ok) \<and>
     me_is_serial m = id_serial w \<and> (is_div_variant w \<longrightarrow> ok) \<and>
     (me_ls_pending m \<longrightarrow> ok \<and> mem_insn w \<and> \<not> me_has_result m) \<and>
     (\<not> is_sc w \<longrightarrow> me_has_result m = (ok \<and> id_writes_rd w \<and> \<not> mem_insn w \<and> \<not> is_csr w)) \<and>
     (me_has_result m \<longrightarrow> ok \<and> (is_sc w \<longrightarrow> me_result m = 1)) \<and>
     (me_amo_phase m \<longrightarrow> is_amo_rmw w \<and> ok)))"

definition wb_shape :: "wb_reg \<Rightarrow> bool" where
  "wb_shape b \<longleftrightarrow> (wb_valid b \<longrightarrow> (let w = wb_instr b; ok = \<not> wb_trap b in
     wb_rd b = rd_i w \<and> wb_csr_addr b = funct12 w \<and> wb_csr_op b = funct3 w \<and> wb_csr_rs1imm b = rs1_i w \<and>
     wb_rd_wen b = (id_writes_rd w \<and> ok) \<and> wb_is_csr b = (is_csr w \<and> ok) \<and> wb_is_mret b = (is_mret w \<and> ok) \<and>
     wb_is_sret b = (is_sret w \<and> ok) \<and> wb_is_serial b = id_serial w \<and> (is_div_variant w \<longrightarrow> ok)))"

definition pl_shape :: "pl \<Rightarrow> bool" where
  "pl_shape x \<longleftrightarrow>
     id_shape (pl_id x) \<and> ex_shape (pl_csr x) (pl_ex x) \<and> mem_shape (pl_mem x) \<and> wb_shape (pl_wb x) \<and>
     (pl_squash x \<longrightarrow> pl_if_inflight x) \<and>
     \<not> (id_valid (pl_id x) \<and> pl_if_inflight x) \<and>
     (id_valid (pl_id x) \<and> id_irq (pl_id x) \<longrightarrow> \<not> pipe_busy x) \<and>
     (id_valid (pl_id x) \<and> ex_valid (pl_ex x) \<longrightarrow> is_div_variant (ex_instr (pl_ex x))) \<and>
     (ex_valid (pl_ex x) \<and> me_valid (pl_mem x) \<longrightarrow> is_div_variant (me_instr (pl_mem x))) \<and>
     (me_valid (pl_mem x) \<and> wb_valid (pl_wb x) \<longrightarrow> is_div_variant (wb_instr (pl_wb x))) \<and>
     (ex_valid (pl_ex x) \<and> id_serial (ex_instr (pl_ex x)) \<longrightarrow> \<not> me_valid (pl_mem x) \<and> \<not> wb_valid (pl_wb x)) \<and>
     (me_valid (pl_mem x) \<and> id_serial (me_instr (pl_mem x)) \<longrightarrow> \<not> ex_valid (pl_ex x) \<and> \<not> wb_valid (pl_wb x)) \<and>
     (wb_valid (pl_wb x) \<and> id_serial (wb_instr (pl_wb x)) \<longrightarrow> \<not> ex_valid (pl_ex x) \<and> \<not> me_valid (pl_mem x))"

text \<open>
  What is asked of the surroundings in a cycle: memory answers only a request it has accepted, in the same cycle at the
  earliest; a fetch that faults does not deliver the encoding of a divide; where the load beat of an atomic operation
  ended in a page fault, its store beat does so too. And no redirect leaves WB while a divide is unfinished in EX: the
  divide would survive it.
\<close>

definition div_survives :: "pl \<Rightarrow> bool" where "div_survives x \<longleftrightarrow> wb_redirect x \<and> ex_div_stall x"

definition pl_env :: "mc_in \<Rightarrow> pl \<Rightarrow> bool" where
  "pl_env i x \<longleftrightarrow>
     (mem_rsp i x \<longrightarrow> ml_req_fired (pl_latch x) \<or> ni_dm_ready i) \<and>
     (ni_if_rsp i \<and> (ni_if_fault i \<or> ni_if_pagefault i) \<longrightarrow> \<not> is_div_variant (ni_if_data i)) \<and>
     (mem_rsp i x \<and> me_is_amo_rmw (pl_mem x) \<and> me_amo_phase (pl_mem x) \<and> ml_bus_pagefault (pl_latch x) \<longrightarrow> ni_dm_pagefault i) \<and>
     \<not> div_survives x"

lemma div_class:
  assumes "is_div_variant w"
  shows "\<not> mem_insn w" "\<not> is_csr w" "\<not> id_serial w" "\<not> redirects w" "\<not> is_system w" "writes_rd w" "\<not> is_amo w"
    "\<not> is_branch w" "\<not> is_jal w" "\<not> is_jalr w" "\<not> is_sc w"
  using assms by (auto simp: mem_insn_def id_serial_def redirects_def writes_rd_def class_defs)

lemma not_div_0: "\<not> is_div_variant 0"
  by code_simp

lemma redirect_iff:
  assumes "wb_shape (pl_wb x)"
  shows "wb_redirect x \<longleftrightarrow> wb_valid (pl_wb x) \<and> (wb_trap (pl_wb x) \<or> redirects (wb_instr (pl_wb x)))"
  using assms by (auto simp: wb_shape_def wb_redirect_def redirects_def wb_fence_i_def wb_sfence_def wb_csrw_satp_def Let_def)

lemma serial_redirects: "redirects w \<Longrightarrow> id_serial w"
  by (auto simp: redirects_def id_serial_def)

lemma div_legal: "is_div_variant w \<Longrightarrow> \<not> id_illegal w c"
  by (simp add: id_illegal_opcode illegal_opcode_def op_legal_def class_defs)

lemma div_no_trap:
  assumes "ex_shape (pl_csr x) (pl_ex x)" "is_div_variant (ex_instr (pl_ex x))"
  shows "ex_trap x = None"
proof -
  let ?w = "ex_instr (pl_ex x)"
  note il = div_legal[OF assms(2)]
  have n: "\<not> is_ecall ?w" "\<not> is_ebreak ?w" "\<not> is_load ?w" "\<not> is_store ?w" "\<not> is_lr ?w" "\<not> is_sc ?w" "\<not> is_amo_rmw ?w"
    "\<not> is_branch ?w" "\<not> is_jal ?w" "\<not> is_jalr ?w"
    using assms(2) by (auto simp: class_defs)
  show ?thesis using assms il n
    by (simp add: ex_trap_def ex_shape_def ex_misaligned_target_def ex_take_branch_def ex_take_jal_def ex_take_jalr_def Let_def)
qed

text \<open>A stage behind MEM that is full means that MEM does not stall, a redirect that MEM is empty.\<close>

lemma no_stall_behind:
  assumes "pl_shape x"
  shows "ex_valid (pl_ex x) \<Longrightarrow> \<not> stall_mem x" and "wb_redirect x \<Longrightarrow> \<not> me_valid (pl_mem x)" and "wb_redirect x \<Longrightarrow> \<not> stall_mem x"
proof -
  have m: "mem_shape (pl_mem x)" and b: "wb_shape (pl_wb x)" using assms by (simp_all add: pl_shape_def)
  have d: "ex_valid (pl_ex x) \<Longrightarrow> me_valid (pl_mem x) \<Longrightarrow> is_div_variant (me_instr (pl_mem x))"
    and e: "me_valid (pl_mem x) \<Longrightarrow> wb_valid (pl_wb x) \<Longrightarrow> is_div_variant (wb_instr (pl_wb x))"
    using assms by (simp_all add: pl_shape_def)
  show "\<not> stall_mem x" if "ex_valid (pl_ex x)"
    using d[OF that] m div_class[of "me_instr (pl_mem x)"] by (auto simp: stall_mem_def mem_csrw_satp_def mem_shape_def Let_def)
  show r: "\<not> me_valid (pl_mem x)" if "wb_redirect x"
    using that e b div_class[of "wb_instr (pl_wb x)"] by (auto simp: redirect_iff[OF b] wb_shape_def Let_def)
  show "\<not> stall_mem x" if "wb_redirect x"
    using r[OF that] by (simp add: stall_mem_def mem_csrw_satp_def)
qed

section \<open>How the stages move\<close>

definition flushes :: "mc_in \<Rightarrow> pl \<Rightarrow> bool" where
  "flushes i x \<longleftrightarrow> wb_redirect x \<and> \<not> id_valid (id_next i x) \<and> \<not> ex_valid (ex_next i x) \<and> \<not> me_valid (mem_next i x) \<and>
     \<not> wb_valid (wb_next x)"

text \<open>MEM waits, and EX is empty.\<close>

definition mem_waits :: "mc_in \<Rightarrow> pl \<Rightarrow> bool" where
  "mem_waits i x \<longleftrightarrow> \<not> wb_redirect x \<and> stall_mem x \<and> me_valid (pl_mem x) \<and> \<not> ex_valid (pl_ex x) \<and> ex_next i x = pl_ex x \<and>
     \<not> wb_valid (wb_next x) \<and>
     mem_next i x = (if mem_rsp i x
       then (if me_is_amo_rmw (pl_mem x) \<and> \<not> me_amo_phase (pl_mem x) \<and> \<not> ni_dm_fault i then (pl_mem x)\<lparr>me_amo_phase := True\<rparr>
             else (pl_mem x)\<lparr>me_ls_pending := False\<rparr>)
       else pl_mem x)"

text \<open>EX waits for the divider.\<close>

definition divides :: "mc_in \<Rightarrow> pl \<Rightarrow> bool" where
  "divides i x \<longleftrightarrow> \<not> wb_redirect x \<and> \<not> stall_mem x \<and> ex_div_stall x \<and> ex_next i x = pl_ex x \<and> \<not> me_valid (mem_next i x)"

definition flows :: "mc_in \<Rightarrow> pl \<Rightarrow> bool" where
  "flows i x \<longleftrightarrow> \<not> wb_redirect x \<and> \<not> stall_ex x \<and>
     mem_next i x = (if ex_valid (pl_ex x) then mem_enter x else mem_bubble (pl_mem x))"

lemma moves:
  assumes "pl_shape x" "pl_env i x"
  shows "flushes i x \<or> mem_waits i x \<or> divides i x \<or> flows i x"
proof (cases "wb_redirect x")
  case True
  then have "\<not> stall_ex x" "\<not> stall_mem x" using assms no_stall_behind(3)[OF assms(1)] by (auto simp: stall_ex_def pl_env_def div_survives_def)
  then have "flushes i x" using True
    by (simp add: flushes_def id_next_def ex_next_def mem_next_def wb_next_def id_will_bubble_def mem_bubble_def Let_def)
  then show ?thesis ..
next
  case False
  note r = this
  show ?thesis
  proof (cases "stall_mem x")
    case True
    then have "me_valid (pl_mem x)" by (auto simp: stall_mem_def mem_csrw_satp_def)
    moreover have "\<not> ex_valid (pl_ex x)" using True no_stall_behind(1)[OF assms(1)] by blast
    ultimately have "mem_waits i x" using True r
      by (simp add: mem_waits_def ex_next_def stall_ex_def wb_next_def mem_next_def mem_rsp_def Let_def)
    then show ?thesis by blast
  next
    case False
    show ?thesis
    proof (cases "ex_div_stall x")
      case True
      then have "divides i x" using r False by (simp add: divides_def ex_next_def stall_ex_def mem_next_def mem_bubble_def Let_def)
      then show ?thesis by blast
    next
      case d: False
      then have "flows i x" using r False by (simp add: flows_def stall_ex_def mem_next_def Let_def)
      then show ?thesis by blast
    qed
  qed
qed


section \<open>The CSR file between its instructions\<close>

definition crit :: "csrs \<Rightarrow> 2 word \<times> u32 \<times> u32 \<times> u32" where
  "crit c = (priv_mode c, mstatus c, mepc c, sepc c)"

lemma csr_quiet:
  assumes "\<not> ci_en q" "\<not> ci_trap q" "\<not> ci_mret q" "\<not> ci_sret q"
  shows "crit (csr_step False q c) = crit c"
  using assms by (simp add: crit_def csr_step_def do_write_def csr_tick_def Let_def)

lemma port_quiet:
  assumes "wb_shape (pl_wb x)" "\<not> wb_redirect x" "wb_valid (pl_wb x) \<longrightarrow> \<not> is_csr (wb_instr (pl_wb x))"
  shows "crit (csr_step False (wb_csr_port i x) (pl_csr x)) = crit (pl_csr x)"
proof (rule csr_quiet)
  show "\<not> ci_en (wb_csr_port i x)" using assms(1,3) by (auto simp: wb_csr_port_def wb_shape_def Let_def)
  show "\<not> ci_trap (wb_csr_port i x)" "\<not> ci_mret (wb_csr_port i x)" "\<not> ci_sret (wb_csr_port i x)"
    using assms(2) by (auto simp: wb_csr_port_def wb_redirect_def Let_def)
qed

lemma crit_illegal:
  assumes "crit c' = crit c"
  shows "id_illegal w c' = id_illegal w c" "id_csr_illegal w c' = id_csr_illegal w c" "hart_ctx w pc R rv c' v = hart_ctx w pc R rv c v"
    "dp_npc w pc R c' = dp_npc w pc R c"
  using assms by (simp_all add: crit_def id_illegal_def id_csr_illegal_def hart_ctx_def dp_npc_def)

text \<open>Nothing in EX or MEM runs beside a CSR access.\<close>

lemma quiet_behind:
  assumes "pl_shape x" "\<not> wb_redirect x" "ex_valid (pl_ex x) \<or> me_valid (pl_mem x)"
  shows "crit (csr_step False (wb_csr_port i x) (pl_csr x)) = crit (pl_csr x)"
proof (rule port_quiet)
  show "wb_shape (pl_wb x)" using assms(1) by (simp add: pl_shape_def)
  have n: "\<not> id_serial (wb_instr (pl_wb x))" if "wb_valid (pl_wb x)"
  proof
    assume "id_serial (wb_instr (pl_wb x))"
    with that assms(1) have "\<not> ex_valid (pl_ex x) \<and> \<not> me_valid (pl_mem x)" by (simp add: pl_shape_def)
    with assms(3) show False by simp
  qed
  show "wb_valid (pl_wb x) \<longrightarrow> \<not> is_csr (wb_instr (pl_wb x))" using n by (simp add: id_serial_def)
qed (rule assms(2))

section \<open>The shape is kept\<close>

lemma mem_enter_sel [simp]:
  "me_valid (mem_enter x)" "me_pc (mem_enter x) = ex_pc (pl_ex x)" "me_instr (mem_enter x) = ex_instr (pl_ex x)"
  "me_trap (mem_enter x) \<longleftrightarrow> ex_trap x \<noteq> None" "\<not> me_amo_phase (mem_enter x)"
  by (simp_all add: mem_enter_def Let_def)

lemma mem_bubble_sel [simp]: "\<not> me_valid (mem_bubble m)"
  by (simp add: mem_bubble_def)

lemma mem_excl:
  "is_load w \<Longrightarrow> \<not> is_store w \<and> \<not> is_lr w \<and> \<not> is_sc w \<and> \<not> is_amo_rmw w \<and> \<not> is_csr w"
  "is_store w \<Longrightarrow> \<not> is_load w \<and> \<not> is_lr w \<and> \<not> is_sc w \<and> \<not> is_amo_rmw w \<and> \<not> is_csr w \<and> \<not> writes_rd w"
  "is_lr w \<Longrightarrow> \<not> is_load w \<and> \<not> is_store w \<and> \<not> is_sc w \<and> \<not> is_amo_rmw w \<and> \<not> is_csr w"
  "is_sc w \<Longrightarrow> \<not> is_load w \<and> \<not> is_store w \<and> \<not> is_lr w \<and> \<not> is_amo_rmw w \<and> \<not> is_csr w"
  "is_amo_rmw w \<Longrightarrow> \<not> is_load w \<and> \<not> is_store w \<and> \<not> is_lr w \<and> \<not> is_sc w \<and> \<not> is_csr w"
proof -
  have "is_amo w \<Longrightarrow> \<not> is_csr w" using class_excl(3)[of w] class_sub(1)[of w] by blast
  moreover have "is_load w \<Longrightarrow> \<not> is_csr w" "is_store w \<Longrightarrow> \<not> is_csr w"
    using class_excl(1,2)[of w] class_sub(1)[of w] by blast+
  moreover have "is_store w \<Longrightarrow> \<not> writes_rd w"
    using class_excl(2)[of w] amo_classes[of w] class_sub(1)[of w] by (simp add: writes_rd_def) blast
  ultimately show
  "is_load w \<Longrightarrow> \<not> is_store w \<and> \<not> is_lr w \<and> \<not> is_sc w \<and> \<not> is_amo_rmw w \<and> \<not> is_csr w"
  "is_store w \<Longrightarrow> \<not> is_load w \<and> \<not> is_lr w \<and> \<not> is_sc w \<and> \<not> is_amo_rmw w \<and> \<not> is_csr w \<and> \<not> writes_rd w"
  "is_lr w \<Longrightarrow> \<not> is_load w \<and> \<not> is_store w \<and> \<not> is_sc w \<and> \<not> is_amo_rmw w \<and> \<not> is_csr w"
  "is_sc w \<Longrightarrow> \<not> is_load w \<and> \<not> is_store w \<and> \<not> is_lr w \<and> \<not> is_amo_rmw w \<and> \<not> is_csr w"
  "is_amo_rmw w \<Longrightarrow> \<not> is_load w \<and> \<not> is_store w \<and> \<not> is_lr w \<and> \<not> is_sc w \<and> \<not> is_csr w"
    using class_excl(1-3)[of w] amo_classes[of w] by blast+
qed

text \<open>The kinds of instructions in MEM.\<close>

lemma mem_cases:
  obtains "is_load w" "\<not> is_store w" "\<not> is_lr w" "\<not> is_sc w" "\<not> is_amo_rmw w" "\<not> is_csr w" "mem_insn w"
  | "\<not> is_load w" "is_store w" "\<not> is_lr w" "\<not> is_sc w" "\<not> is_amo_rmw w" "\<not> is_csr w" "mem_insn w" "\<not> writes_rd w"
  | "\<not> is_load w" "\<not> is_store w" "is_lr w" "\<not> is_sc w" "\<not> is_amo_rmw w" "\<not> is_csr w" "mem_insn w"
  | "\<not> is_load w" "\<not> is_store w" "\<not> is_lr w" "is_sc w" "\<not> is_amo_rmw w" "\<not> is_csr w" "mem_insn w"
  | "\<not> is_load w" "\<not> is_store w" "\<not> is_lr w" "\<not> is_sc w" "is_amo_rmw w" "\<not> is_csr w" "mem_insn w"
  | "\<not> is_load w" "\<not> is_store w" "\<not> is_lr w" "\<not> is_sc w" "\<not> is_amo_rmw w" "\<not> mem_insn w"
proof -
  note l = mem_excl(1)[of w] and s = mem_excl(2)[of w] and r = mem_excl(3)[of w] and c = mem_excl(4)[of w] and a = mem_excl(5)[of w]
  have m: "mem_insn w = (is_load w \<or> is_store w \<or> is_lr w \<or> is_sc w \<or> is_amo_rmw w)" by (rule mem_insn_def)
  show ?thesis
  proof (cases "mem_insn w")
    case False
    then show ?thesis using m that(6) by simp
  next
    case True
    then consider "is_load w" | "is_store w" | "is_lr w" | "is_sc w" | "is_amo_rmw w" using m by blast
    then show ?thesis
    proof cases
      case 1 then show ?thesis using l True by (intro that(1)) simp_all
    next
      case 2 then show ?thesis using s True by (intro that(2)) simp_all
    next
      case 3 then show ?thesis using r True by (intro that(3)) simp_all
    next
      case 4 then show ?thesis using c True by (intro that(4)) simp_all
    next
      case 5 then show ?thesis using a True by (intro that(5)) simp_all
    qed
  qed
qed

lemma enter_shape:
  assumes "ex_shape (pl_csr x) (pl_ex x)" "ex_valid (pl_ex x)"
  shows "mem_shape (mem_enter x)"
proof -
  define w where "w = ex_instr (pl_ex x)"
  have c: "ex_ctl (pl_ex x) = id_ctl w" "ex_fields (pl_ex x) = id_fields w" using assms by (simp_all add: ex_shape_def Let_def w_def)
  have d: "is_div_variant w \<longrightarrow> ex_trap x = None" using div_no_trap[OF assms(1)] by (simp add: w_def)
  note e = mem_enter_def c w_def[symmetric] Let_def
  show ?thesis
  proof (cases "ex_trap x = None")
    case True
    show ?thesis by (rule mem_cases[of w]; simp add: mem_shape_def e id_writes_rd True)
  next
    case False
    then have n: "\<not> is_div_variant w" using d by (cases "is_div_variant w") simp_all
    show ?thesis by (rule mem_cases[of w]; simp add: mem_shape_def e id_writes_rd n False[simplified]; insert False; simp)
  qed
qed

lemma wb_next_valid [simp]: "wb_valid (wb_next x) \<longleftrightarrow> me_valid (pl_mem x) \<and> \<not> stall_mem x \<and> \<not> wb_redirect x"
  by (auto simp: wb_next_def Let_def)

lemma wb_next_instr [simp]: "wb_instr (wb_next x) = me_instr (pl_mem x)" "wb_pc (wb_next x) = me_pc (pl_mem x)"
  by (simp_all add: wb_next_def Let_def)

lemma bus_op_iff:
  assumes "mem_shape (pl_mem x)" "me_valid (pl_mem x)"
  shows "mem_bus_op x \<longleftrightarrow> mem_insn (me_instr (pl_mem x)) \<and> \<not> me_trap (pl_mem x)"
proof -
  define w where "w = me_instr (pl_mem x)"
  define t where "t = me_trap (pl_mem x)"
  have "me_is_load (pl_mem x) = (is_load w \<and> \<not> t)" "me_is_store (pl_mem x) = (is_store w \<and> \<not> t)" "me_is_lr (pl_mem x) = (is_lr w \<and> \<not> t)"
    "me_is_sc (pl_mem x) = (is_sc w \<and> \<not> t)" "me_is_amo_rmw (pl_mem x) = (is_amo_rmw w \<and> \<not> t)"
    using assms by (simp_all add: mem_shape_def w_def t_def Let_def)
  then show ?thesis unfolding mem_bus_op_def mem_insn_def w_def[symmetric] t_def[symmetric] by (cases t) simp_all
qed

lemma retire_shape:
  assumes "mem_shape (pl_mem x)"
  shows "wb_shape (wb_next x)"
proof (cases "wb_valid (wb_next x)")
  case True
  then have v: "me_valid (pl_mem x)" "\<not> stall_mem x" "\<not> wb_redirect x" by simp_all
  define w where "w = me_instr (pl_mem x)"
  have nd: "mem_insn w \<Longrightarrow> \<not> is_div_variant w" using div_class by blast
  have nm: "mem_insn w \<Longrightarrow> \<not> is_mret w \<and> \<not> is_sret w"
    using class_excl(1-3)[of w] amo_classes[of w] class_sub(4,5)[of w] unfolding mem_insn_def by blast
  have b: "mem_bus_op x \<longleftrightarrow> mem_insn w \<and> \<not> me_trap (pl_mem x)" using bus_op_iff[OF assms v(1)] by (simp add: w_def)
  have m: "mem_shape (pl_mem x)" by (rule assms)
  note s = m[unfolded mem_shape_def, rule_format, OF v(1), unfolded Let_def w_def[symmetric]]
  show ?thesis
    by (rule mem_cases[of w]; cases "me_trap (pl_mem x)"; insert s nd nm; simp add: wb_shape_def wb_next_def v b w_def[symmetric] Let_def id_writes_rd)
qed (auto simp: wb_shape_def)

lemma id_next_shape:
  assumes "id_shape (pl_id x)" "pl_env i x"
  shows "id_shape (id_next i x)"
  using assms not_div_0 by (auto simp: id_next_def id_shape_def pl_env_def rsp_arriving_def Let_def)

end
