(* ===== verification/Pipe_Keep.thy ===== *)
theory Pipe_Keep
  imports Pipe_Shape
begin

text \<open>
  Every cycle of the pipelined core keeps the shape of \<open>Pipe_Shape\<close>, and so does reset.
\<close>

section \<open>The shape is kept\<close>

lemma shapeD:
  assumes "pl_shape x"
  shows "id_shape (pl_id x)" "ex_shape (pl_csr x) (pl_ex x)" "mem_shape (pl_mem x)" "wb_shape (pl_wb x)"
    "pl_squash x \<Longrightarrow> pl_if_inflight x" "id_valid (pl_id x) \<Longrightarrow> \<not> pl_if_inflight x"
    "id_valid (pl_id x) \<Longrightarrow> id_irq (pl_id x) \<Longrightarrow> \<not> pipe_busy x"
    "id_valid (pl_id x) \<Longrightarrow> ex_valid (pl_ex x) \<Longrightarrow> is_div_variant (ex_instr (pl_ex x))"
    "ex_valid (pl_ex x) \<Longrightarrow> me_valid (pl_mem x) \<Longrightarrow> is_div_variant (me_instr (pl_mem x))"
    "me_valid (pl_mem x) \<Longrightarrow> wb_valid (pl_wb x) \<Longrightarrow> is_div_variant (wb_instr (pl_wb x))"
    "ex_valid (pl_ex x) \<Longrightarrow> id_serial (ex_instr (pl_ex x)) \<Longrightarrow> \<not> me_valid (pl_mem x) \<and> \<not> wb_valid (pl_wb x)"
    "me_valid (pl_mem x) \<Longrightarrow> id_serial (me_instr (pl_mem x)) \<Longrightarrow> \<not> ex_valid (pl_ex x) \<and> \<not> wb_valid (pl_wb x)"
    "wb_valid (pl_wb x) \<Longrightarrow> id_serial (wb_instr (pl_wb x)) \<Longrightarrow> \<not> ex_valid (pl_ex x) \<and> \<not> me_valid (pl_mem x)"
  using assms by (simp_all add: pl_shape_def)

text \<open>The serial flags are those of the decoder.\<close>

lemma serial_flags:
  assumes "pl_shape x"
  shows "serial_inflight x \<longleftrightarrow> (ex_valid (pl_ex x) \<and> id_serial (ex_instr (pl_ex x))) \<or>
     (me_valid (pl_mem x) \<and> id_serial (me_instr (pl_mem x))) \<or> (wb_valid (pl_wb x) \<and> id_serial (wb_instr (pl_wb x)))"
proof -
  have "ex_valid (pl_ex x) \<Longrightarrow> ct_serial (ex_ctl (pl_ex x)) = id_serial (ex_instr (pl_ex x))"
    using shapeD(2)[OF assms] by (simp add: ex_shape_def Let_def)
  moreover have "me_valid (pl_mem x) \<Longrightarrow> me_is_serial (pl_mem x) = id_serial (me_instr (pl_mem x))"
    using shapeD(3)[OF assms] by (simp add: mem_shape_def Let_def)
  moreover have "wb_valid (pl_wb x) \<Longrightarrow> wb_is_serial (pl_wb x) = id_serial (wb_instr (pl_wb x))"
    using shapeD(4)[OF assms] by (simp add: wb_shape_def Let_def)
  ultimately show ?thesis by (auto simp: serial_inflight_def)
qed

text \<open>The instruction in ID moves on.\<close>

definition issues :: "mc_in \<Rightarrow> pl \<Rightarrow> bool" where
  "issues i x \<longleftrightarrow> \<not> stall_ex x \<and> \<not> id_will_bubble i x"

lemma issuesD:
  assumes "pl_shape x" "issues i x"
  shows "id_valid (pl_id x)" "\<not> stall_id x" "\<not> wb_redirect x" "\<not> stall_ex x" "\<not> id_valid (id_next i x)"
    "id_serial (id_instr (pl_id x)) \<Longrightarrow> \<not> pipe_busy x" "\<not> serial_inflight x"
proof -
  show v: "id_valid (pl_id x)" "\<not> stall_id x" "\<not> wb_redirect x" "\<not> stall_ex x"
    using assms(2) by (auto simp: issues_def id_will_bubble_def)
  have "\<not> irq_inject i x" using assms(2) v(1) by (auto simp: issues_def id_will_bubble_def irq_inject_def)
  moreover have "\<not> rsp_arriving i x" using shapeD(6)[OF assms(1) v(1)] by (simp add: rsp_arriving_def)
  ultimately show "\<not> id_valid (id_next i x)" using v by (auto simp: id_next_def Let_def)
  show b: "\<not> pipe_busy x" if "id_serial (id_instr (pl_id x))" using that v(1,2) by (auto simp: stall_id_def)
  show "\<not> serial_inflight x"
  proof (cases "id_serial (id_instr (pl_id x))")
    case True
    then show ?thesis using b by (auto simp: pipe_busy_def serial_inflight_def)
  next
    case False
    then show ?thesis using v(1,2) by (auto simp: stall_id_def)
  qed
qed

lemma ex_next_cases:
  "ex_next i x = (if stall_ex x then pl_ex x else if issues i x
     then \<lparr>ex_valid = True, ex_pc = id_pc (pl_id x), ex_instr = id_instr (pl_id x), ex_rs1_data = id_operand i x (rs1_i (id_instr (pl_id x))),
        ex_rs2_data = id_operand i x (rs2_i (id_instr (pl_id x))), ex_fields = id_fields (id_instr (pl_id x)),
        ex_ctl = id_ctl (id_instr (pl_id x)), ex_fetch_fault = id_fault (pl_id x), ex_fetch_pagefault = id_pagefault (pl_id x),
        ex_illegal = id_illegal (id_instr (pl_id x)) (pl_csr x), ex_irq = id_irq (pl_id x), ex_irq_cause = id_irq_cause (pl_id x)\<rparr>
     else (pl_ex x)\<lparr>ex_valid := False, ex_ctl := no_ctl, ex_fetch_fault := False, ex_fetch_pagefault := False,
             ex_illegal := False, ex_irq := False\<rparr>)"
  by (simp add: ex_next_def issues_def Let_def)

lemma ex_next_valid: "ex_valid (ex_next i x) \<longleftrightarrow> (if stall_ex x then ex_valid (pl_ex x) else issues i x)"
  by (simp add: ex_next_cases)

lemma csr_issue:
  assumes "pl_shape x" "issues i x"
  shows "crit (csr_step False (wb_csr_port i x) (pl_csr x)) = crit (pl_csr x)"
proof (rule port_quiet)
  show "wb_shape (pl_wb x)" "\<not> wb_redirect x" by (rule shapeD(4)[OF assms(1)], rule issuesD(3)[OF assms])
  show "wb_valid (pl_wb x) \<longrightarrow> \<not> is_csr (wb_instr (pl_wb x))"
    using issuesD(7)[OF assms] unfolding serial_flags[OF assms(1)] by (simp add: id_serial_def)
qed

lemma redirect_no_stall:
  assumes "pl_shape x" "pl_env i x" "wb_redirect x"
  shows "\<not> stall_ex x"
  using no_stall_behind(3)[OF assms(1,3)] assms(2,3) by (auto simp: stall_ex_def pl_env_def div_survives_def)

lemma ex_stays:
  assumes "pl_shape x" "stall_ex x" "ex_valid (pl_ex x)"
  shows "ex_div_stall x" "\<not> stall_mem x" "is_div_variant (ex_instr (pl_ex x))"
proof -
  show "\<not> stall_mem x" by (rule no_stall_behind(1)[OF assms(1,3)])
  then show d: "ex_div_stall x" using assms(2) by (simp add: stall_ex_def)
  have "ex_ctl (pl_ex x) = id_ctl (ex_instr (pl_ex x))" using shapeD(2)[OF assms(1)] assms(3) by (simp add: ex_shape_def Let_def)
  then show "is_div_variant (ex_instr (pl_ex x))" using d by (simp add: ex_div_stall_def)
qed

lemma keep_ex:
  assumes "pl_shape x" "pl_env i x"
  shows "ex_shape (csr_step False (wb_csr_port i x) (pl_csr x)) (ex_next i x)"
proof (cases "ex_valid (ex_next i x)")
  case False
  then show ?thesis by (simp add: ex_shape_def)
next
  case True
  show ?thesis
  proof (cases "stall_ex x")
    case s: True
    then have v: "ex_valid (pl_ex x)" using True by (simp add: ex_next_valid)
    have "\<not> wb_redirect x" using redirect_no_stall[OF assms] s by blast
    from quiet_behind[OF assms(1) this] v have "crit (csr_step False (wb_csr_port i x) (pl_csr x)) = crit (pl_csr x)" by blast
    note c = crit_illegal(1)[OF this]
    show ?thesis using shapeD(2)[OF assms(1)] s by (simp add: ex_next_cases ex_shape_def Let_def c)
  next
    case s: False
    then have i: "issues i x" using True by (simp add: ex_next_valid)
    note c = crit_illegal(1)[OF csr_issue[OF assms(1) i]]
    show ?thesis using shapeD(1)[OF assms(1)] s i issuesD(1)[OF assms(1) i]
      by (auto simp: ex_next_cases ex_shape_def id_shape_def c Let_def)
  qed
qed

lemma mem_shape_pending: "mem_shape m \<Longrightarrow> mem_shape (m\<lparr>me_ls_pending := False\<rparr>)"
  by (simp add: mem_shape_def Let_def)

lemma mem_shape_phase: "mem_shape m \<Longrightarrow> me_valid m \<Longrightarrow> me_is_amo_rmw m \<Longrightarrow> mem_shape (m\<lparr>me_amo_phase := True\<rparr>)"
  by (simp add: mem_shape_def Let_def)

lemma keep_mem:
  assumes "pl_shape x" "pl_env i x"
  shows "mem_shape (mem_next i x)"
  using moves[OF assms]
proof (elim disjE)
  assume "mem_waits i x"
  then show ?thesis using shapeD(3)[OF assms(1)] by (simp add: mem_waits_def mem_shape_pending mem_shape_phase)
next
  assume f: "flows i x"
  show ?thesis
  proof (cases "ex_valid (pl_ex x)")
    case True
    then show ?thesis using f enter_shape[OF shapeD(2)[OF assms(1)]] by (simp add: flows_def)
  qed (use f in \<open>simp add: flows_def mem_shape_def\<close>)
qed (simp_all add: flushes_def divides_def mem_shape_def)

lemma keep_front:
  assumes "pl_shape x"
  shows "squash_next i x \<Longrightarrow> inflight_next i x" "\<not> (id_valid (id_next i x) \<and> inflight_next i x)"
proof -
  show "inflight_next i x" if "squash_next i x"
    using that shapeD(5)[OF assms] by (auto simp: squash_next_def inflight_next_def split: if_splits)
  show "\<not> (id_valid (id_next i x) \<and> inflight_next i x)"
    using shapeD(6)[OF assms]
    by (auto simp: id_next_def inflight_next_def if_fire_def if_can_issue_def rsp_arriving_def irq_inject_def Let_def)
qed

lemma idle_no_stall: "\<not> pipe_busy x \<Longrightarrow> \<not> stall_id x"
  by (simp add: pipe_busy_def stall_id_def stall_ex_def stall_mem_def mem_csrw_satp_def ex_div_stall_def load_use_hazard_def
      serial_inflight_def Let_def)

lemma mem_next_valid:
  assumes "pl_shape x" "pl_env i x"
  shows "me_valid (mem_next i x) \<longleftrightarrow> \<not> wb_redirect x \<and> (if stall_mem x then True else \<not> stall_ex x \<and> ex_valid (pl_ex x))"
  using moves[OF assms]
  by (elim disjE) (auto simp: flushes_def mem_waits_def divides_def flows_def stall_ex_def dest: redirect_no_stall[OF assms])

lemma mem_next_new:
  assumes "\<not> wb_redirect x" "\<not> stall_ex x" "ex_valid (pl_ex x)"
  shows "mem_next i x = mem_enter x"
  using assms by (simp add: mem_next_def stall_ex_def Let_def)

lemma mem_next_keeps:
  assumes "stall_mem x" "\<not> wb_redirect x"
  shows "me_instr (mem_next i x) = me_instr (pl_mem x)" "me_pc (mem_next i x) = me_pc (pl_mem x)" "me_trap (mem_next i x) = me_trap (pl_mem x)"
  using assms by (simp_all add: mem_next_def Let_def)

lemma stall_mem_valid: "stall_mem x \<Longrightarrow> me_valid (pl_mem x)"
  by (auto simp: stall_mem_def mem_csrw_satp_def)

lemma keep_irq:
  assumes "pl_shape x" "pl_env i x" "id_valid (id_next i x)" "id_irq (id_next i x)"
  shows "\<not> pipe_busy (pl_step P False i x)"
proof -
  have "irq_inject i x"
  proof (rule ccontr)
    assume n: "\<not> irq_inject i x"
    then have d: "id_next i x = pl_id x" and s: "stall_id x" using assms(3,4)
      by (auto simp: id_next_def Let_def split: if_splits)
    then have "\<not> pipe_busy x" using shapeD(7)[OF assms(1)] assms(3,4) by simp
    then show False using idle_no_stall s by blast
  qed
  then have q: "\<not> pipe_busy x" "id_will_bubble i x" by (auto simp: irq_inject_def id_will_bubble_def)
  then have "\<not> ex_valid (pl_ex x)" "\<not> me_valid (pl_mem x)" "\<not> stall_mem x" by (auto simp: pipe_busy_def dest: stall_mem_valid)
  then show ?thesis using q(2) by (simp add: pipe_busy_def mem_next_valid[OF assms(1,2)] ex_next_valid issues_def)
qed

lemma keep_pairs:
  assumes s: "pl_shape x" and e: "pl_env i x"
  shows "id_valid (id_next i x) \<and> ex_valid (ex_next i x) \<Longrightarrow> is_div_variant (ex_instr (ex_next i x))"
    "ex_valid (ex_next i x) \<and> me_valid (mem_next i x) \<Longrightarrow> is_div_variant (me_instr (mem_next i x))"
    "me_valid (mem_next i x) \<and> wb_valid (wb_next x) \<Longrightarrow> is_div_variant (wb_instr (wb_next x))"
proof -
  show "is_div_variant (ex_instr (ex_next i x))" if v: "id_valid (id_next i x) \<and> ex_valid (ex_next i x)"
  proof (cases "stall_ex x")
    case True
    then show ?thesis using v ex_stays(3)[OF s True] by (simp add: ex_next_cases)
  next
    case False
    then have "issues i x" using v by (simp add: ex_next_valid)
    then show ?thesis using issuesD(5)[OF s] v by blast
  qed
  show "is_div_variant (me_instr (mem_next i x))" if v: "ex_valid (ex_next i x) \<and> me_valid (mem_next i x)"
  proof -
    have r: "\<not> wb_redirect x" using v mem_next_valid[OF s e] by simp
    show ?thesis
    proof (cases "stall_ex x")
      case True
      then have "ex_valid (pl_ex x)" using v by (simp add: ex_next_valid)
      then have "\<not> stall_mem x" by (rule no_stall_behind(1)[OF s])
      then show ?thesis using v True by (simp add: mem_next_valid[OF s e])
    next
      case False
      then have i: "issues i x" using v by (simp add: ex_next_valid)
      have "\<not> stall_mem x" using False by (simp add: stall_ex_def)
      then have x: "ex_valid (pl_ex x)" using v by (simp add: mem_next_valid[OF s e])
      then have "is_div_variant (ex_instr (pl_ex x))" using shapeD(8)[OF s] issuesD(1)[OF s i] by blast
      then show ?thesis using mem_next_new[OF r False x] by simp
    qed
  qed
  show "is_div_variant (wb_instr (wb_next x))" if v: "me_valid (mem_next i x) \<and> wb_valid (wb_next x)"
  proof -
    have "me_valid (pl_mem x)" "\<not> stall_mem x" using v by simp_all
    moreover from this have "ex_valid (pl_ex x)" using v by (simp add: mem_next_valid[OF s e])
    ultimately show ?thesis using shapeD(9)[OF s] by simp
  qed
qed

lemma keep_serial:
  assumes s: "pl_shape x" and e: "pl_env i x"
  shows "ex_valid (ex_next i x) \<and> id_serial (ex_instr (ex_next i x)) \<Longrightarrow> \<not> me_valid (mem_next i x) \<and> \<not> wb_valid (wb_next x)"
    "me_valid (mem_next i x) \<and> id_serial (me_instr (mem_next i x)) \<Longrightarrow> \<not> ex_valid (ex_next i x) \<and> \<not> wb_valid (wb_next x)"
    "wb_valid (wb_next x) \<and> id_serial (wb_instr (wb_next x)) \<Longrightarrow> \<not> ex_valid (ex_next i x) \<and> \<not> me_valid (mem_next i x)"
proof -
  show "\<not> me_valid (mem_next i x) \<and> \<not> wb_valid (wb_next x)" if v: "ex_valid (ex_next i x) \<and> id_serial (ex_instr (ex_next i x))"
  proof (cases "stall_ex x")
    case True
    then have "is_div_variant (ex_instr (ex_next i x))" using v ex_stays(3)[OF s True] by (simp add: ex_next_cases)
    then show ?thesis using v div_class(3) by blast
  next
    case False
    then have i: "issues i x" using v by (simp add: ex_next_valid)
    then have "\<not> pipe_busy x" using v False issuesD(6)[OF s i] by (simp add: ex_next_cases)
    then show ?thesis by (auto simp: pipe_busy_def mem_next_valid[OF s e] dest: stall_mem_valid)
  qed
  show "\<not> ex_valid (ex_next i x) \<and> \<not> wb_valid (wb_next x)" if v: "me_valid (mem_next i x) \<and> id_serial (me_instr (mem_next i x))"
  proof (cases "stall_mem x")
    case True
    then have "\<not> ex_valid (pl_ex x)" using no_stall_behind(1)[OF s] by blast
    then show ?thesis using True by (simp add: ex_next_valid stall_ex_def)
  next
    case False
    then have m: "\<not> wb_redirect x" "\<not> stall_ex x" "ex_valid (pl_ex x)" using v by (simp_all add: mem_next_valid[OF s e])
    then have sr: "id_serial (ex_instr (pl_ex x))" using v mem_next_new[OF m] by simp
    then have "\<not> issues i x" using issuesD(7)[OF s] m(3) unfolding serial_flags[OF s] by blast
    then show ?thesis using shapeD(11)[OF s m(3) sr] m by (simp add: ex_next_valid)
  qed
  show "\<not> ex_valid (ex_next i x) \<and> \<not> me_valid (mem_next i x)" if v: "wb_valid (wb_next x) \<and> id_serial (wb_instr (wb_next x))"
  proof -
    have m: "me_valid (pl_mem x)" "\<not> stall_mem x" "id_serial (me_instr (pl_mem x))" using v by simp_all
    then have "\<not> issues i x" using issuesD(7)[OF s] unfolding serial_flags[OF s] by blast
    moreover have "\<not> ex_valid (pl_ex x)" using shapeD(12)[OF s m(1,3)] by simp
    ultimately show ?thesis using m by (simp add: ex_next_valid mem_next_valid[OF s e])
  qed
qed

lemma pl_shape_step:
  assumes "pl_shape x" "pl_env i x"
  shows "pl_shape (pl_step P False i x)"
  unfolding pl_shape_def pl_sel
  using id_next_shape[OF shapeD(1)[OF assms(1)] assms(2)] keep_ex[OF assms] keep_mem[OF assms] retire_shape[OF shapeD(3)[OF assms(1)]]
    keep_front[OF assms(1), of i] keep_irq[OF assms] keep_pairs[OF assms] keep_serial[OF assms]
  by (intro conjI impI) auto

lemma pl_shape_reset: "pl_shape (pl_step P True i x)"
  by (simp add: pl_step_def pl_shape_def id_reset_def ex_reset_def mem_reset_def wb_reset_def id_shape_def ex_shape_def mem_shape_def
      wb_shape_def pipe_busy_def)

end
