(* ===== verification/Pipe_Hist.thy ===== *)
theory Pipe_Hist
  imports Pipe_Keep Core_Run
begin

text \<open>
  What a run of the pipelined core has done: the beats of the data port that belong to the instructions in MEM and
  WB, and the state of the hart after the last commit. None of it is read by the core.
\<close>

unbundle bit_operations_syntax

section \<open>History\<close>

text \<open>Where the contents of a stage come from: memory, an interrupt, or a fetch that failed.\<close>

datatype source = Isa | Irq u32 | Refused u32

record dm_reply =
  rp_fault :: bool
  rp_pagefault :: bool
  rp_data :: u32

type_synonym dm_beats = "(bus_req \<times> dm_reply) list"

record hist =
  h_pc :: u32
  h_resv :: "30 word option"
  h_mem_src :: source
  h_wb_src :: source
  h_req :: "bus_req option"
  h_mem_beats :: dm_beats
  h_wb_beats :: dm_beats
  h_fetch :: "u32 option"

definition ex_source :: "ex_reg \<Rightarrow> source" where
  "ex_source e = (if ex_irq e then Irq (ex_irq_cause e) else if ex_fetch_pagefault e then Refused CAUSE_INSN_PAGE_FAULT
     else if ex_fetch_fault e then Refused CAUSE_INSN_ACCESS_FAULT else Isa)"

definition reply_of :: "mc_in \<Rightarrow> dm_reply" where
  "reply_of i = \<lparr>rp_fault = ni_dm_fault i, rp_pagefault = ni_dm_pagefault i, rp_data = ni_dm_rdata i\<rparr>"

text \<open>The pc after an instruction that does not redirect from WB, over registers \<open>R\<close>.\<close>

definition npc_of :: "u32 \<Rightarrow> u32 \<Rightarrow> regs \<Rightarrow> u32" where
  "npc_of w pc R = next_pc w pc (rf_read R (rs1_i w)) (rf_read R (rs2_i w))"

text \<open>The pc after the instruction in WB, and the reservation after it.\<close>

definition pc_after :: "mc_in \<Rightarrow> pl \<Rightarrow> u32" where
  "pc_after i x = (if wb_redirect x then wb_redirect_pc i x else npc_of (wb_instr (pl_wb x)) (wb_pc (pl_wb x)) (pl_rf x))"

definition resv_after :: "pl \<Rightarrow> 30 word option \<Rightarrow> 30 word option" where
  "resv_after x rv =
     (let w = wb_instr (pl_wb x) in
      if wb_trap (pl_wb x) then None
      else if is_lr w then Some (fld 2 (dp_addr w (wb_pc (pl_wb x)) (pl_rf x)))
      else if is_sc w \<or> is_amo_rmw w then None
      else rv)"

text \<open>
  A beat that failed is the last of its instruction. (The load beat of an atomic operation that ends in a page fault is
  followed by the store beat all the same; that one is not recorded.)
\<close>

definition beat_failed :: "bus_req \<times> dm_reply \<Rightarrow> bool" where
  "beat_failed t = (rp_fault (snd t) \<or> rp_pagefault (snd t))"

definition hist_reset :: "u32 \<Rightarrow> hist" where
  "hist_reset P = \<lparr>h_pc = P, h_resv = None, h_mem_src = Isa, h_wb_src = Isa, h_req = None, h_mem_beats = [], h_wb_beats = [],
     h_fetch = None\<rparr>"

definition hist_step :: "mc_in \<Rightarrow> pl \<Rightarrow> hist \<Rightarrow> hist" where
  "hist_step i x h =
     \<lparr>h_pc = (if wb_valid (pl_wb x) then pc_after i x else h_pc h),
      h_resv = (if wb_valid (pl_wb x) then resv_after x (h_resv h) else h_resv h),
      h_mem_src = (if stall_mem x then h_mem_src h else ex_source (pl_ex x)),
      h_wb_src = h_mem_src h,
      h_req = (if mem_rsp i x \<or> wb_redirect x then None else if rq_valid (pl_dm x) \<and> ni_dm_ready i then Some (pl_dm x) else h_req h),
      h_mem_beats = (if \<not> stall_mem x then []
        else if mem_rsp i x \<and> \<not> (\<exists>t\<in>set (h_mem_beats h). beat_failed t)
        then h_mem_beats h @ [(case h_req h of Some q \<Rightarrow> q | None \<Rightarrow> pl_dm x, reply_of i)]
        else h_mem_beats h),
      h_wb_beats = h_mem_beats h,
      h_fetch = (if if_fire i x then Some (pl_pc x) else if ni_if_rsp i then None else h_fetch h)\<rparr>"

lemma hist_sel [simp]:
  "h_pc (hist_step i x h) = (if wb_valid (pl_wb x) then pc_after i x else h_pc h)"
  "h_resv (hist_step i x h) = (if wb_valid (pl_wb x) then resv_after x (h_resv h) else h_resv h)"
  "h_mem_src (hist_step i x h) = (if stall_mem x then h_mem_src h else ex_source (pl_ex x))"
  "h_wb_src (hist_step i x h) = h_mem_src h"
  "h_req (hist_step i x h) = (if mem_rsp i x \<or> wb_redirect x then None else if rq_valid (pl_dm x) \<and> ni_dm_ready i then Some (pl_dm x) else h_req h)"
  "h_wb_beats (hist_step i x h) = h_mem_beats h"
  "h_fetch (hist_step i x h) = (if if_fire i x then Some (pl_pc x) else if ni_if_rsp i then None else h_fetch h)"
  by (simp_all add: hist_step_def)

text \<open>
  What the beats of an instruction make of its meaning: each request is the access asked for, each reply is passed
  on, a fault ends it.
\<close>

primrec play :: "act \<Rightarrow> dm_beats \<Rightarrow> act option" where
  "play (Retire wr npc rv) ts = (if ts = [] then Some (Retire wr npc rv) else None)"
| "play (Raise k t) ts = (if ts = [] then Some (Raise k t) else None)"
| "play (Compute a) ts = play a ts"
| "play (Access op a) ts = (case ts of [] \<Rightarrow> None | (q, r) # _ \<Rightarrow> if op_matches op q then play a ts else None)"
| "play (Await st t f) ts =
     (case ts of [] \<Rightarrow> None
      | (q, r) # us \<Rightarrow>
          if rp_pagefault r \<or> rp_fault r
          then (if us = [] then Some (Raise (if rp_pagefault r then (if st then CAUSE_STORE_PAGE_FAULT else CAUSE_LOAD_PAGE_FAULT)
                  else (if st then CAUSE_STORE_ACCESS_FAULT else CAUSE_LOAD_ACCESS_FAULT)) t) else None)
          else play (f (rp_data r)) us)"

section \<open>Views of the registers\<close>

text \<open>The registers once WB has written, and once MEM has.\<close>

definition regs_wb :: "pl \<Rightarrow> regs" where
  "regs_wb x = rf_step (rf_wen x) (wb_rd (pl_wb x)) (wb_result (pl_wb x)) (pl_rf x)"

definition regs_mem :: "pl \<Rightarrow> regs" where
  "regs_mem x = rf_step (me_valid (pl_mem x) \<and> me_rd_wen (pl_mem x) \<and> me_has_result (pl_mem x)) (me_rd (pl_mem x)) (me_result (pl_mem x)) (regs_wb x)"

definition ex_snap :: "pl \<Rightarrow> bool" where
  "ex_snap x \<longleftrightarrow> (ex_valid (pl_ex x) \<and> \<not> pl_div_started x \<longrightarrow>
     ex_rs1_data (pl_ex x) = rf_read (pl_rf x) (rs1_i (ex_instr (pl_ex x))) \<and>
     ex_rs2_data (pl_ex x) = rf_read (pl_rf x) (rs2_i (ex_instr (pl_ex x))))"

lemma fwd_reads:
  assumes "wb_shape (pl_wb x)" "v = rf_read (pl_rf x) a"
  shows "ex_fwd x a v = rf_read (regs_mem x) a"
proof -
  have "wb_valid (pl_wb x) \<Longrightarrow> wb_rd_wen (pl_wb x) \<Longrightarrow> \<not> wb_trap (pl_wb x)" using assms(1) by (simp add: wb_shape_def Let_def)
  then show ?thesis by (auto simp: ex_fwd_def regs_mem_def regs_wb_def rf_wen_def assms(2))
qed

lemma snap_has:
  assumes "pl_shape x" "ex_snap x" "ex_valid (pl_ex x)" "\<not> pl_div_started x"
  shows "ex_has x (regs_mem x)"
proof -
  let ?w = "ex_instr (pl_ex x)"
  have c: "ex_fields (pl_ex x) = id_fields ?w" "ex_ctl (pl_ex x) = id_ctl ?w"
    using shapeD(2)[OF assms(1)] assms(3) by (simp_all add: ex_shape_def Let_def)
  have s: "ex_rs1_data (pl_ex x) = rf_read (pl_rf x) (rs1_i ?w)" "ex_rs2_data (pl_ex x) = rf_read (pl_rf x) (rs2_i ?w)"
    using assms(2-4) by (simp_all add: ex_snap_def)
  show ?thesis unfolding ex_has_def Let_def ex_rs1_def ex_rs2_def c
    using assms(3) c fwd_reads[OF shapeD(4)[OF assms(1)] s(1)] fwd_reads[OF shapeD(4)[OF assms(1)] s(2)] by simp
qed

text \<open>Unless WB holds a CSR access, the register file becomes the view behind WB.\<close>

lemma rf_next:
  assumes "pl_shape x" "wb_valid (pl_wb x) \<Longrightarrow> \<not> is_csr (wb_instr (pl_wb x))"
  shows "pl_rf (pl_step P False i x) = regs_wb x"
proof -
  have "wb_valid (pl_wb x) \<Longrightarrow> \<not> wb_is_csr (pl_wb x)" using assms(2) shapeD(4)[OF assms(1)] by (simp add: wb_shape_def Let_def)
  then show ?thesis by (auto simp: regs_wb_def wb_rd_data_def rf_step_def rf_wen_def)
qed

lemma no_csr_behind:
  assumes "pl_shape x" "ex_valid (pl_ex x) \<or> me_valid (pl_mem x)" "wb_valid (pl_wb x)"
  shows "\<not> is_csr (wb_instr (pl_wb x))"
proof
  assume "is_csr (wb_instr (pl_wb x))"
  then have "id_serial (wb_instr (pl_wb x))" by (simp add: id_serial_def)
  then show False using shapeD(13)[OF assms(1,3)] assms(2) by blast
qed

lemma div_passes:
  assumes "pl_shape x" "me_valid (pl_mem x)" "is_div_variant (me_instr (pl_mem x))"
  shows "\<not> mem_bus_op x" "me_has_result (pl_mem x) = me_rd_wen (pl_mem x)" "\<not> me_trap (pl_mem x)"
proof -
  let ?m = "pl_mem x"
  have n: "\<not> mem_insn (me_instr ?m)" "\<not> is_csr (me_instr ?m)" "\<not> is_sc (me_instr ?m)" using div_class[OF assms(3)] by blast+
  have s: "mem_shape ?m" by (rule shapeD(3)[OF assms(1)])
  show "\<not> mem_bus_op x" using bus_op_iff[OF s assms(2)] n by simp
  show "\<not> me_trap ?m" "me_has_result ?m = me_rd_wen ?m" using s assms(2,3) n by (auto simp: mem_shape_def Let_def)
qed

text \<open>Behind a full EX, the view after MEM becomes the view after WB.\<close>

lemma views_move:
  assumes "pl_shape x" "ex_valid (pl_ex x)" "\<not> wb_redirect x"
  shows "regs_wb (pl_step P False i x) = regs_mem x"
proof -
  have r: "pl_rf (pl_step P False i x) = regs_wb x" using rf_next[OF assms(1)] no_csr_behind[OF assms(1)] assms(2) by blast
  have s: "\<not> stall_mem x" by (rule no_stall_behind(1)[OF assms(1,2)])
  show ?thesis
  proof (cases "me_valid (pl_mem x)")
    case False
    then show ?thesis unfolding regs_wb_def[of "pl_step P False i x"] r by (simp add: rf_wen_def regs_mem_def rf_step_def)
  next
    case True
    note d = div_passes[OF assms(1) True shapeD(9)[OF assms(1,2) True]]
    show ?thesis unfolding regs_wb_def[of "pl_step P False i x"] r
      using True s assms(3) d by (simp add: rf_wen_def regs_mem_def rf_step_def wb_next_def Let_def)
  qed
qed

text \<open>While MEM waits.\<close>

lemma views_wait:
  assumes "pl_shape x" "stall_mem x"
  shows "regs_wb (pl_step P False i x) = regs_wb x"
proof -
  have "pl_rf (pl_step P False i x) = regs_wb x"
    using rf_next[OF assms(1)] no_csr_behind[OF assms(1)] stall_mem_valid[OF assms(2)] by blast
  then show ?thesis using assms(2) unfolding regs_wb_def[of "pl_step P False i x"] by (simp add: rf_wen_def rf_step_def)
qed

text \<open>What ID reads is the register file after the write of this cycle.\<close>

lemma operand_reads: "id_operand i x rs = rf_read (pl_rf (pl_step P False i x)) rs"
  by (auto simp: id_operand_def)

lemma keep_snap:
  assumes "pl_shape x" "pl_env i x"
  shows "ex_snap (pl_step P False i x)"
proof (cases "stall_ex x")
  case True
  show ?thesis
  proof (cases "ex_valid (pl_ex x)")
    case v: True
    note st = ex_stays[OF assms(1) True v]
    have "\<not> wb_redirect x" using redirect_no_stall[OF assms] True by blast
    then have "pl_div_started (pl_step P False i x)"
      using st True v by (auto simp: div_started_next_def ex_div_start_def div_clear_def ex_div_stall_def)
    then show ?thesis by (simp add: ex_snap_def)
  qed (use True in \<open>simp add: ex_snap_def ex_next_cases\<close>)
next
  case False
  show ?thesis
  proof (cases "issues i x")
    case True
    show ?thesis unfolding ex_snap_def pl_sel(6) ex_next_cases if_not_P[OF False] if_P[OF True] ex_reg.simps
      by (simp only: operand_reads simp_thms)
  qed (use False in \<open>simp add: ex_snap_def ex_next_cases\<close>)
qed

section \<open>The divider\<close>

definition div_rests :: "pl \<Rightarrow> bool" where
  "div_rests x \<longleftrightarrow> dv_state (pl_div x) = S_IDLE \<and> \<not> dv_done (pl_div x)"

definition pl_div_inv :: "pl \<Rightarrow> bool" where
  "pl_div_inv x \<longleftrightarrow>
     (if ex_valid (pl_ex x) \<and> is_div_variant (ex_instr (pl_ex x))
      then (let q = dp_quot (ex_instr (pl_ex x)) (regs_mem x) in
            if \<not> pl_div_started x then \<not> pl_div_done x \<and> div_rests x
            else if \<not> pl_div_done x then div_goal (pl_div x) q
            else div_rests x \<and> pl_div_result x = q)
      else \<not> pl_div_started x \<and> \<not> pl_div_done x \<and> div_rests x)"

lemma rests_stay:
  assumes "div_rests x" "\<not> ex_div_start x"
  shows "div_rests (pl_step P False i x)"
proof -
  have "\<not> di_start (ex_div_input x)" using assms(2) by (simp add: ex_div_input_def Let_def)
  then show ?thesis using assms(1) by (simp add: div_rests_def div_step_def Let_def)
qed

lemma keep_div_waiting:
  assumes s: "pl_shape x" "pl_env i x" "ex_snap x" "pl_div_inv x" and st: "stall_ex x" "ex_valid (pl_ex x)"
  shows "pl_div_inv (pl_step P False i x)"
proof -
  let ?y = "pl_step P False i x"
  let ?w = "ex_instr (pl_ex x)"
  note e = ex_stays[OF s(1) st]
  have r: "\<not> wb_redirect x" using redirect_no_stall[OF s(1,2)] st by blast
  have nd: "\<not> pl_div_done x" and cl: "\<not> div_clear x" using e(1) st(1) r by (auto simp: ex_div_stall_def div_clear_def)
  have y: "pl_ex ?y = pl_ex x" using st by (simp add: ex_next_cases)
  have "\<not> me_valid (mem_next i x)" using st e(2) by (simp add: mem_next_valid[OF s(1,2)])
  then have v: "regs_mem ?y = regs_mem x" using views_move[OF s(1) st(2) r, of P i] by (simp add: regs_mem_def[of ?y] rf_step_def)
  have started: "pl_div_started ?y" using e st(2) r cl nd by (auto simp: div_started_next_def ex_div_start_def ex_div_stall_def)
  have ct: "ct_div (ex_ctl (pl_ex x))" using e(1) by (simp add: ex_div_stall_def)
  let ?q = "dp_quot ?w (regs_mem x)"
  have "if \<not> pl_div_done ?y then div_goal (pl_div ?y) ?q else div_rests ?y \<and> pl_div_result ?y = ?q"
  proof (cases "pl_div_started x")
    case False
    have h: "ex_has x (regs_mem x)" by (rule snap_has[OF s(1,3) st(2) False])
    have rest: "div_rests x" using s(4) e(3) st(2) False by (simp add: pl_div_inv_def)
    have go: "ex_div_start x" using e r False nd st(2) ct by (simp add: ex_div_start_def)
    have q: "rv_div (di_signed (ex_div_input x)) (di_want_rem (ex_div_input x)) (di_dividend (ex_div_input x)) (di_divisor (ex_div_input x)) = ?q"
      using h by (simp add: ex_div_input_def dp_quot_def ex_has_def Let_def)
    have "div_goal (pl_div ?y) ?q"
      using div_goal_start[of "pl_div x" "ex_div_input x"] rest go unfolding q by (simp add: div_rests_def ex_div_input_def Let_def)
    moreover have "\<not> pl_div_done ?y" using nd rest by (simp add: div_done_next_def div_rests_def)
    ultimately show ?thesis by simp
  next
    case True
    have g: "div_goal (pl_div x) ?q" using s(4) e(3) st(2) True nd by (simp add: pl_div_inv_def)
    have no: "\<not> ex_div_start x" using True by (simp add: ex_div_start_def)
    show ?thesis
    proof (cases "dv_done (pl_div x)")
      case d: True
      then have "dv_result (pl_div x) = ?q" "dv_state (pl_div x) = S_IDLE" using div_goal_step[OF g] by simp_all
      moreover have "\<not> di_start (ex_div_input x)" using no by (simp add: ex_div_input_def Let_def)
      ultimately show ?thesis using d cl
        by (simp add: div_done_next_def div_result_next_def div_rests_def div_step_def Let_def)
    next
      case d: False
      then show ?thesis using div_goal_step[OF g, of "ex_div_input x"] nd by (simp add: div_done_next_def)
    qed
  qed
  then show ?thesis using started e(3) st(2) unfolding pl_div_inv_def y v Let_def by (simp del: pl_sel)
qed

lemma keep_div_moving:
  assumes s: "pl_shape x" "pl_env i x" "pl_div_inv x" and st: "\<not> stall_ex x \<or> \<not> ex_valid (pl_ex x)"
  shows "pl_div_inv (pl_step P False i x)"
proof -
  let ?y = "pl_step P False i x"
  have c: "ex_valid (pl_ex x) \<Longrightarrow> ct_div (ex_ctl (pl_ex x)) = is_div_variant (ex_instr (pl_ex x))"
    using shapeD(2)[OF s(1)] by (simp add: ex_shape_def Let_def)
  have none: "\<not> ex_div_start x \<and> div_rests x \<and> \<not> pl_div_started ?y \<and> \<not> pl_div_done ?y"
  proof (cases "ex_valid (pl_ex x) \<and> is_div_variant (ex_instr (pl_ex x))")
    case True
    then have dn: "pl_div_done x" using st c by (auto simp: stall_ex_def ex_div_stall_def)
    then have "pl_div_started x" "div_rests x" using s(3) True by (auto simp: pl_div_inv_def Let_def split: if_splits)
    moreover have "div_clear x" using True st dn c by (simp add: div_clear_def)
    ultimately show ?thesis using dn by (simp add: ex_div_start_def div_started_next_def div_done_next_def)
  next
    case False
    then have "\<not> ex_div_start x" using c by (auto simp: ex_div_start_def)
    then show ?thesis using s(3) False by (auto simp: pl_div_inv_def div_started_next_def div_done_next_def div_rests_def split: if_splits)
  qed
  then have "div_rests ?y" using rests_stay by blast
  then show ?thesis using none by (simp add: pl_div_inv_def Let_def)
qed

lemma keep_div:
  assumes "pl_shape x" "pl_env i x" "ex_snap x" "pl_div_inv x"
  shows "pl_div_inv (pl_step P False i x)"
  using keep_div_waiting[OF assms] keep_div_moving[OF assms(1,2,4)] by blast

text \<open>So EX has its operands, and a divide that leaves it its result.\<close>

lemma ex_ready:
  assumes "pl_shape x" "ex_snap x" "pl_div_inv x" "ex_valid (pl_ex x)"
  shows "\<not> is_div_variant (ex_instr (pl_ex x)) \<Longrightarrow> ex_has x (regs_mem x)"
    "is_div_variant (ex_instr (pl_ex x)) \<Longrightarrow> \<not> stall_ex x \<Longrightarrow> pl_div_result x = dp_quot (ex_instr (pl_ex x)) (regs_mem x)"
proof -
  show "ex_has x (regs_mem x)" if "\<not> is_div_variant (ex_instr (pl_ex x))"
    using snap_has[OF assms(1,2,4)] assms(3) that by (simp add: pl_div_inv_def)
  show "pl_div_result x = dp_quot (ex_instr (pl_ex x)) (regs_mem x)" if "is_div_variant (ex_instr (pl_ex x))" "\<not> stall_ex x"
  proof -
    have "ct_div (ex_ctl (pl_ex x))" using shapeD(2)[OF assms(1)] assms(4) that(1) by (simp add: ex_shape_def Let_def)
    then have "pl_div_done x" using that(2) assms(4) by (simp add: stall_ex_def ex_div_stall_def)
    then show ?thesis using assms(3,4) that(1) by (auto simp: pl_div_inv_def Let_def split: if_splits)
  qed
qed

end
