(* ===== verification/Pipe_Mem.thy ===== *)
theory Pipe_Mem
  imports Pipe_Hist
begin

text \<open>
  What MEM holds: the data of its instruction over the registers behind WB, and the beats it has had on the data port.
\<close>

unbundle bit_operations_syntax

section \<open>Data\<close>

fun src_trap :: "source \<Rightarrow> u32 \<Rightarrow> (u32 \<times> u32) option" where
  "src_trap Isa pc = None"
| "src_trap (Irq k) pc = Some (k, 0)"
| "src_trap (Refused k) pc = Some (k, pc)"

definition csr_operand :: "u32 \<Rightarrow> regs \<Rightarrow> u32" where
  "csr_operand w R = (if bit (funct3 w) 2 then ucast (rs1_i w) else rf_read R (rs1_i w))"

definition holds_data :: "source \<Rightarrow> mem_reg \<Rightarrow> regs \<Rightarrow> csrs \<Rightarrow> bool" where
  "holds_data s m R c \<longleftrightarrow> (let w = me_instr m; pc = me_pc m; t = (if me_trap m then Some (me_cause m, me_tval m) else None) in
     (if s = Isa then (\<not> reserved w \<longrightarrow> t = dp_trap w pc R c) else t = src_trap s pc) \<and>
     (\<not> me_trap m \<longrightarrow>
       (mem_insn w \<longrightarrow> me_alu_y m = dp_addr w pc R \<and> me_amo_rs2 m = rf_read R (rs2_i w) \<and>
          (me_store_wdata m, me_store_wmask m) = store_lanes w (dp_addr w pc R) (rf_read R (rs2_i w))) \<and>
       (me_has_result m \<and> \<not> is_sc w \<longrightarrow> (\<forall>v. me_result m = dp_val w pc R v)) \<and>
       (is_csr w \<longrightarrow> me_csr_wdata m = csr_operand w R)))"

definition mem_data :: "source \<Rightarrow> pl \<Rightarrow> bool" where
  "mem_data s x \<longleftrightarrow> (me_valid (pl_mem x) \<longrightarrow> holds_data s (pl_mem x) (regs_wb x) (pl_csr x))"

lemma dp_trap_crit: "crit c' = crit c \<Longrightarrow> dp_trap w pc R c' = dp_trap w pc R c"
proof -
  assume a: "crit c' = crit c"
  then have p: "priv_mode c' = priv_mode c" "mstatus c' = mstatus c" by (simp_all add: crit_def)
  show ?thesis by (simp only: dp_trap_def exec_trap_def crit_illegal(2)[OF a] p)
qed

lemma div_dp_trap: "is_div_variant w \<Longrightarrow> dp_trap w pc R c = None"
proof -
  assume "is_div_variant w"
  then have "opcode w = 0x33" "funct7 w = 1" by (simp_all add: class_defs)
  then show ?thesis by (simp add: dpt op_legal_def)
qed

lemma src_traps:
  assumes "ex_valid (pl_ex x)" "ex_source (pl_ex x) \<noteq> Isa"
  shows "ex_trap x = src_trap (ex_source (pl_ex x)) (ex_pc (pl_ex x))"
  using assms
  by (cases "ex_irq (pl_ex x)"; cases "ex_fetch_pagefault (pl_ex x)"; cases "ex_fetch_fault (pl_ex x)"; simp add: ex_source_def ex_trap_def Let_def)

lemma enter_trap:
  assumes "pl_shape x" "ex_snap x" "pl_div_inv x" "ex_valid (pl_ex x)" "ex_source (pl_ex x) = Isa" "\<not> reserved (ex_instr (pl_ex x))"
  shows "ex_trap x = dp_trap (ex_instr (pl_ex x)) (ex_pc (pl_ex x)) (regs_mem x) (pl_csr x)"
proof (cases "is_div_variant (ex_instr (pl_ex x))")
  case True
  then show ?thesis using div_dp_trap div_no_trap[OF shapeD(2)[OF assms(1)]] by simp
next
  case False
  have s: "\<not> ex_irq (pl_ex x)" "\<not> ex_fetch_pagefault (pl_ex x)" "\<not> ex_fetch_fault (pl_ex x)"
    using assms(5) by (auto simp: ex_source_def split: if_splits)
  have "ex_illegal (pl_ex x) = id_illegal (ex_instr (pl_ex x)) (pl_csr x)"
    using shapeD(2)[OF assms(1)] assms(4) by (simp add: ex_shape_def Let_def)
  then show ?thesis using ex_trap_meaning[OF ex_ready(1)[OF assms(1-4) False] refl assms(6) s] by blast
qed

lemma enter_value:
  assumes "pl_shape x" "ex_snap x" "pl_div_inv x" "ex_valid (pl_ex x)" "\<not> stall_ex x"
    and w: "w = ex_instr (pl_ex x)" and "writes_rd w" "\<not> mem_insn w" "\<not> is_csr w"
  shows "ex_arith_wb x = dp_val w (ex_pc (pl_ex x)) (regs_mem x) v"
proof (cases "is_div_variant w")
  case True
  have "ct_div (ex_ctl (pl_ex x))" using shapeD(2)[OF assms(1)] assms(4) True by (simp add: ex_shape_def Let_def w)
  then show ?thesis using ex_ready(2)[OF assms(1-4)] True assms(5,9) by (simp add: ex_arith_wb_def dp_val_def w)
next
  case False
  have "\<not> is_amo w"
  proof
    assume a: "is_amo w"
    show False using class_excl(3)[OF a] class_sub(1)[of w] assms(7,8,9) by (simp add: writes_rd_def mem_insn_def)
  qed
  then show ?thesis using ex_value[OF ex_ready(1)[OF assms(1-4)] refl, of v] False assms(9) by (simp add: w)
qed

lemma enter_data:
  assumes "pl_shape x" "ex_snap x" "pl_div_inv x" "ex_valid (pl_ex x)" "\<not> stall_ex x"
  shows "holds_data (ex_source (pl_ex x)) (mem_enter x) (regs_mem x) (pl_csr x)"
proof -
  define w where "w = ex_instr (pl_ex x)"
  have c: "ex_ctl (pl_ex x) = id_ctl w" "ex_fields (pl_ex x) = id_fields w"
    using shapeD(2)[OF assms(1)] assms(4) by (simp_all add: ex_shape_def Let_def w_def)
  have nd: "mem_insn w \<or> is_csr w \<Longrightarrow> \<not> is_div_variant w" using div_class by blast
  have h: "ex_has x (regs_mem x)" if "mem_insn w \<or> is_csr w" using ex_ready(1)[OF assms(1-4)] nd[OF that] by (simp add: w_def)
  have t: "(if me_trap (mem_enter x) then Some (me_cause (mem_enter x), me_tval (mem_enter x)) else None) = ex_trap x"
    by (cases "ex_trap x") (auto simp: mem_enter_def Let_def)
  have m: "me_alu_y (mem_enter x) = dp_addr w (ex_pc (pl_ex x)) (regs_mem x) \<and> me_amo_rs2 (mem_enter x) = rf_read (regs_mem x) (rs2_i w) \<and>
      (me_store_wdata (mem_enter x), me_store_wmask (mem_enter x)) = store_lanes w (dp_addr w (ex_pc (pl_ex x)) (regs_mem x)) (rf_read (regs_mem x) (rs2_i w))"
    if im: "mem_insn w"
  proof -
    have h: "ex_has x (regs_mem x)" using h im by blast
    have a: "ls_addr x = dp_addr w (ex_pc (pl_ex x)) (regs_mem x)" using ex_addr[OF h] im by (simp add: w_def)
    have l: "ex_store_lanes x = store_lanes w (dp_addr w (ex_pc (pl_ex x)) (regs_mem x)) (rf_read (regs_mem x) (rs2_i w))"
      using ex_lanes[OF h refl] a by (simp add: w_def)
    have "ex_rs2 x = rf_read (regs_mem x) (rs2_i w)" using h by (simp add: ex_has_def w_def Let_def)
    moreover have "ct_load (id_ctl w) \<or> ct_store (id_ctl w) \<or> ct_atomic (id_ctl w)" using im by (auto simp: mem_insn_def ct_atomic_def)
    ultimately show ?thesis by (simp add: mem_enter_def Let_def c a l)
  qed
  have v: "me_result (mem_enter x) = dp_val w (ex_pc (pl_ex x)) (regs_mem x) v" if "me_has_result (mem_enter x)" "\<not> is_sc w" for v
  proof -
    have "writes_rd w" "\<not> mem_insn w" "\<not> is_csr w" "me_result (mem_enter x) = ex_arith_wb x"
      using that mem_excl(2)[of w] by (auto simp: mem_enter_def Let_def c id_writes_rd mem_insn_def)
    then show ?thesis using enter_value[OF assms w_def] by simp
  qed
  have k: "me_csr_wdata (mem_enter x) = csr_operand w (regs_mem x)" if "is_csr w"
    using h that by (simp add: mem_enter_def Let_def c csr_operand_def ex_has_def w_def)
  show ?thesis unfolding holds_data_def Let_def t mem_enter_sel(2,3) w_def[symmetric]
    using m v k src_traps[OF assms(4)] enter_trap[OF assms(1-4)] by (simp add: w_def)
qed

lemma holds_same [simp]:
  "holds_data s (m\<lparr>me_amo_phase := p\<rparr>) R c = holds_data s m R c" "holds_data s (m\<lparr>me_ls_pending := p\<rparr>) R c = holds_data s m R c"
  by (simp_all add: holds_data_def)

lemma holds_crit: "crit c' = crit c \<Longrightarrow> holds_data s m R c' = holds_data s m R c"
  by (simp add: holds_data_def dp_trap_crit[of c' c])

lemma keep_data:
  assumes "pl_shape x" "pl_env i x" "ex_snap x" "pl_div_inv x" "mem_data (h_mem_src h) x"
  shows "mem_data (h_mem_src (hist_step i x h)) (pl_step P False i x)"
  using moves[OF assms(1,2)]
proof (elim disjE)
  assume f: "mem_waits i x"
  then have st: "stall_mem x" "me_valid (pl_mem x)" "\<not> wb_redirect x" by (simp_all add: mem_waits_def)
  note q = holds_crit[OF quiet_behind[OF assms(1) st(3) disjI2[OF st(2)]]]
  have "holds_data (h_mem_src h) (pl_mem x) (regs_wb x) (pl_csr x)" using assms(5) st(2) by (simp add: mem_data_def)
  then have "holds_data (h_mem_src h) (mem_next i x) (regs_wb x) (csr_step False (wb_csr_port i x) (pl_csr x))"
    using f by (simp add: mem_waits_def q)
  then show ?thesis using st(1) by (simp add: mem_data_def views_wait[OF assms(1) st(1)])
next
  assume f: "flows i x"
  then have r: "\<not> wb_redirect x" "\<not> stall_ex x" by (simp_all add: flows_def)
  show ?thesis
  proof (cases "ex_valid (pl_ex x)")
    case False
    then show ?thesis using f by (simp add: flows_def mem_data_def)
  next
    case True
    note q = holds_crit[OF quiet_behind[OF assms(1) r(1) disjI1[OF True]]]
    have "holds_data (ex_source (pl_ex x)) (mem_enter x) (regs_mem x) (csr_step False (wb_csr_port i x) (pl_csr x))"
      using enter_data[OF assms(1,3,4) True r(2)] by (simp add: q)
    then show ?thesis using f True r by (simp add: flows_def mem_data_def views_move[OF assms(1) True r(1)] stall_ex_def)
  qed
qed (simp_all add: flushes_def divides_def mem_data_def)

section \<open>Beats\<close>

text \<open>The accesses a memory instruction asks for.\<close>

definition first_op :: "u32 \<Rightarrow> u32 \<Rightarrow> u32 \<Rightarrow> mem_op" where
  "first_op w a r2 =
     (if is_store w then Wr (word_addr a) (\<lambda>d. apply_wmask d (fst (store_lanes w a r2)) (snd (store_lanes w a r2)))
      else if is_sc w then Wr (word_addr a) (\<lambda>_. r2) else Rd (word_addr a))"

definition amo_op :: "u32 \<Rightarrow> u32 \<Rightarrow> u32 \<Rightarrow> u32 \<Rightarrow> mem_op" where
  "amo_op w a old r2 = Wr (word_addr a) (\<lambda>_. amo_result w old r2)"

text \<open>The latches hold the last reply.\<close>

definition latched_reply :: "pl \<Rightarrow> dm_reply \<Rightarrow> bool" where
  "latched_reply x r \<longleftrightarrow> ml_bus_pagefault (pl_latch x) = rp_pagefault r \<and> (rp_pagefault r \<or> ml_bus_fault (pl_latch x) = rp_fault r)"

definition latched_word :: "pl \<Rightarrow> dm_reply \<Rightarrow> bool" where
  "latched_word x r \<longleftrightarrow> (let w = me_instr (pl_mem x) in
     (is_load w \<longrightarrow> ml_load_data (pl_latch x) = load_result (funct3 w) (me_alu_y (pl_mem x)) (rp_data r)) \<and>
     (is_lr w \<longrightarrow> ml_load_data (pl_latch x) = rp_data r))"

definition mem_beats :: "hist \<Rightarrow> pl \<Rightarrow> bool" where
  "mem_beats h x \<longleftrightarrow>
     (let m = pl_mem x; l = pl_latch x; w = me_instr m; a = me_alu_y m; r2 = me_amo_rs2 m; bs = h_mem_beats h in
      ml_req_fired l = (h_req h \<noteq> None) \<and> (\<not> (me_valid m \<and> me_ls_pending m) \<longrightarrow> h_req h = None) \<and>
      (me_valid m \<longrightarrow>
        (if \<not> (mem_bus_op x \<and> \<not> me_has_result m) then bs = []
         else if \<not> me_amo_phase m
         then (if me_ls_pending m then bs = [] \<and> (\<forall>q. h_req h = Some q \<longrightarrow> op_matches (first_op w a r2) q)
               else \<exists>q r. bs = [(q, r)] \<and> op_matches (first_op w a r2) q \<and> latched_reply x r \<and> latched_word x r \<and>
                 (is_amo_rmw w \<longrightarrow> rp_fault r))
         else (\<exists>q r us. bs = (q, r) # us \<and> op_matches (first_op w a r2) q \<and> \<not> rp_fault r \<and>
           (if rp_pagefault r then us = [] \<and> ml_bus_pagefault l
            else ml_amo_old l = rp_data r \<and>
           (if me_ls_pending m then us = [] \<and> (\<forall>q'. h_req h = Some q' \<longrightarrow> op_matches (amo_op w a (rp_data r) r2) q')
            else \<exists>q' r'. us = [(q', r')] \<and> op_matches (amo_op w a (rp_data r) r2) q' \<and> latched_reply x r'))))))"

lemma amo_data: "is_amo_rmw w \<Longrightarrow> me_amo_funct5 (pl_mem x) = amo_funct5 w \<Longrightarrow> amo_store_data x = amo_result w (ml_amo_old (pl_latch x)) (me_amo_rs2 (pl_mem x))"
  by (simp only: amo_store_data_def amo_result_def is_amo_rmw_def Let_def) (elim conjE insertE emptyE; simp)

text \<open>What MEM presents on the port is the access that is due.\<close>

lemma presents:
  assumes "mem_shape (pl_mem x)" "mem_data s x" "rq_valid (pl_dm x)"
  shows "if me_amo_phase (pl_mem x) then op_matches (amo_op (me_instr (pl_mem x)) (me_alu_y (pl_mem x)) (ml_amo_old (pl_latch x)) (me_amo_rs2 (pl_mem x))) (pl_dm x)
    else op_matches (first_op (me_instr (pl_mem x)) (me_alu_y (pl_mem x)) (me_amo_rs2 (pl_mem x))) (pl_dm x)"
proof -
  define m where "m = pl_mem x"
  define w where "w = me_instr m"
  have v: "me_valid m" "me_ls_pending m" "\<not> ml_req_fired (pl_latch x)" "mem_bus_op x" using assms(3) by (simp_all add: pl_dm_def m_def Let_def)
  have sh: "me_funct3 m = funct3 w" "me_amo_funct5 m = amo_funct5 w" "\<not> me_trap m" "mem_insn w" "me_amo_phase m \<longrightarrow> is_amo_rmw w"
    "me_is_store m = is_store w" "me_is_sc m = is_sc w" "me_is_amo_rmw m = is_amo_rmw w"
    using assms(1) v(1,2) by (simp_all add: mem_shape_def w_def m_def Let_def)
  have d: "(me_store_wdata m, me_store_wmask m) = store_lanes w (me_alu_y m) (me_amo_rs2 m)"
    using assms(2) v(1) sh(3,4) by (simp add: mem_data_def holds_data_def w_def m_def Let_def)
  have sc: "is_sc w \<Longrightarrow> me_store_wdata m = me_amo_rs2 m"
    using d by (simp add: is_sc_def is_amo_def store_lanes_def)
  define r where "r = pl_dm x"
  have r: "rq_valid r" "rq_addr r = word_addr (me_alu_y m)" "rq_wen r = (is_store w \<or> is_sc w \<or> me_amo_phase m)"
    using assms(3) sh(5-8) by (auto simp: r_def pl_dm_def mem_store_op_def mem_store_beat_def Let_def m_def[symmetric] word_addr_align)
  have u: "rq_wdata r = (if me_amo_phase m then amo_result w (ml_amo_old (pl_latch x)) (me_amo_rs2 m) else me_store_wdata m)"
    using sh(5,8) amo_data[of w x] sh(2) by (auto simp: r_def pl_dm_def mem_store_beat_def Let_def m_def[symmetric])
  have k: "is_store w \<Longrightarrow> \<not> is_sc w \<Longrightarrow> rq_wmask r = me_store_wmask m" "is_sc w \<or> me_amo_phase m \<Longrightarrow> \<not> is_store w \<Longrightarrow> rq_wmask r = 15"
    using sh(5-8) by (auto simp: r_def pl_dm_def mem_store_op_def mem_store_beat_def Let_def m_def[symmetric])
  show ?thesis unfolding m_def[symmetric] w_def[symmetric] r_def[symmetric]
  proof (cases "me_amo_phase m")
    case True
    then have "\<not> is_store w" "\<not> is_sc w" using sh(5) mem_excl(5) by blast+
    then show "if me_amo_phase m then op_matches (amo_op w (me_alu_y m) (ml_amo_old (pl_latch x)) (me_amo_rs2 m)) r
      else op_matches (first_op w (me_alu_y m) (me_amo_rs2 m)) r"
      using True r u k by (simp add: amo_op_def)
  next
    case False
    have "op_matches (first_op w (me_alu_y m) (me_amo_rs2 m)) r"
    proof (cases "is_store w")
      case True
      then have "\<not> is_sc w" using mem_excl(2) by blast
      then show ?thesis using True False d[symmetric] r u k by (simp add: first_op_def)
    next
      case ns: False
      show ?thesis
      proof (cases "is_sc w")
        case True
        then show ?thesis using ns False sc[OF True] r u k(2) by (simp add: first_op_def)
      next
        case nc: False
        then show ?thesis using ns False r by (simp add: first_op_def)
      qed
    qed
    then show "if me_amo_phase m then op_matches (amo_op w (me_alu_y m) (ml_amo_old (pl_latch x)) (me_amo_rs2 m)) r
      else op_matches (first_op w (me_alu_y m) (me_amo_rs2 m)) r" using False by simp
  qed
qed

section \<open>The beats are kept\<close>

lemma latch_sel [simp]:
  "ml_req_fired (latch_next i x) = (if mem_rsp i x \<or> wb_redirect x then False else if rq_valid (pl_dm x) \<and> ni_dm_ready i then True else ml_req_fired (pl_latch x))"
  by (simp add: latch_next_def Let_def)

lemma latch_waits:
  assumes "stall_mem x" "\<not> wb_redirect x"
  shows "ml_bus_fault (latch_next i x) = (if mem_rsp i x then ni_dm_fault i else ml_bus_fault (pl_latch x))"
    "ml_bus_pagefault (latch_next i x) = (if mem_rsp i x then ni_dm_pagefault i else ml_bus_pagefault (pl_latch x))"
    "ml_load_data (latch_next i x) = (if mem_rsp i x \<and> \<not> (me_is_amo_rmw (pl_mem x) \<and> \<not> me_amo_phase (pl_mem x))
       then (if me_is_lr (pl_mem x) then ni_dm_rdata i else load_result (me_funct3 (pl_mem x)) (me_alu_y (pl_mem x)) (ni_dm_rdata i))
       else ml_load_data (pl_latch x))"
    "ml_amo_old (latch_next i x) = (if mem_rsp i x \<and> me_is_amo_rmw (pl_mem x) \<and> \<not> me_amo_phase (pl_mem x) then ni_dm_rdata i else ml_amo_old (pl_latch x))"
  using assms by (simp_all add: latch_next_def Let_def)

lemma not_pending:
  assumes "\<not> (me_valid (pl_mem x) \<and> me_ls_pending (pl_mem x))"
  shows "\<not> mem_rsp i x" "\<not> rq_valid (pl_dm x)"
  using assms by (auto simp: mem_rsp_def pl_dm_def Let_def)

lemma mem_bus_op_step: "mem_bus_op (pl_step P False i x) = (let m = mem_next i x in me_is_load m \<or> me_is_store m \<or> me_is_lr m \<or> me_is_sc m \<or> me_is_amo_rmw m)"
  by (simp add: mem_bus_op_def Let_def)

lemma beats_none:
  assumes "mem_beats h x" "\<not> me_valid (mem_next i x)" "\<not> (me_valid (pl_mem x) \<and> me_ls_pending (pl_mem x)) \<or> wb_redirect x"
  shows "mem_beats (hist_step i x h) (pl_step P False i x)"
proof -
  have "ml_req_fired (pl_latch x) = (h_req h \<noteq> None)" "\<not> (me_valid (pl_mem x) \<and> me_ls_pending (pl_mem x)) \<Longrightarrow> h_req h = None"
    using assms(1) by (simp_all add: mem_beats_def Let_def)
  then show ?thesis using assms(2,3) not_pending(1)[of x i] not_pending(2)[of x] by (auto simp: mem_beats_def Let_def)
qed

lemma beats_enter:
  assumes "mem_beats h x" "\<not> stall_mem x" "\<not> wb_redirect x" "mem_next i x = mem_enter x"
  shows "mem_beats (hist_step i x h) (pl_step P False i x)"
proof -
  have np: "\<not> (me_valid (pl_mem x) \<and> me_ls_pending (pl_mem x))" using assms(2) by (simp add: stall_mem_def)
  have q: "ml_req_fired (pl_latch x) = (h_req h \<noteq> None)" "h_req h = None" using assms(1) np by (simp_all add: mem_beats_def Let_def)
  let ?e = "mem_enter x"
  have p: "me_ls_pending ?e" if "me_is_load ?e \<or> me_is_store ?e \<or> me_is_lr ?e \<or> me_is_sc ?e \<or> me_is_amo_rmw ?e" "\<not> me_has_result ?e"
    using that by (auto simp: mem_enter_def Let_def)
  have b: "h_mem_beats (hist_step i x h) = []" using assms(2) by (simp add: hist_step_def)
  show ?thesis unfolding mem_beats_def Let_def b pl_sel(7) assms(4) mem_bus_op_step
    using q p not_pending(1)[OF np, of i] not_pending(2)[OF np] assms(3) by auto
qed

lemma beats_hold:
  assumes "mem_beats h x" "pl_shape x" "mem_data s x" "stall_mem x" "\<not> wb_redirect x" "\<not> mem_rsp i x" "mem_next i x = pl_mem x"
  shows "mem_beats (hist_step i x h) (pl_step P False i x)"
proof -
  let ?y = "pl_step P False i x" and ?h = "hist_step i x h"
  have m: "pl_mem ?y = pl_mem x" "mem_bus_op ?y = mem_bus_op x" using assms(7) by (simp_all add: mem_bus_op_def)
  have l: "ml_bus_fault (pl_latch ?y) = ml_bus_fault (pl_latch x)" "ml_bus_pagefault (pl_latch ?y) = ml_bus_pagefault (pl_latch x)"
    "ml_load_data (pl_latch ?y) = ml_load_data (pl_latch x)" "ml_amo_old (pl_latch ?y) = ml_amo_old (pl_latch x)"
    using latch_waits[OF assms(4,5), of i] assms(6) by simp_all
  have b: "h_mem_beats ?h = h_mem_beats h" using assms(4,6) by (simp add: hist_step_def)
  have r: "h_req ?h = (if rq_valid (pl_dm x) \<and> ni_dm_ready i then Some (pl_dm x) else h_req h)"
    "ml_req_fired (pl_latch ?y) = (rq_valid (pl_dm x) \<and> ni_dm_ready i \<or> ml_req_fired (pl_latch x))"
    using assms(5,6) by auto
  have w: "latched_reply ?y = latched_reply x" "latched_word ?y = latched_word x"
    unfolding fun_eq_iff latched_reply_def latched_word_def m l by simp_all
  note p = presents[OF shapeD(3)[OF assms(2)] assms(3)] and np = not_pending(2)[of x]
  show ?thesis
  proof (cases "rq_valid (pl_dm x) \<and> ni_dm_ready i")
    case False
    then have r: "h_req ?h = h_req h" "ml_req_fired (pl_latch ?y) = ml_req_fired (pl_latch x)" using r by auto
    show ?thesis using assms(1) unfolding mem_beats_def Let_def m l b r w .
  next
    case True
    then have r: "h_req ?h = Some (pl_dm x)" "ml_req_fired (pl_latch ?y)" using r by auto
    have v: "me_valid (pl_mem x)" "me_ls_pending (pl_mem x)" using np True by blast+
    have s: "mem_bus_op x" "\<not> me_has_result (pl_mem x)"
      using v shapeD(3)[OF assms(2)] bus_op_iff[OF shapeD(3)[OF assms(2)] v(1)] by (simp_all add: mem_shape_def Let_def)
    show ?thesis
    proof (cases "me_amo_phase (pl_mem x)")
      case ph: True
      note inv = assms(1)[unfolded mem_beats_def Let_def, simplified s v ph, simplified]
      then obtain q0 r0 where t: "h_mem_beats h = [(q0, r0)]" "op_matches (first_op (me_instr (pl_mem x)) (me_alu_y (pl_mem x)) (me_amo_rs2 (pl_mem x))) q0"
        "\<not> rp_fault r0" "rp_pagefault r0 \<Longrightarrow> ml_bus_pagefault (pl_latch x)" "\<not> rp_pagefault r0 \<Longrightarrow> ml_amo_old (pl_latch x) = rp_data r0"
        by (auto split: if_splits)
      have q: "op_matches (amo_op (me_instr (pl_mem x)) (me_alu_y (pl_mem x)) (ml_amo_old (pl_latch x)) (me_amo_rs2 (pl_mem x))) (pl_dm x)"
        using p True ph by simp
      show ?thesis unfolding mem_beats_def Let_def m l b r(1) w t(1) using r(2) t(2-5) q ph by (auto simp: s v assms(5,6))
    next
      case ph: False
      show ?thesis using assms(1) p True ph unfolding mem_beats_def Let_def m l b r(1) w by (auto simp: s v assms(5,6))
    qed
  qed
qed

lemma beats_reply:
  assumes "mem_beats h x" "pl_shape x" "pl_env i x" "stall_mem x" "\<not> wb_redirect x" "mem_rsp i x" "mem_data s x"
    and n: "mem_next i x = (if me_is_amo_rmw (pl_mem x) \<and> \<not> me_amo_phase (pl_mem x) \<and> \<not> ni_dm_fault i
      then (pl_mem x)\<lparr>me_amo_phase := True\<rparr> else (pl_mem x)\<lparr>me_ls_pending := False\<rparr>)"
  shows "mem_beats (hist_step i x h) (pl_step P False i x)"
proof -
  let ?y = "pl_step P False i x" and ?h = "hist_step i x h" and ?r = "reply_of i"
  define m where "m = pl_mem x"
  define w where "w = me_instr m"
  have v: "me_valid m" "me_ls_pending m" "ni_dm_rsp i" using assms(6) by (simp_all add: mem_rsp_def m_def)
  have sh: "\<not> me_trap m" "mem_insn w" "\<not> me_has_result m" "me_is_lr m = is_lr w" "me_is_load m = is_load w" "me_is_amo_rmw m = is_amo_rmw w"
    "me_funct3 m = funct3 w" "mem_bus_op x" "me_amo_phase m \<longrightarrow> is_amo_rmw w"
    using shapeD(3)[OF assms(2)] v bus_op_iff[OF shapeD(3)[OF assms(2)]] by (simp_all add: mem_shape_def m_def w_def Let_def)
  have bo: "mem_bus_op ?y" using sh(8) n by (simp add: mem_bus_op_def)
  define q where "q = (case h_req h of Some q \<Rightarrow> q | None \<Rightarrow> pl_dm x)"
  have b: "h_mem_beats ?h = (if \<exists>t\<in>set (h_mem_beats h). beat_failed t then h_mem_beats h else h_mem_beats h @ [(q, ?r)])"
    using assms(4,6) by (simp add: hist_step_def q_def)
  have now: "rq_valid (pl_dm x)" if "h_req h = None"
    using assms(1) v sh(8) that by (simp add: mem_beats_def pl_dm_def m_def Let_def)
  have r: "h_req ?h = None" "\<not> ml_req_fired (pl_latch ?y)" using assms(6) by simp_all
  have l: "ml_bus_fault (pl_latch ?y) = ni_dm_fault i" "ml_bus_pagefault (pl_latch ?y) = ni_dm_pagefault i"
    "\<not> (is_amo_rmw w \<and> \<not> me_amo_phase m) \<Longrightarrow> ml_load_data (pl_latch ?y) = (if is_lr w then ni_dm_rdata i else load_result (funct3 w) (me_alu_y m) (ni_dm_rdata i))"
    "ml_amo_old (pl_latch ?y) = (if is_amo_rmw w \<and> \<not> me_amo_phase m then ni_dm_rdata i else ml_amo_old (pl_latch x))"
    using latch_waits[OF assms(4,5), of i] assms(6) sh by (simp_all add: m_def[symmetric])
  have pf: "me_amo_phase m \<Longrightarrow> ml_bus_pagefault (pl_latch x) \<Longrightarrow> ni_dm_pagefault i"
    using assms(3,6) sh(6,9) by (simp add: pl_env_def m_def)
  note pr = presents[OF shapeD(3)[OF assms(2)] assms(7), folded m_def, folded w_def]
  have y: "me_valid (pl_mem ?y)" "me_instr (pl_mem ?y) = w" "me_alu_y (pl_mem ?y) = me_alu_y m" "me_amo_rs2 (pl_mem ?y) = me_amo_rs2 m"
    "\<not> me_has_result (pl_mem ?y)"
    using v sh n by (simp_all add: m_def w_def)
  note inv = assms(1)[unfolded mem_beats_def Let_def m_def[symmetric] w_def[symmetric], simplified v sh, simplified]
  show ?thesis
  proof (cases "me_amo_phase m")
    case False
    then have first: "h_mem_beats h = []" "op_matches (first_op w (me_alu_y m) (me_amo_rs2 m)) q"
      using inv pr now by (auto simp: q_def split: option.split)
    have b: "h_mem_beats ?h = [(q, ?r)]" using b first(1) by simp
    show ?thesis
    proof (cases "is_amo_rmw w \<and> \<not> ni_dm_fault i")
      case True
      then have "me_amo_phase (pl_mem ?y)" "me_ls_pending (pl_mem ?y)" using n False sh v by (simp_all add: m_def[symmetric])
      then show ?thesis unfolding mem_beats_def Let_def b r y
        using r bo y first l(2,4) True False by (auto simp: reply_of_def)
    next
      case nf: False
      then have ph: "\<not> me_amo_phase (pl_mem ?y)" "\<not> me_ls_pending (pl_mem ?y)" using n False sh by (auto simp: m_def[symmetric])
      have "latched_reply ?y ?r" using l(1,2) by (simp add: latched_reply_def reply_of_def)
      moreover have "latched_word ?y ?r" unfolding latched_word_def Let_def y
        by (rule mem_cases[of w]; simp add: l(3)[unfolded pl_sel] reply_of_def)
      ultimately show ?thesis unfolding mem_beats_def Let_def b y
        using r bo y first nf ph by (auto simp: reply_of_def)
    qed
  next
    case True
    then have ph: "me_amo_phase (pl_mem ?y)" "\<not> me_ls_pending (pl_mem ?y)" using n by (simp_all add: m_def[symmetric])
    obtain q0 r0 where first: "h_mem_beats h = [(q0, r0)]" "op_matches (first_op w (me_alu_y m) (me_amo_rs2 m)) q0" "\<not> rp_fault r0"
      "rp_pagefault r0 \<Longrightarrow> ml_bus_pagefault (pl_latch x)" "\<not> rp_pagefault r0 \<Longrightarrow> ml_amo_old (pl_latch x) = rp_data r0"
      "\<And>q'. \<not> rp_pagefault r0 \<Longrightarrow> h_req h = Some q' \<Longrightarrow> op_matches (amo_op w (me_alu_y m) (rp_data r0) (me_amo_rs2 m)) q'"
      using inv True by (auto split: if_splits)
    show ?thesis
    proof (cases "rp_pagefault r0")
      case pf0: True
      then have "h_mem_beats ?h = [(q0, r0)]" "ml_bus_pagefault (pl_latch ?y)" using b first(1,4) pf True l(2) by (simp_all add: beat_failed_def)
      then show ?thesis unfolding mem_beats_def Let_def y using r bo y first(2,3) pf0 ph by auto
    next
      case np: False
      then have "op_matches (amo_op w (me_alu_y m) (rp_data r0) (me_amo_rs2 m)) q"
        using first(5,6) pr now True by (auto simp: q_def split: option.split)
      moreover have "latched_reply ?y ?r" using l(1,2) by (simp add: latched_reply_def reply_of_def)
      moreover have "h_mem_beats ?h = [(q0, r0), (q, ?r)]" using b first(1,3) np by (simp add: beat_failed_def)
      ultimately show ?thesis unfolding mem_beats_def Let_def y
        using r bo y first(2,3,5) np True ph l(4) by auto
    qed
  qed
qed

lemma keep_beats:
  assumes "pl_shape x" "pl_env i x" "mem_data s x" "mem_beats h x"
  shows "mem_beats (hist_step i x h) (pl_step P False i x)"
  using moves[OF assms(1,2)]
proof (elim disjE)
  assume "flushes i x" then show ?thesis using beats_none[OF assms(4)] by (simp add: flushes_def)
next
  assume "divides i x" then show ?thesis using beats_none[OF assms(4)] by (simp add: divides_def stall_mem_def)
next
  assume f: "flows i x"
  then have n: "\<not> stall_mem x" "\<not> wb_redirect x" by (simp_all add: flows_def stall_ex_def)
  show ?thesis
  proof (cases "ex_valid (pl_ex x)")
    case True
    then show ?thesis using beats_enter[OF assms(4) n] f by (simp add: flows_def)
  next
    case False
    then show ?thesis using beats_none[OF assms(4)] f n by (simp add: flows_def stall_mem_def)
  qed
next
  assume f: "mem_waits i x"
  then have n: "stall_mem x" "\<not> wb_redirect x" by (simp_all add: mem_waits_def)
  show ?thesis
  proof (cases "mem_rsp i x")
    case True
    then show ?thesis using beats_reply[OF assms(4,1,2) n True assms(3)] f by (simp add: mem_waits_def)
  next
    case False
    then show ?thesis using beats_hold[OF assms(4,1,3) n False] f by (simp add: mem_waits_def)
  qed
qed

end
