(* ===== verification/Pipe_Wb.thy ===== *)
theory Pipe_Wb
  imports Pipe_Mem
begin

text \<open>
  What reaches WB: the end of the instruction, as its beats make it of its RV32IMA meaning over the committed state;
  and the reservation.
\<close>

unbundle bit_operations_syntax

section \<open>Outcomes\<close>

text \<open>WB holds the outcome \<open>out\<close>; \<open>v\<close> is the value of a CSR that is read, \<open>rv\<close> the reservation before.\<close>

definition wb_meets :: "pl \<Rightarrow> u32 \<Rightarrow> 30 word option \<Rightarrow> act option \<Rightarrow> bool" where
  "wb_meets x v rv out \<longleftrightarrow> (let b = pl_wb x; w = wb_instr b in
     case out of
       Some (Retire wr npc rv') \<Rightarrow> \<not> wb_trap b \<and>
         write_reg wr (pl_rf x) = rf_step (wb_rd_wen b) (wb_rd b) (if is_csr w then v else wb_result b) (pl_rf x) \<and>
         npc = dp_npc w (wb_pc b) (pl_rf x) (pl_csr x) \<and> rv' = resv_after x rv
     | Some (Raise k t) \<Rightarrow> wb_trap b \<and> wb_cause b = k \<and> wb_tval b = t
     | _ \<Rightarrow> False)"

definition wb_data :: "hist \<Rightarrow> pl \<Rightarrow> bool" where
  "wb_data h x \<longleftrightarrow> (wb_valid (pl_wb x) \<longrightarrow> (let b = pl_wb x; w = wb_instr b; pc = wb_pc b in
     (if h_wb_src h = Isa
      then \<not> reserved w \<longrightarrow> (\<forall>v. \<exists>rv. (rv = None \<or> rv = h_resv h) \<and>
        wb_meets x v (h_resv h) (play (dp_act w pc (pl_rf x) rv (pl_csr x) v) (h_wb_beats h)))
      else wb_trap b \<and> src_trap (h_wb_src h) pc = Some (wb_cause b, wb_tval b)) \<and>
     (is_csr w \<and> \<not> wb_trap b \<longrightarrow> wb_csr_wdata b = csr_operand w (pl_rf x))))"

lemma access_first: "dp_access w pc a r2 rv None = Access (first_op w a r2) (dp_wait w pc a r2 rv None)"
  by (simp add: dp_access_def first_op_def)

lemma act_mem:
  assumes "mem_insn w" "dp_trap w pc R c = None" "is_sc w \<Longrightarrow> rv = Some (fld 2 (dp_addr w pc R))"
  shows "dp_act w pc R rv c v = Access (first_op w (dp_addr w pc R) (rf_read R (rs2_i w))) (dp_wait w pc (dp_addr w pc R) (rf_read R (rs2_i w)) rv None)"
  using assms by (auto simp: dp_act_def access_first)

section \<open>Leaving MEM\<close>

text \<open>The instruction in MEM goes on to WB.\<close>

definition leaves :: "pl \<Rightarrow> bool" where
  "leaves x \<longleftrightarrow> me_valid (pl_mem x) \<and> \<not> stall_mem x \<and> \<not> wb_redirect x"

definition bus_fails :: "pl \<Rightarrow> bool" where
  "bus_fails x \<longleftrightarrow> mem_bus_op x \<and> \<not> me_has_result (pl_mem x) \<and> (ml_bus_pagefault (pl_latch x) \<or> ml_bus_fault (pl_latch x))"

lemma wb_leaves:
  assumes "pl_shape x" "leaves x" and w: "w = me_instr (pl_mem x)"
  shows "wb_trap (wb_next x) \<longleftrightarrow> bus_fails x \<or> me_trap (pl_mem x)"
    "bus_fails x \<Longrightarrow> wb_cause (wb_next x) = wb_bus_cause x \<and> wb_tval (wb_next x) = me_alu_y (pl_mem x)"
    "\<not> bus_fails x \<Longrightarrow> wb_cause (wb_next x) = me_cause (pl_mem x) \<and> wb_tval (wb_next x) = me_tval (pl_mem x)"
    "wb_rd (wb_next x) = rd_i w" "wb_rd_wen (wb_next x) \<longleftrightarrow> writes_rd w \<and> rd_i w \<noteq> 0 \<and> \<not> wb_trap (wb_next x)"
    "\<not> (mem_bus_op x \<and> \<not> me_has_result (pl_mem x)) \<Longrightarrow> wb_result (wb_next x) = me_result (pl_mem x)"
    "mem_bus_op x \<Longrightarrow> \<not> me_has_result (pl_mem x) \<Longrightarrow> \<not> bus_fails x \<Longrightarrow> wb_result (wb_next x) =
       (if is_lr w then ml_load_data (pl_latch x) else if is_sc w then 0 else if is_amo_rmw w then ml_amo_old (pl_latch x)
        else ml_load_data (pl_latch x))"
    "wb_csr_wdata (wb_next x) = me_csr_wdata (pl_mem x)"
proof -
  have l: "me_valid (pl_mem x)" "\<not> stall_mem x" "\<not> wb_redirect x" using assms(2) by (simp_all add: leaves_def)
  note ms = shapeD(3)[OF assms(1)]
  have bo: "mem_bus_op x \<Longrightarrow> \<not> me_trap (pl_mem x)" using bus_op_iff[OF ms l(1)] by simp
  show "wb_trap (wb_next x) \<longleftrightarrow> bus_fails x \<or> me_trap (pl_mem x)"
    using l bo by (auto simp: wb_next_def bus_fails_def Let_def)
  show "bus_fails x \<Longrightarrow> wb_cause (wb_next x) = wb_bus_cause x \<and> wb_tval (wb_next x) = me_alu_y (pl_mem x)"
    "\<not> bus_fails x \<Longrightarrow> wb_cause (wb_next x) = me_cause (pl_mem x) \<and> wb_tval (wb_next x) = me_tval (pl_mem x)"
    "\<not> (mem_bus_op x \<and> \<not> me_has_result (pl_mem x)) \<Longrightarrow> wb_result (wb_next x) = me_result (pl_mem x)"
    using l by (auto simp: wb_next_def bus_fails_def Let_def)
  have s: "wb_shape (wb_next x)" by (rule retire_shape[OF ms])
  have v: "wb_valid (wb_next x)" using l by simp
  show "wb_rd (wb_next x) = rd_i w" "wb_rd_wen (wb_next x) \<longleftrightarrow> writes_rd w \<and> rd_i w \<noteq> 0 \<and> \<not> wb_trap (wb_next x)"
    using s v by (simp_all add: wb_shape_def w Let_def id_writes_rd)
  show "wb_csr_wdata (wb_next x) = me_csr_wdata (pl_mem x)" by (simp add: wb_next_def Let_def)
  assume b: "mem_bus_op x" "\<not> me_has_result (pl_mem x)" "\<not> bus_fails x"
  have "me_is_lr (pl_mem x) = is_lr w" "me_is_sc (pl_mem x) = is_sc w" "me_is_amo_rmw (pl_mem x) = is_amo_rmw w"
    using ms l(1) bo[OF b(1)] by (simp_all add: mem_shape_def w Let_def)
  then show "wb_result (wb_next x) =
       (if is_lr w then ml_load_data (pl_latch x) else if is_sc w then 0 else if is_amo_rmw w then ml_amo_old (pl_latch x)
        else ml_load_data (pl_latch x))"
    using b l by (simp add: wb_next_def bus_fails_def Let_def)
qed

text \<open>The registers, the CSR file and the reservation that the instruction meets in WB.\<close>

lemma leaves_state:
  assumes "pl_shape x" "leaves x"
  shows "pl_rf (pl_step P False i x) = regs_wb x" "crit (csr_step False (wb_csr_port i x) (pl_csr x)) = crit (pl_csr x)"
    "h_resv (hist_step i x h) = h_resv h"
proof -
  have l: "me_valid (pl_mem x)" "\<not> wb_redirect x" using assms(2) by (simp_all add: leaves_def)
  show "pl_rf (pl_step P False i x) = regs_wb x" using rf_next[OF assms(1)] no_csr_behind[OF assms(1)] l(1) by blast
  show "crit (csr_step False (wb_csr_port i x) (pl_csr x)) = crit (pl_csr x)" by (rule quiet_behind[OF assms(1) l(2) disjI2[OF l(1)]])
  show "h_resv (hist_step i x h) = h_resv h"
  proof (cases "wb_valid (pl_wb x)")
    case True
    have d: "is_div_variant (wb_instr (pl_wb x))" by (rule shapeD(10)[OF assms(1) l(1) True])
    then have "\<not> wb_trap (pl_wb x)" using shapeD(4)[OF assms(1)] True by (simp add: wb_shape_def Let_def)
    moreover have "\<not> is_lr (wb_instr (pl_wb x))" "\<not> is_sc (wb_instr (pl_wb x))" "\<not> is_amo_rmw (wb_instr (pl_wb x))"
      using div_class(1)[OF d] by (auto simp: mem_insn_def)
    ultimately show ?thesis by (simp add: resv_after_def Let_def)
  qed simp
qed

lemma npc_mem: "mem_insn w \<Longrightarrow> dp_npc w pc R c = pc + 4"
proof -
  assume a: "mem_insn w"
  have n: "\<not> is_mret w" "\<not> is_sret w" "\<not> is_jal w" "\<not> is_jalr w" "\<not> is_branch w"
    using a class_excl(1-3)[of w] amo_classes(1-3)[of w] class_sub(4,5)[of w] unfolding mem_insn_def by blast+
  show ?thesis using n by (simp add: dp_npc_def next_pc_def)
qed

lemma resv_plain: "\<not> is_lr w \<Longrightarrow> \<not> is_sc w \<Longrightarrow> \<not> is_amo_rmw w \<Longrightarrow> w = wb_instr (pl_wb x) \<Longrightarrow> \<not> wb_trap (pl_wb x) \<Longrightarrow> resv_after x rv = rv"
  by (simp add: resv_after_def)

text \<open>Without an access: a trap, a value computed in EX, a CSR access.\<close>

lemma meets_plain:
  assumes s: "pl_shape x" "leaves x" and d: "holds_data Isa (pl_mem x) (regs_wb x) (pl_csr x)" and w: "w = me_instr (pl_mem x)"
    and "\<not> reserved w" "me_trap (pl_mem x) \<or> \<not> mem_insn w"
  shows "wb_meets (pl_step P False i x) v rv (play (dp_act w (me_pc (pl_mem x)) (regs_wb x) rv (pl_csr x) v) [])"
proof -
  let ?y = "pl_step P False i x" and ?m = "pl_mem x" and ?R = "regs_wb x"
  have l: "me_valid ?m" using s(2) by (simp add: leaves_def)
  note f = wb_leaves[OF s w] and st = leaves_state[OF s]
  have ms: "mem_shape ?m" by (rule shapeD(3)[OF s(1)])
  have bo: "\<not> mem_bus_op x" using bus_op_iff[OF ms l] assms(6) w by blast
  then have nf: "\<not> bus_fails x" by (simp add: bus_fails_def)
  have t: "(if me_trap ?m then Some (me_cause ?m, me_tval ?m) else None) = dp_trap w (me_pc ?m) ?R (pl_csr x)"
    using d assms(5) by (simp add: holds_data_def w Let_def)
  have y: "wb_instr (pl_wb ?y) = w" "wb_pc (pl_wb ?y) = me_pc ?m" by (simp_all add: w)
  show ?thesis
  proof (cases "me_trap ?m")
    case True
    then have "dp_trap w (me_pc ?m) ?R (pl_csr x) = Some (me_cause ?m, me_tval ?m)" using t by simp
    then show ?thesis using True f(1) f(3)[OF nf] by (simp add: wb_meets_def dp_act_def Let_def)
  next
    case False
    then have dt: "dp_trap w (me_pc ?m) ?R (pl_csr x) = None" using t by simp
    have nm: "\<not> mem_insn w" using False assms(6) by blast
    then have cls: "\<not> is_lr w" "\<not> is_sc w" "\<not> is_amo_rmw w" by (auto simp: mem_insn_def)
    have act: "dp_act w (me_pc ?m) ?R rv (pl_csr x) v = Retire (if writes_rd w then Some (rd_i w, dp_val w (me_pc ?m) ?R v) else None) (dp_npc w (me_pc ?m) ?R (pl_csr x)) rv"
      using dt nm cls by (simp add: dp_act_def)
    have nt: "\<not> wb_trap (wb_next x)" using f(1) nf False by simp
    have "me_has_result ?m = (id_writes_rd w \<and> \<not> is_csr w)" using ms l False nm cls by (simp add: mem_shape_def w Let_def)
    then have val: "me_result ?m = dp_val w (me_pc ?m) ?R v" if "writes_rd w" "rd_i w \<noteq> 0" "\<not> is_csr w"
      using d that cls False by (simp add: holds_data_def w Let_def id_writes_rd)
    have csr: "dp_val w (me_pc ?m) ?R v = v" if "is_csr w" using that by (simp add: dp_val_def)
    have res: "wb_result (wb_next x) = me_result ?m" using f(6) bo by blast
    have wr: "write_reg (if writes_rd w then Some (rd_i w, dp_val w (me_pc ?m) ?R v) else None) ?R =
        rf_step (wb_rd_wen (wb_next x)) (wb_rd (wb_next x)) (if is_csr w then v else wb_result (wb_next x)) ?R"
      unfolding f(4,5) res using nt val csr by (auto simp: write_reg_def rf_step_def)
    have npc: "dp_npc w (me_pc ?m) ?R (csr_step False (wb_csr_port i x) (pl_csr x)) = dp_npc w (me_pc ?m) ?R (pl_csr x)"
      by (rule crit_illegal(4)[OF st(2)])
    have rs: "resv_after ?y rv = rv" using resv_plain[OF cls, of ?y rv] nt y by simp
    show ?thesis unfolding wb_meets_def Let_def y st(1) act play.simps
      using nt wr npc rs by simp
  qed
qed

text \<open>A store-conditional without its reservation.\<close>

lemma meets_miss:
  assumes s: "pl_shape x" "leaves x" and d: "holds_data Isa (pl_mem x) (regs_wb x) (pl_csr x)" and w: "w = me_instr (pl_mem x)"
    and "\<not> reserved w" "\<not> me_trap (pl_mem x)" "is_sc w" "me_has_result (pl_mem x)"
  shows "wb_meets (pl_step P False i x) v rv (play (dp_act w (me_pc (pl_mem x)) (regs_wb x) None (pl_csr x) v) [])"
proof -
  let ?y = "pl_step P False i x" and ?m = "pl_mem x" and ?R = "regs_wb x"
  have l: "me_valid ?m" using s(2) by (simp add: leaves_def)
  note f = wb_leaves[OF s w] and st = leaves_state[OF s]
  have ms: "mem_shape ?m" by (rule shapeD(3)[OF s(1)])
  have nf: "\<not> bus_fails x" using assms(8) by (simp add: bus_fails_def)
  have dt: "dp_trap w (me_pc ?m) ?R (pl_csr x) = None" using d assms(5,6) by (simp add: holds_data_def w Let_def)
  have y: "wb_instr (pl_wb ?y) = w" "wb_pc (pl_wb ?y) = me_pc ?m" by (simp_all add: w)
  have act: "dp_act w (me_pc ?m) ?R None (pl_csr x) v = Retire (Some (rd_i w, 1)) (me_pc ?m + 4) None"
    using dt assms(7) by (simp add: dp_act_def)
  have nt: "\<not> wb_trap (wb_next x)" using f(1) nf assms(6) by simp
  have cls: "\<not> is_csr w" "mem_insn w" "writes_rd w" "\<not> is_lr w" using assms(7) mem_excl(4)[OF assms(7)] by (auto simp: mem_insn_def writes_rd_def)
  have "me_result ?m = 1" using ms l assms(7,8) by (simp add: mem_shape_def w Let_def)
  then have res: "wb_result (wb_next x) = 1" using f(6) assms(8) by simp
  have wr: "write_reg (Some (rd_i w, 1)) ?R =
      rf_step (wb_rd_wen (wb_next x)) (wb_rd (wb_next x)) (if is_csr w then v else wb_result (wb_next x)) ?R"
    unfolding f(4,5) res using nt cls by (auto simp: write_reg_def rf_step_def)
  have npc: "dp_npc w (me_pc ?m) ?R (csr_step False (wb_csr_port i x) (pl_csr x)) = me_pc ?m + 4" by (rule npc_mem[OF cls(2)])
  have rs: "resv_after ?y rv = None" using nt y assms(7) cls(4) by (simp add: resv_after_def Let_def)
  show ?thesis unfolding wb_meets_def Let_def y st(1) act play.simps
    using nt wr npc rs by simp
qed

section \<open>After an access\<close>

text \<open>What a reply, the last of the instruction, makes of the wait for it.\<close>

definition fail_cause :: "bool \<Rightarrow> dm_reply \<Rightarrow> u32" where
  "fail_cause st r = (if rp_pagefault r then (if st then CAUSE_STORE_PAGE_FAULT else CAUSE_LOAD_PAGE_FAULT)
     else (if st then CAUSE_STORE_ACCESS_FAULT else CAUSE_LOAD_ACCESS_FAULT))"

lemma play_fail: "rp_pagefault r \<or> rp_fault r \<Longrightarrow> play (Await st t f) [(q, r)] = Some (Raise (fail_cause st r) t)"
  by (simp add: fail_cause_def)

lemma play_pass: "\<not> rp_pagefault r \<Longrightarrow> \<not> rp_fault r \<Longrightarrow> play (Await st t f) ((q, r) # us) = play (f (rp_data r)) us"
  by simp

definition stores :: "u32 \<Rightarrow> bool" where "stores w \<longleftrightarrow> is_store w \<or> is_sc w \<or> is_amo_rmw w"

lemma meets_fail:
  assumes s: "pl_shape x" "leaves x" and w: "w = me_instr (pl_mem x)" and m: "mem_insn w" "\<not> me_trap (pl_mem x)" "\<not> me_has_result (pl_mem x)"
    and r: "latched_reply x r" "rp_pagefault r \<or> rp_fault r"
  shows "wb_meets (pl_step P False i x) v rv (Some (Raise (fail_cause (stores w) r) (me_alu_y (pl_mem x))))"
proof -
  have l: "me_valid (pl_mem x)" using s(2) by (simp add: leaves_def)
  note ms = shapeD(3)[OF s(1)] and f = wb_leaves[OF s w]
  have bo: "mem_bus_op x" using bus_op_iff[OF ms l] m w by blast
  then have bf: "bus_fails x" using m(3) r by (auto simp: bus_fails_def latched_reply_def)
  have "me_is_store (pl_mem x) = is_store w" "me_is_sc (pl_mem x) = is_sc w" "me_is_amo_rmw (pl_mem x) = is_amo_rmw w"
    using ms l m(2) by (simp_all add: mem_shape_def w Let_def)
  then have "wb_bus_cause x = fail_cause (stores w) r" using r(1)
    by (simp add: wb_bus_cause_def fail_cause_def stores_def latched_reply_def Let_def disj_assoc)
  then show ?thesis using f(1) f(2)[OF bf] bf by (simp add: wb_meets_def Let_def)
qed

lemma meets_done:
  assumes s: "pl_shape x" "leaves x" and w: "w = me_instr (pl_mem x)" and m: "mem_insn w" "\<not> me_trap (pl_mem x)" "\<not> me_has_result (pl_mem x)"
    and r: "latched_reply x r" "\<not> rp_pagefault r" "\<not> rp_fault r"
    and u: "u = (if is_lr w then ml_load_data (pl_latch x) else if is_sc w then 0 else if is_amo_rmw w then ml_amo_old (pl_latch x)
        else ml_load_data (pl_latch x))"
    and rv': "rv' = (if is_lr w then Some (fld 2 (dp_addr w (me_pc (pl_mem x)) (regs_wb x))) else if is_sc w \<or> is_amo_rmw w then None else rv)"
  shows "wb_meets (pl_step P False i x) v rv (Some (Retire (if is_store w then None else Some (rd_i w, u)) (me_pc (pl_mem x) + 4) rv'))"
proof -
  let ?y = "pl_step P False i x" and ?m = "pl_mem x" and ?R = "regs_wb x"
  have l: "me_valid ?m" using s(2) by (simp add: leaves_def)
  note ms = shapeD(3)[OF s(1)] and f = wb_leaves[OF s w] and st = leaves_state[OF s]
  have bo: "mem_bus_op x" using bus_op_iff[OF ms l] m w by blast
  have nf: "\<not> bus_fails x" using r by (simp add: bus_fails_def latched_reply_def)
  have nt: "\<not> wb_trap (wb_next x)" using f(1) nf m(2) by simp
  have y: "wb_instr (pl_wb ?y) = w" "wb_pc (pl_wb ?y) = me_pc ?m" by (simp_all add: w)
  have cls: "\<not> is_csr w" "writes_rd w = (\<not> is_store w)" using m(1) by (cases rule: mem_cases[of w]; simp add: writes_rd_def)+
  have res: "wb_result (wb_next x) = u" using f(7)[OF bo m(3) nf] u by simp
  have wr: "write_reg (if is_store w then None else Some (rd_i w, u)) ?R =
      rf_step (wb_rd_wen (wb_next x)) (wb_rd (wb_next x)) (if is_csr w then v else wb_result (wb_next x)) ?R"
    unfolding f(4,5) res using nt cls by (auto simp: write_reg_def rf_step_def)
  have npc: "dp_npc w (me_pc ?m) ?R (csr_step False (wb_csr_port i x) (pl_csr x)) = me_pc ?m + 4" by (rule npc_mem[OF m(1)])
  have rs: "resv_after ?y rv = rv'" unfolding resv_after_def Let_def y st(1) rv' using nt by simp
  show ?thesis unfolding wb_meets_def Let_def y st(1) using nt wr npc rs by simp
qed

lemma wait_form:
  assumes "mem_insn w"
  shows "\<exists>f. dp_wait w pc a r2 rv None = Await (stores w) a f"
  by (rule mem_cases[of w]; insert assms; simp add: dp_wait_def stores_def)

lemma wait_ends:
  assumes "mem_insn w" "\<not> is_amo_rmw w" "\<not> rp_pagefault r" "\<not> rp_fault r"
  shows "play (dp_wait w pc a r2 rv None) [(q, r)] = Some (Retire
     (if is_store w then None else Some (rd_i w, if is_lr w then rp_data r else if is_sc w then 0 else load_result (funct3 w) a (rp_data r)))
     (pc + 4) (if is_lr w then Some (fld 2 a) else if is_sc w then None else rv))"
  by (rule mem_cases[of w]; insert assms; simp add: dp_wait_def)

lemma wait_amo:
  assumes "is_amo_rmw w" "\<not> rp_pagefault r" "\<not> rp_fault r" "op_matches (amo_op w a (rp_data r) r2) q'"
  shows "play (dp_wait w pc a r2 rv None) [(q, r), (q', r')] =
    (if rp_pagefault r' \<or> rp_fault r' then Some (Raise (fail_cause True r') a) else Some (Retire (Some (rd_i w, rp_data r)) (pc + 4) None))"
proof -
  have n: "\<not> is_load w" "\<not> is_store w" "\<not> is_lr w" "\<not> is_sc w" using mem_excl(5)[OF assms(1)] by auto
  have m: "op_matches (Wr (word_addr a) (\<lambda>_. amo_result w (rp_data r) r2)) q'" using assms(4) by (simp add: amo_op_def)
  show ?thesis using n assms(2,3) m by (simp add: dp_wait_def fail_cause_def)
qed

lemma meets_access:
  assumes s: "pl_shape x" "leaves x" and d: "holds_data Isa (pl_mem x) (regs_wb x) (pl_csr x)" and b: "mem_beats h x"
    and w: "w = me_instr (pl_mem x)" and "\<not> reserved w" and m: "mem_insn w" "\<not> me_trap (pl_mem x)" "\<not> me_has_result (pl_mem x)"
    and rv: "is_sc w \<Longrightarrow> rv = Some (fld 2 (me_alu_y (pl_mem x)))"
  shows "wb_meets (pl_step P False i x) v rv (play (dp_act w (me_pc (pl_mem x)) (regs_wb x) rv (pl_csr x) v) (h_mem_beats h))"
proof -
  define mm where "mm = pl_mem x"
  define a where "a = me_alu_y mm"
  define pc where "pc = me_pc mm"
  define r2 where "r2 = me_amo_rs2 mm"
  have l: "me_valid mm" "\<not> me_ls_pending mm" using s(2) by (auto simp: leaves_def stall_mem_def mm_def)
  note ms = shapeD(3)[OF s(1)]
  have bo: "mem_bus_op x" using bus_op_iff[OF ms] l(1) m w by (simp add: mm_def)
  have dt: "dp_trap w pc (regs_wb x) (pl_csr x) = None" "a = dp_addr w pc (regs_wb x)" "r2 = rf_read (regs_wb x) (rs2_i w)"
    using d assms(6) m by (simp_all add: holds_data_def w Let_def a_def r2_def mm_def pc_def)
  have act: "dp_act w pc (regs_wb x) rv (pl_csr x) v = Access (first_op w a r2) (dp_wait w pc a r2 rv None)"
    unfolding dt(2,3) using act_mem[OF m(1) dt(1)] rv dt(2) by (simp add: a_def mm_def)
  note inv = b[unfolded mem_beats_def Let_def, folded mm_def, folded w[folded mm_def], folded a_def r2_def, simplified l bo m(3)[folded mm_def] simp_thms if_True if_False]
  note fail = meets_fail[OF s w m, folded mm_def, folded a_def] and done' = meets_done[OF s w m _ _ _ refl refl, folded mm_def, folded pc_def, folded dt(2)]
  have goal: "wb_meets (pl_step P False i x) v rv (play (dp_act w pc (regs_wb x) rv (pl_csr x) v) (h_mem_beats h))"
  proof (cases "me_amo_phase mm")
    case False
    then obtain q r where t: "h_mem_beats h = [(q, r)]" "op_matches (first_op w a r2) q" "latched_reply x r" "latched_word x r"
      "is_amo_rmw w \<Longrightarrow> rp_fault r" using inv by auto
    have p: "play (dp_act w pc (regs_wb x) rv (pl_csr x) v) (h_mem_beats h) = play (dp_wait w pc a r2 rv None) [(q, r)]"
      unfolding act t(1) using t(2) by simp
    show ?thesis
    proof (cases "rp_pagefault r \<or> rp_fault r")
      case True
      obtain f where "dp_wait w pc a r2 rv None = Await (stores w) a f" using wait_form[OF m(1)] by blast
      then show ?thesis unfolding p using fail[OF t(3) True] play_fail[OF True] by simp
    next
      case nf: False
      then have na: "\<not> is_amo_rmw w" using t(5) by blast
      have lw: "is_load w \<Longrightarrow> ml_load_data (pl_latch x) = load_result (funct3 w) a (rp_data r)" "is_lr w \<Longrightarrow> ml_load_data (pl_latch x) = rp_data r"
        using t(4) by (simp_all add: latched_word_def Let_def w a_def mm_def)
      have u: "(if is_lr w then rp_data r else if is_sc w then 0 else load_result (funct3 w) a (rp_data r)) =
          (if is_lr w then ml_load_data (pl_latch x) else if is_sc w then 0 else if is_amo_rmw w then ml_amo_old (pl_latch x) else ml_load_data (pl_latch x))"
        if "\<not> is_store w"
        using that na m(1) lw by (auto simp: mem_insn_def)
      have wr: "(if is_store w then None else Some (rd_i w, if is_lr w then rp_data r else if is_sc w then 0 else load_result (funct3 w) a (rp_data r))) =
          (if is_store w then None else Some (rd_i w, if is_lr w then ml_load_data (pl_latch x) else if is_sc w then 0 else if is_amo_rmw w then ml_amo_old (pl_latch x) else ml_load_data (pl_latch x)))"
        using u by simp
      have rs: "(if is_lr w then Some (fld 2 a) else if is_sc w then None else rv) =
          (if is_lr w then Some (fld 2 a) else if is_sc w \<or> is_amo_rmw w then None else rv)" using na by simp
      have ok: "\<not> rp_pagefault r" "\<not> rp_fault r" using nf by simp_all
      show ?thesis unfolding p wait_ends[OF m(1) na ok] wr rs by (rule done'[OF t(3) ok])
    qed
  next
    case True
    have am: "is_amo_rmw w" using ms l(1) True by (simp add: mem_shape_def w mm_def Let_def)
    have n: "\<not> is_store w" "\<not> is_lr w" "\<not> is_sc w" "stores w" using mem_excl(5)[OF am] am by (auto simp: stores_def)
    show ?thesis
    proof (cases "\<exists>q r. h_mem_beats h = [(q, r)] \<and> op_matches (first_op w a r2) q \<and> latched_reply x r \<and> rp_pagefault r")
      case pf: True
      then obtain q r where t: "h_mem_beats h = [(q, r)]" "op_matches (first_op w a r2) q" "latched_reply x r" "rp_pagefault r \<or> rp_fault r"
        by blast
      obtain f where wf: "dp_wait w pc a r2 rv None = Await (stores w) a f" using wait_form[OF m(1)] by blast
      have p: "play (dp_act w pc (regs_wb x) rv (pl_csr x) v) (h_mem_beats h) = play (dp_wait w pc a r2 rv None) [(q, r)]"
        unfolding act t(1) using t(2) by simp
      show ?thesis unfolding p wf play_fail[OF t(4)] by (rule fail[OF t(3,4)])
    next
    case nf: False
    obtain q r q' r' where t: "h_mem_beats h = [(q, r), (q', r')]" "op_matches (first_op w a r2) q" "\<not> rp_fault r" "\<not> rp_pagefault r"
      "ml_amo_old (pl_latch x) = rp_data r" "op_matches (amo_op w a (rp_data r) r2) q'" "latched_reply x r'"
      using inv True nf by (auto simp: latched_reply_def split: if_splits)
    have p: "play (dp_act w pc (regs_wb x) rv (pl_csr x) v) (h_mem_beats h) = play (dp_wait w pc a r2 rv None) [(q, r), (q', r')]"
      unfolding act t(1) using t(2) by simp
    show ?thesis unfolding p wait_amo[OF am t(4,3,6)]
      using fail[OF t(7)] done'[OF t(7), where rv = rv] n am t(5) by simp
    qed
  qed
  then show ?thesis by (simp add: pc_def mm_def)
qed

section \<open>The reservation\<close>

text \<open>The reservation after the instruction in WB.\<close>

definition resv_view :: "hist \<Rightarrow> pl \<Rightarrow> 30 word option" where
  "resv_view h x = (if wb_valid (pl_wb x) then resv_after x (h_resv h) else h_resv h)"

text \<open>A load-reserved in MEM has been served.\<close>

definition lr_served :: "pl \<Rightarrow> bool" where
  "lr_served x \<longleftrightarrow> (let m = pl_mem x in me_valid m \<and> is_lr (me_instr m) \<and> \<not> me_trap m \<and> \<not> me_ls_pending m \<and> \<not> ml_bus_fault (pl_latch x))"

text \<open>A reservation may be lost, but it is never invented.\<close>

definition resv_inv :: "hist \<Rightarrow> pl \<Rightarrow> bool" where
  "resv_inv h x \<longleftrightarrow>
     (\<not> wb_redirect x \<and> pl_resv_valid x \<longrightarrow>
       (if lr_served x then pl_resv_addr x = fld 2 (me_alu_y (pl_mem x)) else resv_view h x = Some (pl_resv_addr x))) \<and>
     (me_valid (pl_mem x) \<and> is_sc (me_instr (pl_mem x)) \<and> \<not> me_trap (pl_mem x) \<and> \<not> me_has_result (pl_mem x) \<longrightarrow>
       h_resv h = Some (fld 2 (me_alu_y (pl_mem x))))"

lemma resv_step:
  "pl_resv_valid (pl_step P False i x) \<longleftrightarrow> \<not> wb_redirect x \<and> \<not> (\<not> stall_mem x \<and> me_valid (pl_mem x) \<and> (me_is_sc (pl_mem x) \<or> me_is_amo_rmw (pl_mem x))) \<and>
     (mem_rsp i x \<and> me_is_lr (pl_mem x) \<and> \<not> ni_dm_fault i \<or> pl_resv_valid x)"
  "pl_resv_addr (pl_step P False i x) = (if mem_rsp i x \<and> me_is_lr (pl_mem x) \<and> \<not> ni_dm_fault i then fld 2 (me_alu_y (pl_mem x)) else pl_resv_addr x)"
  by (auto simp: resv_next_def Let_def)

lemma hist_resv: "h_resv (hist_step i x h) = resv_view h x"
  by (simp add: resv_view_def)

lemma resv_waits:
  assumes "pl_shape x" "mem_waits i x" "resv_inv h x" "pl_resv_valid (pl_step P False i x)"
  shows "if lr_served (pl_step P False i x) then pl_resv_addr (pl_step P False i x) = fld 2 (me_alu_y (pl_mem (pl_step P False i x)))
    else resv_view (hist_step i x h) (pl_step P False i x) = Some (pl_resv_addr (pl_step P False i x))"
proof -
  let ?y = "pl_step P False i x" and ?m = "pl_mem x"
  have st: "stall_mem x" "\<not> wb_redirect x" "me_valid ?m" using assms(2) by (simp_all add: mem_waits_def)
  have sh: "me_is_lr ?m \<longleftrightarrow> is_lr (me_instr ?m) \<and> \<not> me_trap ?m" using shapeD(3)[OF assms(1)] st(3) by (simp add: mem_shape_def Let_def)
  have ne: "\<not> me_is_lr ?m \<or> \<not> me_is_amo_rmw ?m"
  proof -
    have "me_is_amo_rmw ?m \<longleftrightarrow> is_amo_rmw (me_instr ?m) \<and> \<not> me_trap ?m" using shapeD(3)[OF assms(1)] st(3) by (simp add: mem_shape_def Let_def)
    then show ?thesis using sh mem_excl(3)[of "me_instr ?m"] by blast
  qed
  have y: "me_instr (pl_mem ?y) = me_instr ?m" "me_alu_y (pl_mem ?y) = me_alu_y ?m" "me_valid (pl_mem ?y)" "me_trap (pl_mem ?y) = me_trap ?m"
    using assms(2) by (simp_all add: mem_waits_def)
  have v: "resv_view (hist_step i x h) ?y = resv_view h x" using st(1) by (simp add: resv_view_def[of "hist_step i x h"] hist_resv del: hist_sel)
  show ?thesis
  proof (cases "mem_rsp i x \<and> me_is_lr ?m \<and> \<not> ni_dm_fault i")
    case True
    have "mem_next i x = ?m\<lparr>me_ls_pending := False\<rparr>" using assms(2) True ne by (simp add: mem_waits_def)
    then have "\<not> me_ls_pending (pl_mem ?y)" "\<not> ml_bus_fault (pl_latch ?y)" using True latch_waits(1)[OF st(1,2), of i] by simp_all
    then have "lr_served ?y" unfolding lr_served_def Let_def y(1,4) using True sh y(3) by simp
    then show ?thesis unfolding resv_step(2) y using True by simp
  next
    case False
    then have old: "pl_resv_valid x" using assms(4) unfolding resv_step by blast
    have nl: "\<not> lr_served x"
    proof
      assume a: "lr_served x"
      then have "mem_csrw_satp x" using st(1) by (auto simp: lr_served_def stall_mem_def Let_def)
      then have "is_csr (me_instr ?m)" by (simp add: mem_csrw_satp_def)
      then show False using a mem_excl(3) by (auto simp: lr_served_def Let_def)
    qed
    have "\<not> lr_served ?y"
    proof
      assume a: "lr_served ?y"
      then have l: "is_lr (me_instr ?m)" "\<not> me_trap ?m" "\<not> me_ls_pending (pl_mem ?y)" "\<not> ml_bus_fault (pl_latch ?y)"
        unfolding lr_served_def Let_def y by blast+
      then have "me_ls_pending ?m" using st nl mem_excl(3)[OF l(1)] by (auto simp: stall_mem_def mem_csrw_satp_def)
      then have "mem_rsp i x" using assms(2) l(3) by (auto simp: mem_waits_def split: if_splits)
      then have "ni_dm_fault i" using False sh l(1,2) by blast
      then show False using l(4) latch_waits(1)[OF st(1,2), of i] \<open>mem_rsp i x\<close> by simp
    qed
    then show ?thesis using assms(3) nl old st(2) unfolding v resv_step(2) if_not_P[OF False] by (simp add: resv_inv_def)
  qed
qed

lemma resv_moves:
  assumes "pl_shape x" "\<not> stall_mem x" "\<not> wb_redirect x" "mem_data s x" "resv_inv h x" "pl_resv_valid (pl_step P False i x)"
    and n: "\<not> lr_served (pl_step P False i x)" and r: "\<not> wb_redirect (pl_step P False i x)"
  shows "resv_view (hist_step i x h) (pl_step P False i x) = Some (pl_resv_addr (pl_step P False i x))"
proof -
  let ?y = "pl_step P False i x" and ?m = "pl_mem x"
  define w where "w = me_instr ?m"
  have np: "\<not> (me_valid ?m \<and> me_ls_pending ?m)" using assms(2) by (auto simp: stall_mem_def)
  note no = not_pending(1)[OF np, of i]
  have old: "pl_resv_valid x" "pl_resv_addr ?y = pl_resv_addr x" using assms(6) no unfolding resv_step by auto
  show ?thesis
  proof (cases "me_valid ?m")
    case False
    then have "resv_view (hist_step i x h) ?y = resv_view h x" by (simp add: resv_view_def[of "hist_step i x h"] hist_resv del: hist_sel)
    moreover have "\<not> lr_served x" using False by (simp add: lr_served_def)
    ultimately show ?thesis using assms(3,5) old by (simp add: resv_inv_def)
  next
    case True
    have l: "leaves x" using True assms(2,3) by (simp add: leaves_def)
    have ms: "mem_shape ?m" by (rule shapeD(3)[OF assms(1)])
    have v: "wb_valid (pl_wb ?y)" "wb_instr (pl_wb ?y) = w" using True assms(2,3) by (simp_all add: w_def)
    have nt: "\<not> wb_trap (wb_next x)" using r v(1) by (auto simp: wb_redirect_def)
    then have ok: "\<not> me_trap ?m" "\<not> bus_fails x" using wb_leaves(1)[OF assms(1) l refl] by blast+
    have nc: "\<not> is_sc w" "\<not> is_amo_rmw w" using assms(2,6) True ok(1) ms unfolding resv_step by (auto simp: mem_shape_def w_def Let_def)
    have view: "resv_view (hist_step i x h) ?y = (if is_lr w then Some (fld 2 (dp_addr w (me_pc ?m) (regs_wb x))) else resv_view h x)"
      unfolding resv_view_def[of "hist_step i x h" ?y] hist_resv using v(1) nt nc leaves_state(1)[OF assms(1) l, of P i]
      by (simp add: resv_after_def w_def Let_def del: pl_sel(15))
    show ?thesis
    proof (cases "is_lr w")
      case lr: True
      then have im: "mem_insn w" by (simp add: mem_insn_def)
      have "mem_bus_op x" using bus_op_iff[OF ms True] im ok(1) by (simp add: w_def)
      moreover have "\<not> me_has_result ?m" using ms True lr im mem_excl(3)[OF lr] by (simp add: mem_shape_def w_def Let_def)
      ultimately have "lr_served x" using ok lr True np by (auto simp: bus_fails_def lr_served_def w_def Let_def)
      moreover have "me_alu_y ?m = dp_addr w (me_pc ?m) (regs_wb x)" using assms(4) True im ok(1) by (simp add: mem_data_def holds_data_def w_def Let_def)
      ultimately show ?thesis using view lr old assms(3,5) by (simp add: resv_inv_def)
    next
      case nl: False
      then have "\<not> lr_served x" by (simp add: lr_served_def w_def Let_def)
      then show ?thesis using view nl old assms(3,5) by (simp add: resv_inv_def)
    qed
  qed
qed

lemma entered_lr: "mem_next i x = mem_enter x \<Longrightarrow> pl_shape x \<Longrightarrow> ex_valid (pl_ex x) \<Longrightarrow> \<not> lr_served (pl_step P False i x)"
proof -
  assume a: "mem_next i x = mem_enter x" "pl_shape x" "ex_valid (pl_ex x)"
  have "ex_ctl (pl_ex x) = id_ctl (ex_instr (pl_ex x))" using shapeD(2)[OF a(2)] a(3) by (simp add: ex_shape_def Let_def)
  then show ?thesis using a(1) by (auto simp: lr_served_def mem_enter_def Let_def)
qed

lemma keep_sc:
  assumes "pl_shape x" "pl_env i x" "resv_inv h x"
    and v: "me_valid (mem_next i x)" "is_sc (me_instr (mem_next i x))" "\<not> me_trap (mem_next i x)" "\<not> me_has_result (mem_next i x)"
  shows "resv_view h x = Some (fld 2 (me_alu_y (mem_next i x)))"
  using moves[OF assms(1,2)]
proof (elim disjE)
  assume f: "mem_waits i x"
  then have m: "me_valid (pl_mem x)" "is_sc (me_instr (pl_mem x))" "\<not> me_trap (pl_mem x)" "\<not> me_has_result (pl_mem x)"
    "me_alu_y (mem_next i x) = me_alu_y (pl_mem x)" using v by (auto simp: mem_waits_def split: if_splits)
  have "id_serial (me_instr (pl_mem x))" using m(2) by (simp add: id_serial_def)
  then have "\<not> wb_valid (pl_wb x)" using shapeD(12)[OF assms(1) m(1)] by blast
  then show ?thesis using assms(3) m by (simp add: resv_inv_def resv_view_def)
next
  assume f: "flows i x"
  then have e: "ex_valid (pl_ex x)" "mem_next i x = mem_enter x" "\<not> wb_redirect x" using v(1) by (auto simp: flows_def split: if_splits)
  let ?w = "ex_instr (pl_ex x)"
  have c: "ex_ctl (pl_ex x) = id_ctl ?w" using shapeD(2)[OF assms(1)] e(1) by (simp add: ex_shape_def Let_def)
  have sc: "is_sc ?w" "ex_trap x = None" using v(2,3) unfolding e(2) mem_enter_sel by blast+
  then have h: "ex_sc_hit x" using v(4) unfolding e(2) by (auto simp: mem_enter_def c Let_def)
  have "me_alu_y (mem_enter x) = ls_addr x" using sc by (simp add: mem_enter_def c ct_atomic_def Let_def)
  moreover have "id_serial ?w" using sc by (simp add: id_serial_def)
  then have nv: "\<not> me_valid (pl_mem x)" "\<not> wb_valid (pl_wb x)" using shapeD(11)[OF assms(1) e(1)] by blast+
  then have "\<not> lr_served x" by (simp add: lr_served_def)
  ultimately show ?thesis using h assms(3) e(2,3) nv by (simp add: resv_inv_def ex_sc_hit_def)
qed (use v in \<open>simp_all add: flushes_def divides_def\<close>)

lemma keep_resv:
  assumes "pl_shape x" "pl_env i x" "mem_data s x" "resv_inv h x"
  shows "resv_inv (hist_step i x h) (pl_step P False i x)"
proof -
  let ?y = "pl_step P False i x"
  have a: "if lr_served ?y then pl_resv_addr ?y = fld 2 (me_alu_y (pl_mem ?y)) else resv_view (hist_step i x h) ?y = Some (pl_resv_addr ?y)"
    if v: "\<not> wb_redirect ?y" "pl_resv_valid ?y"
    using moves[OF assms(1,2)]
  proof (elim disjE)
    assume "flushes i x" then show ?thesis using v(2) unfolding resv_step by (simp add: flushes_def)
  next
    assume f: "divides i x"
    then have "\<not> lr_served ?y" by (simp add: divides_def lr_served_def)
    then show ?thesis using resv_moves[OF assms(1) _ _ assms(3,4) v(2) _ v(1)] f by (simp add: divides_def)
  next
    assume f: "flows i x"
    then have n: "\<not> lr_served ?y" using entered_lr[OF _ assms(1), of i P] by (cases "ex_valid (pl_ex x)") (auto simp: flows_def lr_served_def)
    then show ?thesis using resv_moves[OF assms(1) _ _ assms(3,4) v(2) n v(1)] f by (simp add: flows_def stall_ex_def)
  next
    assume "mem_waits i x" then show ?thesis by (rule resv_waits[OF assms(1) _ assms(4) v(2)])
  qed
  have "resv_view h x = Some (fld 2 (me_alu_y (pl_mem ?y)))" if "me_valid (pl_mem ?y) \<and> is_sc (me_instr (pl_mem ?y)) \<and> \<not> me_trap (pl_mem ?y) \<and> \<not> me_has_result (pl_mem ?y)"
    using keep_sc[OF assms(1,2,4)] that by simp
  then show ?thesis unfolding resv_inv_def hist_resv using a by blast
qed

section \<open>The outcome is kept\<close>

lemma dp_act_crit: "crit c' = crit c \<Longrightarrow> dp_act w pc R rv c' v = dp_act w pc R rv c v"
proof -
  assume a: "crit c' = crit c"
  show ?thesis unfolding dp_act_def dp_trap_crit[OF a] crit_illegal(4)[OF a] ..
qed

lemma arrives:
  assumes s: "pl_shape x" "leaves x" and d: "holds_data Isa (pl_mem x) (regs_wb x) (pl_csr x)" and b: "mem_beats h x"
    and r: "resv_inv h x" and w: "w = me_instr (pl_mem x)" and "\<not> reserved w"
  shows "\<exists>rv. (rv = None \<or> rv = h_resv h) \<and> wb_meets (pl_step P False i x) v (h_resv h)
    (play (dp_act w (me_pc (pl_mem x)) (regs_wb x) rv (pl_csr x) v) (h_mem_beats h))"
proof -
  have l: "me_valid (pl_mem x)" using s(2) by (simp add: leaves_def)
  have none: "h_mem_beats h = []" if "\<not> (mem_bus_op x \<and> \<not> me_has_result (pl_mem x))"
    using b l that by (auto simp: mem_beats_def Let_def)
  note bo = bus_op_iff[OF shapeD(3)[OF s(1)] l, folded w]
  consider (plain) "me_trap (pl_mem x) \<or> \<not> mem_insn w" | (miss) "\<not> me_trap (pl_mem x)" "is_sc w" "me_has_result (pl_mem x)"
    | (acc) "\<not> me_trap (pl_mem x)" "mem_insn w" "\<not> me_has_result (pl_mem x)" | (other) "\<not> me_trap (pl_mem x)" "mem_insn w" "\<not> is_sc w" "me_has_result (pl_mem x)"
    by blast
  then show ?thesis
  proof cases
    case plain
    then have "h_mem_beats h = []" using none bo by blast
    then show ?thesis using meets_plain[OF s d w assms(7) plain, of P i v "h_resv h"] by (intro exI[of _ "h_resv h"]) simp
  next
    case miss
    then have "h_mem_beats h = []" using none by blast
    moreover have "wb_meets (pl_step P False i x) v (h_resv h) (play (dp_act w (me_pc (pl_mem x)) (regs_wb x) None (pl_csr x) v) [])"
      using meets_miss[OF s d w assms(7) miss] by (simp add: wb_meets_def resv_after_def Let_def w[symmetric] miss(2) split: option.splits act.splits)
    ultimately show ?thesis by (intro exI[of _ None]) simp
  next
    case acc
    have "h_resv h = Some (fld 2 (me_alu_y (pl_mem x)))" if "is_sc w" using r l that acc by (simp add: resv_inv_def w)
    then show ?thesis using meets_access[OF s d b w assms(7) acc(2,1,3), of "h_resv h" P i v] by blast
  next
    case other
    have "me_has_result (pl_mem x) = (id_writes_rd w \<and> \<not> mem_insn w \<and> \<not> is_csr w)"
      using shapeD(3)[OF s(1)] l other(1,3) by (simp add: mem_shape_def w Let_def)
    then show ?thesis using other by simp
  qed
qed

lemma keep_wb:
  assumes "pl_shape x" "mem_data (h_mem_src h) x" "mem_beats h x" "resv_inv h x"
  shows "wb_data (hist_step i x h) (pl_step P False i x)"
proof (cases "leaves x")
  case False
  then have "\<not> wb_valid (pl_wb (pl_step P False i x))" by (auto simp: leaves_def)
  then show ?thesis unfolding wb_data_def by blast
next
  case True
  let ?y = "pl_step P False i x" and ?m = "pl_mem x"
  have l: "me_valid ?m" using True by (simp add: leaves_def)
  note st = leaves_state[OF assms(1) True] and f = wb_leaves[OF assms(1) True refl]
  have d: "holds_data (h_mem_src h) ?m (regs_wb x) (pl_csr x)" using assms(2) l by (simp add: mem_data_def)
  have isa: "\<exists>rv. (rv = None \<or> rv = h_resv h) \<and> wb_meets ?y v (h_resv h)
      (play (dp_act (me_instr ?m) (me_pc ?m) (regs_wb x) rv (pl_csr ?y) v) (h_mem_beats h))"
    if "h_mem_src h = Isa" "\<not> reserved (me_instr ?m)" for v
    using arrives[OF assms(1) True _ assms(3,4) refl that(2), of P i v] d that(1) by (simp add: dp_act_crit[OF st(2)])
  have tr: "me_trap ?m" "src_trap (h_mem_src h) (me_pc ?m) = Some (me_cause ?m, me_tval ?m)" if "h_mem_src h \<noteq> Isa"
    using d that by (cases "h_mem_src h"; auto simp: holds_data_def Let_def split: if_splits)+
  have nf: "\<not> bus_fails x" if "h_mem_src h \<noteq> Isa"
    using tr(1)[OF that] bus_op_iff[OF shapeD(3)[OF assms(1)] l] by (simp add: bus_fails_def)
  have csr: "wb_csr_wdata (wb_next x) = csr_operand (me_instr ?m) (regs_wb x)" if "is_csr (me_instr ?m)" "\<not> wb_trap (wb_next x)"
    using d that f(1,8) by (simp add: holds_data_def Let_def)
  show ?thesis unfolding wb_data_def Let_def st(3) using isa tr nf csr st(1) f(1,3) by (simp del: pl_sel(15))
qed

end
