(* ===== verification/Pipe_Flow.thy ===== *)
theory Pipe_Flow
  imports Pipe_Wb
begin

text \<open>
  The order of the program: each stage holds the successor of the stage before it, unless that one redirects, and the
  words in the stages are those the instruction memory served for their pcs.
\<close>

unbundle bit_operations_syntax

section \<open>The pcs that are due\<close>

definition due_mem :: "hist \<Rightarrow> pl \<Rightarrow> u32" where
  "due_mem h x = (if wb_valid (pl_wb x) then npc_of (wb_instr (pl_wb x)) (wb_pc (pl_wb x)) (pl_rf x) else h_pc h)"

definition due_ex :: "hist \<Rightarrow> pl \<Rightarrow> u32" where
  "due_ex h x = (if me_valid (pl_mem x) then npc_of (me_instr (pl_mem x)) (me_pc (pl_mem x)) (regs_wb x) else due_mem h x)"

definition due_id :: "hist \<Rightarrow> pl \<Rightarrow> u32" where
  "due_id h x = (if ex_valid (pl_ex x) then npc_of (ex_instr (pl_ex x)) (ex_pc (pl_ex x)) (regs_mem x) else due_ex h x)"

definition redir_mem :: "pl \<Rightarrow> bool" where
  "redir_mem x \<longleftrightarrow> me_valid (pl_mem x) \<and> (me_trap (pl_mem x) \<or> redirects (me_instr (pl_mem x)))"

definition redir_ex :: "pl \<Rightarrow> bool" where
  "redir_ex x \<longleftrightarrow> ex_valid (pl_ex x) \<and> (ex_trap x \<noteq> None \<or> redirects (ex_instr (pl_ex x)))"

definition ex_jumps :: "pl \<Rightarrow> bool" where
  "ex_jumps x \<longleftrightarrow> ex_take_branch x \<or> ex_take_jal x \<or> ex_take_jalr x"

text \<open>What the front end fetches when \<open>e\<close> is due in ID.\<close>

definition front_inv :: "pl \<Rightarrow> u32 \<Rightarrow> bool" where
  "front_inv x e \<longleftrightarrow> (id_valid (pl_id x) \<longrightarrow> id_pc (pl_id x) = e) \<and> (pl_if_inflight x \<and> \<not> pl_squash x \<longrightarrow> pl_if_pc x = e) \<and>
     (\<not> (id_valid (pl_id x) \<and> id_irq (pl_id x)) \<longrightarrow>
       pl_pc x = (if id_valid (pl_id x) \<or> pl_if_inflight x \<and> \<not> pl_squash x then e + 4 else e))"

definition chain :: "hist \<Rightarrow> pl \<Rightarrow> bool" where
  "chain h x \<longleftrightarrow> (wb_valid (pl_wb x) \<longrightarrow> wb_pc (pl_wb x) = h_pc h) \<and>
     (me_valid (pl_mem x) \<and> \<not> wb_redirect x \<longrightarrow> me_pc (pl_mem x) = due_mem h x) \<and>
     (ex_valid (pl_ex x) \<and> \<not> wb_redirect x \<longrightarrow> ex_pc (pl_ex x) = due_ex h x) \<and>
     (\<not> wb_redirect x \<and> \<not> redir_mem x \<and> \<not> redir_ex x \<and> \<not> ex_jumps x \<longrightarrow> front_inv x (due_id h x))"

lemma div_straight: "is_div_variant w \<Longrightarrow> npc_of w pc R = pc + 4"
  using div_class(8-10)[of w] by (simp add: npc_of_def next_pc_def)

lemma ex_jumps_no_div:
  assumes "pl_shape x" "ex_jumps x"
  shows "ex_valid (pl_ex x)" "\<not> is_div_variant (ex_instr (pl_ex x))"
proof -
  show v: "ex_valid (pl_ex x)" using assms(2) by (auto simp: ex_jumps_def ex_take_branch_def ex_take_jal_def ex_take_jalr_def)
  have "ex_ctl (pl_ex x) = id_ctl (ex_instr (pl_ex x))" using shapeD(2)[OF assms(1)] v by (simp add: ex_shape_def Let_def)
  then show "\<not> is_div_variant (ex_instr (pl_ex x))"
    using assms(2) div_class(8-10)[of "ex_instr (pl_ex x)"] by (auto simp: ex_jumps_def ex_take_branch_def ex_take_jal_def ex_take_jalr_def)
qed

lemma ex_straight:
  assumes "pl_shape x" "ex_snap x" "pl_div_inv x" "ex_valid (pl_ex x)"
  shows "npc_of (ex_instr (pl_ex x)) (ex_pc (pl_ex x)) (regs_mem x) = (if ex_jumps x then branch_redirect_pc x else ex_pc (pl_ex x) + 4)"
proof (cases "is_div_variant (ex_instr (pl_ex x))")
  case True
  then show ?thesis using div_straight ex_jumps_no_div(2)[OF assms(1)] by auto
next
  case False
  define w where "w = ex_instr (pl_ex x)"
  have h: "ex_has x (regs_mem x)" by (rule ex_ready(1)[OF assms False])
  have c: "ex_ctl (pl_ex x) = id_ctl w" using shapeD(2)[OF assms(1)] assms(4) by (simp add: ex_shape_def w_def Let_def)
  have t: "ex_take_jal x = is_jal w" "ex_take_jalr x = is_jalr w" "ex_take_branch x = (is_branch w \<and> branch_taken w (rf_read (regs_mem x) (rs1_i w)) (rf_read (regs_mem x) (rs2_i w)))"
    using assms(4) c ex_branch[OF h w_def] by (auto simp: ex_take_jal_def ex_take_jalr_def ex_take_branch_def)
  note g = ex_targets[OF h w_def refl]
  consider "is_jal w" "\<not> is_jalr w" "\<not> is_branch w" | "is_jalr w" "\<not> is_jal w" "\<not> is_branch w" | "is_branch w" "\<not> is_jal w" "\<not> is_jalr w" | "\<not> is_jal w" "\<not> is_jalr w" "\<not> is_branch w"
    using class_excl(4,7)[of w] by blast
  then show ?thesis unfolding w_def[symmetric]
    by cases (simp_all add: npc_of_def next_pc_def ex_jumps_def branch_redirect_pc_def t g)
qed

lemma jumps_redirect: "ex_jumps x \<Longrightarrow> \<not> redir_ex x \<Longrightarrow> \<not> stall_ex x \<Longrightarrow> branch_redirect x"
  by (cases "ex_trap x") (auto simp: ex_jumps_def redir_ex_def branch_redirect_def ex_take_branch_def ex_take_jal_def ex_take_jalr_def)

lemma redirect_jumps: "branch_redirect x \<Longrightarrow> ex_jumps x"
  by (auto simp: ex_jumps_def branch_redirect_def)

section \<open>The front end\<close>

lemma front_flush:
  assumes "pl_shape x" "wb_redirect x \<or> branch_redirect x" "pc_next i x = e"
  shows "front_inv (pl_step P False i x) e"
proof -
  have n: "\<not> if_fire i x" using assms(2) by (auto simp: if_fire_def if_can_issue_def)
  have "\<not> id_valid (id_next i x)" using assms(2) by (auto simp: id_next_def Let_def)
  moreover have "inflight_next i x \<Longrightarrow> squash_next i x" using assms(2) n by (auto simp: squash_next_def inflight_next_def)
  ultimately show ?thesis using assms(3) by (simp add: front_inv_def) blast
qed

lemma front_moves:
  assumes "pl_shape x" "front_inv x e" "\<not> wb_redirect x" "\<not> branch_redirect x"
  shows "\<not> issues i x \<Longrightarrow> front_inv (pl_step P False i x) e"
    "issues i x \<Longrightarrow> \<not> id_irq (pl_id x) \<Longrightarrow> front_inv (pl_step P False i x) (id_pc (pl_id x) + 4)"
proof -
  note f = assms(2)[unfolded front_inv_def]
  have pc: "pc_next i x = (if if_fire i x then pl_pc x + 4 else pl_pc x)" using assms(3,4) by (simp add: pc_next_def)
  have sq: "squash_next i x = (if if_fire i x \<or> rsp_arriving i x then False else pl_squash x)" using assms(3,4) by (simp add: squash_next_def)
  show "front_inv (pl_step P False i x) (id_pc (pl_id x) + 4)" if i: "issues i x" "\<not> id_irq (pl_id x)"
  proof -
    note d = issuesD[OF assms(1) i(1)]
    have n: "\<not> pl_if_inflight x" "\<not> rsp_arriving i x" using shapeD(6)[OF assms(1) d(1)] by (simp_all add: rsp_arriving_def)
    have "pl_pc x = id_pc (pl_id x) + 4" using f d(1) i(2) n by simp
    then show ?thesis using d(5) n shapeD(5)[OF assms(1)] by (auto simp: front_inv_def pc sq inflight_next_def)
  qed
  show "front_inv (pl_step P False i x) e" if i: "\<not> issues i x"
  proof (cases "id_valid (pl_id x)")
    case v: True
    have n: "\<not> pl_if_inflight x" "\<not> rsp_arriving i x" using shapeD(6)[OF assms(1) v] by (simp_all add: rsp_arriving_def)
    show ?thesis
    proof (cases "stall_id x")
      case True
      then have "id_next i x = pl_id x" "\<not> if_fire i x" using v assms(3,4) by (simp_all add: id_next_def if_fire_def if_can_issue_def Let_def)
      then show ?thesis using f n v shapeD(5)[OF assms(1)] by (auto simp: front_inv_def pc sq inflight_next_def)
    next
      case False
      then have q: "irq_inject i x" using i v assms(3) by (auto simp: issues_def id_will_bubble_def stall_id_def)
      then have "\<not> if_fire i x" by (simp add: if_fire_def if_can_issue_def)
      moreover have "id_valid (id_next i x)" "id_irq (id_next i x)" "id_pc (id_next i x) = id_pc (pl_id x)"
        using v False q assms(3,4) by (simp_all add: id_next_def Let_def)
      ultimately show ?thesis using f n v by (simp add: front_inv_def inflight_next_def)
    qed
  next
    case v: False
    show ?thesis
    proof (cases "irq_inject i x")
      case True
      then have n: "\<not> if_fire i x" "\<not> pl_if_inflight x" by (auto simp: if_fire_def if_can_issue_def irq_inject_def)
      moreover have "id_valid (id_next i x)" "id_irq (id_next i x)" "id_pc (id_next i x) = pl_pc x"
        using v True assms(3,4) by (simp_all add: id_next_def Let_def)
      ultimately show ?thesis using f v by (simp add: front_inv_def inflight_next_def)
    next
      case ni: False
      show ?thesis
      proof (cases "rsp_arriving i x \<and> \<not> pl_squash x")
        case True
        then have n: "\<not> if_fire i x" "pl_if_inflight x" by (auto simp: if_fire_def if_can_issue_def rsp_arriving_def)
        moreover have "id_valid (id_next i x)" "\<not> id_irq (id_next i x)" "id_pc (id_next i x) = pl_if_pc x"
          using v ni True assms(3,4) by (simp_all add: id_next_def Let_def)
        ultimately show ?thesis using f v True by (auto simp: front_inv_def inflight_next_def pc)
      next
        case False
        then have iv: "\<not> id_valid (id_next i x)" using v ni assms(3,4) by (auto simp: id_next_def Let_def)
        show ?thesis
        proof (cases "if_fire i x")
          case True
          then have "\<not> pl_if_inflight x" by (simp add: if_fire_def if_can_issue_def)
          then show ?thesis using f v iv True by (simp add: front_inv_def inflight_next_def pc sq)
        next
          case nf: False
          then show ?thesis using f v iv False by (auto simp: front_inv_def inflight_next_def pc sq rsp_arriving_def)
        qed
      qed
    qed
  qed
qed

section \<open>The chain is kept\<close>

lemma hist_pc: "\<not> wb_redirect x \<Longrightarrow> h_pc (hist_step i x h) = due_mem h x"
  by (simp add: due_mem_def pc_after_def)

lemma due_mem_step:
  assumes "pl_shape x" "\<not> wb_redirect x"
  shows "due_mem (hist_step i x h) (pl_step P False i x) = (if stall_mem x then due_mem h x else due_ex h x)"
proof (cases "leaves x")
  case True
  then have "wb_valid (wb_next x)" "\<not> stall_mem x" "me_valid (pl_mem x)" by (simp_all add: leaves_def)
  then show ?thesis unfolding due_mem_def[of "hist_step i x h"] due_ex_def leaves_state(1)[OF assms(1) True]
    by (simp del: pl_sel(15))
next
  case False
  then have n: "\<not> wb_valid (wb_next x)" by (auto simp: leaves_def)
  have "\<not> stall_mem x \<Longrightarrow> \<not> me_valid (pl_mem x)" using False assms(2) by (simp add: leaves_def)
  then show ?thesis unfolding due_mem_def[of "hist_step i x h"] pl_sel(9) using n hist_pc[OF assms(2)] by (auto simp: due_ex_def)
qed

lemma due_ex_step:
  assumes "pl_shape x" "pl_env i x" "\<not> wb_redirect x"
  shows "due_ex (hist_step i x h) (pl_step P False i x) = (if stall_ex x then due_ex h x else due_id h x)"
  using moves[OF assms(1,2)]
proof (elim disjE)
  assume f: "mem_waits i x"
  then have st: "stall_mem x" "me_valid (mem_next i x)" "stall_ex x" "me_instr (mem_next i x) = me_instr (pl_mem x)" "me_pc (mem_next i x) = me_pc (pl_mem x)"
    by (simp_all add: mem_waits_def stall_ex_def)
  then show ?thesis using f unfolding due_ex_def[of "hist_step i x h"] views_wait[OF assms(1) st(1)] by (simp add: due_ex_def mem_waits_def)
next
  assume f: "divides i x"
  then have "stall_ex x" "\<not> stall_mem x" by (simp_all add: divides_def stall_ex_def)
  then show ?thesis using f due_mem_step[OF assms(1,3)] unfolding due_ex_def[of "hist_step i x h"] by (simp add: divides_def)
next
  assume f: "flows i x"
  then have st: "\<not> stall_ex x" "\<not> stall_mem x" by (simp_all add: flows_def stall_ex_def)
  show ?thesis
  proof (cases "ex_valid (pl_ex x)")
    case True
    then have "mem_next i x = mem_enter x" using f by (simp add: flows_def)
    then show ?thesis using True st unfolding due_ex_def[of "hist_step i x h"] views_move[OF assms(1) True assms(3)] by (simp add: due_id_def)
  next
    case False
    then have "\<not> me_valid (mem_next i x)" using f by (simp add: flows_def)
    then show ?thesis using False st due_mem_step[OF assms(1,3)] unfolding due_ex_def[of "hist_step i x h"] by (simp add: due_id_def)
  qed
qed (use assms(3) in \<open>simp add: flushes_def\<close>)

text \<open>A redirecting instruction that leaves MEM redirects from WB.\<close>

lemma redir_leaves:
  assumes "pl_shape x" "pl_env i x" "\<not> wb_redirect x" "redir_mem x"
  shows "wb_redirect (pl_step P False i x) \<or> redir_mem (pl_step P False i x)"
proof (cases "stall_mem x")
  case True
  then show ?thesis using assms(4) mem_next_keeps[OF True assms(3), of i] mem_next_valid[OF assms(1,2)] assms(3) by (simp add: redir_mem_def)
next
  case False
  then have l: "leaves x" using assms(3,4) by (simp add: leaves_def redir_mem_def)
  have s: "wb_shape (pl_wb (pl_step P False i x))" using retire_shape[OF shapeD(3)[OF assms(1)]] by simp
  have "wb_redirect (pl_step P False i x)" unfolding redirect_iff[OF s]
    using l assms(4) wb_leaves(1)[OF assms(1) l refl] by (auto simp: leaves_def redir_mem_def)
  then show ?thesis ..
qed

lemma redir_ex_moves:
  assumes "pl_shape x" "pl_env i x" "flows i x" "redir_ex x"
  shows "redir_mem (pl_step P False i x)"
  using assms(3,4) by (auto simp: flows_def redir_ex_def redir_mem_def)

lemma div_no_redir:
  assumes "pl_shape x" "is_div_variant (ex_instr (pl_ex x))"
  shows "\<not> redir_ex x" "\<not> ex_jumps x"
  using div_no_trap[OF shapeD(2)[OF assms(1)] assms(2)] div_class(4)[OF assms(2)] ex_jumps_no_div(2)[OF assms(1)] assms(2)
  by (auto simp: redir_ex_def)

lemma issue_no_redir:
  assumes "pl_shape x" "issues i x"
  shows "\<not> redir_ex x" "\<not> ex_jumps x"
proof -
  have "ex_valid (pl_ex x) \<Longrightarrow> is_div_variant (ex_instr (pl_ex x))" using shapeD(8)[OF assms(1)] issuesD(1)[OF assms] by blast
  then show "\<not> redir_ex x" "\<not> ex_jumps x"
    using div_no_redir[OF assms(1)] ex_jumps_no_div(1)[OF assms(1)] by (auto simp: redir_ex_def)
qed

lemma keep_front_pc:
  assumes s: "pl_shape x" "pl_env i x" "ex_snap x" "pl_div_inv x" "chain h x" "\<not> wb_redirect x"
    and y: "\<not> wb_redirect (pl_step P False i x)" "\<not> redir_mem (pl_step P False i x)" "\<not> redir_ex (pl_step P False i x)" "\<not> ex_jumps (pl_step P False i x)"
  shows "front_inv (pl_step P False i x) (due_id (hist_step i x h) (pl_step P False i x))"
proof -
  let ?y = "pl_step P False i x" and ?h = "hist_step i x h"
  have nm: "\<not> redir_mem x" using redir_leaves[OF s(1,2,6)] y(1,2) by blast
  note de = due_ex_step[OF s(1,2,6), of h P]
  have front: "\<not> redir_ex x \<Longrightarrow> \<not> ex_jumps x \<Longrightarrow> front_inv x (due_id h x)" using s(5,6) nm by (simp add: chain_def)
  show ?thesis
  proof (cases "stall_ex x")
    case True
    have e: "ex_valid (pl_ex x) \<Longrightarrow> is_div_variant (ex_instr (pl_ex x))" by (rule ex_stays(3)[OF s(1) True])
    then have n: "\<not> redir_ex x" "\<not> ex_jumps x"
      using div_no_redir[OF s(1)] ex_jumps_no_div(1)[OF s(1)] by (auto simp: redir_ex_def)
    have "due_id ?h ?y = due_id h x" using True e de div_straight by (auto simp: due_id_def ex_next_cases)
    moreover have "\<not> issues i x" using True by (simp add: issues_def)
    moreover have "\<not> branch_redirect x" using n(2) redirect_jumps by blast
    ultimately show ?thesis using front_moves(1)[OF s(1) front[OF n] s(6)] by simp
  next
    case False
    have fl: "flows i x" using moves[OF s(1,2)] s(6) False by (auto simp: flushes_def mem_waits_def divides_def stall_ex_def)
    then have ne: "\<not> redir_ex x" using redir_ex_moves[OF s(1,2)] y(2) by blast
    have d': "due_ex ?h ?y = due_id h x" using de False by simp
    show ?thesis
    proof (cases "ex_jumps x")
      case True
      note v = ex_jumps_no_div[OF s(1) True]
      have "\<not> issues i x" using issue_no_redir(2)[OF s(1)] True by blast
      then have "due_id ?h ?y = due_id h x" using d' False by (simp add: due_id_def[of ?h] ex_next_cases)
      also have "\<dots> = branch_redirect_pc x" using ex_straight[OF s(1,3,4) v(1)] True v(1) by (simp add: due_id_def)
      also have "\<dots> = pc_next i x" using jumps_redirect[OF True ne False] s(6) by (simp add: pc_next_def)
      finally show ?thesis using front_flush[OF s(1) _ refl] jumps_redirect[OF True ne False] by metis
    next
      case nj: False
      then have nb: "\<not> branch_redirect x" using redirect_jumps by blast
      note f = front_moves[OF s(1) front[OF ne nj] s(6) nb]
      show ?thesis
      proof (cases "issues i x")
        case True
        have y': "pl_shape ?y" "ex_snap ?y" "pl_div_inv ?y" using pl_shape_step[OF s(1,2)] keep_snap[OF s(1,2)] keep_div[OF s(1-4)] by blast+
        have v: "ex_valid (pl_ex ?y)" "ex_pc (pl_ex ?y) = id_pc (pl_id x)" "ex_irq (pl_ex ?y) = id_irq (pl_id x)"
          using True False by (simp_all add: ex_next_cases)
        have "\<not> id_irq (pl_id x)" using y(3) v by (auto simp: redir_ex_def ex_trap_def Let_def)
        moreover have "due_id ?h ?y = id_pc (pl_id x) + 4" using ex_straight[OF y' v(1)] y(4) v by (simp add: due_id_def)
        ultimately show ?thesis using f(2)[OF True] by simp
      next
        case ni: False
        then have "due_id ?h ?y = due_id h x" using d' False by (simp add: due_id_def[of ?h] ex_next_cases)
        then show ?thesis using f(1)[OF ni] by simp
      qed
    qed
  qed
qed

lemma keep_chain:
  assumes s: "pl_shape x" "pl_env i x" "ex_snap x" "pl_div_inv x" "chain h x"
  shows "chain (hist_step i x h) (pl_step P False i x)"
proof (cases "wb_redirect x")
  case True
  then have f: "flushes i x" using moves[OF s(1,2)] by (auto simp: mem_waits_def divides_def flows_def)
  have "h_pc (hist_step i x h) = pc_next i x" using True by (auto simp: pc_after_def pc_next_def wb_redirect_def)
  moreover have "front_inv (pl_step P False i x) (pc_next i x)" using front_flush[OF s(1)] True by blast
  ultimately show ?thesis using f by (simp add: chain_def flushes_def due_id_def due_ex_def due_mem_def del: hist_sel)
next
  case False
  let ?y = "pl_step P False i x" and ?h = "hist_step i x h"
  note c = s(5)[unfolded chain_def]
  have a: "wb_pc (wb_next x) = h_pc ?h" if "wb_valid (wb_next x)"
    using c that False hist_pc[OF False] by simp
  have b: "me_pc (mem_next i x) = due_mem ?h ?y" if v: "me_valid (mem_next i x)"
  proof (cases "stall_mem x")
    case True
    then show ?thesis using c False due_mem_step[OF s(1) False] mem_next_keeps(2)[OF True False] stall_mem_valid[OF True] by simp
  next
    case ns: False
    then have e: "\<not> stall_ex x" "ex_valid (pl_ex x)" using v by (simp_all add: mem_next_valid[OF s(1,2)])
    then show ?thesis using c False ns due_mem_step[OF s(1) False] mem_next_new[OF False e] by simp
  qed
  have d: "ex_pc (ex_next i x) = due_ex ?h ?y" if v: "ex_valid (ex_next i x)" and r: "\<not> wb_redirect ?y"
  proof (cases "stall_ex x")
    case True
    then show ?thesis using c v False due_ex_step[OF s(1,2) False] by (simp add: ex_next_cases)
  next
    case ns: False
    then have i: "issues i x" using v by (simp add: ex_next_valid)
    have "\<not> redir_mem x"
    proof
      assume a: "redir_mem x"
      then have l: "leaves x" using False ns by (simp add: leaves_def redir_mem_def stall_ex_def)
      have sh: "wb_shape (pl_wb ?y)" using retire_shape[OF shapeD(3)[OF s(1)]] by simp
      have "wb_redirect ?y" unfolding redirect_iff[OF sh]
        using l a wb_leaves(1)[OF s(1) l refl] by (auto simp: leaves_def redir_mem_def)
      then show False using r by blast
    qed
    then have "front_inv x (due_id h x)" using c False issue_no_redir[OF s(1) i] by blast
    then show ?thesis using issuesD(1)[OF s(1) i] ns i due_ex_step[OF s(1,2) False] by (simp add: front_inv_def ex_next_cases)
  qed
  show ?thesis unfolding chain_def using a b d keep_front_pc[OF s False] by simp
qed

end
