(* ===== verification/Pipe_Run.thy ===== *)
theory Pipe_Run
  imports Pipe_Flow
begin

text \<open>
  Runs of the pipelined core, and what they show: it commits the program as RV32IMA means it, one instruction after the
  other, and asks the data port only for what is committed.
\<close>

unbundle bit_operations_syntax

section \<open>Fetched words\<close>

text \<open>\<open>ok a w\<close>: the instruction memory may answer a fetch of \<open>a\<close> with \<open>w\<close>.\<close>

definition fetch_serves :: "(u32 \<Rightarrow> u32 \<Rightarrow> bool) \<Rightarrow> hist \<Rightarrow> mc_in \<Rightarrow> bool" where
  "fetch_serves ok h i \<longleftrightarrow> (ni_if_rsp i \<and> \<not> ni_if_fault i \<and> \<not> ni_if_pagefault i \<longrightarrow> (\<forall>a. h_fetch h = Some a \<longrightarrow> ok a (ni_if_data i)))"

definition fetched :: "(u32 \<Rightarrow> u32 \<Rightarrow> bool) \<Rightarrow> hist \<Rightarrow> pl \<Rightarrow> bool" where
  "fetched ok h x \<longleftrightarrow>
     h_fetch h = (if pl_if_inflight x then Some (pl_if_pc x) else None) \<and>
     (id_valid (pl_id x) \<and> \<not> id_irq (pl_id x) \<and> \<not> id_fault (pl_id x) \<and> \<not> id_pagefault (pl_id x) \<longrightarrow> ok (id_pc (pl_id x)) (id_instr (pl_id x))) \<and>
     (ex_valid (pl_ex x) \<and> ex_source (pl_ex x) = Isa \<longrightarrow> ok (ex_pc (pl_ex x)) (ex_instr (pl_ex x))) \<and>
     (me_valid (pl_mem x) \<and> h_mem_src h = Isa \<longrightarrow> ok (me_pc (pl_mem x)) (me_instr (pl_mem x))) \<and>
     (wb_valid (pl_wb x) \<and> h_wb_src h = Isa \<longrightarrow> ok (wb_pc (pl_wb x)) (wb_instr (pl_wb x)))"

lemma id_next_ok:
  assumes "fetched ok h x" "fetch_serves ok h i" "id_valid (id_next i x)" "\<not> id_irq (id_next i x)" "\<not> id_fault (id_next i x)" "\<not> id_pagefault (id_next i x)"
  shows "ok (id_pc (id_next i x)) (id_instr (id_next i x))"
proof (cases "branch_redirect x \<or> wb_redirect x \<or> irq_inject i x \<and> (\<not> id_valid (pl_id x) \<or> \<not> stall_id x)")
  case True
  then show ?thesis using assms(3,4) by (auto simp: id_next_def Let_def)
next
  case False
  show ?thesis
  proof (cases "id_valid (pl_id x) \<and> stall_id x")
    case True
    then have "id_next i x = pl_id x" using False by (simp add: id_next_def Let_def)
    then show ?thesis using assms by (simp add: fetched_def)
  next
    case ns: False
    then have ra: "rsp_arriving i x \<and> \<not> pl_squash x" using False assms(3) by (auto simp: id_next_def Let_def split: if_splits)
    then have n: "id_next i x = \<lparr>id_valid = True, id_pc = pl_if_pc x, id_instr = ni_if_data i, id_fault = ni_if_fault i,
      id_pagefault = ni_if_pagefault i, id_irq = False, id_irq_cause = 0\<rparr>" using False ns by (auto simp: id_next_def Let_def)
    have "h_fetch h = Some (pl_if_pc x)" "ni_if_rsp i" using ra assms(1) by (simp_all add: fetched_def rsp_arriving_def)
    then show ?thesis using assms(2,5,6) by (simp add: n fetch_serves_def)
  qed
qed

lemma keep_fetched:
  assumes "pl_shape x" "pl_env i x" "fetched ok h x" "fetch_serves ok h i"
  shows "fetched ok (hist_step i x h) (pl_step P False i x)"
proof -
  let ?y = "pl_step P False i x" and ?h = "hist_step i x h"
  note f = assms(3)[unfolded fetched_def]
  have "if_fire i x \<Longrightarrow> \<not> pl_if_inflight x" by (simp add: if_fire_def if_can_issue_def)
  then have a: "h_fetch ?h = (if pl_if_inflight ?y then Some (pl_if_pc ?y) else None)"
    using f by (auto simp: inflight_next_def rsp_arriving_def)
  have b: "ok (ex_pc (ex_next i x)) (ex_instr (ex_next i x))" if "ex_valid (ex_next i x)" "ex_source (ex_next i x) = Isa"
  proof (cases "stall_ex x")
    case True
    then show ?thesis using that f by (simp add: ex_next_cases)
  next
    case False
    then have i: "issues i x" using that(1) by (simp add: ex_next_valid)
    then show ?thesis using that(2) f issuesD(1)[OF assms(1) i] False by (auto simp: ex_next_cases ex_source_def split: if_splits)
  qed
  have c: "ok (me_pc (mem_next i x)) (me_instr (mem_next i x))" if v: "me_valid (mem_next i x)" "h_mem_src ?h = Isa"
  proof (cases "stall_mem x")
    case True
    moreover have "\<not> wb_redirect x" using v(1) mem_next_valid[OF assms(1,2)] by simp
    ultimately show ?thesis using v f mem_next_keeps[OF True] stall_mem_valid[OF True] by simp
  next
    case False
    then have e: "\<not> wb_redirect x" "\<not> stall_ex x" "ex_valid (pl_ex x)" using v by (simp_all add: mem_next_valid[OF assms(1,2)])
    then show ?thesis using v(2) f False mem_next_new[OF e] by simp
  qed
  have d: "ok (wb_pc (wb_next x)) (wb_instr (wb_next x))" if "wb_valid (wb_next x)" "h_wb_src ?h = Isa" using that f by simp
  show ?thesis unfolding fetched_def using a b c d id_next_ok[OF assms(3,4)] by simp
qed

section \<open>Runs\<close>

inductive pl_run :: "u32 \<Rightarrow> (u32 \<Rightarrow> u32 \<Rightarrow> bool) \<Rightarrow> pl \<Rightarrow> hist \<Rightarrow> bool" for P ok where
  reset: "pl_run P ok (pl_step P True i x) (hist_reset P)"
| cycle: "pl_run P ok x h \<Longrightarrow> pl_env i x \<Longrightarrow> fetch_serves ok h i \<Longrightarrow> pl_run P ok (pl_step P False i x) (hist_step i x h)"

definition pl_inv :: "(u32 \<Rightarrow> u32 \<Rightarrow> bool) \<Rightarrow> hist \<Rightarrow> pl \<Rightarrow> bool" where
  "pl_inv ok h x \<longleftrightarrow> pl_shape x \<and> ex_snap x \<and> pl_div_inv x \<and> mem_data (h_mem_src h) x \<and> mem_beats h x \<and> resv_inv h x \<and> wb_data h x \<and>
     chain h x \<and> fetched ok h x"

lemma pl_inv_reset: "pl_inv ok (hist_reset P) (pl_step P True i x)"
proof -
  let ?y = "pl_step P True i x"
  have f: "\<not> id_valid (pl_id ?y)" "\<not> ex_valid (pl_ex ?y)" "\<not> me_valid (pl_mem ?y)" "\<not> wb_valid (pl_wb ?y)" "\<not> pl_if_inflight ?y" "\<not> pl_squash ?y"
    "\<not> pl_div_started ?y" "\<not> pl_div_done ?y" "pl_div ?y = div_reset" "\<not> pl_resv_valid ?y" "\<not> ml_req_fired (pl_latch ?y)" "pl_pc ?y = P"
    by (simp_all add: pl_step_def id_reset_def ex_reset_def mem_reset_def wb_reset_def div_step_def)
  show ?thesis unfolding pl_inv_def
    using f pl_shape_reset[of P i x]
    by (simp add: ex_snap_def pl_div_inv_def div_rests_def div_reset_def mem_data_def mem_beats_def resv_inv_def wb_data_def chain_def fetched_def
        hist_reset_def front_inv_def due_id_def due_ex_def due_mem_def)
qed

lemma pl_run_inv: "pl_run P ok x h \<Longrightarrow> pl_inv ok h x"
proof (induction rule: pl_run.induct)
  case (reset i x)
  show ?case by (rule pl_inv_reset)
next
  case (cycle x h i)
  then show ?case unfolding pl_inv_def
    using pl_shape_step[of x i P] keep_snap[of x i P] keep_div[of x i P] keep_data[of x i h P] keep_beats[of x i "h_mem_src h" h P]
      keep_resv[of x i "h_mem_src h" h P] keep_wb[of x h i P] keep_chain[of x i h P] keep_fetched[of x i ok h P] by blast
qed

section \<open>What a commit does\<close>

text \<open>What WB tells the CSR file, the MMU and the instruction cache when its instruction traps, or does not.\<close>

definition wb_ports :: "mc_in \<Rightarrow> pl \<Rightarrow> bool \<Rightarrow> bool" where
  "wb_ports i x t \<longleftrightarrow> (let w = wb_instr (pl_wb x); q = wb_csr_port i x in
     ci_trap q = t \<and> ci_retire q = (\<not> t) \<and> ci_en q = (is_csr w \<and> \<not> t) \<and> ci_mret q = (is_mret w \<and> \<not> t) \<and> ci_sret q = (is_sret w \<and> \<not> t) \<and>
     fst (pl_sfence x) = (is_sfence w \<and> \<not> t) \<and> pl_icache_invalidate x = (opcode w = OP_MISC_MEM \<and> funct3 w = 1 \<and> \<not> t) \<and>
     (is_csr w \<and> \<not> t \<longrightarrow> ci_op q = funct3 w \<and> ci_addr q = funct12 w \<and> ci_rs1_or_imm q = rs1_i w \<and> ci_wdata q = csr_operand w (pl_rf x)))"

text \<open>Where a trap goes, by its cause and the delegation of the CSR file.\<close>

definition handler_pc :: "csr_in \<Rightarrow> csrs \<Rightarrow> u32 \<Rightarrow> u32" where
  "handler_pc q c k = (let v = (if trap_to_s q c then stvec c else mtvec c) in if bit k 31 then irq_vector v k else vec_base v)"

text \<open>This cycle commits the outcome \<open>out\<close>.\<close>

definition commits :: "u32 \<Rightarrow> mc_in \<Rightarrow> pl \<Rightarrow> hist \<Rightarrow> act option \<Rightarrow> bool" where
  "commits P i x h out \<longleftrightarrow> (let y = pl_step P False i x; h' = hist_step i x h; q = wb_csr_port i x in
     case out of
       Some (Retire wr npc rv) \<Rightarrow>
         (\<exists>c. pl_commit i x = Some c \<and> cm_pc c = h_pc h \<and> \<not> cm_trap c) \<and> wb_ports i x False \<and>
         pl_rf y = write_reg wr (pl_rf x) \<and> h_pc h' = npc \<and> h_resv h' = rv
     | Some (Raise k t) \<Rightarrow>
         (\<exists>c. pl_commit i x = Some c \<and> cm_pc c = h_pc h \<and> cm_trap c \<and> cm_cause c = k) \<and> wb_ports i x True \<and>
         ci_trap_pc q = h_pc h \<and> ci_trap_cause q = k \<and> ci_trap_tval q = t \<and>
         pl_rf y = pl_rf x \<and> h_pc h' = handler_pc q (pl_csr x) k \<and> h_resv h' = None
     | _ \<Rightarrow> False)"

lemma ports_meet:
  assumes "pl_shape x" "wb_data h x" "wb_valid (pl_wb x)"
  shows "wb_ports i x (wb_trap (pl_wb x))"
proof -
  let ?b = "pl_wb x"
  have s: "wb_csr_addr ?b = funct12 (wb_instr ?b)" "wb_csr_op ?b = funct3 (wb_instr ?b)" "wb_csr_rs1imm ?b = rs1_i (wb_instr ?b)"
    "wb_is_csr ?b = (is_csr (wb_instr ?b) \<and> \<not> wb_trap ?b)" "wb_is_mret ?b = (is_mret (wb_instr ?b) \<and> \<not> wb_trap ?b)"
    "wb_is_sret ?b = (is_sret (wb_instr ?b) \<and> \<not> wb_trap ?b)"
    using shapeD(4)[OF assms(1)] assms(3) by (simp_all add: wb_shape_def Let_def)
  have d: "is_csr (wb_instr ?b) \<and> \<not> wb_trap ?b \<Longrightarrow> wb_csr_wdata ?b = csr_operand (wb_instr ?b) (pl_rf x)"
    using assms(2,3) by (simp add: wb_data_def Let_def)
  show ?thesis using assms(3) d
    by (auto simp: wb_ports_def wb_csr_port_def Let_def s pl_sfence_def wb_sfence_def pl_icache_invalidate_def wb_fence_i_def)
qed

lemma handler_meets:
  assumes "pl_shape x" "wb_valid (pl_wb x)" "wb_trap (pl_wb x)"
  shows "pc_after i x = handler_pc (wb_csr_port i x) (pl_csr x) (wb_cause (pl_wb x))"
proof -
  have r: "wb_redirect x" using assms(2,3) by (simp add: wb_redirect_def)
  have n: "\<not> wb_fence_i x" "\<not> wb_sfence x" "\<not> wb_csrw_satp x" using assms(3) by (simp_all add: wb_fence_i_def wb_sfence_def wb_csrw_satp_def)
  show ?thesis using r n assms(3)
    by (simp add: pc_after_def wb_redirect_pc_def handler_pc_def irq_vector_def Let_def)
qed

lemma npc_meets:
  assumes "pl_shape x" "wb_valid (pl_wb x)" "\<not> wb_trap (pl_wb x)"
  shows "pc_after i x = dp_npc (wb_instr (pl_wb x)) (wb_pc (pl_wb x)) (pl_rf x) (pl_csr x)"
proof -
  let ?b = "pl_wb x" let ?w = "wb_instr (pl_wb x)"
  have sh: "wb_shape ?b" by (rule shapeD(4)[OF assms(1)])
  have s: "wb_is_mret ?b = is_mret ?w" "wb_is_sret ?b = is_sret ?w" using sh assms(2,3) by (simp_all add: wb_shape_def Let_def)
  have r: "wb_redirect x \<longleftrightarrow> redirects ?w" using redirect_iff[OF sh] assms(2,3) by simp
  show ?thesis
  proof (cases "redirects ?w")
    case False
    then have "\<not> is_mret ?w" "\<not> is_sret ?w" by (simp_all add: redirects_def)
    then show ?thesis using r False by (simp add: pc_after_def dp_npc_def npc_of_def)
  next
    case True
    have f: "wb_fence_i x \<or> wb_sfence x \<or> wb_csrw_satp x" if "\<not> is_mret ?w" "\<not> is_sret ?w"
      using True that assms(2,3) by (auto simp: redirects_def wb_fence_i_def wb_sfence_def wb_csrw_satp_def)
    have n: "\<not> is_jal ?w" "\<not> is_jalr ?w" "\<not> is_branch ?w"
      using True by (auto simp: redirects_def class_defs)
    show ?thesis using r True assms(3) f n by (simp add: pc_after_def wb_redirect_pc_def dp_npc_def next_pc_def s Let_def)
  qed
qed

lemma commit_meets:
  assumes "pl_inv ok h x" "wb_valid (pl_wb x)" "wb_meets x (read_value (wb_csr_port i x) (pl_csr x)) (h_resv h) out"
  shows "commits P i x h out"
proof -
  let ?b = "pl_wb x" let ?w = "wb_instr (pl_wb x)" let ?y = "pl_step P False i x"
  have sh: "pl_shape x" and wd: "wb_data h x" and pc: "wb_pc ?b = h_pc h" using assms(1,2) by (simp_all add: pl_inv_def chain_def)
  note p = ports_meet[OF sh wd assms(2), of i]
  have cm: "\<exists>c. pl_commit i x = Some c \<and> cm_pc c = h_pc h \<and> cm_trap c = wb_trap ?b \<and> cm_cause c = wb_cause ?b"
    using assms(2) pc by (simp add: pl_commit_def)
  have fl: "wb_is_csr ?b = (is_csr ?w \<and> \<not> wb_trap ?b)" "wb_rd_wen ?b = (id_writes_rd ?w \<and> \<not> wb_trap ?b)"
    using shapeD(4)[OF sh] assms(2) by (simp_all add: wb_shape_def Let_def)
  have rf: "pl_rf ?y = rf_step (wb_rd_wen ?b) (wb_rd ?b) (if is_csr ?w then read_value (wb_csr_port i x) (pl_csr x) else wb_result ?b) (pl_rf x)"
    using fl assms(2) by (simp add: rf_step_def rf_wen_def wb_rd_data_def)
  consider wr npc rv where "out = Some (Retire wr npc rv)" | k t where "out = Some (Raise k t)"
    using assms(3) by (auto simp: wb_meets_def Let_def split: option.splits act.splits)
  then show ?thesis
  proof cases
    case 1
    then have m: "\<not> wb_trap ?b" "write_reg wr (pl_rf x) = pl_rf ?y" "npc = dp_npc ?w (wb_pc ?b) (pl_rf x) (pl_csr x)" "rv = resv_after x (h_resv h)"
      using assms(3) unfolding rf by (simp_all add: wb_meets_def Let_def)
    then show ?thesis using 1 assms(2) p cm npc_meets[OF sh assms(2) m(1), of i] unfolding commits_def Let_def by auto
  next
    case 2
    then have m: "wb_trap ?b" "k = wb_cause ?b" "t = wb_tval ?b" using assms(3) by (simp_all add: wb_meets_def Let_def)
    have "pl_rf ?y = pl_rf x" using m(1) fl unfolding rf by (simp add: rf_step_def)
    moreover have "ci_trap_pc (wb_csr_port i x) = h_pc h" "ci_trap_cause (wb_csr_port i x) = k" "ci_trap_tval (wb_csr_port i x) = t"
      using m pc by (simp_all add: wb_csr_port_def Let_def)
    ultimately show ?thesis using 2 assms(2) p cm handler_meets[OF sh assms(2) m(1), of i] m
      unfolding commits_def Let_def by (simp add: resv_after_def Let_def del: pl_sel(15))
  qed
qed

lemma commits_isa:
  assumes "pl_inv ok h x" "wb_valid (pl_wb x)" "h_wb_src h = Isa" "\<not> reserved (wb_instr (pl_wb x))"
  shows "\<exists>rv. (rv = None \<or> rv = h_resv h) \<and> commits P i x h (play (isa_act (wb_instr (pl_wb x))
     (hart_ctx (wb_instr (pl_wb x)) (h_pc h) (pl_rf x) rv (pl_csr x) (read_value (wb_csr_port i x) (pl_csr x)))) (h_wb_beats h))"
proof -
  let ?w = "wb_instr (pl_wb x)" let ?v = "read_value (wb_csr_port i x) (pl_csr x)"
  have pc: "wb_pc (pl_wb x) = h_pc h" using assms(1,2) by (simp add: pl_inv_def chain_def)
  have "wb_data h x" using assms(1) by (simp add: pl_inv_def)
  then obtain rv where rv: "rv = None \<or> rv = h_resv h" "wb_meets x ?v (h_resv h) (play (dp_act ?w (h_pc h) (pl_rf x) rv (pl_csr x) ?v) (h_wb_beats h))"
    using assms(2-4) by (auto simp: wb_data_def Let_def pc)
  moreover have "play (isa_act ?w (hart_ctx ?w (h_pc h) (pl_rf x) rv (pl_csr x) ?v)) (h_wb_beats h) =
      play (dp_act ?w (h_pc h) (pl_rf x) rv (pl_csr x) ?v) (h_wb_beats h)"
    by (simp add: dp_meaning[OF assms(4)])
  ultimately show ?thesis using commit_meets[OF assms(1,2)] by metis
qed

lemma commits_trap:
  assumes "pl_inv ok h x" "wb_valid (pl_wb x)" "h_wb_src h \<noteq> Isa"
  shows "\<exists>k t. src_trap (h_wb_src h) (h_pc h) = Some (k, t) \<and> commits P i x h (Some (Raise k t))"
proof -
  have pc: "wb_pc (pl_wb x) = h_pc h" using assms(1,2) by (simp add: pl_inv_def chain_def)
  have "wb_data h x" using assms(1) by (simp add: pl_inv_def)
  then have m: "wb_trap (pl_wb x)" "src_trap (h_wb_src h) (h_pc h) = Some (wb_cause (pl_wb x), wb_tval (pl_wb x))"
    using assms(2,3) by (simp_all add: wb_data_def Let_def pc)
  then show ?thesis using commit_meets[OF assms(1,2), of i "Some (Raise (wb_cause (pl_wb x)) (wb_tval (pl_wb x)))" P]
    by (simp add: wb_meets_def)
qed

section \<open>Requests\<close>

lemma request_due:
  assumes "pl_inv ok h x" "rq_valid (pl_dm x)"
  shows "\<not> wb_redirect x" "me_pc (pl_mem x) = due_mem h x" "h_mem_src h = Isa" "ok (due_mem h x) (me_instr (pl_mem x))"
    "mem_insn (me_instr (pl_mem x))" "\<not> reserved (me_instr (pl_mem x)) \<Longrightarrow> dp_trap (me_instr (pl_mem x)) (due_mem h x) (regs_wb x) (pl_csr x) = None"
proof -
  let ?m = "pl_mem x"
  have sh: "pl_shape x" and d: "mem_data (h_mem_src h) x" and ch: "chain h x" and fe: "fetched ok h x" using assms(1) by (simp_all add: pl_inv_def)
  have v: "me_valid ?m" "mem_bus_op x" using assms(2) by (simp_all add: pl_dm_def Let_def)
  have m: "mem_insn (me_instr ?m)" "\<not> me_trap ?m" using v bus_op_iff[OF shapeD(3)[OF sh]] by simp_all
  show r: "\<not> wb_redirect x" using no_stall_behind(2)[OF sh] v(1) by blast
  show p: "me_pc ?m = due_mem h x" using ch v(1) r by (simp add: chain_def)
  have hd: "holds_data (h_mem_src h) ?m (regs_wb x) (pl_csr x)" using d v(1) by (simp add: mem_data_def)
  show i: "h_mem_src h = Isa"
  proof (rule ccontr)
    assume "h_mem_src h \<noteq> Isa"
    then show False using hd m(2) by (cases "h_mem_src h") (auto simp: holds_data_def Let_def)
  qed
  show "ok (due_mem h x) (me_instr ?m)" using fe v(1) i p by (simp add: fetched_def)
  show "mem_insn (me_instr ?m)" by (rule m(1))
  show "dp_trap (me_instr ?m) (due_mem h x) (regs_wb x) (pl_csr x) = None" if "\<not> reserved (me_instr ?m)"
    using hd m(2) that by (simp add: holds_data_def Let_def i p)
qed

text \<open>What MEM holds is not dropped: it waits there, or goes on to WB.\<close>

lemma mem_stays:
  assumes "pl_shape x" "me_valid (pl_mem x)"
  shows "if stall_mem x then me_valid (mem_next i x) \<and> me_instr (mem_next i x) = me_instr (pl_mem x) \<and> me_pc (mem_next i x) = me_pc (pl_mem x)
    else wb_valid (wb_next x) \<and> wb_instr (wb_next x) = me_instr (pl_mem x) \<and> wb_pc (wb_next x) = me_pc (pl_mem x)"
proof -
  have r: "\<not> wb_redirect x" using no_stall_behind(2)[OF assms(1)] assms(2) by blast
  show ?thesis
  proof (cases "stall_mem x")
    case True
    then show ?thesis using mem_next_keeps[OF True r, of i] assms(2) r by (simp add: mem_next_def mem_rsp_def Let_def)
  next
    case False
    then show ?thesis using r assms(2) by simp
  qed
qed

section \<open>A run\<close>

text \<open>Inputs in which nothing happens, and in which a fetch is taken or answered.\<close>

definition still :: mc_in where
  "still = \<lparr>ni_if_ready = False, ni_if_rsp = False, ni_if_data = 0, ni_if_fault = False, ni_if_pagefault = False, ni_dm_ready = False,
     ni_dm_rsp = False, ni_dm_rdata = 0, ni_dm_fault = False, ni_dm_pagefault = False, ni_mti = False, ni_msi = False, ni_mei = False,
     ni_sei = False, ni_mtime = 0\<rparr>"

definition calm :: "pl \<Rightarrow> bool" where
  "calm x \<longleftrightarrow> \<not> ex_valid (pl_ex x) \<and> \<not> me_valid (pl_mem x) \<and> \<not> wb_valid (pl_wb x) \<and> mie (pl_csr x) = 0 \<and> \<not> pl_trap_pending x"

lemma calmD:
  assumes "calm x"
  shows "\<not> wb_redirect x" "\<not> branch_redirect x" "\<not> stall_ex x" "\<not> stall_id x" "\<not> irq_inject i x" "\<not> pipe_busy x"
proof -
  have c: "\<not> ex_valid (pl_ex x)" "\<not> me_valid (pl_mem x)" "\<not> wb_valid (pl_wb x)" "mie (pl_csr x) = 0" using assms by (simp_all add: calm_def)
  show "\<not> wb_redirect x" "\<not> branch_redirect x" "\<not> stall_ex x" using c
    by (auto simp: wb_redirect_def branch_redirect_def ex_take_branch_def ex_take_jal_def ex_take_jalr_def stall_ex_def ex_div_stall_def
        dest: stall_mem_valid)
  show b: "\<not> pipe_busy x" using c by (simp add: pipe_busy_def)
  then show "\<not> stall_id x" by (rule idle_no_stall)
  show "\<not> irq_inject i x" using c(4)
    by (simp add: irq_inject_def irq_pending_def m_irq_live_def s_irq_live_def mip_m_enabled_def mip_s_enabled_def)
qed

lemma csr_mie:
  assumes "\<not> ci_en q" "\<not> ci_trap q" "\<not> ci_mret q" "\<not> ci_sret q"
  shows "mie (csr_step False q c) = mie c"
  using assms by (simp add: csr_step_def do_write_def csr_tick_def Let_def)

lemma no_wb_csr:
  assumes "\<not> wb_valid (pl_wb x)"
  shows "mie (csr_step False (wb_csr_port i x) (pl_csr x)) = mie (pl_csr x)"
  by (rule csr_mie) (use assms in \<open>simp_all add: wb_csr_port_def Let_def\<close>)

lemma pending_sel [simp]: "pl_trap_pending (pl_step P False i x) = trap_pending_next x"
  by (simp add: pl_step_def)

lemma calm_env: "calm x \<Longrightarrow> \<not> ni_dm_rsp i \<Longrightarrow> (ni_if_rsp i \<and> (ni_if_fault i \<or> ni_if_pagefault i) \<longrightarrow> \<not> is_div_variant (ni_if_data i)) \<Longrightarrow> pl_env i x"
  by (simp add: pl_env_def calm_def mem_rsp_def div_survives_def ex_div_stall_def)

lemma calm_keeps:
  assumes "calm x" "\<not> id_valid (pl_id x)"
  shows "calm (pl_step P False i x)"
proof -
  note c = calmD[OF assms(1)]
  have v: "\<not> ex_valid (pl_ex x)" "\<not> me_valid (pl_mem x)" "\<not> wb_valid (pl_wb x)" "\<not> pl_trap_pending x" "mie (pl_csr x) = 0"
    using assms(1) by (simp_all add: calm_def)
  have "\<not> issues i x" using assms(2) by (simp add: issues_def id_will_bubble_def)
  moreover have "ex_trap x = None" using v by (simp add: ex_trap_def)
  ultimately show ?thesis using c v no_wb_csr[OF v(3), of i]
    by (simp add: calm_def ex_next_valid trap_pending_next_def mem_next_def stall_ex_def Let_def)
qed

lemma reach_id:
  assumes "\<not> f \<Longrightarrow> ok P w" "f \<Longrightarrow> \<not> is_div_variant w"
  shows "\<exists>x h. pl_run P ok x h \<and> calm x \<and> \<not> pl_if_inflight x \<and> h_pc h = P \<and> h_resv h = None \<and>
    pl_id x = \<lparr>id_valid = True, id_pc = P, id_instr = w, id_fault = f, id_pagefault = False, id_irq = False, id_irq_cause = 0\<rparr>"
proof -
  fix i0 :: mc_in and x0 :: pl
  let ?a = "pl_step P True i0 x0" and ?ha = "hist_reset P"
  let ?i1 = "still\<lparr>ni_if_ready := True\<rparr>" and ?i2 = "still\<lparr>ni_if_rsp := True, ni_if_data := w, ni_if_fault := f\<rparr>"
  let ?b = "pl_step P False ?i1 ?a" and ?hb = "hist_step ?i1 ?a ?ha"
  let ?c = "pl_step P False ?i2 ?b" and ?hc = "hist_step ?i2 ?b ?hb"
  have a: "calm ?a" "\<not> id_valid (pl_id ?a)" "\<not> pl_if_inflight ?a" "pl_pc ?a = P"
    by (simp_all add: calm_def pl_step_def id_reset_def ex_reset_def mem_reset_def wb_reset_def csr_step_def csr_reset_def)
  note ca = calmD[OF a(1)]
  have ra: "pl_run P ok ?a ?ha" by (rule pl_run.reset)
  have rb: "pl_run P ok ?b ?hb"
    by (rule pl_run.cycle[OF ra calm_env[OF a(1)]]) (simp_all add: still_def fetch_serves_def)
  have fire: "if_fire ?i1 ?a" using a ca by (simp add: if_fire_def if_can_issue_def still_def calm_def)
  have b: "calm ?b" "\<not> id_valid (pl_id ?b)" "pl_if_inflight ?b" "pl_if_pc ?b = P" "\<not> pl_squash ?b"
    using calm_keeps[OF a(1,2)] a ca fire
    by (simp_all add: id_next_def rsp_arriving_def inflight_next_def squash_next_def)
  note cb = calmD[OF b(1)]
  have rc: "pl_run P ok ?c ?hc"
  proof (rule pl_run.cycle[OF rb calm_env[OF b(1)]])
    have "h_fetch ?hb = Some P" using fire a by simp
    then show "fetch_serves ok ?hb ?i2" using assms(1) by (simp add: fetch_serves_def still_def)
  qed (use assms(2) in \<open>simp_all add: still_def\<close>)
  have nf: "\<not> if_fire ?i2 ?b" using b by (simp add: if_fire_def if_can_issue_def)
  have c: "calm ?c" "\<not> pl_if_inflight ?c"
    "pl_id ?c = \<lparr>id_valid = True, id_pc = P, id_instr = w, id_fault = f, id_pagefault = False, id_irq = False, id_irq_cause = 0\<rparr>"
    using calm_keeps[OF b(1,2)] b cb nf by (simp_all add: id_next_def rsp_arriving_def inflight_next_def still_def)
  moreover have "h_pc ?hc = P" "h_resv ?hc = None" using a(1) b(1) by (simp_all add: calm_def hist_reset_def del: pl_sel)
  ultimately show ?thesis using rc by blast
qed

end
