(* ===== verification/Pipe_Refine.thy ===== *)
theory Pipe_Refine
  imports Pipe_Run
begin

text \<open>
  The properties of the runs of \<open>Pipe_Run\<close>, and runs that bring an instruction to EX, MEM and WB.
\<close>

unbundle bit_operations_syntax

text \<open>The first instruction on its way to WB.\<close>

lemma reach_ex:
  assumes "\<not> f \<Longrightarrow> ok P w" "\<not> is_div_variant w"
  shows "\<exists>x h. pl_run P ok x h \<and> ex_valid (pl_ex x) \<and> \<not> pl_if_inflight x \<and> \<not> id_valid (pl_id x) \<and> \<not> me_valid (pl_mem x) \<and> \<not> wb_valid (pl_wb x) \<and> h_pc h = P \<and> h_resv h = None \<and>
    ex_instr (pl_ex x) = w \<and> ex_pc (pl_ex x) = P \<and> ex_source (pl_ex x) = (if f then Refused CAUSE_INSN_ACCESS_FAULT else Isa)"
proof -
  obtain x h where x: "pl_run P ok x h" "calm x" "\<not> pl_if_inflight x" "h_pc h = P" "h_resv h = None"
    "pl_id x = \<lparr>id_valid = True, id_pc = P, id_instr = w, id_fault = f, id_pagefault = False, id_irq = False, id_irq_cause = 0\<rparr>"
    using reach_id[of f ok P w] assms by blast
  let ?y = "pl_step P False still x" and ?h = "hist_step still x h"
  have "pl_run P ok ?y ?h"
    by (rule pl_run.cycle[OF x(1) calm_env[OF x(2)]]) (simp_all add: still_def fetch_serves_def)
  moreover note c = calmD[OF x(2)]
  have i: "issues still x" using c x(6) by (simp add: issues_def id_will_bubble_def)
  have "\<not> ex_valid (pl_ex x)" "\<not> me_valid (pl_mem x)" "\<not> wb_valid (pl_wb x)" using x(2) by (simp_all add: calm_def)
  moreover from this have "\<not> me_valid (mem_next still x)" "\<not> wb_valid (wb_next x)" "h_pc ?h = P" "h_resv ?h = None"
    using c x(4,5) by (simp_all add: mem_next_def stall_ex_def Let_def)
  moreover have "\<not> inflight_next still x" using x(3) by (simp add: inflight_next_def if_fire_def still_def)
  moreover have "\<not> id_valid (id_next still x)" by (rule issuesD(5)[OF _ i]) (use pl_run_inv[OF x(1)] in \<open>simp add: pl_inv_def\<close>)
  moreover have "ex_valid (ex_next still x)" "ex_instr (ex_next still x) = w" "ex_pc (ex_next still x) = P"
    "ex_source (ex_next still x) = (if f then Refused CAUSE_INSN_ACCESS_FAULT else Isa)"
    using i c(3) x(6) by (simp_all add: ex_next_cases ex_source_def)
  ultimately show ?thesis by (intro exI[of _ ?y] exI[of _ ?h]) (simp del: hist_sel)
qed

lemma reach_mem:
  assumes "\<not> f \<Longrightarrow> ok P w" "\<not> is_div_variant w"
  shows "\<exists>x h. pl_run P ok x h \<and> me_valid (pl_mem x) \<and> \<not> wb_valid (pl_wb x) \<and> \<not> ex_valid (pl_ex x) \<and> \<not> id_valid (pl_id x) \<and>
    \<not> pl_if_inflight x \<and> h_pc h = P \<and> h_resv h = None \<and> me_instr (pl_mem x) = w \<and> me_pc (pl_mem x) = P \<and> h_mem_src h = (if f then Refused CAUSE_INSN_ACCESS_FAULT else Isa) \<and> h_req h = None \<and>
    h_mem_beats h = [] \<and> \<not> me_amo_phase (pl_mem x)"
proof -
  obtain x h where x: "pl_run P ok x h" "ex_valid (pl_ex x)" and fi: "\<not> pl_if_inflight x" and x': "\<not> id_valid (pl_id x)" "\<not> me_valid (pl_mem x)" "\<not> wb_valid (pl_wb x)" "h_pc h = P" "h_resv h = None"
    "ex_instr (pl_ex x) = w" "ex_pc (pl_ex x) = P" "ex_source (pl_ex x) = (if f then Refused CAUSE_INSN_ACCESS_FAULT else Isa)"
    using reach_ex[of f ok P w] assms by blast
  note x = x x'
  let ?y = "pl_step P False still x" and ?h = "hist_step still x h"
  have s: "pl_shape x" using pl_run_inv[OF x(1)] by (simp add: pl_inv_def)
  have ct: "\<not> ct_div (ex_ctl (pl_ex x))" using shapeD(2)[OF s] x(2,8) assms(2) by (simp add: ex_shape_def Let_def)
  have n: "\<not> wb_redirect x" "\<not> stall_mem x" "\<not> stall_ex x" using x(4,5) ct
    by (auto simp: wb_redirect_def stall_ex_def ex_div_stall_def dest: stall_mem_valid)
  have e: "pl_env still x" using x(4) n by (simp add: pl_env_def mem_rsp_def div_survives_def still_def)
  have "pl_run P ok ?y ?h" by (rule pl_run.cycle[OF x(1) e]) (simp add: still_def fetch_serves_def)
  moreover have "h_req ?h = None"
  proof -
    have "h_req h = None" using pl_run_inv[OF x(1)] x(4) by (simp add: pl_inv_def mem_beats_def Let_def)
    then show ?thesis using x(4) by (simp add: still_def)
  qed
  moreover have "h_mem_beats ?h = []" using n(2) by (simp add: hist_step_def)
  moreover have "mem_next still x = mem_enter x" by (rule mem_next_new[OF n(1,3) x(2)])
  moreover have "\<not> inflight_next still x" using fi by (simp add: inflight_next_def if_fire_def still_def)
  moreover have "\<not> irq_inject still x" using x(2) by (simp add: irq_inject_def pipe_busy_def)
  then have "\<not> id_valid (id_next still x)" using x(3) by (simp add: id_next_def rsp_arriving_def still_def Let_def)
  moreover have "\<not> ex_valid (ex_next still x)" using x(3) n(3) by (simp add: ex_next_valid issues_def id_will_bubble_def)
  ultimately show ?thesis using x n by (intro exI[of _ ?y] exI[of _ ?h]) simp
qed

lemma reach_wb:
  assumes "\<not> f \<Longrightarrow> ok P w" "\<not> is_div_variant w" "\<not> mem_insn w" "\<not> is_csr w"
  shows "\<exists>x h. pl_run P ok x h \<and> wb_valid (pl_wb x) \<and> h_pc h = P \<and> h_resv h = None \<and>
    wb_instr (pl_wb x) = w \<and> h_wb_src h = (if f then Refused CAUSE_INSN_ACCESS_FAULT else Isa) \<and> h_wb_beats h = []"
proof -
  obtain x h where x: "pl_run P ok x h" "me_valid (pl_mem x)" "\<not> wb_valid (pl_wb x)" "h_pc h = P" "h_resv h = None"
    "me_instr (pl_mem x) = w" "h_mem_src h = (if f then Refused CAUSE_INSN_ACCESS_FAULT else Isa)"
    using reach_mem[of f ok P w] assms(1,2) by blast
  let ?y = "pl_step P False still x" and ?h = "hist_step still x h"
  have s: "pl_shape x" and b: "mem_beats h x" using pl_run_inv[OF x(1)] by (simp_all add: pl_inv_def)
  have np: "\<not> me_ls_pending (pl_mem x)" using shapeD(3)[OF s] x(2,6) assms(3) by (simp add: mem_shape_def Let_def)
  have n: "\<not> wb_redirect x" "\<not> stall_mem x" using x(3,6) np assms(4)
    by (auto simp: wb_redirect_def stall_mem_def mem_csrw_satp_def)
  have bo: "\<not> mem_bus_op x" using bus_op_iff[OF shapeD(3)[OF s] x(2)] x(6) assms(3) by simp
  then have hb: "h_mem_beats h = []" using b x(2) by (simp add: mem_beats_def Let_def)
  have e: "pl_env still x" using np n by (simp add: pl_env_def mem_rsp_def div_survives_def still_def)
  have "pl_run P ok ?y ?h" by (rule pl_run.cycle[OF x(1) e]) (simp add: still_def fetch_serves_def)
  then show ?thesis using x n hb by (intro exI[of _ ?y] exI[of _ ?h]) simp
qed

lemma wb_due:
  assumes "pl_inv ok h x" "wb_valid (pl_wb x)"
  shows "wb_pc (pl_wb x) = h_pc h" "h_wb_src h = Isa \<Longrightarrow> ok (wb_pc (pl_wb x)) (wb_instr (pl_wb x))"
  using assms unfolding pl_inv_def chain_def fetched_def by blast+

text \<open>A load from address 0 that waits in MEM.\<close>

lemma load_waits:
  assumes "pl_run P ok x h" "me_valid (pl_mem x)" "me_instr (pl_mem x) = 0x00002003" "h_mem_src h = Isa" "h_req h = None"
    "h_mem_beats h = []" "\<not> me_amo_phase (pl_mem x)"
  shows "rq_valid (pl_dm x)" "me_ls_pending (pl_mem x)" "\<not> me_trap (pl_mem x)"
proof -
  let ?w = "0x00002003 :: u32"
  have d: "opcode ?w = 0x03" "funct3 ?w = 2" "rs1_i ?w = 0" "imm_i ?w = 0" by code_simp+
  have n: "is_load ?w" "\<not> reserved ?w" using d by (simp_all add: class_defs reserved_def dec_load_def)
  note i = pl_run_inv[OF assms(1)]
  have s: "pl_shape x" and b: "mem_beats h x" and m: "mem_data Isa x" using i assms(4) by (simp_all add: pl_inv_def)
  have a: "dp_addr ?w pc R = 0" for pc R using dp_addr_of(1)[OF n(1)] d by (simp add: rf_read_def)
  have al: "ls_misaligned ?w 0 = False" "low2 0 = (0 :: 2 word)" by code_simp+
  have t: "dp_trap ?w pc R c = None" for pc R c
    unfolding dp_trap_def exec_trap_def Let_def dp_addr_def[symmetric] a al using d
    by (simp add: illegal_opcode_def target_misaligned_def class_defs)
  show tr: "\<not> me_trap (pl_mem x)" using m assms(2,3) n(2) t by (auto simp: mem_data_def holds_data_def Let_def split: if_splits)
  have im: "mem_insn ?w" using n(1) by (simp add: mem_insn_def)
  have bo: "mem_bus_op x" "\<not> me_has_result (pl_mem x)"
    using tr im bus_op_iff[OF shapeD(3)[OF s] assms(2)] shapeD(3)[OF s] assms(2,3) mem_excl(1)[OF n(1)] by (simp_all add: mem_shape_def Let_def)
  then have p: "me_ls_pending (pl_mem x)" "\<not> ml_req_fired (pl_latch x)" using b assms(2,5,6,7) by (auto simp: mem_beats_def Let_def split: if_splits)
  then show "rq_valid (pl_dm x)" "me_ls_pending (pl_mem x)" using assms(2) bo(1) by (simp_all add: pl_dm_def Let_def)
qed

section \<open>Properties\<close>

text \<open>
  C1. On every run of the pipelined core within the conditions of \<open>pl_env\<close>, an instruction that commits is the one due in
  program order, with the word the instruction memory holds there, and unless its encoding is reserved the commit does
  what the instruction means in RV32IMA over the committed state and the beats it has had on the data port: it writes its
  register, or raises its precise trap, and sets the next pc and the reservation. The reservation it sees may have been
  lost. The conditions are that in every cycle so far memory answered only a request it had accepted, a fetch that
  faulted did not deliver the encoding of a divide, an atomic operation whose load beat ended in a page fault got one on
  its store beat too, and no redirect left WB while a divide was unfinished in EX. The last three are behaviours that the
  core mishandles: \<open>Pipe_Divide\<close> shows a run that comes to the last, after which nothing is promised.
\<close>

theorem pl_commits_isa:
  assumes "pl_run P ok x h" "wb_valid (pl_wb x)" "h_wb_src h = Isa"
  defines "w \<equiv> wb_instr (pl_wb x)" and "v \<equiv> (\<lambda>i. read_value (wb_csr_port i x) (pl_csr x))"
  shows "wb_pc (pl_wb x) = h_pc h \<and> ok (h_pc h) w \<and> (\<not> reserved w \<longrightarrow> (\<forall>i. \<exists>rv. (rv = None \<or> rv = h_resv h) \<and>
    commits P i x h (play (isa_act w (hart_ctx w (h_pc h) (pl_rf x) rv (pl_csr x) (v i))) (h_wb_beats h))))"
proof -
  note i = pl_run_inv[OF assms(1)]
  have "wb_pc (pl_wb x) = h_pc h" "ok (wb_pc (pl_wb x)) w" using wb_due[OF i assms(2)] assms(3) by (simp_all add: w_def)
  then show ?thesis using commits_isa[OF i assms(2,3)] by (simp add: w_def v_def)
qed

theorem pl_commits_isa_witness:
  "\<exists>x h. pl_run 0x80000000 (\<lambda>a w. w = 0x00A00093) x h \<and> (\<forall>i. commits 0x80000000 i x h (Some (Retire (Some (1, 10)) 0x80000004 None)))"
proof -
  let ?w = "0x00A00093 :: u32"
  have d: "opcode ?w = 0x13" "funct3 ?w = 0" "funct7 ?w = 0" "rd_i ?w = 1" "rs1_i ?w = 0" "imm_i ?w = 10" by code_simp+
  have n: "\<not> is_div_variant ?w" "\<not> mem_insn ?w" "\<not> is_csr ?w" using d by (simp_all add: mem_insn_def class_defs)
  obtain x h where x: "pl_run 0x80000000 (\<lambda>a w. w = ?w) x h" "wb_valid (pl_wb x)" "h_pc h = 0x80000000" "h_resv h = None" "wb_instr (pl_wb x) = ?w"
    "h_wb_src h = Isa" "h_wb_beats h = []"
    using reach_wb[of False "\<lambda>a w. w = ?w" "0x80000000" ?w] n by auto
  have a: "isa_act ?w (hart_ctx ?w 0x80000000 R None c v) = Retire (Some (1, 10)) 0x80000004 None" for R c v
    using d by (simp add: dpd dec_arith_imm_def dec_arith_def arith_fn_def rf_read_def)
  have "\<not> reserved ?w" using d by (simp add: reserved_def)
  then have "commits 0x80000000 i x h (Some (Retire (Some (1, 10)) 0x80000004 None))" for i
    using pl_commits_isa[OF x(1,2,6)] x(3,4,5,7) a by simp
  then show ?thesis using x(1) by blast
qed

text \<open>
  C8. On every run within the conditions of \<open>pl_env\<close> a request on the data port is never speculative: it
  comes from the instruction due next, when nothing older redirects; that instruction is a memory instruction which
  raises no exception of its own, and it is not dropped: it stays in MEM, or goes on to WB.
\<close>

theorem pl_requests_due:
  assumes "pl_run P ok x h" "rq_valid (pl_dm x)"
  defines "w \<equiv> me_instr (pl_mem x)" and "y \<equiv> (\<lambda>i. pl_step P False i x)"
  shows "\<not> wb_redirect x \<and> me_pc (pl_mem x) = due_mem h x \<and> ok (due_mem h x) w \<and> mem_insn w \<and>
    (\<not> reserved w \<longrightarrow> dp_trap w (due_mem h x) (regs_wb x) (pl_csr x) = None) \<and>
    (\<forall>i. (me_valid (pl_mem (y i)) \<and> me_instr (pl_mem (y i)) = w) \<or> (wb_valid (pl_wb (y i)) \<and> wb_instr (pl_wb (y i)) = w))"
proof -
  note i = pl_run_inv[OF assms(1)]
  have s: "pl_shape x" using i by (simp add: pl_inv_def)
  have v: "me_valid (pl_mem x)" using assms(2) by (simp add: pl_dm_def Let_def)
  have "(me_valid (pl_mem (y i)) \<and> me_instr (pl_mem (y i)) = w) \<or> (wb_valid (pl_wb (y i)) \<and> wb_instr (pl_wb (y i)) = w)" for i
    using mem_stays[OF s v, of i] unfolding y_def w_def pl_sel by (cases "stall_mem x") simp_all
  then show ?thesis using request_due[OF i assms(2)] by (simp add: w_def)
qed

theorem pl_requests_due_witness:
  "\<exists>x h. pl_run 0x80000000 (\<lambda>a w. w = 0x00002003) x h \<and> rq_valid (pl_dm x) \<and> due_mem h x = 0x80000000 \<and> \<not> wb_redirect x"
proof -
  let ?w = "0x00002003 :: u32"
  have "opcode ?w = 0x03" by code_simp
  then have n: "\<not> is_div_variant ?w" by (simp add: class_defs)
  obtain x h where x: "pl_run 0x80000000 (\<lambda>a w. w = ?w) x h" "me_valid (pl_mem x)" "\<not> wb_valid (pl_wb x)" "h_pc h = 0x80000000" "me_instr (pl_mem x) = ?w"
    "h_mem_src h = Isa" "h_req h = None" "h_mem_beats h = []" "\<not> me_amo_phase (pl_mem x)"
    using reach_mem[of False "\<lambda>a w. w = ?w" "0x80000000" ?w] n by auto
  have rq: "rq_valid (pl_dm x)" by (rule load_waits(1)[OF x(1,2,5-9)])
  have "due_mem h x = 0x80000000" using x(3,4) by (simp add: due_mem_def)
  moreover have "\<not> wb_redirect x" using pl_requests_due[OF x(1) rq] by simp
  ultimately show ?thesis using x(1) rq by blast
qed

text \<open>
  C19. On every run within the conditions of \<open>pl_env\<close> an interrupt, or a fetch that the memory refused, that
  reaches WB commits as a precise trap: at the pc that is due, with its cause and trap value, to the handler the CSR file
  names, and with no other effect.
\<close>

theorem pl_commits_trap:
  assumes "pl_run P ok x h" "wb_valid (pl_wb x)" "h_wb_src h \<noteq> Isa"
  shows "\<exists>k t. src_trap (h_wb_src h) (h_pc h) = Some (k, t) \<and> (\<forall>i. commits P i x h (Some (Raise k t)))"
proof -
  note i = pl_run_inv[OF assms(1)]
  obtain k t where "src_trap (h_wb_src h) (h_pc h) = Some (k, t)" using commits_trap[OF i assms(2,3)] by blast
  then show ?thesis using commits_trap[OF i assms(2,3)] by auto
qed

theorem pl_commits_trap_witness:
  "\<exists>x h. pl_run 0x80000000 (\<lambda>a w. False) x h \<and> (\<forall>i. commits 0x80000000 i x h (Some (Raise 1 0x80000000)))"
proof -
  have "opcode 0 = 0" "funct3 0 = 0" by code_simp+
  then have n: "\<not> is_div_variant 0" "\<not> mem_insn 0" "\<not> is_csr 0" by (simp_all add: mem_insn_def class_defs)
  obtain x h where x: "pl_run 0x80000000 (\<lambda>a w. False) x h" "wb_valid (pl_wb x)" "h_pc h = 0x80000000"
    "h_wb_src h = Refused CAUSE_INSN_ACCESS_FAULT"
    using reach_wb[of True "\<lambda>a w. False" "0x80000000" 0] n by auto
  then show ?thesis using pl_commits_trap[OF x(1,2)] by (auto simp: CAUSE_INSN_ACCESS_FAULT_def)
qed

text \<open>
  C20. On every run within the conditions of \<open>pl_env\<close> neighbouring stages are full only around a divide, an
  instruction that must run alone is alone from EX on, an interrupt enters an empty pipeline, and the registers of EX,
  MEM and WB hold the decoder's fields of their instruction words.
\<close>

theorem pl_stages:
  assumes "pl_run P ok x h"
  shows "pl_shape x"
  using pl_run_inv[OF assms] by (simp add: pl_inv_def)

theorem pl_stages_witness: "\<exists>x h. pl_run 0x80000000 (\<lambda>a w. w = 0x00002003) x h \<and> me_valid (pl_mem x) \<and> mem_shape (pl_mem x)"
proof -
  have "opcode 0x00002003 = 0x03" by code_simp
  then have n: "\<not> is_div_variant 0x00002003" by (simp add: class_defs)
  obtain x h where x: "pl_run 0x80000000 (\<lambda>a w. w = 0x00002003) x h" "me_valid (pl_mem x)"
    using reach_mem[of False "\<lambda>a w. w = 0x00002003" "0x80000000" "0x00002003"] n by auto
  then show ?thesis using shapeD(3)[OF pl_stages[OF x(1)]] by blast
qed

end
