(* ===== verification/Pipe_Live.thy ===== *)
theory Pipe_Live
  imports Pipe_Run
begin

text \<open>
  The pipelined core goes on: if the memories take requests at once and answer them in the next cycle, an instruction, an
  interrupt or a refused fetch commits within 64 cycles of any reachable state. A rank of the oldest occupied stage
  falls with every cycle in which nothing commits.
\<close>

unbundle bit_operations_syntax

section \<open>The divider comes to an end\<close>

definition div_rank :: "div_unit \<Rightarrow> nat" where
  "div_rank d = (case dv_state d of S_IDLE \<Rightarrow> 0 | S_INIT \<Rightarrow> 35 | S_COMPUTE \<Rightarrow> 33 - unat (dv_iter d) | S_FIXUP \<Rightarrow> 1)"

definition iter_ok :: "div_unit \<Rightarrow> bool" where
  "iter_ok d \<longleftrightarrow> (dv_state d = S_INIT \<or> dv_state d = S_COMPUTE \<longrightarrow> unat (dv_iter d) \<le> 31)"

lemma iter_next: "unat k \<le> 31 \<Longrightarrow> k \<noteq> 31 \<Longrightarrow> unat (k + 1 :: 6 word) = Suc (unat k) \<and> unat k < 31"
proof -
  assume a: "unat k \<le> 31" "k \<noteq> 31"
  have "unat k \<noteq> unat (31 :: 6 word)" using a(2) by (simp only: word_unat_eq_iff [symmetric] simp_thms)
  then have l: "unat k < 31" using a(1) by simp
  then show "unat (k + 1) = Suc (unat k) \<and> unat k < 31" by (simp add: unat_word_ariths)
qed

lemma iter_ok_step: "iter_ok d \<Longrightarrow> iter_ok (div_step False j d)"
  using iter_next[of "dv_iter d"]
  by (auto simp: iter_ok_def div_step_def div_start_def div_compute_def Let_def split: div_fsm.splits)

lemma div_rank_falls: "iter_ok d \<Longrightarrow> dv_state d \<noteq> S_IDLE \<Longrightarrow> div_rank (div_step False j d) < div_rank d"
  using iter_next[of "dv_iter d"]
  by (auto simp: iter_ok_def div_rank_def div_step_def div_compute_def Let_def split: div_fsm.splits)

lemma div_rank_start: "div_rank d \<le> 35"
  by (cases "dv_state d") (simp_all add: div_rank_def)

lemma goal_busy: "div_goal d r \<Longrightarrow> \<not> dv_done d \<Longrightarrow> dv_state d \<noteq> S_IDLE"
  using div_unit_run by (fastforce simp: div_goal_def dv_busy_def Let_def split: if_splits)

section \<open>Prompt surroundings\<close>

definition prompt :: "mc_in \<Rightarrow> pl \<Rightarrow> bool" where
  "prompt i x \<longleftrightarrow> ni_if_ready i \<and> ni_dm_ready i \<and> (pl_if_inflight x \<longrightarrow> ni_if_rsp i) \<and> (ml_req_fired (pl_latch x) \<longrightarrow> ni_dm_rsp i)"

text \<open>No fetch is held back unless a trap is on its way to WB.\<close>

definition held :: "pl \<Rightarrow> bool" where
  "held x \<longleftrightarrow> (pl_trap_pending x \<longrightarrow> (me_valid (pl_mem x) \<and> me_trap (pl_mem x)) \<or> (wb_valid (pl_wb x) \<and> wb_trap (pl_wb x)))"

definition live :: "pl \<Rightarrow> bool" where
  "live x \<longleftrightarrow> pl_shape x \<and> ex_snap x \<and> pl_div_inv x \<and> iter_ok (pl_div x) \<and> held x"

lemma trap_no_stall:
  assumes "pl_shape x" "me_valid (pl_mem x)" "me_trap (pl_mem x)"
  shows "\<not> stall_mem x" "\<not> mem_bus_op x"
  using shapeD(3)[OF assms(1)] assms(2,3) bus_op_iff[OF shapeD(3)[OF assms(1)] assms(2)]
  by (auto simp: mem_shape_def stall_mem_def mem_csrw_satp_def Let_def)

lemma keep_held:
  assumes "pl_shape x" "held x"
  shows "held (pl_step P False i x)"
proof (cases "wb_redirect x")
  case True
  then show ?thesis by (simp add: held_def trap_pending_next_def)
next
  case r: False
  show ?thesis
  proof (cases "ex_trap x \<noteq> None \<and> \<not> stall_ex x")
    case True
    have v: "ex_valid (pl_ex x)" by (rule ccontr) (use True in \<open>simp add: ex_trap_def\<close>)
    have "mem_next i x = mem_enter x" by (rule mem_next_new) (use r True v in simp_all)
    then show ?thesis using True by (auto simp: held_def mem_enter_def Let_def)
  next
    case False
    show ?thesis
    proof (cases "pl_trap_pending x")
      case True
      then have m: "me_valid (pl_mem x)" "me_trap (pl_mem x)" using assms(2) r by (auto simp: held_def wb_redirect_def)
      then have "wb_trap (wb_next x)" using trap_no_stall[OF assms(1) m] r by (simp add: wb_next_def Let_def)
      then show ?thesis using m trap_no_stall[OF assms(1) m] r by (simp add: held_def)
    next
      case np: False
      then show ?thesis using False by (auto simp: held_def trap_pending_next_def)
    qed
  qed
qed

lemma live_step:
  assumes "live x" "pl_env i x"
  shows "live (pl_step P False i x)"
  using assms pl_shape_step[of x i P] keep_snap[of x i P] keep_div[of x i P] keep_held[of x P i] iter_ok_step[of "pl_div x" "ex_div_input x"]
  unfolding live_def pl_sel(17) by blast

lemma live_reset: "live (pl_step P True i x)"
proof -
  have "pl_inv (\<lambda>_ _. True) (hist_reset P) (pl_step P True i x)" by (rule pl_inv_reset)
  then show ?thesis
    by (simp add: live_def pl_inv_def iter_ok_def held_def) (simp add: pl_step_def div_step_def div_reset_def)
qed

lemma live_run: "pl_run P ok x h \<Longrightarrow> live x"
  by (induction rule: pl_run.induct) (auto intro: live_reset live_step)

section \<open>The rank of a state\<close>

definition mem_rank :: "pl \<Rightarrow> nat" where
  "mem_rank x =
     (if me_ls_pending (pl_mem x)
      then 3 + (if me_is_amo_rmw (pl_mem x) \<and> \<not> me_amo_phase (pl_mem x) then 4 else 2) + (if ml_req_fired (pl_latch x) then 0 else 1)
      else if stall_mem x then 2 else 1)"

definition ex_rank :: "pl \<Rightarrow> nat" where
  "ex_rank x =
     (if \<not> ex_div_stall x then 10 else if \<not> pl_div_started x then 49 else if dv_done (pl_div x) then 11 else 12 + div_rank (pl_div x))"

definition front_rank :: "pl \<Rightarrow> nat" where
  "front_rank x =
     (if id_valid (pl_id x) then (if id_irq (pl_id x) then 60 else 61)
      else if \<not> pl_if_inflight x then 63 else if pl_squash x then 64 else 62)"

definition pl_rank :: "pl \<Rightarrow> nat" where
  "pl_rank x =
     (if wb_valid (pl_wb x) then 0 else if me_valid (pl_mem x) then mem_rank x else if ex_valid (pl_ex x) then ex_rank x
      else front_rank x)"

lemma mem_rank_max: "mem_rank x \<le> 8" by (simp add: mem_rank_def)
lemma ex_rank_bounds: "10 \<le> ex_rank x" "ex_rank x \<le> 49"
  using div_rank_start[of "pl_div x"] by (auto simp: ex_rank_def)
lemma front_rank_bounds: "60 \<le> front_rank x" "front_rank x \<le> 64" by (auto simp: front_rank_def)
lemma rank_max: "pl_rank x \<le> 64"
  using mem_rank_max[of x] ex_rank_bounds(2)[of x] front_rank_bounds(2)[of x] by (simp add: pl_rank_def)

lemma rank_mem:
  assumes "pl_shape x" "pl_env i x" "prompt i x" "\<not> wb_valid (pl_wb x)" "me_valid (pl_mem x)"
  shows "pl_rank (pl_step P False i x) < pl_rank x"
proof -
  let ?y = "pl_step P False i x"
  have r: "\<not> wb_redirect x" using assms(4) by (simp add: wb_redirect_def)
  show ?thesis
  proof (cases "stall_mem x")
    case False
    then have "wb_valid (pl_wb ?y)" using assms(5) r by simp
    moreover have "0 < mem_rank x" by (simp add: mem_rank_def)
    ultimately show ?thesis using assms(4,5) by (simp add: pl_rank_def)
  next
    case st: True
    note sh = shapeD(3)[OF assms(1)]
    have v: "me_valid (pl_mem ?y)" "\<not> wb_valid (pl_wb ?y)" using st r by (simp_all add: mem_next_valid[OF assms(1,2)])
    have "mem_rank ?y < mem_rank x"
    proof (cases "me_ls_pending (pl_mem x)")
      case False
      then have c: "mem_csrw_satp x" "pl_if_inflight x" using st by (simp_all add: stall_mem_def)
      have "\<not> if_fire i x" "ni_if_rsp i" using c(2) assms(3) by (simp_all add: if_fire_def if_can_issue_def prompt_def)
      then have n: "\<not> pl_if_inflight ?y" using c(2) by (simp add: inflight_next_def rsp_arriving_def)
      have "mem_next i x = pl_mem x" using st r False by (simp add: mem_next_def Let_def)
      then show ?thesis using n False st by (simp add: mem_rank_def stall_mem_def)
    next
      case pd: True
      have t: "\<not> me_trap (pl_mem x)" "mem_insn (me_instr (pl_mem x))" using sh pd assms(5) by (simp_all add: mem_shape_def Let_def)
      then have bo: "mem_bus_op x" using bus_op_iff[OF sh assms(5)] by simp
      have cs: "\<not> is_csr (me_instr (pl_mem x))" using t(2) by (rule_tac mem_cases[of "me_instr (pl_mem x)"]; simp)
      show ?thesis
      proof (cases "mem_rsp i x")
        case True
        then have n: "mem_next i x = (if me_is_amo_rmw (pl_mem x) \<and> \<not> me_amo_phase (pl_mem x) \<and> \<not> ni_dm_fault i
            then (pl_mem x)\<lparr>me_amo_phase := True\<rparr> else (pl_mem x)\<lparr>me_ls_pending := False\<rparr>)"
          using st r by (simp add: mem_next_def mem_rsp_def Let_def)
        show ?thesis using pd True r n by (auto simp: mem_rank_def)
      next
        case False
        then have nf: "\<not> ml_req_fired (pl_latch x)" using assms(3,5) pd by (auto simp: mem_rsp_def prompt_def)
        then have rq: "rq_valid (pl_dm x)" using assms(5) bo pd by (simp add: pl_dm_def Let_def)
        have n: "mem_next i x = pl_mem x" using st r False assms(5) pd by (simp add: mem_next_def mem_rsp_def Let_def)
        show ?thesis using n pd nf rq r False assms(3) by (simp add: mem_rank_def prompt_def)
      qed
    qed
    then show ?thesis using v assms(4,5) by (simp add: pl_rank_def del: pl_sel)
  qed
qed

lemma rank_ex:
  assumes "live x" "pl_env i x" "\<not> wb_valid (pl_wb x)" "\<not> me_valid (pl_mem x)" "ex_valid (pl_ex x)"
  shows "pl_rank (pl_step P False i x) < pl_rank x"
proof -
  let ?y = "pl_step P False i x"
  have s: "pl_shape x" "ex_snap x" "pl_div_inv x" "iter_ok (pl_div x)" using assms(1) by (simp_all add: live_def)
  have r: "\<not> wb_redirect x" "\<not> stall_mem x" using assms(3,4) by (auto simp: wb_redirect_def dest: stall_mem_valid)
  have w: "\<not> wb_valid (pl_wb ?y)" using assms(4) by simp
  show ?thesis
  proof (cases "ex_div_stall x")
    case False
    then have "me_valid (pl_mem ?y)" using r assms(5) by (simp add: mem_next_valid[OF s(1) assms(2)] stall_ex_def)
    then show ?thesis using assms(3-5) w mem_rank_max[of ?y] ex_rank_bounds(1)[of x] by (simp add: pl_rank_def del: pl_sel)
  next
    case True
    then have st: "stall_ex x" by (simp add: stall_ex_def)
    have nm: "\<not> me_valid (pl_mem ?y)" using r st by (simp add: mem_next_valid[OF s(1) assms(2)])
    have e: "pl_ex ?y = pl_ex x" using st by (simp add: ex_next_cases)
    have nd: "\<not> pl_div_done x" "\<not> div_clear x" "ct_div (ex_ctl (pl_ex x))" using True r(1) st by (auto simp: ex_div_stall_def div_clear_def)
    have dv: "is_div_variant (ex_instr (pl_ex x))" by (rule ex_stays(3)[OF s(1) st assms(5)])
    have started: "pl_div_started ?y" using assms(5) r nd by (auto simp: div_started_next_def ex_div_start_def)
    have "ex_rank ?y < ex_rank x"
    proof (cases "pl_div_started x")
      case False
      then have "ex_rank x = 49" using True by (simp add: ex_rank_def)
      moreover have "ex_rank ?y \<le> 47" using started div_rank_start[of "pl_div ?y"] by (auto simp: ex_rank_def simp del: pl_sel)
      ultimately show ?thesis by simp
    next
      case ds: True
      then have g: "div_goal (pl_div x) (dp_quot (ex_instr (pl_ex x)) (regs_mem x))"
        using s(3) assms(5) dv nd(1) by (simp add: pl_div_inv_def Let_def)
      show ?thesis
      proof (cases "dv_done (pl_div x)")
        case d: True
        then have "pl_div_done ?y" using nd by (simp add: div_done_next_def)
        then have "ex_rank ?y = 10" by (simp add: ex_rank_def ex_div_stall_def del: pl_sel)
        moreover have "ex_rank x = 11" using True ds d by (simp add: ex_rank_def)
        ultimately show ?thesis by simp
      next
        case d: False
        have "div_rank (pl_div ?y) < div_rank (pl_div x)" using div_rank_falls[OF s(4) goal_busy[OF g d]] by simp
        moreover have "ex_rank x = 12 + div_rank (pl_div x)" using True ds d by (simp add: ex_rank_def)
        moreover have "ex_rank ?y \<le> 12 + div_rank (pl_div ?y)" using started by (auto simp: ex_rank_def simp del: pl_sel)
        ultimately show ?thesis by simp
      qed
    qed
    then show ?thesis using assms(3-5) w nm e by (simp add: pl_rank_def del: pl_sel)
  qed
qed

lemma rank_front:
  assumes "live x" "pl_env i x" "prompt i x" "\<not> wb_valid (pl_wb x)" "\<not> me_valid (pl_mem x)" "\<not> ex_valid (pl_ex x)"
  shows "pl_rank (pl_step P False i x) < pl_rank x"
proof -
  let ?y = "pl_step P False i x"
  have s: "pl_shape x" "held x" using assms(1) by (simp_all add: live_def)
  have b: "\<not> pipe_busy x" using assms(4-6) by (simp add: pipe_busy_def)
  have r: "\<not> wb_redirect x" "\<not> branch_redirect x" "\<not> stall_mem x" "\<not> stall_id x" "\<not> stall_ex x"
    using assms(4-6) idle_no_stall[OF b]
    by (auto simp: wb_redirect_def branch_redirect_def ex_take_branch_def ex_take_jal_def ex_take_jalr_def stall_ex_def ex_div_stall_def
        dest: stall_mem_valid)
  have tp: "\<not> pl_trap_pending x" using s(2) assms(4,5) by (simp add: held_def)
  have w: "\<not> wb_valid (pl_wb ?y)" "\<not> me_valid (pl_mem ?y)" using assms(5,6) r(3) by (simp_all add: mem_next_valid[OF s(1) assms(2)])
  have x: "pl_rank x = front_rank x" using assms(4-6) by (simp add: pl_rank_def)
  show ?thesis
  proof (cases "issues i x")
    case True
    then have "pl_rank ?y = ex_rank ?y" using w by (simp add: pl_rank_def ex_next_valid r(5) del: pl_sel(7,9))
    then show ?thesis using ex_rank_bounds(2)[of ?y] front_rank_bounds(1)[of x] x by simp
  next
    case False
    then have y: "pl_rank ?y = front_rank ?y" using w by (simp add: pl_rank_def ex_next_valid r(5) del: pl_sel(7,9))
    have "front_rank ?y < front_rank x"
    proof (cases "irq_inject i x")
      case True
      then have "\<not> id_irq (pl_id x)" by (simp add: irq_inject_def)
      then have "60 < front_rank x" by (simp add: front_rank_def)
      moreover have "front_rank ?y = 60" using True r by (simp add: front_rank_def id_next_def Let_def)
      ultimately show ?thesis by simp
    next
      case ni: False
      then have iv: "\<not> id_valid (pl_id x)" using False r by (auto simp: issues_def id_will_bubble_def)
      show ?thesis
      proof (cases "pl_if_inflight x")
        case True
        then have ra: "rsp_arriving i x" "\<not> if_fire i x" using assms(3) by (simp_all add: rsp_arriving_def prompt_def if_fire_def if_can_issue_def)
        show ?thesis
        proof (cases "pl_squash x")
          case True
          then show ?thesis using iv \<open>pl_if_inflight x\<close> ra ni r by (simp add: front_rank_def id_next_def inflight_next_def Let_def)
        next
          case False
          then show ?thesis using iv \<open>pl_if_inflight x\<close> ra ni r by (simp add: front_rank_def id_next_def Let_def)
        qed
      next
        case False
        then have "if_fire i x" "\<not> rsp_arriving i x" using iv r tp ni assms(3) by (simp_all add: if_fire_def if_can_issue_def rsp_arriving_def prompt_def)
        then show ?thesis using iv False ni r by (simp add: front_rank_def id_next_def inflight_next_def squash_next_def Let_def)
      qed
    qed
    then show ?thesis using x y by simp
  qed
qed

lemma rank_falls:
  assumes "live x" "pl_env i x" "prompt i x" "\<not> wb_valid (pl_wb x)"
  shows "pl_rank (pl_step P False i x) < pl_rank x"
proof -
  have s: "pl_shape x" using assms(1) by (simp add: live_def)
  show ?thesis using rank_mem[OF s assms(2-4)] rank_ex[OF assms(1,2,4)] rank_front[OF assms] by blast
qed

section \<open>Commits\<close>

text \<open>The states from \<open>x\<close> on, when \<open>g\<close> chooses the inputs of a cycle.\<close>

primrec pl_path :: "u32 \<Rightarrow> (nat \<Rightarrow> pl \<Rightarrow> mc_in) \<Rightarrow> pl \<Rightarrow> nat \<Rightarrow> pl" where
  "pl_path P g x 0 = x"
| "pl_path P g x (Suc n) = pl_step P False (g n (pl_path P g x n)) (pl_path P g x n)"

lemma path_rank:
  assumes "live x" "\<And>n. n < N \<Longrightarrow> \<not> wb_valid (pl_wb (pl_path P g x n)) \<Longrightarrow>
    pl_env (g n (pl_path P g x n)) (pl_path P g x n) \<and> prompt (g n (pl_path P g x n)) (pl_path P g x n)"
    "\<forall>n<N. \<not> wb_valid (pl_wb (pl_path P g x n))" "n \<le> N"
  shows "live (pl_path P g x n) \<and> pl_rank (pl_path P g x n) + n \<le> pl_rank x"
  using assms(4)
proof (induction n)
  case 0
  then show ?case using assms(1) by simp
next
  case (Suc n)
  let ?y = "pl_path P g x n" let ?i = "g n ?y"
  have v: "\<not> wb_valid (pl_wb ?y)" "n < N" using Suc.prems assms(3) by auto
  then have e: "pl_env ?i ?y" "prompt ?i ?y" using assms(2) by blast+
  have l: "live ?y" "pl_rank ?y + n \<le> pl_rank x" using Suc by simp_all
  show ?case using live_step[OF l(1) e(1), of P] rank_falls[OF l(1) e v(1), of P] l(2) by simp
qed

text \<open>
  C6. From every state of a run within \<open>pl_env\<close> the pipelined core commits within 64 cycles, if until then the
  conditions of \<open>pl_env\<close> hold and the memories take its requests at once and answer them in the next cycle: no
  stall, hazard, redirect or divide keeps it for ever.
\<close>

theorem pl_goes_on:
  assumes "pl_run P ok x h"
    and "\<And>n. n < 64 \<Longrightarrow> \<not> wb_valid (pl_wb (pl_path P g x n)) \<Longrightarrow>
      pl_env (g n (pl_path P g x n)) (pl_path P g x n) \<and> prompt (g n (pl_path P g x n)) (pl_path P g x n)"
  shows "\<exists>n\<le>64. pl_commit i (pl_path P g x n) \<noteq> None"
proof (rule ccontr)
  assume "\<not> ?thesis"
  then have n: "\<not> wb_valid (pl_wb (pl_path P g x n))" if "n \<le> 64" for n using that by (auto simp: pl_commit_def)
  then have "pl_rank (pl_path P g x 64) + 64 \<le> pl_rank x"
    using path_rank[OF live_run[OF assms(1)] assms(2), of 64 64] by simp
  then have "pl_rank (pl_path P g x 64) = 0" using rank_max[of x] by simp
  moreover have "\<not> wb_valid (pl_wb (pl_path P g x 64))" by (rule n) simp
  ultimately show False using ex_rank_bounds(1)[of "pl_path P g x 64"] front_rank_bounds(1)[of "pl_path P g x 64"]
    by (auto simp: pl_rank_def mem_rank_def split: if_splits)
qed

text \<open>Surroundings that are prompt, serve NOPs and repeat a page fault.\<close>

definition nop_in :: "pl \<Rightarrow> mc_in" where
  "nop_in x = still\<lparr>ni_if_ready := True, ni_if_rsp := pl_if_inflight x, ni_if_data := 0x13, ni_dm_ready := True, ni_dm_rsp := ml_req_fired (pl_latch x),
     ni_dm_pagefault := ml_bus_pagefault (pl_latch x)\<rparr>"

lemma nop_in_ok: "\<not> wb_valid (pl_wb x) \<Longrightarrow> pl_env (nop_in x) x \<and> prompt (nop_in x) x"
  by (simp add: nop_in_def still_def prompt_def pl_env_def div_survives_def wb_redirect_def mem_rsp_def)

theorem pl_goes_on_witness:
  "\<exists>x h. pl_run 0x80000000 (\<lambda>a w. w = 0x13) x h \<and> (\<exists>n\<le>64. pl_commit still (pl_path 0x80000000 (\<lambda>_. nop_in) x n) \<noteq> None)"
proof -
  obtain x h where x: "pl_run 0x80000000 (\<lambda>a w. w = 0x13) x h" by (meson pl_run.reset)
  have "\<exists>n\<le>64. pl_commit still (pl_path 0x80000000 (\<lambda>_. nop_in) x n) \<noteq> None"
    by (rule pl_goes_on[OF x]) (rule nop_in_ok)
  then show ?thesis using x by blast
qed

end
