(* ===== verification/Pipe_Divide.thy ===== *)
theory Pipe_Divide
  imports Pipe_Refine Pipe_Live
begin

text \<open>
  The divide that is not flushed. \<open>pl_env\<close> asks that no redirect leaves WB while a divide is unfinished in EX;
  here is a run of the pipelined core that comes to such a state: a load whose access fails, with a divide behind it.
\<close>

unbundle bit_operations_syntax

lemma div_kept:
  assumes "div_survives x"
  shows "ex_next i x = pl_ex x" "ex_valid (pl_ex x)"
  using assms by (simp_all add: div_survives_def ex_next_def stall_ex_def ex_div_stall_def)

definition lw_then_div :: "u32 \<Rightarrow> u32 \<Rightarrow> bool" where
  "lw_then_div a w \<longleftrightarrow> (if a = 0x80000000 then w = 0x00002003 else w = 0x02A5C533)"

lemma lw_div_words:
  "opcode (0x00002003 :: u32) = 0x03" "rd_i (0x00002003 :: u32) = 0" "is_div_variant (0x02A5C533 :: u32)" "\<not> is_div_variant (0x00002003 :: u32)"
  "\<not> id_serial (0x00002003 :: u32)"
  by code_simp+

definition lw_waits :: "pl \<Rightarrow> bool" where
  "lw_waits x \<longleftrightarrow> live x \<and> me_valid (pl_mem x) \<and> me_instr (pl_mem x) = 0x00002003 \<and> me_pc (pl_mem x) = 0x80000000 \<and>
    me_ls_pending (pl_mem x) \<and> \<not> me_trap (pl_mem x) \<and> \<not> wb_valid (pl_wb x) \<and> \<not> ex_valid (pl_ex x) \<and> \<not> id_valid (pl_id x)"

lemma load_in_mem: "\<exists>x h. pl_run 0x80000000 lw_then_div x h \<and> lw_waits x \<and> \<not> pl_if_inflight x \<and> pl_pc x = 0x80000004"
proof -
  let ?w = "0x00002003 :: u32"
  obtain x h where x: "pl_run 0x80000000 lw_then_div x h" "me_valid (pl_mem x)" "\<not> wb_valid (pl_wb x)" "\<not> ex_valid (pl_ex x)" "\<not> id_valid (pl_id x)"
    "\<not> pl_if_inflight x" "me_instr (pl_mem x) = ?w" "me_pc (pl_mem x) = 0x80000000" "h_mem_src h = Isa" "h_req h = None" "h_mem_beats h = []"
    "\<not> me_amo_phase (pl_mem x)"
    using reach_mem[of False lw_then_div "0x80000000" "0x00002003"] lw_div_words(4) by (auto simp: lw_then_div_def)
  note l = load_waits[OF x(1,2,7,9-12)]
  have n: "\<not> redirects ?w" "npc_of ?w pc R = pc + 4" for pc R
    using lw_div_words(1) by (simp_all add: redirects_def npc_of_def next_pc_def class_defs)
  have "chain h x" using pl_run_inv[OF x(1)] by (simp add: pl_inv_def)
  moreover have "\<not> wb_redirect x" "\<not> redir_mem x" "\<not> redir_ex x" "\<not> ex_jumps x"
    using x(3,4,7) l(3) n(1) by (simp_all add: wb_redirect_def redir_mem_def redir_ex_def ex_jumps_def ex_take_branch_def ex_take_jal_def ex_take_jalr_def)
  ultimately have "pl_pc x = 0x80000004" using x(2,4-8) n(2) by (simp add: chain_def front_inv_def due_id_def due_ex_def)
  then show ?thesis using x l live_run[OF x(1)] unfolding lw_waits_def by blast
qed

lemma lw_still:
  assumes "lw_waits x" "\<not> mem_rsp i x" "\<not> rsp_arriving i x" "pl_env i x"
  shows "lw_waits (pl_step P False i x)"
proof -
  have r: "\<not> wb_redirect x" "stall_mem x" "\<not> stall_mem x \<Longrightarrow> False" "pipe_busy x" and l: "live x"
    using assms(1) by (simp_all add: lw_waits_def wb_redirect_def stall_mem_def pipe_busy_def)
  have s: "pl_shape x" using l by (simp add: live_def)
  have m: "mem_next i x = pl_mem x" using r assms(2) by (simp add: mem_next_def mem_rsp_def Let_def)
  have "ex_next i x = pl_ex x" using r(2) by (simp add: ex_next_cases stall_ex_def)
  moreover have "\<not> irq_inject i x" using r(4) by (simp add: irq_inject_def)
  then have "\<not> id_valid (id_next i x)" using assms(1,3) by (auto simp: lw_waits_def id_next_def Let_def)
  ultimately show ?thesis using assms(1) m r(2) live_step[OF l assms(4)] unfolding lw_waits_def by simp
qed

text \<open>The divide is fetched behind the load, and the load fails.\<close>

lemma div_in_id:
  "\<exists>x h. pl_run 0x80000000 lw_then_div x h \<and> live x \<and> me_valid (pl_mem x) \<and> me_instr (pl_mem x) = 0x00002003 \<and> me_pc (pl_mem x) = 0x80000000 \<and>
    \<not> me_ls_pending (pl_mem x) \<and> \<not> me_trap (pl_mem x) \<and> ml_bus_fault (pl_latch x) \<and> \<not> wb_valid (pl_wb x) \<and> \<not> ex_valid (pl_ex x) \<and>
    id_valid (pl_id x) \<and> \<not> id_irq (pl_id x) \<and> id_instr (pl_id x) = 0x02A5C533 \<and> id_pc (pl_id x) = 0x80000004"
proof -
  let ?i1 = "still\<lparr>ni_if_ready := True\<rparr>"
  let ?i2 = "still\<lparr>ni_if_rsp := True, ni_if_data := 0x02A5C533, ni_dm_ready := True, ni_dm_rsp := True, ni_dm_fault := True\<rparr>"
  obtain x h where x: "pl_run 0x80000000 lw_then_div x h" "lw_waits x" "\<not> pl_if_inflight x" "pl_pc x = 0x80000004" using load_in_mem by blast
  let ?y = "pl_step 0x80000000 False ?i1 x" and ?h = "hist_step ?i1 x h"
  note w = x(2)[unfolded lw_waits_def]
  have r: "\<not> wb_redirect x" "\<not> branch_redirect x" "pipe_busy x" using w
    by (simp_all add: wb_redirect_def branch_redirect_def pipe_busy_def ex_take_branch_def ex_take_jal_def ex_take_jalr_def)
  have e: "pl_env ?i1 x" using r by (simp add: pl_env_def mem_rsp_def div_survives_def still_def)
  have y: "pl_run 0x80000000 lw_then_div ?y ?h" by (rule pl_run.cycle[OF x(1) e]) (simp add: fetch_serves_def still_def)
  have wy: "lw_waits ?y" by (rule lw_still[OF x(2) _ _ e]) (simp_all add: mem_rsp_def rsp_arriving_def still_def)
  have f: "if_fire ?i1 x" using x(3) r w by (auto simp: if_fire_def if_can_issue_def irq_inject_def live_def held_def still_def)
  have fy: "pl_if_inflight ?y" "\<not> pl_squash ?y" "pl_if_pc ?y = 0x80000004" "h_fetch ?h = Some 0x80000004"
    using f r x(4) by (simp_all add: inflight_next_def squash_next_def)
  let ?z = "pl_step 0x80000000 False ?i2 ?y" and ?k = "hist_step ?i2 ?y ?h"
  note v = wy[unfolded lw_waits_def]
  define u where "u = ?y"
  define hu where "hu = ?h"
  note y = y[folded u_def hu_def] and fy = fy[folded u_def hu_def] and v = v[folded u_def]
  have ru: "\<not> wb_redirect u" "stall_mem u" "pipe_busy u" "mem_rsp ?i2 u" "\<not> branch_redirect u" using v
    by (simp_all add: wb_redirect_def stall_mem_def pipe_busy_def mem_rsp_def still_def branch_redirect_def ex_take_branch_def ex_take_jal_def ex_take_jalr_def)
  have s: "pl_shape u" using v by (simp add: live_def)
  have na: "\<not> me_is_amo_rmw (pl_mem u)" using shapeD(3)[OF s] v lw_div_words(1) by (auto simp: mem_shape_def class_defs Let_def)
  have eu: "pl_env ?i2 u" using ru na by (simp add: pl_env_def div_survives_def still_def)
  have z: "pl_run 0x80000000 lw_then_div (pl_step 0x80000000 False ?i2 u) (hist_step ?i2 u hu)"
    by (rule pl_run.cycle[OF y eu]) (use fy in \<open>simp add: fetch_serves_def still_def lw_then_div_def\<close>)
  have m: "mem_next ?i2 u = (pl_mem u)\<lparr>me_ls_pending := False\<rparr>" using ru v na by (simp add: mem_next_def still_def Let_def)
  have "\<not> irq_inject ?i2 u" using ru(3) by (simp add: irq_inject_def)
  then have "id_next ?i2 u = \<lparr>id_valid = True, id_pc = 0x80000004, id_instr = 0x02A5C533, id_fault = False, id_pagefault = False, id_irq = False, id_irq_cause = 0\<rparr>"
    using ru fy v by (simp add: id_next_def rsp_arriving_def still_def Let_def)
  moreover have "ml_bus_fault (latch_next ?i2 u)" using latch_waits(1)[OF ru(2,1), of ?i2] ru(4) by (simp add: still_def)
  moreover have "ex_next ?i2 u = pl_ex u" using ru(2) by (simp add: ex_next_cases stall_ex_def)
  ultimately show ?thesis using z m v ru live_run[OF z]
    by (intro exI[of _ "pl_step 0x80000000 False ?i2 u"] exI[of _ "hist_step ?i2 u hu"]) simp
qed

text \<open>
  C29. A divide is not flushed by the trap of an older instruction: on a run of the program that loads from address 0 and
  divides, the load commits its access fault while the divide is in EX, and whatever the inputs are, the divide is still in
  EX after the redirect to the handler.
\<close>

theorem pl_divide_survives:
  "\<exists>x h. pl_run 0x80000000 lw_then_div x h \<and>
    (\<forall>i. (\<exists>c. pl_commit i x = Some c \<and> cm_pc c = 0x80000000 \<and> cm_trap c) \<and>
      (let y = pl_step 0x80000000 False i x in
        pl_pc y = wb_redirect_pc i x \<and> ex_valid (pl_ex y) \<and> ex_pc (pl_ex y) = 0x80000004 \<and> ex_instr (pl_ex y) = 0x02A5C533 \<and>
        ct_rd_wen (ex_ctl (pl_ex y)) \<and> ex_trap y = None))"
proof -
  obtain x h where x: "pl_run 0x80000000 lw_then_div x h" "live x" "me_valid (pl_mem x)" "me_instr (pl_mem x) = 0x00002003" "me_pc (pl_mem x) = 0x80000000"
    "\<not> me_ls_pending (pl_mem x)" "\<not> me_trap (pl_mem x)" "ml_bus_fault (pl_latch x)" "\<not> wb_valid (pl_wb x)" "\<not> ex_valid (pl_ex x)"
    "id_valid (pl_id x)" "\<not> id_irq (pl_id x)" "id_instr (pl_id x) = 0x02A5C533" "id_pc (pl_id x) = 0x80000004"
    using div_in_id by blast
  let ?y = "pl_step 0x80000000 False still x" and ?w = "0x02A5C533 :: u32"
  note dc = div_class[OF lw_div_words(3)]
  have s: "pl_shape x" and dv: "pl_div_inv x" using x(2) by (simp_all add: live_def)
  note ms = shapeD(3)[OF s]
  have fl: "me_rd (pl_mem x) = 0" "\<not> me_is_serial (pl_mem x)" "\<not> is_csr (me_instr (pl_mem x))" "mem_insn (me_instr (pl_mem x))" "\<not> me_has_result (pl_mem x)"
    using ms x(3,4,7) lw_div_words(1,2,5) by (auto simp: mem_shape_def Let_def mem_insn_def class_defs)
  have n: "\<not> wb_redirect x" "\<not> stall_mem x" "\<not> stall_ex x" "\<not> irq_inject still x" "\<not> stall_id x"
    using x(3,6,9,10,13) fl dc(3)
    by (simp_all add: wb_redirect_def stall_mem_def mem_csrw_satp_def stall_ex_def ex_div_stall_def irq_inject_def pipe_busy_def stall_id_def
        load_use_hazard_def serial_inflight_def Let_def)
  have "issues still x" using n x(11) by (simp add: issues_def id_will_bubble_def)
  then have ex: "pl_ex ?y = ex_next still x" "ex_valid (ex_next still x)" "ex_instr (ex_next still x) = ?w" "ex_pc (ex_next still x) = 0x80000004"
    "ex_ctl (ex_next still x) = id_ctl ?w" using n(3) x(13,14) by (simp_all add: ex_next_cases)
  have lv: "leaves x" using n x(3) by (simp add: leaves_def)
  have "bus_fails x" using bus_op_iff[OF ms x(3)] fl x(7,8) by (simp add: bus_fails_def)
  then have wt: "wb_valid (pl_wb ?y)" "wb_trap (pl_wb ?y)" "wb_pc (pl_wb ?y) = 0x80000000" using wb_leaves(1)[OF s lv refl] n x(3,5) by simp_all
  have e: "pl_env still x" using n x(6) by (simp add: pl_env_def mem_rsp_def div_survives_def still_def)
  have run: "pl_run 0x80000000 lw_then_div ?y (hist_step still x h)"
    by (rule pl_run.cycle[OF x(1) e]) (simp add: fetch_serves_def still_def)
  have sy: "pl_shape ?y" using pl_run_inv[OF run] by (simp add: pl_inv_def)
  have "\<not> pl_div_done ?y" using dv x(10) by (simp add: div_done_next_def pl_div_inv_def div_rests_def)
  moreover have r: "wb_redirect ?y" using wt by (simp add: wb_redirect_def del: pl_sel)
  ultimately have sv: "div_survives ?y" using ex lw_div_words(3) by (simp add: div_survives_def ex_div_stall_def id_ctl_def del: pl_sel)
  have kept: "pl_ex (pl_step 0x80000000 False i ?y) = pl_ex ?y" for i using div_kept(1)[OF sv, of i] unfolding pl_sel(6) .
  have rd: "ct_rd_wen (id_ctl ?w)" by code_simp
  have "\<exists>c. pl_commit i ?y = Some c \<and> cm_pc c = 0x80000000 \<and> cm_trap c" for i using wt by (simp add: pl_commit_def del: pl_sel)
  moreover have "pl_pc (pl_step 0x80000000 False i ?y) = wb_redirect_pc i ?y" for i using r unfolding pl_sel(1) by (simp add: pc_next_def del: pl_sel)
  moreover have "ex_trap (pl_step 0x80000000 False i ?y) = None" for i
  proof (rule div_no_trap)
    show "is_div_variant (ex_instr (pl_ex (pl_step 0x80000000 False i ?y)))" using kept ex(1,3) lw_div_words(3) by simp
    then show "ex_shape (pl_csr (pl_step 0x80000000 False i ?y)) (pl_ex (pl_step 0x80000000 False i ?y))"
      using shapeD(2)[OF sy] div_legal[OF lw_div_words(3)] unfolding kept by (simp add: ex_shape_def ex(1,3) del: pl_sel)
  qed
  ultimately show ?thesis using run unfolding Let_def kept ex(1) ex(3,4,5)
    by (intro exI[of _ ?y] exI[of _ "hist_step still x h"] conjI allI) (simp_all only: ex rd simp_thms kept)
qed

end
