(* ===== verification/Spec2Isabelle.thy ===== *)
theory Spec2Isabelle
  imports Sim_Main Sim_Linux Demos Freertos Memtest Timer_Fw Arith Csr_Trap Plic Mmu_Tlb Dcache_Coherent Icache_Coherent Axi_Path Core_Run Soc_Exec Pipe_Refine Pipe_Live Pipe_Divide
begin

text \<open>
  A model of Qinglong-Core: a RV32IMA system-on-chip in SystemVerilog, the C++ programs that simulate it, and the
  C programs that run on it, with the theorems that make its parts correct.

  \<^bold>\<open>The program.\<close> \<open>rtl/core\<close> holds two cores, a multi-cycle one and a pipelined one, and what they share: ALU,
  multiplier, divider, immediate generator, register file, CSR file, MMU with its protection checker. \<open>rtl/cache\<close>
  holds an instruction and a data cache. \<open>rtl/soc/soc_top.sv\<close> joins one core, the MMU, the caches when they are
  configured, the SRAM, the MMIO block, CLINT and PLIC, and an AXI4 master for the external bus; in simulation the
  routers and the slaves of \<open>rtl/mem\<close> stand on that bus. The harnesses \<open>sim/cpp/sim_main.cpp\<close> (an ELF image in the
  SRAM) and \<open>sim/cpp/sim_linux.cpp\<close> (boot ROM, OpenSBI, kernel and device tree) load images through the memories'
  backdoors, clock the model, print its console and report how it ended. \<open>sw\<close> holds the drivers, tests and demos.

  \<^bold>\<open>How it is modelled.\<close> A clocked module is a record of its registers and a function from inputs and state to
  the next state (\<open>clint_step\<close>, \<open>ptw_next\<close>, \<open>mc_step\<close> and so on): non-blocking assignments read the state before
  the edge. Its outputs are functions of inputs and state. Signals are words of their width, so arithmetic wraps as in
  the source; arrays are functions on indices; one-bit wires are truth values. A C++ or C routine is a function on
  explicit state; a thrown exception or an early exit is a value of a sum or option type; a loop that may run for ever
  is a partial function whose value is then \<open>None\<close>. What is not in the repository is a parameter: the mapped file and
  the host's number parsing for the harnesses, the verilated model (a record of operations) for the run loops, the
  slave behind the AXI4 shim, the memory behind the walker and the caches.

  \<^bold>\<open>Theories.\<close>
  \<^item> \<open>Prelude\<close>: words, bit fields (\<open>fld\<close>, \<open>put_fld\<close>, \<open>put_bit\<close>), byte lanes, \<open>apply_wmask\<close>, the error bind.
  \<^item> \<open>Elf_Loader\<close>, \<open>Cli\<close>, \<open>Run_Loop\<close>, \<open>Sim_Main\<close>, \<open>Sim_Linux\<close>: \<open>sim/cpp\<close>. The loader's image equals a
    specification over the program headers, every malformed header is refused, and the zero fill ends exactly when its
    counter does not wrap; the harness loads the image the ELF describes and its verdict says how the run ended. The
    loop locale \<open>capped_loop\<close> is interpreted by both harnesses.
  \<^item> \<open>Bus\<close>, \<open>Memories\<close>, \<open>Clint\<close>, \<open>Plic\<close>, \<open>Mmio_Uart\<close>: the devices of \<open>rtl/soc\<close> and the SRAM and DDR of
    \<open>rtl/mem\<close>. The locale \<open>bus_slave\<close> is the contract of a device on the data bus (an answer in the next cycle exactly
    to an accepted request), interpreted by CLINT, PLIC and MMIO; \<open>word_backdoor\<close> is the contract of the backdoors.
  \<^item> \<open>Axil\<close>, \<open>Axi\<close>, \<open>Axi_Path\<close>: the AXI4-Lite slaves (locale \<open>axil_write_slave\<close>, three interpretations), the master
    shim, the routers, and the whole external bus of the Linux test bench, which answers every request sequence as a
    memory and a console would.
  \<^item> \<open>Firmware\<close>, \<open>Demos\<close>, \<open>Freertos\<close>, \<open>Memtest\<close>, \<open>Timer_Fw\<close>: \<open>sw\<close>. The locale \<open>console\<close> gives the printers their text on any
    character sink, and is interpreted for both drivers on the device models; the memory test reports a stuck line; the
    timer code reads and sets the 64-bit registers of the CLINT model race-free; the two FreeRTOS tasks share the UART
    under any preemption of a kernel that schedules by priority.
  \<^item> \<open>Arith\<close>: ALU, multiplier, divider (with its latency and the cases the manual fixes), immediates, registers.
  \<^item> \<open>Pmp\<close>, \<open>Csr\<close>, \<open>Csr_Trap\<close>: protection entries against regions of addresses; CSR reads, masked writes, traps,
    returns, delegation, choice of interrupts, locks, and what lower modes cannot reach.
  \<^item> \<open>Mmu\<close>, \<open>Mmu_Walk\<close>, \<open>Mmu_Tlb\<close>: \<open>rtl/core/mmu.sv\<close>. The walker computes the SV32 translation for any memory
    timing; the buffers hold translations of the page tables; fences remove what they name.
  \<^item> \<open>Cache_Geom\<close>, \<open>Icache\<close>, \<open>Icache_Coherent\<close>, \<open>Dcache\<close>, \<open>Dcache_Coherent\<close>: the caches at their default geometry
    (64 sets, 4 ways, 16 words), over a memory with any latency. For the instruction cache memory may also be stored to
    and may refuse a word at any time, and the pulse may come at any time: the model collects the words for which a fetch
    may then miss a store, since the pulse spares the line in flight and a refused fill spoils the line it was to replace.
  \<^item> \<open>Core_Decode\<close>, \<open>Core_Mc\<close>: the multi-cycle core. \<open>Rv32_Spec\<close> is the reference, an abstract syntax of RV32IMA with
    a decoder and the meaning of an instruction as an interaction with memory (\<open>act\<close>); \<open>Rv32_Datapath\<close> and \<open>Core_Isa\<close>
    relate the two, \<open>Core_Run\<close> has the invariants of reachable states and the refinement theorems.
  \<^item> \<open>Pipe_Core\<close>: the pipelined core, its stage registers as records, one definition per signal, \<open>pl_step\<close> one clock
    cycle. \<open>Pipe_Isa\<close> states the RV32IMA meaning in the terms of the datapath functions of both cores. \<open>Pipe_Shape\<close>,
    \<open>Pipe_Keep\<close>: which stages can be full together, and what the stage registers keep. \<open>Pipe_Hist\<close>, \<open>Pipe_Mem\<close>,
    \<open>Pipe_Wb\<close>: the history of a run (the beats of the data port, the state after the last commit), forwarding, the
    divider and the beats of loads, stores and atomic operations. \<open>Pipe_Flow\<close>: program order through fetches, squashes,
    branches, traps and interrupts. \<open>Pipe_Run\<close>, \<open>Pipe_Refine\<close>: on every run within the conditions of
    \<open>pl_env\<close> (below) the core commits RV32IMA, in order, with precise traps, and sends no speculative request.
    \<open>Pipe_Live\<close>: it never stops. \<open>Pipe_Divide\<close>: the flush it lacks.
  \<^item> \<open>Soc_Bus\<close>, \<open>Soc_Serve\<close>: the interconnect of \<open>soc_top.sv\<close> (decoders, arbiters, responders, merges) over the
    device models, and the invariant that ties response registers to pending requests.
  \<^item> \<open>Soc_Top\<close>, \<open>Soc_Core\<close>, \<open>Soc_Exec\<close>: core, request register, MMU and interconnect as one state, wired as in the
    source (\<open>wires\<close>, a relation, since the ready signals run against the requests; \<open>wires_exist\<close> shows that the network
    settles). On it, what is executed is what is stored at the pc, and memory instructions do to the SRAM what they mean.

  \<^bold>\<open>Groups of lemmas.\<close> For each component: equations of its outputs and next state (\<open>..._sel\<close>, \<open>..._fields\<close>); an
  invariant with its preservation by every step (\<open>mc_wf\<close>, \<open>pl_inv\<close>, \<open>soc_inv\<close>, \<open>data_ok\<close>, \<open>fetch_ok\<close>, \<open>mmu_inv\<close> and the cache
  invariants); a specification in terms of the programmer's view; and the refinement between the two. Properties
  carry an identifier C1, C2, ... in the text before them, in the order of importance; each with a hypothesis is followed
  by an application to a concrete state or input.

  \<^bold>\<open>Bounds.\<close> No fuel is used. The divider is followed for its fixed 32 steps, which fit in the 64 cycles between two
  commits of the pipelined core; walks and fills are bounded by the responses of the memory; the run loops stop at the cap of the command line, or never, and then have no value. The
  indices of CSRs, protection entries, interrupt sources and ways range over the sizes of the source.

  \<^bold>\<open>Not modelled.\<close>
  \<^item> \<open>soc_top.sv\<close> with the pipelined core or with the caches, and the formal wrapper. The runs of the pipelined core are
    under \<open>pl_env\<close>: memory answers the requests it accepts, a page fault of an atomic operation is repeated for its store
    beat, a fetch that faults does not deliver a divide, and no older instruction redirects while a divide is unfinished in
    EX. The last is not a matter of the surroundings: the core lacks that flush. Encodings that RV32IMA reserves and the
    core executes are left open.
  \<^item> Composed runs (\<open>soc_top_run\<close>) are in bare mode: no address translation and no protection entry. The MMU under
    translation is the subject of its own theories.
  \<^item> Tracing, waveforms, debug taps and probes; constant AXI attributes; the state codes a register cannot hold.
  \<^item> FPGA tops and scripts, assembly sources, Python tools, and the FreeRTOS kernel, which is not in the repository.
\<close>

end
